(* ===== verification/Oai_Prelude.thy ===== *)
theory Oai_Prelude
  imports Main "HOL-Library.Word" "HOL-Library.Monad_Syntax"
begin

text \<open>
  Prelude of the development: the C integer conversions the layer-2 code performs, C division
  and remainder, byte memory as seen through a pointer, and the generic lemmas on lists and
  modular arithmetic that the component theories share, and the fold of a partial operation over a list.

  Integers whose wrap-around matters are kept either as machine words or as \<^typ>\<open>int\<close> with the
  conversion to the declared C type written at every assignment (\<open>to_u8\<close>, \<open>to_u16\<close>, ...).
  The collection \<open>wrap_simps\<close> gathers the facts that discharge such conversions in range.
\<close>

named_theorems wrap_simps
named_theorems oai_inv

unbundle bit_operations_syntax

section \<open>C integer conversions\<close>

definition to_u8 :: "int \<Rightarrow> int" where
  "to_u8 x = x mod 256"

definition to_u16 :: "int \<Rightarrow> int" where
  "to_u16 x = x mod 65536"

definition to_u32 :: "int \<Rightarrow> int" where
  "to_u32 x = x mod 4294967296"

definition to_s16 :: "int \<Rightarrow> int" where
  "to_s16 x = (x + 32768) mod 65536 - 32768"

definition to_s32 :: "int \<Rightarrow> int" where
  "to_s32 x = (x + 2147483648) mod 4294967296 - 2147483648"

lemma to_u8_id [wrap_simps]: "0 \<le> x \<Longrightarrow> x < 256 \<Longrightarrow> to_u8 x = x"
  by (simp add: to_u8_def)

lemma to_u16_id [wrap_simps]: "0 \<le> x \<Longrightarrow> x < 65536 \<Longrightarrow> to_u16 x = x"
  by (simp add: to_u16_def)

lemma to_u32_id [wrap_simps]: "0 \<le> x \<Longrightarrow> x < 4294967296 \<Longrightarrow> to_u32 x = x"
  by (simp add: to_u32_def)

lemma to_s16_id [wrap_simps]: "-32768 \<le> x \<Longrightarrow> x < 32768 \<Longrightarrow> to_s16 x = x"
  by (simp add: to_s16_def)

lemma to_s32_id [wrap_simps]: "-2147483648 \<le> x \<Longrightarrow> x < 2147483648 \<Longrightarrow> to_s32 x = x"
  by (simp add: to_s32_def)

lemma to_u8_range [simp]: "0 \<le> to_u8 x" "to_u8 x < 256"
  by (simp_all add: to_u8_def)

lemma to_u16_range [simp]: "0 \<le> to_u16 x" "to_u16 x < 65536"
  by (simp_all add: to_u16_def)

lemma to_u32_range [simp]: "0 \<le> to_u32 x" "to_u32 x < 4294967296"
  by (simp_all add: to_u32_def)

lemma to_s16_range [simp]: "-32768 \<le> to_s16 x" "to_s16 x < 32768"
proof -
  have "(x + 32768) mod 65536 < 65536" "0 \<le> (x + 32768) mod 65536" by simp_all
  then show "-32768 \<le> to_s16 x" "to_s16 x < 32768" by (simp_all add: to_s16_def)
qed

section \<open>C division and remainder\<close>

text \<open>C rounds the quotient towards zero, so the remainder has the sign of the dividend.\<close>

definition crem :: "int \<Rightarrow> int \<Rightarrow> int" where
  "crem a b = sgn a * (\<bar>a\<bar> mod \<bar>b\<bar>)"

definition cdiv :: "int \<Rightarrow> int \<Rightarrow> int" where
  "cdiv a b = sgn a * sgn b * (\<bar>a\<bar> div \<bar>b\<bar>)"

lemma crem_nonneg [simp]: "0 \<le> a \<Longrightarrow> 0 < b \<Longrightarrow> crem a b = a mod b"
  by (cases "a = 0") (simp_all add: crem_def)

lemma cdiv_nonneg [simp]: "0 \<le> a \<Longrightarrow> 0 < b \<Longrightarrow> cdiv a b = a div b"
  by (cases "a = 0") (simp_all add: cdiv_def)

lemma crem_small_neg: "-b < a \<Longrightarrow> a < 0 \<Longrightarrow> crem a b = a"
  by (simp add: crem_def)

lemma cdiv_crem: "b \<noteq> 0 \<Longrightarrow> cdiv a b * b + crem a b = a"
proof -
  assume "b \<noteq> 0"
  have b: "b * sgn b = \<bar>b\<bar>" by (simp add: abs_sgn)
  have "cdiv a b * b + crem a b = sgn a * (\<bar>a\<bar> div \<bar>b\<bar> * (b * sgn b) + \<bar>a\<bar> mod \<bar>b\<bar>)"
    by (simp add: cdiv_def crem_def ring_distribs mult_ac)
  also have "\<dots> = sgn a * \<bar>a\<bar>" by (simp only: b div_mult_mod_eq)
  finally show ?thesis by (simp add: sgn_mult_abs)
qed

section \<open>Modular facts\<close>

lemma mod_add_wrap:
  fixes a b m :: int
  assumes "0 \<le> a" "a < m" "0 \<le> b" "b < m"
  shows "(a + b) mod m = (if a + b < m then a + b else a + b - m)"
proof (cases "a + b < m")
  case True
  then show ?thesis using assms by simp
next
  case False
  then have "(a + b - m) mod m = a + b - m" using assms by (intro mod_pos_pos_trivial) auto
  then show ?thesis using False by simp
qed

lemma mod_diff_wrap:
  fixes a b m :: int
  assumes "0 \<le> a" "a < m" "0 \<le> b" "b < m"
  shows "(a - b) mod m = (if b \<le> a then a - b else a - b + m)"
proof (cases "b \<le> a")
  case True
  then show ?thesis using assms by simp
next
  case False
  then have "(a - b + m) mod m = a - b + m" using assms by (intro mod_pos_pos_trivial) auto
  then show ?thesis using False by simp
qed

section \<open>Byte memory\<close>

type_synonym byte = "8 word"

text \<open>
  The memory a \<open>char*\<close> points to, as a function of the offset. A buffer of known length
  is such a function together with its length: what lies beyond the length is arbitrary.
\<close>

type_synonym mem = "nat \<Rightarrow> byte"

definition mem_read :: "mem \<Rightarrow> nat \<Rightarrow> nat \<Rightarrow> byte list" where
  "mem_read m off n = map (\<lambda>i. m (off + i)) [0..<n]"

definition mem_write :: "mem \<Rightarrow> nat \<Rightarrow> byte list \<Rightarrow> mem" where
  "mem_write m off bs = (\<lambda>i. if off \<le> i \<and> i < off + length bs then bs ! (i - off) else m i)"

definition mem_at :: "mem \<Rightarrow> nat \<Rightarrow> mem" where
  "mem_at m off = (\<lambda>i. m (off + i))"

lemma mem_read_at [simp]: "mem_read (mem_at m a) b n = mem_read m (a + b) n"
  by (simp add: mem_read_def mem_at_def add.assoc)

lemma mem_at_at [simp]: "mem_at (mem_at m a) b = mem_at m (a + b)"
  by (simp add: mem_at_def add.assoc)

lemma mem_at_0 [simp]: "mem_at m 0 = m"
  by (simp add: mem_at_def)

lemma mem_at_apply: "mem_at m a i = m (a + i)"
  by (simp add: mem_at_def)

lemma length_mem_read [simp]: "length (mem_read m off n) = n"
  by (simp add: mem_read_def)

lemma nth_mem_read [simp]: "i < n \<Longrightarrow> mem_read m off n ! i = m (off + i)"
  by (simp add: mem_read_def)

lemma mem_read_0 [simp]: "mem_read m off 0 = []"
  by (simp add: mem_read_def)

lemma mem_read_add: "mem_read m off (a + b) = mem_read m off a @ mem_read m (off + a) b"
  by (rule nth_equalityI) (auto simp: nth_append)

lemma mem_read_write_same [simp]: "mem_read (mem_write m off bs) off (length bs) = bs"
  by (rule nth_equalityI) (auto simp: mem_write_def)

lemma mem_read_write_disj:
  "off' + n \<le> off \<or> off + length bs \<le> off' \<Longrightarrow> mem_read (mem_write m off bs) off' n = mem_read m off' n"
  by (rule nth_equalityI) (auto simp: mem_write_def)

lemma mem_write_nil [simp]: "mem_write m off [] = m"
  by (auto simp: mem_write_def fun_eq_iff)

lemma mem_read_cong: "(\<And>i. off \<le> i \<Longrightarrow> i < off + n \<Longrightarrow> m i = m' i) \<Longrightarrow> mem_read m off n = mem_read m' off n"
  by (rule nth_equalityI) auto

lemma mem_read_Suc: "mem_read m e (Suc n) = m e # mem_read m (e + 1) n"
  by (simp add: mem_read_def map_upt_Suc del: upt_Suc)

section \<open>Octet masks\<close>

lemma byte_eqI:
  assumes "bit a 0 = bit b 0" "bit a 1 = bit b 1" "bit a 2 = bit b 2" "bit a 3 = bit b 3"
    "bit a 4 = bit b 4" "bit a 5 = bit b 5" "bit a 6 = bit b 6" "bit a 7 = bit b 7"
  shows "a = (b :: byte)"
proof (rule bit_word_eqI)
  fix n assume "n < LENGTH(8)"
  then have "n = 0 \<or> n = 1 \<or> n = 2 \<or> n = 3 \<or> n = 4 \<or> n = 5 \<or> n = 6 \<or> n = 7" by auto
  then show "bit a n = bit b n" using assms by (elim disjE) simp_all
qed

lemma byte_masks:
  "(0xFF :: byte) = mask 8" "(0x7F :: byte) = mask 7" "(0x1F :: byte) = mask 5" "(0x0F :: byte) = mask 4"
  "(0x07 :: byte) = mask 3" "(0x03 :: byte) = mask 2"
  "(0xFF :: 16 word) = mask 8" "(0x0FFF :: 16 word) = mask 12" "(0x3FF :: 16 word) = mask 10"
  "(0x7FF :: 16 word) = mask 11"
  by (simp_all add: mask_eq_exp_minus_1)

lemma bit_0x80_iff: "bit (0x80 :: int) n \<longleftrightarrow> n = 7"
proof -
  have p: "(0x80 :: int) = 2 ^ 7" by simp
  show ?thesis unfolding p by (simp only: bit_exp_iff) auto
qed

section \<open>Lists\<close>

lemma sum_list_take_le: "(\<forall>x\<in>set xs. (0::int) \<le> x) \<Longrightarrow> sum_list (take n xs) \<le> sum_list xs"
proof -
  assume nn: "\<forall>x\<in>set xs. 0 \<le> x"
  have "sum_list xs = sum_list (take n xs) + sum_list (drop n xs)"
    by (metis append_take_drop_id sum_list_append)
  moreover have "0 \<le> sum_list (drop n xs)"
    using nn by (intro sum_list_nonneg) (auto dest: in_set_dropD)
  ultimately show ?thesis by simp
qed

lemma fold_inv:
  assumes "P s" "\<And>x s. x \<in> set xs \<Longrightarrow> P s \<Longrightarrow> P (f x s)"
  shows "P (fold f xs s)"
  using assms by (induction xs arbitrary: s) auto

section \<open>Loops that may fail\<close>

fun ofold :: "('a \<Rightarrow> 's \<Rightarrow> 's option) \<Rightarrow> 'a list \<Rightarrow> 's \<Rightarrow> 's option" where
  "ofold f [] s = Some s"
| "ofold f (x # xs) s = do { s' \<leftarrow> f x s; ofold f xs s' }"

lemma bind_case [code_unfold]: "Option.bind m f = (case m of None \<Rightarrow> None | Some x \<Rightarrow> f x)"
  by (cases m) simp_all

lemma ofold_rel:
  assumes "\<And>x s s'. x \<in> set xs \<Longrightarrow> f x s = Some s' \<Longrightarrow> R s s'" "\<And>s. R s s" "\<And>a b c. R a b \<Longrightarrow> R b c \<Longrightarrow> R a c" "ofold f xs s = Some s'"
  shows "R s s'"
  using assms(1,4)
proof (induction xs arbitrary: s)
  case Nil
  then show ?case using assms(2) by simp
next
  case (Cons x xs)
  then obtain t where t: "f x s = Some t" "ofold f xs t = Some s'" by (auto split: Option.bind_splits)
  have 1: "R s t" by (rule Cons.prems(1) [OF _ t(1)]) simp
  have "R t s'" by (rule Cons.IH [OF _ t(2)]) (use Cons.prems(1) in auto)
  with 1 show ?case by (rule assms(3))
qed

lemma ofold_same: "(\<And>x s s'. x \<in> set xs \<Longrightarrow> f x s = Some s' \<Longrightarrow> v s' = v s) \<Longrightarrow> ofold f xs s = Some s' \<Longrightarrow> v s' = v s"
  by (rule ofold_rel [where R = "\<lambda>s s'. v s' = v s" and xs = xs and f = f]) auto

lemma ofold_all:
  assumes "\<And>x s s'. f x s = Some s' \<Longrightarrow> I s \<Longrightarrow> I s' \<and> Q x s'" "\<And>x y s s'. f x s = Some s' \<Longrightarrow> I s \<Longrightarrow> Q y s \<Longrightarrow> Q y s'"
    and "ofold f xs s = Some s'" "I s" "\<forall>y\<in>Y. Q y s"
  shows "I s' \<and> (\<forall>x\<in>set xs \<union> Y. Q x s')"
  using assms(3-5)
proof (induction xs arbitrary: s Y)
  case (Cons x xs)
  then obtain t where t: "f x s = Some t" "ofold f xs t = Some s'" by (auto split: Option.bind_splits)
  have i: "I t" "Q x t" using assms(1) [OF t(1) Cons.prems(2)] by auto
  have "\<forall>y\<in>insert x Y. Q y t" using i(2) assms(2) [OF t(1) Cons.prems(2)] Cons.prems(3) by blast
  from Cons.IH [OF t(2) i(1) this] show ?case by simp
qed simp

lemma ofold_total:
  assumes "\<And>x s. x \<in> set xs \<Longrightarrow> I s \<Longrightarrow> \<exists>s'. f x s = Some s' \<and> I s'" "I s"
  shows "\<exists>s'. ofold f xs s = Some s' \<and> I s'"
  using assms
proof (induction xs arbitrary: s)
  case (Cons x xs)
  obtain t where t: "f x s = Some t" "I t" using Cons.prems(1) [of x s] Cons.prems(2) by auto
  have "\<exists>s'. ofold f xs t = Some s' \<and> I s'" by (rule Cons.IH [OF _ t(2)]) (use Cons.prems(1) in auto)
  then show ?case using t(1) by simp
qed simp

lemma ofold_inv:
  assumes "ofold f xs s = Some s'" "P s" "\<And>x s s'. x \<in> set xs \<Longrightarrow> f x s = Some s' \<Longrightarrow> P s \<Longrightarrow> P s'"
  shows "P s'"
  using assms
proof (induction xs arbitrary: s)
  case (Cons x xs)
  then obtain t where t: "f x s = Some t" "ofold f xs t = Some s'" by (auto split: Option.bind_splits)
  have "P t" by (rule Cons.prems(3) [OF _ t(1) Cons.prems(2)]) simp
  show ?case by (rule Cons.IH [OF t(2) \<open>P t\<close>]) (use Cons.prems(3) in auto)
qed simp

lemma ofold_append: "ofold f (xs @ ys) s = Option.bind (ofold f xs s) (ofold f ys)"
  by (induction xs arbitrary: s) (auto split: Option.bind_splits)

lemma ofold_once:
  assumes "ofold f ps s = Some s'" "distinct ps" "p \<in> set ps" "\<And>q t t'. q \<noteq> p \<Longrightarrow> f q t = Some t' \<Longrightarrow> v t' = v t"
  shows "\<exists>t t'. v t = v s \<and> f p t = Some t' \<and> v s' = v t'"
proof -
  obtain xs ys where ps: "ps = xs @ p # ys" "p \<notin> set xs" using split_list_first [OF assms(3)] by blast
  then have ys: "p \<notin> set ys" using assms(2) by simp
  obtain t t' where t: "ofold f xs s = Some t" "f p t = Some t'" "ofold f ys t' = Some s'"
    using assms(1) unfolding ps ofold_append by (auto split: Option.bind_splits)
  have "v t = v s" by (rule ofold_same [OF _ t(1)], rule assms(4)) (use ps(2) in auto)
  moreover have "v s' = v t'" by (rule ofold_same [OF _ t(3)], rule assms(4)) (use ys in auto)
  ultimately show ?thesis using t(2) by blast
qed

lemma ofold_none:
  assumes "ofold f ps s = Some s'" "p \<notin> set ps" "\<And>q t t'. q \<noteq> p \<Longrightarrow> f q t = Some t' \<Longrightarrow> v t' = v t"
  shows "v s' = v s"
  by (rule ofold_same [OF _ assms(1)], rule assms(3)) (use assms(2) in auto)

end
