(* ===== verification/Mem_List.thy ===== *)
theory Mem_List
  imports Oai_Prelude
begin

text \<open>
  The linked lists of memory blocks every layer-2 queue is made of (\<open>list.c\<close>, \<open>list2.c\<close>). A heap gives
  the \<open>next\<close> and \<open>previous\<close> pointer of every block; a list is the record of its head and tail pointers
  and its counter. NULL is \<open>None\<close>, a dereference of NULL makes the operation \<open>None\<close>. Releasing a list
  is in the theory of the memory pools, where \<open>free_mem_block\<close> is.

  The lemmas show that the operations refine the operations on HOL lists, and that they leave every
  other list of the same heap alone; the locales \<open>mem_queue\<close> and \<open>mem_deque\<close> state the two contracts.
\<close>

section \<open>Blocks and lists\<close>

type_synonym addr = nat

record mem_heap =
  blk_next :: "addr \<Rightarrow> addr option"
  blk_previous :: "addr \<Rightarrow> addr option"

record list_t =
  head :: "addr option"
  tail :: "addr option"
  nb_elements :: int
  name :: string

type_synonym list2_t = list_t

definition set_next :: "addr \<Rightarrow> addr option \<Rightarrow> mem_heap \<Rightarrow> mem_heap" where
  "set_next x p h = h\<lparr>blk_next := (blk_next h)(x := p)\<rparr>"

definition set_previous :: "addr \<Rightarrow> addr option \<Rightarrow> mem_heap \<Rightarrow> mem_heap" where
  "set_previous x p h = h\<lparr>blk_previous := (blk_previous h)(x := p)\<rparr>"

section \<open>Singly linked lists\<close>

definition list_init :: "list_t \<Rightarrow> string option \<Rightarrow> list_t" where
  "list_init l nameP =
     (case nameP of None \<Rightarrow> l | Some s \<Rightarrow> l\<lparr>name := take 31 s\<rparr>)\<lparr>tail := None, head := None, nb_elements := 0\<rparr>"

definition list_get_head :: "list_t \<Rightarrow> addr option" where
  "list_get_head l = head l"

definition list_remove_head :: "mem_heap \<Rightarrow> list_t \<Rightarrow> addr option \<times> mem_heap \<times> list_t" where
  "list_remove_head h l =
     (case head l of
        None \<Rightarrow> (None, h, l)
      | Some x \<Rightarrow>
          let l1 = l\<lparr>head := blk_next h x, nb_elements := to_s32 (nb_elements l - 1)\<rparr> in
          if head l1 = None then (Some x, h, l1\<lparr>tail := None\<rparr>)
          else (Some x, set_next x None h, l1))"

partial_function (option) list_unlink ::
  "mem_heap \<Rightarrow> list_t \<Rightarrow> addr \<Rightarrow> addr option \<Rightarrow> (mem_heap \<times> list_t) option" where
  "list_unlink h l e cur =
     (if cur = None then Some (h, l)
      else if blk_next h (the cur) = Some e
      then Some (set_next (the cur) (blk_next h e) h,
                 l\<lparr>nb_elements := to_s32 (nb_elements l - 1), tail := (if tail l = Some e then cur else tail l)\<rparr>)
      else list_unlink h l e (blk_next h (the cur)))"

definition list_remove_element :: "addr option \<Rightarrow> mem_heap \<Rightarrow> list_t \<Rightarrow> (mem_heap \<times> list_t) option" where
  "list_remove_element elementP h l =
     (case elementP of
        None \<Rightarrow> Some (h, l)
      | Some e \<Rightarrow>
          if head l = Some e then (case list_remove_head h l of (_, h', l') \<Rightarrow> Some (h', l'))
          else list_unlink h l e (head l))"

definition list_add_head :: "addr option \<Rightarrow> mem_heap \<Rightarrow> list_t \<Rightarrow> mem_heap \<times> list_t" where
  "list_add_head elementP h l =
     (case elementP of
        None \<Rightarrow> (h, l)
      | Some e \<Rightarrow>
          let l1 = l\<lparr>nb_elements := to_s32 (nb_elements l + 1)\<rparr> in
          (case head l of
             None \<Rightarrow> (h, l1\<lparr>head := Some e, tail := Some e\<rparr>)
           | Some x \<Rightarrow> (set_next e (Some x) h, l1\<lparr>head := Some e\<rparr>)))"

definition list_add_tail_eurecom :: "addr option \<Rightarrow> mem_heap \<Rightarrow> list_t \<Rightarrow> mem_heap \<times> list_t" where
  "list_add_tail_eurecom elementP h l =
     (case elementP of
        None \<Rightarrow> (h, l)
      | Some e \<Rightarrow>
          let l1 = l\<lparr>nb_elements := to_s32 (nb_elements l + 1)\<rparr>;
              h1 = set_next e None h in
          (case tail l of
             None \<Rightarrow> (h1, l1\<lparr>head := Some e, tail := Some e\<rparr>)
           | Some t \<Rightarrow> (set_next t (Some e) h1, l1\<lparr>tail := Some e\<rparr>)))"

definition list_add_list :: "mem_heap \<Rightarrow> list_t \<Rightarrow> list_t \<Rightarrow> mem_heap \<times> list_t \<times> list_t" where
  "list_add_list h sub l =
     (if head sub = None then (h, sub, l)
      else
        let (h1, l1) = (case tail l of
               None \<Rightarrow> (h, l\<lparr>head := head sub\<rparr>)
             | Some t \<Rightarrow> (set_next t (head sub) h, l)) in
        (h1, sub\<lparr>head := None, tail := None, nb_elements := 0\<rparr>,
         l1\<lparr>tail := tail sub, nb_elements := to_s32 (nb_elements l + nb_elements sub)\<rparr>))"

section \<open>Doubly linked lists\<close>

definition list2_init :: "list2_t \<Rightarrow> string option \<Rightarrow> list2_t" where
  "list2_init l nameP =
     (case nameP of None \<Rightarrow> l | Some s \<Rightarrow> l\<lparr>name := take 31 s\<rparr>)\<lparr>tail := None, head := None, nb_elements := 0\<rparr>"

definition list2_remove_element :: "addr option \<Rightarrow> mem_heap \<Rightarrow> list2_t \<Rightarrow> (mem_heap \<times> list2_t) option" where
  "list2_remove_element elementP h l =
     (case elementP of
        None \<Rightarrow> Some (h, l)
      | Some e \<Rightarrow>
          let count = (\<lambda>l. l\<lparr>nb_elements := to_s32 (nb_elements l - 1)\<rparr>) in
          if head l = Some e then
            (case blk_next h e of
               None \<Rightarrow> Some (h, count (l\<lparr>head := None, tail := None\<rparr>))
             | Some n \<Rightarrow> Some (set_next e None (set_previous n None h), count (l\<lparr>head := Some n\<rparr>)))
          else if tail l = Some e then
            (case blk_previous h e of
               None \<Rightarrow> None
             | Some p \<Rightarrow> Some (set_previous e None (set_next p None h), count (l\<lparr>tail := Some p\<rparr>)))
          else
            (case (blk_previous h e, blk_next h e) of
               (Some p, Some n) \<Rightarrow>
                 Some (set_previous e None (set_next e None (set_previous n (Some p) (set_next p (Some n) h))), count l)
             | _ \<Rightarrow> None))"

definition list2_get_head :: "list2_t \<Rightarrow> addr option" where
  "list2_get_head l = head l"

definition list2_get_tail :: "list2_t \<Rightarrow> addr option" where
  "list2_get_tail l = tail l"

definition list2_remove_head :: "mem_heap \<Rightarrow> list2_t \<Rightarrow> addr option \<times> mem_heap \<times> list2_t" where
  "list2_remove_head h l =
     (case head l of
        None \<Rightarrow> (None, h, l)
      | Some x \<Rightarrow>
          let l1 = l\<lparr>head := blk_next h x, nb_elements := to_s32 (nb_elements l - 1)\<rparr> in
          (case blk_next h x of
             None \<Rightarrow> (Some x, h, l1\<lparr>tail := None\<rparr>)
           | Some n \<Rightarrow> (Some x, set_next x None (set_previous n None h), l1)))"

definition list2_remove_tail :: "mem_heap \<Rightarrow> list2_t \<Rightarrow> (addr option \<times> mem_heap \<times> list2_t) option" where
  "list2_remove_tail h l =
     (case tail l of
        None \<Rightarrow> Some (None, h, l)
      | Some t \<Rightarrow>
          let l1 = l\<lparr>nb_elements := to_s32 (nb_elements l - 1)\<rparr> in
          if head l = Some t then Some (Some t, set_previous t None h, l1\<lparr>head := None, tail := None\<rparr>)
          else
            (case blk_previous h t of
               None \<Rightarrow> None
             | Some p \<Rightarrow> Some (Some t, set_previous t None (set_next p None h), l1\<lparr>tail := Some p\<rparr>)))"

definition list2_add_head :: "addr option \<Rightarrow> mem_heap \<Rightarrow> list2_t \<Rightarrow> mem_heap \<times> list2_t" where
  "list2_add_head elementP h l =
     (case elementP of
        None \<Rightarrow> (h, l)
      | Some e \<Rightarrow>
          let l1 = l\<lparr>nb_elements := to_s32 (nb_elements l + 1)\<rparr> in
          (case head l of
             None \<Rightarrow> (set_next e None (set_previous e None h), l1\<lparr>head := Some e, tail := Some e\<rparr>)
           | Some x \<Rightarrow> (set_previous e None (set_previous x (Some e) (set_next e (Some x) h)), l1\<lparr>head := Some e\<rparr>)))"

definition list2_add_tail :: "addr option \<Rightarrow> mem_heap \<Rightarrow> list2_t \<Rightarrow> mem_heap \<times> list2_t" where
  "list2_add_tail elementP h l =
     (case elementP of
        None \<Rightarrow> (h, l)
      | Some e \<Rightarrow>
          let l1 = l\<lparr>nb_elements := to_s32 (nb_elements l + 1)\<rparr>;
              h1 = set_next e None h in
          (case tail l of
             None \<Rightarrow> (set_previous e None h1, l1\<lparr>head := Some e, tail := Some e\<rparr>)
           | Some t \<Rightarrow> (set_previous e (Some t) (set_next t (Some e) h1), l1\<lparr>tail := Some e\<rparr>)))"

definition list2_add_list :: "mem_heap \<Rightarrow> list2_t \<Rightarrow> list2_t \<Rightarrow> mem_heap \<times> list2_t \<times> list2_t" where
  "list2_add_list h sub l =
     (let (h1, sub1, l1) =
        (case head sub of
           None \<Rightarrow> (h, sub, l)
         | Some s \<Rightarrow>
             (let (h2, l2) = (case tail l of
                    None \<Rightarrow> (h, l\<lparr>head := Some s\<rparr>)
                  | Some t \<Rightarrow> (set_previous s (Some t) (set_next t (Some s) h), l)) in
              (h2, sub\<lparr>head := None, tail := None\<rparr>, l2\<lparr>tail := tail sub\<rparr>))) in
      (h1, sub1, l1\<lparr>nb_elements := to_s32 (nb_elements l1 + nb_elements sub1)\<rparr>))"

section \<open>Pointer chains\<close>

text \<open>\<open>seg nx p xs q\<close>: following \<open>nx\<close> from \<open>p\<close> visits the blocks \<open>xs\<close> and arrives at \<open>q\<close>.\<close>

fun seg :: "(addr \<Rightarrow> addr option) \<Rightarrow> addr option \<Rightarrow> addr list \<Rightarrow> addr option \<Rightarrow> bool" where
  "seg nx p [] q \<longleftrightarrow> p = q"
| "seg nx p (x # xs) q \<longleftrightarrow> p = Some x \<and> seg nx (nx x) xs q"

lemma seg_append: "seg nx p (xs @ ys) q \<longleftrightarrow> (\<exists>r. seg nx p xs r \<and> seg nx r ys q)"
  by (induction xs arbitrary: p) auto

lemma seg_snoc: "seg nx p (xs @ [x]) q \<longleftrightarrow> seg nx p xs (Some x) \<and> nx x = q"
  by (auto simp: seg_append)

lemma seg_upd [simp]: "x \<notin> set xs \<Longrightarrow> seg (nx(x := v)) p xs q \<longleftrightarrow> seg nx p xs q"
  by (induction xs arbitrary: p) auto

lemma seg_None [simp]: "seg nx None xs None \<longleftrightarrow> xs = []"
  by (cases xs) auto

definition list_ok :: "mem_heap \<Rightarrow> list_t \<Rightarrow> addr list \<Rightarrow> bool" where
  "list_ok h l xs \<longleftrightarrow> seg (blk_next h) (head l) xs None \<and> distinct xs
     \<and> tail l = (if xs = [] then None else Some (last xs)) \<and> nb_elements l = to_s32 (int (length xs))"

definition list2_ok :: "mem_heap \<Rightarrow> list2_t \<Rightarrow> addr list \<Rightarrow> bool" where
  "list2_ok h l xs \<longleftrightarrow> seg (blk_next h) (head l) xs None \<and> seg (blk_previous h) (tail l) (rev xs) None
     \<and> distinct xs \<and> nb_elements l = to_s32 (int (length xs))"

lemma to_s32_add [simp]: "to_s32 (to_s32 a + b) = to_s32 (a + b)" "to_s32 (to_s32 a - b) = to_s32 (a - b)" "to_s32 (a + to_s32 b) = to_s32 (a + b)" "to_s32 (to_s32 a) = to_s32 a"
proof -
  have m: "(x mod 4294967296 + c) mod 4294967296 = (x + c) mod (4294967296 :: int)" for x c by (rule mod_add_left_eq)
  show "to_s32 (to_s32 a + b) = to_s32 (a + b)" using m [of "a + 2147483648" b] by (simp add: to_s32_def algebra_simps)
  show "to_s32 (to_s32 a - b) = to_s32 (a - b)" using m [of "a + 2147483648" "- b"] by (simp add: to_s32_def algebra_simps)
  show "to_s32 (a + to_s32 b) = to_s32 (a + b)" using m [of "b + 2147483648" a] by (simp add: to_s32_def algebra_simps)
  show "to_s32 (to_s32 a) = to_s32 a" by (simp add: to_s32_def)
qed

lemma to_s32_0 [simp]: "to_s32 0 = 0" by (simp add: to_s32_def)

lemmas list_op_defs = list_init_def list_remove_head_def list_add_head_def list_add_tail_eurecom_def list_add_list_def
  set_next_def set_previous_def Let_def

lemmas list2_op_defs = list2_init_def list2_remove_head_def list2_remove_tail_def list2_remove_element_def
  list2_add_head_def list2_add_tail_def list2_add_list_def set_next_def set_previous_def Let_def

section \<open>Singly linked lists refine lists\<close>

lemma list_ok_distinct: "list_ok h l xs \<Longrightarrow> distinct xs"
  by (simp add: list_ok_def)

lemma list_ok_init: "list_ok h (list_init l nameP) []"
  by (simp add: list_ok_def list_op_defs split: option.split)

lemma list_get_head_ok: "list_ok h l xs \<Longrightarrow> list_get_head l = (if xs = [] then None else Some (hd xs))"
  by (cases xs) (auto simp: list_ok_def list_get_head_def)

lemma list_add_tail_ok:
  assumes "list_ok h l xs" "x \<notin> set xs" "list_add_tail_eurecom (Some x) h l = (h', l')"
  shows "list_ok h' l' (xs @ [x])"
proof (cases xs rule: rev_cases)
  case Nil
  then show ?thesis using assms by (auto simp: list_ok_def list_op_defs)
next
  case (snoc ys t)
  then show ?thesis using assms by (auto simp: list_ok_def list_op_defs seg_append)
qed

lemma list_add_tail_frame:
  assumes "list_ok h l xs" "list_ok h m ys" "set ys \<inter> insert x (set xs) = {}" "list_add_tail_eurecom (Some x) h l = (h', l')"
  shows "list_ok h' m ys"
proof (cases xs rule: rev_cases)
  case Nil
  then show ?thesis using assms by (auto simp: list_ok_def list_op_defs)
next
  case (snoc zs t)
  then show ?thesis using assms by (auto simp: list_ok_def list_op_defs)
qed

lemma list_remove_head_ok: 
  assumes "list_ok h l (x # xs)"
  shows "\<exists>h' l'. list_remove_head h l = (Some x, h', l') \<and> list_ok h' l' xs"
  using assms by (cases xs) (auto simp: list_ok_def list_op_defs)

lemma list_remove_head_empty: "list_ok h l [] \<Longrightarrow> list_remove_head h l = (None, h, l)"
  by (simp add: list_ok_def list_op_defs)

lemma list_remove_head_frame:
  assumes "list_ok h l xs" "list_ok h m ys" "set ys \<inter> set xs = {}" "list_remove_head h l = (r, h', l')"
  shows "list_ok h' m ys"
  using assms by (cases xs) (auto simp: list_ok_def list_op_defs split: if_splits)

lemma list_add_head_ok:
  assumes "list_ok h l xs" "x \<notin> set xs" "xs = [] \<longrightarrow> blk_next h x = None" "list_add_head (Some x) h l = (h', l')"
  shows "list_ok h' l' (x # xs)"
  using assms by (cases xs) (auto simp: list_ok_def list_op_defs)

lemma list_add_list_ok:
  assumes "list_ok h l xs" "list_ok h sub ys" "set xs \<inter> set ys = {}" "list_add_list h sub l = (h', sub', l')"
  shows "list_ok h' sub' [] \<and> list_ok h' l' (xs @ ys)"
proof (cases "ys = []")
  case True
  then show ?thesis using assms by (simp add: list_ok_def list_op_defs)
next
  case False
  then have hd: "head sub \<noteq> None" using assms(2) by (cases ys) (auto simp: list_ok_def)
  show ?thesis
  proof (cases xs rule: rev_cases)
    case Nil
    then show ?thesis using assms False hd by (auto simp: list_ok_def list_op_defs)
  next
    case (snoc zs t)
    then show ?thesis using assms False hd by (auto simp: list_ok_def list_op_defs seg_append add.assoc)
  qed
qed

lemma list_unlink_found:
  assumes "seg (blk_next h) cur (as @ p # e # vs) None" "distinct (as @ p # e # vs)"
  shows "list_unlink h l e cur = Some (set_next p (blk_next h e) h,
    l\<lparr>nb_elements := to_s32 (nb_elements l - 1), tail := (if tail l = Some e then Some p else tail l)\<rparr>)"
  using assms
proof (induction as arbitrary: cur)
  case Nil
  then show ?case by (subst list_unlink.simps) auto
next
  case (Cons a as)
  then have "blk_next h a \<noteq> Some e" by (cases as) auto
  then show ?case using Cons by (subst list_unlink.simps) auto
qed

lemma list_unlink_absent:
  assumes "seg (blk_next h) cur ws None" "e \<notin> set ws"
  shows "list_unlink h l e cur = Some (h, l)"
  using assms
proof (induction ws arbitrary: cur)
  case Nil
  then show ?case by (subst list_unlink.simps) simp
next
  case (Cons a ws)
  then have "blk_next h a \<noteq> Some e" by (cases ws) auto
  then show ?case using Cons by (subst list_unlink.simps) auto
qed

lemma list_remove_element_ok:
  assumes "list_ok h l xs"
  shows "\<exists>h' l'. list_remove_element (Some e) h l = Some (h', l') \<and> list_ok h' l' (remove1 e xs)"
proof (cases "e \<in> set xs")
  case False
  then have "head l \<noteq> Some e" using assms by (cases xs) (auto simp: list_ok_def)
  then show ?thesis using assms False list_unlink_absent [of h "head l" xs e l] by (simp add: list_remove_element_def list_ok_def remove1_idem)
next
  case True
  then obtain us vs where xs: "xs = us @ e # vs" "e \<notin> set us" by (meson split_list_first)
  show ?thesis
  proof (cases us rule: rev_cases)
    case Nil
    then have "list_ok h l (e # vs)" "head l = Some e" using assms xs by (auto simp: list_ok_def)
    then show ?thesis using list_remove_head_ok [of h l e vs] xs Nil by (auto simp: list_remove_element_def)
  next
    case (snoc as p)
    then have d: "seg (blk_next h) (head l) (as @ p # e # vs) None" "distinct (as @ p # e # vs)"
      using assms xs by (auto simp: list_ok_def)
    then have ne: "head l \<noteq> Some e" by (cases as) auto
    have "list_ok (set_next p (blk_next h e) h)
       (l\<lparr>nb_elements := to_s32 (nb_elements l - 1), tail := (if tail l = Some e then Some p else tail l)\<rparr>) (as @ p # vs)"
      using assms d xs snoc by (cases "vs = []") (auto simp: list_ok_def set_next_def seg_append)
    then show ?thesis using list_unlink_found [OF d] ne xs snoc by (simp add: list_remove_element_def remove1_append)
  qed
qed


section \<open>Doubly linked lists refine lists\<close>

lemma list2_ok_distinct: "list2_ok h l xs \<Longrightarrow> distinct xs"
  by (simp add: list2_ok_def)

lemma list2_ok_init: "list2_ok h (list2_init l nameP) []"
  by (simp add: list2_ok_def list2_op_defs split: option.split)

lemma list2_ok_head: "list2_ok h l xs \<Longrightarrow> head l = (if xs = [] then None else Some (hd xs))"
  by (cases xs) (auto simp: list2_ok_def)

lemma list2_ok_tail: "list2_ok h l xs \<Longrightarrow> tail l = (if xs = [] then None else Some (last xs))"
  by (cases xs rule: rev_cases) (auto simp: list2_ok_def)

lemma list2_ok_middle:
  assumes "list2_ok h l (us @ p # e # n # vs)"
  shows "blk_previous h e = Some p" "blk_next h e = Some n"
  using assms by (auto simp: list2_ok_def seg_append)

lemma list2_add_tail_ok:
  assumes "list2_ok h l xs" "x \<notin> set xs" "list2_add_tail (Some x) h l = (h', l')"
  shows "list2_ok h' l' (xs @ [x])"
proof (cases xs rule: rev_cases)
  case Nil
  then show ?thesis using assms by (auto simp: list2_ok_def list2_op_defs)
next
  case (snoc ys t)
  then show ?thesis using assms by (auto simp: list2_ok_def list2_op_defs seg_append)
qed

lemma list2_add_tail_frame:
  assumes "list2_ok h l xs" "list2_ok h m ys" "set ys \<inter> insert x (set xs) = {}" "list2_add_tail (Some x) h l = (h', l')"
  shows "list2_ok h' m ys"
proof (cases xs rule: rev_cases)
  case Nil
  then show ?thesis using assms by (auto simp: list2_ok_def list2_op_defs)
next
  case (snoc zs t)
  then show ?thesis using assms by (auto simp: list2_ok_def list2_op_defs)
qed

lemma list2_remove_head_empty: "list2_ok h l [] \<Longrightarrow> list2_remove_head h l = (None, h, l)"
  by (simp add: list2_ok_def list2_op_defs)

lemma list2_remove_head_ok:
  assumes "list2_ok h l (x # xs)"
  shows "\<exists>h' l'. list2_remove_head h l = (Some x, h', l') \<and> list2_ok h' l' xs"
  using assms by (cases xs) (auto simp: list2_ok_def list2_op_defs seg_append)

lemma list2_remove_head_frame:
  assumes "list2_ok h l xs" "list2_ok h m ys" "set ys \<inter> set xs = {}" "list2_remove_head h l = (r, h', l')"
  shows "list2_ok h' m ys"
proof (cases xs)
  case Nil
  then show ?thesis using assms list2_remove_head_empty by auto
next
  case (Cons x zs)
  then show ?thesis using assms by (cases zs) (auto simp: list2_ok_def list2_op_defs)
qed

lemma list2_add_head_ok:
  assumes "list2_ok h l xs" "x \<notin> set xs" "list2_add_head (Some x) h l = (h', l')"
  shows "list2_ok h' l' (x # xs)"
  using assms by (cases xs) (auto simp: list2_ok_def list2_op_defs seg_append)

lemma list2_remove_tail_empty: "list2_ok h l [] \<Longrightarrow> list2_remove_tail h l = Some (None, h, l)"
  by (simp add: list2_ok_def list2_op_defs)

lemma list2_remove_tail_ok:
  assumes "list2_ok h l (xs @ [x])"
  shows "\<exists>h' l'. list2_remove_tail h l = Some (Some x, h', l') \<and> list2_ok h' l' xs"
proof (cases xs rule: rev_cases)
  case Nil
  then show ?thesis using assms by (auto simp: list2_ok_def list2_op_defs)
next
  case (snoc ys p)
  then have "head l \<noteq> Some x" using assms list2_ok_head [OF assms] by (cases ys) (auto simp: list2_ok_def)
  then show ?thesis using assms snoc by (auto simp: list2_ok_def list2_op_defs seg_append)
qed

lemma list2_remove_element_ok:
  assumes "list2_ok h l xs" "e \<in> set xs"
  shows "\<exists>h' l'. list2_remove_element (Some e) h l = Some (h', l') \<and> list2_ok h' l' (remove1 e xs)"
proof -
  obtain us vs where xs: "xs = us @ e # vs" "e \<notin> set us" using assms(2) by (meson split_list_first)
  have dist: "distinct xs" using assms(1) by (simp add: list2_ok_def)
  show ?thesis
  proof (cases us rule: rev_cases)
    case Nil
    then show ?thesis using assms(1) xs by (cases vs) (auto simp: list2_ok_def list2_op_defs seg_append)
  next
    case (snoc as p)
    have ne: "head l \<noteq> Some e" using list2_ok_head [OF assms(1)] xs snoc dist by (cases as) auto
    show ?thesis
    proof (cases vs)
      case Nil
      then have "tail l = Some e" using list2_ok_tail [OF assms(1)] xs by simp
      then show ?thesis using assms(1) xs snoc ne Nil
        by (auto simp: list2_ok_def list2_op_defs seg_append remove1_append)
    next
      case (Cons n ws)
      then have "tail l \<noteq> Some e" using list2_ok_tail [OF assms(1)] xs dist by auto
      moreover have "blk_previous h e = Some p" "blk_next h e = Some n"
        using assms(1) list2_ok_middle [of h l as p e n ws] xs snoc Cons by auto
      ultimately show ?thesis using assms(1) xs snoc ne Cons
        by (auto simp: list2_ok_def list2_op_defs seg_append remove1_append)
    qed
  qed
qed

text \<open>
  Appending a list joins the elements, but the appended list keeps its counter, so it is not an empty
  list afterwards although its pointers are \<open>NULL\<close>.
\<close>

lemma list2_add_list_ok:
  assumes "list2_ok h l xs" "list2_ok h sub ys" "set xs \<inter> set ys = {}" "list2_add_list h sub l = (h', sub', l')"
  shows "list2_ok h' l' (xs @ ys) \<and> head sub' = None \<and> tail sub' = None \<and> nb_elements sub' = nb_elements sub"
proof (cases ys)
  case Nil
  then show ?thesis using assms by (auto simp: list2_ok_def list2_op_defs)
next
  case (Cons y zs)
  show ?thesis
  proof (cases xs rule: rev_cases)
    case Nil
    then show ?thesis using assms Cons by (auto simp: list2_ok_def list2_op_defs)
  next
    case (snoc us t)
    then show ?thesis using assms Cons by (auto simp: list2_ok_def list2_op_defs seg_append add.assoc)
  qed
qed


section \<open>The contract of a queue of blocks\<close>

text \<open>
  What a client of the lists relies on. \<open>repr h l xs\<close>: in the heap \<open>h\<close> the list \<open>l\<close> holds the blocks
  \<open>xs\<close>. The frame laws say that an operation on one list keeps every other list of the heap.
\<close>

locale mem_queue =
  fixes repr :: "mem_heap \<Rightarrow> 'l \<Rightarrow> addr list \<Rightarrow> bool"
    and add_tail :: "addr option \<Rightarrow> mem_heap \<Rightarrow> 'l \<Rightarrow> mem_heap \<times> 'l"
    and remove_head :: "mem_heap \<Rightarrow> 'l \<Rightarrow> addr option \<times> mem_heap \<times> 'l"
  assumes repr_distinct: "repr h l xs \<Longrightarrow> distinct xs"
    and add_tail: "repr h l xs \<Longrightarrow> x \<notin> set xs \<Longrightarrow> add_tail (Some x) h l = (h', l') \<Longrightarrow> repr h' l' (xs @ [x])"
    and add_tail_frame: "repr h l xs \<Longrightarrow> repr h m ys \<Longrightarrow> set ys \<inter> insert x (set xs) = {}
          \<Longrightarrow> add_tail (Some x) h l = (h', l') \<Longrightarrow> repr h' m ys"
    and remove_head_empty: "repr h l [] \<Longrightarrow> remove_head h l = (None, h, l)"
    and remove_head: "repr h l (x # xs) \<Longrightarrow> \<exists>h' l'. remove_head h l = (Some x, h', l') \<and> repr h' l' xs"
    and remove_head_frame: "repr h l xs \<Longrightarrow> repr h m ys \<Longrightarrow> set ys \<inter> set xs = {}
          \<Longrightarrow> remove_head h l = (r, h', l') \<Longrightarrow> repr h' m ys"
begin

text \<open>A family of queues in one heap, such as the free lists of the pools.\<close>

definition family :: "mem_heap \<Rightarrow> 'l list \<Rightarrow> addr list list \<Rightarrow> bool" where
  "family h ls xss \<longleftrightarrow> list_all2 (repr h) ls xss \<and> distinct (concat xss)"

lemma family_length: "family h ls xss \<Longrightarrow> length ls = length xss"
  by (auto simp: family_def dest: list_all2_lengthD)

lemma family_nth: "family h ls xss \<Longrightarrow> i < length ls \<Longrightarrow> repr h (ls ! i) (xss ! i)"
  by (auto simp: family_def list_all2_conv_all_nth)

lemma concat_split:
  assumes "i < length xss"
  shows "concat (xss[i := ys]) = concat (take i xss) @ ys @ concat (drop (Suc i) xss)"
    "concat xss = concat (take i xss) @ xss ! i @ concat (drop (Suc i) xss)"
proof -
  show "concat (xss[i := ys]) = concat (take i xss) @ ys @ concat (drop (Suc i) xss)"
    using assms by (simp add: upd_conv_take_nth_drop)
  show "concat xss = concat (take i xss) @ xss ! i @ concat (drop (Suc i) xss)"
    using id_take_nth_drop [OF assms] by (metis concat.simps(2) concat_append)
qed

lemma family_disjoint:
  assumes "family h ls xss" "i < length ls" "j < length ls" "i \<noteq> j"
  shows "set (xss ! i) \<inter> set (xss ! j) = {}"
proof -
  have "length ls = length xss" "distinct (concat xss)" using assms(1) by (auto simp: family_length family_def)
  moreover have "j < length xss \<Longrightarrow> j \<noteq> i \<Longrightarrow> xss ! j \<in> set (take i xss) \<or> xss ! j \<in> set (drop (Suc i) xss)"
  proof -
    assume j: "j < length xss" "j \<noteq> i"
    show ?thesis
    proof (cases "j < i")
      case True
      then show ?thesis using j by (metis in_set_conv_nth length_take min_less_iff_conj nth_take)
    next
      case False
      then have "drop (Suc i) xss ! (j - Suc i) = xss ! j" "j - Suc i < length (drop (Suc i) xss)" using j by auto
      then show ?thesis by (metis nth_mem)
    qed
  qed
  ultimately have "set (xss ! j) \<subseteq> set (concat (take i xss)) \<union> set (concat (drop (Suc i) xss))" using assms(3,4) by auto
  moreover have "distinct (concat (take i xss) @ xss ! i @ concat (drop (Suc i) xss))"
    using \<open>distinct (concat xss)\<close> \<open>length ls = length xss\<close> assms(2) concat_split(2) [of i xss] by simp
  ultimately show ?thesis unfolding distinct_append set_append by blast
qed

lemma family_update:
  assumes "family h ls xss" "i < length ls" "repr h' l' ys" "distinct (concat (xss[i := ys]))"
    and "\<And>j. j < length ls \<Longrightarrow> j \<noteq> i \<Longrightarrow> repr h' (ls ! j) (xss ! j)"
  shows "family h' (ls[i := l']) (xss[i := ys])"
  using assms family_length [OF assms(1)] by (auto simp: family_def list_all2_conv_all_nth nth_list_update)

lemma family_add:
  assumes f: "family h ls xss" and i: "i < length ls" and x: "x \<notin> set (concat xss)"
    and a: "add_tail (Some x) h (ls ! i) = (h', l')"
  shows "family h' (ls[i := l']) (xss[i := xss ! i @ [x]])"
proof (rule family_update [OF f i])
  have len: "length ls = length xss" by (rule family_length [OF f])
  then have xi: "x \<notin> set (xss ! j)" if "j < length ls" for j using x that by auto
  show "repr h' l' (xss ! i @ [x])" using add_tail [OF family_nth [OF f i] xi [OF i] a] .
  show "distinct (concat (xss[i := xss ! i @ [x]]))"
    using f x i len concat_split(1) [of i xss "xss ! i @ [x]"] concat_split(2) [of i xss] by (auto simp: family_def)
  fix j assume j: "j < length ls" "j \<noteq> i"
  then have "set (xss ! j) \<inter> insert x (set (xss ! i)) = {}"
    using family_disjoint [OF f j(1) i j(2)] xi [OF j(1)] by auto
  then show "repr h' (ls ! j) (xss ! j)" by (rule add_tail_frame [OF family_nth [OF f i] family_nth [OF f j(1)] _ a])
qed

lemma family_remove:
  assumes f: "family h ls xss" and i: "i < length ls" and x: "xss ! i = x # ys"
  shows "\<exists>h' l'. remove_head h (ls ! i) = (Some x, h', l') \<and> family h' (ls[i := l']) (xss[i := ys])"
proof -
  have r: "repr h (ls ! i) (x # ys)" using family_nth [OF f i] x by simp
  then obtain h' l' where q: "remove_head h (ls ! i) = (Some x, h', l')" "repr h' l' ys" using remove_head by blast
  have "family h' (ls[i := l']) (xss[i := ys])"
  proof (rule family_update [OF f i q(2)])
    show "distinct (concat (xss[i := ys]))"
      using f x i family_length [OF f] concat_split(1) [of i xss ys] concat_split(2) [of i xss] by (auto simp: family_def)
    fix j assume j: "j < length ls" "j \<noteq> i"
    then have "set (xss ! j) \<inter> set (x # ys) = {}" using family_disjoint [OF f j(1) i j(2)] x by simp
    then show "repr h' (ls ! j) (xss ! j)" by (rule remove_head_frame [OF r family_nth [OF f j(1)] _ q(1)])
  qed
  then show ?thesis using q(1) by blast
qed

lemma remove_head_none_iff: "repr h l xs \<Longrightarrow> fst (remove_head h l) = None \<longleftrightarrow> xs = []"
  using remove_head [of h l] remove_head_empty [of h l] by (cases xs) force+

end

interpretation lq: mem_queue list_ok list_add_tail_eurecom list_remove_head
  by unfold_locales (erule list_ok_distinct | erule (2) list_add_tail_ok | erule (3) list_add_tail_frame
      | erule list_remove_head_empty | erule list_remove_head_ok | erule (3) list_remove_head_frame)+

text \<open>A double-ended queue can also be filled at the head and emptied at the tail or in the middle.\<close>

locale mem_deque = mem_queue repr add_tail remove_head
  for repr :: "mem_heap \<Rightarrow> 'l \<Rightarrow> addr list \<Rightarrow> bool" and add_tail remove_head +
  fixes add_head :: "addr option \<Rightarrow> mem_heap \<Rightarrow> 'l \<Rightarrow> mem_heap \<times> 'l"
    and remove_tail :: "mem_heap \<Rightarrow> 'l \<Rightarrow> (addr option \<times> mem_heap \<times> 'l) option"
    and remove_element :: "addr option \<Rightarrow> mem_heap \<Rightarrow> 'l \<Rightarrow> (mem_heap \<times> 'l) option"
  assumes add_head: "repr h l xs \<Longrightarrow> x \<notin> set xs \<Longrightarrow> add_head (Some x) h l = (h', l') \<Longrightarrow> repr h' l' (x # xs)"
    and remove_tail: "repr h l (xs @ [x]) \<Longrightarrow> \<exists>h' l'. remove_tail h l = Some (Some x, h', l') \<and> repr h' l' xs"
    and remove_element: "repr h l xs \<Longrightarrow> e \<in> set xs
          \<Longrightarrow> \<exists>h' l'. remove_element (Some e) h l = Some (h', l') \<and> repr h' l' (remove1 e xs)"
begin

lemma add_head_remove_head:
  assumes "repr h l xs" "x \<notin> set xs" "add_head (Some x) h l = (h1, l1)"
  shows "\<exists>h2 l2. remove_head h1 l1 = (Some x, h2, l2) \<and> repr h2 l2 xs"
  using remove_head [OF add_head [OF assms]] .

lemma add_tail_remove_tail:
  assumes "repr h l xs" "x \<notin> set xs" "add_tail (Some x) h l = (h1, l1)"
  shows "\<exists>h2 l2. remove_tail h1 l1 = Some (Some x, h2, l2) \<and> repr h2 l2 xs"
  using remove_tail [OF add_tail [OF assms]] .

text \<open>Every order of removals of all the blocks succeeds and leaves an empty list.\<close>

fun remove_elements :: "addr list \<Rightarrow> mem_heap \<Rightarrow> 'l \<Rightarrow> (mem_heap \<times> 'l) option" where
  "remove_elements [] h l = Some (h, l)"
| "remove_elements (e # es) h l = (case remove_element (Some e) h l of None \<Rightarrow> None | Some (h', l') \<Rightarrow> remove_elements es h' l')"

lemma remove_elements:
  assumes "repr h l xs" "distinct es" "set es \<subseteq> set xs"
  shows "\<exists>h' l'. remove_elements es h l = Some (h', l') \<and> repr h' l' (filter (\<lambda>x. x \<notin> set es) xs)"
  using assms
proof (induction es arbitrary: h l xs)
  case Nil
  then show ?case by simp
next
  case (Cons e es)
  then obtain h1 l1 where s: "remove_element (Some e) h l = Some (h1, l1)" "repr h1 l1 (remove1 e xs)"
    using remove_element [of h l xs e] by auto
  have r: "remove1 e xs = filter (\<lambda>x. x \<noteq> e) xs"
    using repr_distinct [OF Cons.prems(1)] by (simp add: distinct_remove1_removeAll removeAll_filter_not_eq eq_commute)
  then have "set es \<subseteq> set (remove1 e xs)" using Cons.prems(2,3) by auto
  then obtain h2 l2 where t: "remove_elements es h1 l1 = Some (h2, l2)" "repr h2 l2 (filter (\<lambda>x. x \<notin> set es) (remove1 e xs))"
    using Cons.IH [OF s(2)] Cons.prems(2) by auto
  have "filter (\<lambda>x. x \<notin> set es) (remove1 e xs) = filter (\<lambda>x. x \<notin> set (e # es)) xs"
    unfolding r filter_filter by (rule filter_cong) auto
  then show ?case using s(1) t by simp
qed

end

interpretation l2q: mem_deque list2_ok list2_add_tail list2_remove_head list2_add_head list2_remove_tail list2_remove_element
  by unfold_locales (erule list2_ok_distinct | erule (2) list2_add_tail_ok | erule (3) list2_add_tail_frame
      | erule list2_remove_head_empty | erule list2_remove_head_ok | erule (3) list2_remove_head_frame
      | erule (2) list2_add_head_ok | erule list2_remove_tail_ok | erule (1) list2_remove_element_ok)+

section \<open>Properties\<close>

text \<open>Removing a block and appending a list write \<open>next\<close> pointers of blocks of the changed list only.\<close>

lemma list_ok_heap: "list_ok h m ys \<Longrightarrow> (\<And>x. x \<in> set ys \<Longrightarrow> blk_next h' x = blk_next h x) \<Longrightarrow> list_ok h' m ys"
proof -
  have "seg (blk_next h) p zs q \<Longrightarrow> (\<And>x. x \<in> set zs \<Longrightarrow> blk_next h' x = blk_next h x) \<Longrightarrow> seg (blk_next h') p zs q" for p zs q
    by (induction zs arbitrary: p) auto
  then show "list_ok h m ys \<Longrightarrow> (\<And>x. x \<in> set ys \<Longrightarrow> blk_next h' x = blk_next h x) \<Longrightarrow> list_ok h' m ys"
    unfolding list_ok_def by blast
qed

lemma list_remove_element_frame:
  assumes "list_ok h l xs" "list_ok h m ys" "set ys \<inter> set xs = {}" "list_remove_element (Some d) h l = Some (h', l')"
  shows "list_ok h' m ys"
proof (cases "head l = Some d")
  case True
  then obtain r where "list_remove_head h l = (r, h', l')" using assms(4) by (auto simp: list_remove_element_def split: prod.splits)
  then show ?thesis by (rule list_remove_head_frame [OF assms(1-3)])
next
  case False
  then have u: "list_unlink h l d (head l) = Some (h', l')" using assms(4) by (simp add: list_remove_element_def)
  show ?thesis
  proof (cases "d \<in> set xs")
    case True
    then obtain us vs where xs: "xs = us @ d # vs" by (meson split_list)
    have "us \<noteq> []" using False assms(1) by (auto simp: xs list_ok_def)
    then obtain as p where "us = as @ [p]" by (metis append_butlast_last_id)
    then have eq: "xs = as @ p # d # vs" by (simp add: xs)
    then have "h' = set_next p (blk_next h d) h" using u list_unlink_found [of h "head l" as p d vs l] assms(1) by (simp add: list_ok_def)
    then show ?thesis using assms(2,3) eq by (intro list_ok_heap [OF assms(2)]) (auto simp: set_next_def)
  next
    case False
    then show ?thesis using u list_unlink_absent [of h "head l" xs d l] assms(1,2) by (simp add: list_ok_def)
  qed
qed

lemma list_add_list_frame:
  assumes "list_ok h l xs" "list_ok h k zs" "set zs \<inter> set xs = {}" "list_add_list h sub l = (h', sub', l')"
  shows "list_ok h' k zs"
proof (rule list_ok_heap [OF assms(2)])
  fix x assume "x \<in> set zs"
  then have "tail l \<noteq> Some x" using assms(1,3) last_in_set [of xs] by (auto simp: list_ok_def split: if_splits)
  then show "blk_next h' x = blk_next h x" using assms(4) by (auto simp: list_op_defs split: if_splits option.splits)
qed

text \<open>
  C18. A singly linked list is a queue: its head is the first block, adding at the tail appends, removing
  the head returns the first block, removing a block anywhere in it removes exactly that block and
  always returns, appending a second list moves all its blocks and leaves it empty; and none of these
  operations touches another list of the same heap.
\<close>
theorem list_t_refines_queue:
  assumes "list_ok h l xs" "list_ok h m ys" "set xs \<inter> set ys = {}" "e \<notin> set xs \<union> set ys"
    and "list_ok h k zs" "set zs \<inter> set xs = {}"
  shows "list_get_head l = (if xs = [] then None else Some (hd xs))
    \<and> (case list_add_tail_eurecom (Some e) h l of (h', l') \<Rightarrow> list_ok h' l' (xs @ [e]) \<and> list_ok h' m ys)
    \<and> (case list_remove_head h l of (r, h', l') \<Rightarrow> r = list_get_head l \<and> list_ok h' l' (tl xs) \<and> list_ok h' m ys)
    \<and> (\<exists>h' l'. list_remove_element (Some d) h l = Some (h', l') \<and> list_ok h' l' (remove1 d xs) \<and> list_ok h' m ys)
    \<and> (case list_add_list h m l of (h', m', l') \<Rightarrow> list_ok h' m' [] \<and> list_ok h' l' (xs @ ys) \<and> list_ok h' k zs)"
proof (intro conjI)
  show hd: "list_get_head l = (if xs = [] then None else Some (hd xs))" by (rule list_get_head_ok [OF assms(1)])
  obtain h1 l1 where a: "list_add_tail_eurecom (Some e) h l = (h1, l1)" by fastforce
  show "case list_add_tail_eurecom (Some e) h l of (h', l') \<Rightarrow> list_ok h' l' (xs @ [e]) \<and> list_ok h' m ys"
    using lq.add_tail [OF assms(1) _ a] lq.add_tail_frame [OF assms(1,2) _ a] a assms(3,4) by auto
  obtain r h2 l2 where d: "list_remove_head h l = (r, h2, l2)" by (metis prod_cases3)
  have "list_ok h2 m ys" using lq.remove_head_frame [OF assms(1,2) _ d] assms(3) by blast
  moreover have "r = list_get_head l \<and> list_ok h2 l2 (tl xs)"
    using d hd assms(1) lq.remove_head [of h l] lq.remove_head_empty [of h l] by (cases xs) force+
  ultimately show "case list_remove_head h l of (r, h', l') \<Rightarrow> r = list_get_head l \<and> list_ok h' l' (tl xs) \<and> list_ok h' m ys"
    using d by simp
  show "\<exists>h' l'. list_remove_element (Some d) h l = Some (h', l') \<and> list_ok h' l' (remove1 d xs) \<and> list_ok h' m ys"
    using list_remove_element_ok [OF assms(1), of d] list_remove_element_frame [OF assms(1,2), of d] assms(3) by blast
  obtain h3 m3 l3 where j: "list_add_list h m l = (h3, m3, l3)" by (metis prod_cases3)
  show "case list_add_list h m l of (h', m', l') \<Rightarrow> list_ok h' m' [] \<and> list_ok h' l' (xs @ ys) \<and> list_ok h' k zs"
    using list_add_list_ok [OF assms(1-3) j] list_add_list_frame [OF assms(1,5,6) j] j by simp
qed

definition chain_heap :: "(addr \<times> addr) list \<Rightarrow> mem_heap" where
  "chain_heap ps = \<lparr>blk_next = map_of ps, blk_previous = map_of (map prod.swap ps)\<rparr>"

definition list_of :: "addr list \<Rightarrow> list_t" where
  "list_of xs = \<lparr>head = (if xs = [] then None else Some (hd xs)), tail = (if xs = [] then None else Some (last xs)),
                nb_elements = int (length xs), name = []\<rparr>"

theorem list_t_refines_queue_witness:
  "\<exists>h' l'. list_remove_element (Some 2) (chain_heap [(1, 2), (2, 3), (5, 6)]) (list_of [1, 2, 3]) = Some (h', l')
     \<and> list_ok h' l' [1, 3] \<and> list_ok h' (list_of [5, 6]) [5, 6]"
  using list_t_refines_queue [of "chain_heap [(1, 2), (2, 3), (5, 6)]" "list_of [1, 2, 3]" "[1, 2, 3]" "list_of [5, 6]" "[5, 6]" 9 "list_of [7]" "[7]" 2]
  by (simp add: list_ok_def chain_heap_def list_of_def to_s32_def)

text \<open>
  C20. A doubly linked list is a double-ended queue: blocks can be added and removed at both ends, and
  removing its blocks one by one in any order never dereferences NULL and leaves the others in order.
\<close>
theorem list2_t_refines_deque:
  assumes "list2_ok h l xs" "e \<notin> set xs" "distinct es" "set es \<subseteq> set xs"
  shows "(case list2_add_tail (Some e) h l of (h', l') \<Rightarrow>
            list2_ok h' l' (xs @ [e]) \<and> (\<exists>h2 l2. list2_remove_tail h' l' = Some (Some e, h2, l2) \<and> list2_ok h2 l2 xs))
    \<and> (case list2_add_head (Some e) h l of (h', l') \<Rightarrow>
            list2_ok h' l' (e # xs) \<and> (\<exists>h2 l2. list2_remove_head h' l' = (Some e, h2, l2) \<and> list2_ok h2 l2 xs))
    \<and> (\<exists>h' l'. l2q.remove_elements es h l = Some (h', l') \<and> list2_ok h' l' (filter (\<lambda>x. x \<notin> set es) xs))"
proof (intro conjI)
  obtain h1 l1 where a: "list2_add_tail (Some e) h l = (h1, l1)" by fastforce
  show "case list2_add_tail (Some e) h l of (h', l') \<Rightarrow>
      list2_ok h' l' (xs @ [e]) \<and> (\<exists>h2 l2. list2_remove_tail h' l' = Some (Some e, h2, l2) \<and> list2_ok h2 l2 xs)"
    using l2q.add_tail [OF assms(1,2) a] l2q.add_tail_remove_tail [OF assms(1,2) a] a by simp
  obtain h3 l3 where b: "list2_add_head (Some e) h l = (h3, l3)" by fastforce
  show "case list2_add_head (Some e) h l of (h', l') \<Rightarrow>
      list2_ok h' l' (e # xs) \<and> (\<exists>h2 l2. list2_remove_head h' l' = (Some e, h2, l2) \<and> list2_ok h2 l2 xs)"
    using l2q.add_head [OF assms(1,2) b] l2q.add_head_remove_head [OF assms(1,2) b] b by simp
  show "\<exists>h' l'. l2q.remove_elements es h l = Some (h', l') \<and> list2_ok h' l' (filter (\<lambda>x. x \<notin> set es) xs)"
    by (rule l2q.remove_elements [OF assms(1,3,4)])
qed

theorem list2_t_refines_deque_witness:
  "\<exists>h' l'. l2q.remove_elements [3, 1] (chain_heap [(1, 2), (2, 3)]) (list_of [1, 2, 3]) = Some (h', l') \<and> list2_ok h' l' [2]"
  using list2_t_refines_deque [of "chain_heap [(1, 2), (2, 3)]" "list_of [1, 2, 3]" "[1, 2, 3]" 9 "[3, 1]"]
  by (simp add: list2_ok_def chain_heap_def list_of_def to_s32_def)

section \<open>Where the lists are not what they seem\<close>

text \<open>A second append of a list whose blocks were already moved counts them once more.\<close>

lemma list2_add_list_counts_twice:
  assumes "list2_ok h l xs" "list2_ok h sub ys" "set xs \<inter> set ys = {}" "list2_add_list h sub l = (h1, sub1, l1)"
    and "list2_add_list h1 sub1 l1 = (h2, sub2, l2)"
  shows "h2 = h1 \<and> nb_elements l2 = to_s32 (int (length xs) + 2 * int (length ys))"
  using list2_add_list_ok [OF assms(1-4)] assms(2,5)
  by (auto simp: list2_ok_def list2_add_list_def algebra_simps)

text \<open>
  A block removed from the middle keeps its \<open>next\<close> pointer, and adding it at the head of an empty list
  does not reset it: the new list of one block leads on into the old list.
\<close>

lemma list_add_head_keeps_next:
  "list_remove_element (Some 2) (chain_heap [(1, 2), (2, 3)]) (list_of [1, 2, 3])
     = Some (set_next 1 (Some 3) (chain_heap [(1, 2), (2, 3)]), (list_of [1, 2, 3])\<lparr>nb_elements := 2\<rparr>)"
  "list_add_head (Some 2) (set_next 1 (Some 3) (chain_heap [(1, 2), (2, 3)])) (list_of []) = (h', l')
     \<Longrightarrow> \<not> list_ok h' l' [2] \<and> seg (blk_next h') (head l') [2, 3] None"
proof -
  show "list_remove_element (Some 2) (chain_heap [(1, 2), (2, 3)]) (list_of [1, 2, 3])
     = Some (set_next 1 (Some 3) (chain_heap [(1, 2), (2, 3)]), (list_of [1, 2, 3])\<lparr>nb_elements := 2\<rparr>)"
    by (simp add: list_remove_element_def list_unlink.simps chain_heap_def list_of_def to_s32_def)
  show "list_add_head (Some 2) (set_next 1 (Some 3) (chain_heap [(1, 2), (2, 3)])) (list_of []) = (h', l')
     \<Longrightarrow> \<not> list_ok h' l' [2] \<and> seg (blk_next h') (head l') [2, 3] None"
    by (auto simp: list_add_head_def list_of_def chain_heap_def set_next_def list_ok_def)
qed

end
