(* ===== verification/Mem_Pool.thy ===== *)
theory Mem_Pool
  imports Mem_List
begin

text \<open>
  The memory pools of layer 2 (\<open>mem_block.c\<close>): fourteen free lists of blocks in one heap, thirteen for
  blocks of 64, 128, ... 262144 octets and one for blocks without storage of their own. A block is its
  index in \<open>mem_blocks\<close>; its \<open>data\<close> pointer is the row of the pool array it points to, \<open>None\<close> for NULL.
  An \<open>AssertFatal\<close> that ends the process is a \<open>mem_error\<close>. Locking and debug output are left out.

  The lemmas show that initialisation builds the free lists, that a block handed out is large enough,
  comes from the smallest pool that has one and is not in use already, and that no block is lost.
\<close>

section \<open>Operations\<close>

datatype mem_error = Size_out_of_bounds | Unexpected_pool_ID | Null_dereference

record mem_pool =
  pl_heap :: mem_heap
  pool_id :: "addr \<Rightarrow> nat"
  blk_data :: "addr \<Rightarrow> (nat \<times> nat) option"
  mem_lists :: "list_t list"

definition pool_sizes :: "nat \<Rightarrow> bool \<Rightarrow> nat list" where
  "pool_sizes mem_scale jumbo_frames =
     [4096 * mem_scale, 4096 * mem_scale, 2048 * mem_scale, 2048 * mem_scale, 1024 * mem_scale, 1024 * mem_scale,
      1024 * mem_scale, 64 * mem_scale, (if jumbo_frames then 256 else 16) * mem_scale, 8 * mem_scale,
      0 * mem_scale, 0 * mem_scale, 32 * mem_scale, 1024]"

definition pool_memset :: mem_pool where
  "pool_memset =
     \<lparr>pl_heap = \<lparr>blk_next = (\<lambda>b. None), blk_previous = (\<lambda>b. None)\<rparr>, pool_id = (\<lambda>b. 0), blk_data = (\<lambda>b. None),
      mem_lists = replicate 14 \<lparr>head = None, tail = None, nb_elements = 0, name = []\<rparr>\<rparr>"

definition pool_init_block :: "nat \<Rightarrow> nat \<Rightarrow> nat \<Rightarrow> mem_pool \<Rightarrow> mem_pool" where
  "pool_init_block pool_index mb_index index m =
     (let b = mb_index + index;
          m1 = m\<lparr>blk_data := (blk_data m)(b := if pool_index \<le> 12 then Some (pool_index, index) else None),
                 pool_id := (pool_id m)(b := pool_index)\<rparr>;
          (h', l') = list_add_tail_eurecom (Some b) (pl_heap m1) (mem_lists m1 ! pool_index) in
      m1\<lparr>pl_heap := h', mem_lists := (mem_lists m1)[pool_index := l']\<rparr>)"

definition pool_init_list :: "nat \<Rightarrow> nat \<Rightarrow> nat \<Rightarrow> mem_pool \<Rightarrow> mem_pool" where
  "pool_init_list pool_index mb_index n m =
     fold (pool_init_block pool_index mb_index) [0..<n]
       (m\<lparr>mem_lists := (mem_lists m)[pool_index := list_init (mem_lists m ! pool_index) (Some ''POOL'')]\<rparr>)"

fun pool_init_lists :: "nat \<Rightarrow> nat \<Rightarrow> nat list \<Rightarrow> mem_pool \<Rightarrow> mem_pool" where
  "pool_init_lists pool_index mb_index [] m = m"
| "pool_init_lists pool_index mb_index (n # ns) m =
     pool_init_lists (pool_index + 1) (mb_index + n) ns (pool_init_list pool_index mb_index n m)"

text \<open>
  The pointer \<open>memory\<close> takes the value of \<open>memBlockVar\<close> before the new area is assigned to it. The
  result is the area \<open>memory\<close> points to, after initialisation, and the new value of \<open>memBlockVar\<close>.
\<close>

definition pool_buffer_init ::
  "nat \<Rightarrow> bool \<Rightarrow> mem_pool option \<Rightarrow> mem_pool option \<Rightarrow> mem_error + mem_pool \<times> mem_pool option" where
  "pool_buffer_init mem_scale jumbo_frames memBlockVar malloc_result =
     (case memBlockVar of
        None \<Rightarrow> Inl Null_dereference
      | Some memory \<Rightarrow> Inr (pool_init_lists 0 0 (pool_sizes mem_scale jumbo_frames) pool_memset, malloc_result))"

definition free_mem_block :: "addr option \<Rightarrow> mem_pool \<Rightarrow> mem_pool" where
  "free_mem_block leP m =
     (case leP of
        None \<Rightarrow> m
      | Some b \<Rightarrow>
          if pool_id m b \<le> 13 then
            let (h', l') = list_add_tail_eurecom (Some b) (pl_heap m) (mem_lists m ! pool_id m b) in
            m\<lparr>pl_heap := h', mem_lists := (mem_lists m)[pool_id m b := l']\<rparr>
          else m)"

fun pool_select :: "nat \<Rightarrow> nat \<Rightarrow> nat" where
  "pool_select pool_selected sz = (if sz = 0 then pool_selected else pool_select (pool_selected + 1) (sz div 2))"

declare pool_select.simps [simp del]

function pool_take :: "nat \<Rightarrow> mem_pool \<Rightarrow> mem_error + addr option \<times> mem_pool" where
  "pool_take pool_selected m =
     (case list_remove_head (pl_heap m) (mem_lists m ! pool_selected) of
        (Some le, h', l') \<Rightarrow>
          if pool_id m le = pool_selected
          then Inr (Some le, m\<lparr>pl_heap := h', mem_lists := (mem_lists m)[pool_selected := l']\<rparr>)
          else Inl Unexpected_pool_ID
      | (None, _, _) \<Rightarrow> if pool_selected < 12 then pool_take (pool_selected + 1) m else Inr (None, m))"
  by pat_completeness auto

termination
  by (relation "measure (\<lambda>(p, _). 12 - p)") auto

declare pool_take.simps [simp del]

definition get_free_mem_block :: "nat \<Rightarrow> mem_pool \<Rightarrow> mem_error + addr option \<times> mem_pool" where
  "get_free_mem_block sizeP m =
     (if sizeP > 262144 then Inl Size_out_of_bounds else pool_take (pool_select 0 (sizeP div 64)) m)"

partial_function (option) list_free :: "mem_pool \<Rightarrow> list_t \<Rightarrow> (mem_pool \<times> list_t) option" where
  "list_free m l =
     (let q = list_remove_head (pl_heap m) l in
      if fst q = None then Some (m, l)
      else list_free (free_mem_block (fst q) (m\<lparr>pl_heap := fst (snd q)\<rparr>)) (snd (snd q)))"

partial_function (option) list2_free :: "mem_pool \<Rightarrow> list2_t \<Rightarrow> (mem_pool \<times> list2_t) option" where
  "list2_free m l =
     (let q = list2_remove_head (pl_heap m) l in
      if fst q = None then Some (m, l)
      else list2_free (free_mem_block (fst q) (m\<lparr>pl_heap := fst (snd q)\<rparr>)) (snd (snd q)))"

section \<open>The invariant of the pools\<close>

text \<open>\<open>pool_ok m xss\<close>: the free list of pool \<open>i\<close> holds the blocks \<open>xss ! i\<close>, all of them blocks of that pool.\<close>

definition pool_ok :: "mem_pool \<Rightarrow> addr list list \<Rightarrow> bool" where
  "pool_ok m xss \<longleftrightarrow> length xss = 14 \<and> lq.family (pl_heap m) (mem_lists m) xss \<and> (\<forall>i<14. \<forall>b\<in>set (xss ! i). pool_id m b = i)"

text \<open>The first \<open>n\<close> blocks are set up, and no two of them share storage.\<close>

definition pool_layout :: "mem_pool \<Rightarrow> nat \<Rightarrow> bool" where
  "pool_layout m n \<longleftrightarrow> (\<forall>b<n. pool_id m b < 14 \<and> (if pool_id m b \<le> 12 then \<exists>i. blk_data m b = Some (pool_id m b, i) else blk_data m b = None))
     \<and> inj_on (blk_data m) {b. b < n \<and> pool_id m b \<le> 12}"

definition blk_capacity :: "mem_pool \<Rightarrow> addr \<Rightarrow> nat" where
  "blk_capacity m b = (case blk_data m b of None \<Rightarrow> 0 | Some (k, i) \<Rightarrow> 64 * 2 ^ k)"

lemma layout_data:
  assumes "pool_layout m n" "b < n"
  shows "pool_id m b \<le> 12 \<longleftrightarrow> blk_data m b \<noteq> None" "pool_id m b \<le> 12 \<Longrightarrow> \<exists>i. blk_data m b = Some (pool_id m b, i)"
proof -
  have d: "if pool_id m b \<le> 12 then \<exists>i. blk_data m b = Some (pool_id m b, i) else blk_data m b = None"
    using assms by (simp add: pool_layout_def)
  show "pool_id m b \<le> 12 \<longleftrightarrow> blk_data m b \<noteq> None" using d by (cases "pool_id m b \<le> 12") auto
  show "pool_id m b \<le> 12 \<Longrightarrow> \<exists>i. blk_data m b = Some (pool_id m b, i)" using d by simp
qed

lemma pool_ok_lists: "pool_ok m xss \<Longrightarrow> length (mem_lists m) = 14"
  using lq.family_length by (auto simp: pool_ok_def)

lemma concat_upd_set:
  assumes "i < length xss"
  shows "set (concat (xss[i := xss ! i @ [x]])) = insert x (set (concat xss))"
    "xss ! i = y # ys \<Longrightarrow> distinct (concat xss) \<Longrightarrow> set (concat (xss[i := ys])) = set (concat xss) - {y}"
proof -
  show "set (concat (xss[i := xss ! i @ [x]])) = insert x (set (concat xss))"
    unfolding lq.concat_split(1) [OF assms, of "xss ! i @ [x]"] lq.concat_split(2) [OF assms] set_append by auto
  show "xss ! i = y # ys \<Longrightarrow> distinct (concat xss) \<Longrightarrow> set (concat (xss[i := ys])) = set (concat xss) - {y}"
    using lq.concat_split(1) [OF assms, of ys] lq.concat_split(2) [OF assms] by auto
qed

lemma pool_ok_add:
  assumes ok: "pool_ok m xss" and i: "i < 14" "pool_id m b = i" and b: "b \<notin> set (concat xss)"
    and a: "list_add_tail_eurecom (Some b) (pl_heap m) (mem_lists m ! i) = (h', l')"
  shows "pool_ok (m\<lparr>pl_heap := h', mem_lists := (mem_lists m)[i := l']\<rparr>) (xss[i := xss ! i @ [b]])"
proof -
  have "lq.family h' ((mem_lists m)[i := l']) (xss[i := xss ! i @ [b]])"
    using lq.family_add [OF _ _ b a] ok i pool_ok_lists [OF ok] by (simp add: pool_ok_def)
  then show ?thesis using ok i by (auto simp: pool_ok_def nth_list_update)
qed

lemma free_mem_block_ok:
  assumes "pool_ok m xss" "pool_id m b < 14" "b \<notin> set (concat xss)"
  shows "pool_ok (free_mem_block (Some b) m) (xss[pool_id m b := xss ! pool_id m b @ [b]])"
proof -
  obtain h' l' where a: "list_add_tail_eurecom (Some b) (pl_heap m) (mem_lists m ! pool_id m b) = (h', l')" by fastforce
  then show ?thesis using pool_ok_add [OF assms(1,2) refl assms(3) a] assms(2) by (simp add: free_mem_block_def)
qed

lemma free_mem_block_static [simp]:
  "pool_id (free_mem_block p m) = pool_id m" "blk_data (free_mem_block p m) = blk_data m"
  by (simp_all add: free_mem_block_def split: option.split prod.split)

section \<open>Allocation\<close>

lemma pool_select_bounds:
  "p \<le> pool_select p s \<and> s < 2 ^ (pool_select p s - p) \<and> (p < pool_select p s \<longrightarrow> 2 ^ (pool_select p s - p - 1) \<le> s)"
proof (induction p s rule: pool_select.induct)
  case (1 p s)
  show ?case
  proof (cases "s = 0")
    case True
    then show ?thesis by (simp add: pool_select.simps)
  next
    case False
    define k where "k = pool_select (p + 1) (s div 2)"
    have k: "pool_select p s = k" "p + 1 \<le> k" "s div 2 < 2 ^ (k - (p + 1))" "p + 1 < k \<longrightarrow> 2 ^ (k - (p + 1) - 1) \<le> s div 2"
      using False 1 by (simp_all add: k_def pool_select.simps [of p s])
    obtain j where j: "k = p + 1 + j" using k(2) le_Suc_ex by blast
    show ?thesis using k False by (cases j) (auto simp: j)
  qed
qed

lemma pool_select_size:
  assumes "sizeP < 262144"
  shows "pool_select 0 (sizeP div 64) \<le> 12" "sizeP < 64 * 2 ^ pool_select 0 (sizeP div 64)"
    "0 < pool_select 0 (sizeP div 64) \<Longrightarrow> 64 * 2 ^ (pool_select 0 (sizeP div 64) - 1) \<le> sizeP"
proof -
  define k where "k = pool_select 0 (sizeP div 64)"
  have k: "sizeP div 64 < 2 ^ k" "0 < k \<longrightarrow> 2 ^ (k - 1) \<le> sizeP div 64"
    using pool_select_bounds [of 0 "sizeP div 64"] by (simp_all add: k_def)
  show "sizeP < 64 * 2 ^ pool_select 0 (sizeP div 64)" using k(1) unfolding k_def [symmetric] by linarith
  show "0 < pool_select 0 (sizeP div 64) \<Longrightarrow> 64 * 2 ^ (pool_select 0 (sizeP div 64) - 1) \<le> sizeP"
    using k(2) unfolding k_def [symmetric] by linarith
  show "pool_select 0 (sizeP div 64) \<le> 12"
  proof (rule ccontr)
    assume "\<not> ?thesis"
    then have "12 \<le> k - 1" "0 < k" by (simp_all add: k_def)
    then have "(2 :: nat) ^ 12 \<le> 2 ^ (k - 1)" by (intro power_increasing) auto
    also have "\<dots> \<le> sizeP div 64" using k(2) \<open>0 < k\<close> by simp
    finally show False using assms by simp
  qed
qed

lemma pool_take_hit:
  assumes ok: "pool_ok m xss" and p: "p < 14" and x: "xss ! p = b # ys"
  shows "\<exists>m'. pool_take p m = Inr (Some b, m') \<and> pool_ok m' (xss[p := ys]) \<and> pool_id m' = pool_id m \<and> blk_data m' = blk_data m"
proof -
  have fam: "lq.family (pl_heap m) (mem_lists m) xss" "p < length (mem_lists m)" "pool_id m b = p"
    using ok p x pool_ok_lists [OF ok] by (auto simp: pool_ok_def)
  obtain h' l' where r: "list_remove_head (pl_heap m) (mem_lists m ! p) = (Some b, h', l')"
      "lq.family h' ((mem_lists m)[p := l']) (xss[p := ys])"
    using lq.family_remove [OF fam(1,2) x] by blast
  have "pool_ok (m\<lparr>pl_heap := h', mem_lists := (mem_lists m)[p := l']\<rparr>) (xss[p := ys])"
    using ok r(2) p x by (auto simp: pool_ok_def nth_list_update)
  then show ?thesis using r(1) fam(3) by (simp add: pool_take.simps [of p m])
qed

lemma pool_take_miss:
  assumes ok: "pool_ok m xss" and p: "p < 14" and x: "xss ! p = []"
  shows "pool_take p m = (if p < 12 then pool_take (p + 1) m else Inr (None, m))"
proof -
  have "list_ok (pl_heap m) (mem_lists m ! p) []"
    using lq.family_nth [of "pl_heap m" "mem_lists m" xss p] ok p x pool_ok_lists [OF ok] by (simp add: pool_ok_def)
  then show ?thesis using lq.remove_head_empty by (simp add: pool_take.simps [of p m])
qed

lemma pool_take_ok:
  assumes "pool_ok m xss" "p \<le> 12"
  shows "(\<exists>i b ys m'. pool_take p m = Inr (Some b, m') \<and> p \<le> i \<and> i \<le> 12 \<and> (\<forall>j. p \<le> j \<and> j < i \<longrightarrow> xss ! j = [])
           \<and> xss ! i = b # ys \<and> pool_ok m' (xss[i := ys]) \<and> pool_id m' = pool_id m \<and> blk_data m' = blk_data m)
       \<or> pool_take p m = Inr (None, m) \<and> (\<forall>j. p \<le> j \<and> j \<le> 12 \<longrightarrow> xss ! j = [])"
    (is "?P p")
  using assms(2)
proof (induction "12 - p" arbitrary: p)
  case (0 p)
  then have p: "p = 12" by simp
  show ?case
  proof (cases "xss ! 12")
    case Nil
    then have "pool_take p m = Inr (None, m)" using pool_take_miss [OF assms(1), of 12] p by simp
    moreover have "xss ! j = []" if "p \<le> j" "j \<le> 12" for j using that p Nil by (metis le_antisym)
    ultimately show ?thesis by blast
  next
    case (Cons b ys)
    then show ?thesis using pool_take_hit [OF assms(1) _ Cons] p by (intro disjI1 exI [of _ 12] exI [of _ b] exI [of _ ys]) auto
  qed
next
  case (Suc n)
  show ?case
  proof (cases "xss ! p")
    case Nil
    have "p < 12" using Suc(2) by linarith
    then have "pool_take p m = pool_take (p + 1) m" using pool_take_miss [OF assms(1) _ Nil] by simp
    moreover have "?P (p + 1)" using Suc by simp
    ultimately show ?thesis
    proof (elim disjE exE conjE, goal_cases)
      case (1 i b ys m')
      have "xss ! j = []" if "p \<le> j" "j < i" for j using 1(5) Nil that by (cases "j = p") auto
      then show ?case using 1 by (intro disjI1 exI [of _ i] exI [of _ b] exI [of _ ys] exI [of _ m']) auto
    next
      case 2
      have "xss ! j = []" if "p \<le> j" "j \<le> 12" for j using 2(3) Nil that by (cases "j = p") auto
      then show ?case using 2 by auto
    qed
  next
    case (Cons b ys)
    then show ?thesis using pool_take_hit [OF assms(1) _ Cons] Suc(3) by (intro disjI1 exI [of _ p] exI [of _ b] exI [of _ ys]) auto
  qed
qed


lemma get_free_mem_block_ok:
  assumes "pool_ok m xss" "sizeP < 262144"
  shows "(\<exists>i b ys m'. get_free_mem_block sizeP m = Inr (Some b, m') \<and> sizeP < 64 * 2 ^ i \<and> i \<le> 12
           \<and> (\<forall>j<i. sizeP < 64 * 2 ^ j \<longrightarrow> xss ! j = [])
           \<and> xss ! i = b # ys \<and> pool_ok m' (xss[i := ys]) \<and> pool_id m' = pool_id m \<and> blk_data m' = blk_data m)
       \<or> get_free_mem_block sizeP m = Inr (None, m) \<and> (\<forall>j\<le>12. sizeP < 64 * 2 ^ j \<longrightarrow> xss ! j = [])"
proof -
  define p where "p = pool_select 0 (sizeP div 64)"
  have p: "p \<le> 12" "sizeP < 64 * 2 ^ p" "0 < p \<Longrightarrow> 64 * 2 ^ (p - 1) \<le> sizeP"
    using pool_select_size [OF assms(2)] by (simp_all add: p_def)
  have take: "get_free_mem_block sizeP m = pool_take p m" using assms(2) by (simp add: get_free_mem_block_def p_def)
  have lo: "p \<le> j" if "sizeP < 64 * 2 ^ j" for j
  proof (rule ccontr)
    assume "\<not> p \<le> j"
    then have "(2 :: nat) ^ j \<le> 2 ^ (p - 1)" by (intro power_increasing) auto
    then show False using p(3) that \<open>\<not> p \<le> j\<close> by linarith
  qed
  have hi: "sizeP < 64 * 2 ^ i" if "p \<le> i" for i
  proof -
    have "(2 :: nat) ^ p \<le> 2 ^ i" using that by (intro power_increasing) auto
    then show ?thesis using p(2) by linarith
  qed
  from pool_take_ok [OF assms(1) p(1)] show ?thesis
  proof (elim disjE exE conjE, goal_cases)
    case (1 i b ys m')
    then show ?case using take lo hi by (intro disjI1 exI [of _ i] exI [of _ b] exI [of _ ys] exI [of _ m']) auto
  next
    case 2
    then show ?case using take lo by auto
  qed
qed

section \<open>Initialisation\<close>

text \<open>The state while the free lists are built: pools below \<open>p\<close> are complete, pool \<open>p\<close> holds \<open>j\<close> blocks.\<close>

definition pool_building :: "nat \<Rightarrow> nat \<Rightarrow> nat \<Rightarrow> mem_pool \<Rightarrow> addr list list \<Rightarrow> bool" where
  "pool_building p mb j m xss \<longleftrightarrow> pool_ok m xss \<and> set (concat xss) = {..<mb + j} \<and> pool_layout m (mb + j)
     \<and> (\<forall>b<mb. pool_id m b < p) \<and> (\<forall>i<j. pool_id m (mb + i) = p \<and> (p \<le> 12 \<longrightarrow> blk_data m (mb + i) = Some (p, i)))
     \<and> (\<forall>i. p < i \<and> i < 14 \<longrightarrow> xss ! i = []) \<and> (j = 0 \<longrightarrow> p < 14 \<longrightarrow> xss ! p = [])"

lemma layout_insert:
  assumes "pool_building p mb j m xss" "p < 14"
  shows "pool_layout (m\<lparr>blk_data := (blk_data m)(mb + j := if p \<le> 12 then Some (p, j) else None),
                 pool_id := (pool_id m)(mb + j := p)\<rparr>) (mb + Suc j)" (is "pool_layout ?m _")
proof -
  have new: "blk_data m b \<noteq> Some (p, j)" if "b < mb + j" for b
  proof (cases "b < mb")
    case True
    then have "pool_id m b < p" "b < mb + j" using assms(1) by (auto simp: pool_building_def)
    moreover from this have "\<exists>i. blk_data m b = Some (pool_id m b, i) \<or> blk_data m b = None"
      using assms(1) unfolding pool_building_def pool_layout_def by meson
    ultimately show ?thesis by auto
  next
    case False
    then have "b = mb + (b - mb)" "b - mb < j" using that by auto
    then obtain i where "b = mb + i" "i < j" by blast
    then have "pool_id m b = p" "p \<le> 12 \<longrightarrow> blk_data m b = Some (p, i)" "i \<noteq> j" using assms(1) by (simp_all add: pool_building_def)
    moreover have "p \<le> 12 \<or> blk_data m b = None"
      using assms(1) that \<open>pool_id m b = p\<close> by (auto simp: pool_building_def pool_layout_def split: if_splits)
    ultimately show ?thesis by auto
  qed
  have old: "pool_layout m (mb + j)" using assms(1) by (simp add: pool_building_def)
  have "inj_on (blk_data ?m) {b. b < mb + Suc j \<and> pool_id ?m b \<le> 12}"
  proof (rule inj_onI)
    fix x y assume xy: "x \<in> {b. b < mb + Suc j \<and> pool_id ?m b \<le> 12}" "y \<in> {b. b < mb + Suc j \<and> pool_id ?m b \<le> 12}"
      "blk_data ?m x = blk_data ?m y"
    have inj: "inj_on (blk_data m) {b. b < mb + j \<and> pool_id m b \<le> 12}" using old by (simp add: pool_layout_def)
    consider "x = mb + j" | "y = mb + j" | "x < mb + j" "y < mb + j" using xy(1,2) by force
    then show "x = y"
    proof cases
      case 1
      then show ?thesis using xy new [of y] by (auto split: if_splits simp: less_Suc_eq)
    next
      case 2
      then show ?thesis using xy new [of x] by (auto split: if_splits simp: less_Suc_eq)
    next
      case 3
      then show ?thesis using xy inj by (auto dest: inj_onD)
    qed
  qed
  then show ?thesis using old assms(2) by (auto simp: pool_layout_def less_Suc_eq)
qed


lemma building_block:
  assumes bd: "pool_building p mb j m xss" and p: "p < 14"
  shows "pool_building p mb (Suc j) (pool_init_block p mb j m) (xss[p := xss ! p @ [mb + j]])"
proof -
  define m1 where "m1 = m\<lparr>blk_data := (blk_data m)(mb + j := if p \<le> 12 then Some (p, j) else None), pool_id := (pool_id m)(mb + j := p)\<rparr>"
  obtain h' l' where a: "list_add_tail_eurecom (Some (mb + j)) (pl_heap m1) (mem_lists m1 ! p) = (h', l')" by fastforce
  have step: "pool_init_block p mb j m = m1\<lparr>pl_heap := h', mem_lists := (mem_lists m1)[p := l']\<rparr>"
    using a by (simp add: pool_init_block_def Let_def m1_def split: prod.split)
  have set: "set (concat xss) = {..<mb + j}" "length xss = 14" using bd by (auto simp: pool_building_def pool_ok_def)
  then have fresh: "mb + j \<notin> set (concat xss)" by simp
  have "pool_ok m1 xss" using bd fresh by (auto simp: pool_building_def pool_ok_def m1_def)
  then have ok: "pool_ok (pool_init_block p mb j m) (xss[p := xss ! p @ [mb + j]])"
    unfolding step by (rule pool_ok_add [OF _ p _ fresh a]) (simp add: m1_def)
  have "pool_layout m1 (mb + Suc j)" unfolding m1_def by (rule layout_insert [OF bd p])
  then have lay: "pool_layout (pool_init_block p mb j m) (mb + Suc j)" by (simp add: step pool_layout_def)
  have "set (concat (xss[p := xss ! p @ [mb + j]])) = {..<mb + Suc j}"
    unfolding concat_upd_set(1) [OF p [folded set(2)]] set(1) by auto
  then show ?thesis using bd ok lay p unfolding pool_building_def by (auto simp: step m1_def less_Suc_eq)
qed

lemma building_next:
  assumes "pool_building p mb n m xss"
  shows "pool_building (Suc p) (mb + n) 0 m xss"
proof -
  have "pool_id m b < Suc p" if "b < mb + n" for b
  proof (cases "b < mb")
    case True
    then show ?thesis using assms by (auto simp: pool_building_def less_Suc_eq)
  next
    case False
    then have "b - mb < n" using that by simp
    then have "pool_id m (mb + (b - mb)) = p" using assms unfolding pool_building_def by blast
    then show ?thesis using False by simp
  qed
  then show ?thesis using assms unfolding pool_building_def by auto
qed

lemma building_list:
  assumes bd: "pool_building p mb 0 m xss" and p: "p < 14"
  shows "\<exists>ys. pool_building (Suc p) (mb + n) 0 (pool_init_list p mb n m) (xss[p := ys])"
proof -
  let ?m = "m\<lparr>mem_lists := (mem_lists m)[p := list_init (mem_lists m ! p) (Some ''POOL'')]\<rparr>"
  have nil: "xss ! p = []" "pool_ok m xss" using bd p by (auto simp: pool_building_def)
  have "pool_ok ?m xss"
    using nil(2) lq.family_update [of "pl_heap m" "mem_lists m" xss p "pl_heap m" "list_init (mem_lists m ! p) (Some ''POOL'')" "[]"]
      list_ok_init pool_ok_lists [OF nil(2)] p nil(1) lq.family_nth
    by (simp add: pool_ok_def list_update_id lq.family_def) (metis list_update_id)
  then have start: "pool_building p mb 0 ?m xss" using bd by (simp add: pool_building_def pool_layout_def)
  have "\<exists>ys. pool_building p mb k (fold (pool_init_block p mb) [0..<k] ?m) (xss[p := ys])" for k
  proof (induction k)
    case 0
    then show ?case using start by (intro exI [of _ "xss ! p"]) simp
  next
    case (Suc k)
    then show ?case using building_block [OF _ p] by fastforce
  qed
  then obtain ys where "pool_building p mb n (pool_init_list p mb n m) (xss[p := ys])" unfolding pool_init_list_def by blast
  then have "pool_building (Suc p) (mb + n) 0 (pool_init_list p mb n m) (xss[p := ys])" by (rule building_next)
  then show ?thesis by blast
qed

lemma building_lists:
  assumes "pool_building p mb 0 m xss" "p + length ns = 14"
  shows "\<exists>yss. pool_building 14 (mb + sum_list ns) 0 (pool_init_lists p mb ns m) yss"
  using assms
proof (induction ns arbitrary: p mb m xss)
  case Nil
  then show ?case by auto
next
  case (Cons n ns)
  then obtain ys where "pool_building (Suc p) (mb + n) 0 (pool_init_list p mb n m) (xss[p := ys])"
    using building_list [of p mb m xss n] by auto
  then show ?case using Cons.IH [of "Suc p" "mb + n"] Cons.prems(2) by (simp add: add.assoc)
qed

lemma memset_building: "pool_building 0 0 0 pool_memset (replicate 14 [])"
proof -
  have "list_ok h \<lparr>head = None, tail = None, nb_elements = 0, name = []\<rparr> []" for h by (simp add: list_ok_def)
  then show ?thesis
    by (simp add: pool_building_def pool_ok_def pool_layout_def pool_memset_def lq.family_def list_all2_conv_all_nth)
qed

lemma pool_initialised:
  assumes "length sizes = 14"
  shows "\<exists>xss. pool_ok (pool_init_lists 0 0 sizes pool_memset) xss \<and> set (concat xss) = {..<sum_list sizes}
     \<and> pool_layout (pool_init_lists 0 0 sizes pool_memset) (sum_list sizes)"
proof -
  obtain yss where b: "pool_building 14 (0 + sum_list sizes) 0 (pool_init_lists 0 0 sizes pool_memset) yss"
    using building_lists [OF memset_building, of sizes] assms by auto
  show ?thesis using b unfolding pool_building_def add_0 add_0_right by blast
qed

section \<open>Allocation and release\<close>

text \<open>Histories of the pools: \<open>pool_run m A m'\<close> leads from \<open>m\<close> to \<open>m'\<close> and leaves the blocks \<open>A\<close> in use.\<close>

inductive pool_run :: "mem_pool \<Rightarrow> addr set \<Rightarrow> mem_pool \<Rightarrow> bool" for m0 where
  start: "pool_run m0 {} m0"
| alloc: "pool_run m0 A m \<Longrightarrow> sizeP < 262144 \<Longrightarrow> get_free_mem_block sizeP m = Inr (Some b, m') \<Longrightarrow> pool_run m0 (insert b A) m'"
| free: "pool_run m0 A m \<Longrightarrow> b \<in> A \<Longrightarrow> pool_run m0 (A - {b}) (free_mem_block (Some b) m)"

definition pool_inv :: "nat \<Rightarrow> addr set \<Rightarrow> mem_pool \<Rightarrow> bool" where
  "pool_inv n A m \<longleftrightarrow> pool_layout m n \<and> (\<exists>xss. pool_ok m xss \<and> set (concat xss) \<inter> A = {} \<and> set (concat xss) \<union> A = {..<n})"

lemma layout_cong: "pool_id m' = pool_id m \<Longrightarrow> blk_data m' = blk_data m \<Longrightarrow> pool_layout m' n = pool_layout m n"
  by (simp add: pool_layout_def)

lemma pool_inv_alloc:
  assumes inv: "pool_inv n A m" and sz: "sizeP < 262144" and g: "get_free_mem_block sizeP m = Inr (Some b, m')"
  shows "pool_inv n (insert b A) m' \<and> b \<notin> A \<and> b < n \<and> sizeP \<le> blk_capacity m' b"
proof -
  obtain xss where x: "pool_ok m xss" "set (concat xss) \<inter> A = {}" "set (concat xss) \<union> A = {..<n}" and lay: "pool_layout m n"
    using inv by (auto simp: pool_inv_def)
  obtain i ys where t: "sizeP < 64 * 2 ^ i" "i \<le> 12" "xss ! i = b # ys" "pool_ok m' (xss[i := ys])" "pool_id m' = pool_id m" "blk_data m' = blk_data m"
    using get_free_mem_block_ok [OF x(1) sz] g by auto
  have i: "i < length xss" "distinct (concat xss)" using x(1) t(2) by (auto simp: pool_ok_def lq.family_def)
  have "xss ! i \<in> set xss" using i(1) by (rule nth_mem)
  moreover have "b \<in> set (xss ! i)" using t(3) by simp
  ultimately have b: "b \<in> set (concat xss)" unfolding set_concat by blast
  then have bn: "b < n" "b \<notin> A" using x(2,3) by auto
  have id: "pool_id m b = i" using x(1) t(2,3) by (auto simp: pool_ok_def)
  have "sizeP \<le> blk_capacity m' b" using layout_data(2) [OF lay bn(1)] id t(1,2,6) by (auto simp: blk_capacity_def)
  moreover have "set (concat (xss[i := ys])) = set (concat xss) - {b}" by (rule concat_upd_set(2) [OF i(1) t(3) i(2)])
  then have "pool_inv n (insert b A) m'"
    unfolding pool_inv_def using t(4) x(2,3) b layout_cong [OF t(5,6)] lay by (intro conjI exI [of _ "xss[i := ys]"]) auto
  ultimately show ?thesis using bn by simp
qed

lemma pool_inv_free:
  assumes inv: "pool_inv n A m" and b: "b \<in> A"
  shows "pool_inv n (A - {b}) (free_mem_block (Some b) m)"
proof -
  obtain xss where x: "pool_ok m xss" "set (concat xss) \<inter> A = {}" "set (concat xss) \<union> A = {..<n}" and lay: "pool_layout m n"
    using inv by (auto simp: pool_inv_def)
  have id: "pool_id m b < 14" "b \<notin> set (concat xss)" using lay x(2,3) b by (auto simp: pool_layout_def)
  let ?yss = "xss[pool_id m b := xss ! pool_id m b @ [b]]"
  have "set (concat ?yss) = insert b (set (concat xss))" using concat_upd_set(1) [of "pool_id m b" xss b] id(1) x(1) by (simp add: pool_ok_def)
  then show ?thesis unfolding pool_inv_def
    using free_mem_block_ok [OF x(1) id] x(2,3) b id(2) layout_cong [of "free_mem_block (Some b) m" m n] lay
    by (intro conjI exI [of _ ?yss]) auto
qed

lemma pool_run_inv: "pool_run m0 A m \<Longrightarrow> pool_inv n {} m0 \<Longrightarrow> pool_inv n A m"
proof (induction rule: pool_run.induct)
  case start
  then show ?case .
next
  case (alloc A m sizeP b m')
  then show ?case using pool_inv_alloc [of n A m sizeP b m'] by blast
next
  case (free A m b)
  then show ?case using pool_inv_free by blast
qed

lemma pool_inv_initialised: "length sizes = 14 \<Longrightarrow> pool_inv (sum_list sizes) {} (pool_init_lists 0 0 sizes pool_memset)"
  using pool_initialised [of sizes] by (auto simp: pool_inv_def)

section \<open>Releasing a list\<close>

definition release :: "(addr \<Rightarrow> nat) \<Rightarrow> addr list \<Rightarrow> addr list list \<Rightarrow> addr list list" where
  "release pid = fold (\<lambda>b xss. xss[pid b := xss ! pid b @ [b]])"

lemma family_Cons:
  "lq.family h (l # ls) (xs # xss) \<longleftrightarrow> list_ok h l xs \<and> lq.family h ls xss \<and> set xs \<inter> set (concat xss) = {}"
  using list_ok_distinct by (auto simp: lq.family_def)

lemma list_free_step:
  assumes fam: "lq.family (pl_heap m) (l # mem_lists m) ((b # xs) # xss)" and len: "length xss = 14" and id: "pool_id m b < 14"
  shows "\<exists>h' l'. list_remove_head (pl_heap m) l = (Some b, h', l') \<and>
    (let m' = free_mem_block (Some b) (m\<lparr>pl_heap := h'\<rparr>) in
     lq.family (pl_heap m') (l' # mem_lists m') (xs # release (pool_id m) [b] xss))"
proof -
  obtain h' l' where r: "list_remove_head (pl_heap m) l = (Some b, h', l')" "lq.family h' (l' # mem_lists m) (xs # xss)"
    using lq.family_remove [OF fam, of 0 b xs] by auto
  obtain h2 l2 where a: "list_add_tail_eurecom (Some b) h' (mem_lists m ! pool_id m b) = (h2, l2)" by fastforce
  have ls: "length (mem_lists m) = 14" using lq.family_length [OF fam] len by simp
  have "b \<notin> set (concat (xs # xss))" using fam by (auto simp: lq.family_def)
  then have "lq.family h2 (l' # (mem_lists m)[pool_id m b := l2]) (xs # xss[pool_id m b := xss ! pool_id m b @ [b]])"
    using lq.family_add [OF r(2), of "Suc (pool_id m b)" b h2 l2] id ls a by simp
  then show ?thesis using r(1) a id by (simp add: free_mem_block_def release_def)
qed

lemma list_free_ok:
  assumes "lq.family (pl_heap m) (l # mem_lists m) (xs # xss)" "length xss = 14" "\<forall>b\<in>set xs. pool_id m b < 14"
  shows "\<exists>m' l'. list_free m l = Some (m', l') \<and> list_ok (pl_heap m') l' [] \<and> lq.family (pl_heap m') (mem_lists m') (release (pool_id m) xs xss)
    \<and> pool_id m' = pool_id m \<and> blk_data m' = blk_data m"
  using assms
proof (induction xs arbitrary: m l xss)
  case Nil
  then have "list_ok (pl_heap m) l []" "lq.family (pl_heap m) (mem_lists m) xss" by (simp_all add: family_Cons)
  then show ?case using lq.remove_head_empty by (subst list_free.simps) (simp add: release_def Let_def)
next
  case (Cons b xs)
  obtain h1 l1 where s: "list_remove_head (pl_heap m) l = (Some b, h1, l1)"
    "lq.family (pl_heap (free_mem_block (Some b) (m\<lparr>pl_heap := h1\<rparr>))) (l1 # mem_lists (free_mem_block (Some b) (m\<lparr>pl_heap := h1\<rparr>)))
       (xs # release (pool_id m) [b] xss)"
    using list_free_step [OF Cons.prems(1,2)] Cons.prems(3) by (auto simp: Let_def)
  then have unfold: "list_free m l = list_free (free_mem_block (Some b) (m\<lparr>pl_heap := h1\<rparr>)) l1"
    by (subst list_free.simps) (simp add: Let_def)
  have rel: "release (pool_id m) (b # xs) xss = release (pool_id m) xs (release (pool_id m) [b] xss)" by (simp add: release_def)
  show ?case unfolding unfold rel using Cons.IH [OF s(2)] Cons.prems(2,3) by (simp add: release_def)
qed

lemma release_length [simp]: "length (release pid xs xss) = length xss"
  by (induction xs arbitrary: xss) (simp_all add: release_def)

lemma release_ids:
  assumes "\<forall>i<14. \<forall>b\<in>set (xss ! i). pid b = i" "length xss = 14"
  shows "\<forall>i<14. \<forall>b\<in>set (release pid xs xss ! i). pid b = i"
  using assms
proof (induction xs arbitrary: xss)
  case Nil
  then show ?case by (simp add: release_def)
next
  case (Cons b xs)
  have ids: "\<forall>i<14. \<forall>c\<in>set (xss[pid b := xss ! pid b @ [b]] ! i). pid c = i"
  proof (intro allI impI ballI)
    fix i c assume i: "i < 14" and c: "c \<in> set (xss[pid b := xss ! pid b @ [b]] ! i)"
    show "pid c = i"
    proof (cases "pid b = i")
      case True
      then have "xss[pid b := xss ! pid b @ [b]] ! i = xss ! i @ [b]" using i Cons.prems(2) by simp
      then have "c \<in> set (xss ! i) \<or> c = b" using c by auto
      then show ?thesis using i True Cons.prems(1) by blast
    next
      case False
      then have "xss[pid b := xss ! pid b @ [b]] ! i = xss ! i" by simp
      then show ?thesis using c i Cons.prems(1) by simp
    qed
  qed
  have rel: "release pid (b # xs) xss = release pid xs (xss[pid b := xss ! pid b @ [b]])" by (simp add: release_def)
  have "length (xss[pid b := xss ! pid b @ [b]]) = 14" using Cons.prems(2) by simp
  then show ?case unfolding rel by (rule Cons.IH [OF ids])
qed

section \<open>Properties\<close>

text \<open>
  C17. No block is handed out twice: from the initialised pools, after any history of allocations and
  releases of blocks in use, a block that \<open>get_free_mem_block\<close> returns is not in use, has storage for at
  least the requested octets, and shares that storage with no other block in use.
\<close>
theorem mem_pool_no_aliasing:
  assumes "length sizes = 14" "pool_run (pool_init_lists 0 0 sizes pool_memset) A m"
    and "sizeP < 262144" "get_free_mem_block sizeP m = Inr (Some b, m')"
  shows "b \<notin> A \<and> sizeP \<le> blk_capacity m' b \<and> (\<forall>a\<in>A. blk_data m' a \<noteq> blk_data m' b)"
proof -
  let ?n = "sum_list sizes"
  have inv: "pool_inv ?n A m" using pool_run_inv [OF assms(2) pool_inv_initialised [OF assms(1)]] .
  then have new: "pool_inv ?n (insert b A) m'" "b \<notin> A" "b < ?n" "sizeP \<le> blk_capacity m' b" using pool_inv_alloc [OF inv assms(3,4)] by simp_all
  have "\<exists>i\<le>12. pool_id m b = i \<and> pool_id m' = pool_id m"
  proof -
    obtain xss where x: "pool_ok m xss" using inv by (auto simp: pool_inv_def)
    obtain i ys where "i \<le> 12" "xss ! i = b # ys" "pool_id m' = pool_id m" using get_free_mem_block_ok [OF x assms(3)] assms(4) by auto
    moreover from this have "pool_id m b = i" using x by (force simp: pool_ok_def)
    ultimately show ?thesis by simp
  qed
  then have id: "pool_id m' b \<le> 12" using assms(4) by auto
  have "blk_data m' a \<noteq> blk_data m' b" if "a \<in> A" for a
  proof
    assume eq: "blk_data m' a = blk_data m' b"
    have lay: "pool_layout m' ?n" "a < ?n" using new(1) that by (auto simp: pool_inv_def)
    have "pool_id m' a \<le> 12" using layout_data(1) [OF lay] layout_data(1) [OF lay(1) new(3)] eq id by simp
    then show False using inj_onD [of "blk_data m'" "{b. b < ?n \<and> pool_id m' b \<le> 12}" a b] lay eq id new(2,3) that by (auto simp: pool_layout_def)
  qed
  then show ?thesis using new by simp
qed


definition small_sizes :: "nat list" where
  "small_sizes = [2, 1, 0, 0, 0, 0, 0, 0, 0, 0, 0, 0, 1, 1]"

lemma get_small:
  "get_free_mem_block 10 m = pool_take 0 m" "get_free_mem_block 20 m = pool_take 0 m" "get_free_mem_block 100 m = pool_take 1 m"
  "get_free_mem_block 262144 m = pool_take 13 m"
proof -
  have "pool_select 0 0 = 0" "pool_select 0 1 = 1" "pool_select 0 4096 = 13" by (simp_all add: pool_select.simps)
  then show "get_free_mem_block 10 m = pool_take 0 m" "get_free_mem_block 20 m = pool_take 0 m"
    "get_free_mem_block 100 m = pool_take 1 m" "get_free_mem_block 262144 m = pool_take 13 m"
    by (simp_all add: get_free_mem_block_def)
qed

theorem mem_pool_no_aliasing_witness:
  "\<exists>m1 m2. get_free_mem_block 10 (pool_init_lists 0 0 small_sizes pool_memset) = Inr (Some 0, m1)
     \<and> get_free_mem_block 20 m1 = Inr (Some 1, m2) \<and> 20 \<le> blk_capacity m2 1 \<and> blk_data m2 0 \<noteq> blk_data m2 1"
proof -
  let ?m = "pool_init_lists 0 0 small_sizes pool_memset"
  have len: "length small_sizes = 14" by (simp add: small_sizes_def)
  have "case get_free_mem_block 10 ?m of Inr (Some a, m1) \<Rightarrow> (case get_free_mem_block 20 m1 of Inr (Some b, m2) \<Rightarrow> a = 0 \<and> b = 1 | _ \<Rightarrow> False) | _ \<Rightarrow> False"
    unfolding get_small by code_simp
  then obtain m1 m2 where g: "get_free_mem_block 10 ?m = Inr (Some 0, m1)" "get_free_mem_block 20 m1 = Inr (Some 1, m2)"
    by (cases "get_free_mem_block 10 ?m"; cases "get_free_mem_block 20 (snd (projr (get_free_mem_block 10 ?m)))") (auto split: option.splits)
  have "pool_run ?m (insert 0 {}) m1" using pool_run.alloc [OF pool_run.start _ g(1)] by simp
  from mem_pool_no_aliasing [OF len this _ g(2)] show ?thesis using g by auto
qed



text \<open>
  Releasing a list of blocks ends, empties the list and appends each of its blocks, in order, to the
  free list of the pool the block came from.
\<close>
theorem list_free_terminates:
  assumes "pool_ok m xss" "list_ok (pl_heap m) l xs" "set xs \<inter> set (concat xss) = {}" "\<forall>b\<in>set xs. pool_id m b < 14"
  shows "\<exists>m' l'. list_free m l = Some (m', l') \<and> list_ok (pl_heap m') l' [] \<and> pool_ok m' (release (pool_id m) xs xss)"
proof -
  have "lq.family (pl_heap m) (l # mem_lists m) (xs # xss)" "length xss = 14" using assms by (auto simp: family_Cons pool_ok_def)
  then obtain m' l' where f: "list_free m l = Some (m', l')" "list_ok (pl_heap m') l' []"
      "lq.family (pl_heap m') (mem_lists m') (release (pool_id m) xs xss)" "pool_id m' = pool_id m"
    using list_free_ok [OF _ _ assms(4)] by blast
  then have "pool_ok m' (release (pool_id m) xs xss)"
    using assms(1) release_ids [of xss "pool_id m" xs] by (simp add: pool_ok_def)
  then show ?thesis using f by blast
qed

theorem list_free_terminates_witness:
  "\<exists>m' l'. list_free pool_memset (list_init (list_of [5]) None) = Some (m', l') \<and> list_ok (pl_heap m') l' []"
  using list_free_terminates [of pool_memset "replicate 14 []" "list_init (list_of [5]) None" "[]"] memset_building list_ok_init
  by (auto simp: pool_building_def)

section \<open>Where the pools fail\<close>

text \<open>
  A request of exactly the size of the largest blocks passes the size check but selects the pool of
  blocks without storage.
\<close>

lemma largest_request_gets_no_storage:
  "case get_free_mem_block 262144 (pool_init_lists 0 0 small_sizes pool_memset) of
     Inr (Some b, m') \<Rightarrow> blk_data m' b = None | _ \<Rightarrow> False"
  unfolding get_small by code_simp

text \<open>The first call of the initialisation works on a NULL area.\<close>

lemma pool_buffer_init_first_call: "pool_buffer_init mem_scale jumbo_frames None malloc_result = Inl Null_dereference"
  by (simp add: pool_buffer_init_def)

end
