(* ===== verification/Hash_Table.thy ===== *)
theory Hash_Table
  imports Oai_Prelude
begin

text \<open>
  The chained hash table (\<open>hashtable.c\<close>) in which the layers keep their radio bearer entities. A chain
  is the list of its nodes, a node a key and a data pointer (\<open>None\<close> is NULL); the pointers a table passes
  to its \<open>freefunc\<close> are logged in \<open>freed\<close>. \<open>None\<close> in place of a table is the NULL pointer. The failure of
  \<open>malloc\<close> and the content of fresh memory are arguments.

  The lemmas show that the operations implement a finite map and count its keys, as the contracts
  \<open>key_table\<close> and \<open>counted_table\<close> say; and what resizing does to the data.
\<close>

section \<open>Tables\<close>

type_synonym hash_key = "64 word"

datatype hashtable_rc =
  HASH_TABLE_OK | HASH_TABLE_INSERT_OVERWRITTEN_DATA | HASH_TABLE_KEY_NOT_EXISTS | HASH_TABLE_KEY_ALREADY_EXISTS
| HASH_TABLE_BAD_PARAMETER_HASHTABLE | HASH_TABLE_SYSTEM_ERROR | HASH_TABLE_MINUS_1

type_synonym 'a chain = "(hash_key \<times> 'a option) list"

record 'a hash_table =
  ht_size :: nat
  num_elements :: "64 word"
  nodes :: "'a chain list"
  hashfunc :: "hash_key \<Rightarrow> 64 word"
  freed :: "'a list"

definition def_hashfunc :: "hash_key \<Rightarrow> 64 word" where
  "def_hashfunc keyP = keyP"

definition hashtable_create ::
  "nat \<Rightarrow> (hash_key \<Rightarrow> 64 word) option \<Rightarrow> bool \<Rightarrow> bool \<Rightarrow> 64 word \<Rightarrow> 'a hash_table option" where
  "hashtable_create sizeP hashfuncP malloc_ok calloc_ok fresh =
     (if \<not> malloc_ok then None
      else if \<not> calloc_ok then None
      else Some \<lparr>ht_size = sizeP, num_elements = fresh, nodes = replicate sizeP [],
                 hashfunc = (case hashfuncP of None \<Rightarrow> def_hashfunc | Some f \<Rightarrow> f), freed = []\<rparr>)"

definition call_freefunc :: "'a option \<Rightarrow> 'a hash_table \<Rightarrow> 'a hash_table" where
  "call_freefunc d t = (case d of None \<Rightarrow> t | Some x \<Rightarrow> t\<lparr>freed := freed t @ [x]\<rparr>)"

definition hashtable_destroy :: "'a hash_table option \<Rightarrow> hashtable_rc \<times> 'a list" where
  "hashtable_destroy tp =
     (case tp of
        None \<Rightarrow> (HASH_TABLE_BAD_PARAMETER_HASHTABLE, [])
      | Some t \<Rightarrow> (HASH_TABLE_OK, freed (fold (\<lambda>(k, d). call_freefunc d) (concat (nodes t)) t)))"

definition slot :: "'a hash_table \<Rightarrow> hash_key \<Rightarrow> nat" where
  "slot t k = unat (hashfunc t k) mod ht_size t"

fun chain_find :: "hash_key \<Rightarrow> 'a chain \<Rightarrow> 'a option option" where
  "chain_find keyP [] = None"
| "chain_find keyP ((k, d) # ns) = (if k = keyP then Some d else chain_find keyP ns)"

fun chain_overwrite :: "hash_key \<Rightarrow> 'a option \<Rightarrow> 'a chain \<Rightarrow> 'a chain" where
  "chain_overwrite keyP dataP [] = []"
| "chain_overwrite keyP dataP ((k, d) # ns) =
     (if k = keyP then (k, dataP) # ns else (k, d) # chain_overwrite keyP dataP ns)"

fun chain_unlink :: "hash_key \<Rightarrow> 'a chain \<Rightarrow> 'a chain" where
  "chain_unlink keyP [] = []"
| "chain_unlink keyP ((k, d) # ns) = (if k = keyP then ns else (k, d) # chain_unlink keyP ns)"

definition hashtable_is_key_exists :: "'a hash_table option \<Rightarrow> hash_key \<Rightarrow> hashtable_rc" where
  "hashtable_is_key_exists tp keyP =
     (case tp of
        None \<Rightarrow> HASH_TABLE_BAD_PARAMETER_HASHTABLE
      | Some t \<Rightarrow>
          (case chain_find keyP (nodes t ! slot t keyP) of
             Some _ \<Rightarrow> HASH_TABLE_OK
           | None \<Rightarrow> HASH_TABLE_KEY_NOT_EXISTS))"

fun apply_chains :: "(hash_key \<Rightarrow> 'a option \<Rightarrow> 's \<Rightarrow> 's) \<Rightarrow> nat \<Rightarrow> nat \<Rightarrow> 'a chain list \<Rightarrow> 's \<Rightarrow> 's" where
  "apply_chains functP limit num [] s = s"
| "apply_chains functP limit num (c # cs) s =
     (if num < limit
      then apply_chains functP limit ((num + length c) mod 2 ^ 32) cs (fold (\<lambda>(k, d). functP k d) c s)
      else s)"

definition hashtable_apply_funct_on_elements ::
  "'a hash_table option \<Rightarrow> (hash_key \<Rightarrow> 'a option \<Rightarrow> 's \<Rightarrow> 's) \<Rightarrow> 's \<Rightarrow> hashtable_rc \<times> 's" where
  "hashtable_apply_funct_on_elements tp functP s =
     (case tp of
        None \<Rightarrow> (HASH_TABLE_BAD_PARAMETER_HASHTABLE, s)
      | Some t \<Rightarrow> (HASH_TABLE_OK, apply_chains functP (unat (num_elements t)) 0 (nodes t) s))"

definition hashtable_insert ::
  "bool \<Rightarrow> 'a hash_table option \<Rightarrow> hash_key \<Rightarrow> 'a option \<Rightarrow> hashtable_rc \<times> 'a hash_table option" where
  "hashtable_insert malloc_ok tp keyP dataP =
     (case tp of
        None \<Rightarrow> (HASH_TABLE_BAD_PARAMETER_HASHTABLE, None)
      | Some t \<Rightarrow>
          let hash = slot t keyP; c = nodes t ! hash in
          (case chain_find keyP c of
             Some old \<Rightarrow>
               (HASH_TABLE_INSERT_OVERWRITTEN_DATA,
                Some ((call_freefunc old t)\<lparr>nodes := (nodes t)[hash := chain_overwrite keyP dataP c]\<rparr>))
           | None \<Rightarrow>
               if \<not> malloc_ok then (HASH_TABLE_MINUS_1, Some t)
               else (HASH_TABLE_OK,
                     Some (t\<lparr>nodes := (nodes t)[hash := (keyP, dataP) # c], num_elements := num_elements t + 1\<rparr>))))"

definition hashtable_remove :: "'a hash_table option \<Rightarrow> hash_key \<Rightarrow> hashtable_rc \<times> 'a hash_table option" where
  "hashtable_remove tp keyP =
     (case tp of
        None \<Rightarrow> (HASH_TABLE_BAD_PARAMETER_HASHTABLE, None)
      | Some t \<Rightarrow>
          let hash = slot t keyP; c = nodes t ! hash in
          (case chain_find keyP c of
             Some old \<Rightarrow>
               (HASH_TABLE_OK,
                Some ((call_freefunc old t)\<lparr>nodes := (nodes t)[hash := chain_unlink keyP c], num_elements := num_elements t - 1\<rparr>))
           | None \<Rightarrow> (HASH_TABLE_KEY_NOT_EXISTS, Some t)))"

definition hashtable_get :: "'a hash_table option \<Rightarrow> hash_key \<Rightarrow> hashtable_rc \<times> 'a option" where
  "hashtable_get tp keyP =
     (case tp of
        None \<Rightarrow> (HASH_TABLE_BAD_PARAMETER_HASHTABLE, None)
      | Some t \<Rightarrow>
          (case chain_find keyP (nodes t ! slot t keyP) of
             Some d \<Rightarrow> (HASH_TABLE_OK, d)
           | None \<Rightarrow> (HASH_TABLE_KEY_NOT_EXISTS, None)))"

text \<open>
  Each node of the old table is inserted into the new one and then removed from the old one. The
  successor of a node is read before the node is removed, so the nodes visited are those of the
  chains as they were.
\<close>

definition resize_move ::
  "(hash_key \<Rightarrow> bool) \<Rightarrow> hash_key \<times> 'a option \<Rightarrow> 'a hash_table option \<times> 'a hash_table option \<Rightarrow> 'a hash_table option \<times> 'a hash_table option" where
  "resize_move malloc_ok n p = (case (n, p) of ((k, d), (tp, newtbl)) \<Rightarrow>
     (snd (hashtable_remove tp k), snd (hashtable_insert (malloc_ok k) newtbl k d)))"

definition hashtable_resize ::
  "bool \<Rightarrow> (hash_key \<Rightarrow> bool) \<Rightarrow> 64 word \<Rightarrow> 'a hash_table option \<Rightarrow> nat \<Rightarrow> hashtable_rc \<times> 'a hash_table option" where
  "hashtable_resize calloc_ok malloc_ok fresh tp sizeP =
     (case tp of
        None \<Rightarrow> (HASH_TABLE_BAD_PARAMETER_HASHTABLE, None)
      | Some t \<Rightarrow>
          if \<not> calloc_ok then (HASH_TABLE_MINUS_1, Some t)
          else
            let newtbl = \<lparr>ht_size = sizeP, num_elements = fresh, nodes = replicate sizeP [], hashfunc = hashfunc t, freed = []\<rparr> in
            (case fold (resize_move malloc_ok) (concat (nodes t)) (Some t, Some newtbl) of
               (Some t', Some n') \<Rightarrow> (HASH_TABLE_OK, Some (t'\<lparr>ht_size := ht_size n', nodes := nodes n'\<rparr>))
             | q \<Rightarrow> (HASH_TABLE_OK, fst q)))"

section \<open>The map a table holds\<close>

definition ht_map :: "'a hash_table \<Rightarrow> hash_key \<rightharpoonup> 'a option" where
  "ht_map t k = chain_find k (nodes t ! slot t k)"

definition ht_ok :: "'a hash_table \<Rightarrow> bool" where
  "ht_ok t \<longleftrightarrow> 0 < ht_size t \<and> length (nodes t) = ht_size t
     \<and> (\<forall>i<ht_size t. distinct (map fst (nodes t ! i)) \<and> fst ` set (nodes t ! i) \<subseteq> slot t -` {i})"

definition ht_put :: "hash_key \<Rightarrow> 'a option \<Rightarrow> 'a hash_table \<Rightarrow> 'a hash_table" where
  "ht_put k d t = the (snd (hashtable_insert True (Some t) k d))"

definition ht_del :: "hash_key \<Rightarrow> 'a hash_table \<Rightarrow> 'a hash_table" where
  "ht_del k t = the (snd (hashtable_remove (Some t) k))"

lemma chain_find_overwrite: "chain_find k' (chain_overwrite k d c) = (if k' = k \<and> chain_find k c \<noteq> None then Some d else chain_find k' c)"
  by (induction k d c rule: chain_overwrite.induct) auto

lemma chain_find_None: "chain_find k c = None \<longleftrightarrow> k \<notin> fst ` set c"
  by (induction k c rule: chain_find.induct) auto

lemma chain_unlink_filter: "distinct (map fst c) \<Longrightarrow> chain_unlink k c = filter (\<lambda>n. fst n \<noteq> k) c"
  by (induction k c rule: chain_unlink.induct) (auto simp: image_iff intro!: filter_id_conv [THEN iffD2, symmetric])

lemma chain_find_filter: "chain_find k' (filter (\<lambda>n. fst n \<noteq> k) c) = (if k' = k then None else chain_find k' c)"
proof (induction c)
  case (Cons n c)
  then show ?case by (cases n) auto
qed simp

lemma chain_overwrite_fst [simp]: "map fst (chain_overwrite k d c) = map fst c"
  by (induction k d c rule: chain_overwrite.induct) auto

lemma slot_less [simp]: "ht_ok t \<Longrightarrow> slot t k < ht_size t" "ht_ok t \<Longrightarrow> slot t k < length (nodes t)"
  by (simp_all add: slot_def ht_ok_def)

lemma call_freefunc_simps [simp]:
  "ht_size (call_freefunc d t) = ht_size t" "num_elements (call_freefunc d t) = num_elements t"
  "nodes (call_freefunc d t) = nodes t" "hashfunc (call_freefunc d t) = hashfunc t"
  by (simp_all add: call_freefunc_def split: option.split)

lemma slot_cong: "hashfunc t' = hashfunc t \<Longrightarrow> ht_size t' = ht_size t \<Longrightarrow> slot t' = slot t"
  by (simp add: slot_def fun_eq_iff)

lemma ht_ok_cong:
  assumes "hashfunc t' = hashfunc t" "ht_size t' = ht_size t" "nodes t' = nodes t"
  shows "ht_ok t' = ht_ok t" "ht_map t' = ht_map t"
  using slot_cong [OF assms(1,2)] assms by (simp add: ht_ok_def, simp add: ht_map_def ext)

text \<open>Replacing the chain of one slot, the only change an operation makes.\<close>

lemma ht_ok_update:
  assumes ok: "ht_ok t" and t': "hashfunc t' = hashfunc t" "ht_size t' = ht_size t" "nodes t' = (nodes t)[slot t k := c]"
    and c: "distinct (map fst c)" "fst ` set c \<subseteq> slot t -` {slot t k}"
  shows "ht_ok t'" "ht_map t' k' = (if slot t k' = slot t k then chain_find k' c else ht_map t k')"
proof -
  have s: "slot t' = slot t" using slot_cong t'(1,2) by blast
  show "ht_ok t'" using ok t' c s by (auto simp: ht_ok_def nth_list_update)
  show "ht_map t' k' = (if slot t k' = slot t k then chain_find k' c else ht_map t k')"
    using ok by (simp add: ht_map_def s t'(3))
qed

lemma ht_chain:
  assumes "ht_ok t"
  shows "distinct (map fst (nodes t ! slot t k))" "fst ` set (nodes t ! slot t k) \<subseteq> slot t -` {slot t k}"
  using assms slot_less(1) [OF assms, of k] by (auto simp: ht_ok_def)

lemma hashtable_insert_eq:
  assumes "ht_ok t"
  shows "hashtable_insert True (Some t) k d = (if ht_map t k = None then HASH_TABLE_OK else HASH_TABLE_INSERT_OVERWRITTEN_DATA, Some (ht_put k d t))"
    and "ht_ok (ht_put k d t)" "ht_map (ht_put k d t) = (ht_map t)(k \<mapsto> d)"
    and "num_elements (ht_put k d t) = num_elements t + (if ht_map t k = None then 1 else 0)"
    and "hashfunc (ht_put k d t) = hashfunc t" "ht_size (ht_put k d t) = ht_size t"
proof -
  let ?c = "nodes t ! slot t k"
  let ?n = "if ht_map t k = None then (k, d) # ?c else chain_overwrite k d ?c"
  have p: "hashfunc (ht_put k d t) = hashfunc t" "ht_size (ht_put k d t) = ht_size t" "nodes (ht_put k d t) = (nodes t)[slot t k := ?n]"
    by (auto simp: ht_put_def hashtable_insert_def ht_map_def Let_def split: option.split)
  have c: "distinct (map fst ?n)" "fst ` set ?n \<subseteq> slot t -` {slot t k}"
    using ht_chain [OF assms, of k] by (auto simp: ht_map_def chain_find_None simp flip: set_map)
  show "ht_ok (ht_put k d t)" by (rule ht_ok_update(1) [OF assms p c])
  show "ht_map (ht_put k d t) = (ht_map t)(k \<mapsto> d)"
  proof
    fix k' show "ht_map (ht_put k d t) k' = ((ht_map t)(k \<mapsto> d)) k'"
      unfolding ht_ok_update(2) [OF assms p c] by (cases "slot t k' = slot t k") (auto simp: chain_find_overwrite ht_map_def)
  qed
  show "hashtable_insert True (Some t) k d = (if ht_map t k = None then HASH_TABLE_OK else HASH_TABLE_INSERT_OVERWRITTEN_DATA, Some (ht_put k d t))"
    "num_elements (ht_put k d t) = num_elements t + (if ht_map t k = None then 1 else 0)"
    by (auto simp: ht_put_def hashtable_insert_def ht_map_def Let_def split: option.split)
  show "hashfunc (ht_put k d t) = hashfunc t" "ht_size (ht_put k d t) = ht_size t" by (fact p)+
qed

lemma hashtable_remove_eq:
  assumes "ht_ok t"
  shows "hashtable_remove (Some t) k = (if ht_map t k = None then HASH_TABLE_KEY_NOT_EXISTS else HASH_TABLE_OK, Some (ht_del k t))"
    and "ht_ok (ht_del k t)" "ht_map (ht_del k t) = (ht_map t)(k := None)"
    and "num_elements (ht_del k t) = num_elements t - (if ht_map t k = None then 0 else 1)"
    and "freed (ht_del k t) = freed t @ (case ht_map t k of Some (Some x) \<Rightarrow> [x] | _ \<Rightarrow> [])"
proof -
  let ?c = "nodes t ! slot t k"
  let ?n = "if ht_map t k = None then ?c else chain_unlink k ?c"
  have p: "hashfunc (ht_del k t) = hashfunc t" "ht_size (ht_del k t) = ht_size t" "nodes (ht_del k t) = (nodes t)[slot t k := ?n]"
    using assms by (auto simp: ht_del_def hashtable_remove_def ht_map_def Let_def split: option.split)
  have c: "distinct (map fst ?n)" "fst ` set ?n \<subseteq> slot t -` {slot t k}"
    using ht_chain [OF assms, of k] by (auto simp: chain_unlink_filter distinct_map_filter)
  show "ht_ok (ht_del k t)" by (rule ht_ok_update(1) [OF assms p c])
  show "ht_map (ht_del k t) = (ht_map t)(k := None)"
  proof
    fix k' show "ht_map (ht_del k t) k' = ((ht_map t)(k := None)) k'"
      unfolding ht_ok_update(2) [OF assms p c] using ht_chain(1) [OF assms, of k]
      by (cases "slot t k' = slot t k") (auto simp: chain_unlink_filter chain_find_filter ht_map_def)
  qed
  show "hashtable_remove (Some t) k = (if ht_map t k = None then HASH_TABLE_KEY_NOT_EXISTS else HASH_TABLE_OK, Some (ht_del k t))"
    "num_elements (ht_del k t) = num_elements t - (if ht_map t k = None then 0 else 1)"
    "freed (ht_del k t) = freed t @ (case ht_map t k of Some (Some x) \<Rightarrow> [x] | _ \<Rightarrow> [])"
    by (auto simp: ht_del_def hashtable_remove_def ht_map_def Let_def call_freefunc_def split: option.split)
qed


lemma distinct_concat_nth:
  assumes "\<And>i. i < length cs \<Longrightarrow> distinct (cs ! i)"
    and "\<And>i j. i < length cs \<Longrightarrow> j < length cs \<Longrightarrow> i \<noteq> j \<Longrightarrow> set (cs ! i) \<inter> set (cs ! j) = {}"
  shows "distinct (concat cs)"
  using assms
proof (induction cs)
  case (Cons c cs)
  have "distinct (concat cs)" using Cons.IH Cons.prems(1) [of "Suc i" for i] Cons.prems(2) [of "Suc i" "Suc j" for i j] by simp
  moreover have "set c \<inter> set (concat cs) = {}"
  proof -
    have "set c \<inter> set d = {}" if d: "d \<in> set cs" for d
    proof -
      obtain j where "j < length cs" "cs ! j = d" using d by (meson in_set_conv_nth)
      then show ?thesis using Cons.prems(2) [of 0 "Suc j"] by simp
    qed
    then show ?thesis by auto
  qed
  ultimately show ?case using Cons.prems(1) [of 0] by simp
qed simp

lemma chain_find_map_of: "chain_find k c = map_of c k"
  by (induction k c rule: chain_find.induct) auto

lemma ht_entries:
  assumes "ht_ok t"
  shows "distinct (map fst (concat (nodes t)))" "map_of (concat (nodes t)) = ht_map t"
    "finite (dom (ht_map t))" "card (dom (ht_map t)) = length (concat (nodes t))"
proof -
  have at: "slot t k = i" if "i < ht_size t" "k \<in> fst ` set (nodes t ! i)" for i k
    using assms that by (force simp: ht_ok_def)
  have "distinct (concat (map (map fst) (nodes t)))"
  proof (rule distinct_concat_nth)
    fix i j assume "i < length (map (map fst) (nodes t))" "j < length (map (map fst) (nodes t))" "i \<noteq> j"
    then show "set (map (map fst) (nodes t) ! i) \<inter> set (map (map fst) (nodes t) ! j) = {}"
      using at [of i] at [of j] assms by (auto simp: ht_ok_def)
  qed (use assms in \<open>simp add: ht_ok_def\<close>)
  then show d: "distinct (map fst (concat (nodes t)))" by (simp add: map_concat)
  have "(k, d) \<in> set (concat (nodes t)) \<longleftrightarrow> (k, d) \<in> set (nodes t ! slot t k)" for k d
  proof
    assume "(k, d) \<in> set (concat (nodes t))"
    then obtain c where "c \<in> set (nodes t)" "(k, d) \<in> set c" by auto
    then obtain i where i: "i < length (nodes t)" "(k, d) \<in> set (nodes t ! i)" by (metis in_set_conv_nth)
    then have "slot t k = i" using assms by (intro at) (auto simp: ht_ok_def intro: rev_image_eqI)
    then show "(k, d) \<in> set (nodes t ! slot t k)" using i by simp
  qed (use slot_less(2) [OF assms] in \<open>auto intro: nth_mem\<close>)
  then have "map_of (concat (nodes t)) k = Some d \<longleftrightarrow> ht_map t k = Some d" for k d
    using d ht_chain(1) [OF assms, of k] by (simp add: map_of_eq_Some_iff ht_map_def chain_find_map_of)
  then show m: "map_of (concat (nodes t)) = ht_map t" by (metis not_None_eq ext)
  show "finite (dom (ht_map t))" unfolding m [symmetric] by (rule finite_dom_map_of)
  show "card (dom (ht_map t)) = length (concat (nodes t))"
    unfolding m [symmetric] dom_map_of_conv_image_fst using distinct_card [OF d] by simp
qed

section \<open>The contract of a table\<close>

locale key_table =
  fixes inv :: "'t \<Rightarrow> bool"
    and lookup :: "'t \<Rightarrow> 'k \<rightharpoonup> 'v"
    and insert :: "'k \<Rightarrow> 'v \<Rightarrow> 't \<Rightarrow> 't"
    and remove :: "'k \<Rightarrow> 't \<Rightarrow> 't"
  assumes inv_insert: "inv t \<Longrightarrow> inv (insert k v t)"
    and inv_remove: "inv t \<Longrightarrow> inv (remove k t)"
    and lookup_insert: "inv t \<Longrightarrow> lookup (insert k v t) = (lookup t)(k \<mapsto> v)"
    and lookup_remove: "inv t \<Longrightarrow> lookup (remove k t) = (lookup t)(k := None)"
begin

lemmas table_laws = inv_insert inv_remove lookup_insert lookup_remove

definition insert_all :: "('k \<times> 'v) list \<Rightarrow> 't \<Rightarrow> 't" where
  "insert_all = fold (\<lambda>(k, v). insert k v)"

definition remove_all :: "'k list \<Rightarrow> 't \<Rightarrow> 't" where
  "remove_all = fold remove"

lemma insert_all:
  assumes "inv t" "distinct (map fst kvs)"
  shows "inv (insert_all kvs t)" "lookup (insert_all kvs t) = lookup t ++ map_of kvs"
proof -
  have "inv (insert_all kvs t) \<and> lookup (insert_all kvs t) = lookup t ++ map_of kvs"
    using assms
  proof (induction kvs arbitrary: t)
    case Nil
    then show ?case by (simp add: insert_all_def)
  next
    case (Cons kv kvs)
    obtain k v where kv: "kv = (k, v)" by fastforce
    have "inv (insert_all kvs (insert k v t)) \<and> lookup (insert_all kvs (insert k v t)) = lookup (insert k v t) ++ map_of kvs"
      using Cons kv table_laws(1) by simp
    moreover have "(lookup t)(k \<mapsto> v) ++ map_of kvs = lookup t ++ map_of (kv # kvs)"
      using Cons.prems(2) kv by (auto simp: map_add_def fun_eq_iff image_iff dest: map_of_SomeD split: option.split)
    moreover have "insert_all (kv # kvs) t = insert_all kvs (insert k v t)" using kv by (simp add: insert_all_def)
    ultimately show ?case using Cons.prems(1) table_laws(3) by (simp del: map_of.simps)
  qed
  then show "inv (insert_all kvs t)" "lookup (insert_all kvs t) = lookup t ++ map_of kvs" by simp_all
qed

lemma remove_all:
  assumes "inv t"
  shows "inv (remove_all ks t)" "lookup (remove_all ks t) = (lookup t) |` (- set ks)"
proof -
  have "inv (remove_all ks t) \<and> lookup (remove_all ks t) = (lookup t) |` (- set ks)"
    using assms
  proof (induction ks arbitrary: t)
    case Nil
    then show ?case by (simp add: remove_all_def)
  next
    case (Cons k ks)
    then show ?case using table_laws(2,4) by (auto simp: remove_all_def restrict_map_def fun_eq_iff)
  qed
  then show "inv (remove_all ks t)" "lookup (remove_all ks t) = (lookup t) |` (- set ks)" by simp_all
qed

end

text \<open>A table that counts: the difference between the counter and the number of keys never changes.\<close>

locale counted_table = key_table inv lookup insert remove
  for inv :: "'t \<Rightarrow> bool" and lookup :: "'t \<Rightarrow> 'k \<rightharpoonup> 'v" and insert remove +
  fixes num :: "'t \<Rightarrow> 64 word"
  assumes finite_lookup: "inv t \<Longrightarrow> finite (dom (lookup t))"
    and num_insert: "inv t \<Longrightarrow> num (insert k v t) = num t + (if lookup t k = None then 1 else 0)"
    and num_remove: "inv t \<Longrightarrow> num (remove k t) = num t - (if lookup t k = None then 0 else 1)"
begin

definition excess :: "'t \<Rightarrow> 64 word" where
  "excess t = num t - of_nat (card (dom (lookup t)))"

lemma excess_insert: "inv t \<Longrightarrow> excess (insert k v t) = excess t"
proof -
  assume t: "inv t"
  have "of_nat (card (dom ((lookup t)(k \<mapsto> v)))) = (of_nat (card (dom (lookup t))) + (if lookup t k = None then 1 else 0) :: 64 word)"
    using finite_lookup [OF t] by (auto simp: card_insert_if domIff)
  then show ?thesis using t by (simp add: excess_def num_insert table_laws)
qed

lemma excess_remove: "inv t \<Longrightarrow> excess (remove k t) = excess t"
proof -
  assume t: "inv t"
  show ?thesis
  proof (cases "lookup t k = None")
    case True
    then have "(lookup t)(k := None) = lookup t" by auto
    then show ?thesis using t True by (simp add: excess_def num_remove table_laws)
  next
    case False
    then have "card (dom (lookup t)) = Suc (card (dom (lookup t) - {k}))"
      using finite_lookup [OF t] by (metis card_Suc_Diff1 domIff)
    then show ?thesis using t False by (simp add: excess_def num_remove table_laws)
  qed
qed

end

interpretation ht: counted_table ht_ok ht_map ht_put ht_del num_elements
  by unfold_locales (simp_all add: hashtable_insert_eq hashtable_remove_eq ht_entries)


section \<open>Visiting the elements\<close>

lemma apply_chains_all:
  assumes "limit = num + length (concat cs)" "limit < 2 ^ 32"
  shows "apply_chains f limit num cs s = fold (\<lambda>(k, d). f k d) (concat cs) s"
  using assms
proof (induction cs arbitrary: num s)
  case (Cons c cs)
  show ?case
  proof (cases "num < limit")
    case True
    moreover have "(num + length c) mod 2 ^ 32 = num + length c" using Cons.prems by simp
    ultimately show ?thesis using Cons by (simp add: fold_append)
  next
    case False
    then have "c = []" "concat cs = []" using Cons.prems(1) by simp_all
    then show ?thesis using False by (simp del: concat_eq_Nil_conv)
  qed
qed simp

section \<open>Resizing\<close>

lemma resize_fold:
  assumes "ht_ok t" "ht_ok n"
  shows "fold (resize_move (\<lambda>k. True)) ns (Some t, Some n) = (Some (ht.remove_all (map fst ns) t), Some (ht.insert_all ns n))"
  using assms
proof (induction ns arbitrary: t n)
  case Nil
  then show ?case by (simp add: ht.remove_all_def ht.insert_all_def)
next
  case (Cons e ns)
  obtain k d where e: "e = (k, d)" by fastforce
  have "resize_move (\<lambda>k. True) e (Some t, Some n) = (Some (ht_del k t), Some (ht_put k d n))"
    using hashtable_remove_eq(1) [OF Cons.prems(1)] hashtable_insert_eq(1) [OF Cons.prems(2)] by (simp add: resize_move_def e)
  then show ?case
    using Cons e hashtable_remove_eq(2) [OF Cons.prems(1), of k] hashtable_insert_eq(2) [OF Cons.prems(2), of k d] by (simp add: ht.remove_all_def ht.insert_all_def)
qed

lemma insert_all_static:
  assumes "ht_ok n"
  shows "hashfunc (ht.insert_all ns n) = hashfunc n \<and> ht_size (ht.insert_all ns n) = ht_size n"
  using assms
proof (induction ns arbitrary: n)
  case Nil
  then show ?case by (simp add: ht.insert_all_def)
next
  case (Cons e ns)
  then show ?case using hashtable_insert_eq(2,5,6) [OF Cons.prems] by (cases e) (simp add: ht.insert_all_def)
qed

lemma remove_all_frees:
  assumes "ht_ok t" "distinct (map fst ns)" "\<forall>(k, d)\<in>set ns. ht_map t k = Some d"
  shows "freed (ht.remove_all (map fst ns) t) = freed t @ List.map_filter snd ns
    \<and> num_elements (ht.remove_all (map fst ns) t) = num_elements t - of_nat (length ns)
    \<and> hashfunc (ht.remove_all (map fst ns) t) = hashfunc t"
  using assms
proof (induction ns arbitrary: t)
  case Nil
  then show ?case by (simp add: ht.remove_all_def List.map_filter_def)
next
  case (Cons e ns)
  obtain k d where e: "e = (k, d)" by fastforce
  have k: "ht_map t k = Some d" using Cons.prems(3) e by simp
  have hf: "hashfunc (ht_del k t) = hashfunc t"
    by (auto simp: ht_del_def hashtable_remove_def Let_def split: option.split)
  have "\<forall>(k', d')\<in>set ns. ht_map (ht_del k t) k' = Some d'"
    using Cons.prems(2,3) e hashtable_remove_eq(3) [OF Cons.prems(1)] by force
  then show ?case using Cons.IH [of "ht_del k t"] Cons.prems(1,2) e k hf hashtable_remove_eq(2,4,5) [OF Cons.prems(1)]
    by (simp add: ht.remove_all_def List.map_filter_def split: option.split)
qed

lemma hashtable_resize_eq:
  fixes t :: "'a hash_table"
  assumes ok: "ht_ok t" and sz: "0 < sizeP"
  shows "\<exists>t'. hashtable_resize True (\<lambda>k. True) fresh (Some t) sizeP = (HASH_TABLE_OK, Some t') \<and> ht_ok t' \<and> ht_map t' = ht_map t
    \<and> freed t' = freed t @ List.map_filter snd (concat (nodes t)) \<and> num_elements t' = num_elements t - of_nat (card (dom (ht_map t)))"
proof -
  let ?n = "\<lparr>ht_size = sizeP, num_elements = fresh, nodes = replicate sizeP ([] :: 'a chain), hashfunc = hashfunc t, freed = []\<rparr>"
  let ?ns = "concat (nodes t)"
  let ?o = "ht.remove_all (map fst ?ns) t" and ?m = "ht.insert_all ?ns ?n"
  have n: "ht_ok ?n" "ht_map ?n = Map.empty" using sz by (auto simp: ht_ok_def ht_map_def slot_def fun_eq_iff)
  have ents: "\<forall>(k, d)\<in>set ?ns. ht_map t k = Some d" using ht_entries(1,2) [OF ok] by (auto simp flip: ht_entries(2) [OF ok])
  have m: "ht_ok ?m" "ht_map ?m = ht_map t" "hashfunc ?m = hashfunc t"
    using ht.insert_all [OF n(1) ht_entries(1) [OF ok]] n(2) ht_entries(2) [OF ok] insert_all_static [OF n(1), of ?ns] by simp_all
  let ?t' = "?o\<lparr>ht_size := ht_size ?m, nodes := nodes ?m\<rparr>"
  have f: "freed ?o = freed t @ List.map_filter snd ?ns" "num_elements ?o = num_elements t - of_nat (length ?ns)" "hashfunc ?o = hashfunc ?m"
    using remove_all_frees [OF ok ht_entries(1) [OF ok] ents] m(3) by simp_all
  have "ht_ok ?t' = ht_ok ?m" "ht_map ?t' = ht_map ?m" by (rule ht_ok_cong; simp add: f(3))+
  then have t': "ht_ok ?t'" "ht_map ?t' = ht_map t" using m(1,2) by simp_all
  have "hashtable_resize True (\<lambda>k. True) fresh (Some t) sizeP = (HASH_TABLE_OK, Some ?t')"
    by (simp add: hashtable_resize_def Let_def resize_fold [OF ok n(1)])
  then show ?thesis using t' f ht_entries(4) [OF ok] by auto
qed


section \<open>Properties\<close>

text \<open>
  C19. The table implements a map from keys to data pointers: insertion updates the map at the key and
  reports whether it replaced data, removal deletes the key and reports whether it was there, lookup
  and the existence test agree with the map; a failed allocation of a node changes nothing; and every
  operation keeps the invariant of the chains.
\<close>
theorem hashtable_refines_map:
  assumes "ht_ok t"
  shows "(\<exists>t'. hashtable_insert True (Some t) k d = (if ht_map t k = None then HASH_TABLE_OK else HASH_TABLE_INSERT_OVERWRITTEN_DATA, Some t')
            \<and> ht_ok t' \<and> ht_map t' = (ht_map t)(k \<mapsto> d))
    \<and> (ht_map t k = None \<longrightarrow> hashtable_insert False (Some t) k d = (HASH_TABLE_MINUS_1, Some t))
    \<and> (\<exists>t'. hashtable_remove (Some t) k = (if ht_map t k = None then HASH_TABLE_KEY_NOT_EXISTS else HASH_TABLE_OK, Some t')
            \<and> ht_ok t' \<and> ht_map t' = (ht_map t)(k := None))
    \<and> hashtable_get (Some t) k = (case ht_map t k of None \<Rightarrow> (HASH_TABLE_KEY_NOT_EXISTS, None) | Some p \<Rightarrow> (HASH_TABLE_OK, p))
    \<and> hashtable_is_key_exists (Some t) k = (if k \<in> dom (ht_map t) then HASH_TABLE_OK else HASH_TABLE_KEY_NOT_EXISTS)"
proof (intro conjI)
  show "\<exists>t'. hashtable_insert True (Some t) k d = (if ht_map t k = None then HASH_TABLE_OK else HASH_TABLE_INSERT_OVERWRITTEN_DATA, Some t')
      \<and> ht_ok t' \<and> ht_map t' = (ht_map t)(k \<mapsto> d)"
    using hashtable_insert_eq(1-3) [OF assms, of k d] by blast
  show "\<exists>t'. hashtable_remove (Some t) k = (if ht_map t k = None then HASH_TABLE_KEY_NOT_EXISTS else HASH_TABLE_OK, Some t')
      \<and> ht_ok t' \<and> ht_map t' = (ht_map t)(k := None)"
    using hashtable_remove_eq(1-3) [OF assms, of k] by blast
qed (auto simp: hashtable_insert_def hashtable_get_def hashtable_is_key_exists_def ht_map_def domIff Let_def split: option.split)

theorem hashtable_refines_map_witness:
  "\<exists>t'. hashtable_insert True (hashtable_create 4 None True True 0) 9 (Some (1 :: nat)) = (HASH_TABLE_OK, Some t') \<and> ht_map t' 9 = Some (Some 1)"
proof -
  let ?t = "the (hashtable_create 4 None True True 0) :: nat hash_table"
  have t: "hashtable_create 4 None True True 0 = Some ?t" by (simp add: hashtable_create_def)
  have "ht_ok ?t" "ht_map ?t 9 = None"
    by (simp_all add: hashtable_create_def ht_ok_def ht_map_def slot_def def_hashfunc_def)
  then show ?thesis using hashtable_refines_map [of ?t 9 "Some 1"] t by auto
qed

text \<open>
  The element counter follows the number of keys through every insertion and removal, so that a
  table whose counter is exact is visited completely: the callback is applied to each element, once,
  whatever the order of the operations before.
\<close>
theorem hashtable_count_and_visit:
  assumes "ht_ok t" "unat (num_elements t) = card (dom (ht_map t))" "card (dom (ht_map t)) < 2 ^ 32 - 1"
  shows "unat (num_elements (ht_put k d t)) = card (dom (ht_map (ht_put k d t)))
    \<and> unat (num_elements (ht_del k t)) = card (dom (ht_map (ht_del k t)))
    \<and> (\<exists>ns. hashtable_apply_funct_on_elements (Some t) f s = (HASH_TABLE_OK, fold (\<lambda>(k, d). f k d) ns s)
         \<and> distinct (map fst ns) \<and> map_of ns = ht_map t)"
proof (intro conjI)
  have exact: "unat (num_elements t') = card (dom (ht_map t'))"
    if ex: "ht.excess t' = ht.excess t" and c: "card (dom (ht_map t')) < 2 ^ 64" for t' :: "'a hash_table"
  proof -
    have "num_elements t = of_nat (unat (num_elements t))" by simp
    then have "ht.excess t = 0" unfolding assms(2) ht.excess_def by simp
    then have "num_elements t' = of_nat (card (dom (ht_map t')))" using ex by (simp add: ht.excess_def)
    then show ?thesis using c by (simp add: unsigned_of_nat take_bit_nat_eq_self)
  qed
  have "card (dom (ht_map (ht_put k d t))) \<le> Suc (card (dom (ht_map t)))"
    using hashtable_insert_eq(3) [OF assms(1), of k d] by (simp add: card_insert_le_m1)
  then show "unat (num_elements (ht_put k d t)) = card (dom (ht_map (ht_put k d t)))"
    using assms(3) by (intro exact ht.excess_insert assms(1)) simp
  have "card (dom (ht_map (ht_del k t))) \<le> card (dom (ht_map t))"
    using hashtable_remove_eq(3) [OF assms(1), of k] ht.finite_lookup [OF assms(1)] by (auto intro!: card_mono)
  then show "unat (num_elements (ht_del k t)) = card (dom (ht_map (ht_del k t)))"
    using assms(3) by (intro exact ht.excess_remove assms(1)) simp
  show "\<exists>ns. hashtable_apply_funct_on_elements (Some t) f s = (HASH_TABLE_OK, fold (\<lambda>(k, d). f k d) ns s)
       \<and> distinct (map fst ns) \<and> map_of ns = ht_map t"
    using ht_entries [OF assms(1)] assms(2,3)
    by (intro exI [of _ "concat (nodes t)"]) (simp add: hashtable_apply_funct_on_elements_def apply_chains_all)
qed

theorem hashtable_count_and_visit_witness:
  "unat (num_elements (ht_put 9 (Some (1 :: nat)) (the (hashtable_create 4 None True True 0))))
     = card (dom (ht_map (ht_put 9 (Some (1 :: nat)) (the (hashtable_create 4 None True True 0)))))"
proof -
  let ?t = "the (hashtable_create 4 None True True 0) :: nat hash_table"
  have "ht_ok ?t" "ht_map ?t = Map.empty" "num_elements ?t = 0"
    by (simp_all add: hashtable_create_def ht_ok_def ht_map_def slot_def def_hashfunc_def fun_eq_iff)
  then show ?thesis using hashtable_count_and_visit [of ?t 9 "Some 1" "\<lambda>k d s. s" "()"] by simp
qed

text \<open>
  C22. Resizing keeps the map, but the data pointers that stay in the table have all been passed to the
  release function, and the counter loses the elements that are still there: from an exact counter it
  drops to zero, and the next visit of the elements applies the callback to none of them.
\<close>
theorem hashtable_resize_releases_data:
  assumes "ht_ok t" "0 < sizeP" "num_elements t = of_nat (card (dom (ht_map t)))"
  shows "\<exists>t'. hashtable_resize True (\<lambda>k. True) fresh (Some t) sizeP = (HASH_TABLE_OK, Some t') \<and> ht_ok t' \<and> ht_map t' = ht_map t
    \<and> freed t' = freed t @ List.map_filter snd (concat (nodes t)) \<and> num_elements t' = 0
    \<and> hashtable_apply_funct_on_elements (Some t') f s = (HASH_TABLE_OK, s)"
proof -
  obtain t' where t': "hashtable_resize True (\<lambda>k. True) fresh (Some t) sizeP = (HASH_TABLE_OK, Some t')" "ht_ok t'" "ht_map t' = ht_map t"
    "freed t' = freed t @ List.map_filter snd (concat (nodes t))" "num_elements t' = 0"
    using hashtable_resize_eq [OF assms(1,2), of fresh] assms(3) by auto
  have "apply_chains f 0 0 (nodes t') s = s" by (cases "nodes t'") auto
  then show ?thesis using t' by (auto simp: hashtable_apply_funct_on_elements_def)
qed

theorem hashtable_resize_releases_data_witness:
  "\<exists>t t'. hashtable_insert True (hashtable_create 1 None True True 0) 9 (Some (1 :: nat)) = (HASH_TABLE_OK, Some t)
     \<and> hashtable_resize True (\<lambda>k. True) 0 (Some t) 8 = (HASH_TABLE_OK, Some t') \<and> ht_map t' 9 = Some (Some 1) \<and> freed t' = [1]"
proof -
  let ?t = "\<lparr>ht_size = 1, num_elements = 1, nodes = [[(9, Some (1 :: nat))]], hashfunc = def_hashfunc, freed = []\<rparr>"
  have ins: "hashtable_insert True (hashtable_create 1 None True True 0) 9 (Some (1 :: nat)) = (HASH_TABLE_OK, Some ?t)"
    by (simp add: hashtable_create_def hashtable_insert_def slot_def)
  have m: "ht_map ?t = [9 \<mapsto> Some 1]" by (auto simp: ht_map_def slot_def)
  have "ht_ok ?t" by (auto simp: ht_ok_def slot_def)
  then show ?thesis using hashtable_resize_releases_data [of ?t 8 0 "\<lambda>k d s. s" "()"] m ins by (auto simp: List.map_filter_def)
qed

end
