(* ===== verification/Rlc_Um_Entity.thy ===== *)
theory Rlc_Um_Entity
  imports Oai_Prelude
begin

text \<open>
  The RLC UM entity: the structures of \<open>rlc_um_entity.h\<close> and \<open>rlc_um_structs.h\<close>, the protocol
  state machine (\<open>rlc_um_fsm.c\<close>), and the configuration and release functions of
  \<open>rlc_um_control_primitives.c\<close>.

  A \<open>list_t\<close> of memory blocks is a HOL list (the pointer structure is treated in the theory of
  the linked list), the DAR buffer is a function from sequence numbers to stored PDUs, NULL being
  \<open>None\<close>. The last two fields of the entity are not fields of the struct: \<open>data_ind_log\<close> records
  the calls of \<open>rlc_data_ind\<close>, the only way SDUs leave the receiver, and \<open>allocs\<close> counts the calls
  of \<open>get_free_mem_block\<close>; an allocator is a function that answers the n-th call with a block of
  arbitrary content or with NULL.
\<close>

section \<open>Structures\<close>

datatype rlc_protocol_state =
    RLC_NULL_STATE
  | RLC_DATA_TRANSFER_READY_STATE
  | RLC_RESET_PENDING_STATE
  | RLC_RESET_AND_SUSPEND_STATE
  | RLC_LOCAL_SUSPEND_STATE

record protocol_ctxt =
  module_id :: "16 word"
  enb_flag :: bool
  rnti :: "16 word"
  frame :: int
  subframe :: int

definition PROTOCOL_CTXT_TIME_MILLI_SECONDS :: "protocol_ctxt \<Rightarrow> int" where
  "PROTOCOL_CTXT_TIME_MILLI_SECONDS ctxt = to_u32 (frame ctxt * 10 + subframe ctxt)"

record mac_tb_ind =
  data_ptr :: mem
  tb_size :: int

record mac_tb_req =
  tb_req_data_ptr :: mem
  tb_req_size :: int

record rlc_um_timer =
  ms_time_out :: int
  ms_start :: int
  ms_duration :: int
  running :: bool
  timed_out :: bool

record rlc_um_tx_sdu_management =
  first_byte :: "byte list"
  sdu_creation_time :: int
  sdu_remaining_size :: int
  sdu_segmented_size :: int
  sdu_size :: int

record rlc_data_ind_call =
  di_srb_flag :: bool
  di_mbms_flag :: bool
  di_rb_id :: int
  di_sdu :: "byte list"

type_synonym allocator = "nat \<Rightarrow> mem option"

record rlc_um_entity =
  initialized :: bool
  is_uplink_downlink :: bool
  protocol_state :: rlc_protocol_state
  is_data_plane :: bool
  is_mxch :: bool
  vt_us :: int
  vr_ur :: int
  vr_ux :: int
  vr_uh :: int
  t_reordering :: rlc_um_timer
  tx_sn_length :: int
  rx_sn_length :: int
  tx_header_min_length_in_bytes :: int
  rx_header_min_length_in_bytes :: int
  tx_sn_modulo :: int
  rx_sn_modulo :: int
  rx_um_window_size :: int
  tx_um_window_size :: int
  input_sdus :: "rlc_um_tx_sdu_management list"
  buffer_occupancy :: int
  nb_bytes_requested_by_mac :: int
  pdus_to_mac_layer :: "mac_tb_req list"
  output_sdu_in_construction :: "mem option"
  output_sdu_size_to_write :: int
  dar_buffer :: "int \<Rightarrow> mac_tb_ind option"
  channel_id :: int
  rb_id :: int
  last_reassemblied_sn :: int
  last_reassemblied_missing_sn :: int
  reassembly_missing_sn_detected :: int
  first_pdu :: bool
  stat_tx_pdcp_sdu :: int
  stat_tx_pdcp_bytes :: int
  stat_tx_pdcp_sdu_discarded :: int
  stat_tx_pdcp_bytes_discarded :: int
  stat_tx_data_pdu :: int
  stat_tx_data_bytes :: int
  stat_rx_pdcp_sdu :: int
  stat_rx_pdcp_bytes :: int
  stat_rx_data_pdus_duplicate :: int
  stat_rx_data_bytes_duplicate :: int
  stat_rx_data_pdu :: int
  stat_rx_data_bytes :: int
  stat_rx_data_pdu_dropped :: int
  stat_rx_data_bytes_dropped :: int
  stat_rx_data_pdu_out_of_window :: int
  stat_rx_data_bytes_out_of_window :: int
  stat_timer_reordering_timed_out :: int
  data_ind_log :: "rlc_data_ind_call list"
  allocs :: nat

text \<open>The state \<open>memset\<close> leaves behind; the two observation fields are not memory of the struct.\<close>

definition rlc_um_zero :: rlc_um_entity where
  "rlc_um_zero =
     \<lparr>initialized = False, is_uplink_downlink = False, protocol_state = RLC_NULL_STATE,
      is_data_plane = False, is_mxch = False, vt_us = 0, vr_ur = 0, vr_ux = 0, vr_uh = 0,
      t_reordering = \<lparr>ms_time_out = 0, ms_start = 0, ms_duration = 0, running = False, timed_out = False\<rparr>,
      tx_sn_length = 0, rx_sn_length = 0, tx_header_min_length_in_bytes = 0,
      rx_header_min_length_in_bytes = 0, tx_sn_modulo = 0, rx_sn_modulo = 0,
      rx_um_window_size = 0, tx_um_window_size = 0, input_sdus = [], buffer_occupancy = 0,
      nb_bytes_requested_by_mac = 0, pdus_to_mac_layer = [], output_sdu_in_construction = None,
      output_sdu_size_to_write = 0, dar_buffer = (\<lambda>i. None), channel_id = 0, rb_id = 0,
      last_reassemblied_sn = 0, last_reassemblied_missing_sn = 0,
      reassembly_missing_sn_detected = 0, first_pdu = False, stat_tx_pdcp_sdu = 0,
      stat_tx_pdcp_bytes = 0, stat_tx_pdcp_sdu_discarded = 0, stat_tx_pdcp_bytes_discarded = 0,
      stat_tx_data_pdu = 0, stat_tx_data_bytes = 0, stat_rx_pdcp_sdu = 0, stat_rx_pdcp_bytes = 0,
      stat_rx_data_pdus_duplicate = 0, stat_rx_data_bytes_duplicate = 0, stat_rx_data_pdu = 0,
      stat_rx_data_bytes = 0, stat_rx_data_pdu_dropped = 0, stat_rx_data_bytes_dropped = 0,
      stat_rx_data_pdu_out_of_window = 0, stat_rx_data_bytes_out_of_window = 0,
      stat_timer_reordering_timed_out = 0, data_ind_log = [], allocs = 0\<rparr>"

definition um_memset_0 :: "rlc_um_entity \<Rightarrow> rlc_um_entity" where
  "um_memset_0 r = rlc_um_zero\<lparr>data_ind_log := data_ind_log r, allocs := allocs r\<rparr>"

section \<open>Protocol state machine\<close>

abbreviation (input) "RLC_UM_RECEIVE_CRLC_CONFIG_REQ_ENTER_NULL_STATE_EVENT \<equiv> 0x00 :: 8 word"
abbreviation (input) "RLC_UM_RECEIVE_CRLC_CONFIG_REQ_ENTER_DATA_TRANSFER_READY_STATE_EVENT \<equiv> 0x01 :: 8 word"
abbreviation (input) "RLC_UM_RECEIVE_CRLC_SUSPEND_REQ_EVENT \<equiv> 0x10 :: 8 word"
abbreviation (input) "RLC_UM_TRANSMIT_CRLC_SUSPEND_CNF_EVENT \<equiv> 0x11 :: 8 word"
abbreviation (input) "RLC_UM_RECEIVE_CRLC_RESUME_REQ_EVENT \<equiv> 0x12 :: 8 word"

definition rlc_um_fsm_notify_event :: "rlc_um_entity \<Rightarrow> 8 word \<Rightarrow> int \<times> rlc_um_entity" where
  "rlc_um_fsm_notify_event r eventP = (case protocol_state r of
     RLC_NULL_STATE \<Rightarrow>
       if eventP = RLC_UM_RECEIVE_CRLC_CONFIG_REQ_ENTER_DATA_TRANSFER_READY_STATE_EVENT
       then (1, r\<lparr>protocol_state := RLC_DATA_TRANSFER_READY_STATE\<rparr>)
       else (0, r)
   | RLC_DATA_TRANSFER_READY_STATE \<Rightarrow>
       if eventP = RLC_UM_RECEIVE_CRLC_CONFIG_REQ_ENTER_NULL_STATE_EVENT
       then (1, r\<lparr>protocol_state := RLC_NULL_STATE\<rparr>)
       else if eventP = RLC_UM_RECEIVE_CRLC_SUSPEND_REQ_EVENT \<or> eventP = RLC_UM_TRANSMIT_CRLC_SUSPEND_CNF_EVENT
       then (1, r\<lparr>protocol_state := RLC_LOCAL_SUSPEND_STATE\<rparr>)
       else (0, r)
   | RLC_LOCAL_SUSPEND_STATE \<Rightarrow>
       if eventP = RLC_UM_RECEIVE_CRLC_CONFIG_REQ_ENTER_NULL_STATE_EVENT
       then (1, r\<lparr>protocol_state := RLC_NULL_STATE\<rparr>)
       else if eventP = RLC_UM_RECEIVE_CRLC_RESUME_REQ_EVENT
       then (1, r\<lparr>protocol_state := RLC_DATA_TRANSFER_READY_STATE\<rparr>)
       else (0, r)
   | _ \<Rightarrow> (0, r))"

section \<open>Configuration\<close>

definition rlc_um_init_timer_reordering :: "rlc_um_entity \<Rightarrow> int \<Rightarrow> rlc_um_entity" where
  "rlc_um_init_timer_reordering r ms_durationP =
     r\<lparr>t_reordering := \<lparr>ms_time_out = 0, ms_start = 0, ms_duration = ms_durationP, running = False, timed_out = False\<rparr>\<rparr>"

definition rlc_um_init :: "rlc_um_entity option \<Rightarrow> rlc_um_entity option" where
  "rlc_um_init rp = (case rp of
     None \<Rightarrow> None
   | Some r \<Rightarrow>
       if initialized r then Some r
       else Some ((um_memset_0 r)\<lparr>pdus_to_mac_layer := [], input_sdus := [],
              protocol_state := RLC_NULL_STATE, rx_sn_length := 10, rx_header_min_length_in_bytes := 2,
              tx_sn_length := 10, tx_header_min_length_in_bytes := 2, dar_buffer := (\<lambda>i. None),
              first_pdu := True, initialized := True\<rparr>))"

definition rlc_um_reset_state_variables :: "rlc_um_entity \<Rightarrow> rlc_um_entity" where
  "rlc_um_reset_state_variables r =
     r\<lparr>buffer_occupancy := 0, vt_us := 0, vr_ur := 0, vr_ux := 0, vr_uh := 0\<rparr>"

definition rlc_um_cleanup :: "rlc_um_entity \<Rightarrow> rlc_um_entity" where
  "rlc_um_cleanup r =
     (let r1 = r\<lparr>pdus_to_mac_layer := [], input_sdus := []\<rparr>;
          r2 = (if output_sdu_in_construction r1 \<noteq> None then r1\<lparr>output_sdu_in_construction := None\<rparr> else r1);
          r3 = r2\<lparr>dar_buffer := (\<lambda>i. None)\<rparr> in
      um_memset_0 r3)"

definition rlc_um_configure :: "rlc_um_entity \<Rightarrow> int \<Rightarrow> int \<Rightarrow> int \<Rightarrow> int \<Rightarrow> rlc_um_entity" where
  "rlc_um_configure r timer_reorderingP rx_sn_field_lengthP tx_sn_field_lengthP is_mXchP =
     (let r1 = (if rx_sn_field_lengthP = 10 then
                  r\<lparr>rx_sn_length := 10, rx_sn_modulo := 1024, rx_um_window_size := 512,
                    rx_header_min_length_in_bytes := 2\<rparr>
                else if rx_sn_field_lengthP = 5 then
                  r\<lparr>rx_sn_length := 5, rx_sn_modulo := 32, rx_um_window_size := 16,
                    rx_header_min_length_in_bytes := 1\<rparr>
                else r) in
      if rx_sn_field_lengthP \<noteq> 10 \<and> rx_sn_field_lengthP \<noteq> 5 \<and> rx_sn_field_lengthP \<noteq> 0 then r1
      else
        let r2 = (if tx_sn_field_lengthP = 10 then
                    r1\<lparr>tx_sn_length := 10, tx_sn_modulo := 1024, tx_um_window_size := 512,
                      tx_header_min_length_in_bytes := 2\<rparr>
                  else if tx_sn_field_lengthP = 5 then
                    r1\<lparr>tx_sn_length := 5, tx_sn_modulo := 32, tx_um_window_size := 16,
                      tx_header_min_length_in_bytes := 1\<rparr>
                  else r1) in
        if tx_sn_field_lengthP \<noteq> 10 \<and> tx_sn_field_lengthP \<noteq> 5 \<and> tx_sn_field_lengthP \<noteq> 0 then r2
        else
          let r3 = (if is_mXchP > 0 then r2\<lparr>tx_um_window_size := 0, rx_um_window_size := 0\<rparr> else r2);
              r4 = r3\<lparr>is_mxch := (is_mXchP \<noteq> 0)\<rparr>;
              r5 = r4\<lparr>last_reassemblied_sn := to_u16 (rx_sn_modulo r4 - 1),
                      last_reassemblied_missing_sn := to_u16 (rx_sn_modulo r4 - 1),
                      reassembly_missing_sn_detected := 0\<rparr>;
              r6 = rlc_um_init_timer_reordering r5 timer_reorderingP;
              r7 = r6\<lparr>first_pdu := True\<rparr> in
          rlc_um_reset_state_variables r7)"

definition rlc_um_set_debug_infos :: "rlc_um_entity \<Rightarrow> bool \<Rightarrow> int \<Rightarrow> int \<Rightarrow> rlc_um_entity" where
  "rlc_um_set_debug_infos r srb_flagP rb_idP chan_idP =
     (let r1 = r\<lparr>rb_id := rb_idP, channel_id := chan_idP\<rparr> in
      if srb_flagP then r1\<lparr>is_data_plane := False\<rparr> else r1\<lparr>is_data_plane := True\<rparr>)"

record rlc_um_info =
  info_timer_reordering :: int
  info_sn_field_length :: int
  info_is_mXch :: int

section \<open>The collection of entities\<close>

type_synonym hash_key = "64 word"
type_synonym rlc_coll = "hash_key \<Rightarrow> rlc_um_entity option"

definition RLC_COLL_KEY_VALUE :: "16 word \<Rightarrow> 16 word \<Rightarrow> bool \<Rightarrow> 16 word \<Rightarrow> bool \<Rightarrow> hash_key" where
  "RLC_COLL_KEY_VALUE enb_id rnti_v is_enb rb is_srb =
     ucast enb_id OR push_bit 8 (ucast rnti_v) OR push_bit 24 (of_bool is_enb)
     OR push_bit 25 (ucast rb) OR push_bit 33 (of_bool is_srb) OR push_bit 34 0x05"

definition RLC_COLL_KEY_SOURCE_DEST_VALUE ::
  "16 word \<Rightarrow> 16 word \<Rightarrow> bool \<Rightarrow> 16 word \<Rightarrow> 32 word \<Rightarrow> hash_key" where
  "RLC_COLL_KEY_SOURCE_DEST_VALUE enb_id rnti_v is_enb rb dest =
     ucast enb_id OR push_bit 8 (ucast rnti_v) OR push_bit 24 (of_bool is_enb)
     OR push_bit 25 (ucast rb) OR push_bit 33 (ucast dest) OR push_bit 57 0x05"

definition RLC_COLL_KEY_MBMS_VALUE ::
  "16 word \<Rightarrow> 16 word \<Rightarrow> bool \<Rightarrow> 16 word \<Rightarrow> 32 word \<Rightarrow> hash_key" where
  "RLC_COLL_KEY_MBMS_VALUE enb_id rnti_v is_enb service session =
     ucast enb_id OR push_bit 8 (ucast rnti_v) OR push_bit 24 (of_bool is_enb)
     OR push_bit 32 (ucast service) OR push_bit 37 (ucast session) OR push_bit 63 1"

definition config_req_rlc_um ::
  "protocol_ctxt \<Rightarrow> rlc_coll \<Rightarrow> bool \<Rightarrow> rlc_um_info \<Rightarrow> 16 word \<Rightarrow> int \<Rightarrow> rlc_coll" where
  "config_req_rlc_um ctxt coll srb_flagP config rb_idP chan_idP =
     (let key = RLC_COLL_KEY_VALUE (module_id ctxt) (rnti ctxt) (enb_flag ctxt) rb_idP srb_flagP in
      case coll key of
        None \<Rightarrow> coll
      | Some r \<Rightarrow>
          let r1 = the (rlc_um_init (Some r));
              (ok, r2) = rlc_um_fsm_notify_event r1
                           RLC_UM_RECEIVE_CRLC_CONFIG_REQ_ENTER_DATA_TRANSFER_READY_STATE_EVENT in
          if ok \<noteq> 0 then
            coll(key := Some (rlc_um_configure (rlc_um_set_debug_infos r2 srb_flagP (uint rb_idP) chan_idP)
                   (info_timer_reordering config) (info_sn_field_length config)
                   (info_sn_field_length config) (info_is_mXch config)))
          else coll(key := Some r2))"

text \<open>
  Configuration from the RRC structures. Their type and the enumeration constants
  \<open>LTE_SN_FieldLength_size5\<close> and \<open>LTE_SN_FieldLength_size10\<close> are generated from ASN.1: the
  structures are the fields that the code reads, the constants are parameters.
\<close>

record lte_ul_um_rlc =
  ul_sn_FieldLength :: int

record lte_dl_um_rlc =
  dl_sn_FieldLength :: int
  dl_t_Reordering :: nat

definition t_Reordering_tab :: "int list" where
  "t_Reordering_tab = [0,5,10,15,20,25,30,35,40,45,50,55,60,65,70,75,80,85,90,95,100,110,120,130,
     140,150,160,170,180,190,200,1600]"

definition rlc_um_asn1_key ::
  "protocol_ctxt \<Rightarrow> rlc_coll \<Rightarrow> bool \<Rightarrow> bool \<Rightarrow> 32 word \<Rightarrow> 16 word \<Rightarrow> lte_ul_um_rlc option
   \<Rightarrow> lte_dl_um_rlc option \<Rightarrow> 16 word \<Rightarrow> 32 word \<Rightarrow> 32 word \<Rightarrow> hash_key option" where
  "rlc_um_asn1_key ctxt coll srb_flagP mbms_flagP session service ul dl rb_idP sourceL2Id destinationL2Id =
     (let lookup2 =
        (let key = (if 0 < sourceL2Id \<and> 0 < destinationL2Id
                    then RLC_COLL_KEY_SOURCE_DEST_VALUE (module_id ctxt) (rnti ctxt) (enb_flag ctxt) rb_idP destinationL2Id
                    else RLC_COLL_KEY_VALUE (module_id ctxt) (rnti ctxt) (enb_flag ctxt) rb_idP srb_flagP) in
         if coll key = None then None else Some key) in
      if mbms_flagP then
        if dl = None then None
        else if ul \<noteq> None then None
        else if coll (RLC_COLL_KEY_MBMS_VALUE (module_id ctxt) (rnti ctxt) (enb_flag ctxt) service session) = None
        then None
        else lookup2
      else lookup2)"

definition sn_FieldLength_of :: "int \<Rightarrow> int \<Rightarrow> int \<Rightarrow> int option" where
  "sn_FieldLength_of size5 size10 v = (if v = size5 then Some 5 else if v = size10 then Some 10 else None)"

definition rlc_um_asn1_apply ::
  "int \<Rightarrow> int \<Rightarrow> protocol_ctxt \<Rightarrow> bool \<Rightarrow> bool \<Rightarrow> lte_ul_um_rlc option \<Rightarrow> lte_dl_um_rlc option
   \<Rightarrow> 16 word \<Rightarrow> int \<Rightarrow> rlc_um_entity \<Rightarrow> rlc_um_entity" where
  "rlc_um_asn1_apply size5 size10 ctxt srb_flagP mbms_flagP ul dl rb_idP chan_idP r =
     (let r1 = the (rlc_um_init (Some r));
          (ok, r2) = rlc_um_fsm_notify_event r1
                       RLC_UM_RECEIVE_CRLC_CONFIG_REQ_ENTER_DATA_TRANSFER_READY_STATE_EVENT in
      if ok = 0 then r2
      else
        let r3 = rlc_um_set_debug_infos r2 srb_flagP (uint rb_idP) chan_idP in
        case (case ul of None \<Rightarrow> Some 0 | Some c \<Rightarrow> sn_FieldLength_of size5 size10 (ul_sn_FieldLength c)) of
          None \<Rightarrow> r3
        | Some ul_len \<Rightarrow>
            (case (case dl of None \<Rightarrow> Some 0 | Some c \<Rightarrow> sn_FieldLength_of size5 size10 (dl_sn_FieldLength c)) of
               None \<Rightarrow> r3
             | Some dl_len \<Rightarrow>
                 (case (case dl of None \<Rightarrow> Some 0
                        | Some c \<Rightarrow> if dl_t_Reordering c < 32 then Some (t_Reordering_tab ! dl_t_Reordering c) else None) of
                    None \<Rightarrow> r3
                  | Some t \<Rightarrow>
                      if enb_flag ctxt then rlc_um_configure r3 t ul_len dl_len (of_bool mbms_flagP)
                      else rlc_um_configure r3 t dl_len ul_len (of_bool mbms_flagP))))"

definition config_req_rlc_um_asn1 ::
  "int \<Rightarrow> int \<Rightarrow> protocol_ctxt \<Rightarrow> rlc_coll \<Rightarrow> bool \<Rightarrow> bool \<Rightarrow> 32 word \<Rightarrow> 16 word \<Rightarrow> lte_ul_um_rlc option
   \<Rightarrow> lte_dl_um_rlc option \<Rightarrow> 16 word \<Rightarrow> int \<Rightarrow> 32 word \<Rightarrow> 32 word \<Rightarrow> rlc_coll" where
  "config_req_rlc_um_asn1 size5 size10 ctxt coll srb_flagP mbms_flagP session service ul dl rb_idP chan_idP
     sourceL2Id destinationL2Id =
     (case rlc_um_asn1_key ctxt coll srb_flagP mbms_flagP session service ul dl rb_idP sourceL2Id destinationL2Id of
        None \<Rightarrow> coll
      | Some key \<Rightarrow> coll(key := Some (rlc_um_asn1_apply size5 size10 ctxt srb_flagP mbms_flagP ul dl rb_idP
                                   chan_idP (the (coll key)))))"

section \<open>State machine properties\<close>

text \<open>Sequences of events, as a step relation on the protocol state.\<close>

inductive um_fsm_step :: "rlc_protocol_state \<Rightarrow> rlc_protocol_state \<Rightarrow> bool" where
  event: "fst (rlc_um_fsm_notify_event r ev) = 1 \<Longrightarrow>
          um_fsm_step (protocol_state r) (protocol_state (snd (rlc_um_fsm_notify_event r ev)))"

lemma um_fsm_step_iff:
  "um_fsm_step s s' \<longleftrightarrow> (s, s') \<in> {(RLC_NULL_STATE, RLC_DATA_TRANSFER_READY_STATE),
     (RLC_DATA_TRANSFER_READY_STATE, RLC_NULL_STATE),
     (RLC_DATA_TRANSFER_READY_STATE, RLC_LOCAL_SUSPEND_STATE),
     (RLC_LOCAL_SUSPEND_STATE, RLC_NULL_STATE),
     (RLC_LOCAL_SUSPEND_STATE, RLC_DATA_TRANSFER_READY_STATE)}"
  (is "_ \<longleftrightarrow> _ \<in> ?T")
proof
  assume "um_fsm_step s s'"
  then show "(s, s') \<in> ?T"
    by cases (auto simp: rlc_um_fsm_notify_event_def split: rlc_protocol_state.splits if_splits)
next
  have step: "um_fsm_step a b"
    if "\<And>r. protocol_state r = a \<Longrightarrow> fst (rlc_um_fsm_notify_event r ev) = 1
          \<and> protocol_state (snd (rlc_um_fsm_notify_event r ev)) = b" for a b ev
  proof -
    define r where "r = rlc_um_zero\<lparr>protocol_state := a\<rparr>"
    have "protocol_state r = a" by (simp add: r_def)
    then show ?thesis using that [of r] um_fsm_step.event [of r ev] by auto
  qed
  have "um_fsm_step RLC_NULL_STATE RLC_DATA_TRANSFER_READY_STATE"
    by (rule step [where ev = "0x01"]) (simp add: rlc_um_fsm_notify_event_def)
  moreover have "um_fsm_step RLC_DATA_TRANSFER_READY_STATE RLC_NULL_STATE"
    by (rule step [where ev = "0x00"]) (simp add: rlc_um_fsm_notify_event_def)
  moreover have "um_fsm_step RLC_DATA_TRANSFER_READY_STATE RLC_LOCAL_SUSPEND_STATE"
    by (rule step [where ev = "0x10"]) (simp add: rlc_um_fsm_notify_event_def)
  moreover have "um_fsm_step RLC_LOCAL_SUSPEND_STATE RLC_NULL_STATE"
    by (rule step [where ev = "0x00"]) (simp add: rlc_um_fsm_notify_event_def)
  moreover have "um_fsm_step RLC_LOCAL_SUSPEND_STATE RLC_DATA_TRANSFER_READY_STATE"
    by (rule step [where ev = "0x12"]) (simp add: rlc_um_fsm_notify_event_def)
  moreover assume "(s, s') \<in> ?T"
  ultimately show "um_fsm_step s s'" by blast
qed

text \<open>
  From the NULL state, whatever sequence of events is notified, the entity is only ever in the
  NULL, data-transfer-ready or local-suspend state; an event answered with 0 leaves the entity
  unchanged and one answered with 1 changes nothing but the protocol state.
\<close>
theorem rlc_um_fsm_reachable:
  assumes "protocol_state r = RLC_NULL_STATE"
    and "r' = fold (\<lambda>ev r. snd (rlc_um_fsm_notify_event r ev)) evs r"
  shows "protocol_state r' \<in> {RLC_NULL_STATE, RLC_DATA_TRANSFER_READY_STATE, RLC_LOCAL_SUSPEND_STATE}
    \<and> um_fsm_step\<^sup>*\<^sup>* RLC_NULL_STATE (protocol_state r')
    \<and> r' = r\<lparr>protocol_state := protocol_state r'\<rparr>
    \<and> (fst (rlc_um_fsm_notify_event r' ev) = 0 \<longrightarrow> snd (rlc_um_fsm_notify_event r' ev) = r')"
proof -
  define P where "P x \<longleftrightarrow> um_fsm_step\<^sup>*\<^sup>* RLC_NULL_STATE (protocol_state x) \<and> x = r\<lparr>protocol_state := protocol_state x\<rparr>"
    for x
  have ev: "(fst (rlc_um_fsm_notify_event x e) = 0 \<and> snd (rlc_um_fsm_notify_event x e) = x) \<or>
      (fst (rlc_um_fsm_notify_event x e) = 1 \<and>
       snd (rlc_um_fsm_notify_event x e) = x\<lparr>protocol_state := protocol_state (snd (rlc_um_fsm_notify_event x e))\<rparr>)"
    for x e by (auto simp: rlc_um_fsm_notify_event_def split: rlc_protocol_state.splits)
  have "P r'"
    unfolding assms(2)
  proof (rule fold_inv)
    show "P r" using assms(1) by (simp add: P_def)
  next
    fix e x assume Px: "P x"
    show "P (snd (rlc_um_fsm_notify_event x e))"
      using ev [of x e]
    proof (elim disjE conjE)
      assume 1: "fst (rlc_um_fsm_notify_event x e) = 1"
        and 2: "snd (rlc_um_fsm_notify_event x e) = x\<lparr>protocol_state := protocol_state (snd (rlc_um_fsm_notify_event x e))\<rparr>"
      let ?y = "snd (rlc_um_fsm_notify_event x e)"
      have "um_fsm_step\<^sup>*\<^sup>* RLC_NULL_STATE (protocol_state ?y)"
        using Px um_fsm_step.event [OF 1] by (auto simp: P_def)
      moreover have "?y = r\<lparr>protocol_state := protocol_state ?y\<rparr>"
      proof -
        obtain a where x: "x = r\<lparr>protocol_state := a\<rparr>" using Px by (auto simp: P_def)
        show ?thesis by (subst 2) (simp add: x)
      qed
      ultimately show "P ?y" by (simp add: P_def)
    qed (use Px in simp)
  qed
  moreover have "um_fsm_step\<^sup>*\<^sup>* RLC_NULL_STATE s \<Longrightarrow>
      s \<in> {RLC_NULL_STATE, RLC_DATA_TRANSFER_READY_STATE, RLC_LOCAL_SUSPEND_STATE}" for s
    by (induction rule: rtranclp_induct) (auto simp: um_fsm_step_iff)
  ultimately show ?thesis using ev [of r' ev] unfolding P_def by (metis zero_neq_one)
qed

theorem rlc_um_fsm_reachable_witness:
  "protocol_state (fold (\<lambda>ev r. snd (rlc_um_fsm_notify_event r ev)) [0x01, 0x10, 0x12] rlc_um_zero)
     \<in> {RLC_NULL_STATE, RLC_DATA_TRANSFER_READY_STATE, RLC_LOCAL_SUSPEND_STATE}"
  using rlc_um_fsm_reachable [of rlc_um_zero _ "[0x01, 0x10, 0x12]"]
  by (simp add: rlc_um_zero_def)

end
