(* ===== verification/Rlc_Um_Window.thy ===== *)
theory Rlc_Um_Window
  imports Rlc_Um_Entity
begin

text \<open>
  Window comparisons of the RLC UM receiver (\<open>rlc_um_in_window\<close>, \<open>rlc_um_in_reordering_window\<close> of
  \<open>rlc_um_dar.c\<close>), computed in C with 16-bit values and a truncating remainder, and their
  specification by the offset of a sequence number from the lower edge of the reordering window.
\<close>

section \<open>Operations\<close>

definition rlc_um_in_window :: "rlc_um_entity \<Rightarrow> int \<Rightarrow> int \<Rightarrow> int \<Rightarrow> int" where
  "rlc_um_in_window r lower_boundP snP higher_boundP =
     (let modulus = to_s16 (to_s16 (vr_uh r) - rx_um_window_size r);
          lower_bound = to_s16 (crem (to_s16 lower_boundP - modulus) (rx_sn_modulo r));
          higher_bound = to_s16 (crem (to_s16 higher_boundP - modulus) (rx_sn_modulo r));
          sn = to_s16 (crem (to_s16 snP - modulus) (rx_sn_modulo r)) in
      if lower_bound > sn then -2
      else if higher_bound < sn then -1
      else if lower_bound = sn then (if higher_bound = sn then 3 else 1)
      else if higher_bound = sn then 2
      else 0)"

definition rlc_um_in_reordering_window :: "rlc_um_entity \<Rightarrow> int \<Rightarrow> int" where
  "rlc_um_in_reordering_window r snP =
     (let modulus = to_s16 (vr_uh r - rx_um_window_size r);
          sn_mod = to_s16 (crem (to_s16 snP - modulus) (rx_sn_modulo r)) in
      if 0 \<le> sn_mod then (if sn_mod < rx_um_window_size r then 0 else -1) else -1)"

section \<open>Offsets\<close>

definition win_off :: "rlc_um_entity \<Rightarrow> int \<Rightarrow> int" where
  "win_off r x = (x - (vr_uh r - rx_um_window_size r)) mod rx_sn_modulo r"

text \<open>The configurations that \<open>rlc_um_configure\<close> leaves behind for a bearer that is not MBMS.\<close>

definition rx_configured :: "rlc_um_entity \<Rightarrow> bool" where
  "rx_configured r \<longleftrightarrow>
     (rx_sn_length r, rx_sn_modulo r, rx_um_window_size r, rx_header_min_length_in_bytes r)
       \<in> {(10, 1024, 512, 2), (5, 32, 16, 1)}"

definition valid_sn :: "rlc_um_entity \<Rightarrow> int \<Rightarrow> bool" where
  "valid_sn r x \<longleftrightarrow> 0 \<le> x \<and> x < rx_sn_modulo r"

lemma rx_configured_facts:
  assumes "rx_configured r"
  shows "rx_sn_modulo r = 2 * rx_um_window_size r" "0 < rx_um_window_size r" "rx_um_window_size r \<le> 512"
    "rx_sn_modulo r \<le> 1024" "0 < rx_sn_modulo r" "rx_sn_length r = 10 \<or> rx_sn_length r = 5"
  using assms by (auto simp: rx_configured_def)

lemma win_off_range:
  assumes "rx_configured r"
  shows "0 \<le> win_off r x" "win_off r x < rx_sn_modulo r"
  using rx_configured_facts [OF assms] by (auto simp: win_off_def)

lemma win_off_inj:
  assumes "rx_configured r" "valid_sn r x" "valid_sn r y" "win_off r x = win_off r y"
  shows "x = y"
proof -
  have "x mod rx_sn_modulo r = y mod rx_sn_modulo r"
    using assms(4) unfolding win_off_def
    by (metis (no_types, opaque_lifting) diff_add_cancel mod_add_left_eq)
  then show ?thesis using assms by (simp add: valid_sn_def)
qed

lemma win_off_uh: "rx_configured r \<Longrightarrow> win_off r (vr_uh r) = rx_um_window_size r"
  using rx_configured_facts [of r] by (simp add: win_off_def)

lemma win_off_lower: "win_off r (vr_uh r - rx_um_window_size r) = 0"
  by (simp add: win_off_def)

text \<open>The C remainder gives the offset, lowered by the modulus below the edge of the window.\<close>

lemma crem_window:
  assumes "rx_configured r" "valid_sn r (vr_uh r)" "valid_sn r x"
  defines "modulus \<equiv> vr_uh r - rx_um_window_size r"
  shows "to_s16 (crem (to_s16 x - to_s16 modulus) (rx_sn_modulo r))
           = (if x < modulus then win_off r x - rx_sn_modulo r else win_off r x)"
    and "x < modulus \<Longrightarrow> rx_um_window_size r < win_off r x"
proof -
  note f = rx_configured_facts [OF assms(1)]
  have b: "0 \<le> x" "x < rx_sn_modulo r" "0 \<le> vr_uh r" "vr_uh r < rx_sn_modulo r"
    using assms by (auto simp: valid_sn_def)
  have s: "to_s16 x = x" "to_s16 modulus = modulus"
    using f b by (auto simp: modulus_def wrap_simps)
  have lo: "win_off r x = x - modulus + rx_sn_modulo r" if "x < modulus"
  proof -
    have "(x - modulus + rx_sn_modulo r) mod rx_sn_modulo r = x - modulus + rx_sn_modulo r"
      using that f b by (intro mod_pos_pos_trivial) (auto simp: modulus_def)
    then show ?thesis by (simp add: win_off_def modulus_def)
  qed
  show "x < modulus \<Longrightarrow> rx_um_window_size r < win_off r x"
    using lo f b by (auto simp: modulus_def)
  have "crem (x - modulus) (rx_sn_modulo r)
      = (if x < modulus then win_off r x - rx_sn_modulo r else win_off r x)"
  proof (cases "x < modulus")
    case True
    then have "crem (x - modulus) (rx_sn_modulo r) = x - modulus"
      using f b by (intro crem_small_neg) (auto simp: modulus_def)
    then show ?thesis using True lo by simp
  next
    case False
    then show ?thesis using f by (simp add: win_off_def modulus_def)
  qed
  moreover have "-32768 \<le> win_off r x - rx_sn_modulo r" "win_off r x < 32768"
    using win_off_range [OF assms(1), of x] f by auto
  ultimately show "to_s16 (crem (to_s16 x - to_s16 modulus) (rx_sn_modulo r))
           = (if x < modulus then win_off r x - rx_sn_modulo r else win_off r x)"
    using s f win_off_range [OF assms(1), of x] by (auto simp: wrap_simps)
qed

lemma in_reordering_window_spec:
  assumes "rx_configured r" "valid_sn r (vr_uh r)" "valid_sn r x"
  shows "rlc_um_in_reordering_window r x = (if win_off r x < rx_um_window_size r then 0 else -1)"
proof -
  have "to_s16 (vr_uh r - rx_um_window_size r) = vr_uh r - rx_um_window_size r"
    using rx_configured_facts [OF assms(1)] assms(2) by (auto simp: valid_sn_def wrap_simps)
  then show ?thesis
    using crem_window [OF assms] win_off_range [OF assms(1), of x] rx_configured_facts [OF assms(1)]
    by (auto simp: rlc_um_in_reordering_window_def Let_def)
qed

lemma in_window_spec:
  assumes "rx_configured r" "valid_sn r (vr_uh r)" "valid_sn r lo" "valid_sn r x" "valid_sn r hi"
    and "win_off r lo \<le> rx_um_window_size r" "win_off r hi \<le> rx_um_window_size r"
  shows "rlc_um_in_window r lo x hi =
    (let s = (if x < vr_uh r - rx_um_window_size r then win_off r x - rx_sn_modulo r else win_off r x) in
     if win_off r lo > s then -2 else if win_off r hi < s then -1
     else if win_off r lo = s then (if win_off r hi = s then 3 else 1)
     else if win_off r hi = s then 2 else 0)"
proof -
  have "to_s16 (to_s16 (vr_uh r) - rx_um_window_size r) = to_s16 (vr_uh r - rx_um_window_size r)"
    using rx_configured_facts [OF assms(1)] assms(2) by (simp add: valid_sn_def wrap_simps)
  moreover have "\<not> lo < vr_uh r - rx_um_window_size r" "\<not> hi < vr_uh r - rx_um_window_size r"
    using crem_window(2) [OF assms(1,2,3)] crem_window(2) [OF assms(1,2,5)] assms(6,7) by linarith+
  ultimately show ?thesis
    using crem_window(1) [OF assms(1,2,3)] crem_window(1) [OF assms(1,2,4)] crem_window(1) [OF assms(1,2,5)]
    by (simp add: rlc_um_in_window_def Let_def)
qed

lemma in_window_ordered_spec:
  assumes "rx_configured r" "valid_sn r (vr_uh r)" "valid_sn r lo" "valid_sn r x" "valid_sn r hi"
    and "win_off r lo \<le> win_off r hi" "win_off r hi \<le> rx_um_window_size r"
  shows "(win_off r x \<le> rx_um_window_size r \<longrightarrow>
     rlc_um_in_window r lo x hi =
       (if win_off r x < win_off r lo then -2 else if win_off r hi < win_off r x then -1
        else if win_off r lo = win_off r x then (if win_off r hi = win_off r x then 3 else 1)
        else if win_off r hi = win_off r x then 2 else 0))
    \<and> (rx_um_window_size r < win_off r x \<longrightarrow> rlc_um_in_window r lo x hi \<in> {-2, -1})"
proof -
  have "win_off r lo \<le> rx_um_window_size r" using assms(6,7) by linarith
  note spec = in_window_spec [OF assms(1-5) this assms(7)]
  show ?thesis
  proof (cases "x < vr_uh r - rx_um_window_size r")
    case True
    then have "win_off r x - rx_sn_modulo r < win_off r lo"
      using win_off_range [OF assms(1), of x] win_off_range [OF assms(1), of lo] by linarith
    then show ?thesis using True spec crem_window(2) [OF assms(1,2,4)] by simp
  next
    case False
    then show ?thesis using spec assms(6,7) by simp
  qed
qed

text \<open>
  C30. The window comparisons are right. \<open>rlc_um_in_reordering_window\<close> answers 0 exactly for the
  sequence numbers in [VR(UH) - UM_Window_Size, VR(UH)) modulo the sequence number space and -1 for
  the others. \<open>rlc_um_in_window\<close>, for ordered bounds in the closed reordering window, classifies a
  sequence number of that window by the modular order of the offsets, as the comment above the
  function lists, and answers -2 or -1 for every other sequence number.
\<close>
theorem rlc_um_window_operations_correct:
  assumes "rx_configured r" "valid_sn r (vr_uh r)" "valid_sn r lo" "valid_sn r x" "valid_sn r hi"
    and "win_off r lo \<le> win_off r hi" "win_off r hi \<le> rx_um_window_size r"
  shows "rlc_um_in_reordering_window r x = (if win_off r x < rx_um_window_size r then 0 else -1)
    \<and> (win_off r x \<le> rx_um_window_size r \<longrightarrow>
       rlc_um_in_window r lo x hi =
         (if win_off r x < win_off r lo then -2 else if win_off r hi < win_off r x then -1
          else if win_off r lo = win_off r x then (if win_off r hi = win_off r x then 3 else 1)
          else if win_off r hi = win_off r x then 2 else 0))
    \<and> (rx_um_window_size r < win_off r x \<longrightarrow> rlc_um_in_window r lo x hi \<in> {-2, -1})"
  using in_window_ordered_spec [OF assms] in_reordering_window_spec [OF assms(1,2,4)] by simp

theorem rlc_um_window_operations_correct_witness:
  "rlc_um_in_window (rlc_um_configure rlc_um_zero 35 10 10 0) 1023 1023 0 = 1"
  using rlc_um_window_operations_correct [of "rlc_um_configure rlc_um_zero 35 10 10 0" 1023 1023 0]
  by (simp add: rlc_um_configure_def rlc_um_zero_def rx_configured_def valid_sn_def win_off_def
      rlc_um_init_timer_reordering_def rlc_um_reset_state_variables_def)

end
