(* ===== verification/Rlc_Um_Reassembly.thy ===== *)
theory Rlc_Um_Reassembly
  imports Rlc_Um_Entity
begin

text \<open>
  Reassembly of SDUs in the RLC UM receiver: the SDU under construction and its delivery
  (\<open>rlc_um_reassembly.c\<close>), the decoding of length indicators and the treatment of one stored PDU
  inside \<open>rlc_um_try_reassembly\<close> (\<open>rlc_um_dar.c\<close>). The first group of lemmas refines the buffer
  operations to an abstract assembler, a pending byte string and the list of delivered SDUs; the
  second shows that an accepted header accounts for every octet of the PDU.
\<close>

section \<open>The SDU under construction\<close>

definition rlc_um_clear_rx_sdu :: "rlc_um_entity \<Rightarrow> rlc_um_entity" where
  "rlc_um_clear_rx_sdu r = r\<lparr>output_sdu_size_to_write := 0\<rparr>"

definition um_get_output_block :: "allocator \<Rightarrow> rlc_um_entity \<Rightarrow> rlc_um_entity" where
  "um_get_output_block alloc r =
     (if output_sdu_in_construction r = None
      then r\<lparr>output_sdu_in_construction := alloc (allocs r), output_sdu_size_to_write := 0,
             allocs := Suc (allocs r)\<rparr>
      else r)"

definition rlc_um_reassembly :: "allocator \<Rightarrow> rlc_um_entity \<Rightarrow> mem \<Rightarrow> int \<Rightarrow> rlc_um_entity" where
  "rlc_um_reassembly alloc r src lengthP =
     (if lengthP \<le> 0 then r
      else
        let sdu_max_size = (if is_data_plane r then 9000 else 2000);
            r1 = um_get_output_block alloc r in
        case output_sdu_in_construction r1 of
          Some blk \<Rightarrow>
            if output_sdu_size_to_write r1 + lengthP \<le> sdu_max_size
            then r1\<lparr>output_sdu_in_construction :=
                       Some (mem_write blk (nat (output_sdu_size_to_write r1)) (mem_read src 0 (nat lengthP))),
                    output_sdu_size_to_write := to_s32 (output_sdu_size_to_write r1 + lengthP)\<rparr>
            else r1\<lparr>output_sdu_size_to_write := 0\<rparr>
        | None \<Rightarrow> r1)"

definition rlc_um_send_sdu :: "rlc_um_entity \<Rightarrow> rlc_um_entity" where
  "rlc_um_send_sdu r =
     (case output_sdu_in_construction r of
        None \<Rightarrow> r
      | Some blk \<Rightarrow>
          let r1 = (if output_sdu_size_to_write r > 0
                    then r\<lparr>stat_rx_pdcp_sdu := to_u32 (stat_rx_pdcp_sdu r + 1),
                           stat_rx_pdcp_bytes := to_u32 (stat_rx_pdcp_bytes r + output_sdu_size_to_write r),
                           data_ind_log := data_ind_log r @
                             [\<lparr>di_srb_flag = (\<not> is_data_plane r), di_mbms_flag = is_mxch r, di_rb_id = rb_id r,
                               di_sdu = mem_read blk 0 (nat (output_sdu_size_to_write r))\<rparr>],
                           output_sdu_in_construction := None\<rparr>
                    else r) in
          r1\<lparr>output_sdu_size_to_write := 0\<rparr>)"

section \<open>Length indicators\<close>

definition e_li_e1 :: "mem \<Rightarrow> byte" where
  "e_li_e1 e_li = drop_bit 7 (e_li 0 AND 0x80)"

definition e_li_li1 :: "mem \<Rightarrow> int" where
  "e_li_li1 e_li = push_bit 4 (uint (e_li 0 AND 0x7F)) + drop_bit 4 (uint (e_li 1 AND 0xF0))"

definition e_li_e2 :: "mem \<Rightarrow> byte" where
  "e_li_e2 e_li = drop_bit 3 (e_li 1 AND 0x08)"

definition e_li_li2 :: "mem \<Rightarrow> int" where
  "e_li_li2 e_li = push_bit 8 (uint (e_li 1 AND 0x07)) + uint (e_li 2 AND 0xFF)"

text \<open>
  The loop of \<open>rlc_um_read_length_indicators\<close>: \<open>lis\<close> holds what has been stored in \<open>li_array[128]\<close>. An indicator is
  stored before the count is tested, so a 129th one is written behind the array: the result is then \<open>None\<close>.
\<close>

function um_read_li :: "mem \<Rightarrow> int list \<Rightarrow> int \<Rightarrow> (int \<times> int list \<times> int) option" where
  "um_read_li e_li lis data_size =
     (if length lis \<ge> 128 then None
      else
        let lis1 = lis @ [e_li_li1 e_li];
            size1 = to_s32 (data_size - e_li_li1 e_li - 2) in
        if e_li_e1 e_li \<noteq> 0 then
          if length lis1 \<ge> 128 then None
          else
            let lis2 = lis1 @ [e_li_li2 e_li];
                size2 = to_s32 (size1 - e_li_li2 e_li - 1) in
            if length lis2 > 128 then Some (-1, lis2, size2)
            else if e_li_e2 e_li = 0 then Some (if size2 > 0 then 0 else -1, lis2, size2)
            else um_read_li (mem_at e_li 3) lis2 size2
        else if length lis1 > 128 then Some (-1, lis1, size1)
        else Some (if size1 > 0 then 0 else -1, lis1, size1))"
  by pat_completeness auto
termination
  by (relation "measure (\<lambda>(e_li, lis, data_size). 130 - length lis)") (auto simp: Let_def)

declare um_read_li.simps [simp del]

definition rlc_um_read_length_indicators :: "mem \<Rightarrow> mem \<Rightarrow> int \<Rightarrow> (int \<times> mem \<times> int list \<times> int) option" where
  "rlc_um_read_length_indicators data_p e_li data_size =
     map_option (\<lambda>(rc, li_array, sz). (rc, mem_at data_p (drop_bit 1 (length li_array * 3 + 1)), li_array, sz))
       (um_read_li e_li [] data_size)"

section \<open>One PDU\<close>

definition um_pdu_header :: "rlc_um_entity \<Rightarrow> mac_tb_ind \<Rightarrow> byte \<times> byte \<times> int \<times> mem" where
  "um_pdu_header r tb =
     (let b1 = data_ptr tb 0 in
      if rx_sn_length r = 10
      then (drop_bit 2 (b1 AND 0x04), drop_bit 3 (b1 AND 0x18), tb_size tb - 2, mem_at (data_ptr tb) 2)
      else (drop_bit 5 (b1 AND 0x20), drop_bit 6 (b1 AND 0xC0), tb_size tb - 1, mem_at (data_ptr tb) 1))"

definition um_drop_pdu :: "rlc_um_entity \<Rightarrow> mac_tb_ind \<Rightarrow> rlc_um_entity" where
  "um_drop_pdu r tb = r\<lparr>stat_rx_data_pdu_dropped := to_u32 (stat_rx_data_pdu_dropped r + 1),
                        stat_rx_data_bytes_dropped := to_u32 (stat_rx_data_bytes_dropped r + tb_size tb)\<rparr>"

definition um_reassemble_no_li ::
  "allocator \<Rightarrow> rlc_um_entity \<Rightarrow> mac_tb_ind \<Rightarrow> byte \<Rightarrow> mem \<Rightarrow> int \<Rightarrow> rlc_um_entity" where
  "um_reassemble_no_li alloc r tb fi data_p sz =
     (if fi = 0 then
        (rlc_um_send_sdu (rlc_um_reassembly alloc (rlc_um_clear_rx_sdu r) data_p sz))
          \<lparr>reassembly_missing_sn_detected := 0\<rparr>
      else if fi = 1 then
        (rlc_um_reassembly alloc (rlc_um_clear_rx_sdu r) data_p sz)\<lparr>reassembly_missing_sn_detected := 0\<rparr>
      else if fi = 2 then
        (if reassembly_missing_sn_detected r = 0
         then rlc_um_send_sdu (rlc_um_reassembly alloc r data_p sz)
         else um_drop_pdu r tb)\<lparr>reassembly_missing_sn_detected := 0\<rparr>
      else if reassembly_missing_sn_detected r = 0
      then rlc_um_reassembly alloc r data_p sz
      else um_drop_pdu (r\<lparr>reassembly_missing_sn_detected := 1\<rparr>) tb)"

fun um_deliver_lis :: "allocator \<Rightarrow> rlc_um_entity \<Rightarrow> mem \<Rightarrow> int list \<Rightarrow> rlc_um_entity \<times> mem" where
  "um_deliver_lis alloc r data_p [] = (r, data_p)"
| "um_deliver_lis alloc r data_p (li # lis) =
     um_deliver_lis alloc (rlc_um_send_sdu (rlc_um_reassembly alloc r data_p li)) (mem_at data_p (nat li)) lis"

definition um_reassemble_li_first ::
  "allocator \<Rightarrow> rlc_um_entity \<Rightarrow> byte \<Rightarrow> mem \<Rightarrow> int list \<Rightarrow> int \<Rightarrow> rlc_um_entity" where
  "um_reassemble_li_first alloc r fi data_p li_array sz =
     (let (r1, data_p) = um_deliver_lis alloc (rlc_um_clear_rx_sdu r) data_p li_array;
          r2 = (if sz > 0 then
                  (let r2 = rlc_um_reassembly alloc r1 data_p sz in
                   if fi = 0 then rlc_um_send_sdu r2 else r2)
                else r1) in
      r2\<lparr>reassembly_missing_sn_detected := 0\<rparr>)"

definition um_reassemble_li_cont ::
  "allocator \<Rightarrow> rlc_um_entity \<Rightarrow> byte \<Rightarrow> mem \<Rightarrow> int list \<Rightarrow> int \<Rightarrow> rlc_um_entity" where
  "um_reassemble_li_cont alloc r fi data_p li_array sz =
     (let (r0, data_p, lis) =
            (if reassembly_missing_sn_detected r \<noteq> 0
             then (r\<lparr>stat_rx_data_bytes_dropped := to_u32 (stat_rx_data_bytes_dropped r + hd li_array)\<rparr>,
                   mem_at data_p (nat (hd li_array)), tl li_array)
             else (r, data_p, li_array));
          (r1, data_p) = um_deliver_lis alloc r0 data_p lis;
          r2 = (if sz > 0 then
                  (let r2 = rlc_um_reassembly alloc r1 data_p sz in
                   if fi = 2 then rlc_um_send_sdu r2 else r2)
                else if fi = 2 then r1
                else r1\<lparr>stat_rx_data_bytes_dropped := to_u32 (stat_rx_data_bytes_dropped r1 + sz)\<rparr>) in
      r2\<lparr>reassembly_missing_sn_detected := 0\<rparr>)"

text \<open>What follows the call of \<open>rlc_um_read_length_indicators\<close>, whose results are the last argument.\<close>

definition um_reassemble_li ::
  "allocator \<Rightarrow> rlc_um_entity \<Rightarrow> mac_tb_ind \<Rightarrow> byte \<Rightarrow> int \<times> mem \<times> int list \<times> int \<Rightarrow> rlc_um_entity" where
  "um_reassemble_li alloc r tb fi li =
     (let (rc, data_p', li_array, sz') = li in
      if rc \<ge> 0 then
        (if fi = 0 \<or> fi = 1 then um_reassemble_li_first alloc r fi data_p' li_array sz'
         else um_reassemble_li_cont alloc r fi data_p' li_array sz')
      else (um_drop_pdu r tb)\<lparr>reassembly_missing_sn_detected := 1\<rparr>)"

definition um_reassembly_pdu :: "allocator \<Rightarrow> int \<Rightarrow> mac_tb_ind \<Rightarrow> rlc_um_entity \<Rightarrow> rlc_um_entity option" where
  "um_reassembly_pdu alloc sn tb r =
     (let r1 = (if crem (last_reassemblied_sn r + 1) (rx_sn_modulo r) \<noteq> sn then rlc_um_clear_rx_sdu r else r);
          r2 = r1\<lparr>last_reassemblied_sn := to_u16 sn\<rparr>;
          (e, fi, sz, data_p) = um_pdu_header r2 tb in
      if sz < 0 \<or> (e \<noteq> 0 \<and> e \<noteq> 1) \<or> fi > 3 then Some r2
      else
        map_option (\<lambda>r3. r3\<lparr>dar_buffer := (dar_buffer r3)(sn := None)\<rparr>)
          (if e = 0 then Some (um_reassemble_no_li alloc r2 tb fi data_p sz)
           else map_option (um_reassemble_li alloc r2 tb fi) (rlc_um_read_length_indicators data_p data_p sz)))"

definition um_reassembly_missing :: "int \<Rightarrow> rlc_um_entity \<Rightarrow> rlc_um_entity" where
  "um_reassembly_missing sn r =
     rlc_um_clear_rx_sdu (r\<lparr>last_reassemblied_missing_sn := to_u16 sn, reassembly_missing_sn_detected := 1\<rparr>)"

definition um_reassembly_at :: "allocator \<Rightarrow> int \<Rightarrow> rlc_um_entity \<Rightarrow> rlc_um_entity option" where
  "um_reassembly_at alloc sn r =
     (case dar_buffer r sn of
        Some tb \<Rightarrow> um_reassembly_pdu alloc sn tb r
      | None \<Rightarrow> Some (um_reassembly_missing sn r))"

text \<open>The state after a step of the loop, where there is one; used in lemmas.\<close>

definition um_reassembled :: "allocator \<Rightarrow> int \<Rightarrow> rlc_um_entity \<Rightarrow> rlc_um_entity" where
  "um_reassembled alloc sn r = (case um_reassembly_at alloc sn r of Some r' \<Rightarrow> r' | None \<Rightarrow> r)"

section \<open>Frame\<close>

text \<open>The part of the entity that reassembly never changes: control state and transmitter.\<close>

definition rx_ctl where
  "rx_ctl r = ((vr_ur r, vr_ux r, vr_uh r, t_reordering r),
               (rx_sn_length r, rx_sn_modulo r, rx_um_window_size r, rx_header_min_length_in_bytes r),
               (protocol_state r, is_data_plane r, is_mxch r, rb_id r),
               (vt_us r, input_sdus r, buffer_occupancy r, nb_bytes_requested_by_mac r, pdus_to_mac_layer r,
                tx_sn_length r, tx_sn_modulo r, tx_header_min_length_in_bytes r))"

lemma rx_ctl_ops [simp]:
  "rx_ctl (rlc_um_clear_rx_sdu r) = rx_ctl r"
  "rx_ctl (rlc_um_reassembly alloc r src n) = rx_ctl r"
  "rx_ctl (rlc_um_send_sdu r) = rx_ctl r"
  "rx_ctl (um_drop_pdu r tb) = rx_ctl r"
  "rx_ctl (r\<lparr>reassembly_missing_sn_detected := a\<rparr>) = rx_ctl r"
  "rx_ctl (r\<lparr>last_reassemblied_sn := a\<rparr>) = rx_ctl r"
  "rx_ctl (r\<lparr>last_reassemblied_missing_sn := a\<rparr>) = rx_ctl r"
  "rx_ctl (r\<lparr>stat_rx_data_bytes_dropped := a\<rparr>) = rx_ctl r"
  "rx_ctl (r\<lparr>dar_buffer := b\<rparr>) = rx_ctl r"
  by (simp_all add: rx_ctl_def rlc_um_clear_rx_sdu_def rlc_um_reassembly_def um_get_output_block_def
      rlc_um_send_sdu_def um_drop_pdu_def Let_def split: option.splits)

lemma dar_buffer_ops [simp]:
  "dar_buffer (rlc_um_clear_rx_sdu r) = dar_buffer r"
  "dar_buffer (rlc_um_reassembly alloc r src n) = dar_buffer r"
  "dar_buffer (rlc_um_send_sdu r) = dar_buffer r"
  "dar_buffer (um_drop_pdu r tb) = dar_buffer r"
  by (simp_all add: rlc_um_clear_rx_sdu_def rlc_um_reassembly_def um_get_output_block_def
      rlc_um_send_sdu_def um_drop_pdu_def Let_def split: option.splits)

lemma um_deliver_lis_frame [simp]:
  "rx_ctl (fst (um_deliver_lis alloc r m lis)) = rx_ctl r"
  "dar_buffer (fst (um_deliver_lis alloc r m lis)) = dar_buffer r"
  by (induction alloc r m lis rule: um_deliver_lis.induct) simp_all

lemma um_reassemble_frame [simp]:
  "rx_ctl (um_reassemble_no_li alloc r tb fi m sz) = rx_ctl r"
  "dar_buffer (um_reassemble_no_li alloc r tb fi m sz) = dar_buffer r"
  "rx_ctl (um_reassemble_li alloc r tb fi li) = rx_ctl r"
  "dar_buffer (um_reassemble_li alloc r tb fi li) = dar_buffer r"
  by (simp_all add: um_reassemble_no_li_def um_reassemble_li_def um_reassemble_li_first_def
      um_reassemble_li_cont_def case_prod_beta Let_def)

lemma rx_ctl_pdu: "um_reassembly_pdu alloc sn tb r = Some r' \<Longrightarrow> rx_ctl r' = rx_ctl r"
  by (auto simp: um_reassembly_pdu_def Let_def split: if_splits prod.splits)

lemma rx_ctl_at [simp]: "rx_ctl (um_reassembled alloc sn r) = rx_ctl r"
proof -
  have "rx_ctl (um_reassembly_missing sn r) = rx_ctl r" by (simp add: um_reassembly_missing_def)
  then show ?thesis by (auto simp: um_reassembled_def um_reassembly_at_def dest: rx_ctl_pdu split: option.split)
qed

lemma rx_ctl_eqD:
  assumes "rx_ctl r' = rx_ctl r"
  shows "vr_ur r' = vr_ur r" "vr_ux r' = vr_ux r" "vr_uh r' = vr_uh r" "t_reordering r' = t_reordering r"
    "rx_sn_length r' = rx_sn_length r" "rx_sn_modulo r' = rx_sn_modulo r"
    "rx_um_window_size r' = rx_um_window_size r"
    "rx_header_min_length_in_bytes r' = rx_header_min_length_in_bytes r"
  using assms by (simp_all add: rx_ctl_def)

text \<open>The header fields extracted by masking are in range, so only the size test can fail.\<close>

lemma masked_bits:
  "drop_bit 2 ((b :: byte) AND 0x04) \<in> {0, 1}" "drop_bit 3 (b AND 0x18) \<le> 3"
  "drop_bit 5 (b AND 0x20) \<in> {0, 1}" "drop_bit 6 (b AND 0xC0) \<le> 3"
proof -
  have *: "drop_bit k (b AND m) = drop_bit k b AND drop_bit k m" for k and m :: byte
    by (simp add: drop_bit_and)
  have one: "x AND 1 \<in> {0, 1}" for x :: byte by (simp add: and_one_eq mod_2_eq_odd)
  have le: "x AND 3 \<le> 3" for x :: byte by (rule word_and_le1)
  show "drop_bit 2 (b AND 0x04) \<in> {0, 1}" "drop_bit 5 (b AND 0x20) \<in> {0, 1}"
    "drop_bit 3 (b AND 0x18) \<le> 3" "drop_bit 6 (b AND 0xC0) \<le> 3"
    using one le by (auto simp: *)
qed

definition hdr_len :: "rlc_um_entity \<Rightarrow> int" where
  "hdr_len r = (if rx_sn_length r = 10 then 2 else 1)"

lemma um_pdu_header_ok:
  assumes "hdr_len r \<le> tb_size tb" "um_pdu_header r tb = (e, fi, sz, m)"
  shows "0 \<le> sz" "e = 0 \<or> e = 1" "fi \<le> 3"
  using assms masked_bits [of "data_ptr tb 0"]
  by (auto simp: um_pdu_header_def hdr_len_def Let_def split: if_splits)

definition um_pdu_start :: "int \<Rightarrow> rlc_um_entity \<Rightarrow> rlc_um_entity" where
  "um_pdu_start sn r =
     (if crem (last_reassemblied_sn r + 1) (rx_sn_modulo r) \<noteq> sn then rlc_um_clear_rx_sdu r else r)
       \<lparr>last_reassemblied_sn := to_u16 sn\<rparr>"

lemma um_pdu_start_frame [simp]:
  "rx_ctl (um_pdu_start sn r) = rx_ctl r" "dar_buffer (um_pdu_start sn r) = dar_buffer r"
  "hdr_len (um_pdu_start sn r) = hdr_len r"
  by (simp_all add: um_pdu_start_def) (simp add: hdr_len_def rlc_um_clear_rx_sdu_def)

section \<open>Length indicators as 12-bit fields\<close>

text \<open>
  The extension part of the header as the format describes it, without reference to the reader: a sequence of 12-bit fields,
  the extension bit on top of an 11-bit length indicator, packed without gaps; a field without the extension bit is the last.
  \<open>li_chain m k n\<close> reads at most \<open>n\<close> indicators from field \<open>k\<close> on, and is \<open>None\<close> when there are more.
\<close>

definition li_field :: "mem \<Rightarrow> nat \<Rightarrow> int" where
  "li_field m k = (let j = 3 * (k div 2) in
     if even k then uint (m j) * 16 + uint (m (j + 1)) div 16 else uint (m (j + 1)) mod 16 * 256 + uint (m (j + 2)))"

fun li_chain :: "mem \<Rightarrow> nat \<Rightarrow> nat \<Rightarrow> int list option" where
  "li_chain m k 0 = None"
| "li_chain m k (Suc n) =
     (if li_field m k < 2048 then Some [li_field m k] else map_option (Cons (li_field m k - 2048)) (li_chain m (Suc k) n))"

definition li_octets :: "nat \<Rightarrow> nat" where
  "li_octets n = drop_bit 1 (n * 3 + 1)"

lemma li_octets: "li_octets (Suc 0) = 2" "li_octets (Suc (Suc n)) = li_octets n + 3" "li_octets n = (n * 3 + 1) div 2"
  by (simp_all add: li_octets_def drop_bit_Suc)

lemma li_field_range: "0 \<le> li_field m k" "li_field m k < 4096"
proof -
  have u: "0 \<le> uint (m i) \<and> uint (m i) < 256" for i using uint_lt2p [of "m i"] by simp
  have d: "0 \<le> uint (m i) div 16 \<and> uint (m i) div 16 < 16" for i using u [of i] by (simp add: pos_imp_zdiv_nonneg_iff)
  have e: "0 \<le> uint (m i) mod 16 \<and> uint (m i) mod 16 < 16" for i by simp
  show "0 \<le> li_field m k" "li_field m k < 4096"
    using u [of "3 * (k div 2)"] d [of "3 * (k div 2) + 1"] e [of "3 * (k div 2) + 1"] u [of "3 * (k div 2) + 2"]
    unfolding li_field_def Let_def by (cases "even k"; (simp only: if_True if_False); linarith)+
qed

lemma li_field_cong: "\<forall>i < li_octets (Suc k). m' i = m i \<Longrightarrow> li_field m' k = li_field m k"
  by (auto simp: li_field_def li_octets(3) Let_def elim!: evenE oddE)

lemma li_field_shift: "li_field (mem_at m 3) k = li_field m (Suc (Suc k))"
  by (simp add: li_field_def mem_at_apply Let_def algebra_simps)

lemma li_chain_shift: "li_chain (mem_at m 3) k n = li_chain m (Suc (Suc k)) n"
  by (induction n arbitrary: k) (simp_all add: li_field_shift)

lemma li_octets_mono: "a \<le> b \<Longrightarrow> li_octets a \<le> li_octets b"
  by (simp add: li_octets(3) div_le_mono)

lemma li_chain_props:
  assumes "li_chain m k n = Some new"
  shows "new \<noteq> []" "length new \<le> n" "\<forall>li\<in>set new. 0 \<le> li \<and> li \<le> 2047"
    "\<forall>i < li_octets (k + length new). m' i = m i \<Longrightarrow> li_chain m' k n = Some new"
  using assms
proof (induction n arbitrary: k new)
  case (Suc n)
  note f = li_field_range [of m]
  {
    case 1 then show ?case by (auto split: if_splits)
  next
    case 2 then show ?case using Suc.IH(2) by (auto split: if_splits)
  next
    case 3 then show ?case using Suc.IH(3) [of "Suc k"] f [of k] by (cases "li_field m k < 2048") auto
  next
    case 4
    have pos: "Suc k \<le> k + length new" using 4(2) by (auto split: if_splits)
    then have "li_octets (Suc k) \<le> li_octets (k + length new)" by (rule li_octets_mono)
    then have eq: "li_field m' k = li_field m k" using 4(1) by (intro li_field_cong) auto
    show ?case
    proof (cases "li_field m k < 2048")
      case True then show ?thesis using 4(2) eq by simp
    next
      case False
      then obtain tl where "new = (li_field m k - 2048) # tl" "li_chain m (Suc k) n = Some tl" using 4(2) by auto
      then show ?thesis using Suc.IH(4) [of "Suc k" tl] 4(1) False eq by simp
    qed
  }
qed simp_all

text \<open>The fields the reader extracts by masking.\<close>

lemma mod_field: "0 \<le> d \<Longrightarrow> d < k \<Longrightarrow> 0 < n \<Longrightarrow> (a * k + d) mod (n * k) = a mod n * k + d" for a d k n :: int
proof -
  assume a: "0 \<le> d" "d < k" "0 < n"
  have "a mod n \<le> n - 1" "0 \<le> a mod n" using a(3) by simp_all
  then have "a mod n * k \<le> (n - 1) * k" "0 \<le> a mod n * k" using a(1,2) by (simp_all add: mult_right_mono)
  then have b: "0 \<le> a mod n * k + d" "a mod n * k + d < n * k" using a(1,2) by (simp_all add: left_diff_distrib)
  have "a * k = (n * (a div n) + a mod n) * k" by simp
  also have "\<dots> = a div n * (n * k) + a mod n * k" by (simp only: distrib_right) (simp only: mult_ac)
  finally have "(a * k + d) mod (n * k) = (a mod n * k + d) mod (n * k)" by (simp add: add.assoc)
  then show ?thesis using b by simp
qed

lemma e_li_fields:
  "e_li_e1 m = 0 \<longleftrightarrow> li_field m 0 < 2048" "e_li_li1 m = li_field m 0 mod 2048"
  "e_li_e2 m = 0 \<longleftrightarrow> li_field m (Suc 0) < 2048" "e_li_li2 m = li_field m (Suc 0) mod 2048"
proof -
  have r: "0 \<le> uint (m i) \<and> uint (m i) < 256" for i using uint_lt2p [of "m i"] by simp
  have msk: "uint (b AND 0x7F) = uint b mod 128" "uint (b AND 0x07) = uint b mod 8" "uint (b AND 0xFF) = uint b" for b :: byte
  proof -
    have "uint (take_bit 7 b) = uint b mod 2 ^ 7" "uint (take_bit 3 b) = uint b mod 2 ^ 3" "uint (take_bit 8 b) = uint b mod 2 ^ 8"
      by (simp_all only: unsigned_take_bit_eq) (simp_all only: take_bit_eq_mod)
    moreover have "uint b mod 2 ^ 8 = uint b" using uint_lt2p [of b] by simp
    ultimately show "uint (b AND 0x7F) = uint b mod 128" "uint (b AND 0x07) = uint b mod 8" "uint (b AND 0xFF) = uint b"
      by (simp_all only: byte_masks take_bit_eq_mask) simp_all
  qed
  have db: "uint (drop_bit k b) = drop_bit k (uint b)" for k and b :: byte
    using uint_lt2p [of b] by (simp add: unsigned_drop_bit_eq take_bit_int_eq_self)
  have hi: "drop_bit 4 (uint (b AND 0xF0)) = uint b div 16" for b :: byte
  proof -
    have "drop_bit 4 (b AND 0xF0) = drop_bit 4 b AND 0x0F" by (simp add: drop_bit_and)
    then have "drop_bit 4 (b AND 0xF0) = take_bit 4 (drop_bit 4 b)" by (simp only: byte_masks take_bit_eq_mask)
    then have "uint (drop_bit 4 (b AND 0xF0)) = uint b div 2 ^ 4 mod 2 ^ 4"
      by (simp only: db unsigned_take_bit_eq) (simp only: take_bit_eq_mod drop_bit_eq_div)
    moreover have "uint b div 16 mod 16 = uint b div 16" using uint_lt2p [of b] by (simp add: mod_pos_pos_trivial pos_imp_zdiv_nonneg_iff)
    ultimately show ?thesis using db [of 4 "b AND 0xF0"] by simp
  qed
  have bits: "x div 128 mod 2 = 0 \<longleftrightarrow> x < 128" "x div 8 mod 2 = 0 \<longleftrightarrow> x mod 16 < 8" if "0 \<le> x" "x < 256" for x :: int
    using that by presburger+
  have ar1: "a < 128 \<longleftrightarrow> a * 16 + d < 2048" "a mod 128 * 16 + d = (a * 16 + d) mod 2048"
    if "0 \<le> a" "a < 256" "0 \<le> d" "d < 16" for a d :: int
    using that mod_field [of d 16 128 a] by auto
  have ar2: "b mod 16 < 8 \<longleftrightarrow> b mod 16 * 256 + c < 2048" "b mod 8 * 256 + c = (b mod 16 * 256 + c) mod 2048"
    if "0 \<le> c" "c < 256" for b c :: int
    using that mod_field [of c 256 8 "b mod 16"] by (auto simp: mod_mod_cancel)
  have e: "drop_bit 7 (b AND 0x80) = 0 \<longleftrightarrow> uint b < 128" "drop_bit 3 (b AND 0x08) = 0 \<longleftrightarrow> uint b mod 16 < 8" for b :: byte
  proof -
    have "drop_bit 7 (b AND 0x80) = drop_bit 7 b AND 1" "drop_bit 3 (b AND 0x08) = drop_bit 3 b AND 1" by (simp_all add: drop_bit_and)
    then have "drop_bit 7 (b AND 0x80) = take_bit 1 (drop_bit 7 b)" "drop_bit 3 (b AND 0x08) = take_bit 1 (drop_bit 3 b)"
      by (simp_all only: take_bit_eq_mask mask_1)
    then have "uint (drop_bit 7 (b AND 0x80)) = uint b div 2 ^ 7 mod 2 ^ 1" "uint (drop_bit 3 (b AND 0x08)) = uint b div 2 ^ 3 mod 2 ^ 1"
      by (simp_all only: db unsigned_take_bit_eq) (simp_all only: take_bit_eq_mod drop_bit_eq_div)
    then have "drop_bit 7 (b AND 0x80) = 0 \<longleftrightarrow> uint b div 128 mod 2 = 0" "drop_bit 3 (b AND 0x08) = 0 \<longleftrightarrow> uint b div 8 mod 2 = 0"
      by (simp_all add: word_uint_eq_iff)
    then show "drop_bit 7 (b AND 0x80) = 0 \<longleftrightarrow> uint b < 128" "drop_bit 3 (b AND 0x08) = 0 \<longleftrightarrow> uint b mod 16 < 8"
      using bits [of "uint b"] uint_lt2p [of b] by simp_all
  qed
  have f0: "li_field m 0 = uint (m 0) * 16 + uint (m 1) div 16" by (simp add: li_field_def)
  have f1: "li_field m (Suc 0) = uint (m 1) mod 16 * 256 + uint (m 2)" by (simp add: li_field_def numeral_2_eq_2)
  show "e_li_e1 m = 0 \<longleftrightarrow> li_field m 0 < 2048" "e_li_li1 m = li_field m 0 mod 2048"
    "e_li_e2 m = 0 \<longleftrightarrow> li_field m (Suc 0) < 2048" "e_li_li2 m = li_field m (Suc 0) mod 2048"
    unfolding e_li_e1_def e_li_li1_def e_li_e2_def e_li_li2_def f0 f1 hi msk e push_bit_eq_mult
    using ar1 [of "uint (m 0)" "uint (m 1) div 16"] ar2 [of "uint (m 2)" "uint (m 1)"] r [of 0] r [of 1] r [of 2]
    by (simp_all add: pos_imp_zdiv_nonneg_iff)
qed

lemma to_s32_sub:
  "s \<le> 65535 \<Longrightarrow> - 5000 * int n \<le> s \<Longrightarrow> n \<le> 130 \<Longrightarrow> 0 \<le> k \<Longrightarrow> k \<le> 10000 \<Longrightarrow> to_s32 (s - k) = s - k"
  by (rule to_s32_id) auto

text \<open>
  The reader computes the chain of indicators, and runs over its array exactly when there are more than 128.
\<close>

lemma um_read_li_None: "um_read_li m lis s = None \<longleftrightarrow> li_chain m 0 (128 - length lis) = None"
proof (induction m lis s rule: um_read_li.induct)
  case (1 m lis s)
  show ?case
  proof (cases "128 - length lis")
    case 0 then show ?thesis by (subst um_read_li.simps) simp
  next
    case (Suc n)
    then have len: "\<not> length lis \<ge> 128" by simp
    show ?thesis
    proof (cases "e_li_e1 m = 0")
      case True
      then show ?thesis using len Suc by (subst um_read_li.simps) (simp add: e_li_fields(1) Let_def)
    next
      case e1: False
      show ?thesis
      proof (cases n)
        case 0
        then have "127 \<le> length lis" using Suc by simp
        then show ?thesis using 0 len Suc e1 by (subst um_read_li.simps) (simp add: e_li_fields(1) Let_def)
      next
        case (Suc n')
        have len2: "\<not> length (lis @ [e_li_li1 m]) \<ge> 128" "n' = 128 - length (lis @ [e_li_li1 m, e_li_li2 m])"
          using Suc \<open>128 - length lis = Suc n\<close> by simp_all
        note ih = "1.IH" [OF len refl refl e1 len2(1) refl refl]
        show ?thesis
          using len len2 Suc \<open>128 - length lis = Suc n\<close> e1 ih
          by (subst um_read_li.simps) (auto simp: e_li_fields(1,3) Let_def li_chain_shift)
      qed
    qed
  qed
qed

lemma um_read_li_eq:
  assumes "li_chain m 0 (128 - length lis) = Some new" "s \<le> 65535" "- 5000 * int (length lis) \<le> s"
    and "s' = s - sum_list new - int (li_octets (length new))"
  shows "um_read_li m lis s = Some (if 0 < s' then 0 else -1, lis @ new, s')"
  using assms
proof (induction m lis s arbitrary: new rule: um_read_li.induct)
  case (1 m lis s)
  define li1 li2 where "li1 = e_li_li1 m" and "li2 = e_li_li2 m"
  have r: "0 \<le> x mod 2048 \<and> x mod 2048 \<le> 2047" for x :: int using pos_mod_bound [of 2048 x] by simp
  have li: "0 \<le> li1" "li1 \<le> 2047" "0 \<le> li2" "li2 \<le> 2047"
    unfolding li1_def li2_def e_li_fields using r by blast+
  obtain n where n: "128 - length lis = Suc n" using "1.prems"(1) by (cases "128 - length lis") auto
  then have len: "length lis < 128" "\<not> length lis \<ge> 128" by simp_all
  have s1: "to_s32 (s - li1 - 2) = s - li1 - 2"
    using to_s32_sub [of s "length lis" "li1 + 2"] "1.prems" li len by (simp add: algebra_simps)
  have s2: "to_s32 (s - li1 - 2 - li2 - 1) = s - li1 - li2 - 3"
    using to_s32_sub [of s "length lis" "li1 + li2 + 3"] "1.prems" li len by (simp add: algebra_simps)
  show ?case
  proof (cases "e_li_e1 m = 0")
    case True
    then have f: "li_field m 0 < 2048" "li1 = li_field m 0"
      using li_field_range [of m 0] by (simp_all add: li1_def e_li_fields)
    then have "new = [li1]" using "1.prems"(1) n by simp
    then show ?thesis using "1.prems"(4) True len s1 by (subst um_read_li.simps) (simp add: li1_def [symmetric] li_octets(1))
  next
    case e1: False
    then have f: "\<not> li_field m 0 < 2048" "li1 = li_field m 0 - 2048"
      using li_field_range [of m 0] mod_field [of "li_field m 0 - 2048" 2048 1 1] by (simp_all add: li1_def e_li_fields)
    then obtain n' where n': "n = Suc n'" using "1.prems"(1) n by (cases n) auto
    then have len2: "\<not> length (lis @ [li1]) \<ge> 128" "n' = 128 - length (lis @ [li1, li2])" using n by simp_all
    show ?thesis
    proof (cases "e_li_e2 m = 0")
      case True
      then have "li_field m (Suc 0) < 2048" "li2 = li_field m (Suc 0)"
        using li_field_range [of m "Suc 0"] by (simp_all add: li2_def e_li_fields)
      then have "new = [li1, li2]" using "1.prems"(1) n n' f by simp
      then show ?thesis using "1.prems"(4) True e1 len len2 s1 s2
        by (subst um_read_li.simps) (simp add: li1_def [symmetric] li2_def [symmetric] li_octets Let_def)
    next
      case False
      then have "\<not> li_field m (Suc 0) < 2048" "li2 = li_field m (Suc 0) - 2048"
        using li_field_range [of m "Suc 0"] mod_field [of "li_field m (Suc 0) - 2048" 2048 1 1] by (simp_all add: li2_def e_li_fields)
      then obtain tl where tl: "new = li1 # li2 # tl" "li_chain (mem_at m 3) 0 n' = Some tl"
        using "1.prems"(1) n n' f by (auto simp: li_chain_shift)
      have "um_read_li (mem_at m 3) (lis @ [li1, li2]) (s - li1 - li2 - 3) = Some (if 0 < s' then 0 else -1, (lis @ [li1, li2]) @ tl, s')"
        using "1.IH" [OF len(2) refl refl e1 _ refl refl, of tl] False len2 tl "1.prems" li s1 s2
        by (simp add: li1_def [symmetric] li2_def [symmetric] li_octets(2))
      then show ?thesis using tl(1) False e1 len len2 s1 s2
        by (subst um_read_li.simps) (simp add: li1_def [symmetric] li2_def [symmetric] Let_def)
    qed
  qed
qed

lemma um_read_li_ok:
  assumes "um_read_li m lis s = Some (0, lis', s')" "s \<le> 65535" "- 5000 * int (length lis) \<le> s" "length lis \<le> 128"
  shows "\<exists>new. lis' = lis @ new \<and> new \<noteq> [] \<and> (\<forall>li\<in>set new. 0 \<le> li \<and> li \<le> 2047) \<and> length lis' \<le> 128
     \<and> 0 < s' \<and> s = s' + sum_list new + int (li_octets (length new))
     \<and> (\<forall>m'. (\<forall>i < li_octets (length new). m' i = m i) \<longrightarrow> um_read_li m' lis s = Some (0, lis', s'))"
proof -
  obtain new where new: "li_chain m 0 (128 - length lis) = Some new" using assms(1) um_read_li_None [of m lis s] by auto
  note eq = um_read_li_eq [OF _ assms(2,3) refl]
  note p = li_chain_props [OF new]
  have "li_chain m' 0 (128 - length lis) = Some new" if "\<forall>i < li_octets (length new). m' i = m i" for m'
    using p(4) [of m'] that by simp
  then show ?thesis using eq [OF new] eq [of _ new] assms(1,4) p(1-3) by (intro exI [of _ new]) (auto split: if_splits)
qed

section \<open>The PDU as the format describes it\<close>

text \<open>
  The fields of a PDU, by their position: with 10-bit numbers FI is in bits 3 and 4 of the first octet and E in bit 2, with
  5-bit numbers in bits 6 and 7 and in bit 5. A PDU fits the receiver if it is at least as long as the fixed header, at most
  65535 octets, and carries at most 128 length indicators.
\<close>

definition um_pdu_e :: "int \<Rightarrow> mem \<Rightarrow> bool" where
  "um_pdu_e len m = (if len = 10 then bit (m 0) 2 else bit (m 0) 5)"

definition um_pdu_fi :: "int \<Rightarrow> mem \<Rightarrow> byte" where
  "um_pdu_fi len m = take_bit 2 (drop_bit (if len = 10 then 3 else 6) (m 0))"

definition um_fixed_len :: "int \<Rightarrow> nat" where
  "um_fixed_len len = (if len = 10 then 2 else 1)"

definition pdu_fits :: "int \<Rightarrow> mac_tb_ind \<Rightarrow> bool" where
  "pdu_fits len tb \<longleftrightarrow> int (um_fixed_len len) \<le> tb_size tb \<and> tb_size tb \<le> 65535
     \<and> (um_pdu_e len (data_ptr tb) \<longrightarrow> li_chain (mem_at (data_ptr tb) (um_fixed_len len)) 0 128 \<noteq> None)"

lemma hdr_len_fixed: "hdr_len r = int (um_fixed_len (rx_sn_length r))"
  by (simp add: hdr_len_def um_fixed_len_def)

lemma um_pdu_header_eq:
  "um_pdu_header r tb = (if um_pdu_e (rx_sn_length r) (data_ptr tb) then 1 else 0, um_pdu_fi (rx_sn_length r) (data_ptr tb),
     tb_size tb - hdr_len r, mem_at (data_ptr tb) (um_fixed_len (rx_sn_length r)))"
proof -
  let ?b = "data_ptr tb 0"
  have e: "drop_bit 2 (?b AND 0x04) = (if bit ?b 2 then 1 else 0)" "drop_bit 5 (?b AND 0x20) = (if bit ?b 5 then 1 else 0)"
    by (simp_all add: drop_bit_and and_one_eq bit_iff_odd_drop_bit mod_2_eq_odd)
  have "drop_bit 3 (?b AND 0x18) = drop_bit 3 ?b AND 3" "drop_bit 6 (?b AND 0xC0) = drop_bit 6 ?b AND 3" by (simp_all add: drop_bit_and)
  then have "drop_bit 3 (?b AND 0x18) = take_bit 2 (drop_bit 3 ?b)" "drop_bit 6 (?b AND 0xC0) = take_bit 2 (drop_bit 6 ?b)"
    by (simp_all only: take_bit_eq_mask byte_masks)
  with e show ?thesis unfolding um_pdu_header_def um_pdu_e_def um_pdu_fi_def um_fixed_len_def hdr_len_def Let_def by simp
qed

lemma um_reassembly_pdu_ok:
  assumes "pdu_fits (rx_sn_length r) tb" "um_pdu_header (um_pdu_start sn r) tb = (e, fi, sz, m)"
  obtains li where "e \<noteq> 0 \<Longrightarrow> rlc_um_read_length_indicators m m sz = Some li"
    "um_reassembly_pdu alloc sn tb r = Some
      (let r3 = (if e = 0 then um_reassemble_no_li alloc (um_pdu_start sn r) tb fi m sz
                 else um_reassemble_li alloc (um_pdu_start sn r) tb fi li) in
       r3\<lparr>dar_buffer := (dar_buffer r)(sn := None)\<rparr>)"
proof -
  have l: "rx_sn_length (um_pdu_start sn r) = rx_sn_length r" by (simp add: um_pdu_start_def rlc_um_clear_rx_sdu_def)
  have "hdr_len r \<le> tb_size tb" using assms(1) by (simp add: pdu_fits_def hdr_len_fixed)
  then have ok: "0 \<le> sz" "e = 0 \<or> e = 1" "\<not> fi > 3"
    using um_pdu_header_ok [of "um_pdu_start sn r" tb e fi sz m] assms(2) by (auto simp: not_less)
  have "rlc_um_read_length_indicators m m sz \<noteq> None" if "e \<noteq> 0"
    using assms that um_read_li_None [of m "[]" sz]
    by (auto simp: pdu_fits_def um_pdu_header_eq l rlc_um_read_length_indicators_def split: if_splits)
  then obtain li where li: "e \<noteq> 0 \<Longrightarrow> rlc_um_read_length_indicators m m sz = Some li" by fastforce
  show ?thesis
    by (rule that [OF li]) (use ok li assms(2) in \<open>auto simp: um_reassembly_pdu_def Let_def simp flip: um_pdu_start_def\<close>)
qed

lemma dar_buffer_pdu:
  assumes "pdu_fits (rx_sn_length r) tb"
  shows "\<exists>r'. um_reassembly_pdu alloc sn tb r = Some r' \<and> dar_buffer r' = (dar_buffer r)(sn := None)"
proof -
  obtain e fi sz m where "um_pdu_header (um_pdu_start sn r) tb = (e, fi, sz, m)" by (metis prod_cases4)
  then show ?thesis by (rule um_reassembly_pdu_ok [OF assms, of _ _ _ _ _ alloc]) (simp add: Let_def)
qed

lemma dar_buffer_at:
  assumes "\<And>tb. dar_buffer r sn = Some tb \<Longrightarrow> pdu_fits (rx_sn_length r) tb"
  shows "um_reassembly_at alloc sn r = Some (um_reassembled alloc sn r)"
    "dar_buffer (um_reassembled alloc sn r) = (dar_buffer r)(sn := None)"
proof -
  have "\<exists>r'. um_reassembly_at alloc sn r = Some r' \<and> dar_buffer r' = (dar_buffer r)(sn := None)"
  proof (cases "dar_buffer r sn")
    case None
    then show ?thesis by (auto simp: um_reassembly_at_def um_reassembly_missing_def fun_eq_iff)
  next
    case (Some tb)
    then show ?thesis using dar_buffer_pdu [OF assms] by (simp add: um_reassembly_at_def)
  qed
  then show "um_reassembly_at alloc sn r = Some (um_reassembled alloc sn r)"
    "dar_buffer (um_reassembled alloc sn r) = (dar_buffer r)(sn := None)" by (auto simp: um_reassembled_def)
qed

text \<open>
  When \<open>rlc_um_read_length_indicators\<close> accepts a header, it has read between 1 and 128 length
  indicators of at most 2047, the indicated SDU parts, the octets of the extension part and the
  positive rest add up to the octets that followed the fixed header, the data pointer is just
  behind the extension part, and the verdict and result do not depend on memory beyond the PDU.
\<close>
theorem rlc_um_read_length_indicators_safe:
  assumes "rlc_um_read_length_indicators data_p e_li sz = Some (0, data_p', lis, sz')"
    and "0 \<le> sz" "sz \<le> 65535"
  shows "1 \<le> length lis \<and> length lis \<le> 128 \<and> (\<forall>li\<in>set lis. 0 \<le> li \<and> li \<le> 2047) \<and> 0 < sz'
    \<and> sz = int (li_octets (length lis)) + sum_list lis + sz'
    \<and> data_p' = mem_at data_p (li_octets (length lis))
    \<and> (\<forall>e_li'. (\<forall>i < nat sz. e_li' i = e_li i)
         \<longrightarrow> rlc_um_read_length_indicators data_p e_li' sz = Some (0, data_p', lis, sz'))"
proof -
  have rd: "um_read_li e_li [] sz = Some (0, lis, sz')" and dp: "data_p' = mem_at data_p (li_octets (length lis))"
    using assms(1) by (auto simp: rlc_um_read_length_indicators_def li_octets_def)
  obtain new where new: "lis = new" "new \<noteq> []" "\<forall>li\<in>set new. 0 \<le> li \<and> li \<le> 2047" "length lis \<le> 128"
      "0 < sz'" "sz = sz' + sum_list new + int (li_octets (length new))"
      "\<forall>m'. (\<forall>i < li_octets (length new). m' i = e_li i) \<longrightarrow> um_read_li m' [] sz = Some (0, lis, sz')"
    using um_read_li_ok [OF rd] assms(2,3) by auto
  have "0 \<le> sum_list new" using new(3) by (intro sum_list_nonneg) auto
  then have "li_octets (length new) < nat sz" using new(5,6) by linarith
  then have "\<forall>e_li'. (\<forall>i < nat sz. e_li' i = e_li i)
      \<longrightarrow> rlc_um_read_length_indicators data_p e_li' sz = Some (0, data_p', lis, sz')"
    using new(1,7) dp by (auto simp: rlc_um_read_length_indicators_def li_octets_def)
  then show ?thesis using new dp by (auto simp: Suc_le_eq)
qed

section \<open>The abstract assembler\<close>

text \<open>
  What the receiver promises: a pending prefix of an SDU, the SDUs delivered so far and whether a
  PDU is known to be missing. A PDU is its framing information and its list of SDU parts.
\<close>

type_synonym asm = "byte list \<times> byte list list"

definition asm_add :: "nat \<Rightarrow> byte list \<Rightarrow> asm \<Rightarrow> asm" where
  "asm_add mx bs a = (case a of (p, d) \<Rightarrow>
     if bs = [] then (p, d) else if length p + length bs \<le> mx then (p @ bs, d) else ([], d))"

definition asm_send :: "asm \<Rightarrow> asm" where
  "asm_send a = (case a of (p, d) \<Rightarrow> if p = [] then (p, d) else ([], d @ [p]))"

definition asm_deliver :: "nat \<Rightarrow> byte list list \<Rightarrow> asm \<Rightarrow> asm" where
  "asm_deliver mx segs a = fold (\<lambda>s a. asm_send (asm_add mx s a)) segs a"

definition asm_pdu :: "nat \<Rightarrow> byte \<Rightarrow> byte list list \<Rightarrow> asm \<times> bool \<Rightarrow> asm \<times> bool" where
  "asm_pdu mx fi segs am = (case am of ((p, d), missing) \<Rightarrow>
     let (p0, rest) = (if fi = 0 \<or> fi = 1 then ([], segs)
                       else if missing then (p, tl segs) else (p, segs)) in
     if rest = [] then ((p0, d), fi = 3 \<and> missing)
     else
       let a = asm_add mx (last rest) (asm_deliver mx (butlast rest) (p0, d)) in
       (if fi = 0 \<or> fi = 2 then asm_send a else a, False))"

definition alloc_total :: "allocator \<Rightarrow> bool" where
  "alloc_total alloc \<longleftrightarrow> (\<forall>n. alloc n \<noteq> None)"

definition um_pending :: "rlc_um_entity \<Rightarrow> byte list" where
  "um_pending r = (case output_sdu_in_construction r of
     None \<Rightarrow> [] | Some blk \<Rightarrow> mem_read blk 0 (nat (output_sdu_size_to_write r)))"

definition um_asm :: "rlc_um_entity \<Rightarrow> asm" where
  "um_asm r = (um_pending r, map di_sdu (data_ind_log r))"

definition sdu_max :: "rlc_um_entity \<Rightarrow> nat" where
  "sdu_max r = (if is_data_plane r then 9000 else 2000)"

definition asm_ok :: "rlc_um_entity \<Rightarrow> bool" where
  "asm_ok r \<longleftrightarrow> 0 \<le> output_sdu_size_to_write r \<and> output_sdu_size_to_write r \<le> int (sdu_max r)"

lemma clear_refines [simp]:
  "um_asm (rlc_um_clear_rx_sdu r) = ([], snd (um_asm r))" "asm_ok (rlc_um_clear_rx_sdu r)"
  "sdu_max (rlc_um_clear_rx_sdu r) = sdu_max r"
  by (simp_all add: um_asm_def um_pending_def rlc_um_clear_rx_sdu_def asm_ok_def sdu_max_def split: option.split)

lemma mem_read_write_append:
  "n = length bs \<Longrightarrow> mem_read (mem_write blk k bs) 0 (k + n) = mem_read blk 0 k @ bs"
  using mem_read_add [of "mem_write blk k bs" 0 k n] mem_read_write_disj [of 0 k k bs blk] by simp

lemma reassembly_refines:
  assumes "asm_ok r" "alloc_total alloc"
  shows "um_asm (rlc_um_reassembly alloc r src n) = asm_add (sdu_max r) (mem_read src 0 (nat n)) (um_asm r)"
    "asm_ok (rlc_um_reassembly alloc r src n)" "sdu_max (rlc_um_reassembly alloc r src n) = sdu_max r"
proof -
  show "sdu_max (rlc_um_reassembly alloc r src n) = sdu_max r"
    by (simp add: rlc_um_reassembly_def um_get_output_block_def sdu_max_def Let_def split: option.split)
  define r1 where "r1 = um_get_output_block alloc r"
  obtain blk where blk: "output_sdu_in_construction r1 = Some blk"
    using assms(2)
    by (cases "output_sdu_in_construction r") (auto simp: r1_def um_get_output_block_def alloc_total_def)
  have r1: "asm_ok r1" "um_asm r1 = um_asm r" "is_data_plane r1 = is_data_plane r" "data_ind_log r1 = data_ind_log r"
    using assms by (auto simp: alloc_total_def r1_def um_get_output_block_def asm_ok_def sdu_max_def um_asm_def um_pending_def split: option.split)
  let ?k = "output_sdu_size_to_write r1"
  have k: "0 \<le> ?k" "?k \<le> int (sdu_max r)" using r1 by (auto simp: asm_ok_def sdu_max_def)
  have lenp: "int (length (um_pending r1)) = ?k" using blk k by (simp add: um_pending_def)
  have pend: "um_pending r1 = mem_read blk 0 (nat ?k)" using blk by (simp add: um_pending_def)
  have s32: "n > 0 \<Longrightarrow> ?k + n \<le> int (sdu_max r) \<Longrightarrow> to_s32 (?k + n) = ?k + n"
    using k by (intro to_s32_id) (auto simp: sdu_max_def split: if_splits)
  have eq: "rlc_um_reassembly alloc r src n = (if n \<le> 0 then r else if ?k + n \<le> int (sdu_max r)
      then r1\<lparr>output_sdu_in_construction := Some (mem_write blk (nat ?k) (mem_read src 0 (nat n))),
              output_sdu_size_to_write := ?k + n\<rparr>
      else r1\<lparr>output_sdu_size_to_write := 0\<rparr>)"
    using blk s32 by (simp add: rlc_um_reassembly_def r1_def [symmetric] sdu_max_def)
  show "asm_ok (rlc_um_reassembly alloc r src n)"
    unfolding eq using assms(1) k r1(3) by (auto simp: asm_ok_def sdu_max_def)
  have rd: "um_asm r = (um_pending r1, map di_sdu (data_ind_log r1))" using r1 by (simp add: um_asm_def)
  have "n > 0 \<Longrightarrow> nat (?k + n) = nat ?k + nat n" using k by simp
  moreover have "n > 0 \<Longrightarrow> mem_read src 0 (nat n) \<noteq> []" by (metis length_0_conv length_mem_read nat_0_iff not_le)
  moreover have "?k + n \<le> int (sdu_max r) \<longleftrightarrow> length (um_pending r1) + nat n \<le> sdu_max r" if "n > 0"
    using lenp that by linarith
  ultimately show "um_asm (rlc_um_reassembly alloc r src n) = asm_add (sdu_max r) (mem_read src 0 (nat n)) (um_asm r)"
  proof (cases "n \<le> 0")
    case True
    then show ?thesis by (simp add: eq asm_add_def split: prod.split)
  next
    case False
    assume n: "n > 0 \<Longrightarrow> nat (?k + n) = nat ?k + nat n" "n > 0 \<Longrightarrow> mem_read src 0 (nat n) \<noteq> []"
      "n > 0 \<Longrightarrow> (?k + n \<le> int (sdu_max r)) = (length (um_pending r1) + nat n \<le> sdu_max r)"
    then show ?thesis
      unfolding eq rd using False pend
      by (auto simp: asm_add_def um_asm_def um_pending_def blk mem_read_write_append)
  qed
qed

lemma send_refines:
  assumes "asm_ok r"
  shows "um_asm (rlc_um_send_sdu r) = asm_send (um_asm r)" "asm_ok (rlc_um_send_sdu r)"
    "sdu_max (rlc_um_send_sdu r) = sdu_max r"
proof -
  show "sdu_max (rlc_um_send_sdu r) = sdu_max r"
    by (simp add: rlc_um_send_sdu_def sdu_max_def Let_def split: option.split)
  show "asm_ok (rlc_um_send_sdu r)"
    using assms by (auto simp: rlc_um_send_sdu_def asm_ok_def sdu_max_def Let_def split: option.split if_splits)
  have "mem_read b 0 (nat k) = [] \<longleftrightarrow> \<not> 0 < k" for b k
    by (metis length_0_conv length_mem_read nat_0_iff not_le)
  then show "um_asm (rlc_um_send_sdu r) = asm_send (um_asm r)"
    by (auto simp: rlc_um_send_sdu_def um_asm_def um_pending_def asm_send_def Let_def split: option.splits)
qed

text \<open>The SDU parts of a PDU payload delimited by length indicators, and of a whole PDU.\<close>

fun segs_of :: "mem \<Rightarrow> int list \<Rightarrow> int \<Rightarrow> byte list list" where
  "segs_of m [] sz = [mem_read m 0 (nat sz)]"
| "segs_of m (li # lis) sz = mem_read m 0 (nat li) # segs_of (mem_at m (nat li)) lis sz"

lemma segs_of_neq_Nil [simp]: "segs_of m lis sz \<noteq> []"
  by (cases lis) simp_all

lemma deliver_lis_refines:
  assumes "asm_ok r" "alloc_total alloc" "um_deliver_lis alloc r m lis = (r', m')"
  shows "um_asm r' = asm_deliver (sdu_max r) (butlast (segs_of m lis sz)) (um_asm r)"
    "asm_ok r'" "sdu_max r' = sdu_max r" "last (segs_of m lis sz) = mem_read m' 0 (nat sz)"
    "reassembly_missing_sn_detected r' = reassembly_missing_sn_detected r"
proof -
  have miss: "reassembly_missing_sn_detected (rlc_um_send_sdu (rlc_um_reassembly alloc r m li))
      = reassembly_missing_sn_detected r" for r m li
    by (simp add: rlc_um_send_sdu_def rlc_um_reassembly_def um_get_output_block_def Let_def split: option.split)
  have "um_asm r' = asm_deliver (sdu_max r) (butlast (segs_of m lis sz)) (um_asm r)
      \<and> asm_ok r' \<and> sdu_max r' = sdu_max r \<and> last (segs_of m lis sz) = mem_read m' 0 (nat sz)
      \<and> reassembly_missing_sn_detected r' = reassembly_missing_sn_detected r"
    using assms(1,3)
  proof (induction lis arbitrary: r m)
    case Nil
    then show ?case by (simp add: asm_deliver_def)
  next
    case (Cons li lis)
    let ?r = "rlc_um_send_sdu (rlc_um_reassembly alloc r m li)"
    have "asm_ok ?r" "sdu_max ?r = sdu_max r"
        "um_asm ?r = asm_send (asm_add (sdu_max r) (mem_read m 0 (nat li)) (um_asm r))"
      using reassembly_refines [OF Cons.prems(1) assms(2)] send_refines by auto
    moreover have "um_deliver_lis alloc ?r (mem_at m (nat li)) lis = (r', m')" using Cons.prems by simp
    ultimately show ?case using Cons.IH [of ?r "mem_at m (nat li)"] miss by (simp add: asm_deliver_def)
  qed
  then show "um_asm r' = asm_deliver (sdu_max r) (butlast (segs_of m lis sz)) (um_asm r)"
    "asm_ok r'" "sdu_max r' = sdu_max r" "last (segs_of m lis sz) = mem_read m' 0 (nat sz)"
    "reassembly_missing_sn_detected r' = reassembly_missing_sn_detected r" by auto
qed

lemma asm_irrelevant [simp]:
  "um_asm (r\<lparr>reassembly_missing_sn_detected := a\<rparr>) = um_asm r"
  "um_asm (r\<lparr>stat_rx_data_bytes_dropped := a\<rparr>) = um_asm r"
  "um_asm (r\<lparr>dar_buffer := f\<rparr>) = um_asm r" "um_asm (um_drop_pdu r tb) = um_asm r"
  "um_asm (r\<lparr>last_reassemblied_sn := a\<rparr>) = um_asm r"
  "asm_ok (r\<lparr>reassembly_missing_sn_detected := a\<rparr>) = asm_ok r"
  "asm_ok (r\<lparr>stat_rx_data_bytes_dropped := a\<rparr>) = asm_ok r"
  "asm_ok (r\<lparr>dar_buffer := f\<rparr>) = asm_ok r" "asm_ok (um_drop_pdu r tb) = asm_ok r"
  "asm_ok (r\<lparr>last_reassemblied_sn := a\<rparr>) = asm_ok r"
  "sdu_max (r\<lparr>stat_rx_data_bytes_dropped := a\<rparr>) = sdu_max r"
  "sdu_max (r\<lparr>last_reassemblied_sn := a\<rparr>) = sdu_max r"
  "reassembly_missing_sn_detected (um_drop_pdu r tb) = reassembly_missing_sn_detected r"
  by (simp_all add: um_asm_def um_pending_def um_drop_pdu_def asm_ok_def sdu_max_def split: option.split)

abbreviation um_state :: "rlc_um_entity \<Rightarrow> asm \<times> bool" where
  "um_state r \<equiv> (um_asm r, reassembly_missing_sn_detected r \<noteq> 0)"

lemma fi_cases: "(fi :: byte) \<le> 3 \<Longrightarrow> fi = 0 \<or> fi = 1 \<or> fi = 2 \<or> fi = 3"
proof -
  assume "fi \<le> 3"
  then have "uint fi \<le> 3" "0 \<le> uint fi" by (simp_all add: word_le_def)
  then have "uint fi = 0 \<or> uint fi = 1 \<or> uint fi = 2 \<or> uint fi = 3" by linarith
  then show ?thesis by (auto simp: word_uint_eq_iff)
qed

lemma asm_deliver_Nil [simp]: "asm_deliver mx [] a = a"
  by (simp add: asm_deliver_def)

lemma no_li_refines:
  assumes "asm_ok r" "alloc_total alloc" "fi \<le> 3"
  shows "um_state (um_reassemble_no_li alloc r tb fi m sz) = asm_pdu (sdu_max r) fi [mem_read m 0 (nat sz)] (um_state r)"
    "asm_ok (um_reassemble_no_li alloc r tb fi m sz)"
proof -
  note clr = reassembly_refines [OF clear_refines(2) assms(2)] and ra = reassembly_refines [OF assms(1,2)]
  have miss: "reassembly_missing_sn_detected (rlc_um_reassembly alloc r m sz) = reassembly_missing_sn_detected r"
    by (simp add: rlc_um_reassembly_def um_get_output_block_def Let_def split: option.split)
  obtain p d where pd: "um_asm r = (p, d)" by fastforce
  show "um_state (um_reassemble_no_li alloc r tb fi m sz) = asm_pdu (sdu_max r) fi [mem_read m 0 (nat sz)] (um_state r)"
    using fi_cases [OF assms(3)] clr ra send_refines [OF ra(2)] send_refines [OF clr(2)] pd miss
    by (elim disjE) (auto simp: um_reassemble_no_li_def asm_pdu_def)
  show "asm_ok (um_reassemble_no_li alloc r tb fi m sz)"
    using clr ra send_refines [OF ra(2)] send_refines [OF clr(2)] assms(1)
    by (simp add: um_reassemble_no_li_def)
qed

lemma segs_of_tl: "lis \<noteq> [] \<Longrightarrow> tl (segs_of m lis sz) = segs_of (mem_at m (nat (hd lis))) (tl lis) sz"
  by (cases lis) simp_all

lemma li_first_refines:
  assumes "asm_ok r" "alloc_total alloc" "fi = 0 \<or> fi = 1" "0 < sz"
  shows "um_state (um_reassemble_li_first alloc r fi m lis sz) = asm_pdu (sdu_max r) fi (segs_of m lis sz) (um_state r)"
    "asm_ok (um_reassemble_li_first alloc r fi m lis sz)"
proof -
  obtain r1 m1 where d: "um_deliver_lis alloc (rlc_um_clear_rx_sdu r) m lis = (r1, m1)" by fastforce
  note dl = deliver_lis_refines [OF clear_refines(2) assms(2) d]
  note ra = reassembly_refines [OF dl(2) assms(2), of m1 sz] 
  note sd = send_refines [OF ra(2)]
  obtain p d' where pd: "um_asm r = (p, d')" by fastforce
  show "um_state (um_reassemble_li_first alloc r fi m lis sz) = asm_pdu (sdu_max r) fi (segs_of m lis sz) (um_state r)"
    using assms(3,4) d dl(1,4) [of sz] dl(2,3) ra sd pd
    by (elim disjE) (simp_all add: um_reassemble_li_first_def asm_pdu_def)
  show "asm_ok (um_reassemble_li_first alloc r fi m lis sz)"
    using assms(4) d ra sd by (simp add: um_reassemble_li_first_def Let_def)
qed

lemma li_cont_refines:
  assumes "asm_ok r" "alloc_total alloc" "fi = 2 \<or> fi = 3" "0 < sz" "lis \<noteq> []"
  shows "um_state (um_reassemble_li_cont alloc r fi m lis sz) = asm_pdu (sdu_max r) fi (segs_of m lis sz) (um_state r)"
    "asm_ok (um_reassemble_li_cont alloc r fi m lis sz)"
proof -
  define skip where "skip \<longleftrightarrow> reassembly_missing_sn_detected r \<noteq> 0"
  define r0 where "r0 = (if skip
    then r\<lparr>stat_rx_data_bytes_dropped := to_u32 (stat_rx_data_bytes_dropped r + hd lis)\<rparr> else r)"
  define m0 where "m0 = (if skip then mem_at m (nat (hd lis)) else m)"
  define lis0 where "lis0 = (if skip then tl lis else lis)"
  obtain r1 m1 where d: "um_deliver_lis alloc r0 m0 lis0 = (r1, m1)" by fastforce
  have r0: "asm_ok r0" "um_asm r0 = um_asm r" "sdu_max r0 = sdu_max r" using assms(1) by (simp_all add: r0_def)
  note dl = deliver_lis_refines [OF r0(1) assms(2) d]
  note ra = reassembly_refines [OF dl(2) assms(2), of m1 sz]
  note sd = send_refines [OF ra(2)]
  have segs: "segs_of m0 lis0 sz = (if skip then tl (segs_of m lis sz) else segs_of m lis sz)"
    using segs_of_tl [OF assms(5)] by (simp add: m0_def lis0_def)
  have eq: "um_reassemble_li_cont alloc r fi m lis sz =
      (let r2 = rlc_um_reassembly alloc r1 m1 sz in if fi = 2 then rlc_um_send_sdu r2 else r2)
        \<lparr>reassembly_missing_sn_detected := 0\<rparr>"
    using d assms(4) by (auto simp: um_reassemble_li_cont_def r0_def m0_def lis0_def skip_def Let_def)
  have segs_ne: "tl (segs_of m lis sz) \<noteq> []" using segs_of_tl [OF assms(5)] by simp
  obtain p d' where pd: "um_asm r = (p, d')" by fastforce
  show "um_state (um_reassemble_li_cont alloc r fi m lis sz) = asm_pdu (sdu_max r) fi (segs_of m lis sz) (um_state r)"
    unfolding eq using assms(3) dl(1,4) [of sz] dl(2,3) ra sd pd r0 segs segs_ne
    by (cases skip) (auto simp: asm_pdu_def skip_def [symmetric])
  show "asm_ok (um_reassemble_li_cont alloc r fi m lis sz)"
    unfolding eq using ra sd by (simp add: Let_def)
qed

text \<open>
  The framing information and the SDU parts of a PDU, read from the format: without E bit the rest of the PDU is one part;
  otherwise there is a part for every length indicator and a last one, which must not be empty, for what is left.
\<close>

definition um_pdu_parts :: "rlc_um_entity \<Rightarrow> mac_tb_ind \<Rightarrow> (byte \<times> byte list list) option" where
  "um_pdu_parts r tb =
     (let len = rx_sn_length r; m = mem_at (data_ptr tb) (um_fixed_len len); sz = tb_size tb - int (um_fixed_len len);
          fi = um_pdu_fi len (data_ptr tb) in
      if \<not> um_pdu_e len (data_ptr tb) then Some (fi, [mem_read m 0 (nat sz)])
      else (case li_chain m 0 128 of
              None \<Rightarrow> None
            | Some lis \<Rightarrow>
                let k = li_octets (length lis); rest = sz - sum_list lis - int k in
                if 0 < rest then Some (fi, segs_of (mem_at m k) lis rest) else None))"

lemma um_pdu_parts_read:
  assumes "um_pdu_header r tb = (e, fi, sz, m)" "0 \<le> sz" "sz \<le> 65535"
  shows "um_pdu_parts r tb =
     (if e = 0 then Some (fi, [mem_read m 0 (nat sz)])
      else (case rlc_um_read_length_indicators m m sz of None \<Rightarrow> None
            | Some (rc, m', lis, sz') \<Rightarrow> if rc = 0 then Some (fi, segs_of m' lis sz') else None))"
proof (cases "um_pdu_e (rx_sn_length r) (data_ptr tb)")
  case False
  then show ?thesis using assms(1) by (auto simp: um_pdu_parts_def um_pdu_header_eq hdr_len_fixed Let_def)
next
  case True
  then have e: "e = 1" and hd: "fi = um_pdu_fi (rx_sn_length r) (data_ptr tb)" "sz = tb_size tb - int (um_fixed_len (rx_sn_length r))"
    "m = mem_at (data_ptr tb) (um_fixed_len (rx_sn_length r))" using assms(1) by (auto simp: um_pdu_header_eq hdr_len_fixed)
  show ?thesis
  proof (cases "li_chain m 0 128")
    case None
    then have "um_read_li m [] sz = None" using um_read_li_None [of m "[]" sz] by simp
    then show ?thesis using True e hd None by (simp add: um_pdu_parts_def rlc_um_read_length_indicators_def Let_def)
  next
    case (Some lis)
    then have "rlc_um_read_length_indicators m m sz = Some (if 0 < sz - sum_list lis - int (li_octets (length lis)) then 0 else -1,
        mem_at m (li_octets (length lis)), lis, sz - sum_list lis - int (li_octets (length lis)))"
      using um_read_li_eq [of m "[]" lis sz, OF _ assms(3) _ refl] assms(2) by (simp add: rlc_um_read_length_indicators_def li_octets_def)
    then show ?thesis using True e hd Some by (simp add: um_pdu_parts_def Let_def)
  qed
qed

lemma um_pdu_parts_fits:
  "um_pdu_parts r tb = Some p \<Longrightarrow> int (um_fixed_len (rx_sn_length r)) \<le> tb_size tb \<Longrightarrow> tb_size tb \<le> 65535 \<Longrightarrow> pdu_fits (rx_sn_length r) tb"
  by (auto simp: um_pdu_parts_def pdu_fits_def Let_def split: if_splits option.splits)

definition um_start_state :: "int \<Rightarrow> rlc_um_entity \<Rightarrow> asm \<times> bool" where
  "um_start_state sn r =
     (if crem (last_reassemblied_sn r + 1) (rx_sn_modulo r) \<noteq> sn then ([], snd (um_asm r)) else um_asm r,
      reassembly_missing_sn_detected r \<noteq> 0)"

lemma um_pdu_start_state:
  assumes "asm_ok r"
  shows "um_state (um_pdu_start sn r) = um_start_state sn r" "asm_ok (um_pdu_start sn r)"
    "sdu_max (um_pdu_start sn r) = sdu_max r" "um_pdu_header (um_pdu_start sn r) tb = um_pdu_header r tb"
proof -
  have "reassembly_missing_sn_detected (rlc_um_clear_rx_sdu r) = reassembly_missing_sn_detected r"
    "rx_sn_length (rlc_um_clear_rx_sdu r) = rx_sn_length r" by (simp_all add: rlc_um_clear_rx_sdu_def)
  then show "um_state (um_pdu_start sn r) = um_start_state sn r" "asm_ok (um_pdu_start sn r)"
    "sdu_max (um_pdu_start sn r) = sdu_max r" "um_pdu_header (um_pdu_start sn r) tb = um_pdu_header r tb"
    using assms by (simp_all add: um_pdu_start_def um_start_state_def um_pdu_header_def)
qed

lemma li_refines:
  assumes "asm_ok r" "alloc_total alloc" "fi \<le> 3" "0 \<le> sz" "sz \<le> 65535" "rlc_um_read_length_indicators m m sz = Some (rc, m', lis, sz')"
  shows "um_state (um_reassemble_li alloc r tb fi (rc, m', lis, sz'))
      = (if rc = 0 then asm_pdu (sdu_max r) fi (segs_of m' lis sz') (um_state r) else (um_asm r, True))"
    "asm_ok (um_reassemble_li alloc r tb fi (rc, m', lis, sz'))"
proof -
  have rd: "um_read_li m [] sz = Some (rc, lis, sz')" using assms(6) by (auto simp: rlc_um_read_length_indicators_def)
  then obtain new where "li_chain m 0 128 = Some new" using um_read_li_None [of m "[]" sz] by auto
  then have rc: "rc = 0 \<or> rc = -1" using um_read_li_eq [of m "[]" new sz, OF _ assms(5) _ refl] rd assms(4) by (auto split: if_splits)
  have ok: "lis \<noteq> []" "0 < sz'" if "rc = 0" using um_read_li_ok [of m "[]" sz lis sz'] rd that assms(4,5) by auto
  note f = li_first_refines [OF assms(1,2), of fi sz' m' lis] and c = li_cont_refines [OF assms(1,2), of fi sz' lis m']
  show "um_state (um_reassemble_li alloc r tb fi (rc, m', lis, sz'))
      = (if rc = 0 then asm_pdu (sdu_max r) fi (segs_of m' lis sz') (um_state r) else (um_asm r, True))"
    using rc ok f(1) c(1) fi_cases [OF assms(3)] by (cases "rc = 0"; cases "fi = 0 \<or> fi = 1") (auto simp: um_reassemble_li_def)
  show "asm_ok (um_reassemble_li alloc r tb fi (rc, m', lis, sz'))"
    using rc ok f(2) c(2) fi_cases [OF assms(3)] assms(1) by (cases "rc = 0"; cases "fi = 0 \<or> fi = 1") (auto simp: um_reassemble_li_def)
qed

lemma um_reassembly_pdu_refines:
  assumes "asm_ok r" "alloc_total alloc" "pdu_fits (rx_sn_length r) tb"
  shows "\<exists>r'. um_reassembly_pdu alloc sn tb r = Some r' \<and> asm_ok r' \<and> um_state r' =
      (case um_pdu_parts r tb of
         Some (fi, segs) \<Rightarrow> asm_pdu (sdu_max r) fi segs (um_start_state sn r)
       | None \<Rightarrow> (fst (um_start_state sn r), True))"
proof -
  obtain e fi sz m where h: "um_pdu_header r tb = (e, fi, sz, m)" by (metis prod_cases4)
  note st = um_pdu_start_state [OF assms(1)]
  have sz: "hdr_len r \<le> tb_size tb" "tb_size tb \<le> 65535" using assms(3) by (simp_all add: pdu_fits_def hdr_len_fixed)
  have ok: "0 \<le> sz" "fi \<le> 3" using um_pdu_header_ok [OF sz(1) h] by auto
  have sz6: "sz \<le> 65535" using h sz(2) by (auto simp: um_pdu_header_def Let_def split: if_splits)
  note parts = um_pdu_parts_read [OF h ok(1) sz6]
  obtain li where li: "e \<noteq> 0 \<Longrightarrow> rlc_um_read_length_indicators m m sz = Some li"
    and eq: "um_reassembly_pdu alloc sn tb r = Some
      (let r3 = (if e = 0 then um_reassemble_no_li alloc (um_pdu_start sn r) tb fi m sz
                 else um_reassemble_li alloc (um_pdu_start sn r) tb fi li) in
       r3\<lparr>dar_buffer := (dar_buffer r)(sn := None)\<rparr>)"
    using um_reassembly_pdu_ok [OF assms(3), of sn e fi sz m alloc] h st(4) by metis
  have fst: "um_asm (um_pdu_start sn r) = fst (um_start_state sn r)" using st(1) [of sn] by (metis fst_conv)
  show ?thesis
  proof (cases "e = 0")
    case True
    then show ?thesis using eq parts no_li_refines [OF st(2) assms(2) ok(2), of sn tb m sz] st(1,3) by (simp add: Let_def)
  next
    case False
    obtain rc m' lis sz' where l: "li = (rc, m', lis, sz')" by (metis prod_cases4)
    then have rd: "rlc_um_read_length_indicators m m sz = Some (rc, m', lis, sz')" using li False by simp
    then show ?thesis using False eq parts l li_refines [OF st(2) assms(2) ok(2,1) sz6 rd, of sn tb] st(1) [of sn] st(3) fst
      by (simp add: Let_def)
  qed
qed

lemma um_reassembly_at_refines:
  assumes "asm_ok r" "alloc_total alloc"
    and "\<And>tb. dar_buffer r sn = Some tb \<Longrightarrow> pdu_fits (rx_sn_length r) tb"
  shows "um_state (um_reassembled alloc sn r) =
      (case dar_buffer r sn of
         None \<Rightarrow> (([], snd (um_asm r)), True)
       | Some tb \<Rightarrow> (case um_pdu_parts r tb of
           Some (fi, segs) \<Rightarrow> asm_pdu (sdu_max r) fi segs (um_start_state sn r)
         | None \<Rightarrow> (fst (um_start_state sn r), True)))"
    "asm_ok (um_reassembled alloc sn r)"
proof -
  have 1: "um_asm (r\<lparr>last_reassemblied_missing_sn := a\<rparr>) = um_asm r" for a
    by (simp add: um_asm_def um_pending_def split: option.split)
  have 2: "reassembly_missing_sn_detected (rlc_um_clear_rx_sdu x) = reassembly_missing_sn_detected x" for x
    by (simp add: rlc_um_clear_rx_sdu_def)
  have "um_state (um_reassembled alloc sn r) =
      (case dar_buffer r sn of
         None \<Rightarrow> (([], snd (um_asm r)), True)
       | Some tb \<Rightarrow> (case um_pdu_parts r tb of
           Some (fi, segs) \<Rightarrow> asm_pdu (sdu_max r) fi segs (um_start_state sn r)
         | None \<Rightarrow> (fst (um_start_state sn r), True))) \<and> asm_ok (um_reassembled alloc sn r)"
  proof (cases "dar_buffer r sn")
    case None
    then show ?thesis using assms(1) by (simp add: um_reassembled_def um_reassembly_at_def um_reassembly_missing_def 1 2)
  next
    case (Some tb)
    then show ?thesis using um_reassembly_pdu_refines [OF assms(1,2) assms(3) [OF Some], of sn]
      by (auto simp: um_reassembled_def um_reassembly_at_def)
  qed
  then show "um_state (um_reassembled alloc sn r) =
      (case dar_buffer r sn of
         None \<Rightarrow> (([], snd (um_asm r)), True)
       | Some tb \<Rightarrow> (case um_pdu_parts r tb of
           Some (fi, segs) \<Rightarrow> asm_pdu (sdu_max r) fi segs (um_start_state sn r)
         | None \<Rightarrow> (fst (um_start_state sn r), True)))"
    "asm_ok (um_reassembled alloc sn r)" by blast+
qed

text \<open>
  C27. One step of \<open>rlc_um_try_reassembly\<close> implements the abstract assembler: with memory available, and for a stored PDU
  that is not shorter than its fixed header and carries at most 128 length indicators, the step returns; a missing PDU
  discards the pending SDU and is remembered; a PDU whose indicators leave nothing for the last part is dropped and treated
  as missing; any other PDU is cut into its SDU parts as the format of the header says, a part completes or continues the
  pending SDU as the framing information says, complete SDUs are delivered in order and in one piece, and the first part is
  dropped when it continues an SDU that lost a PDU. With more than 128 indicators the step has no result: the reader
  writes behind its array.
\<close>
theorem rlc_um_reassembly_step_refines:
  assumes "asm_ok r" "alloc_total alloc"
    and "\<forall>tb. dar_buffer r sn = Some tb \<longrightarrow> int (um_fixed_len (rx_sn_length r)) \<le> tb_size tb \<and> tb_size tb \<le> 65535"
  shows "if \<exists>tb. dar_buffer r sn = Some tb \<and> um_pdu_e (rx_sn_length r) (data_ptr tb)
            \<and> li_chain (mem_at (data_ptr tb) (um_fixed_len (rx_sn_length r))) 0 128 = None
         then um_reassembly_at alloc sn r = None
         else \<exists>r'. um_reassembly_at alloc sn r = Some r' \<and> asm_ok r' \<and> um_state r' =
      (case dar_buffer r sn of
         None \<Rightarrow> (([], snd (um_asm r)), True)
       | Some tb \<Rightarrow> (case um_pdu_parts r tb of
           Some (fi, segs) \<Rightarrow> asm_pdu (sdu_max r) fi segs (um_start_state sn r)
         | None \<Rightarrow> (fst (um_start_state sn r), True)))"
proof (cases "\<exists>tb. dar_buffer r sn = Some tb \<and> um_pdu_e (rx_sn_length r) (data_ptr tb)
            \<and> li_chain (mem_at (data_ptr tb) (um_fixed_len (rx_sn_length r))) 0 128 = None")
  case True
  then obtain tb where tb: "dar_buffer r sn = Some tb" "um_pdu_e (rx_sn_length r) (data_ptr tb)"
    "li_chain (mem_at (data_ptr tb) (um_fixed_len (rx_sn_length r))) 0 128 = None" by blast
  have l: "rx_sn_length (um_pdu_start sn r) = rx_sn_length r" by (simp add: um_pdu_start_def rlc_um_clear_rx_sdu_def)
  obtain fi sz where h: "um_pdu_header (um_pdu_start sn r) tb = (1, fi, sz, mem_at (data_ptr tb) (um_fixed_len (rx_sn_length r)))"
    using tb(2) by (simp add: um_pdu_header_eq l)
  have "hdr_len r \<le> tb_size tb" using assms(3) tb(1) by (simp add: hdr_len_fixed)
  then have ok: "0 \<le> sz" "\<not> fi > 3" using um_pdu_header_ok [of "um_pdu_start sn r" tb, OF _ h] by (auto simp: not_less)
  have "rlc_um_read_length_indicators m (mem_at (data_ptr tb) (um_fixed_len (rx_sn_length r))) sz = None" for m
    using um_read_li_None [of _ "[]" sz] tb(3) by (simp add: rlc_um_read_length_indicators_def)
  then have "um_reassembly_at alloc sn r = None"
    using tb(1) h ok by (simp add: um_reassembly_at_def um_reassembly_pdu_def Let_def flip: um_pdu_start_def)
  then show ?thesis using True by simp
next
  case False
  then have f: "pdu_fits (rx_sn_length r) tb" if "dar_buffer r sn = Some tb" for tb using assms(3) that by (auto simp: pdu_fits_def)
  show ?thesis using um_reassembly_at_refines [OF assms(1,2) f] dar_buffer_at(1) [OF f] False by (simp only: if_False) blast
qed

definition um_one_pdu_entity :: rlc_um_entity where
  "um_one_pdu_entity = (rlc_um_configure rlc_um_zero 35 5 5 0)
     \<lparr>dar_buffer := (\<lambda>i. None)(0 := Some \<lparr>data_ptr = (\<lambda>i. [0x00, 0xAB] ! i), tb_size = 2\<rparr>)\<rparr>"

theorem rlc_um_reassembly_step_refines_witness:
  "map_option um_state (um_reassembly_at (\<lambda>n. Some (\<lambda>i. 0)) 0 um_one_pdu_entity) = Some (([], [[0xAB]]), False)"
proof -
  let ?r = um_one_pdu_entity
  note defs = um_one_pdu_entity_def rlc_um_configure_def rlc_um_zero_def rlc_um_init_timer_reordering_def
    rlc_um_reset_state_variables_def
  have "asm_ok ?r" "alloc_total (\<lambda>n. Some (\<lambda>i. 0))"
    "\<forall>tb. dar_buffer ?r 0 = Some tb \<longrightarrow> int (um_fixed_len (rx_sn_length ?r)) \<le> tb_size tb \<and> tb_size tb \<le> 65535"
    by (simp_all add: defs asm_ok_def sdu_max_def alloc_total_def um_fixed_len_def)
  from rlc_um_reassembly_step_refines [OF this] show ?thesis
    by (auto simp: defs um_pdu_parts_def um_pdu_e_def um_pdu_fi_def um_fixed_len_def um_start_state_def um_asm_def um_pending_def
        asm_pdu_def asm_add_def asm_send_def sdu_max_def to_u16_def mem_read_def mem_at_def)
qed

end
