(* ===== verification/Rlc_Um_Dar.thy ===== *)
theory Rlc_Um_Dar
  imports Rlc_Um_Window Rlc_Um_Reassembly
begin

text \<open>
  Duplicate detection and reordering in the RLC UM receiver (\<open>rlc_um_dar.c\<close>,
  \<open>rlc_um_receiver.c\<close>): the reassembly loop, the reordering timer, the reception of a PDU and of a
  list of transport blocks. A loop of the source that is bounded only by the state is modelled
  with fuel, the number of sequence numbers, and returns \<open>None\<close> when the fuel runs out (or when a PDU
  carries more length indicators than \<open>li_array\<close> has entries); the
  receiver invariant is shown to make the fuel sufficient and to be preserved by every operation.
\<close>

section \<open>Operations\<close>

fun um_reassembly_loop :: "allocator \<Rightarrow> nat \<Rightarrow> int \<Rightarrow> int \<Rightarrow> rlc_um_entity \<Rightarrow> rlc_um_entity option" where
  "um_reassembly_loop alloc 0 sn end_sn r = None"
| "um_reassembly_loop alloc (Suc fuel) sn end_sn r =
     (case um_reassembly_at alloc sn r of
        None \<Rightarrow> None
      | Some r1 \<Rightarrow>
          let sn' = to_s16 (crem (sn + 1) (rx_sn_modulo r1)) in
          if sn' = vr_uh r1 \<or> sn' = end_sn then Some r1
          else um_reassembly_loop alloc fuel sn' end_sn r1)"

definition rlc_um_try_reassembly :: "allocator \<Rightarrow> rlc_um_entity \<Rightarrow> int \<Rightarrow> int \<Rightarrow> rlc_um_entity option" where
  "rlc_um_try_reassembly alloc r start_snP end_snP =
     (let end_sn = (if end_snP < 0 then to_s16 (end_snP + rx_sn_modulo r) else end_snP);
          start_sn = (if start_snP < 0 then to_s16 (start_snP + rx_sn_modulo r) else start_snP) in
      if start_sn = end_sn then Some r
      else um_reassembly_loop alloc (nat (rx_sn_modulo r)) start_sn end_sn r)"

definition rlc_um_stop_and_reset_timer_reordering :: "rlc_um_entity \<Rightarrow> rlc_um_entity" where
  "rlc_um_stop_and_reset_timer_reordering r =
     r\<lparr>t_reordering := (t_reordering r)\<lparr>running := False, ms_time_out := 0, ms_start := 0, timed_out := False\<rparr>\<rparr>"

definition rlc_um_start_timer_reordering :: "protocol_ctxt \<Rightarrow> rlc_um_entity \<Rightarrow> rlc_um_entity" where
  "rlc_um_start_timer_reordering ctxt r =
     (let t = (t_reordering r)\<lparr>timed_out := False\<rparr> in
      if ms_duration t > 0
      then r\<lparr>t_reordering := t\<lparr>running := True,
               ms_time_out := to_u32 (PROTOCOL_CTXT_TIME_MILLI_SECONDS ctxt + ms_duration t),
               ms_start := PROTOCOL_CTXT_TIME_MILLI_SECONDS ctxt\<rparr>\<rparr>
      else r\<lparr>t_reordering := t\<rparr>)"

definition rlc_um_get_pdu_from_dar_buffer :: "rlc_um_entity \<Rightarrow> int \<Rightarrow> mac_tb_ind option" where
  "rlc_um_get_pdu_from_dar_buffer r snP = dar_buffer r snP"

definition rlc_um_remove_pdu_from_dar_buffer :: "rlc_um_entity \<Rightarrow> int \<Rightarrow> mac_tb_ind option \<times> rlc_um_entity" where
  "rlc_um_remove_pdu_from_dar_buffer r snP =
     (dar_buffer r snP, r\<lparr>dar_buffer := (dar_buffer r)(snP := None)\<rparr>)"

definition rlc_um_store_pdu_in_dar_buffer :: "rlc_um_entity \<Rightarrow> mac_tb_ind option \<Rightarrow> int \<Rightarrow> rlc_um_entity" where
  "rlc_um_store_pdu_in_dar_buffer r pdu snP = r\<lparr>dar_buffer := (dar_buffer r)(snP := pdu)\<rparr>"

definition um_timer_expired :: "protocol_ctxt \<Rightarrow> rlc_um_timer \<Rightarrow> bool" where
  "um_timer_expired ctxt t \<longleftrightarrow>
     (let now = PROTOCOL_CTXT_TIME_MILLI_SECONDS ctxt in
      (ms_start t < ms_time_out t \<and> (now \<ge> ms_time_out t \<or> now < ms_start t))
      \<or> (ms_start t > ms_time_out t \<and> now < ms_start t \<and> now \<ge> ms_time_out t))"

text \<open>The loops that advance VR(UR) over received PDUs, on timer expiry and on reception.\<close>

fun um_advance_vr_ur :: "nat \<Rightarrow> rlc_um_entity \<Rightarrow> rlc_um_entity option" where
  "um_advance_vr_ur 0 r = None"
| "um_advance_vr_ur (Suc fuel) r =
     (if rlc_um_get_pdu_from_dar_buffer r (vr_ur r) \<noteq> None
      then um_advance_vr_ur fuel (r\<lparr>vr_ur := to_u16 (crem (vr_ur r + 1) (rx_sn_modulo r))\<rparr>)
      else Some r)"

fun um_advance_vr_ur_to_uh :: "nat \<Rightarrow> rlc_um_entity \<Rightarrow> rlc_um_entity option" where
  "um_advance_vr_ur_to_uh 0 r = None"
| "um_advance_vr_ur_to_uh (Suc fuel) r =
     (let r1 = r\<lparr>vr_ur := to_u16 (crem (vr_ur r + 1) (rx_sn_modulo r))\<rparr> in
      if rlc_um_get_pdu_from_dar_buffer r1 (vr_ur r1) \<noteq> None \<and> vr_ur r1 \<noteq> vr_uh r1
      then um_advance_vr_ur_to_uh fuel r1
      else Some r1)"

definition um_restart_timer_or_stop :: "protocol_ctxt \<Rightarrow> rlc_um_entity \<Rightarrow> rlc_um_entity" where
  "um_restart_timer_or_stop ctxt r =
     (if rlc_um_in_window r (vr_ur r) (vr_uh r) (vr_uh r) = 2
      then let r1 = rlc_um_start_timer_reordering ctxt r in r1\<lparr>vr_ux := vr_uh r1\<rparr>
      else rlc_um_stop_and_reset_timer_reordering r)"

definition rlc_um_check_timer_dar_time_out ::
  "allocator \<Rightarrow> protocol_ctxt \<Rightarrow> bool \<Rightarrow> rlc_um_entity \<Rightarrow> rlc_um_entity option" where
  "rlc_um_check_timer_dar_time_out alloc ctxt trylock_ok r =
     (if running (t_reordering r) \<and> um_timer_expired ctxt (t_reordering r) then
        let r1 = r\<lparr>stat_timer_reordering_timed_out := to_u32 (stat_timer_reordering_timed_out r + 1)\<rparr> in
        if trylock_ok then
          let old_vr_ur = vr_ur r1;
              r2 = r1\<lparr>vr_ur := vr_ux r1\<rparr> in
          case um_advance_vr_ur (Suc (nat (rx_sn_modulo r2))) r2 of
            None \<Rightarrow> None
          | Some r3 \<Rightarrow>
              (case rlc_um_try_reassembly alloc r3 (to_s16 old_vr_ur) (to_s16 (vr_ur r3)) of
                 None \<Rightarrow> None
               | Some r4 \<Rightarrow> Some (um_restart_timer_or_stop ctxt r4))
        else Some r1
      else Some r)"

text \<open>Reception of one PDU, in the order of \<open>rlc_um_receive_process_dar\<close>.\<close>

definition um_pdu_sn :: "rlc_um_entity \<Rightarrow> mem \<Rightarrow> int" where
  "um_pdu_sn r pdu =
     (if rx_sn_length r = 10 then push_bit 8 (uint (pdu 0 AND 0x03)) + uint (pdu 1)
      else if rx_sn_length r = 5 then uint (pdu 0 AND 0x1F)
      else -1)"

definition um_discard_out_of_window :: "rlc_um_entity \<Rightarrow> int \<Rightarrow> rlc_um_entity" where
  "um_discard_out_of_window r tb_sizeP =
     r\<lparr>stat_rx_data_pdu_out_of_window := to_u32 (stat_rx_data_pdu_out_of_window r + 1),
       stat_rx_data_bytes_out_of_window := to_u32 (stat_rx_data_bytes_out_of_window r + tb_sizeP)\<rparr>"

definition um_count_duplicate :: "rlc_um_entity \<Rightarrow> int \<Rightarrow> rlc_um_entity" where
  "um_count_duplicate r tb_sizeP =
     r\<lparr>stat_rx_data_pdus_duplicate := to_u32 (stat_rx_data_pdus_duplicate r + 1),
       stat_rx_data_bytes_duplicate := to_u32 (stat_rx_data_bytes_duplicate r + tb_sizeP)\<rparr>"

definition um_window_lower_edge :: "rlc_um_entity \<Rightarrow> int" where
  "um_window_lower_edge r =
     (let in_window = vr_uh r - rx_um_window_size r in
      if in_window < 0 then in_window + rx_sn_modulo r else in_window)"

definition um_window_update :: "allocator \<Rightarrow> rlc_um_entity \<Rightarrow> int \<Rightarrow> rlc_um_entity option" where
  "um_window_update alloc r sn =
     (if rlc_um_in_reordering_window r sn < 0 then
        let r1 = r\<lparr>vr_uh := to_u16 (crem (sn + 1) (rx_sn_modulo r))\<rparr>;
            in_window = um_window_lower_edge r1 in
        case (if rlc_um_in_reordering_window r1 (to_s16 (vr_ur r1)) \<noteq> 0
              then rlc_um_try_reassembly alloc r1 (to_s16 (vr_ur r1)) (to_s16 in_window)
              else Some r1) of
          None \<Rightarrow> None
        | Some r2 \<Rightarrow>
            Some (if rlc_um_in_reordering_window r2 (to_s16 (vr_ur r2)) < 0
                  then r2\<lparr>vr_ur := to_u16 in_window\<rparr> else r2)
      else Some r)"

definition um_deliver_in_sequence :: "allocator \<Rightarrow> rlc_um_entity \<Rightarrow> int \<Rightarrow> rlc_um_entity option" where
  "um_deliver_in_sequence alloc r sn =
     (if sn = vr_ur r \<and> rlc_um_get_pdu_from_dar_buffer r (vr_ur r) \<noteq> None then
        case um_advance_vr_ur_to_uh (nat (rx_sn_modulo r)) r of
          None \<Rightarrow> None
        | Some r1 \<Rightarrow> rlc_um_try_reassembly alloc r1 sn (to_s16 (vr_ur r1))
      else Some r)"

definition um_stop_if_ux_left_window :: "rlc_um_entity \<Rightarrow> rlc_um_entity" where
  "um_stop_if_ux_left_window r =
     (if running (t_reordering r) \<and> vr_uh r \<noteq> vr_ux r
         \<and> rlc_um_in_reordering_window r (to_s16 (vr_ux r)) < 0
      then rlc_um_stop_and_reset_timer_reordering r else r)"

definition um_stop_if_ux_reached :: "rlc_um_entity \<Rightarrow> rlc_um_entity" where
  "um_stop_if_ux_reached r =
     (if running (t_reordering r) \<and>
         (let in_window = rlc_um_in_window r (vr_ur r) (vr_ux r) (vr_uh r) in
          in_window = -2 \<or> in_window = 1)
      then rlc_um_stop_and_reset_timer_reordering r else r)"

definition um_start_if_gap :: "protocol_ctxt \<Rightarrow> rlc_um_entity \<Rightarrow> rlc_um_entity" where
  "um_start_if_gap ctxt r =
     (if \<not> running (t_reordering r) \<and> rlc_um_in_window r (vr_ur r) (vr_uh r) (vr_uh r) = 2
      then let r1 = rlc_um_start_timer_reordering ctxt r in r1\<lparr>vr_ux := vr_uh r1\<rparr>
      else r)"

definition um_update_timer :: "protocol_ctxt \<Rightarrow> rlc_um_entity \<Rightarrow> rlc_um_entity" where
  "um_update_timer ctxt r = um_start_if_gap ctxt (um_stop_if_ux_reached (um_stop_if_ux_left_window r))"

definition rlc_um_receive_process_dar ::
  "allocator \<Rightarrow> protocol_ctxt \<Rightarrow> rlc_um_entity \<Rightarrow> mac_tb_ind \<Rightarrow> int \<Rightarrow> rlc_um_entity option" where
  "rlc_um_receive_process_dar alloc ctxt r pdu tb_sizeP =
     (let sn = um_pdu_sn r (data_ptr pdu);
          in_window = rlc_um_in_window r (vr_uh r - rx_um_window_size r) sn (vr_ur r) in
      if in_window = 1 \<or> in_window = 0 then Some (um_discard_out_of_window r tb_sizeP)
      else if rlc_um_get_pdu_from_dar_buffer r sn \<noteq> None
              \<and> rlc_um_in_window r (vr_ur r) sn (vr_uh r) = 0
      then Some (um_count_duplicate r tb_sizeP)
      else
        let r1 = (if rlc_um_get_pdu_from_dar_buffer r sn \<noteq> None
                  then snd (rlc_um_remove_pdu_from_dar_buffer (um_count_duplicate r tb_sizeP) sn) else r);
            r2 = rlc_um_store_pdu_in_dar_buffer r1 (Some pdu) sn in
        case um_window_update alloc r2 sn of
          None \<Rightarrow> None
        | Some r3 \<Rightarrow>
            (case um_deliver_in_sequence alloc r3 sn of
               None \<Rightarrow> None
             | Some r4 \<Rightarrow> Some (um_update_timer ctxt r4)))"

fun rlc_um_receive ::
  "allocator \<Rightarrow> protocol_ctxt \<Rightarrow> rlc_um_entity \<Rightarrow> mac_tb_ind list \<Rightarrow> rlc_um_entity option" where
  "rlc_um_receive alloc ctxt r [] = Some r"
| "rlc_um_receive alloc ctxt r (tb # tbs) =
     (let tb_size_in_bytes = to_u16 (tb_size tb);
          r1 = r\<lparr>stat_rx_data_bytes := to_u32 (stat_rx_data_bytes r + tb_size_in_bytes),
                 stat_rx_data_pdu := to_u32 (stat_rx_data_pdu r + 1)\<rparr> in
      if tb_size_in_bytes > 0 then
        (case rlc_um_receive_process_dar alloc ctxt r1 tb tb_size_in_bytes of
           None \<Rightarrow> None
         | Some r2 \<Rightarrow> rlc_um_receive alloc ctxt r2 tbs)
      else rlc_um_receive alloc ctxt r1 tbs)"

section \<open>The reassembly loop\<close>

definition sn_range :: "int \<Rightarrow> int \<Rightarrow> nat \<Rightarrow> int list" where
  "sn_range M sn k = map (\<lambda>j. (sn + int j) mod M) [0..<k]"

lemma sn_range_Suc: "sn_range M sn (Suc k) = sn mod M # sn_range M (sn + 1) k"
  by (simp add: sn_range_def map_upt_Suc add_ac del: upt_Suc)

definition pdus_sized :: "rlc_um_entity \<Rightarrow> bool" where
  "pdus_sized r \<longleftrightarrow> (\<forall>x tb. dar_buffer r x = Some tb \<longrightarrow> pdu_fits (rx_sn_length r) tb)"

lemma reassembled_sized:
  assumes "pdus_sized r"
  shows "um_reassembly_at alloc y r = Some (um_reassembled alloc y r)" "dar_buffer (um_reassembled alloc y r) = (dar_buffer r)(y := None)"
    "pdus_sized (um_reassembled alloc y r)"
proof -
  have f: "pdu_fits (rx_sn_length r) tb" if "dar_buffer r y = Some tb" for tb using assms that by (simp add: pdus_sized_def)
  show "um_reassembly_at alloc y r = Some (um_reassembled alloc y r)" by (rule dar_buffer_at(1) [OF f])
  show d: "dar_buffer (um_reassembled alloc y r) = (dar_buffer r)(y := None)" by (rule dar_buffer_at(2) [OF f])
  show "pdus_sized (um_reassembled alloc y r)"
    using assms rx_ctl_eqD(5) [OF rx_ctl_at] by (auto simp: pdus_sized_def d)
qed

lemma dar_buffer_fold:
  assumes "pdus_sized r"
  shows "dar_buffer (fold (um_reassembled alloc) xs r) = (\<lambda>x. if x \<in> set xs then None else dar_buffer r x)"
  using assms
proof (induction xs arbitrary: r)
  case Nil
  then show ?case by simp
next
  case (Cons y xs)
  from Cons.IH [OF reassembled_sized(3) [OF Cons.prems, of alloc y]] show ?case
    by (auto simp: reassembled_sized(2) [OF Cons.prems] fun_eq_iff)
qed

lemma fold_at_frame [simp]: "rx_ctl (fold (um_reassembled alloc) xs r) = rx_ctl r"
  by (induction xs arbitrary: r) simp_all

lemma um_reassembly_loop_eq:
  assumes "0 < M" "M \<le> 1024" "rx_sn_modulo r = M" "0 \<le> sn" "sn < M" "0 < k" "k \<le> fuel"
    and "(sn + int k) mod M = e" "\<forall>j. 0 < j \<and> j < k \<longrightarrow> (sn + int j) mod M \<noteq> e \<and> (sn + int j) mod M \<noteq> vr_uh r" "pdus_sized r"
  shows "um_reassembly_loop alloc fuel sn e r = Some (fold (um_reassembled alloc) (sn_range M sn k) r)"
  using assms(3-)
proof (induction fuel arbitrary: sn k r)
  case 0
  then show ?case by simp
next
  case (Suc fuel)
  let ?r1 = "um_reassembled alloc sn r" and ?sn = "(sn + 1) mod M"
  note at = reassembled_sized(1,3) [OF Suc.prems(8), of alloc sn]
  have r1: "rx_sn_modulo ?r1 = M" "vr_uh ?r1 = vr_uh r"
    using Suc.prems(1) rx_ctl_eqD [OF rx_ctl_at] by auto
  have sn: "to_s16 (crem (sn + 1) (rx_sn_modulo ?r1)) = ?sn"
  proof -
    have "0 \<le> ?sn" "?sn < M" using assms(1) by auto
    then have "to_s16 ?sn = ?sn" using assms(2) by (intro to_s16_id) linarith+
    then show ?thesis using r1 Suc.prems(2) assms(1) by simp
  qed
  show ?case
  proof (cases "k = 1")
    case True
    then show ?thesis using Suc.prems sn at by (simp add: sn_range_def)
  next
    case False
    then obtain k' where k: "k = Suc k'" "0 < k'" using Suc.prems(4) by (cases k) auto
    have shift: "(?sn + int j) mod M = (sn + int (Suc j)) mod M" for j by (simp add: mod_simps add_ac)
    have "?sn \<noteq> e" "?sn \<noteq> vr_uh r" using Suc.prems(7) k by (auto dest: spec [of _ 1])
    moreover have "um_reassembly_loop alloc fuel ?sn e ?r1 = Some (fold (um_reassembled alloc) (sn_range M ?sn k') ?r1)"
    proof (rule Suc.IH)
      show "(?sn + int k') mod M = e" using Suc.prems(6) k shift by simp
      show "\<forall>j. 0 < j \<and> j < k' \<longrightarrow> (?sn + int j) mod M \<noteq> e \<and> (?sn + int j) mod M \<noteq> vr_uh ?r1"
        unfolding shift r1(2) using Suc.prems(7) k(1) by auto
    qed (use assms(1) r1 k at Suc.prems in auto)
    moreover have "sn_range M ?sn k' = sn_range M (sn + 1) k'"
      by (simp add: sn_range_def mod_simps)
    ultimately show ?thesis using sn r1 k at Suc.prems(2,3) by (simp add: sn_range_Suc)
  qed
qed

text \<open>Offsets from an arbitrary base; the reordering window is the base \<open>VR(UH) - UM_Window_Size\<close>.\<close>

definition boff :: "int \<Rightarrow> int \<Rightarrow> int \<Rightarrow> int" where
  "boff M base x = (x - base) mod M"

lemma win_off_boff: "win_off r x = boff (rx_sn_modulo r) (vr_uh r - rx_um_window_size r) x"
  by (simp add: win_off_def boff_def)

lemma boff_inj: "0 < M \<Longrightarrow> 0 \<le> x \<Longrightarrow> x < M \<Longrightarrow> 0 \<le> y \<Longrightarrow> y < M \<Longrightarrow> boff M base x = boff M base y \<Longrightarrow> x = y"
proof -
  assume a: "0 < M" "0 \<le> x" "x < M" "0 \<le> y" "y < M" "boff M base x = boff M base y"
  then have "(x - base + base) mod M = (y - base + base) mod M"
    unfolding boff_def by (metis mod_add_left_eq)
  then show ?thesis using a by simp
qed

lemma boff_add:
  assumes "0 < M" "0 \<le> j" "boff M base x + j < M"
  shows "boff M base ((x + j) mod M) = boff M base x + j"
proof -
  have "0 \<le> boff M base x" using assms(1) by (simp add: boff_def)
  then have "(boff M base x + j) mod M = boff M base x + j" using assms by simp
  then show ?thesis by (simp add: boff_def mod_simps algebra_simps)
qed

lemma boff_range: "0 < M \<Longrightarrow> 0 \<le> boff M base x" "0 < M \<Longrightarrow> boff M base x < M"
  by (simp_all add: boff_def)

lemma set_sn_range:
  assumes "0 < M" "boff M base sn + int k \<le> M"
  shows "set (sn_range M sn k) = {x. 0 \<le> x \<and> x < M \<and> boff M base sn \<le> boff M base x \<and> boff M base x < boff M base sn + int k}"
proof (intro set_eqI iffI)
  fix x assume "x \<in> set (sn_range M sn k)"
  then obtain j where "j < k" "x = (sn + int j) mod M" by (auto simp: sn_range_def)
  then show "x \<in> {x. 0 \<le> x \<and> x < M \<and> boff M base sn \<le> boff M base x \<and> boff M base x < boff M base sn + int k}"
    using boff_add [of M "int j" base sn] assms by auto
next
  fix x assume "x \<in> {x. 0 \<le> x \<and> x < M \<and> boff M base sn \<le> boff M base x \<and> boff M base x < boff M base sn + int k}"
  then have x: "0 \<le> x" "x < M" "boff M base sn \<le> boff M base x" "boff M base x < boff M base sn + int k" by auto
  define j where "j = nat (boff M base x - boff M base sn)"
  have j: "j < k" "int j = boff M base x - boff M base sn" using x by (auto simp: j_def)
  have "boff M base ((sn + int j) mod M) = boff M base x"
    using boff_add [of M "int j" base sn] j assms x boff_range [OF assms(1), of base x] by simp
  then have "(sn + int j) mod M = x" using boff_inj [OF assms(1)] x assms(1) by simp
  then show "x \<in> set (sn_range M sn k)" using j(1) by (auto simp: sn_range_def)
qed

lemma try_reassembly_spec:
  assumes M: "0 < M" "M \<le> 1024" "rx_sn_modulo r = M" and sized: "pdus_sized r" and sn: "0 \<le> sn" "sn < M" and e: "0 \<le> e" "e < M"
    and ab: "boff M base sn < boff M base e"
    and uh: "\<And>x. 0 \<le> x \<Longrightarrow> x < M \<Longrightarrow> boff M base sn < boff M base x \<Longrightarrow> boff M base x < boff M base e \<Longrightarrow> x \<noteq> vr_uh r"
  defines "k \<equiv> nat (boff M base e - boff M base sn)"
  shows "rlc_um_try_reassembly alloc r sn e = Some (fold (um_reassembled alloc) (sn_range M sn k) r)"
    "set (sn_range M sn k) = {x. 0 \<le> x \<and> x < M \<and> boff M base sn \<le> boff M base x \<and> boff M base x < boff M base e}"
    "(sn + int k) mod M = e"
proof -
  have k: "0 < k" "int k = boff M base e - boff M base sn" "int k \<le> M"
    using ab boff_range [OF M(1), of base sn] boff_range [OF M(1), of base e] by (auto simp: k_def)
  have off: "boff M base ((sn + int j) mod M) = boff M base sn + int j" if "j \<le> k" for j
    using boff_add [OF M(1), of "int j" base sn] that k boff_range [OF M(1), of base e] by simp
  show end1: "(sn + int k) mod M = e"
    using boff_inj [OF M(1)] off [of k] e M(1) k(2) by simp
  have "(sn + int j) mod M \<noteq> e \<and> (sn + int j) mod M \<noteq> vr_uh r" if "0 < j" "j < k" for j
  proof -
    let ?x = "(sn + int j) mod M"
    have "boff M base sn < boff M base ?x" "boff M base ?x < boff M base e" using off [of j] that k by auto
    then show ?thesis using uh [of ?x] M(1) by auto
  qed
  then have "um_reassembly_loop alloc (nat M) sn e r = Some (fold (um_reassembled alloc) (sn_range M sn k) r)"
    using k sn M sized end1 by (intro um_reassembly_loop_eq) auto
  moreover have "sn \<noteq> e" using ab by auto
  ultimately show "rlc_um_try_reassembly alloc r sn e = Some (fold (um_reassembled alloc) (sn_range M sn k) r)"
    using sn e M(3) by (simp add: rlc_um_try_reassembly_def)
  show "set (sn_range M sn k) = {x. 0 \<le> x \<and> x < M \<and> boff M base sn \<le> boff M base x \<and> boff M base x < boff M base e}"
  proof -
    have eq: "boff M base sn + int k = boff M base e" using k(2) by linarith
    then have "boff M base sn + int k \<le> M" using boff_range(2) [OF M(1), of base e] by linarith
    from set_sn_range [OF M(1) this] show ?thesis unfolding eq .
  qed
qed

section \<open>Consumption in sequence\<close>

text \<open>Reassembly does not look at VR(UR) and VR(UH).\<close>

definition set_vars :: "int \<Rightarrow> int \<Rightarrow> rlc_um_entity \<Rightarrow> rlc_um_entity" where
  "set_vars u h r = r\<lparr>vr_ur := u, vr_uh := h\<rparr>"

lemma set_vars_sel [simp]:
  "output_sdu_in_construction (set_vars u h r) = output_sdu_in_construction r"
  "output_sdu_size_to_write (set_vars u h r) = output_sdu_size_to_write r"
  "reassembly_missing_sn_detected (set_vars u h r) = reassembly_missing_sn_detected r"
  "last_reassemblied_sn (set_vars u h r) = last_reassemblied_sn r"
  "rx_sn_modulo (set_vars u h r) = rx_sn_modulo r"
  "dar_buffer (set_vars u h r) = dar_buffer r"
  "um_pdu_header (set_vars u h r) tb = um_pdu_header r tb"
  by (simp_all add: set_vars_def um_pdu_header_def)

lemma set_vars_upd:
  "(set_vars u h r)\<lparr>reassembly_missing_sn_detected := a\<rparr> = set_vars u h (r\<lparr>reassembly_missing_sn_detected := a\<rparr>)"
  "(set_vars u h r)\<lparr>last_reassemblied_sn := a\<rparr> = set_vars u h (r\<lparr>last_reassemblied_sn := a\<rparr>)"
  "(set_vars u h r)\<lparr>last_reassemblied_missing_sn := a\<rparr> = set_vars u h (r\<lparr>last_reassemblied_missing_sn := a\<rparr>)"
  "(set_vars u h r)\<lparr>dar_buffer := b\<rparr> = set_vars u h (r\<lparr>dar_buffer := b\<rparr>)"
  "(set_vars u h r)\<lparr>stat_rx_data_bytes_dropped := to_u32 (stat_rx_data_bytes_dropped (set_vars u h r) + c)\<rparr>
     = set_vars u h (r\<lparr>stat_rx_data_bytes_dropped := to_u32 (stat_rx_data_bytes_dropped r + c)\<rparr>)"
  "rlc_um_clear_rx_sdu (set_vars u h r) = set_vars u h (rlc_um_clear_rx_sdu r)"
  "um_drop_pdu (set_vars u h r) tb = set_vars u h (um_drop_pdu r tb)"
  by (simp_all add: set_vars_def rlc_um_clear_rx_sdu_def um_drop_pdu_def)

lemma set_vars_output:
  "(set_vars u h r)\<lparr>output_sdu_size_to_write := a\<rparr> = set_vars u h (r\<lparr>output_sdu_size_to_write := a\<rparr>)"
  "(set_vars u h r)\<lparr>output_sdu_in_construction := b\<rparr> = set_vars u h (r\<lparr>output_sdu_in_construction := b\<rparr>)"
  "um_get_output_block alloc (set_vars u h r) = set_vars u h (um_get_output_block alloc r)"
  "is_data_plane (set_vars u h r) = is_data_plane r"
  by (simp_all add: set_vars_def um_get_output_block_def)

lemma set_vars_reassembly:
  "rlc_um_reassembly alloc (set_vars u h r) m n = set_vars u h (rlc_um_reassembly alloc r m n)"
  by (cases "output_sdu_in_construction (um_get_output_block alloc r)")
     (simp_all add: rlc_um_reassembly_def set_vars_output Let_def)

lemma set_vars_send: "rlc_um_send_sdu (set_vars u h r) = set_vars u h (rlc_um_send_sdu r)"
proof (cases "output_sdu_in_construction r")
  case None
  then show ?thesis by (simp add: rlc_um_send_sdu_def)
next
  case (Some b)
  show ?thesis
    by (cases "output_sdu_size_to_write r > 0") (simp_all add: rlc_um_send_sdu_def Some, simp_all add: set_vars_def)
qed

lemma set_vars_lis:
  "um_deliver_lis alloc (set_vars u h r) m lis = map_prod (set_vars u h) id (um_deliver_lis alloc r m lis)"
  by (induction alloc r m lis rule: um_deliver_lis.induct) (simp_all add: set_vars_reassembly set_vars_send)

lemmas set_vars_simps = set_vars_upd set_vars_reassembly set_vars_send set_vars_lis

lemma set_vars_no_li:
  "um_reassemble_no_li alloc (set_vars u h r) tb fi m sz = set_vars u h (um_reassemble_no_li alloc r tb fi m sz)"
  by (simp add: um_reassemble_no_li_def set_vars_simps)

lemma set_vars_li_first:
  "um_reassemble_li_first alloc (set_vars u h r) fi m lis sz = set_vars u h (um_reassemble_li_first alloc r fi m lis sz)"
  by (simp add: um_reassemble_li_first_def set_vars_simps case_prod_beta Let_def)

lemma set_vars_li_cont:
  "um_reassemble_li_cont alloc (set_vars u h r) fi m lis sz = set_vars u h (um_reassemble_li_cont alloc r fi m lis sz)"
  by (simp add: um_reassemble_li_cont_def set_vars_simps case_prod_beta Let_def)

lemma set_vars_li:
  "um_reassemble_li alloc (set_vars u h r) tb fi li = set_vars u h (um_reassemble_li alloc r tb fi li)"
  by (simp add: um_reassemble_li_def set_vars_upd set_vars_li_first set_vars_li_cont case_prod_beta Let_def)

lemma set_vars_pdu: "um_reassembly_pdu alloc sn tb (set_vars u h r) = map_option (set_vars u h) (um_reassembly_pdu alloc sn tb r)"
proof -
  let ?s = "um_pdu_start sn r"
  obtain e fi sz m where hd: "um_pdu_header ?s tb = (e, fi, sz, m)" by (metis prod_cases4)
  have st: "um_pdu_start sn (set_vars u h r) = set_vars u h ?s" by (simp add: um_pdu_start_def set_vars_upd)
  have hd': "um_pdu_header (set_vars u h ?s) tb = (e, fi, sz, m)" by (simp add: hd)
  show ?thesis
    unfolding um_reassembly_pdu_def Let_def um_pdu_start_def [symmetric] st hd hd' prod.case
    by (cases "rlc_um_read_length_indicators m m sz") (simp_all add: set_vars_no_li set_vars_li set_vars_upd)
qed

lemma set_vars_at: "um_reassembled alloc sn (set_vars u h r) = set_vars u h (um_reassembled alloc sn r)"
proof -
  have "um_reassembly_at alloc sn (set_vars u h r) = map_option (set_vars u h) (um_reassembly_at alloc sn r)"
    by (cases "dar_buffer r sn") (simp_all add: um_reassembly_at_def um_reassembly_missing_def set_vars_pdu set_vars_upd)
  then show ?thesis by (cases "um_reassembly_at alloc sn r") (simp_all add: um_reassembled_def)
qed

lemma set_vars_fold:
  "fold (um_reassembled alloc) xs (set_vars u h r) = set_vars u h (fold (um_reassembled alloc) xs r)"
  by (induction xs arbitrary: r) (simp_all add: set_vars_at)

text \<open>
  \<open>um_consumes alloc k r r'\<close>: \<open>r'\<close> is \<open>r\<close> after the \<open>k\<close> sequence numbers from VR(UR) on have been handed
  to reassembly, in ascending order, and VR(UR) has moved past them; only VR(UH) may differ besides.
\<close>

definition um_consumes :: "allocator \<Rightarrow> nat \<Rightarrow> rlc_um_entity \<Rightarrow> rlc_um_entity \<Rightarrow> bool" where
  "um_consumes alloc k r r' \<longleftrightarrow>
     (\<exists>h. r' = set_vars ((vr_ur r + int k) mod rx_sn_modulo r) h
                (fold (um_reassembled alloc) (sn_range (rx_sn_modulo r) (vr_ur r) k) r))"

lemma sn_range_append: "sn_range M s (j + k) = sn_range M s j @ sn_range M ((s + int j) mod M) k"
proof (induction j arbitrary: s)
  case 0
  then show ?case by (simp add: sn_range_def mod_simps)
next
  case (Suc j)
  from Suc [of "s + 1"] show ?case by (simp add: sn_range_Suc add_ac)
qed

lemma um_consumes_0:
  assumes "0 \<le> vr_ur r" "vr_ur r < rx_sn_modulo r"
  shows "um_consumes alloc 0 r (r\<lparr>vr_uh := h\<rparr>)" "um_consumes alloc 0 r r"
proof -
  have eq: "r\<lparr>vr_uh := h\<rparr> = set_vars (vr_ur r) h r" "r = set_vars (vr_ur r) (vr_uh r) r"
    by (simp_all add: set_vars_def)
  show "um_consumes alloc 0 r (r\<lparr>vr_uh := h\<rparr>)"
    unfolding um_consumes_def using assms by (intro exI [of _ h]) (simp add: sn_range_def eq(1))
  show "um_consumes alloc 0 r r"
    unfolding um_consumes_def using assms eq(2) by (intro exI [of _ "vr_uh r"]) (simp add: sn_range_def)
qed

lemma um_consumes_trans:
  assumes "um_consumes alloc j r r1" "um_consumes alloc k r1 r2"
  shows "um_consumes alloc (j + k) r r2"
proof -
  let ?M = "rx_sn_modulo r" and ?x = "fold (um_reassembled alloc) (sn_range (rx_sn_modulo r) (vr_ur r) j) r"
  obtain h h' where r1: "r1 = set_vars ((vr_ur r + int j) mod ?M) h ?x"
    and r2: "r2 = set_vars ((vr_ur r1 + int k) mod rx_sn_modulo r1) h'
      (fold (um_reassembled alloc) (sn_range (rx_sn_modulo r1) (vr_ur r1) k) r1)"
    using assms by (auto simp: um_consumes_def)
  have sel: "vr_ur r1 = (vr_ur r + int j) mod ?M" "rx_sn_modulo r1 = ?M"
    using rx_ctl_eqD(6) [OF fold_at_frame, of alloc "sn_range ?M (vr_ur r) j" r] by (simp_all add: r1 set_vars_def)
  have sv: "set_vars u h (set_vars u' h' x) = set_vars u h x" for u h u' h' and x :: rlc_um_entity
    by (simp add: set_vars_def)
  have "r2 = set_vars ((vr_ur r1 + int k) mod ?M) h' (fold (um_reassembled alloc) (sn_range ?M (vr_ur r1) k) ?x)"
  proof -
    have "fold (um_reassembled alloc) xs r1 = set_vars ((vr_ur r + int j) mod ?M) h (fold (um_reassembled alloc) xs ?x)"
      for xs unfolding r1 by (rule set_vars_fold)
    then show ?thesis unfolding r2 sel(2) by (simp only: sv)
  qed
  then show ?thesis
    unfolding um_consumes_def sel(1)
    by (intro exI [of _ h']) (simp add: sn_range_append mod_simps add.assoc)
qed

section \<open>The receiver invariant\<close>

definition rx_vars_ok :: "rlc_um_entity \<Rightarrow> bool" where
  "rx_vars_ok r \<longleftrightarrow> rx_configured r \<and> valid_sn r (vr_ur r) \<and> valid_sn r (vr_ux r) \<and> valid_sn r (vr_uh r)
     \<and> win_off r (vr_ur r) \<le> rx_um_window_size r"

definition rx_buffer_ok :: "rlc_um_entity \<Rightarrow> bool" where
  "rx_buffer_ok r \<longleftrightarrow> pdus_sized r \<and> (\<forall>x. dar_buffer r x \<noteq> None \<longrightarrow>
     valid_sn r x \<and> win_off r (vr_ur r) \<le> win_off r x \<and> win_off r x < rx_um_window_size r)"

definition rx_timer_ok :: "rlc_um_entity \<Rightarrow> bool" where
  "rx_timer_ok r \<longleftrightarrow> (running (t_reordering r) \<longrightarrow>
     win_off r (vr_ur r) \<le> win_off r (vr_ux r) \<and> win_off r (vr_ux r) \<le> rx_um_window_size r)"

definition rx_inv :: "rlc_um_entity \<Rightarrow> bool" where
  "rx_inv r \<longleftrightarrow> rx_vars_ok r \<and> rx_buffer_ok r \<and> rx_timer_ok r"

lemma ctl_simps:
  assumes "rx_ctl r' = rx_ctl r"
  shows "win_off r' x = win_off r x" "valid_sn r' x = valid_sn r x" "rx_configured r' = rx_configured r"
    "rx_vars_ok r' = rx_vars_ok r" "rx_timer_ok r' = rx_timer_ok r" "rx_sn_length r' = rx_sn_length r"
  using rx_ctl_eqD [OF assms]
  by (simp_all add: win_off_def valid_sn_def rx_configured_def rx_vars_ok_def rx_timer_ok_def)

lemma upd_ur_simps [simp]:
  "win_off (r\<lparr>vr_ur := u\<rparr>) x = win_off r x" "valid_sn (r\<lparr>vr_ur := u\<rparr>) x = valid_sn r x"
  "rx_configured (r\<lparr>vr_ur := u\<rparr>) = rx_configured r"
  "pdus_sized (r\<lparr>vr_ur := u\<rparr>) = pdus_sized r"
  by (simp_all add: win_off_def valid_sn_def rx_configured_def pdus_sized_def)

lemma next_sn:
  assumes "rx_configured r" "valid_sn r x"
  shows "valid_sn r ((x + 1) mod rx_sn_modulo r)"
    "to_u16 (crem (x + 1) (rx_sn_modulo r)) = (x + 1) mod rx_sn_modulo r"
proof -
  note f = rx_configured_facts [OF assms(1)]
  show v: "valid_sn r ((x + 1) mod rx_sn_modulo r)" using f(5) by (simp add: valid_sn_def)
  have "to_u16 ((x + 1) mod rx_sn_modulo r) = (x + 1) mod rx_sn_modulo r"
    using v f(4) by (intro to_u16_id) (auto simp: valid_sn_def)
  then show "to_u16 (crem (x + 1) (rx_sn_modulo r)) = (x + 1) mod rx_sn_modulo r"
    using assms(2) f(5) by (simp add: valid_sn_def)
qed

lemma valid_sn_s16: "rx_configured r \<Longrightarrow> valid_sn r x \<Longrightarrow> to_s16 x = x"
  using rx_configured_facts(4) [of r] by (auto simp: valid_sn_def intro: to_s16_id)

text \<open>Removing the PDUs from VR(UR) on, up to a new VR(UR), keeps the buffer in order.\<close>

lemma reassemble_prefix:
  assumes r: "rx_configured r" "valid_sn r (vr_uh r)" "pdus_sized r" "valid_sn r lo" "valid_sn r u"
    and off: "win_off r lo \<le> win_off r u" "win_off r u \<le> rx_um_window_size r"
  shows "\<exists>r'. rlc_um_try_reassembly alloc r lo u = Some r' \<and> rx_ctl r' = rx_ctl r
     \<and> dar_buffer r' = (\<lambda>x. if valid_sn r x \<and> win_off r lo \<le> win_off r x \<and> win_off r x < win_off r u
                            then None else dar_buffer r x)
     \<and> (\<exists>k. r' = fold (um_reassembled alloc) (sn_range (rx_sn_modulo r) lo k) r \<and> (lo + int k) mod rx_sn_modulo r = u \<and> int k < rx_sn_modulo r
          \<and> set (sn_range (rx_sn_modulo r) lo k) = {x. valid_sn r x \<and> win_off r lo \<le> win_off r x \<and> win_off r x < win_off r u})"
proof (cases "lo = u")
  case True
  then have "rlc_um_try_reassembly alloc r lo u = Some r" by (simp add: rlc_um_try_reassembly_def)
  moreover have "r = fold (um_reassembled alloc) (sn_range (rx_sn_modulo r) lo 0) r" "set (sn_range (rx_sn_modulo r) lo 0) = {}"
    by (simp_all add: sn_range_def)
  moreover have "(lo + int 0) mod rx_sn_modulo r = lo" using r(4) by (simp add: valid_sn_def)
  moreover have "int 0 < rx_sn_modulo r" using rx_configured_facts(5) [OF r(1)] by simp
  ultimately show ?thesis using True by (intro exI [of _ r] conjI exI [of _ "0 :: nat"]) (auto simp: fun_eq_iff)
next
  case False
  let ?M = "rx_sn_modulo r" and ?b = "vr_uh r - rx_um_window_size r"
  note f = rx_configured_facts [OF r(1)]
  have lt: "boff ?M ?b lo < boff ?M ?b u"
    using False off(1) win_off_inj [OF r(1,4,5)] by (auto simp: win_off_boff order_less_le)
  have sn: "0 \<le> lo" "lo < ?M" "0 \<le> u" "u < ?M" using r(4,5) by (auto simp: valid_sn_def)
  have uh: "x \<noteq> vr_uh r" if "boff ?M ?b x < boff ?M ?b u" for x
    using that off(2) win_off_uh [OF r(1)] by (auto simp: win_off_boff)
  note spec = try_reassembly_spec [OF f(5,4) refl r(3) sn lt uh, simplified]
  have "int (nat (boff ?M ?b u - boff ?M ?b lo)) < ?M" using boff_range [OF f(5), of ?b u] boff_range(1) [OF f(5), of ?b lo] by linarith
  then show ?thesis
    using spec dar_buffer_fold [OF r(3)]
    by (intro exI [of _ "fold (um_reassembled alloc) (sn_range ?M lo (nat (boff ?M ?b u - boff ?M ?b lo))) r"]
          conjI exI [of _ "nat (boff ?M ?b u - boff ?M ?b lo)"])
       (auto simp: win_off_boff valid_sn_def)
qed

lemma advance_to_uh:
  assumes "rx_configured r" "valid_sn r (vr_ur r)" "valid_sn r (vr_uh r)" "win_off r (vr_ur r) < rx_um_window_size r"
    and "nat (rx_um_window_size r - win_off r (vr_ur r)) \<le> fuel"
  shows "\<exists>u. um_advance_vr_ur_to_uh fuel r = Some (r\<lparr>vr_ur := u\<rparr>) \<and> valid_sn r u
     \<and> win_off r (vr_ur r) < win_off r u \<and> win_off r u \<le> rx_um_window_size r
     \<and> (\<forall>x. valid_sn r x \<and> win_off r (vr_ur r) < win_off r x \<and> win_off r x < win_off r u \<longrightarrow> dar_buffer r x \<noteq> None)
     \<and> (dar_buffer r u = None \<or> u = vr_uh r)"
  using assms
proof (induction fuel arbitrary: r)
  case 0
  then show ?case by simp
next
  case (Suc fuel)
  let ?M = "rx_sn_modulo r" and ?W = "rx_um_window_size r"
  note f = rx_configured_facts [OF Suc.prems(1)]
  define u where "u = (vr_ur r + 1) mod ?M"
  have u: "valid_sn r u" using f by (simp add: u_def valid_sn_def)
  have offu: "win_off r u = win_off r (vr_ur r) + 1"
    using boff_add [OF f(5), of 1 "vr_uh r - ?W" "vr_ur r"] Suc.prems(4) f by (simp add: win_off_boff u_def)
  have c: "to_u16 (crem (vr_ur r + 1) ?M) = u"
    using next_sn(2) [OF Suc.prems(1,2)] by (simp add: u_def)
  have between: "\<not> (valid_sn r x \<and> win_off r (vr_ur r) < win_off r x \<and> win_off r x < win_off r u)" for x
    using offu by auto
  show ?case
  proof (cases "dar_buffer r u \<noteq> None \<and> u \<noteq> vr_uh r")
    case False
    then have "um_advance_vr_ur_to_uh (Suc fuel) r = Some (r\<lparr>vr_ur := u\<rparr>)"
      using c by (auto simp: rlc_um_get_pdu_from_dar_buffer_def Let_def)
    then show ?thesis using False u offu Suc.prems(4) between by auto
  next
    case True
    let ?r = "r\<lparr>vr_ur := u\<rparr>"
    have lt: "win_off r u < ?W"
      using True offu Suc.prems(4) win_off_inj [OF Suc.prems(1) u Suc.prems(3)] win_off_uh [OF Suc.prems(1)] by force
    have eq: "um_advance_vr_ur_to_uh (Suc fuel) r = um_advance_vr_ur_to_uh fuel ?r"
      using True c by (simp add: rlc_um_get_pdu_from_dar_buffer_def)
    have fl: "nat (?W - win_off r u) \<le> fuel" using Suc.prems(5) lt offu by simp
    obtain v where v: "um_advance_vr_ur_to_uh fuel ?r = Some (?r\<lparr>vr_ur := v\<rparr>)" "valid_sn r v"
        "win_off r u < win_off r v" "win_off r v \<le> ?W"
        "\<forall>x. valid_sn r x \<and> win_off r u < win_off r x \<and> win_off r x < win_off r v \<longrightarrow> dar_buffer r x \<noteq> None"
        "dar_buffer r v = None \<or> v = vr_uh r"
      using Suc.IH [of ?r] Suc.prems lt u offu fl by auto
    have "dar_buffer r x \<noteq> None" if "valid_sn r x" "win_off r (vr_ur r) < win_off r x" "win_off r x < win_off r v" for x
    proof (cases "x = u")
      case True
      then show ?thesis using \<open>dar_buffer r u \<noteq> None \<and> u \<noteq> vr_uh r\<close> by simp
    next
      case False
      then have "win_off r x \<noteq> win_off r u" using win_off_inj [OF Suc.prems(1) that(1) u] by auto
      then show ?thesis using v(5) that offu by auto
    qed
    then show ?thesis using eq v offu by auto
  qed
qed

lemma advance_on_timeout:
  assumes "rx_configured r" "valid_sn r (vr_ur r)" "win_off r (vr_ur r) \<le> rx_um_window_size r"
    and "\<And>x. dar_buffer r x \<noteq> None \<Longrightarrow> win_off r x < rx_um_window_size r"
    and "nat (rx_um_window_size r - win_off r (vr_ur r)) < fuel"
  shows "\<exists>u. um_advance_vr_ur fuel r = Some (r\<lparr>vr_ur := u\<rparr>) \<and> valid_sn r u
     \<and> win_off r (vr_ur r) \<le> win_off r u \<and> win_off r u \<le> rx_um_window_size r
     \<and> (\<forall>x. valid_sn r x \<and> win_off r (vr_ur r) \<le> win_off r x \<and> win_off r x < win_off r u \<longrightarrow> dar_buffer r x \<noteq> None)
     \<and> dar_buffer r u = None"
  using assms
proof (induction fuel arbitrary: r)
  case 0
  then show ?case by simp
next
  case (Suc fuel)
  let ?M = "rx_sn_modulo r" and ?W = "rx_um_window_size r"
  note f = rx_configured_facts [OF Suc.prems(1)]
  show ?case
  proof (cases "dar_buffer r (vr_ur r) = None")
    case True
    then have "um_advance_vr_ur (Suc fuel) r = Some (r\<lparr>vr_ur := vr_ur r\<rparr>)"
      by (simp add: rlc_um_get_pdu_from_dar_buffer_def)
    then show ?thesis using True Suc.prems by (intro exI [of _ "vr_ur r"]) auto
  next
    case False
    define u where "u = (vr_ur r + 1) mod ?M"
    have lt: "win_off r (vr_ur r) < ?W" using Suc.prems(4) False by simp
    have u: "valid_sn r u" using f by (simp add: u_def valid_sn_def)
    have offu: "win_off r u = win_off r (vr_ur r) + 1"
      using boff_add [OF f(5), of 1 "vr_uh r - ?W" "vr_ur r"] lt f by (simp add: win_off_boff u_def)
    have c: "to_u16 (crem (vr_ur r + 1) ?M) = u"
      using next_sn(2) [OF Suc.prems(1,2)] by (simp add: u_def)
    let ?r = "r\<lparr>vr_ur := u\<rparr>"
    have eq: "um_advance_vr_ur (Suc fuel) r = um_advance_vr_ur fuel ?r"
      using False c by (simp add: rlc_um_get_pdu_from_dar_buffer_def)
    have fl: "nat (?W - win_off r u) < fuel" using Suc.prems(5) lt offu by simp
    obtain v where v: "um_advance_vr_ur fuel ?r = Some (?r\<lparr>vr_ur := v\<rparr>)" "valid_sn r v"
        "win_off r u \<le> win_off r v" "win_off r v \<le> ?W"
        "\<forall>x. valid_sn r x \<and> win_off r u \<le> win_off r x \<and> win_off r x < win_off r v \<longrightarrow> dar_buffer r x \<noteq> None"
        "dar_buffer r v = None"
      using Suc.IH [of ?r] Suc.prems lt u offu fl by auto
    have "dar_buffer r x \<noteq> None" if "valid_sn r x" "win_off r (vr_ur r) \<le> win_off r x" "win_off r x < win_off r v" for x
    proof (cases "x = vr_ur r")
      case True
      then show ?thesis using False by simp
    next
      case False
      then have "win_off r x \<noteq> win_off r (vr_ur r)" using win_off_inj [OF Suc.prems(1) that(1) Suc.prems(2)] by auto
      then show ?thesis using v(5) that offu by auto
    qed
    then show ?thesis using eq v offu by auto
  qed
qed

lemma boff_shift:
  assumes "0 < M" "0 \<le> d" "d < M"
  shows "boff M (base + d) x = (if d \<le> boff M base x then boff M base x - d else boff M base x - d + M)"
proof -
  have "boff M (base + d) x = (boff M base x - d) mod M"
    by (simp add: boff_def mod_simps algebra_simps)
  then show ?thesis
    using mod_diff_wrap [of "boff M base x" M d] boff_range [OF assms(1), of base x] assms by simp
qed

lemma boff_cong: "a mod M = b mod M \<Longrightarrow> boff M a x = boff M b x"
  unfolding boff_def by (rule mod_diff_cong) simp_all

lemma window_update:
  fixes pdu :: mac_tb_ind
  assumes vars: "rx_vars_ok r" and buf: "rx_buffer_ok (r\<lparr>dar_buffer := (dar_buffer r)(sn := None)\<rparr>)"
    and sn: "valid_sn r sn" "win_off r (vr_ur r) \<le> win_off r sn" and sized: "pdus_sized r"
  shows "\<exists>r'. um_window_update alloc r sn = Some r' \<and> rx_vars_ok r' \<and> rx_buffer_ok r'
     \<and> dar_buffer r' sn = dar_buffer r sn \<and> vr_ux r' = vr_ux r \<and> t_reordering r' = t_reordering r
     \<and> (\<exists>k. um_consumes alloc k r r' \<and> int k < rx_sn_modulo r)
     \<and> vr_uh r' = (if win_off r sn < rx_um_window_size r then vr_uh r else (sn + 1) mod rx_sn_modulo r)
     \<and> vr_ur r' = (if win_off r sn < rx_um_window_size r \<or> win_off r' (vr_ur r) < rx_um_window_size r then vr_ur r
                   else (vr_uh r' - rx_um_window_size r) mod rx_sn_modulo r)"
proof -
  let ?M = "rx_sn_modulo r" and ?W = "rx_um_window_size r" and ?b = "vr_uh r - rx_um_window_size r"
  have cfg: "rx_configured r" and v: "valid_sn r (vr_ur r)" "valid_sn r (vr_ux r)" "valid_sn r (vr_uh r)"
    and ur: "win_off r (vr_ur r) \<le> ?W"
    using vars by (auto simp: rx_vars_ok_def)
  note f = rx_configured_facts [OF cfg]
  note cons0 = um_consumes_0 [of r alloc, OF v(1) [unfolded valid_sn_def, THEN conjunct1] v(1) [unfolded valid_sn_def, THEN conjunct2]]
  have slots: "valid_sn r x \<and> win_off r (vr_ur r) \<le> win_off r x \<and> win_off r x < ?W"
    if "dar_buffer r x \<noteq> None" "x \<noteq> sn" for x
    using buf that by (auto simp: rx_buffer_ok_def valid_sn_def win_off_def)
  show ?thesis
  proof (cases "win_off r sn < ?W")
    case True
    then have "um_window_update alloc r sn = Some r"
      using in_reordering_window_spec [OF cfg v(3) sn(1)] by (simp add: um_window_update_def)
    moreover have "rx_buffer_ok r"
      using slots sn True sized unfolding rx_buffer_ok_def by (metis (no_types, lifting))
    moreover have "\<exists>k. um_consumes alloc k r r \<and> int k < ?M" using cons0(2) f(5) by (intro exI [of _ 0]) simp
    ultimately show ?thesis using vars True by auto
  next
    case False
    define d where "d = win_off r sn + 1 - ?W"
    have d: "1 \<le> d" "d \<le> ?W" using False win_off_range(2) [OF cfg, of sn] f(1) by (auto simp: d_def)
    define uh where "uh = (sn + 1) mod ?M"
    define r1 where "r1 = r\<lparr>vr_uh := uh\<rparr>"
    have r1 [simp]: "rx_sn_modulo r1 = ?M" "rx_um_window_size r1 = ?W" "vr_uh r1 = uh" "vr_ur r1 = vr_ur r"
        "dar_buffer r1 = dar_buffer r" "vr_ux r1 = vr_ux r" "t_reordering r1 = t_reordering r"
        "valid_sn r1 x = valid_sn r x" "rx_sn_length r1 = rx_sn_length r" for x
      by (simp_all add: r1_def valid_sn_def)
    have cfg1: "rx_configured r1" using cfg by (simp add: r1_def rx_configured_def)
    have uh: "valid_sn r uh" unfolding uh_def by (rule next_sn(1) [OF cfg sn(1)])
    have "(?b + d) mod ?M = ((sn - ?b) mod ?M + (?b + 1 - ?W)) mod ?M"
      by (simp add: d_def win_off_def algebra_simps)
    also have "\<dots> = (sn - ?b + (?b + 1 - ?W)) mod ?M" by (rule mod_add_left_eq)
    also have "sn - ?b + (?b + 1 - ?W) = sn + 1 - ?W" by simp
    also have "(sn + 1 - ?W) mod ?M = (uh - ?W) mod ?M" unfolding uh_def by (rule mod_diff_left_eq [symmetric])
    finally have "(uh - ?W) mod ?M = (?b + d) mod ?M" by simp
    from boff_cong [OF this] have off1: "win_off r1 x = (if d \<le> win_off r x then win_off r x - d else win_off r x - d + ?M)" for x
      using boff_shift [OF f(5), of d ?b x] d f by (simp add: win_off_boff)
    define e where "e = um_window_lower_edge r1"
    have e_eq: "e = (if uh - ?W < 0 then uh - ?W + ?M else uh - ?W)" by (simp add: e_def um_window_lower_edge_def)
    have e: "valid_sn r e" using uh f by (auto simp: e_eq valid_sn_def)
    have "win_off r1 e = 0" by (simp add: win_off_def e_eq)
    then have offe: "win_off r e = d" using off1 [of e] win_off_range [OF cfg, of e] d f by (auto split: if_splits)
    have sized1: "pdus_sized r1" using sized by (simp add: pdus_sized_def)
    have ur1: "rlc_um_in_reordering_window r1 (to_s16 (vr_ur r1)) = (if win_off r1 (vr_ur r) < ?W then 0 else -1)"
      using in_reordering_window_spec [OF cfg1, of "vr_ur r"] uh v valid_sn_s16 [OF cfg v(1)] by simp
    have upd: "um_window_update alloc r sn = (case (if win_off r1 (vr_ur r) < ?W then Some r1
          else rlc_um_try_reassembly alloc r1 (vr_ur r) e) of None \<Rightarrow> None
        | Some r2 \<Rightarrow> Some (if rlc_um_in_reordering_window r2 (to_s16 (vr_ur r2)) < 0 then r2\<lparr>vr_ur := to_u16 e\<rparr> else r2))"
      using in_reordering_window_spec [OF cfg v(3) sn(1)] False next_sn(2) [OF cfg sn(1)] ur1
        valid_sn_s16 [OF cfg v(1)] valid_sn_s16 [OF cfg e]
      by (simp add: um_window_update_def Let_def uh_def [symmetric] r1_def [symmetric] e_def [symmetric] cong: option.case_cong if_cong)
    have offsn: "win_off r1 sn = ?W - 1" using off1 [of sn] d by (auto simp: d_def)
    show ?thesis
    proof (cases "d \<le> win_off r (vr_ur r)")
      case True
      then have in1: "win_off r1 (vr_ur r) < ?W" using off1 ur d by simp
      then have "um_window_update alloc r sn = Some r1" using upd ur1 by simp
      moreover have "rx_vars_ok r1" using cfg1 v uh in1 by (simp add: rx_vars_ok_def)
      moreover have "rx_buffer_ok r1"
        unfolding rx_buffer_ok_def
      proof (intro conjI allI impI sized1)
        fix x assume x: "dar_buffer r1 x \<noteq> None"
        then show "valid_sn r1 x" using slots sn(1) by (cases "x = sn") auto
        show "win_off r1 (vr_ur r1) \<le> win_off r1 x" "win_off r1 x < rx_um_window_size r1"
          using x slots [of x] offsn in1 off1 [of x] off1 [of "vr_ur r"] True d by (cases "x = sn"; auto)+
      qed
      moreover have "\<exists>k. um_consumes alloc k r r1 \<and> int k < ?M" using cons0(1) [of uh] f(5) unfolding r1_def by (intro exI [of _ 0]) simp
      ultimately show ?thesis using \<open>\<not> win_off r sn < ?W\<close> in1 by (simp add: uh_def)
    next
      case False
      then have out1: "\<not> win_off r1 (vr_ur r) < ?W" using off1 [of "vr_ur r"] win_off_range [OF cfg, of "vr_ur r"] d f by auto
      have lt: "boff ?M ?b (vr_ur r) < boff ?M ?b e" using False offe by (simp add: win_off_boff)
      have offuh: "win_off r uh = (if ?W + d < ?M then ?W + d else 0)"
        using win_off_uh [OF cfg1] off1 [of uh] win_off_range [OF cfg, of uh] d f by (auto split: if_splits)
      have nouh: "x \<noteq> vr_uh r1" if "boff ?M ?b (vr_ur r) < boff ?M ?b x" "boff ?M ?b x < boff ?M ?b e" for x
        using that offuh offe win_off_range [OF cfg, of "vr_ur r"] f d by (auto simp: win_off_boff split: if_splits)
      note spec = try_reassembly_spec [OF f(5,4) r1(1) sized1 _ _ _ _ lt nouh]
      define r2 where "r2 = fold (um_reassembled alloc)
        (sn_range ?M (vr_ur r) (nat (boff ?M ?b e - boff ?M ?b (vr_ur r)))) r1"
      have tr: "rlc_um_try_reassembly alloc r1 (vr_ur r) e = Some r2"
        using spec(1) v(1) e by (simp add: r2_def valid_sn_def)
      have c2: "rx_ctl r2 = rx_ctl r1" by (simp add: r2_def)
      note c = rx_ctl_eqD [OF c2] ctl_simps [OF c2]
      have d2: "dar_buffer r2 = (\<lambda>x. if valid_sn r x \<and> win_off r (vr_ur r) \<le> win_off r x \<and> win_off r x < d then None else dar_buffer r x)"
        using dar_buffer_fold [OF sized1] spec(2) v(1) e offe by (simp add: r2_def win_off_boff valid_sn_def cong: if_cong)
      have "um_window_update alloc r sn = Some (r2\<lparr>vr_ur := e\<rparr>)"
        using upd tr out1 ur1 e f in_reordering_window_spec [of r2 "vr_ur r"] c cfg1 uh v valid_sn_s16 [OF cfg v(1)]
        by (simp add: to_u16_id valid_sn_def)
      moreover have "rx_vars_ok (r2\<lparr>vr_ur := e\<rparr>)"
        using c cfg1 v uh e offe off1 [of e] d by (simp add: rx_vars_ok_def)
      moreover have "rx_buffer_ok (r2\<lparr>vr_ur := e\<rparr>)"
        unfolding rx_buffer_ok_def
      proof (intro conjI allI impI)
        show "pdus_sized (r2\<lparr>vr_ur := e\<rparr>)" using sized1 c by (auto simp: pdus_sized_def d2 split: if_splits)
        fix x assume x: "dar_buffer (r2\<lparr>vr_ur := e\<rparr>) x \<noteq> None"
        then have x': "dar_buffer r x \<noteq> None" "\<not> (valid_sn r x \<and> win_off r (vr_ur r) \<le> win_off r x \<and> win_off r x < d)"
          by (auto simp: d2 split: if_splits)
        show "valid_sn (r2\<lparr>vr_ur := e\<rparr>) x" using c x' slots sn(1) by (cases "x = sn") auto
        show "win_off (r2\<lparr>vr_ur := e\<rparr>) (vr_ur (r2\<lparr>vr_ur := e\<rparr>)) \<le> win_off (r2\<lparr>vr_ur := e\<rparr>) x"
          using c offe off1 [of e] win_off_range(1) [OF cfg1, of x] d by simp
        show "win_off (r2\<lparr>vr_ur := e\<rparr>) x < rx_um_window_size (r2\<lparr>vr_ur := e\<rparr>)"
          using c x' slots [of x] offsn off1 [of x] d by (cases "x = sn") auto
      qed
      moreover have "dar_buffer r2 sn = dar_buffer r sn" using d2 \<open>\<not> win_off r sn < ?W\<close> d by auto
      moreover have "um_consumes alloc (nat (boff ?M ?b e - boff ?M ?b (vr_ur r))) r (r2\<lparr>vr_ur := e\<rparr>)"
      proof -
        define k where "k = nat (boff ?M ?b e - boff ?M ?b (vr_ur r))"
        have "r1 = set_vars (vr_ur r) uh r" by (simp add: r1_def set_vars_def)
        then have "r2 = set_vars (vr_ur r) uh (fold (um_reassembled alloc) (sn_range ?M (vr_ur r) k) r)"
          unfolding r2_def k_def by (simp only: set_vars_fold)
        then have "r2\<lparr>vr_ur := e\<rparr> = set_vars e uh (fold (um_reassembled alloc) (sn_range ?M (vr_ur r) k) r)"
          by (simp only:) (simp add: set_vars_def)
        moreover have "(vr_ur r + int k) mod ?M = e" using spec(3) v(1) e by (simp add: k_def valid_sn_def)
        ultimately show ?thesis unfolding um_consumes_def k_def by (intro exI [of _ uh]) (simp only:)
      qed
      moreover have "int (nat (boff ?M ?b e - boff ?M ?b (vr_ur r))) < ?M"
        using boff_range [OF f(5), of ?b e] boff_range(1) [OF f(5), of ?b "vr_ur r"] by linarith
      moreover have "e = (uh - ?W) mod ?M" using mod_diff_wrap [of uh ?M ?W] uh f by (simp add: e_eq valid_sn_def)
      moreover have "\<not> win_off (r2\<lparr>vr_ur := e\<rparr>) (vr_ur r) < ?W" using out1 c by simp
      ultimately show ?thesis using c \<open>\<not> win_off r sn < ?W\<close> by (intro exI [of _ "r2\<lparr>vr_ur := e\<rparr>"]) (auto simp: uh_def)
    qed
  qed
qed

lemma deliver_in_sequence:
  assumes "rx_vars_ok r" "rx_buffer_ok r"
  shows "\<exists>r'. um_deliver_in_sequence alloc r sn = Some r' \<and> rx_vars_ok r' \<and> rx_buffer_ok r'
     \<and> vr_ux r' = vr_ux r \<and> t_reordering r' = t_reordering r
     \<and> vr_uh r' = vr_uh r \<and> (sn \<noteq> vr_ur r \<longrightarrow> r' = r)
     \<and> (sn = vr_ur r \<and> dar_buffer r sn \<noteq> None \<longrightarrow> win_off r sn < win_off r (vr_ur r') \<and> dar_buffer r' sn = None
          \<and> (dar_buffer r (vr_ur r') = None \<or> vr_ur r' = vr_uh r))
     \<and> (\<exists>k. um_consumes alloc k r r' \<and> int k < rx_sn_modulo r \<and> (\<forall>x\<in>set (sn_range (rx_sn_modulo r) (vr_ur r) k). dar_buffer r x \<noteq> None))"
proof (cases "sn = vr_ur r \<and> dar_buffer r sn \<noteq> None")
  case False
  then have "um_deliver_in_sequence alloc r sn = Some r"
    by (auto simp: um_deliver_in_sequence_def rlc_um_get_pdu_from_dar_buffer_def)
  moreover have "um_consumes alloc 0 r r"
    using assms(1) by (intro um_consumes_0) (auto simp: rx_vars_ok_def valid_sn_def)
  moreover have "set (sn_range (rx_sn_modulo r) (vr_ur r) 0) = {}" by (simp add: sn_range_def)
  moreover have "int 0 < rx_sn_modulo r" using assms(1) rx_configured_facts(5) [of r] by (auto simp: rx_vars_ok_def)
  ultimately show ?thesis using assms False by (intro exI [of _ r] conjI impI exI [of _ "0 :: nat"]) auto
next
  case True
  have cfg: "rx_configured r" and v: "valid_sn r (vr_ur r)" "valid_sn r (vr_ux r)" "valid_sn r (vr_uh r)"
    using assms by (auto simp: rx_vars_ok_def)
  have sized: "pdus_sized r" and slots: "\<And>x. dar_buffer r x \<noteq> None \<Longrightarrow> valid_sn r x \<and> win_off r (vr_ur r) \<le> win_off r x \<and> win_off r x < rx_um_window_size r"
    using assms by (auto simp: rx_buffer_ok_def)
  note f = rx_configured_facts [OF cfg]
  have lt: "win_off r (vr_ur r) < rx_um_window_size r" using True slots by auto
  have "nat (rx_um_window_size r - win_off r (vr_ur r)) \<le> nat (rx_sn_modulo r)"
    using f win_off_range(1) [OF cfg, of "vr_ur r"] by simp
  from advance_to_uh [OF cfg v(1,3) lt this] obtain u where u:
    "um_advance_vr_ur_to_uh (nat (rx_sn_modulo r)) r = Some (r\<lparr>vr_ur := u\<rparr>)" "valid_sn r u"
    "win_off r (vr_ur r) < win_off r u" "win_off r u \<le> rx_um_window_size r"
    "\<forall>x. valid_sn r x \<and> win_off r (vr_ur r) < win_off r x \<and> win_off r x < win_off r u \<longrightarrow> dar_buffer r x \<noteq> None"
    "dar_buffer r u = None \<or> u = vr_uh r" by blast
  let ?r1 = "r\<lparr>vr_ur := u\<rparr>"
  obtain r' k where r': "rlc_um_try_reassembly alloc ?r1 sn u = Some r'" "rx_ctl r' = rx_ctl ?r1"
      "dar_buffer r' = (\<lambda>x. if valid_sn r x \<and> win_off r sn \<le> win_off r x \<and> win_off r x < win_off r u then None else dar_buffer r x)"
    and k: "r' = fold (um_reassembled alloc) (sn_range (rx_sn_modulo r) sn k) ?r1" "(sn + int k) mod rx_sn_modulo r = u" "int k < rx_sn_modulo r"
      "set (sn_range (rx_sn_modulo r) sn k) = {x. valid_sn r x \<and> win_off r sn \<le> win_off r x \<and> win_off r x < win_off r u}"
    using reassemble_prefix [of ?r1 sn u alloc] cfg v sized u(1-4) True by (auto cong: if_cong)
  have all: "\<forall>x\<in>set (sn_range (rx_sn_modulo r) (vr_ur r) k). dar_buffer r x \<noteq> None"
  proof
    fix x assume "x \<in> set (sn_range (rx_sn_modulo r) (vr_ur r) k)"
    then have x: "valid_sn r x" "win_off r sn \<le> win_off r x" "win_off r x < win_off r u" using k(4) True by auto
    show "dar_buffer r x \<noteq> None"
    proof (cases "x = sn")
      case False
      then have "win_off r x \<noteq> win_off r sn" using win_off_inj [OF cfg x(1), of sn] v(1) True by auto
      then show ?thesis using u(5) x True by auto
    qed (use True in auto)
  qed
  have "r' = set_vars u (vr_uh r) (fold (um_reassembled alloc) (sn_range (rx_sn_modulo r) sn k) r)"
  proof -
    have "?r1 = set_vars u (vr_uh r) r" by (simp add: set_vars_def)
    then show ?thesis unfolding k(1) by (simp only: set_vars_fold)
  qed
  then have cons: "um_consumes alloc k r r'"
    unfolding um_consumes_def using True k(2) by (intro exI [of _ "vr_uh r"]) simp
  note c = rx_ctl_eqD [OF r'(2)] ctl_simps [OF r'(2)]
  have "um_deliver_in_sequence alloc r sn = Some r'"
    using True u(1,2) r'(1) valid_sn_s16 [OF cfg u(2)]
    by (auto simp: um_deliver_in_sequence_def rlc_um_get_pdu_from_dar_buffer_def)
  moreover have "rx_vars_ok r'" using c(4-) cfg v u(2-4) by (simp add: c rx_vars_ok_def)
  moreover have "rx_buffer_ok r'"
    unfolding rx_buffer_ok_def
  proof (intro conjI allI impI)
    show "pdus_sized r'" using sized c by (auto simp: pdus_sized_def r'(3) split: if_splits)
    fix x assume "dar_buffer r' x \<noteq> None"
    then have x: "dar_buffer r x \<noteq> None" "\<not> (valid_sn r x \<and> win_off r sn \<le> win_off r x \<and> win_off r x < win_off r u)"
      by (auto simp: r'(3) split: if_splits)
    show "valid_sn r' x" "win_off r' (vr_ur r') \<le> win_off r' x" "win_off r' x < rx_um_window_size r'"
      using slots [OF x(1)] x(2) True by (simp_all add: c)
  qed
  moreover have "vr_ur r' = u" "vr_uh r' = vr_uh r" "vr_ux r' = vr_ux r" "t_reordering r' = t_reordering r" using c by simp_all
  moreover have "dar_buffer r' sn = None" using True u(3) v(1) by (simp add: r'(3))
  ultimately show ?thesis using True u(3,6) cons all k(3) by (intro exI [of _ r'] conjI impI) auto
qed

lemma start_timer_simps [simp]:
  "win_off (rlc_um_start_timer_reordering ctxt r) x = win_off r x"
  "rx_vars_ok (rlc_um_start_timer_reordering ctxt r) = rx_vars_ok r"
  "rx_buffer_ok (rlc_um_start_timer_reordering ctxt r) = rx_buffer_ok r"
  "vr_uh (rlc_um_start_timer_reordering ctxt r) = vr_uh r"
  "dar_buffer (rlc_um_start_timer_reordering ctxt r) = dar_buffer r"
  by (simp_all add: rlc_um_start_timer_reordering_def win_off_def rx_vars_ok_def rx_configured_def valid_sn_def
      rx_buffer_ok_def pdus_sized_def Let_def)

lemma stop_timer_simps [simp]:
  "win_off (rlc_um_stop_and_reset_timer_reordering r) x = win_off r x"
  "rx_vars_ok (rlc_um_stop_and_reset_timer_reordering r) = rx_vars_ok r"
  "rx_buffer_ok (rlc_um_stop_and_reset_timer_reordering r) = rx_buffer_ok r"
  "\<not> running (t_reordering (rlc_um_stop_and_reset_timer_reordering r))"
  "dar_buffer (rlc_um_stop_and_reset_timer_reordering r) = dar_buffer r"
  by (simp_all add: rlc_um_stop_and_reset_timer_reordering_def win_off_def rx_vars_ok_def rx_configured_def
      valid_sn_def rx_buffer_ok_def pdus_sized_def)

text \<open>Starting the timer sets VR(UX) to VR(UH), the upper edge of the window.\<close>

lemma start_timer_inv:
  assumes "rx_vars_ok r" "rx_buffer_ok r"
  shows "rx_inv (let r1 = rlc_um_start_timer_reordering ctxt r in r1\<lparr>vr_ux := vr_uh r1\<rparr>)"
proof -
  let ?r1 = "rlc_um_start_timer_reordering ctxt r"
  have 1: "rx_vars_ok ?r1" "rx_buffer_ok ?r1" using assms by simp_all
  have "rx_vars_ok (?r1\<lparr>vr_ux := vr_uh ?r1\<rparr>)"
    using 1(1) by (simp add: rx_vars_ok_def valid_sn_def rx_configured_def win_off_def)
  moreover have "rx_buffer_ok (?r1\<lparr>vr_ux := vr_uh ?r1\<rparr>)"
    using 1(2) by (simp add: rx_buffer_ok_def valid_sn_def win_off_def pdus_sized_def)
  moreover have "rx_timer_ok (?r1\<lparr>vr_ux := vr_uh ?r1\<rparr>)"
  proof -
    have "rx_configured ?r1" "win_off ?r1 (vr_ur ?r1) \<le> rx_um_window_size ?r1"
      using 1(1) by (auto simp: rx_vars_ok_def)
    moreover have "win_off ?r1 (vr_uh ?r1) = rx_um_window_size ?r1" using calculation by (simp only: win_off_uh)
    ultimately show ?thesis by (simp add: rx_timer_ok_def win_off_def)
  qed
  ultimately show ?thesis by (simp add: rx_inv_def Let_def)
qed

lemma stopped_inv:
  "rx_vars_ok r \<Longrightarrow> rx_buffer_ok r \<Longrightarrow> \<not> running (t_reordering r) \<Longrightarrow> rx_inv r"
  by (simp add: rx_inv_def rx_timer_ok_def)

lemma update_timer:
  assumes "rx_vars_ok r" "rx_buffer_ok r"
  shows "rx_inv (um_update_timer ctxt r)"
proof -
  define r1 where "r1 = um_stop_if_ux_left_window r"
  define r2 where "r2 = um_stop_if_ux_reached r1"
  have ok1: "rx_vars_ok r1" "rx_buffer_ok r1" using assms by (simp_all add: r1_def um_stop_if_ux_left_window_def)
  have ok2: "rx_vars_ok r2" "rx_buffer_ok r2" using ok1 by (simp_all add: r2_def um_stop_if_ux_reached_def)
  have cfg: "rx_configured r1" and v: "valid_sn r1 (vr_ur r1)" "valid_sn r1 (vr_ux r1)" "valid_sn r1 (vr_uh r1)"
    and ur: "win_off r1 (vr_ur r1) \<le> rx_um_window_size r1"
    using ok1(1) by (auto simp: rx_vars_ok_def)
  have "rx_inv r2"
  proof (cases "running (t_reordering r2)")
    case False
    then show ?thesis using ok2 by (intro stopped_inv)
  next
    case True
    then have r21: "r2 = r1" and run1: "running (t_reordering r1)"
      and nw: "rlc_um_in_window r1 (vr_ur r1) (vr_ux r1) (vr_uh r1) \<noteq> -2"
      unfolding r2_def um_stop_if_ux_reached_def Let_def by (auto split: if_splits)
    have r1r: "r1 = r" using run1 unfolding r1_def um_stop_if_ux_left_window_def by (auto split: if_splits)
    have "vr_uh r = vr_ux r \<or> rlc_um_in_reordering_window r (to_s16 (vr_ux r)) \<ge> 0"
      using run1 unfolding r1_def um_stop_if_ux_left_window_def by (auto split: if_splits)
    then have ux: "win_off r1 (vr_ux r1) \<le> rx_um_window_size r1"
      using in_reordering_window_spec [OF cfg v(3,2)] valid_sn_s16 [OF cfg v(2)] win_off_uh [OF cfg] r1r
      by (auto split: if_splits)
    have "win_off r1 (vr_ur r1) \<le> win_off r1 (vr_ux r1)"
      using in_window_ordered_spec [OF cfg v(3,1,2,3)] ur ux nw win_off_uh [OF cfg]
      by (auto split: if_splits)
    then show ?thesis using ok2 ux r21 by (simp add: rx_inv_def rx_timer_ok_def)
  qed
  then show ?thesis
    using start_timer_inv [OF ok2] by (simp add: um_update_timer_def um_start_if_gap_def r1_def r2_def)
qed

section \<open>Reception of a PDU\<close>

lemma in_window_low_spec:
  assumes "rx_configured r" "valid_sn r (vr_uh r)" "valid_sn r x" "valid_sn r hi"
    and "win_off r hi \<le> rx_um_window_size r"
  shows "(let w = rlc_um_in_window r (vr_uh r - rx_um_window_size r) x hi in w = 1 \<or> w = 0)
     \<longleftrightarrow> win_off r x < win_off r hi"
proof -
  note f = rx_configured_facts [OF assms(1)]
  let ?m = "vr_uh r - rx_um_window_size r"
  have m: "to_s16 (to_s16 (vr_uh r) - rx_um_window_size r) = ?m" "to_s16 ?m = ?m"
    using f assms(2) by (auto simp: valid_sn_def wrap_simps)
  have z: "to_s16 (crem 0 (rx_sn_modulo r)) = 0" "to_s16 0 = 0" using f by (simp_all add: to_s16_def)
  have hi: "\<not> hi < ?m" using crem_window(2) [OF assms(1,2,4)] assms(5) by linarith
  show ?thesis
    using crem_window [OF assms(1,2,3)] crem_window(1) [OF assms(1,2,4)] hi assms(5)
      win_off_range [OF assms(1), of x] win_off_range [OF assms(1), of hi]
    by (auto simp: rlc_um_in_window_def Let_def m z)
qed

lemma um_pdu_sn_valid: "rx_configured r \<Longrightarrow> valid_sn r (um_pdu_sn r m)"
proof -
  have le: "uint (b AND k) \<le> uint k" for b k :: byte
    using word_and_le1 [of b k] by (simp add: word_le_def)
  assume "rx_configured r"
  then show ?thesis
    using le [of "m 0" "0x03"] le [of "m 0" "0x1F"] uint_lt2p [of "m 1"]
    by (auto simp: rx_configured_def um_pdu_sn_def valid_sn_def push_bit_eq_mult)
qed

lemma count_duplicate_ctl [simp]:
  "rx_ctl (um_count_duplicate r n) = rx_ctl r" "dar_buffer (um_count_duplicate r n) = dar_buffer r"
  "data_ind_log (um_count_duplicate r n) = data_ind_log r"
  by (simp_all add: rx_ctl_def um_count_duplicate_def)

lemma discard_ctl [simp]:
  "rx_ctl (um_discard_out_of_window r n) = rx_ctl r" "dar_buffer (um_discard_out_of_window r n) = dar_buffer r"
  "data_ind_log (um_discard_out_of_window r n) = data_ind_log r"
  by (simp_all add: rx_ctl_def um_discard_out_of_window_def)

lemma rx_inv_cong:
  assumes "rx_ctl r' = rx_ctl r" "dar_buffer r' = dar_buffer r"
  shows "rx_inv r' = rx_inv r"
  using ctl_simps [OF assms(1)] rx_ctl_eqD [OF assms(1)] assms(2)
  by (simp add: rx_inv_def rx_buffer_ok_def pdus_sized_def)

lemma receive_discard:
  assumes "rx_inv r" "sn = um_pdu_sn r (data_ptr pdu)" "win_off r sn < win_off r (vr_ur r)"
  shows "rlc_um_receive_process_dar alloc ctxt r pdu n = Some (um_discard_out_of_window r n)"
proof -
  have "rx_configured r" "valid_sn r (vr_uh r)" "valid_sn r (vr_ur r)" "win_off r (vr_ur r) \<le> rx_um_window_size r"
    using assms(1) by (auto simp: rx_inv_def rx_vars_ok_def)
  from in_window_low_spec [OF this(1,2) um_pdu_sn_valid [OF this(1)] this(3,4)] show ?thesis
    using assms(2,3) by (simp add: rlc_um_receive_process_dar_def Let_def)
qed

lemma receive_duplicate:
  assumes "rx_inv r" "sn = um_pdu_sn r (data_ptr pdu)" "dar_buffer r sn \<noteq> None"
    and "win_off r (vr_ur r) < win_off r sn"
  shows "rlc_um_receive_process_dar alloc ctxt r pdu n = Some (um_count_duplicate r n)"
proof -
  have r: "rx_configured r" "valid_sn r (vr_uh r)" "valid_sn r (vr_ur r)" "win_off r (vr_ur r) \<le> rx_um_window_size r"
    and lt: "win_off r sn < rx_um_window_size r"
    using assms(1,3) by (auto simp: rx_inv_def rx_vars_ok_def rx_buffer_ok_def)
  note sn = um_pdu_sn_valid [OF r(1), of "data_ptr pdu"]
  have "rlc_um_in_window r (vr_ur r) sn (vr_uh r) = 0"
    using in_window_ordered_spec [OF r(1,2,3) sn r(2)] assms(2,4) lt win_off_uh [OF r(1)] by simp
  then show ?thesis
    using in_window_low_spec [OF r(1,2) sn r(3,4)] assms(2-4)
    by (simp add: rlc_um_receive_process_dar_def rlc_um_get_pdu_from_dar_buffer_def Let_def)
qed

lemma receive_store:
  assumes inv: "rx_inv r" and sn: "sn = um_pdu_sn r (data_ptr pdu)" "win_off r (vr_ur r) \<le> win_off r sn"
    and new: "dar_buffer r sn = None \<or> win_off r (vr_ur r) = win_off r sn"
    and sz: "pdu_fits (rx_sn_length r) pdu"
  shows "\<exists>r3 r4. um_window_update alloc ((if dar_buffer r sn = None then r else um_count_duplicate r n)
                    \<lparr>dar_buffer := (dar_buffer r)(sn := Some pdu)\<rparr>) sn = Some r3
     \<and> um_deliver_in_sequence alloc r3 sn = Some r4
     \<and> rlc_um_receive_process_dar alloc ctxt r pdu n = Some (um_update_timer ctxt r4)
     \<and> rx_vars_ok r3 \<and> rx_buffer_ok r3 \<and> dar_buffer r3 sn = Some pdu \<and> rx_vars_ok r4 \<and> rx_buffer_ok r4
     \<and> (\<exists>k. um_consumes alloc k ((if dar_buffer r sn = None then r else um_count_duplicate r n)
                    \<lparr>dar_buffer := (dar_buffer r)(sn := Some pdu)\<rparr>) r3 \<and> int k < rx_sn_modulo r)
     \<and> vr_uh r3 = (if win_off r sn < rx_um_window_size r then vr_uh r else (sn + 1) mod rx_sn_modulo r)
     \<and> vr_ur r3 = (if win_off r sn < rx_um_window_size r \<or> win_off r3 (vr_ur r) < rx_um_window_size r then vr_ur r
                   else (vr_uh r3 - rx_um_window_size r) mod rx_sn_modulo r)
     \<and> vr_uh r4 = vr_uh r3 \<and> (sn \<noteq> vr_ur r3 \<longrightarrow> r4 = r3)
     \<and> (\<exists>k. um_consumes alloc k r3 r4 \<and> int k < rx_sn_modulo r3 \<and> (\<forall>x\<in>set (sn_range (rx_sn_modulo r3) (vr_ur r3) k). dar_buffer r3 x \<noteq> None))
     \<and> (sn = vr_ur r3 \<longrightarrow> dar_buffer r4 sn = None \<and> win_off r3 sn < win_off r3 (vr_ur r4)
          \<and> (dar_buffer r3 (vr_ur r4) = None \<or> vr_ur r4 = vr_uh r3))"
proof -
  have r: "rx_configured r" "valid_sn r (vr_uh r)" "valid_sn r (vr_ur r)" "win_off r (vr_ur r) \<le> rx_um_window_size r"
    and buf: "rx_buffer_ok r" and vars: "rx_vars_ok r"
    using inv by (auto simp: rx_inv_def rx_vars_ok_def)
  note snv = um_pdu_sn_valid [OF r(1), of "data_ptr pdu", folded sn(1)]
  let ?q = "if dar_buffer r sn = None then r else um_count_duplicate r n"
  let ?r2 = "?q\<lparr>dar_buffer := (dar_buffer r)(sn := Some pdu)\<rparr>"
  have nodup: "\<not> (dar_buffer r sn \<noteq> None \<and> rlc_um_in_window r (vr_ur r) sn (vr_uh r) = 0)"
  proof
    assume a: "dar_buffer r sn \<noteq> None \<and> rlc_um_in_window r (vr_ur r) sn (vr_uh r) = 0"
    then have "win_off r sn < rx_um_window_size r" "win_off r (vr_ur r) = win_off r sn"
      using buf new by (auto simp: rx_buffer_ok_def)
    then show False
      using a in_window_ordered_spec [OF r(1,2,3) snv r(2)] win_off_uh [OF r(1)] by auto
  qed
  have ctl: "rx_ctl ?r2 = rx_ctl r" by simp
  note c = ctl_simps [OF ctl] rx_ctl_eqD [OF ctl]
  have dar2: "dar_buffer ?r2 = (dar_buffer r)(sn := Some pdu)" by simp
  have "pdus_sized r" using buf by (simp add: rx_buffer_ok_def)
  then have sized: "pdus_sized ?r2" using sz c(6) unfolding pdus_sized_def dar2 by (auto split: if_splits)
  have buf2: "rx_buffer_ok (?r2\<lparr>dar_buffer := (dar_buffer ?r2)(sn := None)\<rparr>)"
  proof -
    let ?s = "?r2\<lparr>dar_buffer := (dar_buffer ?r2)(sn := None)\<rparr>"
    have cs: "rx_ctl ?s = rx_ctl r" by simp
    have "dar_buffer ?s = (dar_buffer r)(sn := None)" by simp
    then show ?thesis
      using buf ctl_simps [OF cs] rx_ctl_eqD [OF cs] by (auto simp: rx_buffer_ok_def pdus_sized_def)
  qed
  have "rx_vars_ok ?r2" using vars c(4) by simp
  moreover have "valid_sn ?r2 sn" "win_off ?r2 (vr_ur ?r2) \<le> win_off ?r2 sn" "dar_buffer ?r2 sn \<noteq> None"
    using snv sn(2) by (simp_all only: c dar2) simp
  ultimately obtain r3 where r3: "um_window_update alloc ?r2 sn = Some r3" "rx_vars_ok r3" "rx_buffer_ok r3"
    "dar_buffer r3 sn = dar_buffer ?r2 sn" and k3: "\<exists>k. um_consumes alloc k ?r2 r3 \<and> int k < rx_sn_modulo ?r2"
    and uh3: "vr_uh r3 = (if win_off ?r2 sn < rx_um_window_size ?r2 then vr_uh ?r2 else (sn + 1) mod rx_sn_modulo ?r2)"
    and ur3: "vr_ur r3 = (if win_off ?r2 sn < rx_um_window_size ?r2 \<or> win_off r3 (vr_ur ?r2) < rx_um_window_size ?r2 then vr_ur ?r2
                   else (vr_uh r3 - rx_um_window_size ?r2) mod rx_sn_modulo ?r2)"
    using window_update [OF _ buf2 _ _ sized] by blast
  have r3sn: "dar_buffer r3 sn = Some pdu" using r3(4) by (simp only: dar2) simp
  from deliver_in_sequence [OF r3(2,3), of alloc sn] r3sn
  obtain r4 where r4: "um_deliver_in_sequence alloc r3 sn = Some r4" "rx_vars_ok r4" "rx_buffer_ok r4"
    "sn = vr_ur r3 \<longrightarrow> dar_buffer r4 sn = None \<and> win_off r3 sn < win_off r3 (vr_ur r4) \<and> (dar_buffer r3 (vr_ur r4) = None \<or> vr_ur r4 = vr_uh r3)"
    "\<exists>k. um_consumes alloc k r3 r4 \<and> int k < rx_sn_modulo r3 \<and> (\<forall>x\<in>set (sn_range (rx_sn_modulo r3) (vr_ur r3) k). dar_buffer r3 x \<noteq> None)"
    "vr_uh r4 = vr_uh r3" "sn \<noteq> vr_ur r3 \<longrightarrow> r4 = r3" by auto
  have "\<not> win_off r sn < win_off r (vr_ur r)" using sn(2) by simp
  then have low: "\<not> (let w = rlc_um_in_window r (vr_uh r - rx_um_window_size r) sn (vr_ur r) in w = 1 \<or> w = 0)"
    using in_window_low_spec [OF r(1,2) snv r(3,4)] by simp
  have "rlc_um_receive_process_dar alloc ctxt r pdu n = Some (um_update_timer ctxt r4)"
    using low nodup r3(1) r4(1)
    by (auto simp: rlc_um_receive_process_dar_def rlc_um_get_pdu_from_dar_buffer_def Let_def sn(1) [symmetric]
        rlc_um_store_pdu_in_dar_buffer_def rlc_um_remove_pdu_from_dar_buffer_def split: if_splits)
  then show ?thesis using r3(1-3) r3sn r4 k3 uh3 ur3 unfolding c by (intro exI [of _ r3] exI [of _ r4] conjI) assumption+
qed

section \<open>The operations of the receiver\<close>

lemma update_timer_frame: "\<exists>t x. um_update_timer ctxt r = r\<lparr>t_reordering := t, vr_ux := x\<rparr>"
proof -
  define P :: "rlc_um_entity \<Rightarrow> rlc_um_entity \<Rightarrow> bool" where "P = (\<lambda>q q'. \<exists>t x. q' = q\<lparr>t_reordering := t, vr_ux := x\<rparr>)"
  have id: "P q q" for q by (auto simp: P_def intro!: exI [of _ "t_reordering q"] exI [of _ "vr_ux q"])
  have tr: "P a c" if "P a b" "P b c" for a b c
    using that unfolding P_def by (elim exE) (simp, blast)
  have "P q (um_stop_if_ux_left_window q)" for q
    using id by (auto simp: um_stop_if_ux_left_window_def rlc_um_stop_and_reset_timer_reordering_def)
       (auto simp: P_def intro!: exI [of _ "vr_ux q"])
  moreover have "P q (um_stop_if_ux_reached q)" for q
    using id by (auto simp: um_stop_if_ux_reached_def rlc_um_stop_and_reset_timer_reordering_def)
       (auto simp: P_def intro!: exI [of _ "vr_ux q"])
  moreover have "P q (um_start_if_gap ctxt q)" for q
    using id by (auto simp: um_start_if_gap_def rlc_um_start_timer_reordering_def Let_def)
       (auto simp: P_def)
  ultimately have "P r (um_update_timer ctxt r)" unfolding um_update_timer_def by (blast intro: tr)
  then show ?thesis by (simp add: P_def)
qed

definition um_accepts :: "rlc_um_entity \<Rightarrow> mac_tb_ind \<Rightarrow> bool" where
  "um_accepts r pdu \<longleftrightarrow> (let sn = um_pdu_sn r (data_ptr pdu) in
     win_off r sn = win_off r (vr_ur r) \<or> win_off r (vr_ur r) < win_off r sn \<and> dar_buffer r sn = None)"

lemma um_consumes_frame:
  assumes "um_consumes alloc k r r'"
  shows "rx_sn_length r' = rx_sn_length r" "rx_sn_modulo r' = rx_sn_modulo r"
    "vr_ur r' = (vr_ur r + int k) mod rx_sn_modulo r"
    "um_asm r' = um_asm (fold (um_reassembled alloc) (sn_range (rx_sn_modulo r) (vr_ur r) k) r)"
    "pdus_sized r \<Longrightarrow> dar_buffer r' = (\<lambda>x. if x \<in> set (sn_range (rx_sn_modulo r) (vr_ur r) k) then None else dar_buffer r x)"
    "rx_um_window_size r' = rx_um_window_size r"
proof -
  let ?x = "fold (um_reassembled alloc) (sn_range (rx_sn_modulo r) (vr_ur r) k) r"
  obtain h where r': "r' = set_vars ((vr_ur r + int k) mod rx_sn_modulo r) h ?x"
    using assms by (auto simp: um_consumes_def)
  then show "rx_sn_length r' = rx_sn_length r" "rx_sn_modulo r' = rx_sn_modulo r"
    "vr_ur r' = (vr_ur r + int k) mod rx_sn_modulo r" "um_asm r' = um_asm ?x" "rx_um_window_size r' = rx_um_window_size r"
    using rx_ctl_eqD(5-7) [OF fold_at_frame, of alloc "sn_range (rx_sn_modulo r) (vr_ur r) k" r]
    by (simp_all add: set_vars_def um_asm_def um_pending_def split: option.split)
  show "dar_buffer r' = (\<lambda>x. if x \<in> set (sn_range (rx_sn_modulo r) (vr_ur r) k) then None else dar_buffer r x)" if "pdus_sized r"
    using dar_buffer_fold [OF that, of alloc "sn_range (rx_sn_modulo r) (vr_ur r) k"] r' by simp
qed

lemma receive_process_dar_inv:
  assumes "rx_inv r" "pdu_fits (rx_sn_length r) pdu"
  shows "\<exists>r'. rlc_um_receive_process_dar alloc ctxt r pdu n = Some r' \<and> rx_inv r' \<and> rx_sn_length r' = rx_sn_length r"
proof -
  let ?sn = "um_pdu_sn r (data_ptr pdu)"
  consider "win_off r ?sn < win_off r (vr_ur r)"
    | "win_off r (vr_ur r) < win_off r ?sn" "dar_buffer r ?sn \<noteq> None"
    | "win_off r (vr_ur r) \<le> win_off r ?sn" "dar_buffer r ?sn = None \<or> win_off r (vr_ur r) = win_off r ?sn"
    by linarith
  then show ?thesis
  proof cases
    case 1
    then show ?thesis
      using receive_discard [OF assms(1) refl] assms(1) rx_inv_cong [OF discard_ctl(1,2)] rx_ctl_eqD(5) [OF discard_ctl(1)] by auto
  next
    case 2
    then show ?thesis
      using receive_duplicate [OF assms(1) refl 2(2,1)] assms(1) rx_inv_cong [OF count_duplicate_ctl(1,2)]
        rx_ctl_eqD(5) [OF count_duplicate_ctl(1)] by auto
  next
    case 3
    let ?r2 = "(if dar_buffer r ?sn = None then r else um_count_duplicate r n)
                    \<lparr>dar_buffer := (dar_buffer r)(?sn := Some pdu)\<rparr>"
    from receive_store [OF assms(1) refl 3 assms(2), where n = n]
    obtain r3 r4 k j where r4: "rlc_um_receive_process_dar alloc ctxt r pdu n = Some (um_update_timer ctxt r4)"
        "rx_vars_ok r4" "rx_buffer_ok r4" "um_consumes alloc k ?r2 r3" "um_consumes alloc j r3 r4" by blast
    obtain t x where "um_update_timer ctxt r4 = r4\<lparr>t_reordering := t, vr_ux := x\<rparr>" using update_timer_frame by blast
    then have "rx_sn_length (um_update_timer ctxt r4) = rx_sn_length ?r2" using um_consumes_frame(1) [OF r4(4)] um_consumes_frame(1) [OF r4(5)] by simp
    also have "\<dots> = rx_sn_length r" by (simp add: um_count_duplicate_def)
    finally show ?thesis using r4(1) update_timer [OF r4(2,3)] by blast
  qed
qed

lemma stat_rx_inv [simp]:
  "rx_inv (r\<lparr>stat_rx_data_bytes := a, stat_rx_data_pdu := b\<rparr>) = rx_inv r"
  "rx_inv (r\<lparr>stat_timer_reordering_timed_out := a\<rparr>) = rx_inv r"
  by (rule rx_inv_cong; simp add: rx_ctl_def)+

lemma receive_inv:
  assumes "rx_inv r" "\<forall>tb \<in> set tbs. pdu_fits (rx_sn_length r) tb"
  shows "\<exists>r'. rlc_um_receive alloc ctxt r tbs = Some r' \<and> rx_inv r' \<and> rx_sn_length r' = rx_sn_length r"
  using assms
proof (induction tbs arbitrary: r)
  case Nil
  then show ?case by simp
next
  case (Cons tb tbs)
  have tb: "to_u16 (tb_size tb) = tb_size tb" "0 < tb_size tb"
    using Cons.prems(2) by (auto simp: to_u16_def pdu_fits_def um_fixed_len_def split: if_splits)
  let ?r1 = "r\<lparr>stat_rx_data_bytes := to_u32 (stat_rx_data_bytes r + tb_size tb),
                 stat_rx_data_pdu := to_u32 (stat_rx_data_pdu r + 1)\<rparr>"
  have "rx_inv ?r1" using Cons.prems(1) by (simp only: stat_rx_inv)
  from receive_process_dar_inv [OF this, of tb alloc ctxt "tb_size tb"] Cons.prems(2)
  obtain r2 where r2: "rlc_um_receive_process_dar alloc ctxt ?r1 tb (tb_size tb) = Some r2" "rx_inv r2"
      "rx_sn_length r2 = rx_sn_length r" by auto
  show ?case using Cons.IH [OF r2(2)] Cons.prems(2) r2 tb by (simp add: Let_def)
qed

lemma restart_timer_or_stop:
  assumes "rx_vars_ok r" "rx_buffer_ok r"
  shows "rx_inv (um_restart_timer_or_stop ctxt r)"
    "\<exists>t x. um_restart_timer_or_stop ctxt r = r\<lparr>t_reordering := t, vr_ux := x\<rparr>"
proof -
  show "rx_inv (um_restart_timer_or_stop ctxt r)"
    using start_timer_inv [OF assms] stopped_inv [of "rlc_um_stop_and_reset_timer_reordering r"] assms
    by (simp add: um_restart_timer_or_stop_def)
  have stop: "\<exists>t x. rlc_um_stop_and_reset_timer_reordering r = r\<lparr>t_reordering := t, vr_ux := x\<rparr>"
    unfolding rlc_um_stop_and_reset_timer_reordering_def
    by (intro exI [of _ "(t_reordering r)\<lparr>running := False, ms_time_out := 0, ms_start := 0, timed_out := False\<rparr>"]
        exI [of _ "vr_ux r"]) simp
  have start: "\<exists>t. rlc_um_start_timer_reordering ctxt r = r\<lparr>t_reordering := t\<rparr>"
    by (auto simp: rlc_um_start_timer_reordering_def Let_def)
  then obtain t where t: "rlc_um_start_timer_reordering ctxt r = r\<lparr>t_reordering := t\<rparr>" by blast
  show "\<exists>t x. um_restart_timer_or_stop ctxt r = r\<lparr>t_reordering := t, vr_ux := x\<rparr>"
  proof (cases "rlc_um_in_window r (vr_ur r) (vr_uh r) (vr_uh r) = 2")
    case True
    then show ?thesis by (intro exI [of _ t] exI [of _ "vr_uh r"]) (simp add: um_restart_timer_or_stop_def t)
  next
    case False
    then show ?thesis using stop by (simp add: um_restart_timer_or_stop_def)
  qed
qed

lemma check_timer_inv:
  assumes "rx_inv r"
  shows "\<exists>r'. rlc_um_check_timer_dar_time_out alloc ctxt lock r = Some r' \<and> rx_inv r' \<and> rx_sn_length r' = rx_sn_length r
    \<and> (running (t_reordering r) \<and> um_timer_expired ctxt (t_reordering r) \<and> lock \<longrightarrow>
        vr_uh r' = vr_uh r \<and> win_off r (vr_ux r) \<le> win_off r (vr_ur r') \<and> dar_buffer r (vr_ur r') = None
        \<and> (\<forall>x. valid_sn r x \<and> win_off r (vr_ux r) \<le> win_off r x \<and> win_off r x < win_off r (vr_ur r') \<longrightarrow> dar_buffer r x \<noteq> None)
        \<and> (\<exists>k. vr_ur r' = (vr_ur r + int k) mod rx_sn_modulo r \<and> int k < rx_sn_modulo r
            \<and> set (sn_range (rx_sn_modulo r) (vr_ur r) k) = {x. valid_sn r x \<and> win_off r (vr_ur r) \<le> win_off r x \<and> win_off r x < win_off r (vr_ur r')}
            \<and> dar_buffer r' = (\<lambda>x. if x \<in> set (sn_range (rx_sn_modulo r) (vr_ur r) k) then None else dar_buffer r x)
            \<and> um_asm r' = um_asm (fold (um_reassembled alloc) (sn_range (rx_sn_modulo r) (vr_ur r) k)
                 (r\<lparr>stat_timer_reordering_timed_out := to_u32 (stat_timer_reordering_timed_out r + 1)\<rparr>))))"
proof (cases "running (t_reordering r) \<and> um_timer_expired ctxt (t_reordering r) \<and> lock")
  case False
  then show ?thesis using assms by (auto simp: rlc_um_check_timer_dar_time_out_def Let_def)
next
  case True
  define r1 where "r1 = r\<lparr>stat_timer_reordering_timed_out := to_u32 (stat_timer_reordering_timed_out r + 1)\<rparr>"
  have "rx_inv r1" unfolding r1_def by (simp only: stat_rx_inv assms)
  then have inv: "rx_vars_ok r1" "rx_buffer_ok r1" "rx_timer_ok r1" by (auto simp: rx_inv_def)
  have ctl: "rx_ctl r1 = rx_ctl r" by (simp add: r1_def rx_ctl_def)
  have d1: "dar_buffer r1 = dar_buffer r" by (simp add: r1_def)
  note c1 = rx_ctl_eqD [OF ctl] ctl_simps [OF ctl]
  have cfg: "rx_configured r1" and v: "valid_sn r1 (vr_ur r1)" "valid_sn r1 (vr_ux r1)" "valid_sn r1 (vr_uh r1)"
    using inv(1) by (auto simp: rx_vars_ok_def)
  have sized: "pdus_sized r1" and slots: "\<And>x. dar_buffer r1 x \<noteq> None \<Longrightarrow> valid_sn r1 x \<and> win_off r1 x < rx_um_window_size r1"
    using inv(2) by (auto simp: rx_buffer_ok_def)
  have ux: "win_off r1 (vr_ur r1) \<le> win_off r1 (vr_ux r1)" "win_off r1 (vr_ux r1) \<le> rx_um_window_size r1"
    using inv(3) True c1 by (auto simp: rx_timer_ok_def)
  note f = rx_configured_facts [OF cfg]
  let ?r2 = "r1\<lparr>vr_ur := vr_ux r1\<rparr>"
  have "nat (rx_um_window_size ?r2 - win_off ?r2 (vr_ur ?r2)) < Suc (nat (rx_sn_modulo ?r2))"
    using f ux win_off_range(1) [OF cfg, of "vr_ux r1"] by simp
  from advance_on_timeout [of ?r2, OF _ _ _ _ this] cfg v ux slots
  obtain u where u: "um_advance_vr_ur (Suc (nat (rx_sn_modulo r1))) ?r2 = Some (?r2\<lparr>vr_ur := u\<rparr>)" "valid_sn r1 u"
    "win_off r1 (vr_ux r1) \<le> win_off r1 u" "win_off r1 u \<le> rx_um_window_size r1" "dar_buffer r1 u = None"
    "\<forall>x. valid_sn r1 x \<and> win_off r1 (vr_ux r1) \<le> win_off r1 x \<and> win_off r1 x < win_off r1 u \<longrightarrow> dar_buffer r1 x \<noteq> None" by auto
  define r3 where "r3 = r1\<lparr>vr_ur := u\<rparr>"
  have r3: "?r2\<lparr>vr_ur := u\<rparr> = r3" "r3 = set_vars u (vr_uh r1) r1" by (simp_all add: r3_def set_vars_def)
  have "win_off r1 (vr_ur r1) \<le> win_off r1 u" using ux u by linarith
  from reassemble_prefix [of r3 "vr_ur r1" u alloc] this cfg v sized u(2,4)
  obtain r4 k where r4: "rlc_um_try_reassembly alloc r3 (vr_ur r1) u = Some r4" "rx_ctl r4 = rx_ctl r3"
    and d4: "dar_buffer r4 = (\<lambda>x. if valid_sn r1 x \<and> win_off r1 (vr_ur r1) \<le> win_off r1 x \<and> win_off r1 x < win_off r1 u then None else dar_buffer r1 x)"
    and k: "r4 = fold (um_reassembled alloc) (sn_range (rx_sn_modulo r1) (vr_ur r1) k) r3" "(vr_ur r1 + int k) mod rx_sn_modulo r1 = u" "int k < rx_sn_modulo r1"
      "set (sn_range (rx_sn_modulo r1) (vr_ur r1) k) = {x. valid_sn r1 x \<and> win_off r1 (vr_ur r1) \<le> win_off r1 x \<and> win_off r1 x < win_off r1 u}"
    by (auto simp: r3_def cong: if_cong)
  have "um_consumes alloc k r1 r4"
    unfolding um_consumes_def k(2) by (intro exI [of _ "vr_uh r1"]) (simp add: k(1) r3(2) set_vars_fold)
  note cons = um_consumes_frame [OF this]
  note c4 = rx_ctl_eqD [OF r4(2)] ctl_simps [OF r4(2)]
  have vars4: "rx_vars_ok r4" using c4(12) inv(1) u(2-4) by (simp add: r3_def rx_vars_ok_def)
  have buf4: "rx_buffer_ok r4"
    unfolding rx_buffer_ok_def
  proof (intro conjI allI impI)
    show "pdus_sized r4" using sized c4(14) by (auto simp: pdus_sized_def d4 r3_def split: if_splits)
    fix x assume "dar_buffer r4 x \<noteq> None"
    then have x: "dar_buffer r1 x \<noteq> None" "\<not> (valid_sn r1 x \<and> win_off r1 (vr_ur r1) \<le> win_off r1 x \<and> win_off r1 x < win_off r1 u)"
      by (auto simp: d4 split: if_splits)
    moreover have "win_off r1 (vr_ur r1) \<le> win_off r1 x" using inv(2) x(1) by (auto simp: rx_buffer_ok_def)
    ultimately show "valid_sn r4 x" "win_off r4 (vr_ur r4) \<le> win_off r4 x" "win_off r4 x < rx_um_window_size r4"
      using slots [OF x(1)] by (auto simp: c4 r3_def)
  qed
  note fin = restart_timer_or_stop [OF vars4 buf4, of ctxt]
  obtain t x where tx: "um_restart_timer_or_stop ctxt r4 = r4\<lparr>t_reordering := t, vr_ux := x\<rparr>" using fin(2) by blast
  let ?r' = "um_restart_timer_or_stop ctxt r4"
  have asm: "um_asm (q\<lparr>t_reordering := t, vr_ux := x\<rparr>) = um_asm q" for q
    by (simp add: um_asm_def um_pending_def split: option.split)
  have "rlc_um_check_timer_dar_time_out alloc ctxt lock r = Some ?r'"
    using True u(1) r4(1) valid_sn_s16 [OF cfg v(1)] valid_sn_s16 [OF cfg u(2)]
    by (simp add: rlc_um_check_timer_dar_time_out_def r1_def [symmetric] r3(1) Let_def
        del: um_advance_vr_ur.simps) (simp add: r3_def)
  moreover have "rx_sn_length ?r' = rx_sn_length r" "dar_buffer r u = None"
    "vr_ur ?r' = u" "vr_uh ?r' = vr_uh r" "um_asm ?r' = um_asm (fold (um_reassembled alloc) (sn_range (rx_sn_modulo r1) (vr_ur r1) k) r1)"
    using c1 c4(3) cons k(2) u(5) asm d1 by (auto simp: tx r3_def)
  moreover have "win_off r (vr_ux r) \<le> win_off r u" using u(3) c1 by simp
  moreover have "\<forall>x. valid_sn r x \<and> win_off r (vr_ux r) \<le> win_off r x \<and> win_off r x < win_off r u \<longrightarrow> dar_buffer r x \<noteq> None"
    using u(6) c1 d1 by simp
  moreover have "set (sn_range (rx_sn_modulo r) (vr_ur r) k) = {x. valid_sn r x \<and> win_off r (vr_ur r) \<le> win_off r x \<and> win_off r x < win_off r u}"
    using k(4) c1 by simp
  moreover have "dar_buffer ?r' = (\<lambda>x. if x \<in> set (sn_range (rx_sn_modulo r) (vr_ur r) k) then None else dar_buffer r x)"
    using cons(5) [OF sized, unfolded c1(1,6) d1] by (simp add: tx)
  ultimately show ?thesis using fin(1) k(2,3) c1(1,6) unfolding r1_def [symmetric]
    by (intro exI [of _ ?r'] conjI impI exI [of _ k]) simp_all
qed

section \<open>Runs of the receiver\<close>

inductive um_rx_run :: "allocator \<Rightarrow> rlc_um_entity \<Rightarrow> rlc_um_entity \<Rightarrow> bool" for alloc r0 where
  start: "um_rx_run alloc r0 r0"
| receive: "um_rx_run alloc r0 r \<Longrightarrow> \<forall>tb \<in> set tbs. pdu_fits (rx_sn_length r) tb
     \<Longrightarrow> rlc_um_receive alloc ctxt r tbs = Some r' \<Longrightarrow> um_rx_run alloc r0 r'"
| timer: "um_rx_run alloc r0 r \<Longrightarrow> rlc_um_check_timer_dar_time_out alloc ctxt lock r = Some r' \<Longrightarrow> um_rx_run alloc r0 r'"

lemma configure_rx_inv:
  assumes "rxl = 5 \<or> rxl = 10" "txl \<in> {0, 5, 10}" "dar_buffer r = (\<lambda>i. None)" "\<not> running (t_reordering r)"
  shows "rx_inv (rlc_um_configure r tm rxl txl 0)"
proof -
  let ?q = "rlc_um_configure r tm rxl txl 0"
  have ok: "\<not> (rxl \<noteq> 10 \<and> rxl \<noteq> 5 \<and> rxl \<noteq> 0)" "\<not> (txl \<noteq> 10 \<and> txl \<noteq> 5 \<and> txl \<noteq> 0)" using assms(1,2) by auto
  note d = rlc_um_configure_def Let_def rlc_um_reset_state_variables_def rlc_um_init_timer_reordering_def
  have z: "vr_ur ?q = 0" "vr_ux ?q = 0" "vr_uh ?q = 0" "dar_buffer ?q = (\<lambda>i. None)" "\<not> running (t_reordering ?q)"
    unfolding d if_not_P [OF ok(1)] if_not_P [OF ok(2)] using assms(3,4) by simp_all
  have "rx_sn_length ?q = rxl \<and> rx_sn_modulo ?q = (if rxl = 10 then 1024 else 32)
    \<and> rx_um_window_size ?q = (if rxl = 10 then 512 else 16) \<and> rx_header_min_length_in_bytes ?q = (if rxl = 10 then 2 else 1)"
    unfolding d if_not_P [OF ok(1)] if_not_P [OF ok(2)] using assms(1) by (elim disjE) simp_all
  then show ?thesis
    using assms(1) z
    by (auto simp: rx_inv_def rx_vars_ok_def rx_configured_def valid_sn_def win_off_def rx_buffer_ok_def pdus_sized_def rx_timer_ok_def)
qed

lemma rx_run_inv: "um_rx_run alloc r0 r \<Longrightarrow> rx_inv r0 \<Longrightarrow> rx_inv r"
proof (induction rule: um_rx_run.induct)
  case (receive r tbs ctxt r')
  then show ?case using receive_inv [of r tbs alloc ctxt] by auto
next
  case (timer r ctxt lock r')
  then show ?case using check_timer_inv [of r alloc ctxt lock] by auto
qed

text \<open>
  C25. The receiver never leaves its invariant and never loops: starting from a configured entity
  with an empty buffer, after any interleaving of timer checks and of received lists of transport blocks
  that are at least as long as the fixed header and carry at most 128 length indicators, every buffered PDU lies between VR(UR) and VR(UH) of the reordering window, the state
  variables are sequence numbers, a running timer has VR(UX) between VR(UR) and VR(UH), and the
  next reception and the next timer check both return a state.
\<close>
theorem rlc_um_receiver_invariant:
  assumes "rxl = 5 \<or> rxl = 10" "txl \<in> {0, 5, 10}" "dar_buffer r0 = (\<lambda>i. None)" "\<not> running (t_reordering r0)"
    and "um_rx_run alloc (rlc_um_configure r0 tm rxl txl 0) r"
    and "\<forall>tb \<in> set tbs. pdu_fits (rx_sn_length r) tb"
  shows "(\<forall>x. dar_buffer r x \<noteq> None \<longrightarrow> 0 \<le> x \<and> x < rx_sn_modulo r
            \<and> win_off r (vr_ur r) \<le> win_off r x \<and> win_off r x < rx_um_window_size r)
    \<and> valid_sn r (vr_ur r) \<and> valid_sn r (vr_ux r) \<and> valid_sn r (vr_uh r)
    \<and> (running (t_reordering r) \<longrightarrow> win_off r (vr_ur r) \<le> win_off r (vr_ux r) \<and> win_off r (vr_ux r) \<le> rx_um_window_size r)
    \<and> (\<exists>r'. rlc_um_receive alloc ctxt r tbs = Some r' \<and> rx_inv r')
    \<and> (\<exists>r'. rlc_um_check_timer_dar_time_out alloc ctxt lock r = Some r' \<and> rx_inv r')"
proof -
  have inv: "rx_inv r" using rx_run_inv [OF assms(5)] configure_rx_inv [OF assms(1-4)] by blast
  then show ?thesis
    using receive_inv [OF inv assms(6), of alloc ctxt] check_timer_inv [OF inv, of alloc ctxt lock]
    by (auto simp: rx_inv_def rx_vars_ok_def rx_buffer_ok_def rx_timer_ok_def valid_sn_def)
qed

theorem rlc_um_receiver_invariant_witness:
  "\<exists>r'. rlc_um_receive (\<lambda>n. None) \<lparr>module_id = 0, enb_flag = True, rnti = 1, frame = 3, subframe = 4\<rparr>
      (rlc_um_configure rlc_um_zero 35 5 5 0) [\<lparr>data_ptr = (\<lambda>i. 5), tb_size = 3\<rparr>] = Some r' \<and> rx_inv r'"
proof -
  let ?r = "rlc_um_configure rlc_um_zero 35 5 5 0" and ?tb = "\<lparr>data_ptr = (\<lambda>i. 5), tb_size = 3\<rparr>"
  have "dar_buffer rlc_um_zero = (\<lambda>i. None)" "\<not> running (t_reordering rlc_um_zero)"
    "\<forall>tb \<in> set [?tb]. pdu_fits (rx_sn_length ?r) tb"
    by (simp_all add: rlc_um_zero_def rlc_um_configure_def rlc_um_reset_state_variables_def rlc_um_init_timer_reordering_def
        pdu_fits_def um_fixed_len_def um_pdu_e_def bit_iff_odd_drop_bit)
  from rlc_um_receiver_invariant [OF _ _ this(1,2) um_rx_run.start this(3)] show ?thesis by simp
qed

text \<open>
  C29. A PDU whose sequence number is below VR(UR), or above it and already buffered, changes nothing
  but the statistics: no state variable moves, the buffer keeps the first copy and nothing is
  delivered.
\<close>
theorem rlc_um_receive_drops_stale_and_duplicate:
  assumes "rx_inv r"
  shows "(win_off r (um_pdu_sn r (data_ptr pdu)) < win_off r (vr_ur r) \<longrightarrow>
       rlc_um_receive_process_dar alloc ctxt r pdu n =
         Some (r\<lparr>stat_rx_data_pdu_out_of_window := to_u32 (stat_rx_data_pdu_out_of_window r + 1),
                stat_rx_data_bytes_out_of_window := to_u32 (stat_rx_data_bytes_out_of_window r + n)\<rparr>))
    \<and> (win_off r (vr_ur r) < win_off r (um_pdu_sn r (data_ptr pdu)) \<and> dar_buffer r (um_pdu_sn r (data_ptr pdu)) \<noteq> None \<longrightarrow>
       rlc_um_receive_process_dar alloc ctxt r pdu n =
         Some (r\<lparr>stat_rx_data_pdus_duplicate := to_u32 (stat_rx_data_pdus_duplicate r + 1),
                stat_rx_data_bytes_duplicate := to_u32 (stat_rx_data_bytes_duplicate r + n)\<rparr>))"
  using receive_discard [OF assms refl] receive_duplicate [OF assms refl]
  by (simp add: um_discard_out_of_window_def um_count_duplicate_def)

theorem rlc_um_receive_drops_stale_and_duplicate_witness:
  "rlc_um_receive_process_dar (\<lambda>n. None) \<lparr>module_id = 0, enb_flag = True, rnti = 1, frame = 3, subframe = 4\<rparr>
      (rlc_um_configure rlc_um_zero 35 5 5 0) \<lparr>data_ptr = (\<lambda>i. 31), tb_size = 3\<rparr> 3
    = Some ((rlc_um_configure rlc_um_zero 35 5 5 0)
        \<lparr>stat_rx_data_pdu_out_of_window := 1, stat_rx_data_bytes_out_of_window := 3\<rparr>)"
proof -
  have "rx_inv (rlc_um_configure rlc_um_zero 35 5 5 0)"
    by (rule configure_rx_inv) (simp_all add: rlc_um_zero_def)
  from rlc_um_receive_drops_stale_and_duplicate [OF this, of "\<lparr>data_ptr = (\<lambda>i. 31), tb_size = 3\<rparr>"]
  show ?thesis
    by (simp add: rlc_um_configure_def rlc_um_zero_def rlc_um_init_timer_reordering_def um_pdu_sn_def win_off_def
        rlc_um_reset_state_variables_def to_u32_def)
qed

lemma window_update_at_ur:
  assumes "rx_vars_ok r" "sn = vr_ur r" "um_window_update alloc r sn = Some r'"
  shows "vr_ur r' = sn" "dar_buffer r' = dar_buffer r" "um_consumes alloc 0 r r'"
proof -
  let ?M = "rx_sn_modulo r" and ?W = "rx_um_window_size r"
  have cfg: "rx_configured r" and v: "valid_sn r (vr_ur r)" "valid_sn r (vr_uh r)" and ur: "win_off r (vr_ur r) \<le> ?W"
    using assms(1) by (auto simp: rx_vars_ok_def)
  note f = rx_configured_facts [OF cfg] and nx = next_sn [OF cfg v(1)]
  define h where "h = (vr_ur r + 1) mod ?M"
  have "win_off (r\<lparr>vr_uh := h\<rparr>) (vr_ur r) = (?W - 1) mod ?M"
    by (simp add: win_off_def h_def mod_simps algebra_simps)
  then have "win_off (r\<lparr>vr_uh := h\<rparr>) (vr_ur r) = ?W - 1" using f by simp
  moreover have "rx_configured (r\<lparr>vr_uh := h\<rparr>)" "valid_sn (r\<lparr>vr_uh := h\<rparr>) h" "valid_sn (r\<lparr>vr_uh := h\<rparr>) (vr_ur r)"
    using cfg nx(1) v(1) by (simp_all add: h_def rx_configured_def valid_sn_def)
  ultimately have "rlc_um_in_reordering_window (r\<lparr>vr_uh := h\<rparr>) (vr_ur r) = 0"
    using in_reordering_window_spec [of "r\<lparr>vr_uh := h\<rparr>" "vr_ur r"] f by simp
  then have "um_window_update alloc r sn = Some r \<or> um_window_update alloc r sn = Some (r\<lparr>vr_uh := h\<rparr>)"
    using nx(2) assms(2) valid_sn_s16 [OF cfg v(1)] by (simp add: um_window_update_def Let_def h_def)
  then have "r' = r \<or> r' = r\<lparr>vr_uh := h\<rparr>" using assms(3) by auto
  then show "vr_ur r' = sn" "dar_buffer r' = dar_buffer r" "um_consumes alloc 0 r r'"
    using assms(2) um_consumes_0 [of r alloc] v(1) by (auto simp: valid_sn_def)
qed

lemma receive_in_sequence:
  assumes "rx_inv r" "pdu_fits (rx_sn_length r) pdu" "um_accepts r pdu"
    and "sn = um_pdu_sn r (data_ptr pdu)"
  shows "\<exists>r' k. rlc_um_receive_process_dar alloc ctxt r pdu n = Some r' \<and> rx_inv r'
    \<and> rx_sn_modulo r' = rx_sn_modulo r \<and> rx_um_window_size r' = rx_um_window_size r
    \<and> vr_uh r' = (if win_off r sn < rx_um_window_size r then vr_uh r else (sn + 1) mod rx_sn_modulo r)
    \<and> vr_ur r' = (vr_ur r + int k) mod rx_sn_modulo r \<and> int k < rx_sn_modulo r
    \<and> dar_buffer r' = (\<lambda>x. if x \<in> set (sn_range (rx_sn_modulo r) (vr_ur r) k) then None else ((dar_buffer r)(sn := Some pdu)) x)
    \<and> um_asm r' = um_asm (fold (um_reassembled alloc) (sn_range (rx_sn_modulo r) (vr_ur r) k)
        ((if dar_buffer r sn = None then r else um_count_duplicate r n)\<lparr>dar_buffer := (dar_buffer r)(sn := Some pdu)\<rparr>))
    \<and> (sn = vr_ur r \<longrightarrow> 0 < k \<and> dar_buffer r' sn = None
         \<and> (\<forall>x\<in>set (sn_range (rx_sn_modulo r) (vr_ur r) k). x = sn \<or> dar_buffer r x \<noteq> None)
         \<and> (dar_buffer r (vr_ur r') = None \<or> vr_ur r' = vr_uh r'))
    \<and> (sn \<noteq> vr_ur r \<longrightarrow> vr_ur r' = (if win_off r' (vr_ur r) < rx_um_window_size r then vr_ur r
                                       else (vr_uh r' - rx_um_window_size r) mod rx_sn_modulo r))"
proof -
  define r2 where "r2 = (if dar_buffer r sn = None then r else um_count_duplicate r n)\<lparr>dar_buffer := (dar_buffer r)(sn := Some pdu)\<rparr>"
  have ctl: "rx_ctl r2 = rx_ctl r" unfolding r2_def by simp
  have d2: "dar_buffer r2 = (dar_buffer r)(sn := Some pdu)" unfolding r2_def by simp
  note c = rx_ctl_eqD [OF ctl] ctl_simps [OF ctl]
  have inv: "rx_vars_ok r2" "valid_sn r (vr_ur r)" "valid_sn r (vr_uh r)" "rx_configured r" "pdus_sized r" "win_off r (vr_ur r) \<le> rx_um_window_size r"
    using assms(1) c by (auto simp: rx_inv_def rx_vars_ok_def rx_buffer_ok_def)
  have sized: "pdus_sized r2" using inv(5) assms(2) c(5) by (auto simp: pdus_sized_def d2 split: if_splits)
  have acc: "win_off r (vr_ur r) \<le> win_off r sn" "dar_buffer r sn = None \<or> win_off r (vr_ur r) = win_off r sn"
    using assms(3,4) by (auto simp: um_accepts_def Let_def)
  have snv: "valid_sn r sn" using um_pdu_sn_valid [OF inv(4)] assms(4) by simp
  from receive_store [OF assms(1,4) acc assms(2), where n = n, folded r2_def]
  obtain r3 r4 k3 k4 where k34: "int k3 < rx_sn_modulo r" "int k4 < rx_sn_modulo r3" and r4: "um_window_update alloc r2 sn = Some r3"
      "rlc_um_receive_process_dar alloc ctxt r pdu n = Some (um_update_timer ctxt r4)"
      "rx_vars_ok r4" "rx_buffer_ok r4" "um_consumes alloc k3 r2 r3" "um_consumes alloc k4 r3 r4"
      "\<forall>x\<in>set (sn_range (rx_sn_modulo r3) (vr_ur r3) k4). dar_buffer r3 x \<noteq> None"
      "sn = vr_ur r3 \<longrightarrow> dar_buffer r4 sn = None \<and> win_off r3 sn < win_off r3 (vr_ur r4) \<and> (dar_buffer r3 (vr_ur r4) = None \<or> vr_ur r4 = vr_uh r3)"
    and uh3: "vr_uh r3 = (if win_off r sn < rx_um_window_size r then vr_uh r else (sn + 1) mod rx_sn_modulo r)"
    and ur3: "vr_ur r3 = (if win_off r sn < rx_um_window_size r \<or> win_off r3 (vr_ur r) < rx_um_window_size r then vr_ur r
                   else (vr_uh r3 - rx_um_window_size r) mod rx_sn_modulo r)"
    and r43: "vr_uh r4 = vr_uh r3" "sn \<noteq> vr_ur r3 \<longrightarrow> r4 = r3" by blast
  obtain t x where tx: "um_update_timer ctxt r4 = r4\<lparr>t_reordering := t, vr_ux := x\<rparr>" using update_timer_frame by blast
  have asm: "um_asm (r4\<lparr>t_reordering := t, vr_ux := x\<rparr>) = um_asm r4"
    by (simp add: um_asm_def um_pending_def split: option.split)
  define k where "k = (if sn = vr_ur r then k4 else k3)"
  have at: "vr_ur r3 = sn" "dar_buffer r3 = dar_buffer r2" "um_consumes alloc 0 r2 r3" if "sn = vr_ur r"
    using window_update_at_ur [OF inv(1) _ r4(1)] that c(1) by simp_all
  have ne: "sn \<noteq> vr_ur r3" if "sn \<noteq> vr_ur r"
  proof (cases "win_off r sn < rx_um_window_size r \<or> win_off r3 (vr_ur r) < rx_um_window_size r")
    case True
    then show ?thesis using ur3 that by auto
  next
    case False
    have "vr_ur r3 = (sn + 1 - rx_um_window_size r) mod rx_sn_modulo r" using ur3 uh3 False by (simp add: mod_diff_left_eq)
    then have "(sn - vr_ur r3) mod rx_sn_modulo r = (rx_um_window_size r - 1) mod rx_sn_modulo r" by (simp add: mod_diff_right_eq)
    also have "\<dots> \<noteq> 0" using inv(4) by (auto simp: rx_configured_def)
    finally show ?thesis by auto
  qed
  have cons: "um_consumes alloc k r2 r4"
    using um_consumes_trans [OF at(3) r4(6)] r4(5) r43(2) ne by (cases "sn = vr_ur r") (simp_all add: k_def)
  note fr = um_consumes_frame(3,4) [OF cons, unfolded c(1,6)] um_consumes_frame(5) [OF cons sized, unfolded c(1,6) d2]
  have sz3: "rx_sn_modulo r3 = rx_sn_modulo r" "rx_um_window_size r3 = rx_um_window_size r" using um_consumes_frame(2,6) [OF r4(5)] c(6,7) by simp_all
  have off: "win_off (um_update_timer ctxt r4) y = win_off r3 y" for y
    using r43(1) um_consumes_frame(2,6) [OF r4(6)] by (simp add: tx win_off_def)
  have ur: "0 < k \<and> dar_buffer r4 sn = None \<and> (\<forall>x\<in>set (sn_range (rx_sn_modulo r) (vr_ur r) k). x = sn \<or> dar_buffer r x \<noteq> None)
      \<and> (dar_buffer r (vr_ur r4) = None \<or> vr_ur r4 = vr_uh r4)" if "sn = vr_ur r"
  proof -
    have "dar_buffer r4 sn = None" "vr_ur r4 \<noteq> vr_ur r" "dar_buffer r3 (vr_ur r4) = None \<or> vr_ur r4 = vr_uh r3" using r4(8) that at by auto
    moreover from this have "0 < k" using fr(1) inv(2) by (cases "k = 0") (auto simp: valid_sn_def)
    moreover have "dar_buffer r3 x = dar_buffer r x" if "x \<noteq> sn" for x using at(2) d2 that \<open>sn = vr_ur r\<close> by simp
    moreover have "\<forall>x\<in>set (sn_range (rx_sn_modulo r) (vr_ur r) k). dar_buffer r3 x \<noteq> None" using r4(7) sz3 at(1) that by (simp add: k_def)
    ultimately show ?thesis using that r43(1) by metis
  qed
  have ur': "vr_ur r4 = (if win_off r3 (vr_ur r) < rx_um_window_size r then vr_ur r else (vr_uh r3 - rx_um_window_size r) mod rx_sn_modulo r)"
    if "sn \<noteq> vr_ur r"
  proof (cases "win_off r sn < rx_um_window_size r")
    case True
    then have "vr_uh r3 = vr_uh r" "vr_ur r3 = vr_ur r" "win_off r (vr_ur r) < rx_um_window_size r" using uh3 ur3 acc by simp_all
    moreover from this have "win_off r3 (vr_ur r) = win_off r (vr_ur r)" using sz3 by (simp add: win_off_def)
    ultimately show ?thesis using r43(2) ne [OF that] by simp
  next
    case False
    then show ?thesis using ur3 r43(2) ne [OF that] by simp
  qed
  have bnd: "int k < rx_sn_modulo r" "rx_sn_modulo r4 = rx_sn_modulo r" "rx_um_window_size r4 = rx_um_window_size r"
    using k34 sz3 um_consumes_frame(2,6) [OF cons] c(6,7) by (simp_all add: k_def)
  let ?q = "um_update_timer ctxt r4"
  have q: "vr_ur ?q = vr_ur r4" "vr_uh ?q = vr_uh r3" "dar_buffer ?q = dar_buffer r4" "um_asm ?q = um_asm r4"
      "rx_sn_modulo ?q = rx_sn_modulo r4" "rx_um_window_size ?q = rx_um_window_size r4" "rx_inv ?q"
    using asm r43(1) update_timer [OF r4(3,4), of ctxt] by (simp_all add: tx)
  show ?thesis
    unfolding r2_def [symmetric]
  proof (intro exI [of _ ?q] exI [of _ k] conjI impI)
    show "rlc_um_receive_process_dar alloc ctxt r pdu n = Some ?q" by (rule r4(2))
    show "rx_inv ?q" by (rule q(7))
    show "rx_sn_modulo ?q = rx_sn_modulo r" "rx_um_window_size ?q = rx_um_window_size r" "int k < rx_sn_modulo r" using q(5,6) bnd by simp_all
    show "vr_uh ?q = (if win_off r sn < rx_um_window_size r then vr_uh r else (sn + 1) mod rx_sn_modulo r)" unfolding q(2) by (rule uh3)
    show "vr_ur ?q = (vr_ur r + int k) mod rx_sn_modulo r" "um_asm ?q = um_asm (fold (um_reassembled alloc) (sn_range (rx_sn_modulo r) (vr_ur r) k) r2)"
      unfolding q by (rule fr)+
    show "dar_buffer ?q = (\<lambda>x. if x \<in> set (sn_range (rx_sn_modulo r) (vr_ur r) k) then None else ((dar_buffer r)(sn := Some pdu)) x)"
      unfolding q by (rule fr)
  next
    assume "sn = vr_ur r"
    from ur [OF this] show "0 < k" "dar_buffer ?q sn = None" "\<forall>x\<in>set (sn_range (rx_sn_modulo r) (vr_ur r) k). x = sn \<or> dar_buffer r x \<noteq> None"
      "dar_buffer r (vr_ur ?q) = None \<or> vr_ur ?q = vr_uh ?q" unfolding q r43(1) by blast+
  next
    assume "sn \<noteq> vr_ur r"
    then show "vr_ur ?q = (if win_off ?q (vr_ur r) < rx_um_window_size r then vr_ur r else (vr_uh ?q - rx_um_window_size r) mod rx_sn_modulo r)"
      unfolding q off by (rule ur')
  qed
qed



text \<open>
  C28. Expiry of t-Reordering: the check returns; when it finds the timer running and expired and
  gets the lock, VR(UR) moves to the first sequence number at or above VR(UX) that is missing: that one has not been
  received and every one from VR(UX) up to it has; the sequence numbers from the old to the new VR(UR) are handed to
  reassembly in ascending order and their slots are emptied, every other slot and VR(UH) are as before, and the invariant
  holds again. Otherwise nothing but the statistics changes.
\<close>
theorem rlc_um_check_timer_dar_time_out_correct:
  assumes "rx_inv r"
  shows "\<exists>r'. rlc_um_check_timer_dar_time_out alloc ctxt lock r = Some r' \<and> rx_inv r'
    \<and> (running (t_reordering r) \<and> um_timer_expired ctxt (t_reordering r) \<and> lock \<longrightarrow>
        vr_uh r' = vr_uh r \<and> win_off r (vr_ux r) \<le> win_off r (vr_ur r') \<and> dar_buffer r (vr_ur r') = None
        \<and> (\<forall>x. valid_sn r x \<and> win_off r (vr_ux r) \<le> win_off r x \<and> win_off r x < win_off r (vr_ur r') \<longrightarrow> dar_buffer r x \<noteq> None)
        \<and> (\<exists>k. vr_ur r' = (vr_ur r + int k) mod rx_sn_modulo r \<and> int k < rx_sn_modulo r
            \<and> set (sn_range (rx_sn_modulo r) (vr_ur r) k) = {x. valid_sn r x \<and> win_off r (vr_ur r) \<le> win_off r x \<and> win_off r x < win_off r (vr_ur r')}
            \<and> dar_buffer r' = (\<lambda>x. if x \<in> set (sn_range (rx_sn_modulo r) (vr_ur r) k) then None else dar_buffer r x)
            \<and> um_asm r' = um_asm (fold (um_reassembled alloc) (sn_range (rx_sn_modulo r) (vr_ur r) k)
                 (r\<lparr>stat_timer_reordering_timed_out := to_u32 (stat_timer_reordering_timed_out r + 1)\<rparr>))))
    \<and> (\<not> (running (t_reordering r) \<and> um_timer_expired ctxt (t_reordering r) \<and> lock) \<longrightarrow>
        (\<exists>c. r' = r\<lparr>stat_timer_reordering_timed_out := c\<rparr>))"
proof -
  obtain r' where r': "rlc_um_check_timer_dar_time_out alloc ctxt lock r = Some r'" "rx_inv r'"
    "running (t_reordering r) \<and> um_timer_expired ctxt (t_reordering r) \<and> lock \<longrightarrow>
        vr_uh r' = vr_uh r \<and> win_off r (vr_ux r) \<le> win_off r (vr_ur r') \<and> dar_buffer r (vr_ur r') = None
        \<and> (\<forall>x. valid_sn r x \<and> win_off r (vr_ux r) \<le> win_off r x \<and> win_off r x < win_off r (vr_ur r') \<longrightarrow> dar_buffer r x \<noteq> None)
        \<and> (\<exists>k. vr_ur r' = (vr_ur r + int k) mod rx_sn_modulo r \<and> int k < rx_sn_modulo r
            \<and> set (sn_range (rx_sn_modulo r) (vr_ur r) k) = {x. valid_sn r x \<and> win_off r (vr_ur r) \<le> win_off r x \<and> win_off r x < win_off r (vr_ur r')}
            \<and> dar_buffer r' = (\<lambda>x. if x \<in> set (sn_range (rx_sn_modulo r) (vr_ur r) k) then None else dar_buffer r x)
            \<and> um_asm r' = um_asm (fold (um_reassembled alloc) (sn_range (rx_sn_modulo r) (vr_ur r) k)
                 (r\<lparr>stat_timer_reordering_timed_out := to_u32 (stat_timer_reordering_timed_out r + 1)\<rparr>)))"
    using check_timer_inv [OF assms, of alloc ctxt lock] by blast
  have "r = r\<lparr>stat_timer_reordering_timed_out := stat_timer_reordering_timed_out r\<rparr>" by simp
  then have "\<exists>c. r' = r\<lparr>stat_timer_reordering_timed_out := c\<rparr>"
    if "\<not> (running (t_reordering r) \<and> um_timer_expired ctxt (t_reordering r) \<and> lock)"
    using that r'(1) unfolding rlc_um_check_timer_dar_time_out_def Let_def
    by (metis option.inject)
  then show ?thesis using r' by blast
qed

theorem rlc_um_check_timer_dar_time_out_correct_witness:
  "\<exists>r'. rlc_um_check_timer_dar_time_out (\<lambda>n. None) \<lparr>module_id = 0, enb_flag = True, rnti = 1, frame = 30, subframe = 4\<rparr> True
      ((rlc_um_configure rlc_um_zero 35 5 5 0)\<lparr>t_reordering :=
         \<lparr>ms_time_out = 235, ms_start = 200, ms_duration = 35, running = True, timed_out = False\<rparr>\<rparr>) = Some r' \<and> vr_ur r' = 0"
proof -
  let ?r = "(rlc_um_configure rlc_um_zero 35 5 5 0)\<lparr>t_reordering :=
         \<lparr>ms_time_out = 235, ms_start = 200, ms_duration = 35, running = True, timed_out = False\<rparr>\<rparr>"
  note d = rlc_um_configure_def rlc_um_zero_def rlc_um_reset_state_variables_def rlc_um_init_timer_reordering_def
  let ?c = "\<lparr>module_id = 0, enb_flag = True, rnti = 1, frame = 30, subframe = 4\<rparr>"
  have "rx_inv ?r"
    by (simp add: d rx_inv_def rx_vars_ok_def rx_configured_def valid_sn_def win_off_def rx_buffer_ok_def pdus_sized_def rx_timer_ok_def)
  from rlc_um_check_timer_dar_time_out_correct [OF this, of "\<lambda>n. None" ?c True]
  obtain r' where r': "rlc_um_check_timer_dar_time_out (\<lambda>n. None) ?c True ?r = Some r'" by blast
  have "um_timer_expired ?c (t_reordering ?r)" "running (t_reordering ?r)"
    by (simp_all add: um_timer_expired_def PROTOCOL_CTXT_TIME_MILLI_SECONDS_def to_u32_def)
  with r' show ?thesis
    by (auto simp: d rlc_um_check_timer_dar_time_out_def rlc_um_get_pdu_from_dar_buffer_def rlc_um_try_reassembly_def
        um_restart_timer_or_stop_def rlc_um_in_window_def rlc_um_stop_and_reset_timer_reordering_def to_s16_def)
qed

text \<open>
  Two deviations. A timer whose VR(UX) has been reached keeps running when VR(UX), VR(UR) and VR(UH)
  coincide; and a PDU shorter than its header stays in the buffer although VR(UR) moves past it.
\<close>

lemma um_timer_not_stopped_at_upper_edge:
  assumes "rx_configured r" "valid_sn r (vr_uh r)" "vr_ur r = vr_uh r" "vr_ux r = vr_uh r"
  shows "um_stop_if_ux_reached r = r"
proof -
  have "rlc_um_in_window r (vr_ur r) (vr_ux r) (vr_uh r) = 3"
    using in_window_ordered_spec [OF assms(1,2), of "vr_uh r" "vr_uh r" "vr_uh r"] assms win_off_uh [OF assms(1)] by simp
  then show ?thesis by (simp add: um_stop_if_ux_reached_def)
qed

lemma um_undersized_pdu_stays:
  assumes "rx_sn_length r = 10" "dar_buffer r sn = Some tb" "tb_size tb < 2"
  shows "\<exists>r'. um_reassembly_at alloc sn r = Some r' \<and> dar_buffer r' sn = Some tb"
  using assms by (simp add: um_reassembly_at_def um_reassembly_pdu_def um_pdu_header_def Let_def rlc_um_clear_rx_sdu_def)

end
