(* ===== verification/Rlc_Um_Segment.thy ===== *)
theory Rlc_Um_Segment
  imports Rlc_Um_Reassembly
begin

text \<open>
  Segmentation and concatenation in the RLC UM transmitter (\<open>rlc_um_segment.c\<close>): how many SDUs fit
  the PDU the MAC layer asks for, the copy of their bytes behind the length indicators, and the PDU
  header, for 10-bit and for 5-bit sequence numbers. The \<open>while\<close> loop around one PDU runs at most once
  (the code sets the grant to 0 behind it), so it is a conditional here. Offsets count from \<open>pdu_p\<close>.

  The lemmas relate the two passes to an abstract split of the queue, show that the length
  indicators written are the ones the receiver reads back, and that the PDU carries exactly the
  bytes taken from the queue; for 10-bit sequence numbers they show where the code differs.
\<close>

section \<open>First pass: how many SDUs fill the PDU\<close>

definition um_max_li_overhead :: "int \<Rightarrow> int" where
  "um_max_li_overhead nb_elements =
     (if nb_elements \<le> 1 then 0
      else to_u32 (cdiv ((nb_elements - 1) * 3) 2 + crem (nb_elements - 1) 2))"

definition um_data_pdu_size :: "rlc_um_entity \<Rightarrow> int \<Rightarrow> int" where
  "um_data_pdu_size r nb_bytes_to_transmit =
     (let all = to_u32 (buffer_occupancy r + tx_header_min_length_in_bytes r
                        + um_max_li_overhead (int (length (input_sdus r)))) in
      if to_u32 nb_bytes_to_transmit \<ge> all then all else to_u32 nb_bytes_to_transmit)"

record um_test =
  test_num_li :: int
  test_remaining_size_to_substract :: int
  test_remaining_num_li_to_substract :: int
  test_pdu_remaining :: int
  test_data_pdu_size :: int

fun um_test_fill_10 :: "rlc_um_tx_sdu_management list \<Rightarrow> int \<Rightarrow> int \<Rightarrow> um_test \<Rightarrow> um_test" where
  "um_test_fill_10 [] test_pdu_remaining_size li_len t = t"
| "um_test_fill_10 (sdu # sdus) test_pdu_remaining_size li_len t =
     (let rem = sdu_remaining_size sdu; li = li_len XOR 3;
          stop = t\<lparr>test_remaining_size_to_substract := 0, test_remaining_num_li_to_substract := 0\<rparr> in
      if rem > test_pdu_remaining_size then stop
      else if rem = test_pdu_remaining_size then stop
      else if to_u32 (rem + li) = to_u32 test_pdu_remaining_size then stop
      else if to_u32 (rem + li) < to_u32 test_pdu_remaining_size then
        um_test_fill_10 sdus (to_s32 (test_pdu_remaining_size - (rem + li))) li
          (t\<lparr>test_num_li := test_num_li t + 1, test_remaining_size_to_substract := li,
             test_remaining_num_li_to_substract := 1\<rparr>)
      else stop\<lparr>test_pdu_remaining := test_pdu_remaining t - 1\<rparr>)"

fun um_test_fill_5 :: "rlc_um_tx_sdu_management list \<Rightarrow> int \<Rightarrow> int \<Rightarrow> um_test \<Rightarrow> um_test" where
  "um_test_fill_5 [] test_pdu_remaining_size li_len t = t"
| "um_test_fill_5 (sdu # sdus) test_pdu_remaining_size li_len t =
     (let rem = sdu_remaining_size sdu; li = li_len XOR 3;
          stop = t\<lparr>test_remaining_size_to_substract := 0, test_remaining_num_li_to_substract := 0\<rparr> in
      if rem > test_pdu_remaining_size then stop
      else if rem = test_pdu_remaining_size then stop
      else if to_u32 (rem + li) = to_u32 test_pdu_remaining_size then
        stop\<lparr>test_pdu_remaining := to_s32 (test_pdu_remaining t - li),
             test_data_pdu_size := to_u32 (test_data_pdu_size t - li)\<rparr>
      else if to_u32 (rem + li) < to_u32 test_pdu_remaining_size then
        um_test_fill_5 sdus (to_s32 (test_pdu_remaining_size - (rem + li))) li
          (t\<lparr>test_num_li := test_num_li t + 1, test_remaining_size_to_substract := li,
             test_remaining_num_li_to_substract := 1\<rparr>)
      else stop\<lparr>test_pdu_remaining := test_pdu_remaining t - 1,
                test_data_pdu_size := to_u32 (test_data_pdu_size t - 1)\<rparr>)"

definition um_drop_last_li :: "um_test \<Rightarrow> um_test" where
  "um_drop_last_li t =
     (if test_remaining_num_li_to_substract t > 0
      then t\<lparr>test_num_li := test_num_li t - 1,
             test_pdu_remaining := to_s32 (test_pdu_remaining t - test_remaining_size_to_substract t)\<rparr>
      else t)"

section \<open>Second pass: filling the PDU\<close>

record um_fill =
  pdu_p :: mem
  pdu_data :: nat
  e_li_p :: nat
  li_length_in_bytes :: int
  fill_num_li :: int
  pdu_remaining_size :: int
  fi_last_byte_pdu_is_last_byte_sdu :: bool
  occupancy :: int

definition um_write_e_li :: "int \<Rightarrow> int \<Rightarrow> um_fill \<Rightarrow> um_fill" where
  "um_write_e_li num_li rem b =
     (let li = li_length_in_bytes b XOR 3;
          num = fill_num_li b + 1;
          e = e_li_p b; m = pdu_p b;
          b1 = b\<lparr>li_length_in_bytes := li, fill_num_li := num\<rparr> in
      if li = 2 then
        b1\<lparr>pdu_p := m(e := (if num = num_li then 0 else 0x80) OR word_of_int (drop_bit 4 rem),
                   e + 1 := word_of_int (push_bit 4 rem))\<rparr>
      else
        b1\<lparr>pdu_p := m(e + 1 := (if num \<noteq> num_li then m (e + 1) OR 0x08 else m (e + 1)) OR word_of_int (drop_bit 8 rem),
                   e + 2 := word_of_int (rem AND 0xFF)),
           e_li_p := e + 3\<rparr>)"

fun um_fill_pdu ::
  "int \<Rightarrow> rlc_um_tx_sdu_management list \<Rightarrow> um_fill \<Rightarrow> rlc_um_tx_sdu_management list \<times> um_fill" where
  "um_fill_pdu num_li [] b = ([], b)"
| "um_fill_pdu num_li (sdu # sdus) b =
     (let rem = sdu_remaining_size sdu;
          data_sdu_p = drop (nat (sdu_segmented_size sdu)) (first_byte sdu);
          copy = (\<lambda>n. b\<lparr>pdu_p := mem_write (pdu_p b) (pdu_data b) (take (nat n) data_sdu_p), occupancy := to_s32 (occupancy b - n)\<rparr>) in
      if rem > pdu_remaining_size b then
        (sdu\<lparr>sdu_remaining_size := to_u16 (rem - pdu_remaining_size b),
             sdu_segmented_size := to_u16 (sdu_segmented_size sdu + pdu_remaining_size b)\<rparr> # sdus,
         (copy (pdu_remaining_size b))\<lparr>fi_last_byte_pdu_is_last_byte_sdu := False, pdu_remaining_size := 0\<rparr>)
      else if rem = pdu_remaining_size b then
        (sdus, (copy rem)\<lparr>fi_last_byte_pdu_is_last_byte_sdu := True, pdu_remaining_size := 0\<rparr>)
      else if to_u32 (rem + (li_length_in_bytes b XOR 3)) < to_u32 (pdu_remaining_size b) then
        let b1 = um_write_e_li num_li rem ((copy rem)\<lparr>pdu_data := pdu_data b + nat rem\<rparr>) in
        um_fill_pdu num_li sdus
          (b1\<lparr>pdu_remaining_size := to_s32 (pdu_remaining_size b1 - (rem + li_length_in_bytes b1))\<rparr>)
      else
        (sdus, (copy rem)\<lparr>fi_last_byte_pdu_is_last_byte_sdu := True,
                         pdu_remaining_size := pdu_remaining_size b - rem\<rparr>))"

definition um_fi :: "bool \<Rightarrow> bool \<Rightarrow> int" where
  "um_fi first_byte_is_first last_byte_is_last =
     (if first_byte_is_first then 0 else 2) + (if last_byte_is_last then 0 else 1)"

definition um_head_is_first_byte :: "rlc_um_tx_sdu_management list \<Rightarrow> bool" where
  "um_head_is_first_byte sdus \<longleftrightarrow> sdu_remaining_size (hd sdus) = sdu_size (hd sdus)"

section \<open>One PDU\<close>

definition um_header_10 :: "int \<Rightarrow> bool \<Rightarrow> int \<Rightarrow> mem \<Rightarrow> mem" where
  "um_header_10 fi has_li vt m =
     (let b1 = word_of_int (push_bit 3 fi);
          b1 = (if has_li then b1 OR 0x04 else b1) in
      m(0 := b1 OR word_of_int (drop_bit 8 vt AND 0x03), 1 := word_of_int (vt AND 0xFF)))"

definition um_header_5 :: "int \<Rightarrow> bool \<Rightarrow> int \<Rightarrow> mem \<Rightarrow> mem" where
  "um_header_5 fi has_li vt m =
     (let b1 = word_of_int (push_bit 6 fi);
          b1 = (if has_li then b1 OR 0x20 else b1) in
      m(0 := b1 OR word_of_int (vt AND 0x1F)))"

definition um_emit_pdu ::
  "rlc_um_entity \<Rightarrow> rlc_um_tx_sdu_management list \<Rightarrow> int \<Rightarrow> mem \<Rightarrow> int \<Rightarrow> rlc_um_entity" where
  "um_emit_pdu r sdus bo' m tb_sizeP =
     r\<lparr>input_sdus := sdus, buffer_occupancy := bo', vt_us := to_u16 (vt_us r + 1),
       pdus_to_mac_layer := pdus_to_mac_layer r @ [\<lparr>tb_req_data_ptr = m, tb_req_size = tb_sizeP\<rparr>],
       allocs := Suc (allocs r)\<rparr>"

definition rlc_um_segment_10 :: "allocator \<Rightarrow> rlc_um_entity \<Rightarrow> rlc_um_entity" where
  "rlc_um_segment_10 alloc r =
     (let nb_bytes_to_transmit = to_s32 (nb_bytes_requested_by_mac r) in
      if nb_bytes_to_transmit < 3 then r
      else if input_sdus r = [] then r
      else
        let data_pdu_size = um_data_pdu_size r nb_bytes_to_transmit in
        case alloc (allocs r) of
          None \<Rightarrow> r\<lparr>allocs := Suc (allocs r)\<rparr>
        | Some blk \<Rightarrow>
            let remaining = to_s32 (data_pdu_size - 2);
                m = mem_write blk 0 [0, 0, 0, 0];
                t = um_drop_last_li (um_test_fill_10 (input_sdus r) remaining 1
                      \<lparr>test_num_li = 0, test_remaining_size_to_substract = 0,
                       test_remaining_num_li_to_substract = 0, test_pdu_remaining = remaining,
                       test_data_pdu_size = data_pdu_size\<rparr>);
                (sdus, b) = um_fill_pdu (test_num_li t) (input_sdus r)
                      \<lparr>pdu_p = m, pdu_data = 2 + nat (drop_bit 1 (test_num_li t * 3 + 1)), e_li_p = 2,
                       li_length_in_bytes = 1, fill_num_li = 0, pdu_remaining_size = test_pdu_remaining t,
                       fi_last_byte_pdu_is_last_byte_sdu = False, occupancy = buffer_occupancy r\<rparr>;
                fi = um_fi (um_head_is_first_byte (input_sdus r)) (fi_last_byte_pdu_is_last_byte_sdu b) in
            um_emit_pdu r sdus (occupancy b) (um_header_10 fi (fill_num_li b > 0) (vt_us r) (pdu_p b))
              (to_s32 (test_data_pdu_size t - pdu_remaining_size b)))"

definition rlc_um_segment_5 :: "allocator \<Rightarrow> rlc_um_entity \<Rightarrow> rlc_um_entity" where
  "rlc_um_segment_5 alloc r =
     (let nb_bytes_to_transmit = to_s32 (nb_bytes_requested_by_mac r) in
      if nb_bytes_to_transmit < 2 then r
      else if input_sdus r = [] then r
      else
        let data_pdu_size = um_data_pdu_size r nb_bytes_to_transmit in
        case alloc (allocs r) of
          None \<Rightarrow> r\<lparr>allocs := Suc (allocs r)\<rparr>
        | Some blk \<Rightarrow>
            let remaining = to_s32 (data_pdu_size - 1);
                m = mem_write blk 0 [0, 0, 0, 0];
                t = um_drop_last_li (um_test_fill_5 (input_sdus r) remaining 1
                      \<lparr>test_num_li = 0, test_remaining_size_to_substract = 0,
                       test_remaining_num_li_to_substract = 0, test_pdu_remaining = remaining,
                       test_data_pdu_size = data_pdu_size\<rparr>);
                (sdus, b) = um_fill_pdu (test_num_li t) (input_sdus r)
                      \<lparr>pdu_p = m, pdu_data = 1 + nat (drop_bit 1 (test_num_li t * 3 + 1)), e_li_p = 1,
                       li_length_in_bytes = 1, fill_num_li = 0, pdu_remaining_size = test_pdu_remaining t,
                       fi_last_byte_pdu_is_last_byte_sdu = False, occupancy = buffer_occupancy r\<rparr>;
                fi = um_fi (um_head_is_first_byte (input_sdus r)) (fi_last_byte_pdu_is_last_byte_sdu b) in
            um_emit_pdu r sdus (occupancy b) (um_header_5 fi (fill_num_li b > 0) (vt_us r) (pdu_p b))
              (to_s32 (test_data_pdu_size t - pdu_remaining_size b)))"

section \<open>Length indicators as octets\<close>

lemma nth_bit_big: "0 \<le> l \<Longrightarrow> l < 2048 \<Longrightarrow> 11 \<le> n \<Longrightarrow> \<not> bit (l::int) n"
proof -
  assume a: "0 \<le> l" "l < 2048" "11 \<le> n"
  have "(2::int) ^ 11 \<le> 2 ^ n" using a(3) by (intro power_increasing) auto
  then have "l < 2 ^ n" using a by simp
  then show ?thesis using a by (simp add: bit_iff_odd)
qed

lemma li_b1:
  assumes "0 \<le> l" "l < 2048" "c = 0 \<or> c = (0x80 :: byte)"
  shows "(c OR word_of_int (drop_bit 4 l)) AND 0x7F = word_of_int (drop_bit 4 l)"
    "drop_bit 7 ((c OR word_of_int (drop_bit 4 l)) AND 0x80) = (if c = 0 then 0 else 1)"
proof -
  have nb: "\<not> bit l 11" using nth_bit_big [OF assms(1,2)] by simp
  show "(c OR word_of_int (drop_bit 4 l)) AND 0x7F = word_of_int (drop_bit 4 l)"
    by (rule byte_eqI) (use assms(3) nb in \<open>auto simp: bit_simps\<close>)
  show "drop_bit 7 ((c OR word_of_int (drop_bit 4 l)) AND 0x80) = (if c = 0 then 0 else 1)"
    by (rule byte_eqI) (use assms(3) nb in \<open>auto simp: bit_simps\<close>)
qed

lemma li_b2:
  assumes "0 \<le> k" "k < 2048" "x = 0 \<or> x = (0x08 :: byte)"
  shows "((word_of_int (push_bit 4 l) OR x) OR word_of_int (drop_bit 8 k)) AND 0xF0 = word_of_int (push_bit 4 l)"
    "drop_bit 3 (((word_of_int (push_bit 4 l) OR x) OR word_of_int (drop_bit 8 k)) AND 0x08) = (if x = 0 then 0 else 1)"
    "((word_of_int (push_bit 4 l) OR x) OR word_of_int (drop_bit 8 k)) AND 0x07 = word_of_int (drop_bit 8 k)"
    "word_of_int (push_bit 4 l) AND 0xF0 = (word_of_int (push_bit 4 l) :: byte)"
proof -
  have nb: "\<not> bit k n" if "11 \<le> n" for n using nth_bit_big [OF assms(1,2) that] .
  note s = bit_simps bit_push_bit_iff_int
  show "((word_of_int (push_bit 4 l) OR x) OR word_of_int (drop_bit 8 k)) AND 0xF0 = word_of_int (push_bit 4 l)"
    by (rule byte_eqI) (use assms(3) nb in \<open>auto simp: s\<close>)
  show "drop_bit 3 (((word_of_int (push_bit 4 l) OR x) OR word_of_int (drop_bit 8 k)) AND 0x08) = (if x = 0 then 0 else 1)"
    by (rule byte_eqI) (use assms(3) nb in \<open>auto simp: s\<close>)
  show "((word_of_int (push_bit 4 l) OR x) OR word_of_int (drop_bit 8 k)) AND 0x07 = word_of_int (drop_bit 8 k)"
    by (rule byte_eqI) (use assms(3) nb in \<open>auto simp: s\<close>)
  show "word_of_int (push_bit 4 l) AND 0xF0 = (word_of_int (push_bit 4 l) :: byte)"
    by (rule byte_eqI) (auto simp: s)
qed

lemma li_uint:
  assumes "0 \<le> l" "l < 2048"
  shows "uint (word_of_int (drop_bit 4 l) :: byte) = l div 16"
    "drop_bit 4 (uint (word_of_int (push_bit 4 l) :: byte)) = l mod 16"
    "uint (word_of_int (drop_bit 8 l) :: byte) = l div 256"
    "uint (word_of_int (l AND 0xFF) AND 0xFF :: byte) = l mod 256"
proof -
  show "uint (word_of_int (drop_bit 4 l) :: byte) = l div 16"
    using assms by (simp add: uint_word_of_int drop_bit_eq_div)
  show "uint (word_of_int (drop_bit 8 l) :: byte) = l div 256"
    using assms by (simp add: uint_word_of_int drop_bit_eq_div)
  have ff: "w AND 0xFF = w" for w :: byte by (rule byte_eqI) (simp_all add: bit_simps)
  have "l AND 0xFF = l mod 256" using take_bit_eq_mask [of 8 l] by (simp add: mask_eq_exp_minus_1 take_bit_eq_mod)
  then show "uint (word_of_int (l AND 0xFF) AND 0xFF :: byte) = l mod 256"
    by (simp add: ff uint_word_of_int)
  have "drop_bit 4 (uint (word_of_int (push_bit 4 l) :: byte)) = (l * 16) mod 256 div 16"
    unfolding uint_word_of_int push_bit_eq_mult drop_bit_eq_div by simp
  also have "(l * 16) mod 256 = l mod 16 * 16" using mod_mult_mult2 [of l 16 16] by simp
  also have "l mod 16 * 16 div 16 = l mod 16" by simp
  finally show "drop_bit 4 (uint (word_of_int (push_bit 4 l) :: byte)) = l mod 16" .
qed

fun li_enc :: "int list \<Rightarrow> byte list" where
  "li_enc [] = []"
| "li_enc [l] = [word_of_int (drop_bit 4 l), word_of_int (push_bit 4 l)]"
| "li_enc (l1 # l2 # ls) =
     [0x80 OR word_of_int (drop_bit 4 l1),
      (word_of_int (push_bit 4 l1) OR (if ls = [] then 0 else 0x08)) OR word_of_int (drop_bit 8 l2),
      word_of_int (l2 AND 0xFF)] @ li_enc ls"

lemma length_li_enc [simp]: "length (li_enc ls) = li_octets (length ls)"
  by (induction ls rule: li_enc.induct) (simp_all add: li_octets_def drop_bit_eq_div)

lemma e_li_dec1:
  assumes "m 0 = c OR word_of_int (drop_bit 4 l)" "m 1 AND 0xF0 = word_of_int (push_bit 4 l)" "c = 0 \<or> c = (0x80 :: byte)"
    and "0 \<le> l" "l < 2048"
  shows "e_li_e1 m = (if c = 0 then 0 else 1)" "e_li_li1 m = l"
proof -
  show "e_li_e1 m = (if c = 0 then 0 else 1)" unfolding e_li_e1_def assms(1) by (rule li_b1 [OF assms(4,5,3)])
  have "e_li_li1 m = l div 16 * 16 + l mod 16"
    unfolding e_li_li1_def assms(1,2) li_b1 [OF assms(4,5,3)] li_uint [OF assms(4,5)] by (simp add: push_bit_eq_mult)
  then show "e_li_li1 m = l" by simp
qed

lemma e_li_dec2:
  assumes "m 1 = (word_of_int (push_bit 4 l) OR x) OR word_of_int (drop_bit 8 k)" "m 2 = word_of_int (k AND 0xFF)"
    and "x = 0 \<or> x = (0x08 :: byte)" "0 \<le> k" "k < 2048"
  shows "e_li_e2 m = (if x = 0 then 0 else 1)" "e_li_li2 m = k" "m 1 AND 0xF0 = word_of_int (push_bit 4 l)"
proof -
  show "e_li_e2 m = (if x = 0 then 0 else 1)" unfolding e_li_e2_def assms(1) by (rule li_b2 [OF assms(4,5,3)])
  show "m 1 AND 0xF0 = word_of_int (push_bit 4 l)" unfolding assms(1) by (rule li_b2 [OF assms(4,5,3)])
  have "e_li_li2 m = k div 256 * 256 + k mod 256"
    unfolding e_li_li2_def assms(1,2) li_b2 [OF assms(4,5,3)] li_uint [OF assms(4,5)] by (simp add: push_bit_eq_mult)
  then show "e_li_li2 m = k" by simp
qed

lemma read_li_enc:
  assumes "mem_read m 0 (li_octets (length ls)) = li_enc ls" "ls \<noteq> []" "\<forall>l\<in>set ls. 0 \<le> l \<and> l < 2048"
    and "length acc + length ls \<le> 128" "0 < sz" "sz \<le> 65535"
  shows "um_read_li m acc (sz + sum_list ls + int (li_octets (length ls))) = Some (0, acc @ ls, sz)"
  using assms
proof (induction ls arbitrary: m acc rule: li_enc.induct)
  case 1
  then show ?case by simp
next
  case (2 l)
  have rd: "mem_read m 0 2 = [word_of_int (drop_bit 4 l), word_of_int (push_bit 4 l)]" and l: "0 \<le> l" "l < 2048"
    using 2 by (simp_all only: length_Cons list.size li_octets(1) li_enc.simps) simp_all
  from rd have "m 0 = 0 OR word_of_int (drop_bit 4 l)" "m 1 = word_of_int (push_bit 4 l)"
    by (simp_all only: mem_read_def) (simp_all add: upt_rec)
  then have "e_li_e1 m = 0" "e_li_li1 m = l"
    using e_li_dec1 [of m 0 l] li_b2(4) [of 0 0 l] l by simp_all
  moreover have "to_s32 sz = sz" using 2(5,6) by (simp add: to_s32_def)
  ultimately show ?case using 2(4,5) by (simp add: um_read_li.simps [of m] li_octets Let_def)
next
  case (3 l1 l2 ls)
  let ?x = "if ls = [] then 0 else 0x08 :: byte" and ?r = "sz + sum_list ls + int (li_octets (length ls))"
  have l: "0 \<le> l1" "l1 < 2048" "0 \<le> l2" "l2 < 2048" "\<forall>l\<in>set ls. 0 \<le> l \<and> l < 2048" using 3(4) by auto
  have "mem_read m 0 (3 + li_octets (length ls)) = li_enc (l1 # l2 # ls)"
    using 3(2) by (simp only: length_Cons li_octets(2) add.commute)
  then have eq: "mem_read m 0 3 @ mem_read (mem_at m 3) 0 (li_octets (length ls)) = li_enc (l1 # l2 # ls)"
    by (simp only: mem_read_add mem_read_at) simp
  let ?h = "[0x80 OR word_of_int (drop_bit 4 l1),
      (word_of_int (push_bit 4 l1) OR ?x) OR word_of_int (drop_bit 8 l2), word_of_int (l2 AND 0xFF)] :: byte list"
  have "mem_read m 0 3 @ mem_read (mem_at m 3) 0 (li_octets (length ls)) = ?h @ li_enc ls"
    using eq unfolding li_enc.simps(3) .
  moreover have "length (mem_read m 0 3) = length ?h" by (simp only: length_mem_read list.size)
  ultimately have "mem_read m 0 3 = ?h \<and> mem_read (mem_at m 3) 0 (li_octets (length ls)) = li_enc ls"
    by (metis append_eq_append_conv)
  then have rd: "mem_read m 0 3 = ?h" and tl: "mem_read (mem_at m 3) 0 (li_octets (length ls)) = li_enc ls" by blast+
  from rd have "m 0 = 0x80 OR word_of_int (drop_bit 4 l1)"
      "m 1 = (word_of_int (push_bit 4 l1) OR ?x) OR word_of_int (drop_bit 8 l2)" "m 2 = word_of_int (l2 AND 0xFF)"
    by (simp_all only: mem_read_def) (simp_all add: upt_rec numeral_2_eq_2)
  note mm = this
  have "(?x = 0) = (ls = [])" by simp
  then have e2: "e_li_e2 m = (if ls = [] then 0 else 1)" "e_li_li2 m = l2" "m 1 AND 0xF0 = word_of_int (push_bit 4 l1)"
    using e_li_dec2 [OF mm(2,3) _ l(3,4)] by simp_all
  have e1: "e_li_e1 m \<noteq> 0" "e_li_li1 m = l1" using e_li_dec1 [OF mm(1) e2(3) _ l(1,2)] by simp_all
  have sum: "0 \<le> sum_list ls" "sum_list ls \<le> 2047 * int (length ls)"
    using l(5) by (induction ls) auto
  have oct: "int (li_octets (length ls)) \<le> 400" using 3(5) by (simp add: li_octets(3))
  have "2047 * int (length ls) \<le> 2047 * 128" using 3(5) by simp
  then have szs: "to_s32 (l2 + ?r + 1) = l2 + ?r + 1" "to_s32 ?r = ?r" "0 \<le> ?r"
    using sum oct l 3(6,7) by (simp_all add: to_s32_def)
  have e: "sz + sum_list (l1 # l2 # ls) + int (li_octets (length (l1 # l2 # ls))) = ?r + l1 + l2 + 3"
    by (simp add: li_octets(2))
  show ?case
  proof (cases "ls = []")
    case True
    then show ?thesis unfolding e um_read_li.simps [of m]
      using e1 e2 szs 3(5,6) by (simp add: Let_def li_octets(3) algebra_simps)
  next
    case False
    then have "um_read_li m acc (?r + l1 + l2 + 3) = um_read_li (mem_at m 3) (acc @ [l1, l2]) ?r"
      unfolding um_read_li.simps [of m] using e1 e2 szs 3(5) by (simp add: Let_def algebra_simps)
    also have "\<dots> = Some (0, (acc @ [l1, l2]) @ ls, sz)" using 3(1) [OF tl False l(5)] 3(5,6,7) by simp
    finally show ?thesis unfolding e by simp
  qed
qed

section \<open>The split of the queue\<close>

definition sdu_bytes :: "rlc_um_tx_sdu_management \<Rightarrow> byte list" where
  "sdu_bytes s = drop (nat (sdu_segmented_size s)) (first_byte s)"

definition tx_sdu_ok :: "rlc_um_tx_sdu_management \<Rightarrow> bool" where
  "tx_sdu_ok s \<longleftrightarrow> 0 < sdu_remaining_size s \<and> 0 \<le> sdu_segmented_size s
     \<and> sdu_remaining_size s + sdu_segmented_size s = sdu_size s \<and> sdu_size s \<le> 65535
     \<and> int (length (first_byte s)) = sdu_size s"

lemma length_sdu_bytes: "tx_sdu_ok s \<Longrightarrow> int (length (sdu_bytes s)) = sdu_remaining_size s"
  by (auto simp: tx_sdu_ok_def sdu_bytes_def)

definition rem_sum :: "rlc_um_tx_sdu_management list \<Rightarrow> int" where
  "rem_sum sdus = sum_list (map sdu_remaining_size sdus)"

lemma rem_sum_simps [simp]:
  "rem_sum [] = 0" "rem_sum (s # ss) = sdu_remaining_size s + rem_sum ss" "rem_sum (xs @ ys) = rem_sum xs + rem_sum ys"
  by (simp_all add: rem_sum_def)

lemma rem_sum_nonneg: "\<forall>s\<in>set sdus. tx_sdu_ok s \<Longrightarrow> 0 \<le> rem_sum sdus"
  by (induction sdus) (auto simp: tx_sdu_ok_def)

fun li_sum :: "int \<Rightarrow> nat \<Rightarrow> int" where
  "li_sum li 0 = 0"
| "li_sum li (Suc k) = li + li_sum (3 - li) k"

lemma li_sum_2: "li_sum 2 k = int (li_octets k)"
proof (induction k rule: induct_nat_012)
  case (ge2 n)
  then show ?case by (simp add: li_octets(2))
qed (simp_all add: li_octets_def)

lemma li_sum_nonneg: "li = 1 \<or> li = 2 \<Longrightarrow> 0 \<le> li_sum li k"
  by (induction li k rule: li_sum.induct) auto

fun um_need :: "int \<Rightarrow> rlc_um_tx_sdu_management list \<Rightarrow> int" where
  "um_need li [] = 0"
| "um_need li [s] = sdu_remaining_size s"
| "um_need li (s # ss) = sdu_remaining_size s + li + um_need (3 - li) ss"

lemma um_need_eq: "sdus \<noteq> [] \<Longrightarrow> um_need li sdus = rem_sum sdus + li_sum li (length sdus - 1)"
proof (induction li sdus rule: um_need.induct)
  case (3 li s v va)
  then show ?case by simp
qed simp_all

fun um_split :: "int \<Rightarrow> int \<Rightarrow> rlc_um_tx_sdu_management list \<Rightarrow> rlc_um_tx_sdu_management list \<times> int \<times> int" where
  "um_split li R [] = ([], R, li)"
| "um_split li R (s # ss) =
     (if sdu_remaining_size s + li < R
      then (case um_split (3 - li) (R - sdu_remaining_size s - li) ss of (F, q, l) \<Rightarrow> (s # F, q, l))
      else ([], R, li))"

lemma um_split_spec:
  assumes "um_split li R sdus = (F, q, l)" "sdus \<noteq> []" "\<forall>s\<in>set sdus. tx_sdu_ok s" "0 < R" "R \<le> um_need li sdus"
    and "li = 1 \<or> li = 2"
  shows "\<exists>s ts. sdus = F @ s # ts \<and> 0 < q \<and> q \<le> sdu_remaining_size s + l \<and> (l = 1 \<or> l = 2)
     \<and> R = rem_sum F + li_sum li (length F) + q"
  using assms
proof (induction li R sdus arbitrary: F q l rule: um_split.induct)
  case (1 li R)
  then show ?case by simp
next
  case (2 li R s ss)
  show ?case
  proof (cases "sdu_remaining_size s + li < R")
    case False
    then show ?thesis using 2 by auto
  next
    case True
    then have ne: "ss \<noteq> []" using 2(6,7) by (cases ss) auto
    obtain F' q' l' where sp: "um_split (3 - li) (R - sdu_remaining_size s - li) ss = (F', q', l')" by (metis prod_cases3)
    have need: "R - sdu_remaining_size s - li \<le> um_need (3 - li) ss" using 2(6) ne by (cases ss) auto
    have "3 - li = 1 \<or> 3 - li = 2" using 2(7) by auto
    from 2(1) [OF True sp ne _ _ need this] obtain s' ts where "ss = F' @ s' # ts" "0 < q'" "q' \<le> sdu_remaining_size s' + l'"
        "l' = 1 \<or> l' = 2" "R - sdu_remaining_size s - li = rem_sum F' + li_sum (3 - li) (length F') + q'"
      using 2(4) True by auto
    then show ?thesis using 2(2) True sp by auto
  qed
qed

lemma um_split_shrink:
  assumes "um_split li R (F @ s # ts) = (F, q, l)" "0 \<le> w" "w < q"
    and "\<forall>s\<in>set F. tx_sdu_ok s" "li = 1 \<or> li = 2" "R = rem_sum F + li_sum li (length F) + q"
  shows "um_split li (R - w) (F @ s # ts) = (F, q - w, l)"
  using assms
proof (induction F arbitrary: li R)
  case Nil
  then show ?case by (auto split: if_splits prod.splits)
next
  case (Cons f F)
  then have lt: "sdu_remaining_size f + li < R" by (auto split: if_splits)
  then have sp: "um_split (3 - li) (R - sdu_remaining_size f - li) (F @ s # ts) = (F, q, l)"
    using Cons.prems(1) by (auto split: prod.splits)
  have li: "3 - li = 1 \<or> 3 - li = 2" using Cons.prems(5) by auto
  have "um_split (3 - li) (R - sdu_remaining_size f - li - w) (F @ s # ts) = (F, q - w, l)"
    using Cons.IH [OF sp Cons.prems(2,3) _ li] Cons.prems(4,6) by simp
  moreover have "sdu_remaining_size f + li < R - w"
    using Cons.prems(3,4,6) li_sum_nonneg [OF li, of "length F"] rem_sum_nonneg [of F] by simp
  moreover have eq: "R - w - sdu_remaining_size f - li = R - sdu_remaining_size f - li - w" by simp
  ultimately show ?case unfolding append_Cons um_split.simps eq by simp
qed

section \<open>The first pass computes the split\<close>

lemma xor_3 [simp]: "(1::int) XOR 3 = 2" "(2::int) XOR 3 = 1"
  by simp_all

lemma test_fill_5:
  assumes "um_split li R sdus = (F, q, l)" "sdus = F @ s # ts" "\<forall>s\<in>set sdus. tx_sdu_ok s" "0 < R" "R \<le> 1000000"
    and "li = 1 \<or> li = 2" "q \<le> sdu_remaining_size s + l" "l = 1 \<or> l = 2"
    and "R \<le> test_pdu_remaining t" "test_pdu_remaining t \<le> 1000000" "R \<le> test_data_pdu_size t" "test_data_pdu_size t \<le> 1000000"
    and "w = max 0 (q - sdu_remaining_size s)"
  shows "um_test_fill_5 sdus R (3 - li) t =
     t\<lparr>test_num_li := test_num_li t + int (length F), test_remaining_size_to_substract := 0,
       test_remaining_num_li_to_substract := 0, test_pdu_remaining := test_pdu_remaining t - w,
       test_data_pdu_size := test_data_pdu_size t - w\<rparr>"
  using assms(1-6,9-12)
proof (induction F arbitrary: li R sdus t)
  case Nil
  have x: "(3 - li) XOR 3 = li" using Nil.prems(6) by auto
  have s: "0 < sdu_remaining_size s" "sdu_remaining_size s \<le> 65535" using Nil.prems(2,3) by (auto simp: tx_sdu_ok_def)
  have R: "q = R" "l = li" using Nil.prems(1,2) by (auto split: if_splits prod.splits)
  have u: "to_u32 (sdu_remaining_size s + li) = sdu_remaining_size s + li" "to_u32 R = R"
    using s Nil.prems(4-6) by (auto simp: to_u32_def)
  have w: "w = (if sdu_remaining_size s < R then R - sdu_remaining_size s else 0)" using assms(13) R by auto
  have wr: "to_s32 (test_pdu_remaining t - li) = test_pdu_remaining t - li" "to_u32 (test_data_pdu_size t - li) = test_data_pdu_size t - li"
     "to_u32 (test_data_pdu_size t - 1) = test_data_pdu_size t - 1" if "li \<le> R"
    using Nil.prems(4-) that by (auto simp: to_s32_def to_u32_def)
  consider "R \<le> sdu_remaining_size s" | "R = sdu_remaining_size s + li" | "sdu_remaining_size s < R" "R < sdu_remaining_size s + li"
    using assms(7) R by linarith
  then show ?case
  proof cases
    case 1
    then show ?thesis using Nil.prems(2) u x w by (auto simp: Let_def)
  next
    case 2
    then show ?thesis using Nil.prems(2,6) u x w s wr by (auto simp: Let_def)
  next
    case 3
    then have "li = 2" "R = sdu_remaining_size s + 1" using Nil.prems(6) by auto
    then show ?thesis using Nil.prems(2) u x w s wr by (simp add: Let_def)
  qed
next
  case (Cons f F)
  let ?R = "R - sdu_remaining_size f - li" and ?t = "t\<lparr>test_num_li := test_num_li t + 1, test_remaining_size_to_substract := li, test_remaining_num_li_to_substract := 1\<rparr>"
  have x: "(3 - li) XOR 3 = li" using Cons.prems(6) by auto
  have f: "0 < sdu_remaining_size f" "sdu_remaining_size f \<le> 65535" using Cons.prems(2,3) by (auto simp: tx_sdu_ok_def)
  have lt: "sdu_remaining_size f + li < R" using Cons.prems(1,2) by (auto split: if_splits)
  then have sp: "um_split (3 - li) ?R (F @ s # ts) = (F, q, l)" using Cons.prems(1,2) by (auto split: prod.splits)
  have u: "to_u32 (sdu_remaining_size f + li) = sdu_remaining_size f + li" "to_u32 R = R" "to_s32 (R - (sdu_remaining_size f + li)) = ?R"
    using f lt Cons.prems(4-6) by (auto simp: to_u32_def to_s32_def)
  have "um_test_fill_5 sdus R (3 - li) t = um_test_fill_5 (F @ s # ts) ?R (3 - (3 - li)) ?t"
    using Cons.prems(2) u x lt f Cons.prems(6) by (auto simp: Let_def)
  also have "\<dots> = ?t\<lparr>test_num_li := test_num_li ?t + int (length F), test_remaining_size_to_substract := 0,
       test_remaining_num_li_to_substract := 0, test_pdu_remaining := test_pdu_remaining ?t - w,
       test_data_pdu_size := test_data_pdu_size ?t - w\<rparr>"
  proof (rule Cons.IH [OF sp refl])
    show "\<forall>s\<in>set (F @ s # ts). tx_sdu_ok s" using Cons.prems(2,3) by auto
    show "3 - li = 1 \<or> 3 - li = 2" using Cons.prems(6) by auto
  qed (use lt f Cons.prems in auto)
  finally show ?case by simp
qed

lemma test_fill_10:
  assumes "um_split li R sdus = (F, q, l)" "sdus = F @ s # ts" "\<forall>s\<in>set sdus. tx_sdu_ok s" "0 < R" "R \<le> 1000000"
    and "li = 1 \<or> li = 2" "q \<le> sdu_remaining_size s + l" "l = 1 \<or> l = 2"
    and "w = (if sdu_remaining_size s < q \<and> q < sdu_remaining_size s + l then 1 else 0)"
  shows "um_test_fill_10 sdus R (3 - li) t =
     t\<lparr>test_num_li := test_num_li t + int (length F), test_remaining_size_to_substract := 0,
       test_remaining_num_li_to_substract := 0, test_pdu_remaining := test_pdu_remaining t - w\<rparr>"
  using assms(1-6)
proof (induction F arbitrary: li R sdus t)
  case Nil
  have x: "(3 - li) XOR 3 = li" using Nil.prems(6) by auto
  have s: "0 < sdu_remaining_size s" "sdu_remaining_size s \<le> 65535" using Nil.prems(2,3) by (auto simp: tx_sdu_ok_def)
  have R: "q = R" "l = li" using Nil.prems(1,2) by (auto split: if_splits prod.splits)
  have u: "to_u32 (sdu_remaining_size s + li) = sdu_remaining_size s + li" "to_u32 R = R"
    using s Nil.prems(4-6) by (auto simp: to_u32_def)
  have "R \<le> sdu_remaining_size s + li" using assms(7) R by simp
  then show ?case using Nil.prems(2) u x assms(9) R by (auto simp: Let_def)
next
  case (Cons f F)
  let ?R = "R - sdu_remaining_size f - li" and ?t = "t\<lparr>test_num_li := test_num_li t + 1, test_remaining_size_to_substract := li, test_remaining_num_li_to_substract := 1\<rparr>"
  have x: "(3 - li) XOR 3 = li" using Cons.prems(6) by auto
  have f: "0 < sdu_remaining_size f" "sdu_remaining_size f \<le> 65535" using Cons.prems(2,3) by (auto simp: tx_sdu_ok_def)
  have lt: "sdu_remaining_size f + li < R" using Cons.prems(1,2) by (auto split: if_splits)
  then have sp: "um_split (3 - li) ?R (F @ s # ts) = (F, q, l)" using Cons.prems(1,2) by (auto split: prod.splits)
  have u: "to_u32 (sdu_remaining_size f + li) = sdu_remaining_size f + li" "to_u32 R = R" "to_s32 (R - (sdu_remaining_size f + li)) = ?R"
    using f lt Cons.prems(4-6) by (auto simp: to_u32_def to_s32_def)
  have "um_test_fill_10 sdus R (3 - li) t = um_test_fill_10 (F @ s # ts) ?R (3 - (3 - li)) ?t"
    using Cons.prems(2) u x lt f Cons.prems(6) by (auto simp: Let_def)
  also have "\<dots> = ?t\<lparr>test_num_li := test_num_li ?t + int (length F), test_remaining_size_to_substract := 0,
       test_remaining_num_li_to_substract := 0, test_pdu_remaining := test_pdu_remaining ?t - w\<rparr>"
  proof (rule Cons.IH [OF sp refl])
    show "\<forall>s\<in>set (F @ s # ts). tx_sdu_ok s" using Cons.prems(2,3) by auto
    show "3 - li = 1 \<or> 3 - li = 2" using Cons.prems(6) by auto
  qed (use lt f Cons.prems in auto)
  finally show ?case by simp
qed

section \<open>The second pass\<close>

definition um_fill_step :: "int \<Rightarrow> rlc_um_tx_sdu_management \<Rightarrow> um_fill \<Rightarrow> um_fill" where
  "um_fill_step num_li sdu b =
     (let rem = sdu_remaining_size sdu;
          b1 = um_write_e_li num_li rem
            (b\<lparr>pdu_p := mem_write (pdu_p b) (pdu_data b) (take (nat rem) (sdu_bytes sdu)),
               occupancy := to_s32 (occupancy b - rem), pdu_data := pdu_data b + nat rem\<rparr>) in
      b1\<lparr>pdu_remaining_size := to_s32 (pdu_remaining_size b1 - (rem + li_length_in_bytes b1))\<rparr>)"

lemma fill_step_sel:
  "pdu_data (um_fill_step n s b) = pdu_data b + nat (sdu_remaining_size s)"
  "occupancy (um_fill_step n s b) = to_s32 (occupancy b - sdu_remaining_size s)"
  "li_length_in_bytes (um_fill_step n s b) = li_length_in_bytes b XOR 3"
  "fill_num_li (um_fill_step n s b) = fill_num_li b + 1"
  "pdu_remaining_size (um_fill_step n s b) = to_s32 (pdu_remaining_size b - (sdu_remaining_size s + (li_length_in_bytes b XOR 3)))"
  by (simp_all add: um_fill_step_def um_write_e_li_def Let_def)

lemma fill_pdu_split:
  assumes "um_split li (pdu_remaining_size b) (F @ s # ts) = (F, q, l)" "\<forall>s\<in>set F. tx_sdu_ok s" "0 < pdu_remaining_size b" "pdu_remaining_size b \<le> 1000000"
    and "li_length_in_bytes b = 3 - li" "li = 1 \<or> li = 2" "rem_sum F \<le> occupancy b" "occupancy b \<le> 1000000000"
  shows "um_fill_pdu n (F @ s # ts) b = um_fill_pdu n (s # ts) (fold (um_fill_step n) F b)
     \<and> (let b' = fold (um_fill_step n) F b in pdu_remaining_size b' = q \<and> li_length_in_bytes b' = 3 - l
         \<and> pdu_data b' = pdu_data b + nat (rem_sum F) \<and> occupancy b' = occupancy b - rem_sum F
         \<and> fill_num_li b' = fill_num_li b + int (length F))"
  using assms
proof (induction F arbitrary: li b)
  case Nil
  then show ?case by (auto split: if_splits prod.splits)
next
  case (Cons f F)
  let ?b = "um_fill_step n f b" and ?R = "pdu_remaining_size b - sdu_remaining_size f - li"
  have x: "(3 - li) XOR 3 = li" using Cons.prems(6) by auto
  have f: "0 < sdu_remaining_size f" "sdu_remaining_size f \<le> 65535" and F: "\<forall>s\<in>set F. tx_sdu_ok s"
    using Cons.prems(2) by (auto simp: tx_sdu_ok_def)
  have lt: "sdu_remaining_size f + li < pdu_remaining_size b" using Cons.prems(1) by (auto split: if_splits)
  then have sp: "um_split (3 - li) ?R (F @ s # ts) = (F, q, l)" using Cons.prems(1) by (auto split: prod.splits)
  have u: "to_u32 (sdu_remaining_size f + li) = sdu_remaining_size f + li" "to_u32 (pdu_remaining_size b) = pdu_remaining_size b"
      "to_s32 (pdu_remaining_size b - (sdu_remaining_size f + li)) = ?R"
    using f lt Cons.prems(4,6) by (auto simp: to_u32_def to_s32_def)
  have occ: "to_s32 (occupancy b - sdu_remaining_size f) = occupancy b - sdu_remaining_size f"
    using Cons.prems(7,8) f rem_sum_nonneg [OF F] by (simp add: to_s32_def)
  have sel: "pdu_remaining_size ?b = ?R" "li_length_in_bytes ?b = 3 - (3 - li)" "occupancy ?b = occupancy b - sdu_remaining_size f"
    "pdu_data ?b = pdu_data b + nat (sdu_remaining_size f)" "fill_num_li ?b = fill_num_li b + 1"
    using u(3) x occ Cons.prems(5) by (simp_all add: fill_step_sel)
  have eq: "um_fill_pdu n ((f # F) @ s # ts) b = um_fill_pdu n (F @ s # ts) ?b"
    using lt u x Cons.prems(5,6) f by (auto simp: Let_def um_fill_step_def sdu_bytes_def)
  have "3 - li = 1 \<or> 3 - li = 2" using Cons.prems(6) by auto
  note ih = Cons.IH [of "3 - li" ?b, unfolded sel, OF sp F _ _ refl this]
  have "0 < li" using Cons.prems(6) by auto
  then show ?case unfolding eq fold.simps comp_apply
    using ih lt f Cons.prems(4,7,8) rem_sum_nonneg [OF F]
    by (simp add: Let_def nat_add_distrib del: um_fill_pdu.simps)
qed

lemma take_sdu_bytes: "tx_sdu_ok s \<Longrightarrow> take (nat (sdu_remaining_size s)) (sdu_bytes s) = sdu_bytes s"
  using length_sdu_bytes [of s] by simp

lemma fill_step_mem1:
  assumes "li_length_in_bytes b = 1" "tx_sdu_ok s"
  shows "pdu_p (um_fill_step n s b) = (mem_write (pdu_p b) (pdu_data b) (sdu_bytes s))
      (e_li_p b := (if fill_num_li b + 1 = n then 0 else 0x80) OR word_of_int (drop_bit 4 (sdu_remaining_size s)),
       e_li_p b + 1 := word_of_int (push_bit 4 (sdu_remaining_size s)))"
    "e_li_p (um_fill_step n s b) = e_li_p b"
  using assms(1) take_sdu_bytes [OF assms(2)] by (simp_all add: um_fill_step_def um_write_e_li_def Let_def)

lemma fill_step_mem2:
  assumes "li_length_in_bytes b = 2" "tx_sdu_ok s"
  shows "pdu_p (um_fill_step n s b) = (let m = mem_write (pdu_p b) (pdu_data b) (sdu_bytes s) in
      m(e_li_p b + 1 := (m (e_li_p b + 1) OR (if fill_num_li b + 1 = n then 0 else 0x08)) OR word_of_int (drop_bit 8 (sdu_remaining_size s)),
        e_li_p b + 2 := word_of_int (sdu_remaining_size s AND 0xFF)))"
    "e_li_p (um_fill_step n s b) = e_li_p b + 3"
  using assms(1) take_sdu_bytes [OF assms(2)] by (simp_all add: um_fill_step_def um_write_e_li_def Let_def)

lemma fill_two_steps:
  assumes "li_length_in_bytes b = 1" "tx_sdu_ok s" "tx_sdu_ok s'" "fill_num_li b + 2 + int k = n" "e_li_p b + 3 \<le> pdu_data b"
    and "b2 = um_fill_step n s' (um_fill_step n s b)"
  shows "mem_read (pdu_p b2) (e_li_p b) 3 = [0x80 OR word_of_int (drop_bit 4 (sdu_remaining_size s)),
      (word_of_int (push_bit 4 (sdu_remaining_size s)) OR (if k = 0 then 0 else 0x08)) OR word_of_int (drop_bit 8 (sdu_remaining_size s')),
      word_of_int (sdu_remaining_size s' AND 0xFF)]"
    "mem_read (pdu_p b2) (pdu_data b) (length (sdu_bytes s @ sdu_bytes s')) = sdu_bytes s @ sdu_bytes s'"
    "\<And>i. i < e_li_p b \<or> (e_li_p b + 3 \<le> i \<and> i < pdu_data b) \<or> pdu_data b + length (sdu_bytes s @ sdu_bytes s') \<le> i
       \<Longrightarrow> pdu_p b2 i = pdu_p b i"
    "li_length_in_bytes b2 = 1" "fill_num_li b2 = fill_num_li b + 2" "e_li_p b2 = e_li_p b + 3"
    "pdu_data b2 = pdu_data b + length (sdu_bytes s @ sdu_bytes s')"
proof -
  let ?e = "e_li_p b" and ?d = "pdu_data b" and ?b1 = "um_fill_step n s b"
  let ?A = "sdu_bytes s" and ?B = "sdu_bytes s'"
  have len: "nat (sdu_remaining_size s) = length ?A" "nat (sdu_remaining_size s') = length ?B"
    using length_sdu_bytes [OF assms(2)] length_sdu_bytes [OF assms(3)] by simp_all
  have li1: "li_length_in_bytes ?b1 = 2" using assms(1) by (simp add: fill_step_sel)
  note m1 = fill_step_mem1 [OF assms(1,2), of n] and m2 = fill_step_mem2 [OF li1 assms(3), of n]
  have n: "fill_num_li b + 1 \<noteq> n" "(fill_num_li ?b1 + 1 = n) = (k = 0)" using assms(4) by (auto simp: fill_step_sel)
  have d1: "pdu_data ?b1 = ?d + length ?A" by (simp add: fill_step_sel len)
  let ?m0 = "(mem_write (pdu_p b) ?d ?A)(?e := 0x80 OR word_of_int (drop_bit 4 (sdu_remaining_size s)),
       ?e + 1 := word_of_int (push_bit 4 (sdu_remaining_size s)))"
  let ?m = "mem_write ?m0 (?d + length ?A) ?B"
  have b2: "pdu_p b2 = ?m(?e + 1 := (word_of_int (push_bit 4 (sdu_remaining_size s)) OR (if k = 0 then 0 else 0x08)) OR word_of_int (drop_bit 8 (sdu_remaining_size s')),
        ?e + 2 := word_of_int (sdu_remaining_size s' AND 0xFF))"
    unfolding assms(6) m2(1) m1 d1 n(2) using n(1) assms(5) by (simp add: Let_def mem_write_def)
  show "mem_read (pdu_p b2) ?e 3 = [0x80 OR word_of_int (drop_bit 4 (sdu_remaining_size s)),
      (word_of_int (push_bit 4 (sdu_remaining_size s)) OR (if k = 0 then 0 else 0x08)) OR word_of_int (drop_bit 8 (sdu_remaining_size s')),
      word_of_int (sdu_remaining_size s' AND 0xFF)]"
    unfolding b2 numeral_3_eq_3 mem_read_Suc using assms(5) by (simp add: mem_write_def)
  show "mem_read (pdu_p b2) ?d (length (?A @ ?B)) = ?A @ ?B"
    using assms(5) unfolding b2 by (intro nth_equalityI) (auto simp: mem_write_def nth_append)
  show "pdu_p b2 i = pdu_p b i" if "i < ?e \<or> (?e + 3 \<le> i \<and> i < ?d) \<or> ?d + length (?A @ ?B) \<le> i" for i
    using assms(5) that unfolding b2 by (auto simp: mem_write_def)
  show "li_length_in_bytes b2 = 1" "fill_num_li b2 = fill_num_li b + 2" "e_li_p b2 = ?e + 3"
    "pdu_data b2 = ?d + length (?A @ ?B)"
    unfolding assms(6) using li1 m2(2) m1(2) len by (simp_all add: fill_step_sel)
qed

lemma fill_steps_mem:
  assumes "li_length_in_bytes b = 1" "\<forall>s\<in>set F. tx_sdu_ok s" "fill_num_li b + int (length F) = n"
    and "e_li_p b + li_octets (length F) \<le> pdu_data b" "b' = fold (um_fill_step n) F b"
  shows "mem_read (pdu_p b') (e_li_p b) (li_octets (length F)) = li_enc (map sdu_remaining_size F)
     \<and> mem_read (pdu_p b') (pdu_data b) (length (concat (map sdu_bytes F))) = concat (map sdu_bytes F)
     \<and> (\<forall>i. i < e_li_p b \<or> (e_li_p b + li_octets (length F) \<le> i \<and> i < pdu_data b)
            \<or> pdu_data b + length (concat (map sdu_bytes F)) \<le> i \<longrightarrow> pdu_p b' i = pdu_p b i)"
  using assms
proof (induction F arbitrary: b rule: induct_list012)
  case 1
  then show ?case by (simp add: li_octets_def)
next
  case (2 s)
  have s: "tx_sdu_ok s" using 2 by simp
  have m: "pdu_p b' = (mem_write (pdu_p b) (pdu_data b) (sdu_bytes s))
      (e_li_p b := word_of_int (drop_bit 4 (sdu_remaining_size s)), e_li_p b + 1 := word_of_int (push_bit 4 (sdu_remaining_size s)))"
    using fill_step_mem1 [OF 2(1) s, of n] 2(3,5) by simp
  have le: "e_li_p b + 2 \<le> pdu_data b" using 2(4) by (simp add: li_octets)
  have "mem_read (pdu_p b') (e_li_p b) 2 = li_enc [sdu_remaining_size s]"
    using le unfolding m numeral_2_eq_2 mem_read_Suc by (simp add: mem_write_def)
  moreover have "mem_read (pdu_p b') (pdu_data b) (length (sdu_bytes s)) = sdu_bytes s"
    using le unfolding m by (intro nth_equalityI) (auto simp: mem_write_def)
  moreover have "pdu_p b' i = pdu_p b i" if "i < e_li_p b \<or> e_li_p b + 2 \<le> i \<and> i < pdu_data b \<or> pdu_data b + length (sdu_bytes s) \<le> i" for i
    using le that unfolding m by (auto simp: mem_write_def)
  moreover have "li_octets (length [s]) = 2" using li_octets(1) by simp
  ultimately show ?case by (simp only: list.map concat.simps append_Nil2) blast
next
  case (3 s s' F)
  define b2 where "b2 = um_fill_step n s' (um_fill_step n s b)"
  let ?k = "li_octets (length F)" and ?A = "sdu_bytes s @ sdu_bytes s'" and ?C = "concat (map sdu_bytes F)"
  have ok: "tx_sdu_ok s" "tx_sdu_ok s'" "\<forall>s\<in>set F. tx_sdu_ok s" using 3(4) by auto
  have le: "e_li_p b + 3 + ?k \<le> pdu_data b" using 3(6) by (simp add: li_octets)
  have n: "fill_num_li b + 2 + int (length F) = n" using 3(5) by simp
  have le3: "e_li_p b + 3 \<le> pdu_data b" using le by simp
  note t = fill_two_steps [OF 3(3) ok(1,2) n le3 b2_def]
  have eqs: "e_li_p b2 = e_li_p b + 3" "pdu_data b2 = pdu_data b + length ?A" by (fact t(6), fact t(7))
  have b': "b' = fold (um_fill_step n) F b2" using 3(7) by (simp add: b2_def)
  have ih: "mem_read (pdu_p b') (e_li_p b + 3) ?k = li_enc (map sdu_remaining_size F)"
    "mem_read (pdu_p b') (pdu_data b + length ?A) (length ?C) = ?C"
    "\<And>i. i < e_li_p b + 3 \<or> (e_li_p b + 3 + ?k \<le> i \<and> i < pdu_data b + length ?A) \<or> pdu_data b + length ?A + length ?C \<le> i
       \<Longrightarrow> pdu_p b' i = pdu_p b2 i"
    using 3(1) [OF t(4) ok(3) _ _ b'] t(5) n le unfolding eqs by auto
  have "mem_read (pdu_p b') (e_li_p b) 3 = mem_read (pdu_p b2) (e_li_p b) 3"
    by (rule mem_read_cong) (simp add: ih(3))
  then have e: "mem_read (pdu_p b') (e_li_p b) (3 + ?k) = li_enc (map sdu_remaining_size (s # s' # F))"
    unfolding mem_read_add ih(1) t(1) by simp
  have "mem_read (pdu_p b') (pdu_data b) (length ?A) = mem_read (pdu_p b2) (pdu_data b) (length ?A)"
    using le by (intro mem_read_cong ih(3)) auto
  then have d: "mem_read (pdu_p b') (pdu_data b) (length ?A + length ?C) = ?A @ ?C"
    unfolding mem_read_add ih(2) t(2) by simp
  have f: "pdu_p b' i = pdu_p b i" if "i < e_li_p b \<or> (e_li_p b + (3 + ?k) \<le> i \<and> i < pdu_data b) \<or> pdu_data b + (length ?A + length ?C) \<le> i" for i
  proof -
    have "pdu_p b' i = pdu_p b2 i" using that le by (intro ih(3)) auto
    also have "\<dots> = pdu_p b i" using that le by (intro t(3)) auto
    finally show ?thesis .
  qed
  have k: "li_octets (length (s # s' # F)) = 3 + ?k" by (simp add: li_octets(2))
  have c: "concat (map sdu_bytes (s # s' # F)) = ?A @ ?C" by simp
  show ?case unfolding k c length_append [of ?A ?C] using e d f by blast
qed

lemma segs_of_concat:
  assumes "mem_read m 0 (length (concat xs @ y)) = concat xs @ y" "lis = map (\<lambda>x. int (length x)) xs" "sz = int (length y)"
  shows "segs_of m lis sz = xs @ [y]"
  using assms
proof (induction xs arbitrary: m lis)
  case Nil
  then show ?case by simp
next
  case (Cons x xs)
  have "mem_read m 0 (length x) @ mem_read (mem_at m (length x)) 0 (length (concat xs @ y)) = x @ (concat xs @ y)"
    using Cons.prems(1) by (simp add: mem_read_add)
  then have "mem_read m 0 (length x) = x" "mem_read (mem_at m (length x)) 0 (length (concat xs @ y)) = concat xs @ y"
    by (metis append_eq_append_conv length_mem_read)+
  then show ?case using Cons.IH [of "mem_at m (length x)"] Cons.prems(2,3) by simp
qed

definition um_fill_start :: "mem \<Rightarrow> nat \<Rightarrow> nat \<Rightarrow> int \<Rightarrow> int \<Rightarrow> um_fill" where
  "um_fill_start m h k R oc =
     \<lparr>pdu_p = m, pdu_data = h + li_octets k, e_li_p = h, li_length_in_bytes = 1, fill_num_li = 0, pdu_remaining_size = R,
      fi_last_byte_pdu_is_last_byte_sdu = False, occupancy = oc\<rparr>"

text \<open>The queue after a PDU that took the SDUs \<open>F\<close> whole and \<open>q\<close> octets of \<open>s\<close>.\<close>

definition um_queue_rest :: "rlc_um_tx_sdu_management \<Rightarrow> rlc_um_tx_sdu_management list \<Rightarrow> int \<Rightarrow> rlc_um_tx_sdu_management list" where
  "um_queue_rest s ts q =
     (if q < sdu_remaining_size s
      then s\<lparr>sdu_remaining_size := sdu_remaining_size s - q, sdu_segmented_size := sdu_segmented_size s + q\<rparr> # ts
      else ts)"

lemma fill_pdu_result:
  assumes sp: "um_split 2 R (F @ s # ts) = (F, q, l)" and ok: "\<forall>s\<in>set (F @ s # ts). tx_sdu_ok s"
    and R: "0 < R" "R \<le> 1000000" and q: "0 < q" "q \<le> sdu_remaining_size s + l" "l = 1 \<or> l = 2"
    and oc: "rem_sum F + sdu_remaining_size s \<le> oc" "oc \<le> 1000000000"
  shows "\<exists>b. um_fill_pdu (int (length F)) (F @ s # ts) (um_fill_start m h (length F) R oc) = (um_queue_rest s ts q, b)
     \<and> mem_read (pdu_p b) h (li_octets (length F)) = li_enc (map sdu_remaining_size F)
     \<and> mem_read (pdu_p b) (h + li_octets (length F)) (length (concat (map sdu_bytes F) @ take (nat q) (sdu_bytes s)))
          = concat (map sdu_bytes F) @ take (nat q) (sdu_bytes s)
     \<and> (\<forall>i < h. pdu_p b i = m i)
     \<and> occupancy b = oc - rem_sum F - min q (sdu_remaining_size s) \<and> fill_num_li b = int (length F)
     \<and> fi_last_byte_pdu_is_last_byte_sdu b = (sdu_remaining_size s \<le> q)
     \<and> pdu_remaining_size b = max 0 (q - sdu_remaining_size s)"
proof -
  let ?b = "um_fill_start m h (length F) R oc"
  define b1 where "b1 = fold (um_fill_step (int (length F))) F ?b"
  have okF: "\<forall>s\<in>set F. tx_sdu_ok s" and s: "tx_sdu_ok s" using ok by auto
  have srem: "0 < sdu_remaining_size s" "sdu_remaining_size s \<le> 65535" "0 \<le> sdu_segmented_size s"
    "sdu_segmented_size s + sdu_remaining_size s \<le> 65535" using s by (auto simp: tx_sdu_ok_def)
  have len: "length (concat (map sdu_bytes F)) = nat (rem_sum F)"
    using okF
  proof (induction F)
    case (Cons f F)
    then show ?case using length_sdu_bytes [of f] rem_sum_nonneg [of F] by (simp add: nat_add_distrib tx_sdu_ok_def)
  qed simp
  have st: "li_length_in_bytes ?b = 1" "pdu_remaining_size ?b = R" "occupancy ?b = oc" "e_li_p ?b = h"
    "pdu_data ?b = h + li_octets (length F)" "fill_num_li ?b = 0" "pdu_p ?b = m" by (simp_all add: um_fill_start_def)
  have eq: "um_fill_pdu (int (length F)) (F @ s # ts) ?b = um_fill_pdu (int (length F)) (s # ts) b1"
    and b1: "pdu_remaining_size b1 = q" "li_length_in_bytes b1 = 3 - l" "occupancy b1 = oc - rem_sum F"
      "fill_num_li b1 = int (length F)" "pdu_data b1 = h + li_octets (length F) + nat (rem_sum F)"
    using fill_pdu_split [of 2 ?b F s ts q l "int (length F)"] sp okF R oc srem unfolding b1_def st by (auto simp: Let_def)
  have m1: "mem_read (pdu_p b1) h (li_octets (length F)) = li_enc (map sdu_remaining_size F)"
    "mem_read (pdu_p b1) (h + li_octets (length F)) (nat (rem_sum F)) = concat (map sdu_bytes F)"
    "\<forall>i < h. pdu_p b1 i = m i"
    using fill_steps_mem [of ?b F "int (length F)" b1] okF unfolding st len by (auto simp: b1_def)
  let ?D = "take (nat q) (sdu_bytes s)" and ?d = "h + li_octets (length F) + nat (rem_sum F)"
  have lenD: "int (length ?D) = min q (sdu_remaining_size s)" using length_sdu_bytes [OF s] q(1) by auto
  let ?m = "mem_write (pdu_p b1) ?d ?D"
  have x: "(3 - l) XOR 3 = l" using q(3) by auto
  have w: "to_s32 (oc - rem_sum F - q') = oc - rem_sum F - q'" if "0 \<le> q'" "q' \<le> sdu_remaining_size s" for q'
    using that oc rem_sum_nonneg [OF okF] by (simp add: to_s32_def)
  have w16: "to_u16 (sdu_remaining_size s - q) = sdu_remaining_size s - q" "to_u16 (sdu_segmented_size s + q) = sdu_segmented_size s + q"
    if "q < sdu_remaining_size s" using that srem q(1) by (auto simp: to_u16_def)
  have nli: "\<not> to_u32 (sdu_remaining_size s + l) < to_u32 q" using q srem by (auto simp: to_u32_def)
  define b where "b = b1\<lparr>pdu_p := ?m, occupancy := oc - rem_sum F - min q (sdu_remaining_size s),
     fi_last_byte_pdu_is_last_byte_sdu := (sdu_remaining_size s \<le> q), pdu_remaining_size := max 0 (q - sdu_remaining_size s)\<rparr>"
  have "um_fill_pdu (int (length F)) (s # ts) b1 = (um_queue_rest s ts q, b)"
  proof (cases "q < sdu_remaining_size s")
    case True
    then show ?thesis using b1 w [of q] w16 q(1) by (simp add: b_def um_queue_rest_def sdu_bytes_def Let_def)
  next
    case False
    then have t: "take (nat (sdu_remaining_size s)) (sdu_bytes s) = ?D" using take_sdu_bytes [OF s] length_sdu_bytes [OF s] by simp
    show ?thesis
      using False b1 w [of "sdu_remaining_size s"] nli x srem t unfolding sdu_bytes_def
      by (auto simp: b_def um_queue_rest_def sdu_bytes_def Let_def min_def max_def)
  qed
  moreover have "mem_read ?m h (li_octets (length F)) = li_enc (map sdu_remaining_size F)"
    using m1(1) by (subst mem_read_write_disj) simp_all
  moreover have "mem_read ?m (h + li_octets (length F)) (nat (rem_sum F) + length ?D) = concat (map sdu_bytes F) @ ?D"
    unfolding mem_read_add mem_read_write_same using m1(2) by (subst mem_read_write_disj) simp_all
  moreover have "\<forall>i < h. ?m i = m i" using m1(3) by (simp add: mem_write_def)
  ultimately show ?thesis unfolding eq length_append len using b1(4) by (intro exI [of _ b]) (simp add: b_def)
qed

section \<open>The transmitter invariant and the result of one call\<close>

definition tx_ok :: "rlc_um_entity \<Rightarrow> bool" where
  "tx_ok r \<longleftrightarrow> (\<forall>s\<in>set (input_sdus r). tx_sdu_ok s) \<and> (\<forall>s\<in>set (tl (input_sdus r)). sdu_segmented_size s = 0)
     \<and> buffer_occupancy r = rem_sum (input_sdus r) \<and> rem_sum (input_sdus r) \<le> 100000000"

lemma length_le_rem_sum: "\<forall>s\<in>set sdus. tx_sdu_ok s \<Longrightarrow> int (length sdus) \<le> rem_sum sdus"
  by (induction sdus) (auto simp: tx_sdu_ok_def)

lemma half_up: "(k * 3 + 1) div 2 = k * 3 div 2 + k mod (2 :: int)"
proof (cases "even k")
  case True
  then obtain j where "k = 2 * j" by blast
  then show ?thesis by simp
next
  case False
  then obtain j where j: "k = 2 * j + 1" by (rule oddE)
  have "(k * 3 + 1) = 2 * (3 * j + 2)" "k * 3 = 2 * (3 * j + 1) + 1" "k mod 2 = 1" unfolding j by simp_all
  then show ?thesis by (simp only:) simp
qed

lemma data_pdu_size_eq:
  assumes "tx_ok r" "input_sdus r \<noteq> []" "0 \<le> nb" "nb \<le> 1000000" "tx_header_min_length_in_bytes r = h" "h = 1 \<or> h = 2"
  shows "um_data_pdu_size r nb = min nb (h + um_need 2 (input_sdus r))"
proof -
  let ?n = "length (input_sdus r)"
  have ok: "\<forall>s\<in>set (input_sdus r). tx_sdu_ok s" "buffer_occupancy r = rem_sum (input_sdus r)" "rem_sum (input_sdus r) \<le> 100000000"
    using assms(1) by (auto simp: tx_ok_def)
  have n: "1 \<le> ?n" "int ?n \<le> 100000000" using assms(2) length_le_rem_sum [OF ok(1)] ok(3) by (auto simp: Suc_le_eq)
  have oct: "int (li_octets (?n - 1)) = (int ?n - 1) * 3 div 2 + (int ?n - 1) mod 2"
  proof -
    have "int ((?n - 1) * 3 + 1) = (int ?n - 1) * 3 + 1" using n(1) by simp
    then have "int (li_octets (?n - 1)) = ((int ?n - 1) * 3 + 1) div 2" by (simp add: li_octets(3) zdiv_int)
    then show ?thesis by (simp only: half_up)
  qed
  have "um_max_li_overhead (int ?n) = int (li_octets (?n - 1))"
  proof (cases "?n = 1")
    case True
    then show ?thesis by (simp add: um_max_li_overhead_def li_octets_def)
  next
    case False
    have "0 \<le> (int ?n - 1) * 3 div 2 + (int ?n - 1) mod 2" "(int ?n - 1) * 3 div 2 + (int ?n - 1) mod 2 < 4294967296"
      using n by (simp_all add: pos_imp_zdiv_nonneg_iff)
    moreover have "0 \<le> int ?n - 1" using n(1) by linarith
    then have "crem (int ?n - 1) 2 = (int ?n - 1) mod 2" by simp
    moreover have "cdiv ((int ?n - 1) * 3) 2 = (int ?n - 1) * 3 div 2"
      using \<open>0 \<le> int ?n - 1\<close> by (intro cdiv_nonneg mult_nonneg_nonneg) simp_all
    moreover have "\<not> int ?n \<le> 1" using False n by simp
    ultimately show ?thesis using oct by (simp only: um_max_li_overhead_def if_False to_u32_def mod_pos_pos_trivial)
  qed
  moreover have "int (li_octets (?n - 1)) \<le> 200000000" using n by (simp add: li_octets(3))
  moreover have "um_need 2 (input_sdus r) = rem_sum (input_sdus r) + int (li_octets (?n - 1))"
    using um_need_eq [OF assms(2)] by (simp add: li_sum_2)
  ultimately show ?thesis
    using ok assms(3-) rem_sum_nonneg [OF ok(1)] by (auto simp: um_data_pdu_size_def to_u32_def Let_def min_def)
qed

definition um_carries :: "nat \<Rightarrow> mem \<Rightarrow> rlc_um_tx_sdu_management list \<Rightarrow> byte list \<Rightarrow> bool" where
  "um_carries h m F seg \<longleftrightarrow>
     mem_read m h (li_octets (length F)) = li_enc (map sdu_remaining_size F)
     \<and> mem_read m (h + li_octets (length F)) (length (concat (map sdu_bytes F) @ seg)) = concat (map sdu_bytes F) @ seg"

lemma um_carries_cong: "\<forall>i \<ge> h. m' i = m i \<Longrightarrow> um_carries h m' F seg = um_carries h m F seg"
proof -
  assume "\<forall>i \<ge> h. m' i = m i"
  then have "mem_read m' (h + a) n = mem_read m (h + a) n" for a n by (intro mem_read_cong) simp
  from this [of 0] this show ?thesis by (simp add: um_carries_def)
qed

lemma split_queue:
  assumes "\<forall>s\<in>set sdus. tx_sdu_ok s" "sdus \<noteq> []" "0 < R" "R \<le> um_need 2 sdus"
  obtains F s ts q l where "um_split 2 R sdus = (F, q, l)" "sdus = F @ s # ts" "0 < q" "q \<le> sdu_remaining_size s + l" "l = 1 \<or> l = 2"
    "R = rem_sum F + int (li_octets (length F)) + q" "0 < sdu_remaining_size s"
proof -
  obtain F q l where sp: "um_split 2 R sdus = (F, q, l)" by (metis prod_cases3)
  from um_split_spec [OF sp assms(2,1,3,4)] obtain s ts where s: "sdus = F @ s # ts" "0 < q" "q \<le> sdu_remaining_size s + l" "l = 1 \<or> l = 2"
    "R = rem_sum F + li_sum 2 (length F) + q" by auto
  moreover have "0 < sdu_remaining_size s" using assms(1) s(1) by (simp add: tx_sdu_ok_def)
  ultimately show ?thesis using that [OF sp s(1-4)] li_sum_2 by simp
qed

lemma to_nat_octets: "nat (drop_bit (Suc 0) (int k * 3 + 1)) = li_octets k"
proof -
  have "int k * 3 + 1 = int (k * 3 + 1)" by simp
  then show ?thesis by (simp only: li_octets(3) drop_bit_eq_div) (simp add: nat_div_distrib)
qed

lemma fill_shrunk:
  assumes sp: "um_split 2 R sdus = (F, q, l)" and d: "sdus = F @ s # ts" "q \<le> sdu_remaining_size s + l" "l = 1 \<or> l = 2"
    "R = rem_sum F + int (li_octets (length F)) + q" "0 < sdu_remaining_size s"
    and ok: "\<forall>s\<in>set sdus. tx_sdu_ok s" "rem_sum sdus \<le> 100000000" and R: "R \<le> 1000000" and w: "0 \<le> w" "w < q"
  shows "\<exists>b. um_fill_pdu (int (length F)) sdus (um_fill_start m h (length F) (R - w) (rem_sum sdus)) = (um_queue_rest s ts (q - w), b)
     \<and> um_carries h (pdu_p b) F (take (nat (q - w)) (sdu_bytes s))
     \<and> occupancy b = rem_sum sdus - rem_sum F - min (q - w) (sdu_remaining_size s) \<and> fill_num_li b = int (length F)
     \<and> fi_last_byte_pdu_is_last_byte_sdu b = (sdu_remaining_size s \<le> q - w)
     \<and> pdu_remaining_size b = max 0 (q - w - sdu_remaining_size s)"
proof -
  have okF: "\<forall>s\<in>set F. tx_sdu_ok s" using ok(1) d(1) by auto
  have "um_split 2 (R - w) (F @ s # ts) = (F, q - w, l)"
    using sp d(4) unfolding d(1) by (intro um_split_shrink [OF _ w okF]) (simp_all add: li_sum_2)
  moreover have "rem_sum F + sdu_remaining_size s \<le> rem_sum sdus" using ok(1) rem_sum_nonneg [of ts] unfolding d(1) by simp
  moreover have "0 < R - w" using d(4) w rem_sum_nonneg [OF okF] by simp
  ultimately show ?thesis
    using fill_pdu_result [of "R - w" F s ts "q - w" l "rem_sum sdus" m h] ok d(2,3) R w unfolding d(1) um_carries_def by auto
qed

lemma segment_5_result:
  assumes tx: "tx_ok r" "input_sdus r \<noteq> []" "tx_header_min_length_in_bytes r = 1"
    and nb: "2 \<le> nb_bytes_requested_by_mac r" "nb_bytes_requested_by_mac r \<le> 1000000" and blk: "alloc (allocs r) = Some blk"
  shows "\<exists>F s ts q m. input_sdus r = F @ s # ts \<and> 0 < q \<and> q \<le> sdu_remaining_size s
     \<and> rlc_um_segment_5 alloc r = um_emit_pdu r (um_queue_rest s ts q) (buffer_occupancy r - rem_sum F - q)
         (um_header_5 (um_fi (um_head_is_first_byte (input_sdus r)) (q = sdu_remaining_size s)) (F \<noteq> []) (vt_us r) m)
         (1 + int (li_octets (length F)) + rem_sum F + q)
     \<and> 1 + int (li_octets (length F)) + rem_sum F + q \<le> nb_bytes_requested_by_mac r
     \<and> um_carries 1 m F (take (nat q) (sdu_bytes s))"
proof -
  let ?nb = "nb_bytes_requested_by_mac r" and ?sdus = "input_sdus r"
  have ok: "\<forall>s\<in>set ?sdus. tx_sdu_ok s" "buffer_occupancy r = rem_sum ?sdus" "rem_sum ?sdus \<le> 100000000"
    using tx(1) by (auto simp: tx_ok_def)
  have nbs: "to_s32 ?nb = ?nb" using nb by (simp add: to_s32_def)
  define P where "P = um_data_pdu_size r ?nb"
  have P: "P = min ?nb (1 + um_need 2 ?sdus)" using data_pdu_size_eq [OF tx(1,2) _ nb(2) tx(3)] nb(1) by (simp add: P_def)
  have need: "1 \<le> um_need 2 ?sdus"
    using um_need_eq [OF tx(2), of 2] length_le_rem_sum [OF ok(1)] tx(2) li_sum_nonneg [of 2 "length ?sdus - 1"] by (cases ?sdus) auto
  define R where "R = P - 1"
  have R: "0 < R" "R \<le> um_need 2 ?sdus" "R \<le> 1000000" "to_s32 (P - 1) = R" using P nb need by (auto simp: R_def to_s32_def)
  obtain F s ts q l where sp: "um_split 2 R ?sdus = (F, q, l)" and d: "?sdus = F @ s # ts" "0 < q" "q \<le> sdu_remaining_size s + l" "l = 1 \<or> l = 2"
    "R = rem_sum F + int (li_octets (length F)) + q" "0 < sdu_remaining_size s"
    by (rule split_queue [OF ok(1) tx(2) R(1,2)])
  define w where "w = max 0 (q - sdu_remaining_size s)"
  have w: "0 \<le> w" "w < q" "q - w = min q (sdu_remaining_size s)" "w \<le> R" "R - w > 0" using d rem_sum_nonneg [of F] ok(1) by (auto simp: w_def)
  have okF: "\<forall>s\<in>set F. tx_sdu_ok s" using ok(1) d(1) by auto
  let ?t = "\<lparr>test_num_li = 0, test_remaining_size_to_substract = 0, test_remaining_num_li_to_substract = 0,
     test_pdu_remaining = R, test_data_pdu_size = P\<rparr>"
  have "um_test_fill_5 ?sdus R (3 - 2) ?t = ?t\<lparr>test_num_li := test_num_li ?t + int (length F), test_remaining_size_to_substract := 0,
       test_remaining_num_li_to_substract := 0, test_pdu_remaining := test_pdu_remaining ?t - w, test_data_pdu_size := test_data_pdu_size ?t - w\<rparr>"
    using R d(3,4) nb P ok(1) by (intro test_fill_5 [OF sp d(1) ok(1)]) (auto simp: R_def w_def)
  then have t: "um_drop_last_li (um_test_fill_5 ?sdus R 1 ?t) = \<lparr>test_num_li = int (length F), test_remaining_size_to_substract = 0,
       test_remaining_num_li_to_substract = 0, test_pdu_remaining = R - w, test_data_pdu_size = P - w\<rparr>"
    by (simp add: um_drop_last_li_def)
  define q1 where "q1 = q - w"
  have q1: "0 < q1" "q1 \<le> sdu_remaining_size s" "R - w = rem_sum F + int (li_octets (length F)) + q1" using w d(5,6) by (auto simp: q1_def)
  note fr = fill_shrunk [OF sp d(1,3-6) ok(1,3) R(3) w(1,2), of "mem_write blk 0 [0, 0, 0, 0]" 1, folded q1_def]
  have simps: "min q1 (sdu_remaining_size s) = q1" "(sdu_remaining_size s \<le> q1) = (q1 = sdu_remaining_size s)"
    "max 0 (q1 - sdu_remaining_size s) = 0" using q1(2) by auto
  obtain b where b: "um_fill_pdu (int (length F)) ?sdus (um_fill_start (mem_write blk 0 [0, 0, 0, 0]) 1 (length F) (R - w) (rem_sum ?sdus)) = (um_queue_rest s ts q1, b)"
     "um_carries 1 (pdu_p b) F (take (nat q1) (sdu_bytes s))"
     "occupancy b = rem_sum ?sdus - rem_sum F - q1" "fill_num_li b = int (length F)"
     "fi_last_byte_pdu_is_last_byte_sdu b = (q1 = sdu_remaining_size s)" "pdu_remaining_size b = 0"
    using fr unfolding simps by blast
  have sz: "to_s32 (P - w - 0) = 1 + int (li_octets (length F)) + rem_sum F + q1"
    using q1(3) w P nb by (auto simp: R_def to_s32_def)
  have "rlc_um_segment_5 alloc r = um_emit_pdu r (um_queue_rest s ts q1) (buffer_occupancy r - rem_sum F - q1)
         (um_header_5 (um_fi (um_head_is_first_byte ?sdus) (q1 = sdu_remaining_size s)) (F \<noteq> []) (vt_us r) (pdu_p b))
         (1 + int (li_octets (length F)) + rem_sum F + q1)"
    unfolding rlc_um_segment_5_def Let_def nbs P_def [symmetric] R(4) blk
    using nb(1) tx(2) t b sz ok(2) unfolding um_fill_start_def
    by (simp add: to_nat_octets Let_def)
  moreover have "1 + int (li_octets (length F)) + rem_sum F + q1 \<le> ?nb" using q1(3) w P by (auto simp: R_def)
  ultimately show ?thesis using d(1) q1 b(2) by (intro exI [of _ F] exI [of _ s] exI [of _ ts] exI [of _ q1] exI [of _ "pdu_p b"]) auto
qed

text \<open>
  With 10-bit sequence numbers the first pass shortens the room by one octet, but not the PDU, when
  exactly one octet is left behind a complete SDU where a length indicator would need two.
\<close>

lemma segment_10_result:
  assumes tx: "tx_ok r" "input_sdus r \<noteq> []" "tx_header_min_length_in_bytes r = 2"
    and nb: "3 \<le> nb_bytes_requested_by_mac r" "nb_bytes_requested_by_mac r \<le> 1000000" and blk: "alloc (allocs r) = Some blk"
  shows "\<exists>F s ts q m w. input_sdus r = F @ s # ts \<and> 0 < q \<and> q \<le> sdu_remaining_size s \<and> (w = 0 \<or> w = 1 \<and> q = sdu_remaining_size s)
     \<and> rlc_um_segment_10 alloc r = um_emit_pdu r (um_queue_rest s ts q) (buffer_occupancy r - rem_sum F - q)
         (um_header_10 (um_fi (um_head_is_first_byte (input_sdus r)) (q = sdu_remaining_size s)) (F \<noteq> []) (vt_us r) m)
         (2 + int (li_octets (length F)) + rem_sum F + q + w)
     \<and> 2 + int (li_octets (length F)) + rem_sum F + q + w \<le> nb_bytes_requested_by_mac r
     \<and> um_carries 2 m F (take (nat q) (sdu_bytes s))"
proof -
  let ?nb = "nb_bytes_requested_by_mac r" and ?sdus = "input_sdus r"
  have ok: "\<forall>s\<in>set ?sdus. tx_sdu_ok s" "buffer_occupancy r = rem_sum ?sdus" "rem_sum ?sdus \<le> 100000000"
    using tx(1) by (auto simp: tx_ok_def)
  have nbs: "to_s32 ?nb = ?nb" using nb by (simp add: to_s32_def)
  define P where "P = um_data_pdu_size r ?nb"
  have P: "P = min ?nb (2 + um_need 2 ?sdus)" using data_pdu_size_eq [OF tx(1,2) _ nb(2) tx(3)] nb(1) by (simp add: P_def)
  have need: "1 \<le> um_need 2 ?sdus"
    using um_need_eq [OF tx(2), of 2] length_le_rem_sum [OF ok(1)] tx(2) li_sum_nonneg [of 2 "length ?sdus - 1"] by (cases ?sdus) auto
  define R where "R = P - 2"
  have R: "0 < R" "R \<le> um_need 2 ?sdus" "R \<le> 1000000" "to_s32 (P - 2) = R" using P nb need by (auto simp: R_def to_s32_def)
  obtain F s ts q l where sp: "um_split 2 R ?sdus = (F, q, l)" and d: "?sdus = F @ s # ts" "0 < q" "q \<le> sdu_remaining_size s + l" "l = 1 \<or> l = 2"
    "R = rem_sum F + int (li_octets (length F)) + q" "0 < sdu_remaining_size s"
    by (rule split_queue [OF ok(1) tx(2) R(1,2)])
  define w :: int where "w = (if sdu_remaining_size s < q \<and> q < sdu_remaining_size s + l then 1 else 0)"
  have w: "0 \<le> w" "w < q" "w \<le> R" "R - w > 0" using d rem_sum_nonneg [of F] ok(1) by (auto simp: w_def)
  let ?t = "\<lparr>test_num_li = 0, test_remaining_size_to_substract = 0, test_remaining_num_li_to_substract = 0,
     test_pdu_remaining = R, test_data_pdu_size = P\<rparr>"
  have "um_test_fill_10 ?sdus R (3 - 2) ?t = ?t\<lparr>test_num_li := test_num_li ?t + int (length F), test_remaining_size_to_substract := 0,
       test_remaining_num_li_to_substract := 0, test_pdu_remaining := test_pdu_remaining ?t - w\<rparr>"
    using R d(3,4) by (intro test_fill_10 [OF sp d(1) ok(1)]) (auto simp: w_def)
  then have t: "um_drop_last_li (um_test_fill_10 ?sdus R 1 ?t) = \<lparr>test_num_li = int (length F), test_remaining_size_to_substract = 0,
       test_remaining_num_li_to_substract = 0, test_pdu_remaining = R - w, test_data_pdu_size = P\<rparr>"
    by (simp add: um_drop_last_li_def)
  define q1 where "q1 = min (q - w) (sdu_remaining_size s)"
  have q1: "0 < q1" "q1 \<le> sdu_remaining_size s" "um_queue_rest s ts (q - w) = um_queue_rest s ts q1"
    "(sdu_remaining_size s \<le> q - w) = (q1 = sdu_remaining_size s)" "w = 0 \<or> w = 1 \<and> q1 = sdu_remaining_size s"
    "q - max 0 (q - w - sdu_remaining_size s) = q1 + w"
    using w(1,2) d(3,4,6) by (auto simp: q1_def w_def um_queue_rest_def)
  have tk: "take (nat (q - w)) (sdu_bytes s) = take (nat q1) (sdu_bytes s)"
    using length_sdu_bytes [of s] ok(1) d(1) by (auto simp: q1_def min_def)
  obtain b where b: "um_fill_pdu (int (length F)) ?sdus (um_fill_start (mem_write blk 0 [0, 0, 0, 0]) 2 (length F) (R - w) (rem_sum ?sdus)) = (um_queue_rest s ts q1, b)"
     "um_carries 2 (pdu_p b) F (take (nat q1) (sdu_bytes s))"
     "occupancy b = rem_sum ?sdus - rem_sum F - q1" "fill_num_li b = int (length F)"
     "fi_last_byte_pdu_is_last_byte_sdu b = (q1 = sdu_remaining_size s)" "pdu_remaining_size b = max 0 (q - w - sdu_remaining_size s)"
    using fill_shrunk [OF sp d(1,3-6) ok(1,3) R(3) w(1,2), of "mem_write blk 0 [0, 0, 0, 0]" 2]
    unfolding q1_def [symmetric] q1(3,4) tk by blast
  have sz: "to_s32 (P - pdu_remaining_size b) = 2 + int (li_octets (length F)) + rem_sum F + q1 + w"
  proof -
    have "P - pdu_remaining_size b = 2 + int (li_octets (length F)) + rem_sum F + q1 + w"
      unfolding b(6) using d(5) q1(6) by (simp add: R_def)
    moreover have "0 \<le> P - pdu_remaining_size b" "P - pdu_remaining_size b \<le> 1000000"
      unfolding b(6) using d(2,5,6) P nb rem_sum_nonneg [of F] ok(1) d(1) w by (auto simp: R_def)
    ultimately show ?thesis by (simp add: to_s32_def)
  qed
  have "rlc_um_segment_10 alloc r = um_emit_pdu r (um_queue_rest s ts q1) (buffer_occupancy r - rem_sum F - q1)
         (um_header_10 (um_fi (um_head_is_first_byte ?sdus) (q1 = sdu_remaining_size s)) (F \<noteq> []) (vt_us r) (pdu_p b))
         (2 + int (li_octets (length F)) + rem_sum F + q1 + w)"
    unfolding rlc_um_segment_10_def Let_def nbs P_def [symmetric] R(4) blk
    using nb(1) tx(2) t b(1-5) sz ok(2) unfolding um_fill_start_def
    by (simp add: to_nat_octets Let_def)
  moreover have "2 + int (li_octets (length F)) + rem_sum F + q1 + w \<le> ?nb" using d(5) q1(6) P by (auto simp: R_def)
  ultimately show ?thesis using d(1) q1 b(2)
    by (intro exI [of _ F] exI [of _ s] exI [of _ ts] exI [of _ q1] exI [of _ "pdu_p b"] exI [of _ w]) blast
qed

section \<open>The receiver reads back what was written\<close>

lemma header_5:
  assumes "0 \<le> fi" "fi \<le> 3"
  shows "drop_bit 5 (um_header_5 fi has_li vt m 0 AND 0x20) = (if has_li then 1 else 0)"
    "drop_bit 6 (um_header_5 fi has_li vt m 0 AND 0xC0) = word_of_int fi"
    "um_header_5 fi has_li vt m 0 AND 0x1F = word_of_int (vt AND 0x1F)"
    "i \<ge> 1 \<Longrightarrow> um_header_5 fi has_li vt m i = m i"
proof -
  have fi: "fi = 0 \<or> fi = 1 \<or> fi = 2 \<or> fi = 3" using assms by auto
  show "drop_bit 5 (um_header_5 fi has_li vt m 0 AND 0x20) = (if has_li then 1 else 0)"
    by (rule byte_eqI) (use fi in \<open>auto simp: um_header_5_def bit_simps bit_push_bit_iff_int Let_def\<close>)
  show "drop_bit 6 (um_header_5 fi has_li vt m 0 AND 0xC0) = word_of_int fi"
    by (rule byte_eqI) (use fi in \<open>auto simp: um_header_5_def bit_simps bit_push_bit_iff_int Let_def\<close>)
  show "um_header_5 fi has_li vt m 0 AND 0x1F = word_of_int (vt AND 0x1F)"
    by (rule byte_eqI) (use fi in \<open>auto simp: um_header_5_def bit_simps bit_push_bit_iff_int Let_def\<close>)
  show "i \<ge> 1 \<Longrightarrow> um_header_5 fi has_li vt m i = m i" by (simp add: um_header_5_def Let_def)
qed

lemma header_10:
  assumes "0 \<le> fi" "fi \<le> 3"
  shows "drop_bit 2 (um_header_10 fi has_li vt m 0 AND 0x04) = (if has_li then 1 else 0)"
    "drop_bit 3 (um_header_10 fi has_li vt m 0 AND 0x18) = word_of_int fi"
    "um_header_10 fi has_li vt m 0 AND 0x03 = word_of_int (drop_bit 8 vt AND 0x03)"
    "um_header_10 fi has_li vt m 1 = word_of_int (vt AND 0xFF)"
    "i \<ge> 2 \<Longrightarrow> um_header_10 fi has_li vt m i = m i"
proof -
  have fi: "fi = 0 \<or> fi = 1 \<or> fi = 2 \<or> fi = 3" using assms by auto
  show "drop_bit 2 (um_header_10 fi has_li vt m 0 AND 0x04) = (if has_li then 1 else 0)"
    by (rule byte_eqI) (use fi in \<open>auto simp: um_header_10_def bit_simps bit_push_bit_iff_int Let_def\<close>)
  show "drop_bit 3 (um_header_10 fi has_li vt m 0 AND 0x18) = word_of_int fi"
    by (rule byte_eqI) (use fi in \<open>auto simp: um_header_10_def bit_simps bit_push_bit_iff_int Let_def\<close>)
  show "um_header_10 fi has_li vt m 0 AND 0x03 = word_of_int (drop_bit 8 vt AND 0x03)"
    by (rule byte_eqI) (use fi in \<open>auto simp: um_header_10_def bit_simps bit_push_bit_iff_int Let_def\<close>)
  show "um_header_10 fi has_li vt m 1 = word_of_int (vt AND 0xFF)"
    "i \<ge> 2 \<Longrightarrow> um_header_10 fi has_li vt m i = m i" by (simp_all add: um_header_10_def Let_def)
qed

lemma um_fi_range: "0 \<le> um_fi a b" "um_fi a b \<le> 3"
  by (simp_all add: um_fi_def)

lemma carries_parts:
  assumes c: "um_carries h m F seg" and F: "\<forall>s\<in>set F. tx_sdu_ok s \<and> sdu_remaining_size s < 2048" "length F \<le> 128"
    and seg: "seg \<noteq> []" "int (li_octets (length F)) + rem_sum F + int (length seg) \<le> 65535"
    and hd: "um_pdu_header q tb = (if F = [] then 0 else 1, fi, int (li_octets (length F)) + rem_sum F + int (length seg), mem_at m h)"
  shows "um_pdu_parts q tb = Some (fi, map sdu_bytes F @ [seg])"
proof (cases "F = []")
  case True
  then have "mem_read m h (length seg) = seg" using c by (simp add: um_carries_def li_octets_def)
  then show ?thesis using True um_pdu_parts_read [OF hd] seg(2) by (simp add: li_octets_def)
next
  case False
  let ?lis = "map sdu_remaining_size F" and ?k = "li_octets (length F)"
  have lis: "?lis = map (\<lambda>x. int (length x)) (map sdu_bytes F)" using F(1) length_sdu_bytes by simp
  have nn: "0 \<le> rem_sum F" using F(1) by (intro rem_sum_nonneg) auto
  then have seg6: "length seg \<le> 65535" using seg(2) by simp
  have enc: "mem_read (mem_at m h) 0 (li_octets (length ?lis)) = li_enc ?lis" using c by (simp add: um_carries_def)
  have "um_read_li (mem_at m h) [] (int (length seg) + sum_list ?lis + int (li_octets (length ?lis))) = Some (0, [] @ ?lis, int (length seg))"
    using False F seg(1) seg6 by (intro read_li_enc [OF enc]) (auto simp: tx_sdu_ok_def)
  then have "rlc_um_read_length_indicators (mem_at m h) (mem_at m h) (int ?k + rem_sum F + int (length seg)) = Some (0, mem_at m (h + ?k), ?lis, int (length seg))"
    by (simp add: rlc_um_read_length_indicators_def rem_sum_def li_octets_def algebra_simps)
  moreover have "segs_of (mem_at m (h + ?k)) ?lis (int (length seg)) = map sdu_bytes F @ [seg]"
    using c by (intro segs_of_concat [OF _ lis refl]) (simp add: um_carries_def)
  ultimately show ?thesis using nn um_pdu_parts_read [OF hd] seg(2) False by simp
qed

text \<open>The queue as the sequence of octets still to send, SDU by SDU.\<close>

lemma queue_rest_ok:
  assumes "tx_sdu_ok s" "\<forall>s\<in>set ts. tx_sdu_ok s" "0 < q" "q \<le> sdu_remaining_size s"
  shows "\<forall>s\<in>set (um_queue_rest s ts q). tx_sdu_ok s" "rem_sum (um_queue_rest s ts q) = sdu_remaining_size s + rem_sum ts - q"
    "concat (map sdu_bytes (s # ts)) = take (nat q) (sdu_bytes s) @ concat (map sdu_bytes (um_queue_rest s ts q))"
proof -
  show "\<forall>s\<in>set (um_queue_rest s ts q). tx_sdu_ok s" "rem_sum (um_queue_rest s ts q) = sdu_remaining_size s + rem_sum ts - q"
    using assms by (auto simp: um_queue_rest_def tx_sdu_ok_def)
  show "concat (map sdu_bytes (s # ts)) = take (nat q) (sdu_bytes s) @ concat (map sdu_bytes (um_queue_rest s ts q))"
  proof (cases "q < sdu_remaining_size s")
    case True
    have "0 \<le> sdu_segmented_size s" using assms(1) by (simp add: tx_sdu_ok_def)
    then have "drop (nat (sdu_segmented_size s + q)) (first_byte s) = drop (nat q) (sdu_bytes s)"
      using assms(3) by (simp add: sdu_bytes_def nat_add_distrib add.commute)
    then have "sdu_bytes s = take (nat q) (sdu_bytes s) @ drop (nat (sdu_segmented_size s + q)) (first_byte s)" by simp
    then show ?thesis using True by (simp add: um_queue_rest_def sdu_bytes_def)
  next
    case False
    then have "take (nat q) (sdu_bytes s) = sdu_bytes s" using assms(1,4) length_sdu_bytes [of s] by simp
    then show ?thesis using False by (simp add: um_queue_rest_def)
  qed
qed

lemma tx_ok_emit:
  assumes "tx_ok r" "input_sdus r = F @ s # ts" "0 < q" "q \<le> sdu_remaining_size s"
  shows "tx_ok (um_emit_pdu r (um_queue_rest s ts q) (buffer_occupancy r - rem_sum F - q) m sz)"
proof -
  have ok: "tx_sdu_ok s" "\<forall>s\<in>set ts. tx_sdu_ok s" "\<forall>s\<in>set F. tx_sdu_ok s" "\<forall>s\<in>set ts. sdu_segmented_size s = 0"
    using assms(1,2) by (cases F; auto simp: tx_ok_def)+
  have "set (tl (um_queue_rest s ts q)) \<subseteq> set ts" by (cases ts) (auto simp: um_queue_rest_def)
  then have "\<forall>x\<in>set (tl (um_queue_rest s ts q)). sdu_segmented_size x = 0" using ok(4) by blast
  then show ?thesis
    using queue_rest_ok [OF ok(1,2) assms(3,4)] rem_sum_nonneg [OF ok(3)] assms
    by (auto simp: tx_ok_def um_emit_pdu_def)
qed

section \<open>The PDU as the receiver decodes it\<close>

lemma carries_extend:
  assumes "um_carries h m F seg"
  shows "um_carries h m F (seg @ mem_read m (h + li_octets (length F) + length (concat (map sdu_bytes F) @ seg)) w)"
proof -
  let ?D = "concat (map sdu_bytes F) @ seg" and ?a = "h + li_octets (length F)"
  have "mem_read m ?a (length ?D + w) = ?D @ mem_read m (?a + length ?D) w"
    using assms unfolding um_carries_def mem_read_add by simp
  then show ?thesis using assms by (simp add: um_carries_def add.assoc)
qed

lemma length_fulls: "\<forall>s\<in>set F. tx_sdu_ok s \<Longrightarrow> int (length (concat (map sdu_bytes F))) = rem_sum F"
  by (induction F) (simp_all add: length_sdu_bytes)

lemma length_take_sdu: "tx_sdu_ok s \<Longrightarrow> 0 \<le> q \<Longrightarrow> q \<le> sdu_remaining_size s \<Longrightarrow> int (length (take (nat q) (sdu_bytes s))) = q"
  using length_sdu_bytes [of s] by simp

lemma segment_5_parts:
  assumes tx: "tx_ok r" "input_sdus r \<noteq> []" "tx_header_min_length_in_bytes r = 1"
    and nb: "2 \<le> nb_bytes_requested_by_mac r" "nb_bytes_requested_by_mac r \<le> 65535" and blk: "alloc (allocs r) \<noteq> None"
    and li: "\<forall>s\<in>set (input_sdus r). sdu_remaining_size s < 2048" "length (input_sdus r) \<le> 128" and rx: "rx_sn_length rx = 5"
  shows "\<exists>F s ts q m sz. input_sdus r = F @ s # ts \<and> 0 < q \<and> q \<le> sdu_remaining_size s
     \<and> rlc_um_segment_5 alloc r = um_emit_pdu r (um_queue_rest s ts q) (buffer_occupancy r - rem_sum F - q) m sz
     \<and> 1 < sz \<and> sz \<le> nb_bytes_requested_by_mac r
     \<and> m 0 AND 0x1F = word_of_int (vt_us r AND 0x1F)
     \<and> um_pdu_parts rx \<lparr>data_ptr = m, tb_size = sz\<rparr> =
         Some (word_of_int (um_fi (um_head_is_first_byte (input_sdus r)) (q = sdu_remaining_size s)),
               map sdu_bytes F @ [take (nat q) (sdu_bytes s)])"
proof -
  obtain blk' where "alloc (allocs r) = Some blk'" using blk by blast
  moreover have "nb_bytes_requested_by_mac r \<le> 1000000" using nb(2) by simp
  ultimately obtain F s ts q m where d: "input_sdus r = F @ s # ts" "0 < q" "q \<le> sdu_remaining_size s"
    and seg: "rlc_um_segment_5 alloc r = um_emit_pdu r (um_queue_rest s ts q) (buffer_occupancy r - rem_sum F - q)
         (um_header_5 (um_fi (um_head_is_first_byte (input_sdus r)) (q = sdu_remaining_size s)) (F \<noteq> []) (vt_us r) m)
         (1 + int (li_octets (length F)) + rem_sum F + q)"
    and sz: "1 + int (li_octets (length F)) + rem_sum F + q \<le> nb_bytes_requested_by_mac r"
    and c: "um_carries 1 m F (take (nat q) (sdu_bytes s))"
    using segment_5_result [OF tx nb(1), of alloc blk'] by blast
  let ?fi = "um_fi (um_head_is_first_byte (input_sdus r)) (q = sdu_remaining_size s)"
  let ?m = "um_header_5 ?fi (F \<noteq> []) (vt_us r) m" and ?sz = "1 + int (li_octets (length F)) + rem_sum F + q"
  note h = header_5 [OF um_fi_range]
  have okF: "\<forall>s\<in>set F. tx_sdu_ok s" and oks: "tx_sdu_ok s" using tx(1) d(1) by (auto simp: tx_ok_def)
  have Fs: "\<forall>s\<in>set F. tx_sdu_ok s \<and> sdu_remaining_size s < 2048" "length F \<le> 128" using okF li d(1) by auto
  have len: "int (length (take (nat q) (sdu_bytes s))) = q" using length_take_sdu [OF oks] d(2,3) by simp
  have "um_carries 1 ?m F (take (nat q) (sdu_bytes s))" using c by (subst um_carries_cong [of _ _ m]) (simp_all add: h(4))
  moreover have "um_pdu_header rx \<lparr>data_ptr = ?m, tb_size = ?sz\<rparr> = (if F = [] then 0 else 1, word_of_int ?fi,
      int (li_octets (length F)) + rem_sum F + int (length (take (nat q) (sdu_bytes s))), mem_at ?m 1)"
    using rx h(1,2) by (simp only: um_pdu_header_def Let_def len) simp
  moreover have "take (nat q) (sdu_bytes s) \<noteq> []" using len d(2) by auto
  moreover have "int (li_octets (length F)) + rem_sum F + int (length (take (nat q) (sdu_bytes s))) \<le> 65535" unfolding len using sz nb(2) by simp
  ultimately have "um_pdu_parts rx \<lparr>data_ptr = ?m, tb_size = ?sz\<rparr> = Some (word_of_int ?fi, map sdu_bytes F @ [take (nat q) (sdu_bytes s)])"
    using Fs by (intro carries_parts)
  moreover have "1 < ?sz" using d(2) rem_sum_nonneg [OF okF] by simp
  ultimately show ?thesis using d seg sz h(3) by blast
qed

lemma segment_10_parts:
  assumes tx: "tx_ok r" "input_sdus r \<noteq> []" "tx_header_min_length_in_bytes r = 2"
    and nb: "3 \<le> nb_bytes_requested_by_mac r" "nb_bytes_requested_by_mac r \<le> 65535" and blk: "alloc (allocs r) \<noteq> None"
    and li: "\<forall>s\<in>set (input_sdus r). sdu_remaining_size s < 2048" "length (input_sdus r) \<le> 128" and rx: "rx_sn_length rx = 10"
  shows "\<exists>F s ts q m sz stray. input_sdus r = F @ s # ts \<and> 0 < q \<and> q \<le> sdu_remaining_size s
     \<and> (stray = [] \<or> length stray = 1 \<and> q = sdu_remaining_size s)
     \<and> rlc_um_segment_10 alloc r = um_emit_pdu r (um_queue_rest s ts q) (buffer_occupancy r - rem_sum F - q) m sz
     \<and> 2 < sz \<and> sz \<le> nb_bytes_requested_by_mac r
     \<and> um_pdu_parts rx \<lparr>data_ptr = m, tb_size = sz\<rparr> =
         Some (word_of_int (um_fi (um_head_is_first_byte (input_sdus r)) (q = sdu_remaining_size s)),
               map sdu_bytes F @ [take (nat q) (sdu_bytes s) @ stray])"
proof -
  obtain blk' where "alloc (allocs r) = Some blk'" using blk by blast
  moreover have "nb_bytes_requested_by_mac r \<le> 1000000" using nb(2) by simp
  ultimately obtain F s ts q m w where d: "input_sdus r = F @ s # ts" "0 < q" "q \<le> sdu_remaining_size s"
    and w: "w = 0 \<or> w = 1 \<and> q = sdu_remaining_size s"
    and seg: "rlc_um_segment_10 alloc r = um_emit_pdu r (um_queue_rest s ts q) (buffer_occupancy r - rem_sum F - q)
         (um_header_10 (um_fi (um_head_is_first_byte (input_sdus r)) (q = sdu_remaining_size s)) (F \<noteq> []) (vt_us r) m)
         (2 + int (li_octets (length F)) + rem_sum F + q + w)"
    and sz: "2 + int (li_octets (length F)) + rem_sum F + q + w \<le> nb_bytes_requested_by_mac r"
    and c: "um_carries 2 m F (take (nat q) (sdu_bytes s))"
    using segment_10_result [OF tx nb(1), of alloc blk'] by blast
  let ?fi = "um_fi (um_head_is_first_byte (input_sdus r)) (q = sdu_remaining_size s)"
  let ?m = "um_header_10 ?fi (F \<noteq> []) (vt_us r) m" and ?sz = "2 + int (li_octets (length F)) + rem_sum F + q + w"
  note h = header_10 [OF um_fi_range]
  have okF: "\<forall>s\<in>set F. tx_sdu_ok s" and oks: "tx_sdu_ok s" using tx(1) d(1) by (auto simp: tx_ok_def)
  obtain stray where st: "length stray = nat w" and c': "um_carries 2 ?m F (take (nat q) (sdu_bytes s) @ stray)"
  proof -
    have "um_carries 2 ?m F (take (nat q) (sdu_bytes s))" using c by (subst um_carries_cong [of _ _ m]) (simp_all add: h(5))
    from that [OF _ carries_extend [OF this, of "nat w"]] show ?thesis by simp
  qed
  let ?seg = "take (nat q) (sdu_bytes s) @ stray"
  have Fs: "\<forall>s\<in>set F. tx_sdu_ok s \<and> sdu_remaining_size s < 2048" "length F \<le> 128" using okF li d(1) by auto
  have len: "int (length ?seg) = q + w" using length_take_sdu [OF oks] d(2,3) st w by auto
  have "um_pdu_header rx \<lparr>data_ptr = ?m, tb_size = ?sz\<rparr> = (if F = [] then 0 else 1, word_of_int ?fi,
      int (li_octets (length F)) + rem_sum F + int (length ?seg), mem_at ?m 2)"
    using rx h(1,2) by (simp only: um_pdu_header_def Let_def len) simp
  moreover have "?seg \<noteq> []" using len d(2) w by auto
  moreover have "int (li_octets (length F)) + rem_sum F + int (length ?seg) \<le> 65535" unfolding len using sz nb(2) by simp
  ultimately have "um_pdu_parts rx \<lparr>data_ptr = ?m, tb_size = ?sz\<rparr> = Some (word_of_int ?fi, map sdu_bytes F @ [?seg])"
    using Fs c' by (intro carries_parts)
  moreover have "2 < ?sz" using d(2) w rem_sum_nonneg [OF okF] by auto
  moreover have "stray = [] \<or> length stray = 1 \<and> q = sdu_remaining_size s" using st w by auto
  ultimately show ?thesis using d seg sz by blast
qed

definition um_sdu_of :: "byte list \<Rightarrow> rlc_um_tx_sdu_management" where
  "um_sdu_of bs = \<lparr>first_byte = bs, sdu_creation_time = 0, sdu_remaining_size = int (length bs), sdu_segmented_size = 0,
     sdu_size = int (length bs)\<rparr>"

definition um_loaded_entity :: "int \<Rightarrow> int \<Rightarrow> byte list list \<Rightarrow> rlc_um_entity" where
  "um_loaded_entity sn_len nb sdus = (rlc_um_configure rlc_um_zero 35 sn_len sn_len 0)
     \<lparr>input_sdus := map um_sdu_of sdus, buffer_occupancy := int (length (concat sdus)), nb_bytes_requested_by_mac := nb\<rparr>"

lemma um_loaded_sel:
  "input_sdus (um_loaded_entity l nb sdus) = map um_sdu_of sdus" "buffer_occupancy (um_loaded_entity l nb sdus) = int (length (concat sdus))"
  "nb_bytes_requested_by_mac (um_loaded_entity l nb sdus) = nb"
  by (simp_all add: um_loaded_entity_def)

lemma um_loaded_cfg:
  "tx_header_min_length_in_bytes (um_loaded_entity 5 nb sdus) = 1" "tx_header_min_length_in_bytes (um_loaded_entity 10 nb sdus) = 2"
  "rx_sn_length (um_loaded_entity 5 nb sdus) = 5" "rx_sn_length (um_loaded_entity 10 nb sdus) = 10"
  by (simp_all add: um_loaded_entity_def rlc_um_configure_def rlc_um_reset_state_variables_def rlc_um_init_timer_reordering_def)

lemma um_loaded_tx_ok:
  assumes "\<forall>bs\<in>set sdus. 0 < length bs \<and> length bs \<le> 65535" "length (concat sdus) \<le> 100000000"
  shows "tx_ok (um_loaded_entity l nb sdus)"
proof -
  have "rem_sum (map um_sdu_of sdus) = int (length (concat sdus))" by (induction sdus) (simp_all add: um_sdu_of_def)
  moreover have "\<forall>s\<in>set (tl (map um_sdu_of sdus)). sdu_segmented_size s = 0" by (cases sdus) (auto simp: um_sdu_of_def)
  ultimately show ?thesis using assms by (auto simp: tx_ok_def um_loaded_sel tx_sdu_ok_def um_sdu_of_def)
qed

text \<open>
  C9. Segmentation with 5-bit sequence numbers and its decoding are inverse: with at most 128 SDUs queued, each with at most
  2047 octets left, a grant of at least two octets and memory, exactly one PDU is produced, no larger than the grant; its
  header carries the low five bits of VT(US); the receiver decodes from it the
  SDUs taken whole and the first q octets of the next one, one part per SDU, in queue order, with the
  framing information that says whether the first part starts and the last part ends an SDU; the
  queue keeps exactly the octets not sent and the buffer occupancy drops by the octets sent.
\<close>
theorem rlc_um_segment_5_roundtrip:
  assumes "tx_ok r" "input_sdus r \<noteq> []" "tx_header_min_length_in_bytes r = 1"
    and "2 \<le> nb_bytes_requested_by_mac r" "nb_bytes_requested_by_mac r \<le> 65535" "alloc (allocs r) \<noteq> None"
    and "\<forall>s\<in>set (input_sdus r). sdu_remaining_size s < 2048" "length (input_sdus r) \<le> 128" "rx_sn_length rx = 5"
  shows "tx_ok (rlc_um_segment_5 alloc r) \<and> (\<exists>F s ts q m sz. input_sdus r = F @ s # ts \<and> 0 < q \<and> q \<le> sdu_remaining_size s
     \<and> rlc_um_segment_5 alloc r = um_emit_pdu r (um_queue_rest s ts q) (buffer_occupancy r - rem_sum F - q) m sz
     \<and> 1 < sz \<and> sz \<le> nb_bytes_requested_by_mac r \<and> uint (m 0 AND 0x1F) = vt_us r mod 32
     \<and> um_pdu_parts rx \<lparr>data_ptr = m, tb_size = sz\<rparr> =
         Some (word_of_int (um_fi (um_head_is_first_byte (input_sdus r)) (q = sdu_remaining_size s)),
               map sdu_bytes F @ [take (nat q) (sdu_bytes s)]))"
proof -
  obtain F s ts q m sz where d: "input_sdus r = F @ s # ts" "0 < q" "q \<le> sdu_remaining_size s"
     "rlc_um_segment_5 alloc r = um_emit_pdu r (um_queue_rest s ts q) (buffer_occupancy r - rem_sum F - q) m sz"
     "1 < sz" "sz \<le> nb_bytes_requested_by_mac r" "m 0 AND 0x1F = word_of_int (vt_us r AND 0x1F)" "um_pdu_parts rx \<lparr>data_ptr = m, tb_size = sz\<rparr> =
         Some (word_of_int (um_fi (um_head_is_first_byte (input_sdus r)) (q = sdu_remaining_size s)),
               map sdu_bytes F @ [take (nat q) (sdu_bytes s)])"
    using segment_5_parts [where alloc = alloc, OF assms] by blast
  have "vt_us r AND 0x1F = vt_us r mod 32" using take_bit_eq_mask [of 5 "vt_us r"] by (simp add: mask_eq_exp_minus_1 take_bit_eq_mod)
  then have sn: "uint (m 0 AND 0x1F) = vt_us r mod 32" using d(7) by (simp add: uint_word_of_int)
  with d show ?thesis using tx_ok_emit [OF assms(1) d(1-3)] by (intro conjI) (simp, blast)
qed

theorem rlc_um_segment_5_roundtrip_witness:
  "\<exists>m sz. pdus_to_mac_layer (rlc_um_segment_5 (\<lambda>n. Some (\<lambda>i. 0)) (um_loaded_entity 5 6 [[1, 2], [3, 4, 5]])) = [\<lparr>tb_req_data_ptr = m, tb_req_size = sz\<rparr>]
     \<and> sz \<le> 6 \<and> uint (m 0 AND 0x1F) = 0"
proof -
  let ?r = "um_loaded_entity 5 6 [[1, 2], [3, 4, 5]]"
  have "tx_ok ?r" by (rule um_loaded_tx_ok) simp_all
  moreover have "pdus_to_mac_layer ?r = []" "vt_us ?r = 0"
    by (simp_all add: um_loaded_entity_def rlc_um_configure_def rlc_um_reset_state_variables_def rlc_um_init_timer_reordering_def rlc_um_zero_def)
  ultimately show ?thesis
    using rlc_um_segment_5_roundtrip [of ?r "\<lambda>n. Some (\<lambda>i. 0)" ?r]
    by (auto simp: um_loaded_sel um_loaded_cfg um_sdu_of_def um_emit_pdu_def)
qed

text \<open>
  Segmentation with 10-bit sequence numbers keeps the transmitter invariant (the queue holds
  exactly the octets not sent, the buffer occupancy is their number), never exceeds the grant, and the
  receiver decodes the octets taken from the queue; but the last part, when it completes an SDU, may
  carry one further octet that belongs to no SDU.
\<close>
theorem rlc_um_segment_10_decodes:
  assumes "tx_ok r" "input_sdus r \<noteq> []" "tx_header_min_length_in_bytes r = 2"
    and "3 \<le> nb_bytes_requested_by_mac r" "nb_bytes_requested_by_mac r \<le> 65535" "alloc (allocs r) \<noteq> None"
    and "\<forall>s\<in>set (input_sdus r). sdu_remaining_size s < 2048" "length (input_sdus r) \<le> 128" "rx_sn_length rx = 10"
  shows "tx_ok (rlc_um_segment_10 alloc r) \<and> (\<exists>F s ts q m sz stray. input_sdus r = F @ s # ts \<and> 0 < q \<and> q \<le> sdu_remaining_size s
     \<and> (stray = [] \<or> length stray = 1 \<and> q = sdu_remaining_size s)
     \<and> rlc_um_segment_10 alloc r = um_emit_pdu r (um_queue_rest s ts q) (buffer_occupancy r - rem_sum F - q) m sz
     \<and> 2 < sz \<and> sz \<le> nb_bytes_requested_by_mac r
     \<and> um_pdu_parts rx \<lparr>data_ptr = m, tb_size = sz\<rparr> =
         Some (word_of_int (um_fi (um_head_is_first_byte (input_sdus r)) (q = sdu_remaining_size s)),
               map sdu_bytes F @ [take (nat q) (sdu_bytes s) @ stray]))"
proof -
  obtain F s ts q m sz stray where d: "input_sdus r = F @ s # ts" "0 < q" "q \<le> sdu_remaining_size s"
     "stray = [] \<or> length stray = 1 \<and> q = sdu_remaining_size s"
     "rlc_um_segment_10 alloc r = um_emit_pdu r (um_queue_rest s ts q) (buffer_occupancy r - rem_sum F - q) m sz"
     "2 < sz" "sz \<le> nb_bytes_requested_by_mac r" "um_pdu_parts rx \<lparr>data_ptr = m, tb_size = sz\<rparr> =
         Some (word_of_int (um_fi (um_head_is_first_byte (input_sdus r)) (q = sdu_remaining_size s)),
               map sdu_bytes F @ [take (nat q) (sdu_bytes s) @ stray])"
    using segment_10_parts [where alloc = alloc, OF assms] by blast
  then show ?thesis using tx_ok_emit [OF assms(1) d(1-3)] by (intro conjI) (simp, blast)
qed

theorem rlc_um_segment_10_decodes_witness:
  "tx_ok (rlc_um_segment_10 (\<lambda>n. Some (\<lambda>i. 0)) (um_loaded_entity 10 5 [[1, 2], [3, 4, 5]]))"
proof -
  let ?r = "um_loaded_entity 10 5 [[1, 2], [3, 4, 5]]"
  have "tx_ok ?r" by (rule um_loaded_tx_ok) simp_all
  then show ?thesis
    using rlc_um_segment_10_decodes [of ?r "\<lambda>n. Some (\<lambda>i. 0)" ?r]
    by (auto simp: um_loaded_sel um_loaded_cfg um_sdu_of_def)
qed

text \<open>
  The further octet occurs: with SDUs of 2 and 5 octets queued and a grant of 5 octets, the PDU
  claims to carry exactly one complete SDU and the receiver decodes three octets for it, the third
  one being whatever the memory block contained before.
\<close>
theorem rlc_um_segment_10_stray_octet:
  "(case pdus_to_mac_layer (rlc_um_segment_10 (\<lambda>n. Some (\<lambda>i. 0xEE)) (um_loaded_entity 10 5 [[1, 2], [3, 4, 5, 6, 7]])) of
      [tb] \<Rightarrow> um_pdu_parts (um_loaded_entity 10 5 []) \<lparr>data_ptr = tb_req_data_ptr tb, tb_size = tb_req_size tb\<rparr>
    | _ \<Rightarrow> None) = Some (0, [[1, 2, 0xEE]])"
  by code_simp

text \<open>
  Nothing is sent, and neither queue, occupancy nor sequence number change, when the grant is too
  small for a header and one octet, when nothing is queued, or when no memory block is available.
\<close>
theorem rlc_um_segment_no_pdu:
  assumes "input_sdus r = [] \<or> alloc (allocs r) = None \<or> to_s32 (nb_bytes_requested_by_mac r) < 2"
  shows "(\<exists>n. rlc_um_segment_5 alloc r = r\<lparr>allocs := n\<rparr>) \<and> (\<exists>n. rlc_um_segment_10 alloc r = r\<lparr>allocs := n\<rparr>)"
proof -
  have id: "r = r\<lparr>allocs := allocs r\<rparr>" by simp
  show ?thesis
  proof (cases "to_s32 (nb_bytes_requested_by_mac r) < 2 \<or> input_sdus r = []")
    case True
    then have "rlc_um_segment_5 alloc r = r" "rlc_um_segment_10 alloc r = r"
      by (elim disjE; simp add: rlc_um_segment_5_def rlc_um_segment_10_def Let_def)+
    then show ?thesis using id by metis
  next
    case False
    then have "alloc (allocs r) = None" using assms by blast
    then have "rlc_um_segment_5 alloc r \<in> {r, r\<lparr>allocs := Suc (allocs r)\<rparr>}" "rlc_um_segment_10 alloc r \<in> {r, r\<lparr>allocs := Suc (allocs r)\<rparr>}"
      by (auto simp: rlc_um_segment_5_def rlc_um_segment_10_def Let_def)
    then show ?thesis using id by (metis insertE singletonD)
  qed
qed

theorem rlc_um_segment_no_pdu_witness:
  "\<exists>n. rlc_um_segment_5 (\<lambda>n. None) (um_loaded_entity 5 6 [[1, 2], [3, 4, 5]]) = (um_loaded_entity 5 6 [[1, 2], [3, 4, 5]])\<lparr>allocs := n\<rparr>"
  using rlc_um_segment_no_pdu [of "um_loaded_entity 5 6 [[1, 2], [3, 4, 5]]" "\<lambda>n. None"] by simp

end
