(* ===== verification/Rlc_Um.thy ===== *)
theory Rlc_Um
  imports Rlc_Um_Dar Rlc_Um_Segment
begin

text \<open>
  The interface of the RLC UM entity to PDCP and MAC (\<open>rlc_um.c\<close>): submission of an SDU, status
  indication, data request and data indication, and the statistics. The debug output is left out.
  A field of a response that the code does not write is \<open>None\<close>. The theory ends with the transfer
  of SDUs between two entities with 5-bit sequence numbers through these functions.
\<close>

section \<open>Operations\<close>

record rlc_um_stats =
  st_tx_pdcp_sdu :: int
  st_tx_pdcp_bytes :: int
  st_tx_pdcp_sdu_discarded :: int
  st_tx_pdcp_bytes_discarded :: int
  st_tx_data_pdu :: int
  st_tx_data_bytes :: int
  st_rx_pdcp_sdu :: int
  st_rx_pdcp_bytes :: int
  st_rx_data_pdus_duplicate :: int
  st_rx_data_bytes_duplicate :: int
  st_rx_data_pdu :: int
  st_rx_data_bytes :: int
  st_rx_data_pdu_dropped :: int
  st_rx_data_bytes_dropped :: int
  st_rx_data_pdu_out_of_window :: int
  st_rx_data_bytes_out_of_window :: int
  st_timer_reordering_timed_out :: int

definition rlc_um_stat_req :: "rlc_um_entity \<Rightarrow> rlc_um_stats" where
  "rlc_um_stat_req r =
     \<lparr>st_tx_pdcp_sdu = stat_tx_pdcp_sdu r, st_tx_pdcp_bytes = stat_tx_pdcp_bytes r,
      st_tx_pdcp_sdu_discarded = stat_tx_pdcp_sdu_discarded r,
      st_tx_pdcp_bytes_discarded = stat_tx_pdcp_bytes_discarded r,
      st_tx_data_pdu = stat_tx_data_pdu r, st_tx_data_bytes = stat_tx_data_bytes r,
      st_rx_pdcp_sdu = stat_rx_pdcp_sdu r, st_rx_pdcp_bytes = stat_rx_pdcp_bytes r,
      st_rx_data_pdus_duplicate = stat_rx_data_pdus_duplicate r,
      st_rx_data_bytes_duplicate = stat_rx_data_bytes_duplicate r,
      st_rx_data_pdu = stat_rx_data_pdu r, st_rx_data_bytes = stat_rx_data_bytes r,
      st_rx_data_pdu_dropped = stat_rx_data_pdu_dropped r,
      st_rx_data_bytes_dropped = stat_rx_data_bytes_dropped r,
      st_rx_data_pdu_out_of_window = stat_rx_data_pdu_out_of_window r,
      st_rx_data_bytes_out_of_window = stat_rx_data_bytes_out_of_window r,
      st_timer_reordering_timed_out = stat_timer_reordering_timed_out r\<rparr>"

definition rlc_um_get_buffer_occupancy :: "rlc_um_entity \<Rightarrow> int" where
  "rlc_um_get_buffer_occupancy r = (if buffer_occupancy r > 0 then to_u32 (buffer_occupancy r) else 0)"

definition rlc_um_get_pdus :: "allocator \<Rightarrow> rlc_um_entity \<Rightarrow> rlc_um_entity" where
  "rlc_um_get_pdus alloc r =
     (case protocol_state r of
        RLC_DATA_TRANSFER_READY_STATE \<Rightarrow>
          let r1 = (if tx_sn_length r = 10 then rlc_um_segment_10 alloc r else r) in
          if tx_sn_length r1 = 5 then rlc_um_segment_5 alloc r1 else r1
      | _ \<Rightarrow> r)"

definition rlc_um_rx :: "allocator \<Rightarrow> protocol_ctxt \<Rightarrow> rlc_um_entity \<Rightarrow> mac_tb_ind list \<Rightarrow> rlc_um_entity option" where
  "rlc_um_rx alloc ctxt r data_ind =
     (case protocol_state r of
        RLC_DATA_TRANSFER_READY_STATE \<Rightarrow> rlc_um_receive alloc ctxt r data_ind
      | _ \<Rightarrow> Some r)"

record mac_status_resp =
  buffer_occupancy_in_bytes :: int
  buffer_occupancy_in_pdus :: int
  head_sdu_creation_time :: int
  head_sdu_remaining_size_to_send :: int
  head_sdu_is_segmented :: bool
  status_rlc_protocol_state :: "rlc_protocol_state option"

definition um_status_head :: "protocol_ctxt \<Rightarrow> rlc_um_entity \<Rightarrow> bool \<Rightarrow> mac_status_resp \<Rightarrow> mac_status_resp" where
  "um_status_head ctxt r enb_flagP resp =
     (if buffer_occupancy_in_bytes resp > 0 \<and> input_sdus r \<noteq> [] then
        let mb = hd (input_sdus r);
            resp1 = (if enb_flagP
                     then resp\<lparr>buffer_occupancy_in_bytes :=
                            to_u32 (buffer_occupancy_in_bytes resp + tx_header_min_length_in_bytes r)\<rparr>
                     else resp);
            diff_time = to_s32 (frame ctxt - sdu_creation_time mb) in
        resp1\<lparr>buffer_occupancy_in_pdus := to_u16 (int (length (input_sdus r))),
              head_sdu_creation_time :=
                (if diff_time > 0 then diff_time else to_u32 (0xffffffff - diff_time + frame ctxt)),
              head_sdu_remaining_size_to_send := sdu_remaining_size mb,
              head_sdu_is_segmented := (sdu_size mb \<noteq> sdu_remaining_size mb)\<rparr>
      else resp)"

definition rlc_um_mac_status_indication ::
  "allocator \<Rightarrow> protocol_ctxt \<Rightarrow> bool \<Rightarrow> rlc_um_entity option \<Rightarrow> int \<Rightarrow> bool
     \<Rightarrow> (mac_status_resp \<times> rlc_um_entity option) option" where
  "rlc_um_mac_status_indication alloc ctxt trylock_ok rlc tbs_sizeP enb_flagP =
     (let resp = \<lparr>buffer_occupancy_in_bytes = 0, buffer_occupancy_in_pdus = 0, head_sdu_creation_time = 0,
                  head_sdu_remaining_size_to_send = 0, head_sdu_is_segmented = False,
                  status_rlc_protocol_state = None\<rparr> in
      case rlc of
        None \<Rightarrow> Some (resp, None)
      | Some r \<Rightarrow>
          (case rlc_um_check_timer_dar_time_out alloc ctxt trylock_ok r of
             None \<Rightarrow> None
           | Some r1 \<Rightarrow>
               let r2 = r1\<lparr>nb_bytes_requested_by_mac := to_u16 tbs_sizeP\<rparr>;
                   resp1 = resp\<lparr>buffer_occupancy_in_bytes := rlc_um_get_buffer_occupancy r2\<rparr> in
               Some ((um_status_head ctxt r2 enb_flagP resp1)\<lparr>status_rlc_protocol_state := Some (protocol_state r2)\<rparr>,
                     Some r2)))"

definition rlc_um_set_nb_bytes_requested_by_mac :: "rlc_um_entity \<Rightarrow> int \<Rightarrow> rlc_um_entity" where
  "rlc_um_set_nb_bytes_requested_by_mac r tb_sizeP = r\<lparr>nb_bytes_requested_by_mac := to_u32 tb_sizeP\<rparr>"

record mac_data_req =
  data_req_data :: "mac_tb_req list"
  data_req_buffer_occupancy_in_bytes :: "int option"
  data_req_rlc_protocol_state :: rlc_protocol_state

definition um_count_tx :: "mac_tb_req \<Rightarrow> rlc_um_entity \<Rightarrow> rlc_um_entity" where
  "um_count_tx tb r =
     r\<lparr>stat_tx_data_pdu := to_u32 (stat_tx_data_pdu r + 1),
       stat_tx_data_bytes := to_u32 (stat_tx_data_bytes r + to_s16 (tb_req_size tb))\<rparr>"

definition rlc_um_mac_data_request :: "allocator \<Rightarrow> rlc_um_entity \<Rightarrow> bool \<Rightarrow> mac_data_req \<times> rlc_um_entity" where
  "rlc_um_mac_data_request alloc r enb_flagP =
     (let r1 = rlc_um_get_pdus alloc r;
          data = pdus_to_mac_layer r1;
          r2 = r1\<lparr>pdus_to_mac_layer := []\<rparr>;
          occ = (if enb_flagP
                 then let o1 = rlc_um_get_buffer_occupancy r2 in
                      Some (if o1 > 0 then to_u32 (o1 + tx_header_min_length_in_bytes r2) else o1)
                 else None) in
      (\<lparr>data_req_data = data, data_req_buffer_occupancy_in_bytes = occ, data_req_rlc_protocol_state = protocol_state r2\<rparr>,
       fold um_count_tx data r2))"

definition rlc_um_mac_data_indication ::
  "allocator \<Rightarrow> protocol_ctxt \<Rightarrow> bool \<Rightarrow> rlc_um_entity \<Rightarrow> mac_tb_ind list \<Rightarrow> rlc_um_entity option" where
  "rlc_um_mac_data_indication alloc ctxt trylock_ok r data_indP =
     (case rlc_um_rx alloc ctxt r data_indP of
        None \<Rightarrow> None
      | Some r1 \<Rightarrow> rlc_um_check_timer_dar_time_out alloc ctxt trylock_ok r1)"

definition rlc_um_data_req :: "protocol_ctxt \<Rightarrow> rlc_um_entity \<Rightarrow> byte list \<Rightarrow> rlc_um_entity" where
  "rlc_um_data_req ctxt r sdu =
     (let mngt = \<lparr>first_byte = sdu, sdu_creation_time = to_s32 (frame ctxt), sdu_remaining_size = to_u16 (int (length sdu)),
                  sdu_segmented_size = 0, sdu_size = to_u16 (int (length sdu))\<rparr>;
          r1 = r\<lparr>stat_tx_pdcp_sdu := to_u32 (stat_tx_pdcp_sdu r + 1),
                 stat_tx_pdcp_bytes := to_u32 (stat_tx_pdcp_bytes r + sdu_size mngt)\<rparr> in
      r1\<lparr>buffer_occupancy := to_s32 (buffer_occupancy r1 + sdu_size mngt), input_sdus := input_sdus r1 @ [mngt]\<rparr>)"

section \<open>The assembler follows the queue\<close>

text \<open>The octets of the SDU at the head of the queue that have been sent.\<close>

definition sent_prefix :: "rlc_um_tx_sdu_management list \<Rightarrow> byte list" where
  "sent_prefix sdus = (case sdus of [] \<Rightarrow> [] | s # _ \<Rightarrow> take (nat (sdu_segmented_size s)) (first_byte s))"

lemma sdu_bytes_fresh: "sdu_segmented_size s = 0 \<Longrightarrow> sdu_bytes s = first_byte s"
  by (simp add: sdu_bytes_def)

lemma sent_prefix_fresh: "\<forall>s\<in>set sdus. sdu_segmented_size s = 0 \<Longrightarrow> sent_prefix sdus = []"
  by (simp add: sent_prefix_def split: list.split)

lemma tx_sdu_length: "tx_sdu_ok s \<Longrightarrow> 0 < length (first_byte s)"
  by (auto simp: tx_sdu_ok_def)

lemma deliver_fresh:
  assumes "\<forall>s\<in>set F. tx_sdu_ok s \<and> sdu_segmented_size s = 0 \<and> length (first_byte s) \<le> mx"
  shows "asm_deliver mx (map sdu_bytes F) ([], D) = ([], D @ map first_byte F)"
  using assms
proof (induction F arbitrary: D)
  case Nil
  then show ?case by (simp add: asm_deliver_def)
next
  case (Cons f F)
  then have "asm_send (asm_add mx (sdu_bytes f) ([], D)) = ([], D @ [first_byte f])"
    using tx_sdu_length [of f] by (simp add: asm_add_def asm_send_def sdu_bytes_fresh)
  then show ?case using Cons by (simp add: asm_deliver_def)
qed

lemma deliver_fulls:
  assumes "\<forall>s\<in>set (F @ s # ts). tx_sdu_ok s \<and> length (first_byte s) \<le> mx" "\<forall>x\<in>set (tl (F @ s # ts)). sdu_segmented_size x = 0"
  shows "asm_deliver mx (map sdu_bytes F) (sent_prefix (F @ s # ts), D) = (sent_prefix (s # ts), D @ map first_byte F)"
proof (cases F)
  case Nil
  then show ?thesis by (simp add: asm_deliver_def)
next
  case (Cons f F')
  have p: "sent_prefix (F @ s # ts) @ sdu_bytes f = first_byte f" by (simp add: Cons sent_prefix_def sdu_bytes_def)
  have f: "tx_sdu_ok f" "length (first_byte f) \<le> mx" using assms(1) Cons by auto
  have "sdu_bytes f \<noteq> []" using length_sdu_bytes [OF f(1)] f(1) by (auto simp: tx_sdu_ok_def)
  moreover have "length (sent_prefix (F @ s # ts)) + length (sdu_bytes f) \<le> mx" using p f(2) by (metis length_append)
  ultimately have "asm_send (asm_add mx (sdu_bytes f) (sent_prefix (F @ s # ts), D)) = ([], D @ [first_byte f])"
    using p tx_sdu_length [OF f(1)] by (simp add: asm_add_def asm_send_def)
  moreover have "asm_deliver mx (map sdu_bytes F') ([], D @ [first_byte f]) = ([], (D @ [first_byte f]) @ map first_byte F')"
    using assms Cons by (intro deliver_fresh) auto
  moreover have "sent_prefix (s # ts) = []" using assms(2) Cons by (simp add: sent_prefix_def)
  ultimately show ?thesis by (simp add: Cons asm_deliver_def)
qed

lemma asm_pdu_fi:
  assumes "a \<longrightarrow> p = []"
  shows "asm_pdu mx (word_of_int (um_fi a b)) (xs @ [x]) ((p, D), False)
    = (let A = asm_add mx x (asm_deliver mx xs (p, D)) in (if b then asm_send A else A, False))"
  using assms by (cases a; cases b) (simp_all add: asm_pdu_def um_fi_def Let_def)

lemma asm_pdu_queue:
  assumes ok: "\<forall>s\<in>set (F @ s # ts). tx_sdu_ok s \<and> length (first_byte s) \<le> mx" "\<forall>x\<in>set (tl (F @ s # ts)). sdu_segmented_size x = 0"
    and q: "0 < q" "q \<le> sdu_remaining_size s"
  shows "asm_pdu mx (word_of_int (um_fi (um_head_is_first_byte (F @ s # ts)) (q = sdu_remaining_size s)))
      (map sdu_bytes F @ [take (nat q) (sdu_bytes s)]) ((sent_prefix (F @ s # ts), D), False)
    = ((sent_prefix (um_queue_rest s ts q), D @ map first_byte F @ (if q = sdu_remaining_size s then [first_byte s] else [])), False)"
proof -
  let ?a = "um_head_is_first_byte (F @ s # ts)" and ?b = "q = sdu_remaining_size s"
  let ?p = "sent_prefix (F @ s # ts)" and ?x = "take (nat q) (sdu_bytes s)"
  have s: "tx_sdu_ok s" "length (first_byte s) \<le> mx" using ok(1) by auto
  have seg: "0 \<le> sdu_segmented_size s" using s by (simp add: tx_sdu_ok_def)
  have p0: "?p = []" if ?a
    using that ok(1) by (cases F) (auto simp: um_head_is_first_byte_def sent_prefix_def tx_sdu_ok_def)
  then have "asm_pdu mx (word_of_int (um_fi ?a ?b)) (map sdu_bytes F @ [?x]) ((?p, D), False)
    = (let a = asm_add mx ?x (asm_deliver mx (map sdu_bytes F) (?p, D)) in (if ?b then asm_send a else a, False))"
    by (intro asm_pdu_fi) blast
  also have "asm_deliver mx (map sdu_bytes F) (?p, D) = (sent_prefix (s # ts), D @ map first_byte F)"
    by (rule deliver_fulls [OF ok])
  also have "asm_add mx ?x (sent_prefix (s # ts), D @ map first_byte F) = (take (nat (sdu_segmented_size s + q)) (first_byte s), D @ map first_byte F)"
  proof -
    have "sent_prefix (s # ts) @ ?x = take (nat (sdu_segmented_size s + q)) (first_byte s)"
      using seg q(1) by (simp add: sent_prefix_def sdu_bytes_def nat_add_distrib take_add)
    moreover have "?x \<noteq> []" using length_sdu_bytes [OF s(1)] q by auto
    moreover have "length (sent_prefix (s # ts)) + length ?x \<le> mx"
      using s(2) arg_cong [OF calculation(1), of length] by (simp only: length_append length_take)
    ultimately show ?thesis by (simp only: asm_add_def prod.case if_True if_False)
  qed
  finally have eq: "asm_pdu mx (word_of_int (um_fi ?a ?b)) (map sdu_bytes F @ [?x]) ((?p, D), False)
    = (let a = (take (nat (sdu_segmented_size s + q)) (first_byte s), D @ map first_byte F) in (if ?b then asm_send a else a, False))" .
  have fresh: "sent_prefix ts = []" using ok(2) by (intro sent_prefix_fresh) (cases F; auto)
  show ?thesis
  proof (cases ?b)
    case True
    then have "sdu_segmented_size s + q = int (length (first_byte s))" using s(1) by (simp add: tx_sdu_ok_def)
    then have "take (nat (sdu_segmented_size s + q)) (first_byte s) = first_byte s" by simp
    then show ?thesis using eq True fresh tx_sdu_length [OF s(1)] by (auto simp: asm_send_def um_queue_rest_def)
  next
    case False
    then show ?thesis using eq q by (auto simp: um_queue_rest_def sent_prefix_def)
  qed
qed

section \<open>Reception of the next PDU\<close>

lemma last_sn_ops [simp]:
  "last_reassemblied_sn (rlc_um_clear_rx_sdu r) = last_reassemblied_sn r"
  "last_reassemblied_sn (um_get_output_block alloc r) = last_reassemblied_sn r"
  "last_reassemblied_sn (rlc_um_reassembly alloc r m n) = last_reassemblied_sn r"
  "last_reassemblied_sn (rlc_um_send_sdu r) = last_reassemblied_sn r"
  "last_reassemblied_sn (um_drop_pdu r tb) = last_reassemblied_sn r"
  by (simp_all add: rlc_um_clear_rx_sdu_def rlc_um_reassembly_def um_get_output_block_def
      rlc_um_send_sdu_def um_drop_pdu_def Let_def split: option.splits)

lemma last_sn_lis [simp]: "last_reassemblied_sn (fst (um_deliver_lis alloc r m lis)) = last_reassemblied_sn r"
  by (induction alloc r m lis rule: um_deliver_lis.induct) simp_all

lemma last_sn_pdu: "um_reassembly_pdu alloc sn tb r = Some r' \<Longrightarrow> last_reassemblied_sn r' = to_u16 sn"
proof -
  have n: "last_reassemblied_sn (um_reassemble_no_li alloc r tb fi m sz) = last_reassemblied_sn r" for r fi m sz
    by (simp add: um_reassemble_no_li_def)
  have f: "last_reassemblied_sn (um_reassemble_li_first alloc r fi m lis sz) = last_reassemblied_sn r" for r fi m lis sz
    by (simp add: um_reassemble_li_first_def case_prod_beta Let_def)
  have c: "last_reassemblied_sn (um_reassemble_li_cont alloc r fi m lis sz) = last_reassemblied_sn r" for r fi m lis sz
    by (simp add: um_reassemble_li_cont_def case_prod_beta Let_def)
  have l: "last_reassemblied_sn (um_reassemble_li alloc r tb fi li) = last_reassemblied_sn r" for r fi li
    by (simp add: um_reassemble_li_def f c case_prod_beta Let_def)
  assume "um_reassembly_pdu alloc sn tb r = Some r'"
  then show ?thesis by (auto simp: um_reassembly_pdu_def n l Let_def split: if_splits prod.splits)
qed

lemma receive_next:
  assumes cfg: "rx_configured r" and v: "valid_sn r (vr_uh r)" "vr_ur r = vr_uh r"
    and buf: "dar_buffer r = (\<lambda>i. None)" "\<not> running (t_reordering r)"
    and sn: "um_pdu_sn r (data_ptr pdu) = vr_uh r" and fits: "pdu_fits (rx_sn_length r) pdu" and h: "h = (vr_uh r + 1) mod rx_sn_modulo r"
  shows "rlc_um_receive_process_dar alloc ctxt r pdu n
    = Some (um_reassembled alloc (vr_uh r) (r\<lparr>dar_buffer := (\<lambda>i. None)(vr_uh r := Some pdu), vr_uh := h, vr_ur := h\<rparr>))"
proof -
  let ?sn = "vr_uh r" and ?M = "rx_sn_modulo r" and ?W = "rx_um_window_size r"
  note f = rx_configured_facts [OF cfg] and nx = next_sn [OF cfg v(1)]
  have hv: "valid_sn r h" using nx(1) h by simp
  have hne: "h \<noteq> ?sn"
  proof (cases "?sn + 1 < ?M")
    case True
    then show ?thesis using v(1) unfolding h valid_sn_def by simp
  next
    case False
    then have "?sn + 1 = ?M" using v(1) by (simp add: valid_sn_def)
    then show ?thesis unfolding h using f(1,2) by simp
  qed
  define r2 where "r2 = r\<lparr>dar_buffer := (\<lambda>i. None)(?sn := Some pdu)\<rparr>"
  define r3 where "r3 = r2\<lparr>vr_uh := h\<rparr>"
  define r4 where "r4 = r3\<lparr>vr_ur := h\<rparr>"
  have s16: "to_s16 ?sn = ?sn" "to_s16 h = h" using valid_sn_s16 [OF cfg] v(1) hv by auto
  have low: "\<not> (let w = rlc_um_in_window r (?sn - ?W) ?sn (vr_ur r) in w = 1 \<or> w = 0)"
    using in_window_low_spec [OF cfg v(1) v(1) v(1)] win_off_uh [OF cfg] v(2) by simp
  have upd: "um_window_update alloc r2 ?sn = Some r3"
  proof -
    have "rlc_um_in_reordering_window r2 ?sn = -1"
      using in_reordering_window_spec [of r2 ?sn] cfg v(1) win_off_uh [OF cfg]
      by (simp add: r2_def rx_configured_def valid_sn_def win_off_def)
    moreover have "rlc_um_in_reordering_window r3 ?sn = 0"
    proof -
      have "win_off r3 ?sn = (?W - 1) mod ?M" by (simp add: r3_def r2_def win_off_def h mod_simps algebra_simps)
      also have "\<dots> = ?W - 1" using f by simp
      finally show ?thesis using in_reordering_window_spec [of r3 ?sn] cfg v(1) hv
        by (simp add: r3_def r2_def rx_configured_def valid_sn_def)
    qed
    ultimately show ?thesis using nx(2) v(2) s16 h
      by (simp add: um_window_update_def Let_def r2_def r3_def)
  qed
  obtain k where k: "nat ?M = Suc k" using f(5) by (cases "nat ?M") auto
  have del: "um_deliver_in_sequence alloc r3 ?sn = Some (um_reassembled alloc ?sn r4)"
  proof -
    have sel: "rx_sn_modulo r3 = ?M" "vr_ur r3 = ?sn" "dar_buffer r3 = (\<lambda>i. None)(?sn := Some pdu)" "rx_sn_modulo r4 = ?M"
      "vr_ur r4 = h" "vr_uh r4 = h" by (simp_all add: r4_def r3_def r2_def v(2))
    have adv: "um_advance_vr_ur_to_uh (nat (rx_sn_modulo r3)) r3 = Some r4"
      unfolding sel(1) k using nx(2) sel hne h by (simp add: rlc_um_get_pdu_from_dar_buffer_def r4_def Let_def)
    have at: "rx_sn_modulo (um_reassembled alloc ?sn r4) = ?M" "vr_uh (um_reassembled alloc ?sn r4) = h"
      using rx_ctl_eqD [OF rx_ctl_at, of alloc ?sn r4] sel by simp_all
    have step: "um_reassembly_at alloc ?sn r4 = Some (um_reassembled alloc ?sn r4)"
      by (rule dar_buffer_at(1)) (use fits in \<open>simp add: r4_def r3_def r2_def\<close>)
    have nx16: "to_s16 (crem (?sn + 1) ?M) = h" using v(1) f(5) s16(2) h by (simp add: valid_sn_def)
    have "rlc_um_try_reassembly alloc r4 ?sn h = Some (um_reassembled alloc ?sn r4)"
      using v(1) hv hne nx16 at step unfolding rlc_um_try_reassembly_def sel(4) k by (simp add: Let_def valid_sn_def)
    then show ?thesis using adv sel s16(2) by (simp add: um_deliver_in_sequence_def rlc_um_get_pdu_from_dar_buffer_def)
  qed
  have tm: "um_update_timer ctxt (um_reassembled alloc ?sn r4) = um_reassembled alloc ?sn r4"
  proof -
    let ?q = "um_reassembled alloc ?sn r4"
    have ctl: "rx_ctl ?q = rx_ctl r4" by simp
    note c = rx_ctl_eqD [OF ctl] ctl_simps [OF ctl]
    have r4: "rx_configured r4" "valid_sn r4 h" "vr_ur r4 = h" "vr_uh r4 = h" "\<not> running (t_reordering r4)"
      using cfg hv buf(2) by (simp_all add: r4_def r3_def r2_def rx_configured_def valid_sn_def)
    have "rlc_um_in_window ?q h h h = 3"
      using in_window_ordered_spec [of ?q h h h] r4 c win_off_uh [OF r4(1)] by simp
    then show ?thesis using r4 c by (simp add: um_update_timer_def um_start_if_gap_def um_stop_if_ux_reached_def um_stop_if_ux_left_window_def)
  qed
  have "rlc_um_receive_process_dar alloc ctxt r pdu n = Some (um_reassembled alloc ?sn r4)"
    using low upd del tm buf(1)
    by (simp add: rlc_um_receive_process_dar_def sn rlc_um_get_pdu_from_dar_buffer_def rlc_um_store_pdu_in_dar_buffer_def
        Let_def r2_def [symmetric])
  then show ?thesis by (simp add: r4_def r3_def r2_def)
qed

section \<open>A sender and a receiver\<close>

definition um_air :: "mac_tb_req \<Rightarrow> mac_tb_ind" where
  "um_air tb = \<lparr>data_ptr = tb_req_data_ptr tb, tb_size = tb_req_size tb\<rparr>"

text \<open>One transmission opportunity: MAC asks the sender for \<open>nb\<close> octets and hands the PDUs to the receiver.\<close>

definition um_transfer ::
  "allocator \<Rightarrow> protocol_ctxt \<Rightarrow> bool \<Rightarrow> int \<Rightarrow> rlc_um_entity \<times> rlc_um_entity \<Rightarrow> (rlc_um_entity \<times> rlc_um_entity) option" where
  "um_transfer alloc ctxt lock nb rx =
     (let (req, r') = rlc_um_mac_data_request alloc (rlc_um_set_nb_bytes_requested_by_mac (fst rx) nb) True in
      map_option (Pair r') (rlc_um_mac_data_indication alloc ctxt lock (snd rx) (map um_air (data_req_data req))))"

definition um_sender_ok :: "rlc_um_entity \<Rightarrow> bool" where
  "um_sender_ok r \<longleftrightarrow> tx_ok r \<and> tx_sn_length r = 5 \<and> tx_header_min_length_in_bytes r = 1
     \<and> protocol_state r = RLC_DATA_TRANSFER_READY_STATE \<and> pdus_to_mac_layer r = [] \<and> 0 \<le> vt_us r \<and> vt_us r < 65536
     \<and> length (input_sdus r) \<le> 128"

definition um_receiver_at :: "rlc_um_entity \<Rightarrow> int \<Rightarrow> bool" where
  "um_receiver_at x sn \<longleftrightarrow> rx_configured x \<and> rx_sn_length x = 5 \<and> protocol_state x = RLC_DATA_TRANSFER_READY_STATE
     \<and> vr_ur x = sn \<and> vr_uh x = sn \<and> valid_sn x sn \<and> dar_buffer x = (\<lambda>i. None) \<and> \<not> running (t_reordering x)
     \<and> last_reassemblied_sn x = (sn - 1) mod 32 \<and> asm_ok x"

definition um_sdus_fit :: "rlc_um_entity \<Rightarrow> rlc_um_tx_sdu_management list \<Rightarrow> bool" where
  "um_sdus_fit x sdus \<longleftrightarrow> (\<forall>s\<in>set sdus. length (first_byte s) < 2048 \<and> length (first_byte s) \<le> sdu_max x)"

definition um_link :: "byte list list \<Rightarrow> rlc_um_entity \<times> rlc_um_entity \<Rightarrow> bool" where
  "um_link L rx \<longleftrightarrow> (case rx of (r, x) \<Rightarrow>
     um_sender_ok r \<and> um_receiver_at x (vt_us r mod 32) \<and> um_sdus_fit x (input_sdus r)
     \<and> reassembly_missing_sn_detected x = 0 \<and> um_pending x = sent_prefix (input_sdus r)
     \<and> map di_sdu (data_ind_log x) @ map first_byte (input_sdus r) = L)"

lemma stat_frame [simp]:
  "um_asm (x\<lparr>stat_rx_data_bytes := a, stat_rx_data_pdu := b\<rparr>) = um_asm x"
  "um_pending (x\<lparr>stat_rx_data_bytes := a, stat_rx_data_pdu := b\<rparr>) = um_pending x"
  "asm_ok (x\<lparr>stat_rx_data_bytes := a, stat_rx_data_pdu := b\<rparr>) = asm_ok x"
  "sdu_max (x\<lparr>stat_rx_data_bytes := a, stat_rx_data_pdu := b\<rparr>) = sdu_max x"
  by (simp_all add: um_asm_def um_pending_def asm_ok_def sdu_max_def split: option.split)

lemma next_frame [simp]:
  "um_asm (x\<lparr>dar_buffer := d, vr_uh := a, vr_ur := b\<rparr>) = um_asm x"
  "asm_ok (x\<lparr>dar_buffer := d, vr_uh := a, vr_ur := b\<rparr>) = asm_ok x"
  "sdu_max (x\<lparr>dar_buffer := d, vr_uh := a, vr_ur := b\<rparr>) = sdu_max x"
  "um_pdu_parts (x\<lparr>dar_buffer := d, vr_uh := a, vr_ur := b\<rparr>) tb = um_pdu_parts x tb"
  "hdr_len (x\<lparr>dar_buffer := d, vr_uh := a, vr_ur := b\<rparr>) = hdr_len x"
  by (simp_all add: um_asm_def um_pending_def asm_ok_def sdu_max_def um_pdu_parts_def hdr_len_def split: option.split)

text \<open>Delivery of a PDU that carries the next sequence number.\<close>

lemma indication_next:
  assumes x: "um_receiver_at x sn" "reassembly_missing_sn_detected x = 0" and al: "alloc_total alloc"
    and tb: "1 \<le> tb_size tb" "tb_size tb \<le> 65535" "um_pdu_sn x (data_ptr tb) = sn"
    and parts: "um_pdu_parts x tb = Some (fi, segs)"
  shows "\<exists>x'. rlc_um_mac_data_indication alloc ctxt lock x [tb] = Some x' \<and> um_receiver_at x' ((sn + 1) mod 32) \<and> sdu_max x' = sdu_max x
     \<and> ((um_asm x', reassembly_missing_sn_detected x' \<noteq> 0) = asm_pdu (sdu_max x) fi segs (um_asm x, False))"
proof -
  let ?u = "to_u16 (tb_size tb)"
  define y where "y = x\<lparr>stat_rx_data_bytes := to_u32 (stat_rx_data_bytes x + ?u), stat_rx_data_pdu := to_u32 (stat_rx_data_pdu x + 1)\<rparr>"
  have u: "?u = tb_size tb" using tb by (simp add: to_u16_def)
  have xr: "rx_configured x" "rx_sn_length x = 5" "protocol_state x = RLC_DATA_TRANSFER_READY_STATE" "vr_ur x = sn" "vr_uh x = sn" "valid_sn x sn"
    "dar_buffer x = (\<lambda>i. None)" "\<not> running (t_reordering x)" "last_reassemblied_sn x = (sn - 1) mod 32" "asm_ok x"
    using x(1) by (auto simp: um_receiver_at_def)
  have M: "rx_sn_modulo x = 32" using xr(1,2) by (auto simp: rx_configured_def)
  have yc: "rx_ctl y = rx_ctl x" by (simp add: y_def rx_ctl_def)
  note c = rx_ctl_eqD [OF yc] ctl_simps [OF yc]
  have y: "dar_buffer y = (\<lambda>i. None)" "last_reassemblied_sn y = (sn - 1) mod 32" "um_asm y = um_asm x" "asm_ok y" "sdu_max y = sdu_max x"
    "reassembly_missing_sn_detected y = 0" "um_pdu_parts y tb = Some (fi, segs)" "um_pdu_sn y (data_ptr tb) = sn"
    using xr x(2) parts tb(3) by (simp_all add: y_def) (simp_all add: um_pdu_parts_def um_pdu_sn_def)
  have fits: "pdu_fits 5 tb" using um_pdu_parts_fits [OF parts] xr(2) tb(1,2) by (simp add: um_fixed_len_def)
  define h where "h = (sn + 1) mod 32"
  define z where "z = y\<lparr>dar_buffer := (\<lambda>i. None)(sn := Some tb), vr_uh := h, vr_ur := h\<rparr>"
  define x' where "x' = um_reassembled alloc sn z"
  have rcv: "rlc_um_receive_process_dar alloc ctxt y tb (tb_size tb) = Some x'"
    using receive_next [of y tb h alloc ctxt "tb_size tb"] c y xr M fits by (simp add: h_def x'_def z_def)
  have ctl: "rx_ctl x' = rx_ctl z" by (simp add: x'_def)
  note cz = rx_ctl_eqD [OF ctl] ctl_simps [OF ctl]
  have rx: "rlc_um_rx alloc ctxt x [tb] = Some x'"
    using rcv xr(3) u tb(1) by (simp add: rlc_um_rx_def y_def)
  moreover have "\<not> running (t_reordering x')" using cz(4) c(4) xr(8) by (simp add: z_def)
  ultimately have ind: "rlc_um_mac_data_indication alloc ctxt lock x [tb] = Some x'"
    by (simp add: rlc_um_mac_data_indication_def rlc_um_check_timer_dar_time_out_def)
  have zf: "pdu_fits (rx_sn_length z) p" if "dar_buffer z sn = Some p" for p using that fits xr(2) c(5) by (simp add: z_def)
  have at: "um_state x' = asm_pdu (sdu_max z) fi segs (um_start_state sn z)" "asm_ok x'"
    using um_reassembly_at_refines [of z alloc sn, OF _ al zf] y(4,7) by (simp_all add: z_def x'_def)
  have "um_start_state sn z = (um_asm x, False)"
  proof -
    have "crem (last_reassemblied_sn z + 1) (rx_sn_modulo z) = sn"
      using y(2) c(6) M xr(6) by (simp add: z_def valid_sn_def mod_simps)
    then show ?thesis using y(3,6) by (simp add: um_start_state_def z_def)
  qed
  then have st: "um_state x' = asm_pdu (sdu_max x) fi segs (um_asm x, False)" using at(1) y(5) by (simp add: z_def)
  have mx: "sdu_max x' = sdu_max x"
  proof -
    have "is_data_plane x' = is_data_plane z" using ctl by (simp add: rx_ctl_def)
    then show ?thesis by (simp add: sdu_max_def z_def y_def)
  qed
  have "protocol_state x' = protocol_state z" using ctl by (simp add: rx_ctl_def)
  then have ps: "protocol_state x' = RLC_DATA_TRANSFER_READY_STATE" using xr(3) by (simp add: z_def y_def)
  have dar: "dar_buffer x' = (\<lambda>i. None)"
    using dar_buffer_at(2) [of z sn alloc, OF zf] by (simp add: x'_def z_def)
  have last: "last_reassemblied_sn x' = sn"
  proof -
    have "um_reassembly_at alloc sn z = Some x'" unfolding x'_def by (rule dar_buffer_at(1) [OF zf])
    then have "um_reassembly_pdu alloc sn tb z = Some x'" by (simp add: um_reassembly_at_def z_def)
    from last_sn_pdu [OF this] show ?thesis using xr(6) M by (simp add: valid_sn_def to_u16_def)
  qed
  have "um_receiver_at x' h"
    unfolding um_receiver_at_def using cz c xr(1,2,6) ps dar \<open>\<not> running (t_reordering x')\<close> last at(2) M
    by (auto simp: z_def h_def valid_sn_def rx_configured_def mod_simps)
  then show ?thesis using ind mx st by (auto simp: h_def)
qed

lemma count_tx_step [simp]:
  "um_sender_ok (um_count_tx tb r) = um_sender_ok r" "input_sdus (um_count_tx tb r) = input_sdus r"
  "vt_us (um_count_tx tb r) = vt_us r" "buffer_occupancy (um_count_tx tb r) = buffer_occupancy r"
  by (simp_all add: um_count_tx_def um_sender_ok_def tx_ok_def)

lemma count_tx_frame:
  "um_sender_ok (fold um_count_tx tbs r) = um_sender_ok r" "input_sdus (fold um_count_tx tbs r) = input_sdus r"
  "vt_us (fold um_count_tx tbs r) = vt_us r" "buffer_occupancy (fold um_count_tx tbs r) = buffer_occupancy r"
  by (induction tbs arbitrary: r) simp_all

lemma sn5_of_header:
  assumes "rx_sn_length x = 5" "m 0 AND 0x1F = word_of_int (vt AND 0x1F)" "0 \<le> vt"
  shows "um_pdu_sn x m = vt mod 32"
proof -
  have "vt AND 0x1F = vt mod 32" using take_bit_eq_mask [of 5 vt] by (simp add: mask_eq_exp_minus_1 take_bit_eq_mod)
  moreover have "uint (word_of_int (vt mod 32) :: byte) = vt mod 32" by (simp add: uint_word_of_int)
  ultimately show ?thesis using assms by (simp add: um_pdu_sn_def)
qed

lemma fit_remaining:
  assumes "um_sdus_fit x sdus" "\<forall>s\<in>set sdus. tx_sdu_ok s" "s \<in> set sdus"
  shows "sdu_remaining_size s < 2048"
proof -
  have "length (first_byte s) < 2048" "tx_sdu_ok s" using assms by (auto simp: um_sdus_fit_def)
  then show ?thesis by (auto simp: tx_sdu_ok_def)
qed

text \<open>A transport block as MAC hands it over: memory that holds the octets of the PDU, whatever follows them.\<close>

definition same_octets :: "mac_tb_req \<Rightarrow> mac_tb_ind \<Rightarrow> bool" where
  "same_octets rq tb \<longleftrightarrow> tb_size tb = tb_req_size rq \<and> (\<forall>i < nat (tb_req_size rq). data_ptr tb i = tb_req_data_ptr rq i)"

lemma same_octets_air: "list_all2 same_octets tbs (map um_air tbs)"
  by (simp add: list.rel_map same_octets_def um_air_def list.rel_refl)

lemma segs_of_cong:
  assumes "\<forall>i < nat (sum_list lis + sz). m' i = m i" "\<forall>li\<in>set lis. 0 \<le> li" "0 \<le> sz"
  shows "segs_of m' lis sz = segs_of m lis sz"
  using assms
proof (induction lis arbitrary: m m')
  case Nil
  then show ?case by (auto intro: mem_read_cong)
next
  case (Cons li lis)
  have nn: "0 \<le> li" "0 \<le> sum_list lis" using Cons.prems(2) by (auto intro: sum_list_nonneg)
  have "mem_read m' 0 (nat li) = mem_read m 0 (nat li)"
    by (rule mem_read_cong) (use Cons.prems(1,3) nn in simp)
  moreover have "segs_of (mem_at m' (nat li)) lis sz = segs_of (mem_at m (nat li)) lis sz"
  proof (rule Cons.IH)
    show "\<forall>i < nat (sum_list lis + sz). mem_at m' (nat li) i = mem_at m (nat li) i"
      using Cons.prems(1,3) nn by (auto simp: mem_at_apply)
  qed (use Cons.prems in auto)
  ultimately show ?case by simp
qed

text \<open>What a PDU says does not depend on the memory behind it.\<close>

lemma um_pdu_parts_cong:
  assumes parts: "um_pdu_parts x \<lparr>data_ptr = m, tb_size = sz\<rparr> = Some p" and sz: "1 < sz" "sz \<le> 65535" "rx_sn_length x = 5"
    and eq: "\<forall>i < nat sz. m' i = m i"
  shows "um_pdu_parts x \<lparr>data_ptr = m', tb_size = sz\<rparr> = Some p"
proof -
  let ?m = "mem_at m 1" and ?m' = "mem_at m' 1"
  have h: "m' 0 = m 0" using eq sz by simp
  have eq1: "\<forall>i < nat (sz - 1). ?m' i = ?m i" using eq by (auto simp: mem_at_apply)
  note d = um_pdu_parts_def um_pdu_e_def um_pdu_fi_def um_fixed_len_def Let_def
  show ?thesis
  proof (cases "bit (m 0) 5")
    case False
    moreover have "mem_read m' (Suc 0) (nat (sz - 1)) = mem_read m (Suc 0) (nat (sz - 1))"
      by (rule mem_read_cong) (use eq in auto)
    ultimately show ?thesis using parts sz h by (simp add: d)
  next
    case True
    obtain lis where lis: "li_chain ?m 0 128 = Some lis" "0 < sz - 1 - sum_list lis - int (li_octets (length lis))"
      and p: "p = (take_bit 2 (drop_bit 6 (m 0)), segs_of (mem_at ?m (li_octets (length lis))) lis (sz - 1 - sum_list lis - int (li_octets (length lis))))"
      using parts sz True by (auto simp: d split: option.splits if_splits)
    let ?s = "sz - 1 - sum_list lis - int (li_octets (length lis))"
    have rng: "\<forall>li\<in>set lis. 0 \<le> li" using li_chain_props(3) [OF lis(1)] by auto
    have nn: "0 \<le> sum_list lis" using rng by (intro sum_list_nonneg) auto
    have "\<forall>i < li_octets (0 + length lis). ?m' i = ?m i" using eq1 lis(2) nn by auto
    then have li': "li_chain ?m' 0 128 = Some lis" by (rule li_chain_props(4) [OF lis(1)])
    have "segs_of (mem_at ?m' (li_octets (length lis))) lis ?s = segs_of (mem_at ?m (li_octets (length lis))) lis ?s"
    proof (rule segs_of_cong)
      show "\<forall>i < nat (sum_list lis + ?s). mem_at ?m' (li_octets (length lis)) i = mem_at ?m (li_octets (length lis)) i"
        using eq nn lis(2) by (auto simp: mem_at_apply)
    qed (use rng lis(2) in auto)
    then show ?thesis using p sz True h li' lis(2) by (simp add: d)
  qed
qed

text \<open>A sender that is served: what it hands to MAC brings the pair forward, however MAC carries the octets.\<close>

definition um_serves :: "byte list list \<Rightarrow> mac_tb_req list \<Rightarrow> rlc_um_entity \<Rightarrow> rlc_um_entity \<Rightarrow> bool" where
  "um_serves L tbs r' x \<longleftrightarrow> length tbs \<le> 1 \<and> (\<forall>tb\<in>set tbs. 0 < tb_req_size tb)
     \<and> (\<forall>alloc ctxt lock tbs'. alloc_total alloc \<longrightarrow> list_all2 same_octets tbs tbs' \<longrightarrow>
          (\<exists>x'. rlc_um_mac_data_indication alloc ctxt lock x tbs' = Some x' \<and> um_link L (r', x')))"

lemma request_empty:
  assumes "um_link L (r, x)" "input_sdus r = []"
  shows "\<exists>req r'. rlc_um_mac_data_request alloc (rlc_um_set_nb_bytes_requested_by_mac r nb) enb = (req, r')
    \<and> um_serves L (data_req_data req) r' x \<and> input_sdus r' = []"
proof -
  let ?r = "rlc_um_set_nb_bytes_requested_by_mac r nb"
  have r: "um_sender_ok r" "um_receiver_at x (vt_us r mod 32)" using assms(1) by (auto simp: um_link_def)
  have "input_sdus ?r = []" using assms(2) by (simp add: rlc_um_set_nb_bytes_requested_by_mac_def)
  then have "rlc_um_segment_5 alloc ?r = ?r" by (simp add: rlc_um_segment_5_def Let_def)
  then have g: "rlc_um_get_pdus alloc ?r = ?r"
    using r(1) by (simp add: rlc_um_get_pdus_def um_sender_ok_def rlc_um_set_nb_bytes_requested_by_mac_def)
  have p: "pdus_to_mac_layer ?r = []" using r(1) by (simp add: um_sender_ok_def rlc_um_set_nb_bytes_requested_by_mac_def)
  obtain req where req: "rlc_um_mac_data_request alloc ?r enb = (req, ?r\<lparr>pdus_to_mac_layer := []\<rparr>)" "data_req_data req = []"
    using g p by (simp add: rlc_um_mac_data_request_def Let_def)
  have "rlc_um_mac_data_indication alloc' ctxt lock x [] = Some x" for alloc' ctxt lock
    using r(2) by (simp add: um_receiver_at_def rlc_um_mac_data_indication_def rlc_um_rx_def rlc_um_check_timer_dar_time_out_def)
  moreover have "um_link L (?r\<lparr>pdus_to_mac_layer := []\<rparr>, x)"
    using assms(1) by (simp add: um_link_def um_sender_ok_def tx_ok_def rlc_um_set_nb_bytes_requested_by_mac_def)
  ultimately have "um_serves L (data_req_data req) (?r\<lparr>pdus_to_mac_layer := []\<rparr>) x" using req(2) by (simp add: um_serves_def)
  then show ?thesis using req(1) assms(2) by (simp add: rlc_um_set_nb_bytes_requested_by_mac_def)
qed

lemma queue_rest_map:
  assumes "0 < q" "q \<le> sdu_remaining_size s"
  shows "(if q = sdu_remaining_size s then [first_byte s] else []) @ map first_byte (um_queue_rest s ts q) = map first_byte (s # ts)"
    "length (um_queue_rest s ts q) \<le> length (s # ts)"
    "first_byte ` set (um_queue_rest s ts q) \<subseteq> first_byte ` set (s # ts)"
  using assms by (auto simp: um_queue_rest_def)

lemma request_step:
  assumes link: "um_link L (r, x)" and ne: "input_sdus r \<noteq> []" and al: "alloc_total alloc" and nb: "2 \<le> nb" "nb \<le> 32767"
  shows "\<exists>req r'. rlc_um_mac_data_request alloc (rlc_um_set_nb_bytes_requested_by_mac r nb) enb = (req, r')
    \<and> um_serves L (data_req_data req) r' x \<and> buffer_occupancy r' < buffer_occupancy r"
proof -
  define r1 where "r1 = rlc_um_set_nb_bytes_requested_by_mac r nb"
  have so: "um_sender_ok r" and ra: "um_receiver_at x (vt_us r mod 32)" and fit: "um_sdus_fit x (input_sdus r)"
    and miss: "reassembly_missing_sn_detected x = 0" and pend: "um_pending x = sent_prefix (input_sdus r)"
    and L: "map di_sdu (data_ind_log x) @ map first_byte (input_sdus r) = L"
    using link by (auto simp: um_link_def)
  have r1: "tx_ok r1" "input_sdus r1 = input_sdus r" "tx_header_min_length_in_bytes r1 = 1" "nb_bytes_requested_by_mac r1 = nb"
    "vt_us r1 = vt_us r" "buffer_occupancy r1 = buffer_occupancy r" "um_sender_ok r1"
    using so nb by (simp_all add: r1_def rlc_um_set_nb_bytes_requested_by_mac_def um_sender_ok_def tx_ok_def to_u32_def)
  have li: "\<forall>s\<in>set (input_sdus r1). sdu_remaining_size s < 2048" "length (input_sdus r1) \<le> 128"
    using so fit_remaining [OF fit] by (auto simp: r1(2) um_sender_ok_def tx_ok_def)
  have rx: "rx_sn_length x = 5" using ra by (simp add: um_receiver_at_def)
  have "alloc (allocs r1) \<noteq> None" "2 \<le> nb_bytes_requested_by_mac r1" "nb_bytes_requested_by_mac r1 \<le> 65535"
    using al nb r1(4) by (auto simp: alloc_total_def)
  with segment_5_parts [where alloc = alloc and rx = x, of r1] r1(1-3) li rx ne
  obtain F s ts q m sz where d: "input_sdus r1 = F @ s # ts" "0 < q" "q \<le> sdu_remaining_size s"
     and seg: "rlc_um_segment_5 alloc r1 = um_emit_pdu r1 (um_queue_rest s ts q) (buffer_occupancy r1 - rem_sum F - q) m sz"
     and sz: "1 < sz" "sz \<le> nb" and m0: "m 0 AND 0x1F = word_of_int (vt_us r1 AND 0x1F)"
     and parts: "um_pdu_parts x \<lparr>data_ptr = m, tb_size = sz\<rparr> =
         Some (word_of_int (um_fi (um_head_is_first_byte (input_sdus r1)) (q = sdu_remaining_size s)),
               map sdu_bytes F @ [take (nat q) (sdu_bytes s)])"
    using r1(4) by auto
  define r2 where "r2 = um_emit_pdu r1 (um_queue_rest s ts q) (buffer_occupancy r1 - rem_sum F - q) m sz"
  let ?tb = "\<lparr>tb_req_data_ptr = m, tb_req_size = sz\<rparr>"
  have gp: "rlc_um_get_pdus alloc r1 = r2" "pdus_to_mac_layer r2 = [?tb]"
    using r1(7) seg by (simp_all add: rlc_um_get_pdus_def um_sender_ok_def r2_def um_emit_pdu_def)
  define r' where "r' = fold um_count_tx [?tb] (r2\<lparr>pdus_to_mac_layer := []\<rparr>)"
  have sn: "um_pdu_sn x m = vt_us r mod 32" using sn5_of_header [of x m "vt_us r1", OF rx m0] so r1(5) by (simp add: um_sender_ok_def)
  have ok: "\<forall>s\<in>set (F @ s # ts). tx_sdu_ok s \<and> length (first_byte s) \<le> sdu_max x" "\<forall>x\<in>set (tl (F @ s # ts)). sdu_segmented_size x = 0"
    using r1(1) fit d(1) r1(2) by (auto simp: tx_ok_def um_sdus_fit_def)
  have bo: "buffer_occupancy r' < buffer_occupancy r"
    using d r1 rem_sum_nonneg [of F] by (auto simp: r'_def count_tx_frame r2_def um_emit_pdu_def um_count_tx_def tx_ok_def)
  have deliver: "\<exists>x'. rlc_um_mac_data_indication alloc' ctxt lock x [tb] = Some x' \<and> um_link L (r', x')"
    if al': "alloc_total alloc'" and same: "same_octets ?tb tb" for alloc' ctxt lock tb
  proof -
    obtain m' where tb_eq: "tb = \<lparr>data_ptr = m', tb_size = sz\<rparr>" and m': "\<forall>i < nat sz. m' i = m i"
      using same by (cases tb) (auto simp: same_octets_def)
    have "m' 0 = m 0" using m' sz(1) by simp
    then have sn': "um_pdu_sn x m' = vt_us r mod 32" using sn5_of_header [of x m' "vt_us r1", OF rx] m0 so r1(5) by (simp add: um_sender_ok_def)
    have tb: "1 \<le> tb_size tb" "tb_size tb \<le> 65535" "um_pdu_sn x (data_ptr tb) = vt_us r mod 32"
      "um_pdu_parts x tb = Some (word_of_int (um_fi (um_head_is_first_byte (input_sdus r1)) (q = sdu_remaining_size s)),
               map sdu_bytes F @ [take (nat q) (sdu_bytes s)])"
      using sz nb sn' um_pdu_parts_cong [OF parts _ _ rx m'] by (simp_all add: tb_eq)
    from indication_next [OF ra miss al' tb] obtain x' where x': "rlc_um_mac_data_indication alloc' ctxt lock x [tb] = Some x'"
      "um_receiver_at x' ((vt_us r mod 32 + 1) mod 32)" "sdu_max x' = sdu_max x"
      "(um_asm x', reassembly_missing_sn_detected x' \<noteq> 0) = asm_pdu (sdu_max x)
         (word_of_int (um_fi (um_head_is_first_byte (input_sdus r1)) (q = sdu_remaining_size s)))
         (map sdu_bytes F @ [take (nat q) (sdu_bytes s)]) (um_asm x, False)" by blast
    have "um_asm x = (sent_prefix (F @ s # ts), map di_sdu (data_ind_log x))" using pend d(1) r1(2) by (simp add: um_asm_def)
    then have res: "um_asm x' = (sent_prefix (um_queue_rest s ts q), map di_sdu (data_ind_log x) @ map first_byte F @
        (if q = sdu_remaining_size s then [first_byte s] else []))" "reassembly_missing_sn_detected x' = 0"
      using x'(4) asm_pdu_queue [OF ok d(2,3)] d(1) by auto
    have "um_link L (r', x')"
    proof -
      have i': "input_sdus r' = um_queue_rest s ts q" "vt_us r' = to_u16 (vt_us r + 1)" using r1 by (simp_all add: r'_def r2_def um_emit_pdu_def um_count_tx_def)
      have "tx_ok r2" unfolding r2_def by (rule tx_ok_emit [OF r1(1) d])
      then have "um_sender_ok r'"
        using r1(7) queue_rest_map(2) [OF d(2,3), of ts] d(1) unfolding r'_def count_tx_frame(1)
        by (simp add: um_sender_ok_def r2_def um_emit_pdu_def tx_ok_def)
      moreover have "vt_us r' mod 32 = (vt_us r mod 32 + 1) mod 32"
        using so i'(2) by (simp add: to_u16_def mod_mod_cancel mod_simps)
      moreover have "um_sdus_fit x' (input_sdus r')"
      proof -
        have "first_byte y \<in> first_byte ` set (input_sdus r)" if "y \<in> set (um_queue_rest s ts q)" for y
          using that queue_rest_map(3) [OF d(2,3), of ts] d(1) r1(2) by auto
        then show ?thesis using fit x'(3) unfolding um_sdus_fit_def i'(1) by fastforce
      qed
      moreover have "um_pending x' = sent_prefix (input_sdus r')" "map di_sdu (data_ind_log x') @ map first_byte (input_sdus r') = L"
        using res(1) queue_rest_map(1) [OF d(2,3), of ts] d(1) r1(2) L i'(1) by (auto simp: um_asm_def)
      ultimately show ?thesis using x'(2) res(2) by (simp add: um_link_def)
    qed
    then show ?thesis using x'(1) by blast
  qed
  have rq: "data_req_data (fst (rlc_um_mac_data_request alloc r1 enb)) = [?tb] \<and> snd (rlc_um_mac_data_request alloc r1 enb) = r'"
    using gp by (simp add: rlc_um_mac_data_request_def r'_def Let_def)
  have "um_serves L [?tb] r' x" unfolding um_serves_def using deliver sz(1) by (auto simp: list_all2_Cons1)
  then show ?thesis using rq bo by (intro exI [of _ "fst (rlc_um_mac_data_request alloc r1 enb)"] exI [of _ r']) (simp add: r1_def prod_eq_iff)
qed

lemma submit_step:
  assumes link: "um_link L (r, x)" and sdu: "0 < length sdu" "length sdu < 2048" "length sdu \<le> sdu_max x"
    and room: "length (input_sdus r) < 128"
  shows "um_link (L @ [sdu]) (rlc_um_data_req ctxt r sdu, x)"
proof -
  let ?s = "\<lparr>first_byte = sdu, sdu_creation_time = to_s32 (frame ctxt), sdu_remaining_size = int (length sdu),
     sdu_segmented_size = 0, sdu_size = int (length sdu)\<rparr>"
  have tx: "tx_ok r" using link by (simp add: um_link_def um_sender_ok_def)
  have fit: "\<forall>s\<in>set (input_sdus r). sdu_remaining_size s < 2048"
    using link tx by (auto simp: um_link_def tx_ok_def intro: fit_remaining)
  have "\<forall>s\<in>set sdus. sdu_remaining_size s < 2048 \<Longrightarrow> rem_sum sdus \<le> 2048 * int (length sdus)" for sdus
    by (induction sdus) auto
  from this [OF fit] have "rem_sum (input_sdus r) \<le> 2048 * int (length (input_sdus r))" .
  then have small: "rem_sum (input_sdus r) \<le> 300000" using room by simp
  have nn: "0 \<le> rem_sum (input_sdus r)" using tx by (intro rem_sum_nonneg) (simp add: tx_ok_def)
  have u: "to_u16 (int (length sdu)) = int (length sdu)" "to_s32 (buffer_occupancy r + int (length sdu)) = buffer_occupancy r + int (length sdu)"
    using sdu tx small nn by (auto simp: to_u16_def to_s32_def tx_ok_def)
  define r' where "r' = rlc_um_data_req ctxt r sdu"
  have r': "input_sdus r' = input_sdus r @ [?s]" "buffer_occupancy r' = buffer_occupancy r + int (length sdu)"
    "vt_us r' = vt_us r" "tx_sn_length r' = tx_sn_length r" "tx_header_min_length_in_bytes r' = tx_header_min_length_in_bytes r"
    "protocol_state r' = protocol_state r" "pdus_to_mac_layer r' = pdus_to_mac_layer r"
    using u by (simp_all add: r'_def rlc_um_data_req_def Let_def)
  have s: "tx_sdu_ok ?s" using sdu by (simp add: tx_sdu_ok_def)
  have "\<forall>s\<in>set (tl (input_sdus r @ [?s])). sdu_segmented_size s = 0"
    using tx by (cases "input_sdus r") (auto simp: tx_ok_def)
  then have "tx_ok r'" using tx s small sdu unfolding tx_ok_def r' by auto
  moreover have "sent_prefix (input_sdus r @ [?s]) = sent_prefix (input_sdus r)" by (cases "input_sdus r") (simp_all add: sent_prefix_def)
  ultimately show ?thesis using link room sdu unfolding r'_def [symmetric]
    by (auto simp: um_link_def um_sender_ok_def r' um_sdus_fit_def)
qed

text \<open>
  Runs of a pair of entities: PDCP submits SDUs to the sender, MAC serves it with grants and carries
  every PDU to the receiver. The list collects the submitted SDUs.
\<close>

inductive um_pair_run ::
  "allocator \<Rightarrow> rlc_um_entity \<times> rlc_um_entity \<Rightarrow> byte list list \<Rightarrow> rlc_um_entity \<times> rlc_um_entity \<Rightarrow> bool"
  for alloc p0 where
  start: "um_pair_run alloc p0 [] p0"
| submit: "um_pair_run alloc p0 L (r, x) \<Longrightarrow> 0 < length sdu \<Longrightarrow> length sdu < 2048 \<Longrightarrow> length sdu \<le> sdu_max x
     \<Longrightarrow> length (input_sdus r) < 128 \<Longrightarrow> um_pair_run alloc p0 (L @ [sdu]) (rlc_um_data_req ctxt r sdu, x)"
| transfer: "um_pair_run alloc p0 L (r, x) \<Longrightarrow> 2 \<le> nb \<Longrightarrow> nb \<le> 32767
     \<Longrightarrow> um_transfer alloc ctxt lock nb (r, x) = Some p' \<Longrightarrow> um_pair_run alloc p0 L p'"

lemma request_link:
  assumes "um_link L (r, x)" "alloc_total alloc" "2 \<le> nb" "nb \<le> 32767"
  shows "\<exists>req r'. rlc_um_mac_data_request alloc (rlc_um_set_nb_bytes_requested_by_mac r nb) enb = (req, r')
    \<and> um_serves L (data_req_data req) r' x
    \<and> (input_sdus r \<noteq> [] \<longrightarrow> buffer_occupancy r' < buffer_occupancy r) \<and> (input_sdus r = [] \<longrightarrow> input_sdus r' = [])"
  using request_empty [OF assms(1), of alloc nb enb] request_step [OF assms(1) _ assms(2-4), of enb]
  by (cases "input_sdus r = []") auto

lemma transfer_link:
  assumes "um_link L (r, x)" "alloc_total alloc" "2 \<le> nb" "nb \<le> 32767"
  shows "\<exists>r' x'. um_transfer alloc ctxt lock nb (r, x) = Some (r', x') \<and> um_link L (r', x')
    \<and> (input_sdus r \<noteq> [] \<longrightarrow> buffer_occupancy r' < buffer_occupancy r) \<and> (input_sdus r = [] \<longrightarrow> input_sdus r' = [])"
proof -
  obtain req r' where q: "rlc_um_mac_data_request alloc (rlc_um_set_nb_bytes_requested_by_mac r nb) True = (req, r')"
    "um_serves L (data_req_data req) r' x"
    "(input_sdus r \<noteq> [] \<longrightarrow> buffer_occupancy r' < buffer_occupancy r) \<and> (input_sdus r = [] \<longrightarrow> input_sdus r' = [])"
    using request_link [OF assms, of True] by blast
  obtain x' where "rlc_um_mac_data_indication alloc ctxt lock x (map um_air (data_req_data req)) = Some x'" "um_link L (r', x')"
    using q(2) assms(2) same_octets_air unfolding um_serves_def by blast
  then show ?thesis using q by (simp add: um_transfer_def)
qed

lemma pair_run_link:
  assumes "um_pair_run alloc p0 L p" "um_link [] p0" "alloc_total alloc"
  shows "um_link L p"
  using assms
proof (induction rule: um_pair_run.induct)
  case (submit L r x sdu ctxt)
  then show ?case using submit_step by blast
next
  case (transfer L r x nb ctxt lock p')
  then show ?case using transfer_link [of L r x alloc nb ctxt lock] by auto
qed

definition um_ready :: "bool \<Rightarrow> rlc_um_entity" where
  "um_ready data_plane = (rlc_um_configure rlc_um_zero 35 5 5 0)
     \<lparr>protocol_state := RLC_DATA_TRANSFER_READY_STATE, is_data_plane := data_plane\<rparr>"

lemma um_ready_link: "um_link [] (um_ready a, um_ready b)"
  by (simp add: um_ready_def um_link_def um_sender_ok_def um_receiver_at_def rlc_um_configure_def rlc_um_zero_def
      rlc_um_reset_state_variables_def rlc_um_init_timer_reordering_def tx_ok_def rx_configured_def valid_sn_def
      asm_ok_def um_sdus_fit_def sent_prefix_def um_pending_def to_u16_def)

fun um_transfers :: "allocator \<Rightarrow> protocol_ctxt \<Rightarrow> int list \<Rightarrow> rlc_um_entity \<times> rlc_um_entity \<Rightarrow> (rlc_um_entity \<times> rlc_um_entity) option" where
  "um_transfers alloc ctxt [] p = Some p"
| "um_transfers alloc ctxt (nb # nbs) p =
     (case um_transfer alloc ctxt True nb p of None \<Rightarrow> None | Some p' \<Rightarrow> um_transfers alloc ctxt nbs p')"

lemma transfers_drain:
  assumes "um_link L (r, x)" "alloc_total alloc" "\<forall>nb\<in>set nbs. 2 \<le> nb \<and> nb \<le> 32767" "buffer_occupancy r \<le> int (length nbs)"
  shows "\<exists>r' x'. um_transfers alloc ctxt nbs (r, x) = Some (r', x') \<and> um_link L (r', x') \<and> input_sdus r' = []"
  using assms
proof (induction nbs arbitrary: r x)
  case Nil
  then have "tx_ok r" "buffer_occupancy r \<le> 0" by (auto simp: um_link_def um_sender_ok_def)
  then have "\<forall>s\<in>set (input_sdus r). tx_sdu_ok s" "rem_sum (input_sdus r) \<le> 0" by (simp_all add: tx_ok_def)
  then have "int (length (input_sdus r)) \<le> 0" using length_le_rem_sum order_trans by blast
  then have "input_sdus r = []" by simp
  then show ?case using Nil by simp
next
  case (Cons nb nbs)
  then obtain r' x' where t: "um_transfer alloc ctxt True nb (r, x) = Some (r', x')" "um_link L (r', x')"
    "input_sdus r \<noteq> [] \<longrightarrow> buffer_occupancy r' < buffer_occupancy r" "input_sdus r = [] \<longrightarrow> input_sdus r' = []"
    using transfer_link [of L r x alloc nb ctxt True] by auto
  have "buffer_occupancy r' \<le> int (length nbs)"
  proof (cases "input_sdus r = []")
    case True
    then show ?thesis using t(2,4) by (simp add: um_link_def um_sender_ok_def tx_ok_def)
  next
    case False
    then show ?thesis using t(3) Cons.prems(4) by simp
  qed
  then show ?case using Cons.IH [OF t(2)] Cons.prems(2,3) t(1) by simp
qed

text \<open>
  C1. End to end, nothing is lost, duplicated, reordered or altered: between two entities with 5-bit
  sequence numbers, whatever the interleaving of submissions and grants and whatever the sizes of the
  grants, the SDUs delivered so far followed by the SDUs still queued at the sender are exactly the
  submitted SDUs in order; and every further grant succeeds.
\<close>
theorem rlc_um_transfer_in_order:
  assumes "um_pair_run alloc (um_ready a, um_ready b) L (r, x)" "alloc_total alloc" "2 \<le> nb" "nb \<le> 32767"
  shows "map di_sdu (data_ind_log x) @ map first_byte (input_sdus r) = L
    \<and> um_transfer alloc ctxt lock nb (r, x) \<noteq> None"
proof -
  have link: "um_link L (r, x)" using pair_run_link [OF assms(1) um_ready_link assms(2)] .
  then show ?thesis using transfer_link [OF link assms(2-4), of ctxt lock] by (auto simp: um_link_def)
qed

theorem rlc_um_transfer_in_order_witness:
  "map di_sdu (data_ind_log (um_ready True)) @ map first_byte (input_sdus (rlc_um_data_req
      \<lparr>module_id = 0, enb_flag = True, rnti = 1, frame = 3, subframe = 4\<rparr> (um_ready True) [7, 8])) = [[7, 8]]"
proof -
  let ?c = "\<lparr>module_id = 0, enb_flag = True, rnti = 1, frame = 3, subframe = 4\<rparr>"
  have "input_sdus (um_ready True) = []" "sdu_max (um_ready True) = 9000"
    by (simp_all add: um_ready_def sdu_max_def rlc_um_configure_def rlc_um_zero_def rlc_um_reset_state_variables_def rlc_um_init_timer_reordering_def)
  then have "um_pair_run (\<lambda>n. Some (\<lambda>i. 0)) (um_ready True, um_ready True) ([] @ [[7, 8]]) (rlc_um_data_req ?c (um_ready True) [7, 8], um_ready True)"
    by (intro um_pair_run.submit um_pair_run.start) simp_all
  from rlc_um_transfer_in_order [OF this, of 2 ?c True] show ?thesis by (simp add: alloc_total_def)
qed

text \<open>
  C8. Delivery: from any reachable state, as many grants as there are octets queued, each of at least
  two octets, empty the queue, and the receiver has then delivered every submitted SDU, in order and
  complete.
\<close>
theorem rlc_um_transfer_completes:
  assumes "um_pair_run alloc (um_ready a, um_ready b) L (r, x)" "alloc_total alloc"
    and "\<forall>nb\<in>set nbs. 2 \<le> nb \<and> nb \<le> 32767" "buffer_occupancy r \<le> int (length nbs)"
  shows "\<exists>r' x'. um_transfers alloc ctxt nbs (r, x) = Some (r', x') \<and> input_sdus r' = [] \<and> map di_sdu (data_ind_log x') = L"
proof -
  have link: "um_link L (r, x)" using pair_run_link [OF assms(1) um_ready_link assms(2)] .
  then show ?thesis using transfers_drain [OF link assms(2-4), of ctxt] by (fastforce simp: um_link_def)
qed

theorem rlc_um_transfer_completes_witness:
  "\<exists>r' x'. um_transfers (\<lambda>n. Some (\<lambda>i. 0)) \<lparr>module_id = 0, enb_flag = True, rnti = 1, frame = 3, subframe = 4\<rparr> [2, 2]
      (rlc_um_data_req \<lparr>module_id = 0, enb_flag = True, rnti = 1, frame = 3, subframe = 4\<rparr> (um_ready True) [7, 8], um_ready True)
      = Some (r', x') \<and> map di_sdu (data_ind_log x') = [[7, 8]]"
proof -
  let ?c = "\<lparr>module_id = 0, enb_flag = True, rnti = 1, frame = 3, subframe = 4\<rparr>"
  have s: "input_sdus (um_ready True) = []" "sdu_max (um_ready True) = 9000" "buffer_occupancy (um_ready True) = 0"
    by (simp_all add: um_ready_def sdu_max_def rlc_um_configure_def rlc_um_zero_def rlc_um_reset_state_variables_def rlc_um_init_timer_reordering_def)
  then have run: "um_pair_run (\<lambda>n. Some (\<lambda>i. 0)) (um_ready True, um_ready True) ([] @ [[7, 8]]) (rlc_um_data_req ?c (um_ready True) [7, 8], um_ready True)"
    by (intro um_pair_run.submit um_pair_run.start) simp_all
  have "buffer_occupancy (rlc_um_data_req ?c (um_ready True) [7, 8]) = 2"
    using s(3) by (simp add: rlc_um_data_req_def Let_def to_u16_def to_s32_def)
  then show ?thesis using rlc_um_transfer_completes [OF run, of "[2, 2]" ?c] by (auto simp: alloc_total_def)
qed

end
