(* ===== verification/Rlc_Tm.thy ===== *)
theory Rlc_Tm
  imports Rlc_Um
begin

text \<open>
  The RLC entity of transparent mode (\<open>rlc_tm.c\<close>, \<open>rlc_tm_init.c\<close>). SDUs wait in a ring of 16 entries; an SDU
  is the memory its first byte points to with its size. As in the UM entity, \<open>tm_data_ind_log\<close> records the
  calls of \<open>rlc_data_ind\<close> and \<open>tm_allocs\<close> counts the calls of the allocator. The ring is \<open>None\<close> as long as its
  memory is not allocated; an access is then an access through a NULL pointer, and \<open>None\<close> as a result.

  The lemmas show that the ring implements a bounded queue.
\<close>

section \<open>Entity\<close>

record rlc_tm_entity =
  tm_protocol_state :: rlc_protocol_state
  tm_is_uplink_downlink :: bool
  tm_is_data_plane :: bool
  tm_channel_id :: int
  tm_rb_id :: int
  tm_input_sdus :: "(mem \<times> int) option list option"
  size_input_sdus_buffer :: int
  nb_sdu :: int
  next_sdu_index :: int
  current_sdu_index :: int
  tm_pdus_to_mac_layer :: "mac_tb_req list"
  rlc_pdu_size :: int
  tm_buffer_occupancy :: int
  tm_output_sdu_size_to_write :: int
  tm_output_sdu_in_construction :: "mem option"
  tm_data_ind_log :: "rlc_data_ind_call list"
  tm_allocs :: nat

definition rlc_tm_zero :: rlc_tm_entity where
  "rlc_tm_zero = \<lparr>tm_protocol_state = RLC_NULL_STATE, tm_is_uplink_downlink = False, tm_is_data_plane = False, tm_channel_id = 0,
     tm_rb_id = 0, tm_input_sdus = None, size_input_sdus_buffer = 0, nb_sdu = 0, next_sdu_index = 0, current_sdu_index = 0,
     tm_pdus_to_mac_layer = [], rlc_pdu_size = 0, tm_buffer_occupancy = 0, tm_output_sdu_size_to_write = 0,
     tm_output_sdu_in_construction = None, tm_data_ind_log = [], tm_allocs = 0\<rparr>"

definition tm_memset_0 :: "rlc_tm_entity \<Rightarrow> rlc_tm_entity" where
  "tm_memset_0 r = rlc_tm_zero\<lparr>tm_data_ind_log := tm_data_ind_log r, tm_allocs := tm_allocs r\<rparr>"

section \<open>Configuration\<close>

definition rlc_tm_init :: "allocator \<Rightarrow> rlc_tm_entity \<Rightarrow> rlc_tm_entity" where
  "rlc_tm_init alloc r =
     (let r1 = (tm_memset_0 r)\<lparr>tm_pdus_to_mac_layer := [], tm_protocol_state := RLC_NULL_STATE, nb_sdu := 0, next_sdu_index := 0,
            current_sdu_index := 0, tm_output_sdu_size_to_write := 0, tm_buffer_occupancy := 0, size_input_sdus_buffer := 16\<rparr> in
      if tm_input_sdus r1 = None then
        r1\<lparr>tm_allocs := Suc (tm_allocs r1),
           tm_input_sdus := (case alloc (tm_allocs r1) of None \<Rightarrow> None | Some _ \<Rightarrow> Some (replicate 16 None))\<rparr>
      else r1)"

definition rlc_tm_reset_state_variables :: "rlc_tm_entity \<Rightarrow> rlc_tm_entity" where
  "rlc_tm_reset_state_variables r =
     r\<lparr>tm_output_sdu_size_to_write := 0, tm_buffer_occupancy := 0, nb_sdu := 0, next_sdu_index := 0, current_sdu_index := 0\<rparr>"

definition rlc_tm_cleanup :: "rlc_tm_entity \<Rightarrow> rlc_tm_entity" where
  "rlc_tm_cleanup r =
     tm_memset_0 (r\<lparr>tm_pdus_to_mac_layer := [], tm_input_sdus := None, tm_output_sdu_in_construction := None\<rparr>)"

definition rlc_tm_configure :: "rlc_tm_entity \<Rightarrow> bool \<Rightarrow> rlc_tm_entity" where
  "rlc_tm_configure r is_uplink_downlinkP = rlc_tm_reset_state_variables (r\<lparr>tm_is_uplink_downlink := is_uplink_downlinkP\<rparr>)"

definition rlc_tm_set_debug_infos :: "rlc_tm_entity \<Rightarrow> bool \<Rightarrow> int \<Rightarrow> int \<Rightarrow> rlc_tm_entity" where
  "rlc_tm_set_debug_infos r srb_flagP rb_idP chan_idP =
     r\<lparr>tm_rb_id := rb_idP, tm_channel_id := chan_idP, tm_is_data_plane := (\<not> srb_flagP)\<rparr>"

definition tm_config :: "allocator \<Rightarrow> bool \<Rightarrow> bool \<Rightarrow> int \<Rightarrow> int \<Rightarrow> rlc_tm_entity \<Rightarrow> rlc_tm_entity" where
  "tm_config alloc is_uplink_downlinkP srb_flagP rb_idP chan_idP r =
     rlc_tm_configure
       (rlc_tm_set_debug_infos ((rlc_tm_init alloc r)\<lparr>tm_protocol_state := RLC_DATA_TRANSFER_READY_STATE\<rparr>) srb_flagP rb_idP chan_idP)
       is_uplink_downlinkP"

section \<open>Transmission\<close>

definition rlc_tm_data_req :: "rlc_tm_entity \<Rightarrow> mem \<times> int \<Rightarrow> rlc_tm_entity option" where
  "rlc_tm_data_req r sdu =
     (case tm_input_sdus r of
        None \<Rightarrow> None
      | Some ring \<Rightarrow>
          let i = nat (next_sdu_index r); sz = to_u16 (snd sdu) in
          if i \<ge> length ring then None
          else if ring ! i = None then
            Some (r\<lparr>tm_buffer_occupancy := to_s32 (tm_buffer_occupancy r + sz div 8), nb_sdu := to_u16 (nb_sdu r + 1),
                    tm_input_sdus := Some (ring[i := Some (fst sdu, sz)]),
                    next_sdu_index := to_u16 (crem (next_sdu_index r + 1) (size_input_sdus_buffer r))\<rparr>)
          else Some r)"

text \<open>One round of \<open>rlc_tm_no_segment\<close>, and its loop: \<open>nb_pdu_to_transmit\<close> is never decremented.\<close>

definition tm_send_one :: "rlc_tm_entity \<Rightarrow> (mem \<times> int) option list \<Rightarrow> mem \<times> int \<Rightarrow> mem \<Rightarrow> rlc_tm_entity" where
  "tm_send_one r ring sdu blk =
     (let n = nat ((rlc_pdu_size r + 7) div 8) in
      r\<lparr>tm_pdus_to_mac_layer := tm_pdus_to_mac_layer r @ [\<lparr>tb_req_data_ptr = mem_write blk 0 (mem_read (fst sdu) 0 n), tb_req_size = rlc_pdu_size r div 8\<rparr>],
        tm_buffer_occupancy := to_s32 (tm_buffer_occupancy r - snd sdu div 8),
        tm_input_sdus := Some (ring[nat (current_sdu_index r) := None]),
        current_sdu_index := to_u16 (crem (current_sdu_index r + 1) (size_input_sdus_buffer r)),
        nb_sdu := to_u16 (nb_sdu r - 1), tm_allocs := Suc (tm_allocs r)\<rparr>)"

fun rlc_tm_no_segment :: "nat \<Rightarrow> allocator \<Rightarrow> rlc_tm_entity \<Rightarrow> rlc_tm_entity option" where
  "rlc_tm_no_segment 0 alloc r = None"
| "rlc_tm_no_segment (Suc fuel) alloc r =
     (case tm_input_sdus r of
        None \<Rightarrow> None
      | Some ring \<Rightarrow>
          if nat (current_sdu_index r) \<ge> length ring then None
          else (case ring ! nat (current_sdu_index r) of
             None \<Rightarrow> Some r
           | Some sdu \<Rightarrow>
               (case alloc (tm_allocs r) of
                  None \<Rightarrow> Some (r\<lparr>tm_allocs := Suc (tm_allocs r)\<rparr>)
                | Some blk \<Rightarrow>
                    if rlc_pdu_size r < -7 then None
                    else rlc_tm_no_segment fuel alloc (tm_send_one r ring sdu blk))))"

definition rlc_tm_mac_status_indication :: "rlc_tm_entity \<Rightarrow> int \<Rightarrow> ((int \<times> int \<times> rlc_protocol_state) \<times> rlc_tm_entity) option" where
  "rlc_tm_mac_status_indication r tb_sizeP =
     (if tb_sizeP = 0 then None
      else let bytes = to_u32 (tm_buffer_occupancy r) in
        Some ((bytes, to_u16 (cdiv bytes (to_u32 tb_sizeP)), tm_protocol_state r), r\<lparr>rlc_pdu_size := tb_sizeP\<rparr>))"

definition rlc_tm_mac_data_request :: "allocator \<Rightarrow> rlc_tm_entity \<Rightarrow> ((mac_tb_req list \<times> int \<times> int \<times> rlc_protocol_state) \<times> rlc_tm_entity) option" where
  "rlc_tm_mac_data_request alloc r =
     (case rlc_tm_no_segment 17 alloc r of
        None \<Rightarrow> None
      | Some r1 \<Rightarrow>
          if rlc_pdu_size r1 = 0 then None
          else let bytes = to_u32 (tm_buffer_occupancy r1) in
            Some ((tm_pdus_to_mac_layer r1, bytes, to_u16 (cdiv bytes (to_u32 (rlc_pdu_size r1))), tm_protocol_state r1),
                  r1\<lparr>tm_pdus_to_mac_layer := []\<rparr>))"

section \<open>Reception\<close>

definition rlc_tm_send_sdu :: "allocator \<Rightarrow> mem \<Rightarrow> int \<Rightarrow> rlc_tm_entity \<Rightarrow> rlc_tm_entity option" where
  "rlc_tm_send_sdu alloc src length_in_bitsP r =
     (let length_in_bytes = (length_in_bitsP + 7) div 8;
          r1 = (if tm_output_sdu_in_construction r = None
                then r\<lparr>tm_output_sdu_in_construction := alloc (tm_allocs r), tm_allocs := Suc (tm_allocs r)\<rparr> else r) in
      case tm_output_sdu_in_construction r1 of
        None \<Rightarrow> Some r1
      | Some blk \<Rightarrow>
          if length_in_bytes < 0 then None
          else let blk' = mem_write blk (nat (tm_output_sdu_size_to_write r1)) (mem_read src 0 (nat length_in_bytes)) in
            Some (r1\<lparr>tm_data_ind_log := tm_data_ind_log r1 @ [\<lparr>di_srb_flag = (\<not> tm_is_data_plane r1), di_mbms_flag = False,
                        di_rb_id = tm_rb_id r1, di_sdu = mem_read blk' 0 (nat length_in_bytes)\<rparr>],
                      tm_output_sdu_in_construction := None\<rparr>))"

fun tm_rx_loop :: "allocator \<Rightarrow> int \<Rightarrow> mac_tb_ind list \<Rightarrow> rlc_tm_entity \<Rightarrow> rlc_tm_entity option" where
  "tm_rx_loop alloc tb_sizeP [] r = Some r"
| "tm_rx_loop alloc tb_sizeP (tb # tbs) r =
     (case rlc_tm_send_sdu alloc (data_ptr tb) tb_sizeP r of None \<Rightarrow> None | Some r1 \<Rightarrow> tm_rx_loop alloc tb_sizeP tbs r1)"

definition rlc_tm_rx :: "allocator \<Rightarrow> rlc_tm_entity \<Rightarrow> mac_tb_ind list \<Rightarrow> int \<Rightarrow> rlc_tm_entity option" where
  "rlc_tm_rx alloc r tbs tb_sizeP = tm_rx_loop alloc tb_sizeP tbs (r\<lparr>tm_output_sdu_size_to_write := 0\<rparr>)"

definition rlc_tm_mac_data_indication :: "allocator \<Rightarrow> rlc_tm_entity \<Rightarrow> mac_tb_ind list \<Rightarrow> int \<Rightarrow> rlc_tm_entity option" where
  "rlc_tm_mac_data_indication alloc r data_indP tb_sizeP = rlc_tm_rx alloc r data_indP tb_sizeP"

section \<open>The ring is a bounded queue\<close>

text \<open>\<open>tm_rel r q\<close>: the ring of \<open>r\<close> holds the SDUs \<open>q\<close>, oldest first, and the counters agree with it.\<close>

definition tm_rel :: "rlc_tm_entity \<Rightarrow> (mem \<times> int) list \<Rightarrow> bool" where
  "tm_rel r q \<longleftrightarrow> (\<exists>ring. tm_input_sdus r = Some ring \<and> length ring = 16 \<and> length q \<le> 16
     \<and> size_input_sdus_buffer r = 16 \<and> 0 \<le> current_sdu_index r \<and> current_sdu_index r < 16
     \<and> nb_sdu r = int (length q) \<and> next_sdu_index r = (current_sdu_index r + int (length q)) mod 16
     \<and> (\<forall>k<16. ring ! ((nat (current_sdu_index r) + k) mod 16) = (if k < length q then Some (q ! k) else None))
     \<and> tm_buffer_occupancy r = sum_list (map (\<lambda>s. snd s div 8) q) \<and> (\<forall>s\<in>set q. 0 \<le> snd s \<and> snd s < 65536))"

lemma tm_relE:
  assumes "tm_rel r q"
  obtains ring c where "tm_input_sdus r = Some ring" "length ring = 16" "length q \<le> 16" "size_input_sdus_buffer r = 16"
    "current_sdu_index r = int c" "c < 16" "nb_sdu r = int (length q)" "next_sdu_index r = int ((c + length q) mod 16)"
    "\<And>k. k < 16 \<Longrightarrow> ring ! ((c + k) mod 16) = (if k < length q then Some (q ! k) else None)"
    "tm_buffer_occupancy r = sum_list (map (\<lambda>s. snd s div 8) q)" "\<And>s. s \<in> set q \<Longrightarrow> 0 \<le> snd s \<and> snd s < 65536"
proof -
  from assms obtain ring where r: "tm_input_sdus r = Some ring" "length ring = 16" "length q \<le> 16"
    "size_input_sdus_buffer r = 16" "0 \<le> current_sdu_index r" "current_sdu_index r < 16"
    "nb_sdu r = int (length q)" "next_sdu_index r = (current_sdu_index r + int (length q)) mod 16"
    "\<forall>k<16. ring ! ((nat (current_sdu_index r) + k) mod 16) = (if k < length q then Some (q ! k) else None)"
    "tm_buffer_occupancy r = sum_list (map (\<lambda>s. snd s div 8) q)" "\<forall>s\<in>set q. 0 \<le> snd s \<and> snd s < 65536"
    unfolding tm_rel_def by blast
  show thesis
    using that [of ring "nat (current_sdu_index r)"] r by (simp add: zmod_int)
qed

lemma tm_relI:
  assumes "tm_input_sdus r = Some ring" "length ring = 16" "length q \<le> 16" "size_input_sdus_buffer r = 16"
    "current_sdu_index r = int c" "c < 16" "nb_sdu r = int (length q)" "next_sdu_index r = int ((c + length q) mod 16)"
    "\<And>k. k < 16 \<Longrightarrow> ring ! ((c + k) mod 16) = (if k < length q then Some (q ! k) else None)"
    "tm_buffer_occupancy r = sum_list (map (\<lambda>s. snd s div 8) q)" "\<And>s. s \<in> set q \<Longrightarrow> 0 \<le> snd s \<and> snd s < 65536"
  shows "tm_rel r q"
  unfolding tm_rel_def using assms by (simp add: zmod_int)

text \<open>A ring of 16 SDUs of at most 65535 bits holds at most 131056 octets: the occupancy does not overflow.\<close>

lemma tm_occupancy_bounds:
  assumes "\<And>s. s \<in> set q \<Longrightarrow> 0 \<le> snd s \<and> snd s < 65536"
  shows "0 \<le> sum_list (map (\<lambda>s :: mem \<times> int. snd s div 8) q)
    \<and> sum_list (map (\<lambda>s. snd s div 8) q) \<le> 8191 * int (length q)"
  using assms
proof (induction q)
  case (Cons s q)
  have "0 \<le> snd s div 8 \<and> snd s div 8 \<le> 8191" using Cons.prems [of s] by auto
  moreover have "0 \<le> sum_list (map (\<lambda>s. snd s div 8) q) \<and> sum_list (map (\<lambda>s. snd s div 8) q) \<le> 8191 * int (length q)"
    using Cons.prems by (intro Cons.IH) auto
  ultimately show ?case by simp
qed simp

lemma ring_index_inj: "k < n \<Longrightarrow> l < n \<Longrightarrow> (c + k) mod n = (c + l) mod n \<longleftrightarrow> k = (l :: nat)"
proof (induction k l rule: linorder_wlog)
  case (le k l)
  show ?case
  proof
    assume "(c + k) mod n = (c + l) mod n"
    then have "n dvd (c + l) - (c + k)" using le(1) by (metis mod_eq_dvd_iff_nat add_le_cancel_left)
    then have "n dvd l - k" by simp
    then show "k = l" using le by (metis dvd_imp_le leD diff_le_self le_trans less_imp_diff_less nat_dvd_not_less
          zero_less_diff linorder_not_le order_antisym)
  qed simp
qed auto

lemma tm_data_req_appends:
  assumes "tm_rel r q" "length q < 16"
  obtains r' where "rlc_tm_data_req r sdu = Some r'" "tm_rel r' (q @ [(fst sdu, to_u16 (snd sdu))])"
    "tm_pdus_to_mac_layer r' = tm_pdus_to_mac_layer r" "rlc_pdu_size r' = rlc_pdu_size r" "tm_allocs r' = tm_allocs r"
proof -
  from assms(1) obtain ring c where r: "tm_input_sdus r = Some ring" "length ring = 16" "length q \<le> 16"
    "size_input_sdus_buffer r = 16" "current_sdu_index r = int c" "c < 16" "nb_sdu r = int (length q)"
    "next_sdu_index r = int ((c + length q) mod 16)"
    and cells: "\<And>k. k < 16 \<Longrightarrow> ring ! ((c + k) mod 16) = (if k < length q then Some (q ! k) else None)"
    and occ: "tm_buffer_occupancy r = sum_list (map (\<lambda>s. snd s div 8) q)"
    and sz: "\<And>s. s \<in> set q \<Longrightarrow> 0 \<le> snd s \<and> snd s < 65536" by (rule tm_relE) blast
  let ?i = "(c + length q) mod 16" and ?s = "(fst sdu, to_u16 (snd sdu))"
  define r' where "r' = r\<lparr>tm_buffer_occupancy := to_s32 (tm_buffer_occupancy r + to_u16 (snd sdu) div 8), nb_sdu := to_u16 (nb_sdu r + 1),
                    tm_input_sdus := Some (ring[?i := Some ?s]),
                    next_sdu_index := to_u16 (crem (next_sdu_index r + 1) (size_input_sdus_buffer r))\<rparr>"
  have "ring ! ?i = None" using cells [of "length q"] assms(2) by simp
  then have step: "rlc_tm_data_req r sdu = Some r'"
    unfolding rlc_tm_data_req_def r'_def using r by (simp add: Let_def)
  have nxt: "to_u16 (crem (next_sdu_index r + 1) (size_input_sdus_buffer r)) = int ((c + length (q @ [?s])) mod 16)"
    using r by (simp add: to_u16_id zmod_int mod_add_right_eq ac_simps)
  have bound: "0 \<le> sum_list (map (\<lambda>s. snd s div 8) q)" "sum_list (map (\<lambda>s. snd s div 8) q) \<le> 8191 * 16"
    using tm_occupancy_bounds [of q] sz assms(2) by force+
  have szb: "0 \<le> to_u16 (snd sdu) div 8" "to_u16 (snd sdu) div 8 \<le> 8191"
    using to_u16_range [of "snd sdu"] by linarith+
  have "tm_rel r' (q @ [?s])"
  proof (rule tm_relI)
    show "tm_input_sdus r' = Some (ring[?i := Some ?s])" by (simp add: r'_def)
    show "length (ring[?i := Some ?s]) = 16" using r by simp
    show "next_sdu_index r' = int ((c + length (q @ [?s])) mod 16)" using nxt by (simp add: r'_def)
    show "nb_sdu r' = int (length (q @ [?s]))" using r by (simp add: r'_def to_u16_id)
    show "ring[?i := Some ?s] ! ((c + k) mod 16) = (if k < length (q @ [?s]) then Some ((q @ [?s]) ! k) else None)" if "k < 16" for k
      using that cells [OF that] assms(2) r(2) ring_index_inj [of k 16 "length q" c]
      by (auto simp: nth_list_update nth_append)
    show "tm_buffer_occupancy r' = sum_list (map (\<lambda>s. snd s div 8) (q @ [?s]))"
      using occ bound szb by (simp add: r'_def to_s32_id)
    show "0 \<le> snd s \<and> snd s < 65536" if "s \<in> set (q @ [?s])" for s using that sz [of s] by auto
  qed (use r assms(2) in \<open>simp_all add: r'_def\<close>)
  then show thesis using that [OF step] by (simp add: r'_def)
qed

lemma tm_data_req_full:
  assumes "tm_rel r q" "length q = 16"
  shows "rlc_tm_data_req r sdu = Some r"
proof -
  from assms(1) obtain ring c where r: "tm_input_sdus r = Some ring" "length ring = 16" "c < 16"
    "next_sdu_index r = int ((c + length q) mod 16)"
    and cells: "\<And>k. k < 16 \<Longrightarrow> ring ! ((c + k) mod 16) = (if k < length q then Some (q ! k) else None)"
    by (rule tm_relE) blast
  show ?thesis unfolding rlc_tm_data_req_def using r cells [of 0] assms(2) by simp
qed

definition tm_pdu_ok :: "int \<Rightarrow> mac_tb_req \<Rightarrow> mem \<times> int \<Rightarrow> bool" where
  "tm_pdu_ok sz tb sdu \<longleftrightarrow> tb_req_size tb = sz div 8
     \<and> mem_read (tb_req_data_ptr tb) 0 (nat ((sz + 7) div 8)) = mem_read (fst sdu) 0 (nat ((sz + 7) div 8))"

lemma tm_send_one_dequeues:
  assumes "tm_rel r (s # q)" "tm_input_sdus r = Some ring"
  shows "tm_rel (tm_send_one r ring s blk) q"
proof -
  from assms(1) obtain ring' c where r: "tm_input_sdus r = Some ring'" "length ring' = 16" "length (s # q) \<le> 16"
    "size_input_sdus_buffer r = 16" "current_sdu_index r = int c" "c < 16" "nb_sdu r = int (length (s # q))"
    "next_sdu_index r = int ((c + length (s # q)) mod 16)"
    and cells: "\<And>k. k < 16 \<Longrightarrow> ring' ! ((c + k) mod 16) = (if k < length (s # q) then Some ((s # q) ! k) else None)"
    and occ: "tm_buffer_occupancy r = sum_list (map (\<lambda>s. snd s div 8) (s # q))"
    and sz: "\<And>t. t \<in> set (s # q) \<Longrightarrow> 0 \<le> snd t \<and> snd t < 65536" by (rule tm_relE) blast
  have ring: "ring' = ring" using r(1) assms(2) by simp
  let ?r = "tm_send_one r ring s blk" and ?c = "(c + 1) mod 16"
  have bound: "0 \<le> sum_list (map (\<lambda>s. snd s div 8) q)" "sum_list (map (\<lambda>s. snd s div 8) q) \<le> 8191 * 16"
    using tm_occupancy_bounds [of q] sz r(3) by force+
  show ?thesis
  proof (rule tm_relI)
    show "tm_input_sdus ?r = Some (ring[c := None])" using r by (simp add: tm_send_one_def Let_def)
    show "current_sdu_index ?r = int ?c" using r by (simp add: tm_send_one_def Let_def to_u16_id zmod_int ac_simps)
    show "nb_sdu ?r = int (length q)" using r by (simp add: tm_send_one_def Let_def to_u16_id)
    show "next_sdu_index ?r = int ((?c + length q) mod 16)" using r by (simp add: tm_send_one_def Let_def mod_add_left_eq)
    show "ring[c := None] ! ((?c + k) mod 16) = (if k < length q then Some (q ! k) else None)" if "k < 16" for k
    proof -
      have idx: "(?c + k) mod 16 = (c + Suc k) mod 16" by (simp add: mod_add_left_eq)
      show ?thesis
      proof (cases "Suc k < 16")
        case True
        have "(c + Suc k) mod 16 \<noteq> c" using ring_index_inj [of "Suc k" 16 0 c] True r(6) by simp
        then show ?thesis using cells [OF True] ring idx by simp
      next
        case False
        then have "k = 15" using that by simp
        then show ?thesis using idx r ring by simp
      qed
    qed
    show "tm_buffer_occupancy ?r = sum_list (map (\<lambda>s. snd s div 8) q)"
      using occ bound by (simp add: tm_send_one_def Let_def to_s32_id)
  qed (use r ring sz in \<open>auto simp: tm_send_one_def Let_def\<close>)
qed


text \<open>The loop ends within its fuel. It sends the SDUs in order and stops early only where the allocator fails.\<close>

lemma tm_no_segment_sends:
  assumes "tm_rel r q" "length q < fuel" "-7 \<le> rlc_pdu_size r"
  shows "\<exists>n r' tbs. rlc_tm_no_segment fuel alloc r = Some r' \<and> n \<le> length q \<and> tm_rel r' (drop n q)
     \<and> tm_pdus_to_mac_layer r' = tm_pdus_to_mac_layer r @ tbs \<and> list_all2 (tm_pdu_ok (rlc_pdu_size r)) tbs (take n q)
     \<and> rlc_pdu_size r' = rlc_pdu_size r \<and> tm_protocol_state r' = tm_protocol_state r
     \<and> (n < length q \<longrightarrow> alloc (tm_allocs r + n) = None)"
  using assms
proof (induction fuel arbitrary: r q)
  case (Suc fuel)
  from Suc.prems(1) obtain ring c where r: "tm_input_sdus r = Some ring" "length ring = 16" "current_sdu_index r = int c" "c < 16"
    and cells: "\<And>k. k < 16 \<Longrightarrow> ring ! ((c + k) mod 16) = (if k < length q then Some (q ! k) else None)"
    by (rule tm_relE) blast
  show ?case
  proof (cases q)
    case Nil
    then have "ring ! c = None" using cells [of 0] r(4) by simp
    then have "rlc_tm_no_segment (Suc fuel) alloc r = Some r" using r by simp
    then show ?thesis using Nil Suc.prems(1) by (intro exI [of _ 0] exI [of _ r] exI [of _ "[]"]) simp
  next
    case (Cons s q')
    then have head: "ring ! c = Some s" using cells [of 0] r(4) by simp
    show ?thesis
    proof (cases "alloc (tm_allocs r)")
      case None
      let ?r = "r\<lparr>tm_allocs := Suc (tm_allocs r)\<rparr>"
      have "rlc_tm_no_segment (Suc fuel) alloc r = Some ?r" using r head None by simp
      moreover have "tm_rel ?r q" using Suc.prems(1) by (simp add: tm_rel_def)
      ultimately show ?thesis using None by (intro exI [of _ 0] exI [of _ ?r] exI [of _ "[]"]) simp
    next
      case (Some blk)
      let ?r = "tm_send_one r ring s blk"
      have rel: "tm_rel ?r q'" using Suc.prems(1) Cons r(1) by (intro tm_send_one_dequeues) simp_all
      have "\<exists>n r' tbs. rlc_tm_no_segment fuel alloc ?r = Some r' \<and> n \<le> length q' \<and> tm_rel r' (drop n q')
        \<and> tm_pdus_to_mac_layer r' = tm_pdus_to_mac_layer ?r @ tbs \<and> list_all2 (tm_pdu_ok (rlc_pdu_size ?r)) tbs (take n q')
        \<and> rlc_pdu_size r' = rlc_pdu_size ?r \<and> tm_protocol_state r' = tm_protocol_state ?r
        \<and> (n < length q' \<longrightarrow> alloc (tm_allocs ?r + n) = None)"
        by (rule Suc.IH [OF rel]) (use Suc.prems Cons in \<open>simp_all add: tm_send_one_def Let_def\<close>)
      then obtain n r' tbs where ih: "rlc_tm_no_segment fuel alloc ?r = Some r'" "n \<le> length q'" "tm_rel r' (drop n q')"
        "tm_pdus_to_mac_layer r' = tm_pdus_to_mac_layer ?r @ tbs" "list_all2 (tm_pdu_ok (rlc_pdu_size ?r)) tbs (take n q')"
        "rlc_pdu_size r' = rlc_pdu_size ?r" "tm_protocol_state r' = tm_protocol_state ?r"
        "n < length q' \<longrightarrow> alloc (tm_allocs ?r + n) = None" by blast
      let ?n = "nat ((rlc_pdu_size r + 7) div 8)"
      let ?tb = "\<lparr>tb_req_data_ptr = mem_write blk 0 (mem_read (fst s) 0 ?n), tb_req_size = rlc_pdu_size r div 8\<rparr>"
      have pdu: "tm_pdu_ok (rlc_pdu_size r) ?tb s"
        using mem_read_write_same [of blk 0 "mem_read (fst s) 0 ?n"] by (simp add: tm_pdu_ok_def)
      have "rlc_tm_no_segment (Suc fuel) alloc r = Some r'" using r head Some Suc.prems(3) ih(1) by simp
      moreover have "tm_pdus_to_mac_layer r' = tm_pdus_to_mac_layer r @ ?tb # tbs"
        using ih(4) by (simp add: tm_send_one_def Let_def)
      ultimately show ?thesis using Cons ih pdu
        by (intro exI [of _ "Suc n"] exI [of _ r'] exI [of _ "?tb # tbs"]) (simp add: tm_send_one_def Let_def)
    qed
  qed
qed simp

lemma tm_config_empty:
  assumes "alloc (tm_allocs r) \<noteq> None"
  shows "tm_rel (tm_config alloc ud srb rb chan r) [] \<and> tm_pdus_to_mac_layer (tm_config alloc ud srb rb chan r) = []"
  using assms
  by (auto simp: tm_rel_def tm_config_def rlc_tm_configure_def rlc_tm_reset_state_variables_def rlc_tm_set_debug_infos_def
      rlc_tm_init_def tm_memset_0_def rlc_tm_zero_def Let_def)

text \<open>Reception delivers every transport block, in order, as long as the allocator gives blocks.\<close>

definition tm_delivery :: "rlc_tm_entity \<Rightarrow> nat \<Rightarrow> mac_tb_ind \<Rightarrow> rlc_data_ind_call" where
  "tm_delivery r n tb = \<lparr>di_srb_flag = (\<not> tm_is_data_plane r), di_mbms_flag = False, di_rb_id = tm_rb_id r,
     di_sdu = mem_read (data_ptr tb) 0 n\<rparr>"

lemma tm_send_sdu_delivers:
  assumes "\<And>i. alloc i \<noteq> None" "tm_output_sdu_size_to_write r = 0"
  shows "\<exists>r'. rlc_tm_send_sdu alloc (data_ptr tb) (8 * int n) r = Some r' \<and> tm_output_sdu_size_to_write r' = 0
    \<and> tm_data_ind_log r' = tm_data_ind_log r @ [tm_delivery r n tb] \<and> tm_is_data_plane r' = tm_is_data_plane r \<and> tm_rb_id r' = tm_rb_id r"
proof -
  obtain blk where "alloc (tm_allocs r) = Some blk" using assms(1) [of "tm_allocs r"] by auto
  then show ?thesis
    using assms(2) mem_read_write_same [of _ 0 "mem_read (data_ptr tb) 0 n"]
    by (cases "tm_output_sdu_in_construction r") (simp_all add: rlc_tm_send_sdu_def tm_delivery_def Let_def)
qed

lemma tm_rx_loop_delivers:
  assumes "\<And>i. alloc i \<noteq> None" "tm_output_sdu_size_to_write r = 0"
  shows "\<exists>r'. tm_rx_loop alloc (8 * int n) tbs r = Some r' \<and> tm_data_ind_log r' = tm_data_ind_log r @ map (tm_delivery r n) tbs"
  using assms(2)
proof (induction tbs arbitrary: r)
  case (Cons tb tbs)
  obtain r1 where r1: "rlc_tm_send_sdu alloc (data_ptr tb) (8 * int n) r = Some r1" "tm_output_sdu_size_to_write r1 = 0"
    "tm_data_ind_log r1 = tm_data_ind_log r @ [tm_delivery r n tb]" "tm_is_data_plane r1 = tm_is_data_plane r" "tm_rb_id r1 = tm_rb_id r"
    using tm_send_sdu_delivers [of alloc r tb n] assms(1) Cons.prems by blast
  have "tm_delivery r1 n = tm_delivery r n" using r1(4,5) by (simp add: tm_delivery_def fun_eq_iff)
  then show ?case using Cons.IH [OF r1(2)] r1 by auto
qed simp

text \<open>
  C14. The transparent mode entity implements a bounded queue. After configuration the queue is empty. A new SDU goes to the
  end of the queue, or is dropped when 16 SDUs wait. A transmission opportunity with a positive PDU size always returns;
  it hands the MAC the PDUs left over and then the first octets of the oldest SDUs, in order, removes these from the queue
  and reports the octets of the rest; all waiting SDUs are sent unless the allocator fails.
\<close>

theorem rlc_tm_refines_queue:
  "(alloc (tm_allocs r0) \<noteq> None \<longrightarrow> tm_rel (tm_config alloc ud srb rb chan r0) [])
   \<and> (tm_rel r q \<longrightarrow> (\<exists>r'. rlc_tm_data_req r sdu = Some r'
        \<and> tm_rel r' (if length q < 16 then q @ [(fst sdu, to_u16 (snd sdu))] else q)))
   \<and> (tm_rel r q \<and> 0 < rlc_pdu_size r \<longrightarrow>
        (\<exists>n tbs bytes pdus r'. rlc_tm_mac_data_request alloc r = Some ((tm_pdus_to_mac_layer r @ tbs, bytes, pdus, tm_protocol_state r), r')
          \<and> n \<le> length q \<and> list_all2 (tm_pdu_ok (rlc_pdu_size r)) tbs (take n q) \<and> tm_rel r' (drop n q)
          \<and> bytes = sum_list (map (\<lambda>s. snd s div 8) (drop n q)) \<and> tm_pdus_to_mac_layer r' = []
          \<and> (n < length q \<longrightarrow> alloc (tm_allocs r + n) = None)))"
proof (intro conjI impI)
  assume "alloc (tm_allocs r0) \<noteq> None"
  then show "tm_rel (tm_config alloc ud srb rb chan r0) []" using tm_config_empty by blast
next
  assume rel: "tm_rel r q"
  have "length q \<le> 16" using rel by (rule tm_relE) blast
  show "\<exists>r'. rlc_tm_data_req r sdu = Some r' \<and> tm_rel r' (if length q < 16 then q @ [(fst sdu, to_u16 (snd sdu))] else q)"
  proof (cases "length q < 16")
    case True
    then show ?thesis using tm_data_req_appends [OF rel, of sdu] by auto
  next
    case False
    then show ?thesis using tm_data_req_full [OF rel, of sdu] rel \<open>length q \<le> 16\<close> by simp
  qed
next
  assume a: "tm_rel r q \<and> 0 < rlc_pdu_size r"
  have "length q < 17" using a by (auto elim: tm_relE)
  then obtain n r' tbs where s: "rlc_tm_no_segment 17 alloc r = Some r'" "n \<le> length q" "tm_rel r' (drop n q)"
    "tm_pdus_to_mac_layer r' = tm_pdus_to_mac_layer r @ tbs" "list_all2 (tm_pdu_ok (rlc_pdu_size r)) tbs (take n q)"
    "rlc_pdu_size r' = rlc_pdu_size r" "tm_protocol_state r' = tm_protocol_state r"
    "n < length q \<longrightarrow> alloc (tm_allocs r + n) = None"
    using tm_no_segment_sends [of r q 17 alloc] a by auto
  have occ: "tm_buffer_occupancy r' = sum_list (map (\<lambda>s. snd s div 8) (drop n q))"
    and sz: "\<And>s. s \<in> set (drop n q) \<Longrightarrow> 0 \<le> snd s \<and> snd s < 65536" and len: "length (drop n q) \<le> 16"
    using s(3) by (auto elim!: tm_relE)
  have "to_u32 (tm_buffer_occupancy r') = sum_list (map (\<lambda>s. snd s div 8) (drop n q))"
    using occ tm_occupancy_bounds [of "drop n q"] sz len by (force simp: to_u32_id)
  moreover have "tm_rel (r'\<lparr>tm_pdus_to_mac_layer := []\<rparr>) (drop n q)" using s(3) by (simp add: tm_rel_def)
  ultimately show "\<exists>n tbs bytes pdus r'. rlc_tm_mac_data_request alloc r = Some ((tm_pdus_to_mac_layer r @ tbs, bytes, pdus, tm_protocol_state r), r')
          \<and> n \<le> length q \<and> list_all2 (tm_pdu_ok (rlc_pdu_size r)) tbs (take n q) \<and> tm_rel r' (drop n q)
          \<and> bytes = sum_list (map (\<lambda>s. snd s div 8) (drop n q)) \<and> tm_pdus_to_mac_layer r' = []
          \<and> (n < length q \<longrightarrow> alloc (tm_allocs r + n) = None)"
    using s a by (intro exI [of _ n] exI [of _ tbs]) (simp add: rlc_tm_mac_data_request_def Let_def)
qed

theorem rlc_tm_refines_queue_witness:
  "\<exists>r'. rlc_tm_data_req (tm_config (\<lambda>_. Some (\<lambda>_. 0)) False True 1 1 rlc_tm_zero) (\<lambda>i. of_nat i, 48) = Some r'
     \<and> tm_rel r' [(\<lambda>i. of_nat i, 48)]"
proof -
  let ?al = "\<lambda>_ :: nat. Some (\<lambda>_ :: nat. 0 :: byte)"
  let ?r = "tm_config ?al False True 1 1 rlc_tm_zero"
  have "tm_rel ?r []" using rlc_tm_refines_queue [of ?al rlc_tm_zero False True 1 1] by simp
  then show ?thesis
    using rlc_tm_refines_queue [of ?al rlc_tm_zero False True 1 1 ?r "[]" "(\<lambda>i. of_nat i, 48)"] by (simp add: to_u16_id)
qed


text \<open>
  C15. An SDU whose size is the PDU size crosses the transparent mode unchanged: what the peer hands to PDCP are the SDUs
  that were waiting, octet by octet and in order, and nothing stays in the queue.
\<close>

theorem rlc_tm_transfer:
  assumes "tm_rel r q" "tm_pdus_to_mac_layer r = []" "rlc_pdu_size r = 8 * int n" "0 < n"
    "\<And>i. alloc i \<noteq> None" "\<And>i. alloc' i \<noteq> None"
  shows "\<exists>tbs pdus r' rx'. rlc_tm_mac_data_request alloc r = Some ((tbs, 0, pdus, tm_protocol_state r), r') \<and> tm_rel r' []
    \<and> rlc_tm_mac_data_indication alloc' rx (map (\<lambda>tb. \<lparr>data_ptr = tb_req_data_ptr tb, tb_size = tb_req_size tb\<rparr>) tbs) (8 * int n) = Some rx'
    \<and> map di_sdu (tm_data_ind_log rx') = map di_sdu (tm_data_ind_log rx) @ map (\<lambda>s. mem_read (fst s) 0 n) q"
proof -
  have len: "length q < 17" using assms(1) by (auto elim: tm_relE)
  have sz: "-7 \<le> rlc_pdu_size r" "nat ((rlc_pdu_size r + 7) div 8) = n" using assms(3) by simp_all
  obtain m r1 tbs where m: "rlc_tm_no_segment 17 alloc r = Some r1" "m \<le> length q" "tm_rel r1 (drop m q)"
    "tm_pdus_to_mac_layer r1 = tbs" "list_all2 (tm_pdu_ok (rlc_pdu_size r)) tbs (take m q)"
    "rlc_pdu_size r1 = rlc_pdu_size r" "tm_protocol_state r1 = tm_protocol_state r"
    "m < length q \<longrightarrow> alloc (tm_allocs r + m) = None"
    using tm_no_segment_sends [OF assms(1) len sz(1), of alloc] assms(2) by auto
  have "m = length q" using m(2,8) assms(5) [of "tm_allocs r + m"] by auto
  then have rel: "tm_rel r1 []" and pdus: "list_all2 (tm_pdu_ok (rlc_pdu_size r)) tbs q" using m(3,5) by simp_all
  have "tm_buffer_occupancy r1 = 0" using rel by (auto elim: tm_relE)
  then obtain pn where req: "rlc_tm_mac_data_request alloc r = Some ((tbs, 0, pn, tm_protocol_state r), r1\<lparr>tm_pdus_to_mac_layer := []\<rparr>)"
    using m assms(3,4) by (simp add: rlc_tm_mac_data_request_def Let_def to_u32_id)
  have bytes: "map (\<lambda>tb. mem_read (tb_req_data_ptr tb) 0 n) tbs = map (\<lambda>s. mem_read (fst s) 0 n) q"
    using pdus sz(2) by (induction rule: list_all2_induct) (simp_all add: tm_pdu_ok_def)
  let ?tbs = "map (\<lambda>tb. \<lparr>data_ptr = tb_req_data_ptr tb, tb_size = tb_req_size tb\<rparr>) tbs"
  let ?rx = "rx\<lparr>tm_output_sdu_size_to_write := 0\<rparr>"
  obtain rx' where rx: "tm_rx_loop alloc' (8 * int n) ?tbs ?rx = Some rx'" "tm_data_ind_log rx' = tm_data_ind_log ?rx @ map (tm_delivery ?rx n) ?tbs"
    using tm_rx_loop_delivers [of alloc' ?rx n ?tbs] assms(6) by auto
  have "map di_sdu (tm_data_ind_log rx') = map di_sdu (tm_data_ind_log rx) @ map (\<lambda>s. mem_read (fst s) 0 n) q"
    using rx(2) bytes by (simp add: tm_delivery_def comp_def)
  moreover have "rlc_tm_mac_data_indication alloc' rx ?tbs (8 * int n) = Some rx'"
    using rx(1) by (simp add: rlc_tm_mac_data_indication_def rlc_tm_rx_def)
  moreover have "tm_rel (r1\<lparr>tm_pdus_to_mac_layer := []\<rparr>) []" using rel by (simp add: tm_rel_def)
  ultimately show ?thesis using req by blast
qed

theorem rlc_tm_transfer_witness:
  "let al = \<lambda>_. Some (\<lambda>_. 0); r0 = (tm_config al False True 1 1 rlc_tm_zero)\<lparr>rlc_pdu_size := 24\<rparr> in
   \<exists>r tbs pdus r' rx'. rlc_tm_data_req r0 (\<lambda>i. of_nat i, 24) = Some r
    \<and> rlc_tm_mac_data_request al r = Some ((tbs, 0, pdus, tm_protocol_state r), r') \<and> tm_rel r' []
    \<and> rlc_tm_mac_data_indication al rlc_tm_zero (map (\<lambda>tb. \<lparr>data_ptr = tb_req_data_ptr tb, tb_size = tb_req_size tb\<rparr>) tbs) (8 * int 3) = Some rx'
    \<and> map di_sdu (tm_data_ind_log rx') = [[0, 1, 2]]"
proof -
  let ?al = "\<lambda>_ :: nat. Some (\<lambda>_ :: nat. 0 :: byte)" and ?s = "(\<lambda>i. of_nat i, 24) :: mem \<times> int"
  let ?r = "(tm_config ?al False True 1 1 rlc_tm_zero)\<lparr>rlc_pdu_size := 24\<rparr>"
  have r: "tm_rel ?r [] \<and> tm_pdus_to_mac_layer ?r = []"
    using tm_config_empty [of ?al rlc_tm_zero False True 1 1] by (simp add: tm_rel_def)
  then obtain r1 where r1: "rlc_tm_data_req ?r ?s = Some r1" "tm_rel r1 [?s]" "tm_pdus_to_mac_layer r1 = []" "rlc_pdu_size r1 = 24"
    using tm_data_req_appends [of ?r "[]" ?s] by (auto simp: to_u16_id)
  have log: "tm_data_ind_log rlc_tm_zero = []" by (simp add: rlc_tm_zero_def)
  have "mem_read (fst ?s) 0 3 = [0, 1, 2]" by (simp add: mem_read_def upt_conv_Cons)
  then show ?thesis using rlc_tm_transfer [of r1 "[?s]" 3 ?al ?al rlc_tm_zero] r1 log by (auto simp: Let_def)
qed

end
