(* ===== verification/Pdcp_Seq.thy ===== *)
theory Pdcp_Seq
  imports Oai_Prelude
begin

text \<open>
  The PDCP entity (\<open>pdcp.h\<close>), its sequence-number manager (\<open>pdcp_sequence_manager.c\<close>), the
  COUNT computations of \<open>pdcp_security.c\<close> and the header codecs of \<open>pdcp_primitives.c\<close>.
  Sequence numbers, hyper frame numbers and octets are machine words of the declared width;
  comparisons that C performs after promotion to \<open>int\<close> are made on \<open>uint\<close> values.
  A pointer that the code compares with NULL is an option.
\<close>

section \<open>Entity\<close>

datatype rlc_mode = RLC_MODE_NONE | RLC_MODE_AM | RLC_MODE_UM | RLC_MODE_TM

record pdcp_t =
  header_compression_profile :: "16 word"
  is_ue :: bool
  is_srb :: bool
  cipheringAlgorithm :: "8 word"
  integrityProtAlgorithm :: "8 word"
  kUPenc :: "nat option"
  kRRCint :: "nat option"
  kRRCenc :: "nat option"
  security_activated :: "8 word"
  pdcp_rlc_mode :: rlc_mode
  status_report :: "8 word"
  seq_num_size :: "8 word"
  pdcp_lcid :: "32 word"
  pdcp_rb_id :: "16 word"
  next_pdcp_tx_sn :: "16 word"
  next_pdcp_rx_sn :: "16 word"
  next_pdcp_rx_sn_before_integrity :: "16 word"
  tx_hfn :: "32 word"
  rx_hfn :: "32 word"
  rx_hfn_offset :: int
  last_submitted_pdcp_rx_sn :: "16 word"
  missing_pdu_bitmap :: "byte list"
  first_missing_pdu :: int

section \<open>Sequence manager\<close>

definition pdcp_init_seq_numbers :: "pdcp_t option \<Rightarrow> bool \<times> pdcp_t option" where
  "pdcp_init_seq_numbers ep = (case ep of
     None \<Rightarrow> (False, None)
   | Some e \<Rightarrow> (True, Some (e\<lparr>next_pdcp_tx_sn := 0, next_pdcp_rx_sn := 0, tx_hfn := 0, rx_hfn := 0,
                            last_submitted_pdcp_rx_sn := 4095\<rparr>)))"

definition pdcp_is_seq_num_size_valid :: "pdcp_t option \<Rightarrow> bool" where
  "pdcp_is_seq_num_size_valid ep = (case ep of
     None \<Rightarrow> False
   | Some e \<Rightarrow> \<not> (seq_num_size e \<noteq> 5 \<and> seq_num_size e \<noteq> 7 \<and> seq_num_size e \<noteq> 12))"

definition pdcp_calculate_max_seq_num_for_given_size :: "8 word \<Rightarrow> 16 word" where
  "pdcp_calculate_max_seq_num_for_given_size sz = push_bit (unat sz) 1 - 1"

definition pdcp_is_seq_num_valid :: "16 word \<Rightarrow> 8 word \<Rightarrow> bool" where
  "pdcp_is_seq_num_valid seq_num sz \<longleftrightarrow>
     0 \<le> seq_num \<and> seq_num \<le> pdcp_calculate_max_seq_num_for_given_size sz"

definition pdcp_get_next_tx_seq_number :: "pdcp_t option \<Rightarrow> 16 word \<times> pdcp_t option" where
  "pdcp_get_next_tx_seq_number ep = (case ep of
     None \<Rightarrow> (-1, None)
   | Some e \<Rightarrow>
       if pdcp_is_seq_num_size_valid (Some e) = False then (-1, Some e)
       else
         let pdcp_seq_num = next_pdcp_tx_sn e in
         if next_pdcp_tx_sn e = pdcp_calculate_max_seq_num_for_given_size (seq_num_size e)
         then (pdcp_seq_num, Some (e\<lparr>next_pdcp_tx_sn := 0, tx_hfn := tx_hfn e + 1\<rparr>))
         else (pdcp_seq_num, Some (e\<lparr>next_pdcp_tx_sn := next_pdcp_tx_sn e + 1\<rparr>)))"

definition pdcp_advance_rx_window :: "pdcp_t option \<Rightarrow> bool \<times> pdcp_t option" where
  "pdcp_advance_rx_window ep = (case ep of
     None \<Rightarrow> (False, None)
   | Some e \<Rightarrow>
       if pdcp_is_seq_num_size_valid (Some e) = False then (False, Some e)
       else if next_pdcp_rx_sn e = pdcp_calculate_max_seq_num_for_given_size (seq_num_size e)
         then (True, Some (e\<lparr>next_pdcp_rx_sn := 0, rx_hfn := rx_hfn e + 1\<rparr>))
         else (True, Some (e\<lparr>next_pdcp_rx_sn := next_pdcp_rx_sn e + 1\<rparr>)))"

definition util_mark_nth_bit_of_octet :: "byte \<Rightarrow> 8 word \<Rightarrow> byte" where
  "util_mark_nth_bit_of_octet octet index = octet OR drop_bit (unat index) 0x80"

definition pdcp_mark_current_pdu_as_received :: "16 word \<Rightarrow> pdcp_t \<Rightarrow> bool \<times> pdcp_t" where
  "pdcp_mark_current_pdu_as_received seq_num e =
     (let octet_index = unat (seq_num div 8);
          octet = missing_pdu_bitmap e ! octet_index in
      (True, e\<lparr>missing_pdu_bitmap := (missing_pdu_bitmap e)
                 [octet_index := util_mark_nth_bit_of_octet octet (ucast (seq_num mod 8))]\<rparr>))"

text \<open>
  The three receive procedures of \<open>pdcp_is_rx_seq_number_valid\<close>: SRBs, DRBs over RLC AM and
  DRBs over RLC UM.
\<close>

definition pdcp_rx_window_next :: "16 word \<Rightarrow> pdcp_t \<Rightarrow> pdcp_t" where
  "pdcp_rx_window_next seq_num e =
     (case snd (pdcp_advance_rx_window (Some (e\<lparr>next_pdcp_rx_sn := seq_num\<rparr>))) of
        Some e' \<Rightarrow> e' | None \<Rightarrow> e)"

definition pdcp_rx_srb :: "16 word \<Rightarrow> pdcp_t \<Rightarrow> bool \<times> pdcp_t" where
  "pdcp_rx_srb seq_num e =
     (let e1 = (if seq_num < next_pdcp_rx_sn e
                then e\<lparr>rx_hfn := rx_hfn e + 1, rx_hfn_offset := 0\<rparr>
                else e\<lparr>rx_hfn_offset := 0\<rparr>);
          e2 = e1\<lparr>next_pdcp_rx_sn_before_integrity := next_pdcp_rx_sn e1\<rparr> in
      (True, pdcp_rx_window_next seq_num e2))"

definition pdcp_rx_drb_am :: "16 word \<Rightarrow> int \<Rightarrow> pdcp_t \<Rightarrow> bool \<times> pdcp_t" where
  "pdcp_rx_drb_am seq_num reordering_window e =
     (let sn = uint seq_num; last_sn = uint (last_submitted_pdcp_rx_sn e);
          next_sn = uint (next_pdcp_rx_sn e) in
      if sn - last_sn > reordering_window \<or> (0 \<le> last_sn - sn \<and> last_sn - sn < reordering_window)
      then (False, if sn > next_sn then e\<lparr>rx_hfn_offset := -1\<rparr> else e\<lparr>rx_hfn_offset := 0\<rparr>)
      else if next_sn - sn > reordering_window
      then (True, e\<lparr>rx_hfn := rx_hfn e + 1, rx_hfn_offset := 0, next_pdcp_rx_sn := next_pdcp_rx_sn e + 1\<rparr>)
      else if sn - next_sn \<ge> reordering_window
      then (True, e\<lparr>rx_hfn_offset := -1\<rparr>)
      else if sn \<ge> next_sn
      then (True, pdcp_rx_window_next seq_num (e\<lparr>rx_hfn_offset := 0\<rparr>))
      else (True, e\<lparr>rx_hfn_offset := 0\<rparr>))"

definition pdcp_rx_drb_um :: "16 word \<Rightarrow> pdcp_t \<Rightarrow> bool \<times> pdcp_t" where
  "pdcp_rx_drb_um seq_num e =
     (let e1 = (if seq_num < next_pdcp_rx_sn e then e\<lparr>rx_hfn := rx_hfn e + 1\<rparr> else e) in
      (True, pdcp_rx_window_next seq_num e1))"

definition pdcp_is_rx_seq_number_valid :: "16 word \<Rightarrow> pdcp_t option \<Rightarrow> bool \<Rightarrow> bool \<times> pdcp_t option" where
  "pdcp_is_rx_seq_number_valid seq_num ep srb_flag = (case ep of
     None \<Rightarrow> (False, None)
   | Some e0 \<Rightarrow>
       if pdcp_is_seq_num_size_valid (Some e0) = False
          \<or> pdcp_is_seq_num_valid seq_num (seq_num_size e0) = False
       then (False, Some e0)
       else
         let e = snd (pdcp_mark_current_pdu_as_received seq_num e0) in
         if srb_flag then map_prod id Some (pdcp_rx_srb seq_num e)
         else
           let reordering_window = (if seq_num_size e = 7 then 64 else 2048) in
           case pdcp_rlc_mode e of
             RLC_MODE_AM \<Rightarrow> map_prod id Some (pdcp_rx_drb_am seq_num reordering_window e)
           | RLC_MODE_UM \<Rightarrow> map_prod id Some (pdcp_rx_drb_um seq_num e)
           | _ \<Rightarrow> (False, Some e))"

section \<open>COUNT\<close>

text \<open>
  \<open>len7bits\<close> is the constant \<open>LTE_PDCP_Config__rlc_UM__pdcp_SN_Size_len7bits\<close> of the headers
  generated from the RRC ASN.1 module, hence a parameter.
\<close>

definition pdcp_get_next_count_tx :: "8 word \<Rightarrow> pdcp_t \<Rightarrow> bool \<Rightarrow> 16 word \<Rightarrow> 32 word" where
  "pdcp_get_next_count_tx len7bits e srb_flag pdcp_sn =
     (if srb_flag then push_bit 5 (tx_hfn e) OR ucast (pdcp_sn AND 0x001F)
      else if seq_num_size e = len7bits then push_bit 7 (tx_hfn e) OR ucast (pdcp_sn AND 0x07F)
      else push_bit 12 (tx_hfn e) OR ucast (pdcp_sn AND 0x0FFF))"

definition pdcp_get_next_count_rx :: "8 word \<Rightarrow> pdcp_t \<Rightarrow> bool \<Rightarrow> 16 word \<Rightarrow> 32 word \<times> pdcp_t" where
  "pdcp_get_next_count_rx len7bits e srb_flag pdcp_sn =
     (let hfn = rx_hfn e + word_of_int (rx_hfn_offset e);
          count = (if srb_flag then push_bit 5 hfn OR ucast (pdcp_sn AND 0x001F)
                   else if seq_num_size e = len7bits then push_bit 7 hfn OR ucast (pdcp_sn AND 0x007F)
                   else push_bit 12 hfn OR ucast (pdcp_sn AND 0x0FFF)) in
      (count, e\<lparr>rx_hfn_offset := 0\<rparr>))"

section \<open>Header codecs\<close>

record pdcp_control_plane_data_pdu_header =
  cp_sn :: "8 word"
  cp_mac_i :: "byte list"

record pdcp_user_plane_data_pdu_header_with_long_sn =
  up_dc :: "8 word"
  up_sn :: "16 word"

record pdcp_control_pdu_for_pdcp_status_report =
  sr_dc :: "8 word"
  sr_pdu_type :: "8 word"
  sr_first_missing_sn :: "16 word"

definition pdcp_get_dc_filed :: "mem option \<Rightarrow> 8 word" where
  "pdcp_get_dc_filed p = (case p of
     None \<Rightarrow> 0
   | Some m \<Rightarrow> let dc = m 0 AND 0xF0 in ucast (drop_bit 8 (ucast dc :: 32 word)))"

definition pdcp_get_sequence_number_of_pdu_with_long_sn :: "mem option \<Rightarrow> 16 word" where
  "pdcp_get_sequence_number_of_pdu_with_long_sn p = (case p of
     None \<Rightarrow> 0
   | Some m \<Rightarrow>
       let sequence_number = ucast (m 0 AND 0x0F);
           sequence_number = push_bit 8 sequence_number in
       sequence_number OR ucast (m 1 AND 0xFF))"

definition pdcp_get_sequence_number_of_pdu_with_short_sn :: "mem option \<Rightarrow> 8 word" where
  "pdcp_get_sequence_number_of_pdu_with_short_sn p = (case p of None \<Rightarrow> 0 | Some m \<Rightarrow> m 0 AND 0x7F)"

definition pdcp_get_sequence_number_of_pdu_with_SRB_sn :: "mem option \<Rightarrow> 8 word" where
  "pdcp_get_sequence_number_of_pdu_with_SRB_sn p = (case p of None \<Rightarrow> 0 | Some m \<Rightarrow> m 0 AND 0x1F)"

definition pdcp_serialize_control_plane_data_pdu_with_SRB_sn_buffer ::
  "mem option \<Rightarrow> pdcp_control_plane_data_pdu_header option \<Rightarrow> bool \<times> mem option" where
  "pdcp_serialize_control_plane_data_pdu_with_SRB_sn_buffer p pdu = (case (p, pdu) of
     (Some m, Some h) \<Rightarrow> (True, Some (m(0 := cp_sn h AND 0x1F)))
   | _ \<Rightarrow> (False, p))"

definition pdcp_serialize_user_plane_data_pdu_with_long_sn_buffer ::
  "mem option \<Rightarrow> pdcp_user_plane_data_pdu_header_with_long_sn option \<Rightarrow> bool \<times> mem option" where
  "pdcp_serialize_user_plane_data_pdu_with_long_sn_buffer p pdu = (case (p, pdu) of
     (Some m, Some h) \<Rightarrow>
       let sequence_number = up_sn h;
           m1 = m(1 := ucast (sequence_number AND 0xFF));
           sequence_number = drop_bit 8 sequence_number;
           m2 = m1(0 := ucast (sequence_number AND 0xFF)) in
       (True, Some (if up_dc h = 0x01 then m2(0 := m2 0 OR 0x80) else m2))
   | _ \<Rightarrow> (False, p))"

definition pdcp_serialize_control_pdu_for_pdcp_status_report ::
  "mem option \<Rightarrow> byte list \<Rightarrow> pdcp_control_pdu_for_pdcp_status_report option \<Rightarrow> bool \<times> mem option" where
  "pdcp_serialize_control_pdu_for_pdcp_status_report p bitmap pdu = (case (p, pdu) of
     (Some m, Some h) \<Rightarrow>
       let m1 = m(0 := util_mark_nth_bit_of_octet (m 0) 1);
           m2 = m1(0 := m1 0 OR ucast (drop_bit 8 (sr_first_missing_sn h) AND 0xFF));
           m3 = m2(1 := m2 1 OR ucast (sr_first_missing_sn h AND 0xFF)) in
       (True, Some (mem_write m3 2 (take 512 bitmap)))
   | _ \<Rightarrow> (False, p))"

section \<open>COUNT as one number\<close>

text \<open>
  The pair of hyper frame number and sequence number as one number, modulo the period of the
  pair: the ghost COUNT that transmitter and receiver maintain.
\<close>

definition sn_bits :: "pdcp_t \<Rightarrow> nat" where
  "sn_bits e = unat (seq_num_size e)"

definition tx_count :: "pdcp_t \<Rightarrow> int" where
  "tx_count e = uint (tx_hfn e) * 2 ^ sn_bits e + uint (next_pdcp_tx_sn e)"

definition rx_count :: "pdcp_t \<Rightarrow> int" where
  "rx_count e = uint (rx_hfn e) * 2 ^ sn_bits e + uint (next_pdcp_rx_sn e)"

definition count_period :: "pdcp_t \<Rightarrow> int" where
  "count_period e = 2 ^ 32 * 2 ^ sn_bits e"

definition pdcp_entity_ok :: "pdcp_t \<Rightarrow> bool" where
  "pdcp_entity_ok e \<longleftrightarrow> pdcp_is_seq_num_size_valid (Some e)
     \<and> uint (next_pdcp_tx_sn e) < 2 ^ sn_bits e \<and> uint (next_pdcp_rx_sn e) < 2 ^ sn_bits e
     \<and> length (missing_pdu_bitmap e) = 512"

lemma seq_num_size_cases:
  assumes "pdcp_is_seq_num_size_valid (Some e)"
  obtains "seq_num_size e = 5" | "seq_num_size e = 7" | "seq_num_size e = 12"
  using assms by (auto simp: pdcp_is_seq_num_size_valid_def)

lemma max_seq_num:
  assumes "pdcp_is_seq_num_size_valid (Some e)"
  shows "uint (pdcp_calculate_max_seq_num_for_given_size (seq_num_size e)) = 2 ^ sn_bits e - 1"
  using assms
  by (cases rule: seq_num_size_cases)
     (simp_all add: pdcp_calculate_max_seq_num_for_given_size_def sn_bits_def)

lemma sn_bits_le: "pdcp_is_seq_num_size_valid (Some e) \<Longrightarrow> sn_bits e \<le> 12"
  by (erule seq_num_size_cases) (simp_all add: sn_bits_def)

lemma two_pow_sn_le: "pdcp_is_seq_num_size_valid (Some e) \<Longrightarrow> (2::int) ^ sn_bits e \<le> 4096"
  using power_increasing [of "sn_bits e" 12 "2::int"] sn_bits_le [of e] by simp

lemma uint_inc_16: "uint (w :: 16 word) + 1 < 65536 \<Longrightarrow> uint (w + 1) = uint w + 1"
  by (simp add: uint_plus_if_size word_size)

lemma uint_inc_32: "uint (w + 1 :: 32 word) = (uint w + 1) mod 2 ^ 32"
  by (simp add: uint_word_ariths)

text \<open>One increment of the pair (HFN, SN) as both the transmitter and the receiver perform it.\<close>

lemma hfn_sn_increment:
  fixes hfn :: "32 word" and sn :: "16 word"
  assumes "n \<le> 12" "uint sn < 2 ^ n"
  shows "uint sn = 2 ^ n - 1 \<Longrightarrow>
           uint (hfn + 1) * 2 ^ n = (uint hfn * 2 ^ n + uint sn + 1) mod (2 ^ 32 * 2 ^ n)"
    and "uint sn \<noteq> 2 ^ n - 1 \<Longrightarrow>
           uint hfn * 2 ^ n + uint (sn + 1) = (uint hfn * 2 ^ n + uint sn + 1) mod (2 ^ 32 * 2 ^ n)
           \<and> uint (sn + 1) < 2 ^ n"
proof -
  have n: "(2::int) ^ n \<le> 4096" using power_increasing [of n 12 "2::int"] assms by simp
  show "uint (hfn + 1) * 2 ^ n = (uint hfn * 2 ^ n + uint sn + 1) mod (2 ^ 32 * 2 ^ n)"
    if "uint sn = 2 ^ n - 1"
  proof -
    have "uint hfn * 2 ^ n + uint sn + 1 = (uint hfn + 1) * 2 ^ n"
      using that by (simp add: algebra_simps)
    then show ?thesis by (simp only: uint_inc_32 mult_mod_left)
  qed
  show "uint hfn * 2 ^ n + uint (sn + 1) = (uint hfn * 2 ^ n + uint sn + 1) mod (2 ^ 32 * 2 ^ n)
           \<and> uint (sn + 1) < 2 ^ n"
    if "uint sn \<noteq> 2 ^ n - 1"
  proof -
    have sn: "uint (sn + 1) = uint sn + 1" using n assms by (intro uint_inc_16) linarith
    have lt: "uint sn + 1 < 2 ^ n" using that assms by linarith
    have "uint hfn < 2 ^ 32" using uint_lt2p [of hfn] by simp
    then have "(uint hfn + 1) * 2 ^ n \<le> 2 ^ 32 * 2 ^ n" by (intro mult_right_mono) auto
    then have "uint hfn * 2 ^ n + (uint sn + 1) < 2 ^ 32 * 2 ^ n"
      using lt by (simp only: distrib_right mult_1)
    then have "(uint hfn * 2 ^ n + uint sn + 1) mod (2 ^ 32 * 2 ^ n) = uint hfn * 2 ^ n + uint sn + 1"
      by (intro mod_pos_pos_trivial) auto
    then show ?thesis using sn lt by simp
  qed
qed

section \<open>Transmitter\<close>

lemma next_tx_step:
  assumes "pdcp_is_seq_num_size_valid (Some e)" "uint (next_pdcp_tx_sn e) < 2 ^ sn_bits e"
    and "pdcp_get_next_tx_seq_number (Some e) = (sn, Some e')"
  shows "sn = next_pdcp_tx_sn e" "seq_num_size e' = seq_num_size e"
    "uint (next_pdcp_tx_sn e') < 2 ^ sn_bits e"
    "tx_count e' = (tx_count e + 1) mod count_period e"
proof -
  have mx: "next_pdcp_tx_sn e = pdcp_calculate_max_seq_num_for_given_size (seq_num_size e)
      \<longleftrightarrow> uint (next_pdcp_tx_sn e) = 2 ^ sn_bits e - 1"
    using max_seq_num [OF assms(1)] by (metis word_uint_eqI)
  note inc = hfn_sn_increment [OF sn_bits_le [OF assms(1)] assms(2), of "tx_hfn e"]
  show "sn = next_pdcp_tx_sn e" "seq_num_size e' = seq_num_size e"
    using assms(3,1) by (auto simp: pdcp_get_next_tx_seq_number_def Let_def split: if_splits)
  show "uint (next_pdcp_tx_sn e') < 2 ^ sn_bits e"
    using assms(3,1) inc mx
    by (auto simp: pdcp_get_next_tx_seq_number_def Let_def split: if_splits)
  show "tx_count e' = (tx_count e + 1) mod count_period e"
    using assms(3,1) inc mx
    by (auto simp: pdcp_get_next_tx_seq_number_def Let_def tx_count_def count_period_def sn_bits_def
             split: if_splits)
qed

lemma next_tx_Some:
  "pdcp_is_seq_num_size_valid (Some e) \<Longrightarrow> \<exists>sn e'. pdcp_get_next_tx_seq_number (Some e) = (sn, Some e')"
  by (simp add: pdcp_get_next_tx_seq_number_def Let_def)

text \<open>The transmitter state after \<open>n\<close> numbered PDUs.\<close>

primrec pdcp_tx_run :: "nat \<Rightarrow> pdcp_t \<Rightarrow> pdcp_t" where
  "pdcp_tx_run 0 e = e"
| "pdcp_tx_run (Suc n) e = the (snd (pdcp_get_next_tx_seq_number (Some (pdcp_tx_run n e))))"

lemma pdcp_tx_run_inv:
  assumes "pdcp_is_seq_num_size_valid (Some e)" "uint (next_pdcp_tx_sn e) < 2 ^ sn_bits e"
  shows "seq_num_size (pdcp_tx_run n e) = seq_num_size e
    \<and> uint (next_pdcp_tx_sn (pdcp_tx_run n e)) < 2 ^ sn_bits e
    \<and> tx_count (pdcp_tx_run n e) mod count_period e = (tx_count e + int n) mod count_period e"
proof (induction n)
  case 0
  then show ?case using assms by simp
next
  case (Suc n)
  let ?r = "pdcp_tx_run n e"
  have v: "pdcp_is_seq_num_size_valid (Some ?r)" and b: "sn_bits ?r = sn_bits e"
    using Suc assms by (auto simp: pdcp_is_seq_num_size_valid_def sn_bits_def)
  obtain sn e' where st: "pdcp_get_next_tx_seq_number (Some ?r) = (sn, Some e')"
    using next_tx_Some [OF v] by blast
  have "uint (next_pdcp_tx_sn ?r) < 2 ^ sn_bits ?r" using Suc b by simp
  note step = next_tx_step [OF v this st]
  have "tx_count e' mod count_period e = (tx_count ?r mod count_period e + 1) mod count_period e"
    using step(4) b by (simp add: count_period_def mod_add_left_eq)
  also have "\<dots> = (tx_count e + int (Suc n)) mod count_period e"
    using Suc by (simp add: mod_simps add_ac)
  finally show ?case using step Suc st b by simp
qed

text \<open>
  The COUNT given to the cipher: the layout length in bits is 5 for SRBs, 7 when the code
  recognises a short sequence number, 12 otherwise.
\<close>

definition count_layout :: "8 word \<Rightarrow> bool \<Rightarrow> pdcp_t \<Rightarrow> nat" where
  "count_layout len7bits srb_flag e =
     (if srb_flag then 5 else if seq_num_size e = len7bits then 7 else 12)"

lemma uint_count_word:
  fixes hfn :: "32 word" and sn :: "16 word"
  assumes "n \<le> 12" "uint sn < 2 ^ n"
  shows "uint (push_bit n hfn OR (ucast sn :: 32 word)) = (uint hfn mod 2 ^ (32 - n)) * 2 ^ n + uint sn"
proof -
  have sn: "uint (ucast sn :: 32 word) = take_bit n (uint sn)"
    using assms uint_lt2p [of sn] by (simp add: unsigned_ucast_eq take_bit_int_eq_self)
  have hfn: "uint (push_bit n hfn) = push_bit n (take_bit (32 - n) (uint hfn))"
    using assms by (simp add: unsigned_push_bit_eq push_bit_take_bit)
  have "uint (push_bit n hfn OR (ucast sn :: 32 word))
      = concat_bit n (uint sn) (take_bit (32 - n) (uint hfn))"
    by (simp add: unsigned_or_eq sn hfn concat_bit_def or.commute)
  also have "\<dots> = take_bit n (uint sn) + push_bit n (take_bit (32 - n) (uint hfn))"
    by (rule concat_bit_eq)
  finally show ?thesis
    using assms by (simp add: take_bit_eq_mod push_bit_eq_mult)
qed

lemma sn_and_mask: "uint (sn :: 16 word) < 2 ^ n \<Longrightarrow> sn AND mask n = sn"
  by (simp add: take_bit_eq_mask [symmetric] word_uint_eq_iff unsigned_take_bit_eq take_bit_int_eq_self)

lemma sn_masks:
  "(sn :: 16 word) AND 0x1F = sn AND mask 5" "sn AND 0x7F = sn AND mask 7" "sn AND 0xFFF = sn AND mask 12"
  by (simp_all add: mask_eq_exp_minus_1)

lemma uint_count_tx:
  assumes "uint sn < 2 ^ sn_bits e" "sn_bits e \<le> count_layout l7 srb e"
  shows "uint (pdcp_get_next_count_tx l7 e srb sn)
    = (uint (tx_hfn e) mod 2 ^ (32 - count_layout l7 srb e)) * 2 ^ count_layout l7 srb e + uint sn"
proof -
  have lt: "uint sn < 2 ^ count_layout l7 srb e"
    using assms(1) power_increasing [OF assms(2), of "2::int"] by linarith
  have "pdcp_get_next_count_tx l7 e srb sn = push_bit (count_layout l7 srb e) (tx_hfn e) OR ucast sn"
    using lt sn_and_mask [OF lt]
    by (auto simp: pdcp_get_next_count_tx_def count_layout_def sn_masks split: if_splits)
  then show ?thesis
    using lt by (simp add: uint_count_word count_layout_def)
qed

definition pdcp_tx_cipher_count :: "8 word \<Rightarrow> bool \<Rightarrow> nat \<Rightarrow> pdcp_t \<Rightarrow> 32 word" where
  "pdcp_tx_cipher_count l7 srb n e =
     (case pdcp_get_next_tx_seq_number (Some (pdcp_tx_run n e)) of
        (sn, Some e') \<Rightarrow> pdcp_get_next_count_tx l7 e' srb sn
      | (sn, None) \<Rightarrow> 0)"

lemma tx_count_lt_period: "uint (next_pdcp_tx_sn e) < 2 ^ sn_bits e \<Longrightarrow> tx_count e < count_period e"
proof -
  assume sn: "uint (next_pdcp_tx_sn e) < 2 ^ sn_bits e"
  have "uint (tx_hfn e) + 1 \<le> 2 ^ 32" using uint_lt2p [of "tx_hfn e"] by simp
  then have "(uint (tx_hfn e) + 1) * 2 ^ sn_bits e \<le> 2 ^ 32 * 2 ^ sn_bits e"
    by (intro mult_right_mono) auto
  then show ?thesis using sn by (simp only: tx_count_def count_period_def distrib_right mult_1)
qed

lemma tx_count_nonneg [simp]: "0 \<le> tx_count e"
  by (simp add: tx_count_def)

lemma tx_count_split:
  assumes "uint (next_pdcp_tx_sn e) < 2 ^ sn_bits e"
  shows "uint (next_pdcp_tx_sn e) = tx_count e mod 2 ^ sn_bits e"
    "uint (tx_hfn e) = tx_count e div 2 ^ sn_bits e"
  using assms by (simp_all add: tx_count_def)

lemma mod_mod_mult: "((x::int) mod (k * m)) mod m = x mod m"
  by (simp add: mod_mod_cancel)

lemma mod_mult_div: "0 < m \<Longrightarrow> 0 < k \<Longrightarrow> ((x::int) mod (k * m)) div m = (x div m) mod k"
  by (simp add: mult.commute [of k] zmod_zmult2_eq)

lemma mod_pow_mod: "n \<le> k \<Longrightarrow> ((x::int) mod 2 ^ k) mod 2 ^ n = x mod 2 ^ n"
  by (simp add: mod_mod_cancel le_imp_power_dvd)

lemma uint_tx_cipher_count:
  fixes n :: nat
  assumes "pdcp_entity_ok e" "sn_bits e \<le> count_layout l7 srb e"
  defines "m \<equiv> 2 ^ sn_bits e" and "L \<equiv> count_layout l7 srb e" and "x \<equiv> tx_count e + int n"
  shows "uint (pdcp_tx_cipher_count l7 srb n e) = ((x + 1) div m mod 2 ^ (32 - L)) * 2 ^ L + x mod m"
proof -
  have e: "pdcp_is_seq_num_size_valid (Some e)" "uint (next_pdcp_tx_sn e) < 2 ^ sn_bits e"
    using assms by (auto simp: pdcp_entity_ok_def)
  let ?r = "pdcp_tx_run n e" and ?r' = "pdcp_tx_run (Suc n) e"
  note r = pdcp_tx_run_inv [OF e, of n] and r' = pdcp_tx_run_inv [OF e, of "Suc n"]
  have v: "pdcp_is_seq_num_size_valid (Some ?r)" and b: "sn_bits ?r = sn_bits e" "sn_bits ?r' = sn_bits e"
    using r r' e by (auto simp: pdcp_is_seq_num_size_valid_def sn_bits_def)
  obtain sn where st: "pdcp_get_next_tx_seq_number (Some ?r) = (sn, Some ?r')"
    using next_tx_Some [OF v] by auto
  have snr: "sn = next_pdcp_tx_sn ?r" using next_tx_step(1) [OF v _ st] r b by simp
  have rn: "uint (next_pdcp_tx_sn ?r) < 2 ^ sn_bits ?r" "uint (next_pdcp_tx_sn ?r') < 2 ^ sn_bits ?r'"
    using r r' b by auto
  have cnt: "tx_count ?r = x mod (2 ^ 32 * m)" "tx_count ?r' = (x + 1) mod (2 ^ 32 * m)"
    using r r' tx_count_lt_period [OF rn(1)] tx_count_lt_period [OF rn(2)] b
    by (simp_all add: count_period_def x_def m_def add_ac)
  have "uint sn = x mod m"
    using tx_count_split(1) [OF rn(1)] cnt b snr by (simp add: m_def mod_mod_mult)
  moreover have "uint (tx_hfn ?r') = (x + 1) div m mod 2 ^ 32"
    using tx_count_split(2) [OF rn(2)] cnt b mod_mult_div [of m "2 ^ 32" "x + 1"] by (simp add: m_def)
  moreover have "count_layout l7 srb ?r' = L" using r' by (simp add: count_layout_def L_def)
  moreover have "uint sn < 2 ^ sn_bits ?r'" using rn b snr by simp
  ultimately have "uint (pdcp_get_next_count_tx l7 ?r' srb sn)
      = ((x + 1) div m mod 2 ^ 32 mod 2 ^ (32 - L)) * 2 ^ L + x mod m"
    using uint_count_tx [of sn ?r' l7 srb] assms(2) b by (simp only: L_def)
  then show ?thesis
    unfolding pdcp_tx_cipher_count_def st by (simp only: mod_pow_mod prod.case option.case diff_le_self)
qed

lemma mod_combine:
  fixes a c m k :: int
  assumes "0 < m" "0 < k" "a mod m = c mod m" "a div m mod k = c div m mod k"
  shows "a mod (m * k) = c mod (m * k)"
  using assms by (simp add: zmod_zmult2_eq)

lemma pow_pos_split:
  fixes a c s t M :: int
  assumes "a * M + s = c * M + t" "0 \<le> s" "s < M" "0 \<le> t" "t < M"
  shows "a = c \<and> s = t"
proof -
  have "(a * M + s) div M = a" "(c * M + t) div M = c"
    using assms(2-5) by (simp_all add: div_plus_div_distrib_dvd_left)
  then have "a = c" using assms(1) by metis
  then show ?thesis using assms(1) by simp
qed

text \<open>
  C23. The COUNT values handed to the cipher for successive PDUs of one bearer are pairwise
  different over a whole period of the transmitted COUNT: the key stream is not reused,
  although the hyper frame number is incremented before the COUNT of the last sequence number
  of a frame is computed.
\<close>
theorem pdcp_tx_count_no_reuse:
  assumes "pdcp_entity_ok e" "sn_bits e \<le> count_layout l7 srb e"
    and "i < j" "j < i + 2 ^ (32 - count_layout l7 srb e + sn_bits e)"
  shows "pdcp_tx_cipher_count l7 srb i e \<noteq> pdcp_tx_cipher_count l7 srb j e"
proof
  assume eq: "pdcp_tx_cipher_count l7 srb i e = pdcp_tx_cipher_count l7 srb j e"
  define m :: int where "m = 2 ^ sn_bits e"
  define L where "L = count_layout l7 srb e"
  define x where "x = tx_count e + int i"
  define y where "y = tx_count e + int j"
  have m: "0 < m" "m \<le> 2 ^ L"
    using assms(2) by (auto simp: m_def L_def intro: power_increasing)
  have "((x + 1) div m mod 2 ^ (32 - L)) * 2 ^ L + x mod m
      = ((y + 1) div m mod 2 ^ (32 - L)) * 2 ^ L + y mod m"
    using eq uint_tx_cipher_count [OF assms(1,2), of i] uint_tx_cipher_count [OF assms(1,2), of j]
    by (simp only: x_def y_def m_def L_def)
  moreover have "x mod m < 2 ^ L" "y mod m < 2 ^ L"
    using m by (auto intro: less_le_trans [OF pos_mod_bound])
  ultimately have HS: "(x + 1) div m mod 2 ^ (32 - L) = (y + 1) div m mod 2 ^ (32 - L) \<and> x mod m = y mod m"
    using m by (intro pow_pos_split [of _ "2 ^ L"]) auto
  then have H: "(x + 1) div m mod 2 ^ (32 - L) = (y + 1) div m mod 2 ^ (32 - L)"
    and S: "x mod m = y mod m" by auto
  have "(x + 1) mod m = (y + 1) mod m" using S by (rule mod_add_cong) simp
  then have "(x + 1) mod (m * 2 ^ (32 - L)) = (y + 1) mod (m * 2 ^ (32 - L))"
    using m H by (intro mod_combine) auto
  then have "(m * 2 ^ (32 - L)) dvd (int j - int i)"
    by (auto simp: mod_eq_dvd_iff x_def y_def dvd_diff_commute)
  then have "m * 2 ^ (32 - L) \<le> int j - int i"
    using assms(3) by (intro zdvd_imp_le) auto
  moreover have "int j < int i + 2 ^ (32 - L + sn_bits e)"
    using assms(4) unfolding L_def by (metis of_nat_add of_nat_less_iff of_nat_numeral of_nat_power)
  ultimately show False by (simp add: m_def power_add mult.commute)
qed

section \<open>Receiver\<close>

lemma rx_window_next:
  assumes "pdcp_is_seq_num_size_valid (Some e)" "uint sn < 2 ^ sn_bits e"
  shows "rx_count (pdcp_rx_window_next sn e) = (uint (rx_hfn e) * 2 ^ sn_bits e + uint sn + 1) mod count_period e"
    "uint (next_pdcp_rx_sn (pdcp_rx_window_next sn e)) < 2 ^ sn_bits e"
    "pdcp_rx_window_next sn e = e\<lparr>next_pdcp_rx_sn := next_pdcp_rx_sn (pdcp_rx_window_next sn e),
                                 rx_hfn := rx_hfn (pdcp_rx_window_next sn e)\<rparr>"
proof -
  let ?e = "e\<lparr>next_pdcp_rx_sn := sn\<rparr>"
  have v: "pdcp_is_seq_num_size_valid (Some ?e)" and b: "sn_bits ?e = sn_bits e"
    using assms by (auto simp: pdcp_is_seq_num_size_valid_def sn_bits_def)
  have mx: "sn = pdcp_calculate_max_seq_num_for_given_size (seq_num_size e)
      \<longleftrightarrow> uint sn = 2 ^ sn_bits e - 1"
    using max_seq_num [OF assms(1)] by (metis word_uint_eqI)
  note inc = hfn_sn_increment [OF sn_bits_le [OF assms(1)] assms(2), of "rx_hfn e"]
  show "rx_count (pdcp_rx_window_next sn e) = (uint (rx_hfn e) * 2 ^ sn_bits e + uint sn + 1) mod count_period e"
    using v inc mx
    by (auto simp: pdcp_rx_window_next_def pdcp_advance_rx_window_def rx_count_def count_period_def sn_bits_def)
  show "uint (next_pdcp_rx_sn (pdcp_rx_window_next sn e)) < 2 ^ sn_bits e"
    using v inc mx
    by (auto simp: pdcp_rx_window_next_def pdcp_advance_rx_window_def sn_bits_def)
  show "pdcp_rx_window_next sn e = e\<lparr>next_pdcp_rx_sn := next_pdcp_rx_sn (pdcp_rx_window_next sn e),
                                 rx_hfn := rx_hfn (pdcp_rx_window_next sn e)\<rparr>"
    using v by (auto simp: pdcp_rx_window_next_def pdcp_advance_rx_window_def)
qed

lemma seq_num_valid_iff:
  assumes "pdcp_is_seq_num_size_valid (Some e)"
  shows "pdcp_is_seq_num_valid sn (seq_num_size e) \<longleftrightarrow> uint sn < 2 ^ sn_bits e"
  using max_seq_num [OF assms] by (auto simp: pdcp_is_seq_num_valid_def word_le_def)

lemma mark_received_eq:
  "snd (pdcp_mark_current_pdu_as_received sn e) = e\<lparr>missing_pdu_bitmap := (missing_pdu_bitmap e)
     [unat (sn div 8) := missing_pdu_bitmap e ! unat (sn div 8) OR drop_bit (unat (ucast (sn mod 8) :: 8 word)) 0x80]\<rparr>"
  by (simp add: pdcp_mark_current_pdu_as_received_def util_mark_nth_bit_of_octet_def Let_def)

text \<open>
  Reconstruction of the transmitted COUNT \<open>T\<close> from its low part: with the expected number
  \<open>h * m + nx\<close> at most \<open>m - 1\<close> behind, a low part below \<open>nx\<close> means that the high part moved.
\<close>

lemma hfn_reconstruct:
  fixes h nx m T K :: int
  assumes m: "0 < m" "0 < K" and nx: "0 \<le> nx" "nx < m" and h: "0 \<le> h" "h < K"
    and T: "0 \<le> T" "T < K * m" and near: "(T - (h * m + nx)) mod (K * m) < m"
  shows "(if T mod m < nx then (h + 1) mod K else h) * m + T mod m = T"
proof -
  define D where "D = (T - (h * m + nx)) mod (K * m)"
  have D: "0 \<le> D" "D < m" using near m by (auto simp: D_def)
  have TG: "T = (h * m + (nx + D)) mod (K * m)"
    using T by (simp add: D_def mod_simps flip: add.assoc)
  have Tm: "T mod m = (nx + D) mod m"
    by (simp add: TG mod_mod_mult)
  have hm: "(h + 1) * m \<le> K * m" using h m by (intro mult_right_mono) auto
  show ?thesis
  proof (cases "nx + D < m")
    case True
    then have low: "T mod m = nx + D" using Tm D nx by simp
    have "h * m + (nx + D) < K * m" using True hm by (simp only: distrib_right mult_1)
    then have "T = h * m + (nx + D)" using TG D nx h m by simp
    then show ?thesis using low D by simp
  next
    case False
    then have "(nx + D - m) mod m = nx + D - m" using D nx by (intro mod_pos_pos_trivial) auto
    then have low: "T mod m = nx + D - m" using Tm by simp
    have "T = ((h + 1) * m + (nx + D - m)) mod (K * m)" using TG by (simp add: algebra_simps)
    also have "\<dots> = m * (((h + 1) * m + (nx + D - m)) div m mod K) + ((h + 1) * m + (nx + D - m)) mod m"
      using m by (simp only: mult.commute [of K m] zmod_zmult2_eq order_less_imp_le)
    also have "((h + 1) * m + (nx + D - m)) div m = h + 1"
      using False D nx m by simp
    finally show ?thesis using low D nx Tm TG m by (simp add: mult.commute)
  qed
qed

lemma rx_count_split:
  assumes "uint (next_pdcp_rx_sn e) < 2 ^ sn_bits e"
  shows "uint (next_pdcp_rx_sn e) = rx_count e mod 2 ^ sn_bits e"
    "uint (rx_hfn e) = rx_count e div 2 ^ sn_bits e"
  using assms by (simp_all add: rx_count_def)

text \<open>The part of the entity the three receive procedures do not touch.\<close>

lemma rx_srb_um_step:
  assumes ok: "pdcp_entity_ok r" and sn: "uint sn < 2 ^ sn_bits r"
    and mode: "srb \<or> pdcp_rlc_mode r = RLC_MODE_UM"
  obtains r' where "pdcp_is_rx_seq_number_valid sn (Some r) srb = (True, Some r')"
    and "pdcp_entity_ok r'" and "seq_num_size r' = seq_num_size r"
    and "rx_hfn_offset r' = (if srb then 0 else rx_hfn_offset r)"
    and "rx_count r' = (uint (if sn < next_pdcp_rx_sn r then rx_hfn r + 1 else rx_hfn r) * 2 ^ sn_bits r
                        + uint sn + 1) mod count_period r"
proof -
  let ?e = "snd (pdcp_mark_current_pdu_as_received sn r)"
  let ?h = "if sn < next_pdcp_rx_sn r then rx_hfn r + 1 else rx_hfn r"
  let ?f = "if srb then ?e\<lparr>rx_hfn := ?h, rx_hfn_offset := 0, next_pdcp_rx_sn_before_integrity := next_pdcp_rx_sn r\<rparr>
            else ?e\<lparr>rx_hfn := ?h\<rparr>"
  have v: "pdcp_is_seq_num_size_valid (Some r)" using ok by (simp add: pdcp_entity_ok_def)
  have vf: "pdcp_is_seq_num_size_valid (Some ?f)" and bf: "sn_bits ?f = sn_bits r"
    using v by (auto simp: pdcp_is_seq_num_size_valid_def sn_bits_def mark_received_eq)
  have eq: "pdcp_is_rx_seq_number_valid sn (Some r) srb = (True, Some (pdcp_rx_window_next sn ?f))"
    using v sn mode seq_num_valid_iff [OF v]
    by (auto simp: pdcp_is_rx_seq_number_valid_def Let_def pdcp_rx_srb_def pdcp_rx_drb_um_def mark_received_eq)
  have snf: "uint sn < 2 ^ sn_bits ?f" using sn bf by simp
  note w = rx_window_next [OF vf snf]
  show ?thesis
  proof (rule that [OF eq])
    show "rx_count (pdcp_rx_window_next sn ?f) = (uint ?h * 2 ^ sn_bits r + uint sn + 1) mod count_period r"
      using w(1) bf by (simp add: count_period_def split: if_splits)
    show "seq_num_size (pdcp_rx_window_next sn ?f) = seq_num_size r"
      by (subst w(3)) (simp add: mark_received_eq)
    show "rx_hfn_offset (pdcp_rx_window_next sn ?f) = (if srb then 0 else rx_hfn_offset r)"
      by (subst w(3)) (simp add: mark_received_eq)
    show "pdcp_entity_ok (pdcp_rx_window_next sn ?f)"
      using ok w(2) bf
      by (subst w(3)) (auto simp: pdcp_entity_ok_def sn_bits_def pdcp_is_seq_num_size_valid_def mark_received_eq)
  qed
qed

lemma count_synchronised:
  assumes s: "pdcp_entity_ok s" and r: "pdcp_entity_ok r" and size: "seq_num_size r = seq_num_size s"
    and mode: "srb \<or> pdcp_rlc_mode r = RLC_MODE_UM" and off: "rx_hfn_offset r = 0"
    and near: "(tx_count s - rx_count r) mod count_period s < 2 ^ sn_bits s"
    and tx: "pdcp_get_next_tx_seq_number (Some s) = (sn, Some s')"
  shows "\<exists>r'. pdcp_is_rx_seq_number_valid sn (Some r) srb = (True, Some r') \<and> pdcp_entity_ok r'
     \<and> rx_count r' = tx_count s' \<and> rx_hfn_offset r' = 0
     \<and> fst (pdcp_get_next_count_rx l7 r' srb sn) = pdcp_get_next_count_tx l7 s' srb sn"
proof -
  have vs: "pdcp_is_seq_num_size_valid (Some s)" "uint (next_pdcp_tx_sn s) < 2 ^ sn_bits s"
    and vr: "uint (next_pdcp_rx_sn r) < 2 ^ sn_bits s" and b: "sn_bits r = sn_bits s"
    using s r size by (auto simp: pdcp_entity_ok_def sn_bits_def)
  note st = next_tx_step [OF vs tx]
  have sn: "uint sn < 2 ^ sn_bits r" "uint sn = tx_count s mod 2 ^ sn_bits s"
    using st(1) vs b tx_count_split(1) [OF vs(2)] by auto
  obtain r' where r': "pdcp_is_rx_seq_number_valid sn (Some r) srb = (True, Some r')"
      "pdcp_entity_ok r'" "seq_num_size r' = seq_num_size r"
      "rx_hfn_offset r' = (if srb then 0 else rx_hfn_offset r)"
      "rx_count r' = (uint (if sn < next_pdcp_rx_sn r then rx_hfn r + 1 else rx_hfn r) * 2 ^ sn_bits r
                        + uint sn + 1) mod count_period r"
    using rx_srb_um_step [OF r sn(1) mode] by metis
  have "(if uint sn < uint (next_pdcp_rx_sn r) then (uint (rx_hfn r) + 1) mod 2 ^ 32 else uint (rx_hfn r))
          * 2 ^ sn_bits s + uint sn = tx_count s"
    using hfn_reconstruct [of "2 ^ sn_bits s" "2 ^ 32" "uint (next_pdcp_rx_sn r)" "uint (rx_hfn r)" "tx_count s"]
      near vr tx_count_lt_period [OF vs(2)] uint_lt2p [of "rx_hfn r"] sn(2) b
    by (simp add: rx_count_def count_period_def)
  then have "uint (if sn < next_pdcp_rx_sn r then rx_hfn r + 1 else rx_hfn r) * 2 ^ sn_bits s + uint sn = tx_count s"
    by (simp only: uint_inc_32 word_less_def if_distrib [of uint])
  then have cnt: "rx_count r' = tx_count s'"
    using r'(5) st(4) b by (simp add: count_period_def)
  have "rx_hfn r' = tx_hfn s'"
  proof (rule word_uint_eqI)
    have "uint (next_pdcp_tx_sn s') < 2 ^ sn_bits s'" "uint (next_pdcp_rx_sn r') < 2 ^ sn_bits r'"
      using st(2,3) r'(2) by (auto simp: pdcp_entity_ok_def sn_bits_def)
    then show "uint (rx_hfn r') = uint (tx_hfn s')"
      using tx_count_split(2) rx_count_split(2) cnt r'(3) size st(2) by (metis sn_bits_def)
  qed
  then have "fst (pdcp_get_next_count_rx l7 r' srb sn) = pdcp_get_next_count_tx l7 s' srb sn"
    using r'(3,4) off size st(2)
    by (simp add: pdcp_get_next_count_rx_def pdcp_get_next_count_tx_def Let_def)
  then show ?thesis using r' cnt off by auto
qed

text \<open>
  C24. Transmitter and receiver of an SRB, or of a DRB over RLC UM, stay synchronised as long as
  fewer than one sequence-number cycle of PDUs is lost: the PDU is accepted, the receiver's
  expected COUNT becomes the transmitter's, and the COUNT used for deciphering equals the one
  used for ciphering.
\<close>
theorem pdcp_count_synchronised:
  assumes s: "pdcp_entity_ok s" and r: "pdcp_entity_ok r" and size: "seq_num_size r = seq_num_size s"
    and mode: "srb \<or> pdcp_rlc_mode r = RLC_MODE_UM" and off: "rx_hfn_offset r = 0"
    and near: "(tx_count s - rx_count r) mod count_period s < 2 ^ sn_bits s"
    and tx: "pdcp_get_next_tx_seq_number (Some s) = (sn, Some s')"
  shows "\<exists>r'. pdcp_is_rx_seq_number_valid sn (Some r) srb = (True, Some r') \<and> pdcp_entity_ok r'
     \<and> rx_count r' = tx_count s' \<and> rx_hfn_offset r' = 0
     \<and> fst (pdcp_get_next_count_rx l7 r' srb sn) = pdcp_get_next_count_tx l7 s' srb sn"
  by (rule count_synchronised [OF assms])

text \<open>A zeroed entity, as the entity pool holds it before configuration, with its size and mode set.\<close>

definition pdcp_zero_entity :: "8 word \<Rightarrow> rlc_mode \<Rightarrow> pdcp_t" where
  "pdcp_zero_entity sz mode =
     \<lparr>header_compression_profile = 0, is_ue = False, is_srb = False, cipheringAlgorithm = 0,
      integrityProtAlgorithm = 0, kUPenc = None, kRRCint = None, kRRCenc = None,
      security_activated = 0, pdcp_rlc_mode = mode, status_report = 0, seq_num_size = sz,
      pdcp_lcid = 0, pdcp_rb_id = 0, next_pdcp_tx_sn = 0, next_pdcp_rx_sn = 0,
      next_pdcp_rx_sn_before_integrity = 0, tx_hfn = 0, rx_hfn = 0, rx_hfn_offset = 0,
      last_submitted_pdcp_rx_sn = 0, missing_pdu_bitmap = replicate 512 0, first_missing_pdu = 0\<rparr>"

lemma pdcp_zero_entity_ok:
  "sz \<in> {5, 7, 12} \<Longrightarrow> pdcp_entity_ok (pdcp_zero_entity sz mode)"
  by (auto simp: pdcp_entity_ok_def pdcp_zero_entity_def pdcp_is_seq_num_size_valid_def sn_bits_def)

theorem pdcp_tx_count_no_reuse_witness:
  "pdcp_tx_cipher_count 0 False 3 (pdcp_zero_entity 12 RLC_MODE_AM)
     \<noteq> pdcp_tx_cipher_count 0 False 4095 (pdcp_zero_entity 12 RLC_MODE_AM)"
  by (rule pdcp_tx_count_no_reuse)
     (simp_all add: pdcp_zero_entity_ok, simp_all add: count_layout_def pdcp_zero_entity_def sn_bits_def)

theorem pdcp_count_synchronised_witness:
  "\<exists>r'. pdcp_is_rx_seq_number_valid 0 (Some (pdcp_zero_entity 12 RLC_MODE_UM)) False = (True, Some r')
     \<and> pdcp_entity_ok r'
     \<and> rx_count r' = tx_count ((pdcp_zero_entity 12 RLC_MODE_UM)\<lparr>next_pdcp_tx_sn := 1\<rparr>)
     \<and> rx_hfn_offset r' = 0
     \<and> fst (pdcp_get_next_count_rx 0 r' False 0)
        = pdcp_get_next_count_tx 0 ((pdcp_zero_entity 12 RLC_MODE_UM)\<lparr>next_pdcp_tx_sn := 1\<rparr>) False 0"
proof (rule pdcp_count_synchronised [of "pdcp_zero_entity 12 RLC_MODE_UM"])
  show "pdcp_get_next_tx_seq_number (Some (pdcp_zero_entity 12 RLC_MODE_UM))
      = (0, Some ((pdcp_zero_entity 12 RLC_MODE_UM)\<lparr>next_pdcp_tx_sn := 1\<rparr>))"
    by (simp add: pdcp_get_next_tx_seq_number_def pdcp_is_seq_num_size_valid_def pdcp_zero_entity_def
        pdcp_calculate_max_seq_num_for_given_size_def)
qed (simp_all add: pdcp_zero_entity_ok, simp_all add: pdcp_zero_entity_def tx_count_def rx_count_def sn_bits_def)

subsection \<open>DRBs over RLC AM\<close>

text \<open>
  Over RLC AM, with 12-bit sequence numbers, in-order reception is accepted and stays
  synchronised through every wrap of the sequence number: when the last delivered PDU is the
  predecessor of the expected one, the expected PDU is accepted, the expected COUNT advances by
  one and the PDU is deciphered with the current hyper frame number.
\<close>
theorem pdcp_am_in_order:
  assumes r: "pdcp_entity_ok r" "seq_num_size r = 12" "pdcp_rlc_mode r = RLC_MODE_AM"
    and last: "uint (last_submitted_pdcp_rx_sn r) = (uint (next_pdcp_rx_sn r) - 1) mod 4096"
  shows "\<exists>r'. pdcp_is_rx_seq_number_valid (next_pdcp_rx_sn r) (Some r) False = (True, Some r')
     \<and> pdcp_entity_ok r' \<and> rx_hfn_offset r' = 0
     \<and> rx_count r' = (rx_count r + 1) mod count_period r"
proof -
  let ?sn = "next_pdcp_rx_sn r"
  let ?e = "(snd (pdcp_mark_current_pdu_as_received ?sn r))\<lparr>rx_hfn_offset := 0\<rparr>"
  have v: "pdcp_is_seq_num_size_valid (Some r)" and sn: "uint ?sn < 2 ^ sn_bits r"
    and b: "sn_bits r = 12"
    using r by (auto simp: pdcp_entity_ok_def sn_bits_def)
  have ve: "pdcp_is_seq_num_size_valid (Some ?e)" and be: "sn_bits ?e = sn_bits r"
    using v by (auto simp: pdcp_is_seq_num_size_valid_def sn_bits_def mark_received_eq)
  have "uint ?sn < 4096" using sn b by simp
  moreover have "1 \<le> uint ?sn \<or> uint ?sn = 0" using uint_ge_0 [of ?sn] by linarith
  ultimately have "uint (last_submitted_pdcp_rx_sn r) = (if uint ?sn = 0 then 4095 else uint ?sn - 1)"
    using last mod_diff_wrap [of "uint ?sn" 4096 1] by (auto split: if_splits)
  then have eq: "pdcp_is_rx_seq_number_valid ?sn (Some r) False = (True, Some (pdcp_rx_window_next ?sn ?e))"
    using v sn r seq_num_valid_iff [OF v]
    by (auto simp: pdcp_is_rx_seq_number_valid_def Let_def pdcp_rx_drb_am_def mark_received_eq)
  have sne: "uint ?sn < 2 ^ sn_bits ?e" using sn be by simp
  note w = rx_window_next [OF ve sne]
  have "rx_count (pdcp_rx_window_next ?sn ?e) = (rx_count r + 1) mod count_period r"
    using w(1) be by (simp add: rx_count_def count_period_def mark_received_eq add_ac)
  moreover have "rx_hfn_offset (pdcp_rx_window_next ?sn ?e) = 0"
    by (subst w(3)) simp
  moreover have "pdcp_entity_ok (pdcp_rx_window_next ?sn ?e)"
    using r w(2) be
    by (subst w(3)) (auto simp: pdcp_entity_ok_def sn_bits_def pdcp_is_seq_num_size_valid_def mark_received_eq)
  ultimately show ?thesis using eq by blast
qed

theorem pdcp_am_in_order_witness:
  "\<exists>r'. pdcp_is_rx_seq_number_valid 0
       (Some ((pdcp_zero_entity 12 RLC_MODE_AM)\<lparr>last_submitted_pdcp_rx_sn := 4095\<rparr>)) False = (True, Some r')
     \<and> pdcp_entity_ok r' \<and> rx_hfn_offset r' = 0 \<and> rx_count r' = 1"
proof -
  let ?r = "(pdcp_zero_entity 12 RLC_MODE_AM)\<lparr>last_submitted_pdcp_rx_sn := 4095\<rparr>"
  have "pdcp_entity_ok ?r"
    by (simp add: pdcp_entity_ok_def pdcp_zero_entity_def pdcp_is_seq_num_size_valid_def sn_bits_def)
  then show ?thesis
    using pdcp_am_in_order [of ?r]
    by (simp add: pdcp_zero_entity_def rx_count_def count_period_def sn_bits_def)
qed

text \<open>A receiver over RLC AM that expects sequence number 4094, the last delivered one being 4093.\<close>

definition pdcp_am_before_wrap :: pdcp_t where
  "pdcp_am_before_wrap =
     (pdcp_zero_entity 12 RLC_MODE_AM)\<lparr>next_pdcp_rx_sn := 4094, last_submitted_pdcp_rx_sn := 4093\<rparr>"

text \<open>
  When RLC AM PDUs are lost across a wrap of the sequence number, the code increments
  \<open>next_pdcp_rx_sn\<close> instead of setting it after the received number, so that the branch that
  increments the hyper frame number is taken again for the following PDU: two PDUs in sequence
  after the wrap move the receiver two hyper frames ahead, and the COUNT used for deciphering the
  second one is a whole hyper frame beyond the one it was ciphered with.
\<close>
theorem pdcp_am_wrap_loss_desynchronises:
  "\<exists>r1 r2. pdcp_is_rx_seq_number_valid 0 (Some pdcp_am_before_wrap) False = (True, Some r1)
     \<and> pdcp_is_rx_seq_number_valid 1 (Some (r1\<lparr>last_submitted_pdcp_rx_sn := 0\<rparr>)) False = (True, Some r2)
     \<and> rx_hfn pdcp_am_before_wrap = 0 \<and> rx_hfn r1 = 1 \<and> rx_hfn r2 = 2 \<and> next_pdcp_rx_sn r2 = 4096
     \<and> fst (pdcp_get_next_count_rx 0 r2 False 1) = 2 * 4096 + 1"
proof -
  have e1: "pdcp_is_rx_seq_number_valid 0 (Some pdcp_am_before_wrap) False
      = (True, Some (pdcp_am_before_wrap\<lparr>missing_pdu_bitmap := (replicate 512 0)[0 := 0x80], rx_hfn := 1, rx_hfn_offset := 0,
                        next_pdcp_rx_sn := 4095\<rparr>))"
    by (simp add: pdcp_is_rx_seq_number_valid_def pdcp_am_before_wrap_def pdcp_zero_entity_def pdcp_is_seq_num_size_valid_def
        pdcp_is_seq_num_valid_def pdcp_rx_drb_am_def mark_received_eq Let_def)
  let ?r1 = "pdcp_am_before_wrap\<lparr>missing_pdu_bitmap := (replicate 512 0)[0 := 0x80], rx_hfn := 1, rx_hfn_offset := 0,
                next_pdcp_rx_sn := 4095\<rparr>"
  let ?m = "snd (pdcp_mark_current_pdu_as_received 1 (?r1\<lparr>last_submitted_pdcp_rx_sn := 0\<rparr>))"
  have e2: "pdcp_is_rx_seq_number_valid 1 (Some (?r1\<lparr>last_submitted_pdcp_rx_sn := 0\<rparr>)) False
      = (True, Some (?m\<lparr>rx_hfn := 2, rx_hfn_offset := 0, next_pdcp_rx_sn := 4096\<rparr>))"
    by (simp add: pdcp_is_rx_seq_number_valid_def pdcp_am_before_wrap_def pdcp_zero_entity_def pdcp_is_seq_num_size_valid_def
        pdcp_is_seq_num_valid_def pdcp_rx_drb_am_def mark_received_eq Let_def
        pdcp_calculate_max_seq_num_for_given_size_def)
  show ?thesis
    by (rule exI [of _ ?r1], rule exI [of _ "?m\<lparr>rx_hfn := 2, rx_hfn_offset := 0, next_pdcp_rx_sn := 4096\<rparr>"])
       (simp add: e1 e2, simp add: pdcp_am_before_wrap_def pdcp_zero_entity_def pdcp_get_next_count_rx_def mark_received_eq)
qed

subsection \<open>Reception bitmap\<close>

definition sn_received :: "pdcp_t \<Rightarrow> 16 word \<Rightarrow> bool" where
  "sn_received e sn \<longleftrightarrow> bit (missing_pdu_bitmap e ! unat (sn div 8)) (7 - unat (sn mod 8))"

lemma bit_0x80: "i < 8 \<Longrightarrow> k < 8 \<Longrightarrow> bit (drop_bit i (0x80 :: byte)) (7 - k) \<longleftrightarrow> i = k"
  by (auto simp: bit_drop_bit_eq bit_0x80_iff)

lemma unat_mod_8: "unat ((sn :: 16 word) mod 8) = unat sn mod 8" "unat (sn div 8) = unat sn div 8"
  by (simp_all add: unat_mod unat_div)

text \<open>
  Marking a valid sequence number writes inside the 512-octet bitmap, sets exactly the bit
  of that number and changes nothing else of the entity.
\<close>
theorem pdcp_mark_received:
  assumes "pdcp_entity_ok e" "uint sn < 2 ^ sn_bits e" "uint sn' < 2 ^ sn_bits e"
  shows "unat (sn div 8) < length (missing_pdu_bitmap e)
    \<and> (sn_received (snd (pdcp_mark_current_pdu_as_received sn e)) sn'
         \<longleftrightarrow> sn' = sn \<or> sn_received e sn')
    \<and> (snd (pdcp_mark_current_pdu_as_received sn e))\<lparr>missing_pdu_bitmap := missing_pdu_bitmap e\<rparr> = e"
proof -
  have "(2::int) ^ sn_bits e \<le> 4096" using assms(1) two_pow_sn_le by (auto simp: pdcp_entity_ok_def)
  then have b: "unat sn < 4096" "unat sn' < 4096" using assms by (simp_all add: nat_less_iff flip: nat_uint_eq)
  have len: "length (missing_pdu_bitmap e) = 512" using assms by (simp add: pdcp_entity_ok_def)
  have idx: "unat (sn div 8) < 512" using b by (simp add: unat_mod_8)
  have uc: "unat (ucast (sn mod 8) :: byte) = unat (sn mod 8)"
    by (simp add: unsigned_ucast_eq unat_mod_8 take_bit_nat_eq_self)
  have "sn' = sn \<longleftrightarrow> unat (sn div 8) = unat (sn' div 8) \<and> unat (sn mod 8) = unat (sn' mod 8)"
    unfolding unat_mod_8 by (metis div_mult_mod_eq word_unat_eq_iff)
  moreover have "unat (sn mod 8) < 8" "unat (sn' mod 8) < 8" by (simp_all add: unat_mod_8)
  ultimately show ?thesis
    using len idx uc by (auto simp: sn_received_def mark_received_eq bit_or_iff bit_0x80 nth_list_update)
qed

theorem pdcp_mark_received_witness:
  "sn_received (snd (pdcp_mark_current_pdu_as_received 9 (pdcp_zero_entity 12 RLC_MODE_UM))) 9"
proof -
  have "uint (9 :: 16 word) < 2 ^ sn_bits (pdcp_zero_entity 12 RLC_MODE_UM)"
    by (simp add: pdcp_zero_entity_def sn_bits_def)
  then show ?thesis
    using pdcp_mark_received [of "pdcp_zero_entity 12 RLC_MODE_UM" 9 9] pdcp_zero_entity_ok by simp
qed

section \<open>Header round trips\<close>

lemma long_sn_octets:
  "push_bit 8 (ucast ((ucast (drop_bit 8 w AND 0xFF) :: byte) AND 0x0F)) OR ucast ((ucast (w AND 0xFF) :: byte) AND 0xFF)
     = (w :: 16 word) AND 0x0FFF"
  "push_bit 8 (ucast (((ucast (drop_bit 8 w AND 0xFF) :: byte) OR 0x80) AND 0x0F)) OR ucast ((ucast (w AND 0xFF) :: byte) AND 0xFF)
     = (w :: 16 word) AND 0x0FFF"
  by (rule bit_word_eqI, auto simp: byte_masks bit_simps bit_0x80_iff)+

lemma high_bits_of_12bit: "uint (w :: 16 word) < 4096 \<Longrightarrow> 12 \<le> n \<Longrightarrow> \<not> bit w n"
proof -
  assume w: "uint w < 4096" and n: "12 \<le> n"
  have "w = take_bit 12 w" using sn_and_mask [of w 12] w by (simp add: take_bit_eq_mask)
  then show ?thesis using n by (metis bit_take_bit_iff leD)
qed

lemma long_sn_header:
  assumes "pdcp_serialize_user_plane_data_pdu_with_long_sn_buffer (Some m) (Some h) = (ok, Some m')"
  shows "ok \<and> pdcp_get_sequence_number_of_pdu_with_long_sn (Some m') = up_sn h AND 0x0FFF
     \<and> (uint (up_sn h) < 4096 \<longrightarrow> (bit (m' 0) 7 \<longleftrightarrow> up_dc h = 1))
     \<and> (\<forall>i\<ge>2. m' i = m i)"
proof -
  have m': "m' 0 = ucast (drop_bit 8 (up_sn h) AND 0xFF) OR (if up_dc h = 1 then 0x80 else 0)"
    "m' 1 = ucast (up_sn h AND 0xFF)" "\<forall>i\<ge>2. m' i = m i" and ok
    using assms
    by (auto simp: pdcp_serialize_user_plane_data_pdu_with_long_sn_buffer_def Let_def)
  moreover have "pdcp_get_sequence_number_of_pdu_with_long_sn (Some m') = up_sn h AND 0x0FFF"
    using m'(1,2) long_sn_octets [of "up_sn h"]
    by (auto simp: pdcp_get_sequence_number_of_pdu_with_long_sn_def Let_def split: if_splits)
  moreover have "bit (m' 0) 7 \<longleftrightarrow> up_dc h = 1" if "uint (up_sn h) < 4096"
    using high_bits_of_12bit [OF that, of 15]
    by (auto simp: m'(1) byte_masks bit_simps bit_0x80_iff)
  ultimately show ?thesis by simp
qed

text \<open>
  The 12-bit user-plane header: the parser returns the serialised sequence number (reduced
  to 12 bits) whatever the D/C field; for a number of 12 bits the top bit of the first octet is
  the D/C field; and no octet beyond the two header octets is written.
\<close>
theorem pdcp_long_sn_roundtrip:
  assumes "pdcp_serialize_user_plane_data_pdu_with_long_sn_buffer (Some m) (Some h) = (ok, Some m')"
  shows "ok \<and> pdcp_get_sequence_number_of_pdu_with_long_sn (Some m') = up_sn h AND 0x0FFF
     \<and> (uint (up_sn h) < 4096 \<longrightarrow> (bit (m' 0) 7 \<longleftrightarrow> up_dc h = 1))
     \<and> (\<forall>i\<ge>2. m' i = m i)"
  by (rule long_sn_header [OF assms])

theorem pdcp_long_sn_roundtrip_witness:
  "pdcp_get_sequence_number_of_pdu_with_long_sn
     (snd (pdcp_serialize_user_plane_data_pdu_with_long_sn_buffer (Some (\<lambda>i. 0))
        (Some \<lparr>up_dc = 1, up_sn = 0x123\<rparr>))) = 0x123"
proof -
  let ?s = "pdcp_serialize_user_plane_data_pdu_with_long_sn_buffer (Some (\<lambda>i. 0)) (Some \<lparr>up_dc = 1, up_sn = 0x123\<rparr>)"
  obtain ok m' where s: "?s = (ok, Some m')"
    by (simp add: pdcp_serialize_user_plane_data_pdu_with_long_sn_buffer_def Let_def)
  show ?thesis using pdcp_long_sn_roundtrip [OF s] s by simp
qed

text \<open>The single-octet headers of SRBs.\<close>

lemma pdcp_srb_sn_roundtrip:
  "pdcp_get_sequence_number_of_pdu_with_SRB_sn
     (snd (pdcp_serialize_control_plane_data_pdu_with_SRB_sn_buffer (Some m) (Some h))) = cp_sn h AND 0x1F"
  by (simp add: pdcp_get_sequence_number_of_pdu_with_SRB_sn_def and.assoc
      pdcp_serialize_control_plane_data_pdu_with_SRB_sn_buffer_def)

lemma pdcp_get_dc_filed_zero: "pdcp_get_dc_filed p = 0"
proof -
  have "drop_bit 8 (ucast (x :: byte) :: 32 word) = 0" for x
    by (rule bit_word_eqI) (auto simp: bit_simps dest: bit_imp_le_length)
  then show ?thesis by (cases p) (simp_all add: pdcp_get_dc_filed_def)
qed

end
