(* ===== verification/Rlc_Layer.thy ===== *)
theory Rlc_Layer
  imports Hash_Table Rlc_Tm Pdcp_Seq
begin

text \<open>
  The RLC layer (\<open>rlc.c\<close>, \<open>rlc_mac.c\<close>, \<open>rlc_rrc.c\<close>): the hash table of entities, the primitives of PDCP, MAC and RRC
  that look an entity up and call the operation of its mode. The table maps a key to the address of an entity, and an
  entity has two keys, one by radio bearer and one by logical channel: \<open>rlc_objs\<close> is the store of the entities. An
  access to a released or unallocated entity, through NULL, out of the bounds of an array, or to the wrong member of the
  union is undefined in C and \<open>None\<close> here. The entity of acknowledged mode and its operations are parameters.

  The lemmas show which entity an operation reaches, that it leaves the others alone, and that the keys of different
  bearers differ.
\<close>

section \<open>State\<close>

datatype 'am rlc_union = Rlc_none | Rlc_am 'am | Rlc_um rlc_um_entity | Rlc_tm rlc_tm_entity

datatype rlc_op_status =
  RLC_OP_STATUS_OK | RLC_OP_STATUS_BAD_PARAMETER | RLC_OP_STATUS_INTERNAL_ERROR | RLC_OP_STATUS_OUT_OF_RESSOURCES

text \<open>The tables of multicast: service and session of a logical channel, logical channel of a bearer.\<close>

record 'am rlc_layer =
  rlc_coll_p :: "nat hash_table option"
  rlc_objs :: "nat \<Rightarrow> 'am rlc_union option"
  rlc_brk :: nat
  lcid2service_session_id_ue :: "nat \<Rightarrow> nat \<Rightarrow> 16 word \<times> 32 word"
  lcid2service_session_id_eNB :: "nat \<Rightarrow> nat \<Rightarrow> 16 word \<times> 32 word"
  rbid2lcid_ue :: "nat \<Rightarrow> nat \<Rightarrow> 32 word"
  rbid2lcid_eNB :: "nat \<Rightarrow> nat \<Rightarrow> 32 word"

record ('am, 'ai, 'aa) am_ops =
  am_zero :: 'am
  am_channel_id :: "'am \<Rightarrow> 32 word"
  rlc_am_cleanup :: "'am \<Rightarrow> 'am"
  rlc_am_data_req :: "protocol_ctxt \<Rightarrow> byte list \<Rightarrow> 32 word \<Rightarrow> 32 word \<Rightarrow> 'am \<Rightarrow> 'am option"
  rlc_am_mac_status_indication :: "protocol_ctxt \<Rightarrow> int \<Rightarrow> 'am \<Rightarrow> (mac_status_resp \<times> 'am) option"
  rlc_am_set_nb_bytes_requested_by_mac :: "int \<Rightarrow> 'am \<Rightarrow> 'am"
  rlc_am_mac_data_request :: "protocol_ctxt \<Rightarrow> 'am \<Rightarrow> (mac_tb_req list \<times> 'am) option"
  rlc_am_mac_data_indication :: "protocol_ctxt \<Rightarrow> mac_tb_ind list \<Rightarrow> 'am \<Rightarrow> 'am option"
  rlc_am_get_buffer_occupancy_in_bytes :: "protocol_ctxt \<Rightarrow> 'am \<Rightarrow> int \<times> 'am"
  am_config :: "protocol_ctxt \<Rightarrow> bool \<Rightarrow> 'ai \<Rightarrow> 16 word \<Rightarrow> 32 word \<Rightarrow> 'am \<Rightarrow> 'am"
  am_config_asn1 :: "protocol_ctxt \<Rightarrow> bool \<Rightarrow> 'aa \<Rightarrow> 16 word \<Rightarrow> 32 word \<Rightarrow> 'am \<Rightarrow> 'am"
  am_default_asn1 :: 'aa

text \<open>Constants of the default build; those of ASN.1 are the ones of the specification (\<open>maxDRB\<close> 11, \<open>maxSessionPerPMCH\<close> 29,
  \<open>maxServiceCount\<close> 16, \<open>DRB-Identity\<close> up to 32).\<close>

abbreviation (input) NB_RB_MAX :: nat where "NB_RB_MAX \<equiv> 14"
abbreviation (input) NB_RB_MBMS_MAX :: nat where "NB_RB_MBMS_MAX \<equiv> 464"
abbreviation (input) RLC_MAX_MBMS_LC :: nat where "RLC_MAX_MBMS_LC \<equiv> 464"
abbreviation (input) RLC_MAX_LC :: nat where "RLC_MAX_LC \<equiv> 528"
abbreviation (input) MAX_MOBILES :: nat where "MAX_MOBILES \<equiv> 16"
abbreviation (input) MAX_eNB :: nat where "MAX_eNB \<equiv> 2"

definition RLC_COLL_KEY_LCID_VALUE :: "16 word \<Rightarrow> 16 word \<Rightarrow> bool \<Rightarrow> 32 word \<Rightarrow> bool \<Rightarrow> 64 word" where
  "RLC_COLL_KEY_LCID_VALUE enb_id rnti_v is_enb lc srb =
     ucast enb_id OR push_bit 8 (ucast rnti_v) OR push_bit 24 (of_bool is_enb)
     OR push_bit 25 (ucast lc) OR push_bit 33 (of_bool srb) OR push_bit 34 0x0a"

definition RLC_COLL_KEY_LCID_SOURCE_DEST_VALUE :: "16 word \<Rightarrow> 16 word \<Rightarrow> bool \<Rightarrow> 32 word \<Rightarrow> 32 word \<Rightarrow> 64 word" where
  "RLC_COLL_KEY_LCID_SOURCE_DEST_VALUE enb_id rnti_v is_enb lc dest =
     ucast enb_id OR push_bit 8 (ucast rnti_v) OR push_bit 24 (of_bool is_enb)
     OR push_bit 25 (ucast lc) OR push_bit 33 (ucast dest) OR push_bit 57 0x0a"

definition rb_key :: "protocol_ctxt \<Rightarrow> 16 word \<Rightarrow> bool \<Rightarrow> 64 word" where
  "rb_key ctxt rb srb = RLC_COLL_KEY_VALUE (module_id ctxt) (rnti ctxt) (enb_flag ctxt) rb srb"

definition lc_key :: "protocol_ctxt \<Rightarrow> 32 word \<Rightarrow> bool \<Rightarrow> 64 word" where
  "lc_key ctxt lc srb = RLC_COLL_KEY_LCID_VALUE (module_id ctxt) (rnti ctxt) (enb_flag ctxt) lc srb"

definition mbms_key :: "protocol_ctxt \<Rightarrow> 16 word \<times> 32 word \<Rightarrow> 64 word" where
  "mbms_key ctxt ids = RLC_COLL_KEY_MBMS_VALUE (module_id ctxt) (rnti ctxt) (enb_flag ctxt) (fst ids) (snd ids)"

definition rlc_deref :: "'am rlc_layer \<Rightarrow> nat option \<Rightarrow> (nat \<times> 'am rlc_union) option" where
  "rlc_deref s d = (case d of None \<Rightarrow> None | Some a \<Rightarrow> (case rlc_objs s a of None \<Rightarrow> None | Some u \<Rightarrow> Some (a, u)))"

definition rlc_store :: "nat \<Rightarrow> 'am rlc_union \<Rightarrow> 'am rlc_layer \<Rightarrow> 'am rlc_layer" where
  "rlc_store a u s = s\<lparr>rlc_objs := (rlc_objs s)(a \<mapsto> u)\<rparr>"

fun union_mode :: "'am rlc_union \<Rightarrow> rlc_mode" where
  "union_mode Rlc_none = RLC_MODE_NONE"
| "union_mode (Rlc_am _) = RLC_MODE_AM"
| "union_mode (Rlc_um _) = RLC_MODE_UM"
| "union_mode (Rlc_tm _) = RLC_MODE_TM"

section \<open>Creation and release\<close>

fun union_cleanup :: "('am, 'ai, 'aa) am_ops \<Rightarrow> 'am rlc_union \<Rightarrow> 'am rlc_union" where
  "union_cleanup ops (Rlc_am e) = Rlc_am (rlc_am_cleanup ops e)"
| "union_cleanup ops (Rlc_um e) = Rlc_um (rlc_um_cleanup e)"
| "union_cleanup ops (Rlc_tm e) = Rlc_tm (rlc_tm_cleanup e)"
| "union_cleanup ops Rlc_none = Rlc_none"

definition rb_free_rlc_union :: "('am, 'ai, 'aa) am_ops \<Rightarrow> nat \<Rightarrow> 'am rlc_layer \<Rightarrow> 'am rlc_layer option" where
  "rb_free_rlc_union ops a s = (case rlc_objs s a of None \<Rightarrow> None | Some u \<Rightarrow> Some (rlc_store a (union_cleanup ops u) s))"

text \<open>The table calls \<open>rb_free_rlc_union\<close> on the data it drops: the pointers an operation on the table has passed to its
  \<open>freefunc\<close> are the new entries of \<open>freed\<close>.\<close>

definition ht_freed :: "nat hash_table option \<Rightarrow> nat list" where
  "ht_freed tp = (case tp of None \<Rightarrow> [] | Some t \<Rightarrow> freed t)"

definition set_coll :: "('am, 'ai, 'aa) am_ops \<Rightarrow> nat hash_table option \<Rightarrow> 'am rlc_layer \<Rightarrow> 'am rlc_layer option" where
  "set_coll ops tp s =
     ofold (rb_free_rlc_union ops) (drop (length (ht_freed (rlc_coll_p s))) (ht_freed tp)) (s\<lparr>rlc_coll_p := tp\<rparr>)"

definition coll_insert :: "('am, 'ai, 'aa) am_ops \<Rightarrow> bool \<Rightarrow> 64 word \<Rightarrow> nat \<Rightarrow> 'am rlc_layer \<Rightarrow> (hashtable_rc \<times> 'am rlc_layer) option" where
  "coll_insert ops malloc_ok key a s =
     (case hashtable_insert malloc_ok (rlc_coll_p s) key (Some a) of (rc, tp) \<Rightarrow> map_option (Pair rc) (set_coll ops tp s))"

definition coll_remove :: "('am, 'ai, 'aa) am_ops \<Rightarrow> 64 word \<Rightarrow> 'am rlc_layer \<Rightarrow> (hashtable_rc \<times> 'am rlc_layer) option" where
  "coll_remove ops key s =
     (case hashtable_remove (rlc_coll_p s) key of (rc, tp) \<Rightarrow> map_option (Pair rc) (set_coll ops tp s))"

text \<open>\<open>NUMBER_OF_eNB_MAX\<close> is 1 for the USRP targets and 7 by default, the tables have \<open>MAX_eNB\<close> rows.\<close>

definition rlc_module_init :: "nat \<Rightarrow> bool \<Rightarrow> bool \<Rightarrow> 64 word \<Rightarrow> 'am rlc_layer \<Rightarrow> (int \<times> 'am rlc_layer) option" where
  "rlc_module_init nb_eNB_max malloc_ok calloc_ok fresh s =
     (let s1 = s\<lparr>rlc_coll_p := hashtable_create ((11 + 2) * 16) None malloc_ok calloc_ok fresh\<rparr> in
      if rlc_coll_p s1 = None then Some (-1, s1)
      else if MAX_eNB < nb_eNB_max then None
      else
        Some (0, s1\<lparr>lcid2service_session_id_ue := (\<lambda>m k. if m < MAX_MOBILES \<and> k < RLC_MAX_MBMS_LC then (0, 0) else lcid2service_session_id_ue s1 m k),
               rbid2lcid_ue := (\<lambda>m k. if m < MAX_MOBILES \<and> k < NB_RB_MBMS_MAX then 0 else rbid2lcid_ue s1 m k),
               lcid2service_session_id_eNB := (\<lambda>m k. if m < nb_eNB_max \<and> k < RLC_MAX_MBMS_LC then (0, 0) else lcid2service_session_id_eNB s1 m k),
               rbid2lcid_eNB := (\<lambda>m k. if m < nb_eNB_max \<and> k < NB_RB_MBMS_MAX then 0 else rbid2lcid_eNB s1 m k)\<rparr>))"

definition rlc_module_cleanup :: "('am, 'ai, 'aa) am_ops \<Rightarrow> 'am rlc_layer \<Rightarrow> 'am rlc_layer option" where
  "rlc_module_cleanup ops s =
     (case hashtable_destroy (rlc_coll_p s) of (rc, fs) \<Rightarrow>
        ofold (rb_free_rlc_union ops) (drop (length (ht_freed (rlc_coll_p s))) fs) (s\<lparr>rlc_coll_p := None\<rparr>))"

text \<open>The multicast identifiers of a bearer; \<open>idx\<close> is the row of the tables.\<close>

definition mbms_lcid_by_rb :: "'am rlc_layer \<Rightarrow> bool \<Rightarrow> nat \<Rightarrow> nat \<Rightarrow> nat option" where
  "mbms_lcid_by_rb s enb idx rb =
     (if NB_RB_MBMS_MAX \<le> rb \<or> (if enb then MAX_eNB else MAX_MOBILES) \<le> idx then None
      else let lc = unat (if enb then rbid2lcid_eNB s idx rb else rbid2lcid_ue s idx rb) in
        if RLC_MAX_MBMS_LC \<le> lc then None else Some lc)"

fun mode_zero :: "('am, 'ai, 'aa) am_ops \<Rightarrow> rlc_mode \<Rightarrow> 'am rlc_union" where
  "mode_zero ops RLC_MODE_NONE = Rlc_none"
| "mode_zero ops RLC_MODE_AM = Rlc_am (am_zero ops)"
| "mode_zero ops RLC_MODE_UM = Rlc_um rlc_um_zero"
| "mode_zero ops RLC_MODE_TM = Rlc_tm rlc_tm_zero"

text \<open>The allocation outcomes of \<open>rrc_rlc_add_rlc\<close>: \<open>calloc\<close> of the entity, \<open>malloc\<close> of the two nodes.\<close>

record add_env =
  calloc_union_ok :: bool
  malloc_rb_ok :: bool
  malloc_lc_ok :: bool

definition rlc_add_new ::
  "('am, 'ai, 'aa) am_ops \<Rightarrow> add_env \<Rightarrow> 64 word \<Rightarrow> 64 word \<Rightarrow> rlc_mode \<Rightarrow> 'am rlc_layer \<Rightarrow> (nat option \<times> 'am rlc_layer) option" where
  "rlc_add_new ops env key key_lcid mode s =
     (if \<not> calloc_union_ok env then None
      else do {
        let a = rlc_brk s;
        let s1 = (rlc_store a Rlc_none s)\<lparr>rlc_brk := Suc a\<rparr>;
        (h_rc, s2) \<leftarrow> coll_insert ops (malloc_rb_ok env) key a s1;
        (h_lcid_rc, s3) \<leftarrow> coll_insert ops (malloc_lc_ok env) key_lcid a s2;
        if h_rc = HASH_TABLE_OK \<and> h_lcid_rc = HASH_TABLE_OK
        then Some (Some a, rlc_store a (mode_zero ops mode) s3)
        else Some (None, s3\<lparr>rlc_objs := (rlc_objs s3)(a := None)\<rparr>)
      })"

definition rrc_rlc_add_rlc ::
  "('am, 'ai, 'aa) am_ops \<Rightarrow> add_env \<Rightarrow> protocol_ctxt \<Rightarrow> bool \<Rightarrow> bool \<Rightarrow> 16 word \<Rightarrow> 32 word \<Rightarrow> rlc_mode \<Rightarrow> 32 word \<Rightarrow> 32 word
   \<Rightarrow> 'am rlc_layer \<Rightarrow> (nat option \<times> 'am rlc_layer) option" where
  "rrc_rlc_add_rlc ops env ctxt srb_flagP MBMS_flagP rb_idP chan_idP rlc_modeP sourceL2Id destinationL2Id s =
     (if \<not> MBMS_flagP \<and> NB_RB_MAX \<le> unat rb_idP then Some (None, s)
      else if \<not> MBMS_flagP \<and> RLC_MAX_LC \<le> unat chan_idP then Some (None, s)
      else if MBMS_flagP \<and> mbms_lcid_by_rb s (enb_flag ctxt) (unat (module_id ctxt)) (unat rb_idP) = None then None
      else
        let l2 = 0 < sourceL2Id \<and> 0 < destinationL2Id;
            key = (if l2 then RLC_COLL_KEY_SOURCE_DEST_VALUE (module_id ctxt) (rnti ctxt) (enb_flag ctxt) rb_idP destinationL2Id
                   else rb_key ctxt rb_idP srb_flagP);
            key_lcid = (if l2 then RLC_COLL_KEY_LCID_SOURCE_DEST_VALUE (module_id ctxt) (rnti ctxt) (enb_flag ctxt) chan_idP destinationL2Id
                        else lc_key ctxt chan_idP srb_flagP) in
        case hashtable_get (rlc_coll_p s) key of (h_rc, d) \<Rightarrow>
          if h_rc = HASH_TABLE_OK then
            (case rlc_deref s d of
               None \<Rightarrow> None
             | Some (a, u) \<Rightarrow> Some (if union_mode u \<noteq> rlc_modeP then None else Some a, s))
          else if h_rc = HASH_TABLE_KEY_NOT_EXISTS then rlc_add_new ops env key key_lcid rlc_modeP s
          else Some (None, s))"

fun union_lcid :: "('am, 'ai, 'aa) am_ops \<Rightarrow> 32 word \<Rightarrow> 'am rlc_union \<Rightarrow> 32 word" where
  "union_lcid ops lcid (Rlc_am e) = am_channel_id ops e"
| "union_lcid ops lcid (Rlc_um e) = word_of_int (channel_id e)"
| "union_lcid ops lcid (Rlc_tm e) = word_of_int (tm_channel_id e)"
| "union_lcid ops lcid Rlc_none = lcid"

text \<open>The part of \<open>rrc_rlc_remove_rlc\<close> before the lookup: the initial channel and the key. For multicast the tables are
  cleared before the key is computed from them.\<close>

definition remove_key ::
  "protocol_ctxt \<Rightarrow> bool \<Rightarrow> bool \<Rightarrow> 16 word \<Rightarrow> 'am rlc_layer \<Rightarrow> ((32 word \<times> 64 word) \<times> 'am rlc_layer) option" where
  "remove_key ctxt srb_flagP MBMS_flagP rb_idP s =
     (if \<not> MBMS_flagP then Some ((0, rb_key ctxt rb_idP srb_flagP), s)
      else let m = unat (module_id ctxt) in
        case mbms_lcid_by_rb s (enb_flag ctxt) m (unat rb_idP) of
          None \<Rightarrow> None
        | Some lc \<Rightarrow>
            if MAX_eNB \<le> m then None
            else let s1 = s\<lparr>lcid2service_session_id_eNB := (lcid2service_session_id_eNB s)(m := (lcid2service_session_id_eNB s m)(lc := (0, 0))),
                            rbid2lcid_ue := (rbid2lcid_ue s)(m := (rbid2lcid_ue s m)(unat rb_idP := 0))\<rparr> in
              Some ((of_nat lc, mbms_key ctxt (if enb_flag ctxt then lcid2service_session_id_eNB s1 m lc
                                               else lcid2service_session_id_ue s1 m lc)), s1))"

definition rrc_rlc_remove_rlc ::
  "('am, 'ai, 'aa) am_ops \<Rightarrow> protocol_ctxt \<Rightarrow> bool \<Rightarrow> bool \<Rightarrow> 16 word \<Rightarrow> 'am rlc_layer \<Rightarrow> (rlc_op_status \<times> 'am rlc_layer) option" where
  "rrc_rlc_remove_rlc ops ctxt srb_flagP MBMS_flagP rb_idP s0 = do {
     ((lcid, key), s) \<leftarrow> remove_key ctxt srb_flagP MBMS_flagP rb_idP s0;
     if NB_RB_MAX \<le> unat rb_idP then Some (RLC_OP_STATUS_BAD_PARAMETER, s)
     else (case hashtable_get (rlc_coll_p s) key of (h_rc, d) \<Rightarrow>
       if h_rc = HASH_TABLE_OK then do {
         (a, u) \<leftarrow> rlc_deref s d;
         let key_lcid = lc_key ctxt (union_lcid ops lcid u) srb_flagP;
         if fst (hashtable_get (rlc_coll_p s) key_lcid) = HASH_TABLE_OK then do {
           (_, s1) \<leftarrow> coll_remove ops key_lcid s;
           (_, s2) \<leftarrow> coll_remove ops key s1;
           Some (RLC_OP_STATUS_OK, s2)
         } else Some (RLC_OP_STATUS_OK, s)
       } else Some (RLC_OP_STATUS_OK, s))
   }"

definition remove_rb :: "('am, 'ai, 'aa) am_ops \<Rightarrow> protocol_ctxt \<Rightarrow> bool \<Rightarrow> nat \<Rightarrow> 'am rlc_layer \<Rightarrow> 'am rlc_layer option" where
  "remove_rb ops ctxt srb rb s = map_option snd (rrc_rlc_remove_rlc ops ctxt srb False (of_nat rb) s)"

definition rrc_rlc_remove_ue :: "('am, 'ai, 'aa) am_ops \<Rightarrow> protocol_ctxt \<Rightarrow> 'am rlc_layer \<Rightarrow> (rlc_op_status \<times> 'am rlc_layer) option" where
  "rrc_rlc_remove_ue ops ctxt s = do {
     s1 \<leftarrow> ofold (remove_rb ops ctxt True) [1..<3] s;
     s2 \<leftarrow> ofold (remove_rb ops ctxt False) [1..<12] s1;
     Some (RLC_OP_STATUS_OK, s2)
   }"


section \<open>Configuration\<close>

definition config_req_rlc_am ::
  "('am, 'ai, 'aa) am_ops \<Rightarrow> protocol_ctxt \<Rightarrow> bool \<Rightarrow> 'ai \<Rightarrow> 16 word \<Rightarrow> 32 word \<Rightarrow> 'am rlc_layer \<Rightarrow> 'am rlc_layer option" where
  "config_req_rlc_am ops ctxt srb_flagP config rb_idP chan_idP s =
     (case hashtable_get (rlc_coll_p s) (rb_key ctxt rb_idP srb_flagP) of (h_rc, d) \<Rightarrow>
        if h_rc \<noteq> HASH_TABLE_OK then Some s
        else (case rlc_deref s d of
            Some (a, Rlc_am e) \<Rightarrow> Some (rlc_store a (Rlc_am (am_config ops ctxt srb_flagP config rb_idP chan_idP e)) s)
          | _ \<Rightarrow> None))"

definition config_req_rlc_am_asn1 ::
  "('am, 'ai, 'aa) am_ops \<Rightarrow> protocol_ctxt \<Rightarrow> bool \<Rightarrow> 'aa \<Rightarrow> 16 word \<Rightarrow> 32 word \<Rightarrow> 'am rlc_layer \<Rightarrow> 'am rlc_layer option" where
  "config_req_rlc_am_asn1 ops ctxt srb_flagP config rb_idP chan_idP s =
     (case hashtable_get (rlc_coll_p s) (rb_key ctxt rb_idP srb_flagP) of (h_rc, d) \<Rightarrow>
        if h_rc \<noteq> HASH_TABLE_OK then Some s
        else (case rlc_deref s d of
            Some (a, Rlc_am e) \<Rightarrow> Some (rlc_store a (Rlc_am (am_config_asn1 ops ctxt srb_flagP config rb_idP chan_idP e)) s)
          | _ \<Rightarrow> None))"

definition config_req_rlc_tm ::
  "allocator \<Rightarrow> protocol_ctxt \<Rightarrow> bool \<Rightarrow> bool \<Rightarrow> 16 word \<Rightarrow> 32 word \<Rightarrow> 'am rlc_layer \<Rightarrow> 'am rlc_layer option" where
  "config_req_rlc_tm alloc ctxt srb_flagP up_down rb_idP chan_idP s =
     (case hashtable_get (rlc_coll_p s) (rb_key ctxt rb_idP srb_flagP) of (h_rc, d) \<Rightarrow>
        if h_rc \<noteq> HASH_TABLE_OK then Some s
        else (case rlc_deref s d of
            Some (a, Rlc_tm e) \<Rightarrow>
              Some (rlc_store a (Rlc_tm (tm_config alloc up_down srb_flagP (uint rb_idP) (uint chan_idP) e)) s)
          | _ \<Rightarrow> None))"

text \<open>The two operations of the UM entity on the collection, applied to the entry that their key reaches.\<close>

definition layer_config_um ::
  "protocol_ctxt \<Rightarrow> bool \<Rightarrow> rlc_um_info \<Rightarrow> 16 word \<Rightarrow> 32 word \<Rightarrow> 'am rlc_layer \<Rightarrow> 'am rlc_layer option" where
  "layer_config_um ctxt srb_flagP config rb_idP chan_idP s =
     (let key = rb_key ctxt rb_idP srb_flagP in
      case hashtable_get (rlc_coll_p s) key of (h_rc, d) \<Rightarrow>
        if h_rc \<noteq> HASH_TABLE_OK then Some s
        else (case rlc_deref s d of
            Some (a, Rlc_um e) \<Rightarrow>
              (case config_req_rlc_um ctxt [key \<mapsto> e] srb_flagP config rb_idP (uint chan_idP) key of
                 None \<Rightarrow> None | Some e' \<Rightarrow> Some (rlc_store a (Rlc_um e') s))
          | _ \<Rightarrow> None))"

definition coll_present :: "'am rlc_layer \<Rightarrow> 64 word \<Rightarrow> rlc_um_entity option" where
  "coll_present s key = (if fst (hashtable_get (rlc_coll_p s) key) = HASH_TABLE_OK then Some rlc_um_zero else None)"

definition layer_config_um_asn1 ::
  "int \<Rightarrow> int \<Rightarrow> protocol_ctxt \<Rightarrow> bool \<Rightarrow> bool \<Rightarrow> 32 word \<Rightarrow> 16 word \<Rightarrow> lte_ul_um_rlc option \<Rightarrow> lte_dl_um_rlc option
   \<Rightarrow> 16 word \<Rightarrow> 32 word \<Rightarrow> 32 word \<Rightarrow> 32 word \<Rightarrow> 'am rlc_layer \<Rightarrow> 'am rlc_layer option" where
  "layer_config_um_asn1 size5 size10 ctxt srb_flagP mbms_flagP session service ul dl rb_idP chan_idP sourceL2Id destinationL2Id s =
     (case rlc_um_asn1_key ctxt (coll_present s) srb_flagP mbms_flagP session service ul dl rb_idP sourceL2Id destinationL2Id of
        None \<Rightarrow> Some s
      | Some key \<Rightarrow>
          (case rlc_deref s (snd (hashtable_get (rlc_coll_p s) key)) of
             Some (a, Rlc_um e) \<Rightarrow>
               Some (rlc_store a (Rlc_um (rlc_um_asn1_apply size5 size10 ctxt srb_flagP mbms_flagP ul dl rb_idP (uint chan_idP) e)) s)
           | _ \<Rightarrow> None))"

datatype config_action =
  CONFIG_ACTION_NULL | CONFIG_ACTION_ADD | CONFIG_ACTION_REMOVE | CONFIG_ACTION_MODIFY | CONFIG_ACTION_SET_SECURITY_MODE
| CONFIG_ACTION_MBMS_ADD | CONFIG_ACTION_MBMS_MODIFY

datatype 'ai rlc_info = Info_none | Info_am 'ai | Info_um rlc_um_info | Info_tm bool

fun info_mode :: "'ai rlc_info \<Rightarrow> rlc_mode" where
  "info_mode Info_none = RLC_MODE_NONE"
| "info_mode (Info_am _) = RLC_MODE_AM"
| "info_mode (Info_um _) = RLC_MODE_UM"
| "info_mode (Info_tm _) = RLC_MODE_TM"

definition rlc_modify ::
  "('am, 'ai, 'aa) am_ops \<Rightarrow> allocator \<Rightarrow> protocol_ctxt \<Rightarrow> bool \<Rightarrow> 16 word \<Rightarrow> 'ai rlc_info \<Rightarrow> 'am rlc_layer
   \<Rightarrow> (rlc_op_status \<times> 'am rlc_layer) option" where
  "rlc_modify ops alloc ctxt srb_flagP rb_idP info s =
     (case info of
        Info_am c \<Rightarrow> map_option (Pair RLC_OP_STATUS_OK) (config_req_rlc_am ops ctxt srb_flagP c rb_idP (ucast rb_idP) s)
      | Info_um c \<Rightarrow> map_option (Pair RLC_OP_STATUS_OK) (layer_config_um ctxt srb_flagP c rb_idP (ucast rb_idP) s)
      | Info_tm c \<Rightarrow> map_option (Pair RLC_OP_STATUS_OK) (config_req_rlc_tm alloc ctxt srb_flagP c rb_idP (ucast rb_idP) s)
      | Info_none \<Rightarrow> Some (RLC_OP_STATUS_BAD_PARAMETER, s))"

definition rrc_rlc_config_req ::
  "('am, 'ai, 'aa) am_ops \<Rightarrow> add_env \<Rightarrow> allocator \<Rightarrow> protocol_ctxt \<Rightarrow> bool \<Rightarrow> bool \<Rightarrow> config_action \<Rightarrow> 16 word \<Rightarrow> 'ai rlc_info
   \<Rightarrow> 'am rlc_layer \<Rightarrow> (rlc_op_status \<times> 'am rlc_layer) option" where
  "rrc_rlc_config_req ops env alloc ctxt srb_flagP mbms_flagP actionP rb_idP info s =
     (if NB_RB_MAX \<le> unat rb_idP then Some (RLC_OP_STATUS_BAD_PARAMETER, s)
      else case actionP of
        CONFIG_ACTION_ADD \<Rightarrow>
          (case rrc_rlc_add_rlc ops env ctxt srb_flagP False rb_idP (ucast rb_idP) (info_mode info) 0 0 s of
             None \<Rightarrow> None
           | Some (Some _, s1) \<Rightarrow> Some (RLC_OP_STATUS_INTERNAL_ERROR, s1)
           | Some (None, s1) \<Rightarrow> rlc_modify ops alloc ctxt srb_flagP rb_idP info s1)
      | CONFIG_ACTION_MODIFY \<Rightarrow> rlc_modify ops alloc ctxt srb_flagP rb_idP info s
      | CONFIG_ACTION_REMOVE \<Rightarrow> rrc_rlc_remove_rlc ops ctxt srb_flagP mbms_flagP rb_idP s
      | _ \<Rightarrow> Some (RLC_OP_STATUS_BAD_PARAMETER, s))"

section \<open>Configuration from RRC messages\<close>

text \<open>The structures of the messages, as far as the code reads them.\<close>

datatype 'aa rlc_config =
  RLC_Config_NOTHING | RLC_Config_am 'aa | RLC_Config_um_Bi_Directional lte_ul_um_rlc lte_dl_um_rlc
| RLC_Config_um_Uni_Directional_UL lte_ul_um_rlc | RLC_Config_um_Uni_Directional_DL lte_dl_um_rlc | RLC_Config_unknown

datatype 'aa srb_rlc_config =
  SRB_rlc_Config_NOTHING | SRB_rlc_Config_explicitValue "'aa rlc_config" | SRB_rlc_Config_defaultValue | SRB_rlc_Config_unknown

record 'aa srb_ToAddMod =
  srb_Identity :: int
  srb_rlc_Config :: "'aa srb_rlc_config option"

record 'aa drb_ToAddMod =
  drb_Identity :: int
  logicalChannelIdentity :: "int option"
  drb_rlc_Config :: "'aa rlc_config option"

record mbms_session_info =
  sessionId_r9 :: "8 word option"
  logicalChannelIdentity_r9 :: int
  serviceId_r9_2 :: "8 word"

record asn1_env =
  sn_size5 :: int
  sn_size10 :: int
  t_Reordering_ms0 :: nat

definition add_and_config ::
  "('am, 'ai, 'aa) am_ops \<Rightarrow> asn1_env \<Rightarrow> add_env \<Rightarrow> protocol_ctxt \<Rightarrow> bool \<Rightarrow> 16 word \<Rightarrow> 32 word \<Rightarrow> 32 word \<Rightarrow> 32 word
   \<Rightarrow> 'aa rlc_config \<Rightarrow> 'am rlc_layer \<Rightarrow> 'am rlc_layer option" where
  "add_and_config ops aenv env ctxt srb rb lc src dst c s =
     (let um = (\<lambda>ul dl src dst.
            case rrc_rlc_add_rlc ops env ctxt srb False rb lc RLC_MODE_UM src dst s of
              None \<Rightarrow> None
            | Some (None, s1) \<Rightarrow> Some s1
            | Some (Some _, s1) \<Rightarrow>
                layer_config_um_asn1 (sn_size5 aenv) (sn_size10 aenv) ctxt srb False 0 0 ul dl rb lc src dst s1) in
      case c of
        RLC_Config_am am \<Rightarrow>
          (case rrc_rlc_add_rlc ops env ctxt srb False rb lc RLC_MODE_AM 0 0 s of
             None \<Rightarrow> None
           | Some (None, s1) \<Rightarrow> Some s1
           | Some (Some _, s1) \<Rightarrow> config_req_rlc_am_asn1 ops ctxt srb am rb lc s1)
      | RLC_Config_um_Bi_Directional ul dl \<Rightarrow> um (Some ul) (Some dl) src dst
      | RLC_Config_um_Uni_Directional_UL ul \<Rightarrow> um (Some ul) None 0 0
      | RLC_Config_um_Uni_Directional_DL dl \<Rightarrow> um None (Some dl) 0 0
      | _ \<Rightarrow> Some s)"

definition config_srb ::
  "('am, 'ai, 'aa) am_ops \<Rightarrow> asn1_env \<Rightarrow> add_env \<Rightarrow> protocol_ctxt \<Rightarrow> 'aa srb_ToAddMod \<Rightarrow> 'am rlc_layer \<Rightarrow> 'am rlc_layer option" where
  "config_srb ops aenv env ctxt m s =
     (let rb = word_of_int (srb_Identity m) :: 16 word in
      case srb_rlc_Config m of
        Some (SRB_rlc_Config_explicitValue c) \<Rightarrow> add_and_config ops aenv env ctxt True rb (ucast rb) 0 0 c s
      | Some SRB_rlc_Config_defaultValue \<Rightarrow>
          add_and_config ops aenv env ctxt True rb (ucast rb) 0 0 (RLC_Config_am (am_default_asn1 ops)) s
      | _ \<Rightarrow> Some s)"

definition config_drb ::
  "('am, 'ai, 'aa) am_ops \<Rightarrow> asn1_env \<Rightarrow> add_env \<Rightarrow> protocol_ctxt \<Rightarrow> 32 word \<Rightarrow> 32 word \<Rightarrow> 'aa drb_ToAddMod \<Rightarrow> 'am rlc_layer \<Rightarrow> 'am rlc_layer option" where
  "config_drb ops aenv env ctxt src dst m s =
     (case logicalChannelIdentity m of
        None \<Rightarrow> Some s
      | Some v \<Rightarrow>
          let lc = word_of_int v :: 32 word in
          if lc = 1 \<or> lc = 2 then Some s
          else (case drb_rlc_Config m of
              None \<Rightarrow> Some s
            | Some c \<Rightarrow> add_and_config ops aenv env ctxt False (word_of_int (drb_Identity m)) lc src dst c s))"

definition release_drb :: "('am, 'ai, 'aa) am_ops \<Rightarrow> protocol_ctxt \<Rightarrow> int \<Rightarrow> 'am rlc_layer \<Rightarrow> 'am rlc_layer option" where
  "release_drb ops ctxt drb s = map_option snd (rrc_rlc_remove_rlc ops ctxt False False (word_of_int drb) s)"

definition config_session ::
  "('am, 'ai, 'aa) am_ops \<Rightarrow> asn1_env \<Rightarrow> add_env \<Rightarrow> protocol_ctxt \<Rightarrow> mbms_session_info \<Rightarrow> 'am rlc_layer \<Rightarrow> 'am rlc_layer option" where
  "config_session ops aenv env ctxt m s =
     (let session = (case sessionId_r9 m of Some b \<Rightarrow> ucast b | None \<Rightarrow> word_of_int (logicalChannelIdentity_r9 m)) :: 32 word;
          lc = session; service = ucast (serviceId_r9_2 m) :: 16 word;
          rb = word_of_int (to_u16 (uint service * 29 + uint session)) :: 16 word;
          row = unat (module_id ctxt) in
      if RLC_MAX_MBMS_LC \<le> unat lc \<or> NB_RB_MBMS_MAX \<le> unat rb \<or> (if enb_flag ctxt then MAX_eNB else MAX_MOBILES) \<le> row then None
      else
        let s1 = (if enb_flag ctxt
              then s\<lparr>lcid2service_session_id_eNB := (lcid2service_session_id_eNB s)(row := (lcid2service_session_id_eNB s row)(unat lc := (service, session))),
                     rbid2lcid_eNB := (rbid2lcid_eNB s)(row := (rbid2lcid_eNB s row)(unat rb := lc))\<rparr>
              else s\<lparr>lcid2service_session_id_ue := (lcid2service_session_id_ue s)(row := (lcid2service_session_id_ue s row)(unat lc := (service, session))),
                     rbid2lcid_ue := (rbid2lcid_ue s)(row := (rbid2lcid_ue s row)(unat rb := lc))\<rparr>);
            key = RLC_COLL_KEY_MBMS_VALUE (module_id ctxt) (module_id ctxt) (enb_flag ctxt) service session in
        case (if fst (hashtable_get (rlc_coll_p s1) key) = HASH_TABLE_KEY_NOT_EXISTS
              then map_option snd (rrc_rlc_add_rlc ops env ctxt False True rb lc RLC_MODE_UM 0 0 s1) else Some s1) of
          None \<Rightarrow> None
        | Some s2 \<Rightarrow>
            layer_config_um_asn1 (sn_size5 aenv) (sn_size10 aenv) ctxt False True session service None
              (Some \<lparr>dl_sn_FieldLength = sn_size5 aenv, dl_t_Reordering = t_Reordering_ms0 aenv\<rparr>) rb lc 0 0 s2)"

definition rrc_rlc_config_asn1_req ::
  "('am, 'ai, 'aa) am_ops \<Rightarrow> asn1_env \<Rightarrow> add_env \<Rightarrow> protocol_ctxt \<Rightarrow> 'aa srb_ToAddMod list \<Rightarrow> 'aa drb_ToAddMod list \<Rightarrow> int list
   \<Rightarrow> mbms_session_info list list \<Rightarrow> 32 word \<Rightarrow> 32 word \<Rightarrow> 'am rlc_layer \<Rightarrow> (rlc_op_status \<times> 'am rlc_layer) option" where
  "rrc_rlc_config_asn1_req ops aenv env ctxt srb2add drb2add drb2release pmch src dst s = do {
     s1 \<leftarrow> ofold (config_srb ops aenv env ctxt) srb2add s;
     s2 \<leftarrow> ofold (config_drb ops aenv env ctxt src dst) drb2add s1;
     s3 \<leftarrow> ofold (release_drb ops ctxt) drb2release s2;
     s4 \<leftarrow> ofold (config_session ops aenv env ctxt) (concat pmch) s3;
     Some (RLC_OP_STATUS_OK, s4)
   }"


section \<open>Data from PDCP and RRC\<close>

text \<open>\<open>blk\<close> is the block \<open>get_free_mem_block\<close> returns, the SDU is the memory of its block and its size.\<close>

definition union_data_req ::
  "('am, 'ai, 'aa) am_ops \<Rightarrow> mem option \<Rightarrow> protocol_ctxt \<Rightarrow> 32 word \<Rightarrow> 32 word \<Rightarrow> mem \<Rightarrow> int \<Rightarrow> 'am rlc_union
   \<Rightarrow> (rlc_op_status \<times> 'am rlc_union) option" where
  "union_data_req ops blk ctxt muiP confirmP sdu sdu_sizeP u =
     (let bytes = mem_read sdu 0 (nat sdu_sizeP) in
      case u of
        Rlc_none \<Rightarrow> Some (RLC_OP_STATUS_BAD_PARAMETER, u)
      | Rlc_am e \<Rightarrow>
          (case blk of
             None \<Rightarrow> Some (RLC_OP_STATUS_INTERNAL_ERROR, u)
           | Some _ \<Rightarrow> map_option (\<lambda>e'. (RLC_OP_STATUS_OK, Rlc_am e')) (rlc_am_data_req ops ctxt bytes muiP confirmP e))
      | Rlc_um e \<Rightarrow>
          if rlc_um_get_buffer_occupancy e > 5000000 then Some (RLC_OP_STATUS_OUT_OF_RESSOURCES, u)
          else (case blk of
             None \<Rightarrow> Some (RLC_OP_STATUS_INTERNAL_ERROR, u)
           | Some _ \<Rightarrow> Some (RLC_OP_STATUS_OK, Rlc_um (rlc_um_data_req ctxt e bytes)))
      | Rlc_tm e \<Rightarrow>
          (case blk of
             None \<Rightarrow> Some (RLC_OP_STATUS_INTERNAL_ERROR, u)
           | Some b \<Rightarrow> map_option (\<lambda>e'. (RLC_OP_STATUS_OK, Rlc_tm e')) (rlc_tm_data_req e (mem_write b 0 bytes, sdu_sizeP))))"

text \<open>In the multicast branch the mode is not looked at.\<close>

definition union_mbms_data_req ::
  "mem option \<Rightarrow> protocol_ctxt \<Rightarrow> mem \<Rightarrow> int \<Rightarrow> 'am rlc_union \<Rightarrow> (rlc_op_status \<times> 'am rlc_union) option" where
  "union_mbms_data_req blk ctxt sdu sdu_sizeP u =
     (case blk of
        None \<Rightarrow> Some (RLC_OP_STATUS_BAD_PARAMETER, u)
      | Some _ \<Rightarrow>
          (case u of
             Rlc_um e \<Rightarrow> Some (RLC_OP_STATUS_OK, Rlc_um (rlc_um_data_req ctxt e (mem_read sdu 0 (nat sdu_sizeP))))
           | _ \<Rightarrow> None))"

definition rlc_data_req ::
  "('am, 'ai, 'aa) am_ops \<Rightarrow> mem option \<Rightarrow> protocol_ctxt \<Rightarrow> bool \<Rightarrow> bool \<Rightarrow> 16 word \<Rightarrow> 32 word \<Rightarrow> 32 word \<Rightarrow> int \<Rightarrow> mem option
   \<Rightarrow> 'am rlc_layer \<Rightarrow> (rlc_op_status \<times> 'am rlc_layer) option" where
  "rlc_data_req ops blk ctxt srb_flagP MBMS_flagP rb_idP muiP confirmP sdu_sizeP sdu_pP s =
     (if (if MBMS_flagP then NB_RB_MBMS_MAX else NB_RB_MAX) \<le> unat rb_idP then Some (RLC_OP_STATUS_BAD_PARAMETER, s)
      else case sdu_pP of
        None \<Rightarrow> Some (RLC_OP_STATUS_BAD_PARAMETER, s)
      | Some sdu \<Rightarrow>
          if sdu_sizeP \<le> 0 then Some (RLC_OP_STATUS_BAD_PARAMETER, s)
          else if MBMS_flagP \<and> mbms_lcid_by_rb s (enb_flag ctxt) (unat (if enb_flag ctxt then module_id ctxt else rnti ctxt)) (unat rb_idP) = None
          then None
          else (case hashtable_get (rlc_coll_p s) (rb_key ctxt rb_idP srb_flagP) of (h_rc, d) \<Rightarrow>
            if h_rc \<noteq> HASH_TABLE_OK then Some (RLC_OP_STATUS_OUT_OF_RESSOURCES, s)
            else (case rlc_deref s d of
                None \<Rightarrow> None
              | Some (a, u) \<Rightarrow>
                  (case (if MBMS_flagP then union_mbms_data_req blk ctxt sdu sdu_sizeP u
                         else union_data_req ops blk ctxt muiP confirmP sdu sdu_sizeP u) of
                     None \<Rightarrow> None
                   | Some (st, u') \<Rightarrow> Some (st, rlc_store a u' s)))))"

definition rrc_rlc_data_req ::
  "('am, 'ai, 'aa) am_ops \<Rightarrow> mem option \<Rightarrow> mem option \<Rightarrow> protocol_ctxt \<Rightarrow> bool \<Rightarrow> 16 word \<Rightarrow> 32 word \<Rightarrow> 32 word \<Rightarrow> int \<Rightarrow> mem
   \<Rightarrow> 'am rlc_layer \<Rightarrow> (rlc_op_status \<times> 'am rlc_layer) option" where
  "rrc_rlc_data_req ops sdu_blk blk ctxt MBMS_flagP rb_idP muiP confirmP sdu_sizeP sduP s =
     (case sdu_blk of
        None \<Rightarrow> Some (RLC_OP_STATUS_INTERNAL_ERROR, s)
      | Some b \<Rightarrow>
          if sdu_sizeP < 0 then None
          else rlc_data_req ops blk ctxt True MBMS_flagP rb_idP muiP confirmP sdu_sizeP (Some (mem_write b 0 (mem_read sduP 0 (nat sdu_sizeP)))) s)"

section \<open>The interface to MAC\<close>

fun deserialize_loop :: "allocator \<Rightarrow> mem \<Rightarrow> nat \<Rightarrow> nat \<Rightarrow> nat \<Rightarrow> nat \<Rightarrow> mac_tb_ind list" where
  "deserialize_loop alloc buf n i off 0 = []"
| "deserialize_loop alloc buf n i off (Suc num) =
     (case alloc i of
        None \<Rightarrow> deserialize_loop alloc buf n (Suc i) off num
      | Some b \<Rightarrow>
          \<lparr>data_ptr = mem_write b 0 (mem_read buf off n), tb_size = int n\<rparr> # deserialize_loop alloc buf n (Suc i) (off + n) num)"

text \<open>The transport blocks and the size in bits.\<close>

definition mac_rlc_deserialize_tb :: "allocator \<Rightarrow> mem \<Rightarrow> int \<Rightarrow> nat \<Rightarrow> (mac_tb_ind list \<times> int) option" where
  "mac_rlc_deserialize_tb alloc buffer_pP tb_sizeP num_tbP =
     (if tb_sizeP < 0 then None
      else Some (deserialize_loop alloc buffer_pP (nat tb_sizeP) 0 0 num_tbP, to_s32 (tb_sizeP * 8)))"

fun mac_rlc_serialize_tb :: "mem \<Rightarrow> int \<Rightarrow> mac_tb_req list \<Rightarrow> (int \<times> mem) option" where
  "mac_rlc_serialize_tb buf tbs_size [] = Some (tbs_size, buf)"
| "mac_rlc_serialize_tb buf tbs_size (tb # tbs) =
     (if tb_req_size tb < 0 then None
      else mac_rlc_serialize_tb (mem_write buf (nat tbs_size) (mem_read (tb_req_data_ptr tb) 0 (nat (tb_req_size tb))))
             (tbs_size + tb_req_size tb) tbs)"

definition union_data_request ::
  "('am, 'ai, 'aa) am_ops \<Rightarrow> allocator \<Rightarrow> protocol_ctxt \<Rightarrow> int \<Rightarrow> 'am rlc_union \<Rightarrow> (mac_tb_req list \<times> 'am rlc_union) option" where
  "union_data_request ops alloc ctxt tb_sizeP u =
     (case u of
        Rlc_none \<Rightarrow> Some ([], u)
      | Rlc_am e \<Rightarrow>
          map_option (\<lambda>(tbs, e'). (tbs, Rlc_am e'))
            (rlc_am_mac_data_request ops ctxt (if enb_flag ctxt then e else rlc_am_set_nb_bytes_requested_by_mac ops tb_sizeP e))
      | Rlc_um e \<Rightarrow>
          (case rlc_um_mac_data_request alloc (if enb_flag ctxt then e else rlc_um_set_nb_bytes_requested_by_mac e tb_sizeP) (enb_flag ctxt) of
             (req, e') \<Rightarrow> Some (data_req_data req, Rlc_um e'))
      | Rlc_tm e \<Rightarrow> map_option (\<lambda>((tbs, _), e'). (tbs, Rlc_tm e')) (rlc_tm_mac_data_request alloc e))"

text \<open>The entity of a logical channel: the key, \<open>None\<close> where the primitive returns without a lookup.\<close>

definition channel_srb :: "32 word \<Rightarrow> bool" where
  "channel_srb lc \<longleftrightarrow> lc \<le> 2"

definition mac_rlc_data_req ::
  "('am, 'ai, 'aa) am_ops \<Rightarrow> (nat \<Rightarrow> allocator) \<Rightarrow> protocol_ctxt \<Rightarrow> bool \<Rightarrow> 32 word \<Rightarrow> int \<Rightarrow> mem \<Rightarrow> 32 word \<Rightarrow> 32 word
   \<Rightarrow> 'am rlc_layer \<Rightarrow> ((int \<times> mem) \<times> 'am rlc_layer) option" where
  "mac_rlc_data_req ops al ctxt MBMS_flagP channel_idP tb_sizeP buffer_pP sourceL2Id destinationL2Id s =
     (let m = unat (module_id ctxt); lc = unat channel_idP in
      if (if MBMS_flagP then RLC_MAX_MBMS_LC else NB_RB_MAX) \<le> lc then Some ((0, buffer_pP), s)
      else if MBMS_flagP \<and> \<not> enb_flag ctxt then Some ((0, buffer_pP), s)
      else if MBMS_flagP \<and> MAX_eNB \<le> m then None
      else
        let key = (if MBMS_flagP then mbms_key ctxt (lcid2service_session_id_eNB s m lc)
                   else if 0 < sourceL2Id \<and> 0 < destinationL2Id
                   then RLC_COLL_KEY_LCID_SOURCE_DEST_VALUE (module_id ctxt) (rnti ctxt) (enb_flag ctxt) channel_idP destinationL2Id
                   else lc_key ctxt channel_idP (channel_srb channel_idP)) in
        case hashtable_get (rlc_coll_p s) key of (h_rc, d) \<Rightarrow>
          if h_rc \<noteq> HASH_TABLE_OK then Some ((0, buffer_pP), s)
          else do {
            (a, u) \<leftarrow> rlc_deref s d;
            (tbs, u') \<leftarrow> union_data_request ops (al a) ctxt tb_sizeP u;
            out \<leftarrow> mac_rlc_serialize_tb buffer_pP 0 tbs;
            Some (out, rlc_store a u' s)
          })"

definition union_data_ind ::
  "('am, 'ai, 'aa) am_ops \<Rightarrow> allocator \<Rightarrow> bool \<Rightarrow> protocol_ctxt \<Rightarrow> mac_tb_ind list \<Rightarrow> int \<Rightarrow> 'am rlc_union \<Rightarrow> 'am rlc_union option" where
  "union_data_ind ops alloc trylock_ok ctxt tbs bits u =
     (case u of
        Rlc_none \<Rightarrow> Some u
      | Rlc_am e \<Rightarrow> map_option Rlc_am (rlc_am_mac_data_indication ops ctxt tbs e)
      | Rlc_um e \<Rightarrow> map_option Rlc_um (rlc_um_mac_data_indication alloc ctxt trylock_ok e tbs)
      | Rlc_tm e \<Rightarrow> map_option Rlc_tm (rlc_tm_mac_data_indication alloc e tbs bits))"

definition mac_rlc_data_ind ::
  "('am, 'ai, 'aa) am_ops \<Rightarrow> (nat \<Rightarrow> allocator) \<Rightarrow> allocator \<Rightarrow> bool \<Rightarrow> protocol_ctxt \<Rightarrow> bool \<Rightarrow> 32 word \<Rightarrow> mem \<Rightarrow> int \<Rightarrow> nat
   \<Rightarrow> 'am rlc_layer \<Rightarrow> 'am rlc_layer option" where
  "mac_rlc_data_ind ops al tb_alloc trylock_ok ctxt MBMS_flagP channel_idP buffer_pP tb_sizeP num_tbP s =
     (let m = unat (module_id ctxt); lc = unat channel_idP in
      if MBMS_flagP \<and> enb_flag ctxt then Some s
      else if MBMS_flagP \<and> (MAX_MOBILES \<le> m \<or> RLC_MAX_MBMS_LC \<le> lc) then None
      else
        let key = (if MBMS_flagP then mbms_key ctxt (lcid2service_session_id_ue s m lc)
                   else lc_key ctxt channel_idP (channel_srb channel_idP)) in
        case hashtable_get (rlc_coll_p s) key of (h_rc, d) \<Rightarrow> do {
          (tbs, bits) \<leftarrow> mac_rlc_deserialize_tb tb_alloc buffer_pP tb_sizeP num_tbP;
          if h_rc \<noteq> HASH_TABLE_OK then Some s
          else do {
            (a, u) \<leftarrow> rlc_deref s d;
            u' \<leftarrow> union_data_ind ops (al a) trylock_ok ctxt tbs bits u;
            Some (rlc_store a u' s)
          }
        })"

record mac_rlc_status_resp =
  bytes_in_buffer :: int
  pdus_in_buffer :: int
  resp_head_sdu_creation_time :: int
  resp_head_sdu_remaining_size_to_send :: int
  resp_head_sdu_is_segmented :: bool

definition status_resp_zero :: mac_rlc_status_resp where
  "status_resp_zero = \<lparr>bytes_in_buffer = 0, pdus_in_buffer = 0, resp_head_sdu_creation_time = 0,
     resp_head_sdu_remaining_size_to_send = 0, resp_head_sdu_is_segmented = False\<rparr>"

definition status_resp_of :: "mac_status_resp \<Rightarrow> mac_rlc_status_resp" where
  "status_resp_of r = \<lparr>bytes_in_buffer = to_s32 (buffer_occupancy_in_bytes r), pdus_in_buffer = buffer_occupancy_in_pdus r,
     resp_head_sdu_creation_time = head_sdu_creation_time r,
     resp_head_sdu_remaining_size_to_send = head_sdu_remaining_size_to_send r, resp_head_sdu_is_segmented = head_sdu_is_segmented r\<rparr>"

definition union_status_ind ::
  "('am, 'ai, 'aa) am_ops \<Rightarrow> allocator \<Rightarrow> bool \<Rightarrow> protocol_ctxt \<Rightarrow> int \<Rightarrow> 'am rlc_union \<Rightarrow> (mac_rlc_status_resp \<times> 'am rlc_union) option" where
  "union_status_ind ops alloc trylock_ok ctxt tb_sizeP u =
     (case u of
        Rlc_none \<Rightarrow> Some (status_resp_zero, u)
      | Rlc_am e \<Rightarrow> map_option (\<lambda>(r, e'). ((status_resp_of r)\<lparr>pdus_in_buffer := 0\<rparr>, Rlc_am e')) (rlc_am_mac_status_indication ops ctxt tb_sizeP e)
      | Rlc_um e \<Rightarrow>
          (case rlc_um_mac_status_indication alloc ctxt trylock_ok (Some e) tb_sizeP (enb_flag ctxt) of
             Some (r, Some e') \<Rightarrow> Some (status_resp_of r, Rlc_um e')
           | _ \<Rightarrow> None)
      | Rlc_tm e \<Rightarrow>
          map_option (\<lambda>((bytes, pdus, _), e'). (status_resp_zero\<lparr>bytes_in_buffer := to_s32 bytes, pdus_in_buffer := pdus\<rparr>, Rlc_tm e'))
            (rlc_tm_mac_status_indication e tb_sizeP))"

definition mac_rlc_status_ind ::
  "('am, 'ai, 'aa) am_ops \<Rightarrow> (nat \<Rightarrow> allocator) \<Rightarrow> bool \<Rightarrow> protocol_ctxt \<Rightarrow> bool \<Rightarrow> 32 word \<Rightarrow> int \<Rightarrow> 32 word \<Rightarrow> 32 word
   \<Rightarrow> 'am rlc_layer \<Rightarrow> (mac_rlc_status_resp \<times> 'am rlc_layer) option" where
  "mac_rlc_status_ind ops al trylock_ok ctxt MBMS_flagP channel_idP tb_sizeP sourceL2Id destinationL2Id s =
     (let m = unat (module_id ctxt); lc = unat channel_idP in
      if MBMS_flagP \<and> ((if enb_flag ctxt then MAX_eNB else MAX_MOBILES) \<le> m \<or> RLC_MAX_MBMS_LC \<le> lc) then None
      else
        let key = (if MBMS_flagP
                   then mbms_key ctxt (if enb_flag ctxt then lcid2service_session_id_eNB s m lc else lcid2service_session_id_ue s m lc)
                   else if 0 < sourceL2Id \<and> 0 < destinationL2Id
                   then ucast (module_id ctxt) OR push_bit 8 (ucast (rnti ctxt)) OR push_bit 24 (of_bool (enb_flag ctxt))
                     OR push_bit 25 (ucast channel_idP) OR push_bit 33 (ucast destinationL2Id) OR push_bit 57 0x05
                   else lc_key ctxt channel_idP (channel_srb channel_idP)) in
        case hashtable_get (rlc_coll_p s) key of (h_rc, d) \<Rightarrow>
          if h_rc \<noteq> HASH_TABLE_OK then Some (status_resp_zero, s)
          else do {
            (a, u) \<leftarrow> rlc_deref s d;
            (r, u') \<leftarrow> union_status_ind ops (al a) trylock_ok ctxt tb_sizeP u;
            Some (r, rlc_store a u' s)
          })"

definition mac_rlc_get_buffer_occupancy_ind ::
  "('am, 'ai, 'aa) am_ops \<Rightarrow> protocol_ctxt \<Rightarrow> 32 word \<Rightarrow> 'am rlc_layer \<Rightarrow> (int \<times> 'am rlc_layer) option" where
  "mac_rlc_get_buffer_occupancy_ind ops ctxt channel_idP s =
     (if enb_flag ctxt then Some (0, s)
      else case hashtable_get (rlc_coll_p s) (lc_key ctxt channel_idP (channel_srb channel_idP)) of (h_rc, d) \<Rightarrow>
        if h_rc \<noteq> HASH_TABLE_OK then Some (0, s)
        else (case rlc_deref s d of
            None \<Rightarrow> None
          | Some (a, Rlc_am e) \<Rightarrow> (case rlc_am_get_buffer_occupancy_in_bytes ops ctxt e of (n, e') \<Rightarrow> Some (to_s32 n, rlc_store a (Rlc_am e') s))
          | Some (a, Rlc_um e) \<Rightarrow> Some (to_s32 (rlc_um_get_buffer_occupancy e), s)
          | Some (a, _) \<Rightarrow> Some (0, s)))"

end
