(* ===== verification/Rlc_Layer_Correct.thy ===== *)
theory Rlc_Layer_Correct
  imports Rlc_Layer
begin

text \<open>
  Correctness of the RLC layer: keys of different bearers differ; every key leads to a live entity; adding, releasing and
  using a bearer touches its entity only; and the primitives of PDCP and MAC on two layers together carry the SDUs of an
  unacknowledged bearer in order.
\<close>

section \<open>Keys\<close>

text \<open>The bits of a key: the tag (5 for a radio bearer, 10 for a logical channel) and the fields below it.\<close>

definition key_word :: "16 word \<Rightarrow> 16 word \<Rightarrow> bool \<Rightarrow> 64 word \<Rightarrow> bool \<Rightarrow> 64 word \<Rightarrow> 64 word" where
  "key_word m r e i srb tag =
     ucast m OR push_bit 8 (ucast r) OR push_bit 24 (of_bool e) OR push_bit 25 i OR push_bit 33 (of_bool srb) OR push_bit 34 tag"

lemma rb_key_word: "rb_key c rb srb = key_word (module_id c) (rnti c) (enb_flag c) (ucast rb) srb 5"
  by (simp add: rb_key_def RLC_COLL_KEY_VALUE_def key_word_def)

lemma lc_key_word: "lc_key c lc srb = key_word (module_id c) (rnti c) (enb_flag c) (ucast lc) srb 10"
  by (simp add: lc_key_def RLC_COLL_KEY_LCID_VALUE_def key_word_def)

lemma bit_low:
  assumes "unat (w :: 'a :: len word) < 2 ^ k" "k \<le> n"
  shows "\<not> bit w n"
proof -
  have "unat w < 2 ^ n" using assms by (meson less_le_trans one_le_numeral power_increasing)
  then have "unat w div 2 ^ n = 0" by simp
  then have "\<not> bit (unat w) n" by (simp add: bit_iff_odd)
  then show ?thesis by (simp add: bit_unsigned_iff)
qed

lemma bit_key_word:
  assumes "n < 64"
  shows "bit (key_word m r e i srb tag) n \<longleftrightarrow> (n < 16 \<and> bit m n) \<or> (8 \<le> n \<and> n < 24 \<and> bit r (n - 8)) \<or> (n = 24 \<and> e)
    \<or> (25 \<le> n \<and> bit i (n - 25)) \<or> (n = 33 \<and> srb) \<or> (34 \<le> n \<and> bit tag (n - 34))"
  using assms bit_imp_le_length [of m n] bit_imp_le_length [of r "n - 8"]
  by (auto simp: key_word_def bit_simps)

lemma key_word_inj:
  assumes "unat m < 256" "unat m' < 256" "unat i < 256" "unat i' < 256" "unat t < 16" "unat t' < 16"
    and eq: "key_word m r e i srb t = key_word m' r' e' i' srb' t'"
  shows "m = m' \<and> r = r' \<and> e = e' \<and> i = i' \<and> srb = srb' \<and> t = t'"
proof -
  have hi: "\<not> bit m n" "\<not> bit m' n" "\<not> bit i n" "\<not> bit i' n" if "8 \<le> n" for n
    using that assms(1-4) by (simp_all add: bit_low [where k = 8])
  have ht: "\<not> bit t n" "\<not> bit t' n" if "4 \<le> n" for n using that assms(5,6) by (simp_all add: bit_low [where k = 4])
  have hr: "\<not> bit r n" "\<not> bit r' n" if "16 \<le> n" for n using that bit_imp_le_length by fastforce+
  have b: "bit (key_word m r e i srb t) n = bit (key_word m' r' e' i' srb' t') n" for n using eq by simp
  have "bit m n = bit m' n" for n
    using b [of n] bit_key_word [of n m] bit_key_word [of n m'] hi [of n] by (cases "n < 8") auto
  moreover have "bit r n = bit r' n" for n
    using b [of "n + 8"] bit_key_word [of "n + 8" m] bit_key_word [of "n + 8" m'] hi [of "n + 8"] hr [of n] by (cases "n < 16") auto
  moreover have "e = e'" using b [of 24] bit_key_word [of 24 m] bit_key_word [of 24 m'] hi [of 24] by auto
  moreover have "bit i n = bit i' n" for n
    using b [of "n + 25"] bit_key_word [of "n + 25" m] bit_key_word [of "n + 25" m'] hi [of n] by (cases "n < 8") auto
  moreover have "srb = srb'" using b [of 33] bit_key_word [of 33 m] bit_key_word [of 33 m'] hi [of 33] hi [of 8] by auto
  moreover have "bit t n = bit t' n" for n
    using b [of "n + 34"] bit_key_word [of "n + 34" m] bit_key_word [of "n + 34" m'] hi [of "n + 34"] hi [of "9 + n"] ht [of n]
    by (cases "n < 4") auto
  ultimately show ?thesis by (auto intro: bit_eqI)
qed

lemma ucast_small [simp]: "unat (ucast (w :: 16 word) :: 64 word) = unat w" "unat (ucast (v :: 32 word) :: 64 word) = unat v"
proof -
  have "unat w < 2 ^ LENGTH(16)" "unat v < 2 ^ LENGTH(32)" by (rule unsigned_less)+
  then show "unat (ucast w :: 64 word) = unat w" "unat (ucast v :: 64 word) = unat v"
    by (simp_all add: unsigned_ucast_eq take_bit_nat_eq_self)
qed

definition ue_of :: "protocol_ctxt \<Rightarrow> 16 word \<times> 16 word \<times> bool" where
  "ue_of c = (module_id c, rnti c, enb_flag c)"

abbreviation small_ctxt :: "protocol_ctxt \<Rightarrow> bool" where
  "small_ctxt c \<equiv> unat (module_id c) < 256"

lemma rb_key_inj:
  assumes "small_ctxt c" "small_ctxt c'" "unat rb < 256" "unat rb' < 256" "rb_key c rb srb = rb_key c' rb' srb'"
  shows "ue_of c = ue_of c' \<and> rb = rb' \<and> srb = srb'"
proof -
  have "(ucast rb :: 64 word) = ucast rb' \<and> ue_of c = ue_of c' \<and> srb = srb'"
    using key_word_inj [OF _ _ _ _ _ _ assms(5) [unfolded rb_key_word]] assms(1-4) by (simp add: ue_of_def)
  then show ?thesis by (metis ucast_small(1) word_unat_eq_iff)
qed

lemma lc_key_inj:
  assumes "small_ctxt c" "small_ctxt c'" "unat lc < 256" "unat lc' < 256" "lc_key c lc srb = lc_key c' lc' srb'"
  shows "ue_of c = ue_of c' \<and> lc = lc' \<and> srb = srb'"
proof -
  have "(ucast lc :: 64 word) = ucast lc' \<and> ue_of c = ue_of c' \<and> srb = srb'"
    using key_word_inj [OF _ _ _ _ _ _ assms(5) [unfolded lc_key_word]] assms(1-4) by (simp add: ue_of_def)
  then show ?thesis by (metis ucast_small(2) word_unat_eq_iff)
qed

lemma rb_key_not_lc_key:
  assumes "small_ctxt c" "small_ctxt c'" "unat rb < 256" "unat lc < 256"
  shows "rb_key c rb srb \<noteq> lc_key c' lc srb'"
proof
  assume "rb_key c rb srb = lc_key c' lc srb'"
  from key_word_inj [OF _ _ _ _ _ _ this [unfolded rb_key_word lc_key_word]] assms show False by simp
qed

section \<open>The invariant of the layer\<close>

text \<open>The entity a key leads to; no key leads to NULL or to released memory, and fresh addresses are unused.\<close>

definition rlc_addr :: "'am rlc_layer \<Rightarrow> 64 word \<rightharpoonup> nat" where
  "rlc_addr s key = (case rlc_coll_p s of None \<Rightarrow> None | Some t \<Rightarrow> Option.bind (ht_map t key) (\<lambda>d. d))"

definition rlc_layer_ok :: "'am rlc_layer \<Rightarrow> bool" where
  "rlc_layer_ok s \<longleftrightarrow> (\<exists>t. rlc_coll_p s = Some t \<and> ht_ok t
     \<and> (\<forall>k d. ht_map t k = Some d \<longrightarrow> (\<exists>a u. d = Some a \<and> rlc_objs s a = Some u)) \<and> (\<forall>a u. rlc_objs s a = Some u \<longrightarrow> a < rlc_brk s))"

lemma layer_okE:
  assumes "rlc_layer_ok s"
  obtains t where "rlc_coll_p s = Some t" "ht_ok t" "\<And>k d. ht_map t k = Some d \<Longrightarrow> \<exists>a u. d = Some a \<and> rlc_objs s a = Some u"
    "\<And>a u. rlc_objs s a = Some u \<Longrightarrow> a < rlc_brk s"
  using assms unfolding rlc_layer_ok_def by blast

lemma addr_obj: "rlc_layer_ok s \<Longrightarrow> rlc_addr s k = Some a \<Longrightarrow> \<exists>u. rlc_objs s a = Some u"
  by (erule layer_okE) (auto simp: rlc_addr_def bind_eq_Some_conv)

lemma layer_get:
  assumes "rlc_layer_ok s"
  shows "hashtable_get (rlc_coll_p s) k = (case rlc_addr s k of None \<Rightarrow> (HASH_TABLE_KEY_NOT_EXISTS, None) | Some a \<Rightarrow> (HASH_TABLE_OK, Some a))"
proof -
  obtain t where t: "rlc_coll_p s = Some t" "\<And>k d. ht_map t k = Some d \<Longrightarrow> \<exists>a u. d = Some a \<and> rlc_objs s a = Some u"
    using assms by (rule layer_okE) blast
  show ?thesis using t(2) [of k] by (cases "ht_map t k") (auto simp: hashtable_get_def rlc_addr_def t(1) ht_map_def)
qed

lemma layer_deref:
  assumes "rlc_objs s a = Some u"
  shows "rlc_deref s (Some a) = Some (a, u)"
  using assms by (simp add: rlc_deref_def)

lemma store_simps [simp]:
  "rlc_coll_p (rlc_store a u s) = rlc_coll_p s" "rlc_objs (rlc_store a u s) = (rlc_objs s)(a \<mapsto> u)" "rlc_brk (rlc_store a u s) = rlc_brk s"
  "rlc_addr (rlc_store a u s) = rlc_addr s"
  by (simp_all add: rlc_store_def rlc_addr_def fun_eq_iff)

lemma layer_ok_store: "rlc_layer_ok s \<Longrightarrow> rlc_objs s a = Some v \<Longrightarrow> rlc_layer_ok (rlc_store a u s)"
  by (erule layer_okE) (fastforce simp: rlc_layer_ok_def)

text \<open>Insertion of a fresh key and removal of a key.\<close>

lemma coll_insert_fresh:
  assumes ok: "rlc_layer_ok s" and k: "rlc_addr s k = None" and a: "rlc_objs s a = Some u"
  shows "\<exists>s'. coll_insert ops True k a s = Some (HASH_TABLE_OK, s') \<and> rlc_layer_ok s' \<and> rlc_addr s' = (rlc_addr s)(k \<mapsto> a)
    \<and> rlc_objs s' = rlc_objs s \<and> rlc_brk s' = rlc_brk s"
proof -
  obtain t where t: "rlc_coll_p s = Some t" "ht_ok t" "\<And>k d. ht_map t k = Some d \<Longrightarrow> \<exists>a u. d = Some a \<and> rlc_objs s a = Some u"
    "\<And>a u. rlc_objs s a = Some u \<Longrightarrow> a < rlc_brk s" using ok by (rule layer_okE) blast
  have none: "ht_map t k = None" using k t(1) t(3) [of k] by (cases "ht_map t k") (auto simp: rlc_addr_def)
  have fr: "freed (ht_put k (Some a) t) = freed t"
    using none by (simp add: ht_put_def hashtable_insert_def ht_map_def Let_def)
  let ?s = "s\<lparr>rlc_coll_p := Some (ht_put k (Some a) t)\<rparr>"
  have "coll_insert ops True k a s = Some (HASH_TABLE_OK, ?s)"
    using hashtable_insert_eq(1) [OF t(2), of k "Some a"] none fr t(1) by (simp add: coll_insert_def set_coll_def ht_freed_def)
  moreover have m: "ht_map (ht_put k (Some a) t) = (ht_map t)(k \<mapsto> Some a)" by (rule hashtable_insert_eq(3) [OF t(2)])
  then have "rlc_addr ?s = (rlc_addr s)(k \<mapsto> a)" using t(1) by (auto simp: rlc_addr_def fun_eq_iff)
  moreover have "rlc_layer_ok ?s" unfolding rlc_layer_ok_def
    using hashtable_insert_eq(2) [OF t(2), of k "Some a"] m t(3,4) a by (auto simp: fun_upd_apply split: if_splits)
  ultimately show ?thesis by simp
qed

lemma coll_remove_key:
  assumes ok: "rlc_layer_ok s" and k: "rlc_addr s k = Some a" and u: "rlc_objs s a = Some u"
  shows "\<exists>s'. coll_remove ops k s = Some (HASH_TABLE_OK, s') \<and> rlc_layer_ok s' \<and> rlc_addr s' = (rlc_addr s)(k := None)
    \<and> rlc_objs s' = (rlc_objs s)(a \<mapsto> union_cleanup ops u) \<and> rlc_brk s' = rlc_brk s"
proof -
  obtain t where t: "rlc_coll_p s = Some t" "ht_ok t" "\<And>k d. ht_map t k = Some d \<Longrightarrow> \<exists>a u. d = Some a \<and> rlc_objs s a = Some u"
    "\<And>a u. rlc_objs s a = Some u \<Longrightarrow> a < rlc_brk s" using ok by (rule layer_okE) blast
  have some: "ht_map t k = Some (Some a)" using k t(1) by (auto simp: rlc_addr_def split: Option.bind_splits)
  have fr: "freed (ht_del k t) = freed t @ [a]" using hashtable_remove_eq(5) [OF t(2), of k] some by simp
  let ?s = "rlc_store a (union_cleanup ops u) (s\<lparr>rlc_coll_p := Some (ht_del k t)\<rparr>)"
  have "coll_remove ops k s = Some (HASH_TABLE_OK, ?s)"
    using hashtable_remove_eq(1) [OF t(2), of k] some fr t(1) u
    by (simp add: coll_remove_def set_coll_def ht_freed_def rb_free_rlc_union_def)
  moreover have m: "ht_map (ht_del k t) = (ht_map t)(k := None)" by (rule hashtable_remove_eq(3) [OF t(2)])
  then have "rlc_addr ?s = (rlc_addr s)(k := None)" using t(1) by (auto simp: rlc_addr_def fun_eq_iff)
  moreover have "rlc_layer_ok ?s" unfolding rlc_layer_ok_def
    using hashtable_remove_eq(2) [OF t(2), of k] m t(3,4) u by (fastforce simp: fun_upd_apply split: if_splits)
  ultimately show ?thesis by simp
qed

section \<open>Adding a bearer\<close>

definition add_env_ok :: add_env where
  "add_env_ok = \<lparr>calloc_union_ok = True, malloc_rb_ok = True, malloc_lc_ok = True\<rparr>"

lemma layer_ok_fresh:
  assumes "rlc_layer_ok s"
  shows "rlc_layer_ok ((rlc_store (rlc_brk s) u s)\<lparr>rlc_brk := Suc (rlc_brk s)\<rparr>)" "rlc_objs s (rlc_brk s) = None"
proof -
  obtain t where t: "rlc_coll_p s = Some t" "ht_ok t" "\<And>k d. ht_map t k = Some d \<Longrightarrow> \<exists>a u. d = Some a \<and> rlc_objs s a = Some u"
    "\<And>a u. rlc_objs s a = Some u \<Longrightarrow> a < rlc_brk s" using assms by (rule layer_okE) blast
  show n: "rlc_objs s (rlc_brk s) = None" using t(4) by (cases "rlc_objs s (rlc_brk s)") blast+
  have "rlc_objs s a = Some v \<Longrightarrow> a < Suc (rlc_brk s)" for a v using t(4) [of a v] by simp
  then show "rlc_layer_ok ((rlc_store (rlc_brk s) u s)\<lparr>rlc_brk := Suc (rlc_brk s)\<rparr>)"
    unfolding rlc_layer_ok_def using t(1-3) n by (auto simp: fun_upd_apply split: if_splits) (metis option.distinct(1))+
qed

lemma add_new:
  assumes ok: "rlc_layer_ok s" and free: "rlc_addr s key = None" "rlc_addr s key_lcid = None" "key \<noteq> key_lcid"
  shows "\<exists>s'. rlc_add_new ops add_env_ok key key_lcid mode s = Some (Some (rlc_brk s), s') \<and> rlc_layer_ok s'
    \<and> rlc_addr s' = (rlc_addr s)(key \<mapsto> rlc_brk s, key_lcid \<mapsto> rlc_brk s)
    \<and> rlc_objs s' = (rlc_objs s)(rlc_brk s \<mapsto> mode_zero ops mode)"
proof -
  let ?a = "rlc_brk s"
  define s1 where "s1 = (rlc_store ?a Rlc_none s)\<lparr>rlc_brk := Suc ?a\<rparr>"
  have s1: "rlc_layer_ok s1" "rlc_addr s1 = rlc_addr s" "rlc_objs s1 = (rlc_objs s)(?a \<mapsto> Rlc_none)"
    using layer_ok_fresh(1) [OF ok] by (simp_all add: s1_def) (simp add: rlc_addr_def fun_eq_iff)
  obtain s2 where s2: "coll_insert ops True key ?a s1 = Some (HASH_TABLE_OK, s2)" "rlc_layer_ok s2"
    "rlc_addr s2 = (rlc_addr s)(key \<mapsto> ?a)" "rlc_objs s2 = rlc_objs s1"
    using coll_insert_fresh [OF s1(1), of key ?a Rlc_none ops] free(1) s1(2,3) by auto
  obtain s3 where s3: "coll_insert ops True key_lcid ?a s2 = Some (HASH_TABLE_OK, s3)" "rlc_layer_ok s3"
    "rlc_addr s3 = (rlc_addr s2)(key_lcid \<mapsto> ?a)" "rlc_objs s3 = rlc_objs s1"
    using coll_insert_fresh [OF s2(2), of key_lcid ?a Rlc_none ops] free(2,3) s2(3,4) s1(3) by auto
  let ?s = "rlc_store ?a (mode_zero ops mode) s3"
  have "rlc_add_new ops add_env_ok key key_lcid mode s = Some (Some ?a, ?s)"
    using s2(1) s3(1) by (simp add: rlc_add_new_def add_env_ok_def s1_def Let_def)
  moreover have "rlc_layer_ok ?s" using layer_ok_store [OF s3(2)] s3(4) s1(3) by simp
  moreover have "rlc_addr ?s = (rlc_addr s)(key \<mapsto> ?a, key_lcid \<mapsto> ?a)" using s2(3) s3(3) by simp
  moreover have "rlc_objs ?s = (rlc_objs s)(?a \<mapsto> mode_zero ops mode)" using s3(4) s1(3) by simp
  ultimately show ?thesis by blast
qed

text \<open>
  C13. The keys of the collection identify the bearers: among eNB or UE instances below 256 and bearer or channel numbers
  below 256, two radio bearer keys are equal only for the same instance, RNTI, side, bearer and plane, so are two logical
  channel keys, and no radio bearer key is a logical channel key.
\<close>

theorem rlc_keys_distinct:
  assumes "unat (module_id c) < 256" "unat (module_id c') < 256" "unat rb < 256" "unat rb' < 256" "unat lc < 256" "unat lc' < 256"
  shows "(rb_key c rb srb = rb_key c' rb' srb' \<longleftrightarrow> ue_of c = ue_of c' \<and> rb = rb' \<and> srb = srb')
    \<and> (lc_key c lc srb = lc_key c' lc' srb' \<longleftrightarrow> ue_of c = ue_of c' \<and> lc = lc' \<and> srb = srb')
    \<and> rb_key c rb srb \<noteq> lc_key c' lc srb'"
  using rb_key_inj [OF assms(1-4), of srb srb'] lc_key_inj [OF assms(1,2,5,6), of srb srb'] rb_key_not_lc_key [OF assms(1,2,3,5), of srb srb']
  by (auto simp: ue_of_def rb_key_def lc_key_def)

theorem rlc_keys_distinct_witness:
  "let c = \<lparr>module_id = 0, enb_flag = True, rnti = 0x1234, frame = 0, subframe = 0\<rparr> in
   rb_key c 3 False \<noteq> rb_key c 3 True \<and> rb_key c 3 False \<noteq> lc_key c 3 False"
  using rlc_keys_distinct [of "\<lparr>module_id = 0, enb_flag = True, rnti = 0x1234, frame = 0, subframe = 0\<rparr>"
      "\<lparr>module_id = 0, enb_flag = True, rnti = 0x1234, frame = 0, subframe = 0\<rparr>" 3 3 3 3 False True]
    rlc_keys_distinct [of "\<lparr>module_id = 0, enb_flag = True, rnti = 0x1234, frame = 0, subframe = 0\<rparr>"
      "\<lparr>module_id = 0, enb_flag = True, rnti = 0x1234, frame = 0, subframe = 0\<rparr>" 3 3 3 3 False False]
  by (simp add: Let_def)

lemma add_rlc_new:
  assumes "rlc_layer_ok s" "small_ctxt ctxt" "unat lc < 256" "unat rb < 14" "rlc_addr s (rb_key ctxt rb srb) = None" "rlc_addr s (lc_key ctxt lc srb) = None"
  shows "\<exists>s'. rrc_rlc_add_rlc ops add_env_ok ctxt srb False rb lc mode 0 0 s = Some (Some (rlc_brk s), s') \<and> rlc_layer_ok s'
        \<and> rlc_objs s (rlc_brk s) = None
        \<and> rlc_addr s' = (rlc_addr s)(rb_key ctxt rb srb \<mapsto> rlc_brk s, lc_key ctxt lc srb \<mapsto> rlc_brk s)
        \<and> rlc_objs s' = (rlc_objs s)(rlc_brk s \<mapsto> mode_zero ops mode)"
proof -
  have "rb_key ctxt rb srb \<noteq> lc_key ctxt lc srb" using rb_key_not_lc_key [OF assms(2,2) _ assms(3)] assms(4) by simp
  then show ?thesis
    using add_new [OF assms(1,5,6), of ops mode] layer_get [OF assms(1), of "rb_key ctxt rb srb"] layer_ok_fresh(2) [OF assms(1)] assms(3-6)
    by (simp add: rrc_rlc_add_rlc_def Let_def)
qed

text \<open>
  C10. \<open>rrc_rlc_add_rlc\<close> when memory is not exhausted. A bearer that exists is returned if its mode is the requested one,
  and nothing changes. For a new bearer on a logical channel below 256 whose key is free, one entity is created, zeroed and of
  the requested mode, both keys lead to it, every other key and entity is as before, and every key still leads to a live
  entity. A bearer number of 14 or more and a channel number of 528 or more are refused and nothing changes.
\<close>

theorem rrc_rlc_add_rlc_spec:
  assumes "rlc_layer_ok s" "small_ctxt ctxt"
  shows "(unat rb < 14 \<and> unat lc < 528 \<and> rlc_addr s (rb_key ctxt rb srb) = Some a \<and> rlc_objs s a = Some u \<longrightarrow>
      rrc_rlc_add_rlc ops add_env_ok ctxt srb False rb lc mode 0 0 s = Some (if union_mode u = mode then Some a else None, s))
    \<and> (unat rb < 14 \<and> unat lc < 256 \<and> rlc_addr s (rb_key ctxt rb srb) = None \<and> rlc_addr s (lc_key ctxt lc srb) = None \<longrightarrow>
      (\<exists>s'. rrc_rlc_add_rlc ops add_env_ok ctxt srb False rb lc mode 0 0 s = Some (Some (rlc_brk s), s') \<and> rlc_layer_ok s'
        \<and> rlc_objs s (rlc_brk s) = None
        \<and> rlc_addr s' = (rlc_addr s)(rb_key ctxt rb srb \<mapsto> rlc_brk s, lc_key ctxt lc srb \<mapsto> rlc_brk s)
        \<and> rlc_objs s' = (rlc_objs s)(rlc_brk s \<mapsto> mode_zero ops mode)))
    \<and> (14 \<le> unat rb \<or> 528 \<le> unat lc \<longrightarrow> rrc_rlc_add_rlc ops add_env_ok ctxt srb False rb lc mode 0 0 s = Some (None, s))"
proof (intro conjI impI; (elim conjE)?)
  assume "unat rb < 14" "unat lc < 528" "rlc_addr s (rb_key ctxt rb srb) = Some a" "rlc_objs s a = Some u"
  then show "rrc_rlc_add_rlc ops add_env_ok ctxt srb False rb lc mode 0 0 s = Some (if union_mode u = mode then Some a else None, s)"
    using layer_get [OF assms(1)] layer_deref [of s a u] by (simp add: rrc_rlc_add_rlc_def Let_def)
next
  assume h: "unat rb < 14" "unat lc < 256" "rlc_addr s (rb_key ctxt rb srb) = None" "rlc_addr s (lc_key ctxt lc srb) = None"
  show "\<exists>s'. rrc_rlc_add_rlc ops add_env_ok ctxt srb False rb lc mode 0 0 s = Some (Some (rlc_brk s), s') \<and> rlc_layer_ok s'
        \<and> rlc_objs s (rlc_brk s) = None
        \<and> rlc_addr s' = (rlc_addr s)(rb_key ctxt rb srb \<mapsto> rlc_brk s, lc_key ctxt lc srb \<mapsto> rlc_brk s)
        \<and> rlc_objs s' = (rlc_objs s)(rlc_brk s \<mapsto> mode_zero ops mode)"
    by (rule add_rlc_new [OF assms h(2,1,3,4)])
next
  assume "14 \<le> unat rb \<or> 528 \<le> unat lc"
  then show "rrc_rlc_add_rlc ops add_env_ok ctxt srb False rb lc mode 0 0 s = Some (None, s)" by (auto simp: rrc_rlc_add_rlc_def)
qed

definition empty_layer :: "nat \<Rightarrow> 'am rlc_layer" where
  "empty_layer n = \<lparr>rlc_coll_p = hashtable_create n None True True 0, rlc_objs = (\<lambda>_. None), rlc_brk = 0,
     lcid2service_session_id_ue = (\<lambda>_ _. (0, 0)), lcid2service_session_id_eNB = (\<lambda>_ _. (0, 0)), rbid2lcid_ue = (\<lambda>_ _. 0), rbid2lcid_eNB = (\<lambda>_ _. 0)\<rparr>"

lemma empty_layer_ok:
  assumes "0 < n"
  shows "rlc_layer_ok (empty_layer n :: 'am rlc_layer)" "rlc_addr (empty_layer n :: 'am rlc_layer) k = None" "rlc_brk (empty_layer n :: 'am rlc_layer) = 0"
proof -
  let ?t = "\<lparr>ht_size = n, num_elements = 0, nodes = replicate n [], hashfunc = def_hashfunc, freed = []\<rparr> :: nat hash_table"
  have c: "rlc_coll_p (empty_layer n :: 'am rlc_layer) = Some ?t" by (simp add: empty_layer_def hashtable_create_def)
  have m: "ht_map ?t k = None" for k using assms by (simp add: ht_map_def slot_def)
  have "ht_ok ?t" using assms by (simp add: ht_ok_def)
  then show "rlc_layer_ok (empty_layer n :: 'am rlc_layer)" using c m by (simp add: rlc_layer_ok_def) (simp add: empty_layer_def)
  show "rlc_addr (empty_layer n :: 'am rlc_layer) k = None" using c m by (simp add: rlc_addr_def)
  show "rlc_brk (empty_layer n :: 'am rlc_layer) = 0" by (simp add: empty_layer_def)
qed

text \<open>A layer without acknowledged mode, for examples.\<close>

definition no_am :: "(unit, unit, unit) am_ops" where
  "no_am = \<lparr>am_zero = (), am_channel_id = (\<lambda>_. 0), rlc_am_cleanup = id, rlc_am_data_req = (\<lambda>_ _ _ _. Some), rlc_am_mac_status_indication = (\<lambda>_ _ _. None),
     rlc_am_set_nb_bytes_requested_by_mac = (\<lambda>_. id), rlc_am_mac_data_request = (\<lambda>_ e. Some ([], e)), rlc_am_mac_data_indication = (\<lambda>_ _. Some),
     rlc_am_get_buffer_occupancy_in_bytes = (\<lambda>_ e. (0, e)), am_config = (\<lambda>_ _ _ _ _. id), am_config_asn1 = (\<lambda>_ _ _ _ _. id), am_default_asn1 = ()\<rparr>"

theorem rrc_rlc_add_rlc_spec_witness:
  "\<exists>s'. rrc_rlc_add_rlc no_am add_env_ok \<lparr>module_id = 0, enb_flag = True, rnti = 7, frame = 0, subframe = 0\<rparr>
      False False 1 3 RLC_MODE_UM 0 0 (empty_layer 208) = Some (Some 0, s')
    \<and> rlc_addr s' (lc_key \<lparr>module_id = 0, enb_flag = True, rnti = 7, frame = 0, subframe = 0\<rparr> 3 False) = Some 0 \<and> rlc_objs s' 0 = Some (Rlc_um rlc_um_zero)"
  using rrc_rlc_add_rlc_spec [OF empty_layer_ok(1) [of 208], of "\<lparr>module_id = 0, enb_flag = True, rnti = 7, frame = 0, subframe = 0\<rparr>" 1 3 False 0
      Rlc_none no_am RLC_MODE_UM]
  by (auto simp: empty_layer_ok)

section \<open>Data of a bearer\<close>

lemma data_req_frame:
  assumes ok: "rlc_layer_ok s" and r: "rlc_data_req ops blk ctxt srb False rb mui conf sz sdu s = Some (st, s')"
  shows "rlc_layer_ok s'" "rlc_addr s' = rlc_addr s" "\<And>b. rlc_addr s (rb_key ctxt rb srb) \<noteq> Some b \<Longrightarrow> rlc_objs s' b = rlc_objs s b"
    "st \<noteq> RLC_OP_STATUS_OK \<Longrightarrow> rlc_objs s' = rlc_objs s"
proof -
  have "s' = s \<or> (\<exists>a u u'. rlc_addr s (rb_key ctxt rb srb) = Some a \<and> rlc_objs s a = Some u \<and> s' = rlc_store a u' s \<and> (st \<noteq> RLC_OP_STATUS_OK \<longrightarrow> u' = u))"
  proof (cases "rlc_addr s (rb_key ctxt rb srb)")
    case None
    then show ?thesis using r layer_get [OF ok] by (auto simp: rlc_data_req_def split: if_splits option.splits)
  next
    case (Some a)
    obtain u where u: "rlc_objs s a = Some u" using addr_obj [OF ok Some] by blast
    have g: "hashtable_get (rlc_coll_p s) (rb_key ctxt rb srb) = (HASH_TABLE_OK, Some a)" using layer_get [OF ok] Some by simp
    have keep: "union_data_req ops blk ctxt mui conf m sz u = Some (st, u') \<Longrightarrow> st \<noteq> RLC_OP_STATUS_OK \<Longrightarrow> u' = u" for m u'
      by (auto simp: union_data_req_def Let_def split: rlc_union.splits option.splits if_splits)
    show ?thesis using r g keep u layer_deref [OF u] Some
      by (auto simp: rlc_data_req_def split: if_splits option.splits)
  qed
  then show "rlc_layer_ok s'" "rlc_addr s' = rlc_addr s" "\<And>b. rlc_addr s (rb_key ctxt rb srb) \<noteq> Some b \<Longrightarrow> rlc_objs s' b = rlc_objs s b"
    "st \<noteq> RLC_OP_STATUS_OK \<Longrightarrow> rlc_objs s' = rlc_objs s"
    using ok layer_ok_store by auto
qed

text \<open>
  C12. \<open>rlc_data_req\<close> reaches the entity of the bearer and no other. A call that returns keeps the collection and every
  entity but the addressed one, and a status other than success leaves that one as it was too; every key still leads to a
  live entity. A bearer number out of range, a missing or empty SDU and an unknown bearer are refused.
\<close>

theorem rlc_data_req_dispatch:
  assumes "rlc_layer_ok s"
  shows "(rlc_data_req ops blk ctxt srb False rb mui conf sz sdu s = Some (st, s') \<longrightarrow>
      rlc_layer_ok s' \<and> rlc_addr s' = rlc_addr s \<and> (\<forall>b. rlc_addr s (rb_key ctxt rb srb) \<noteq> Some b \<longrightarrow> rlc_objs s' b = rlc_objs s b)
      \<and> (st \<noteq> RLC_OP_STATUS_OK \<longrightarrow> rlc_objs s' = rlc_objs s))
    \<and> (14 \<le> unat rb \<or> sdu = None \<or> sz \<le> 0 \<longrightarrow>
        rlc_data_req ops blk ctxt srb False rb mui conf sz sdu s = Some (RLC_OP_STATUS_BAD_PARAMETER, s))
    \<and> (unat rb < 14 \<and> sdu \<noteq> None \<and> 0 < sz \<and> rlc_addr s (rb_key ctxt rb srb) = None \<longrightarrow>
        rlc_data_req ops blk ctxt srb False rb mui conf sz sdu s = Some (RLC_OP_STATUS_OUT_OF_RESSOURCES, s))"
proof (intro conjI impI)
  assume r: "rlc_data_req ops blk ctxt srb False rb mui conf sz sdu s = Some (st, s')"
  note d = data_req_frame [OF assms r]
  show "rlc_layer_ok s'" "rlc_addr s' = rlc_addr s" by (fact d)+
  show "\<forall>b. rlc_addr s (rb_key ctxt rb srb) \<noteq> Some b \<longrightarrow> rlc_objs s' b = rlc_objs s b" using d(3) by blast
  show "st \<noteq> RLC_OP_STATUS_OK \<Longrightarrow> rlc_objs s' = rlc_objs s" by (rule d(4))
qed (auto simp: rlc_data_req_def layer_get [OF assms] split: option.splits)

theorem rlc_data_req_dispatch_witness:
  "rlc_data_req no_am None \<lparr>module_id = 0, enb_flag = True, rnti = 7, frame = 0, subframe = 0\<rparr> False False 2 0 0 40 (Some (\<lambda>_. 0)) (empty_layer 208)
     = Some (RLC_OP_STATUS_OUT_OF_RESSOURCES, empty_layer 208)"
proof -
  have e: "rlc_layer_ok (empty_layer 208 :: unit rlc_layer)" by (rule empty_layer_ok) simp
  show ?thesis
    using rlc_data_req_dispatch [OF e, of no_am None "\<lparr>module_id = 0, enb_flag = True, rnti = 7, frame = 0, subframe = 0\<rparr>" False 2 0 0 40 "Some (\<lambda>_. 0)"]
    by (simp add: empty_layer_ok)
qed

section \<open>Releasing bearers\<close>

lemma coll_insert_used:
  assumes ok: "rlc_layer_ok s" and k: "rlc_addr s k = Some b" "rlc_objs s b = Some v" and a: "rlc_objs s a = Some u" "a \<noteq> b"
  shows "\<exists>s'. coll_insert ops m k a s = Some (HASH_TABLE_INSERT_OVERWRITTEN_DATA, s') \<and> rlc_addr s' = (rlc_addr s)(k \<mapsto> a)
    \<and> rlc_objs s' = (rlc_objs s)(b \<mapsto> union_cleanup ops v)"
proof -
  obtain t where t: "rlc_coll_p s = Some t" "ht_ok t" using ok by (rule layer_okE) blast
  have some: "ht_map t k = Some (Some b)" using k(1) t(1) by (auto simp: rlc_addr_def bind_eq_Some_conv)
  have ins: "hashtable_insert m (Some t) k (Some a) = (HASH_TABLE_INSERT_OVERWRITTEN_DATA, Some (ht_put k (Some a) t))"
    and fr: "freed (ht_put k (Some a) t) = freed t @ [b]"
    using some by (simp_all add: ht_put_def hashtable_insert_def ht_map_def Let_def call_freefunc_def)
  let ?s = "rlc_store b (union_cleanup ops v) (s\<lparr>rlc_coll_p := Some (ht_put k (Some a) t)\<rparr>)"
  have "coll_insert ops m k a s = Some (HASH_TABLE_INSERT_OVERWRITTEN_DATA, ?s)"
    using ins fr t(1) k(2) by (simp add: coll_insert_def set_coll_def ht_freed_def rb_free_rlc_union_def)
  moreover have "ht_map (ht_put k (Some a) t) = (ht_map t)(k \<mapsto> Some a)" by (rule hashtable_insert_eq(3) [OF t(2)])
  then have "rlc_addr ?s = (rlc_addr s)(k \<mapsto> a)" using t(1) by (auto simp: rlc_addr_def fun_eq_iff)
  ultimately show ?thesis by simp
qed

text \<open>
  C16. A new bearer on a logical channel that another bearer uses: \<open>rrc_rlc_add_rlc\<close> fails, but the entity of the other
  bearer has been cleaned up, and both the key of the new bearer and that of the channel lead to the entity that was
  released again: the invariant of the layer is lost.
\<close>

theorem rrc_rlc_add_rlc_channel_in_use:
  assumes ok: "rlc_layer_ok s" and c: "small_ctxt ctxt" "unat lc < 256" "unat rb < 14"
    and h: "rlc_addr s (rb_key ctxt rb srb) = None" "rlc_addr s (lc_key ctxt lc srb) = Some b" "rlc_objs s b = Some v"
  shows "\<exists>s'. rrc_rlc_add_rlc ops add_env_ok ctxt srb False rb lc mode 0 0 s = Some (None, s') \<and> rlc_objs s' b = Some (union_cleanup ops v)
    \<and> rlc_addr s' (rb_key ctxt rb srb) = Some (rlc_brk s) \<and> rlc_addr s' (lc_key ctxt lc srb) = Some (rlc_brk s) \<and> rlc_objs s' (rlc_brk s) = None
    \<and> \<not> rlc_layer_ok s'"
proof -
  let ?a = "rlc_brk s" and ?k = "rb_key ctxt rb srb" and ?l = "lc_key ctxt lc srb"
  have kl: "?k \<noteq> ?l" using rb_key_not_lc_key [OF c(1,1) _ c(2)] c(3) by simp
  define s1 where "s1 = (rlc_store ?a Rlc_none s)\<lparr>rlc_brk := Suc ?a\<rparr>"
  have ab: "?a \<noteq> b" using layer_ok_fresh(2) [OF ok] h(3) by auto
  have s1: "rlc_layer_ok s1" "rlc_addr s1 = rlc_addr s" "rlc_objs s1 = (rlc_objs s)(?a \<mapsto> Rlc_none)"
    using layer_ok_fresh(1) [OF ok] by (simp_all add: s1_def) (simp add: rlc_addr_def fun_eq_iff)
  obtain s2 where s2: "coll_insert ops True ?k ?a s1 = Some (HASH_TABLE_OK, s2)" "rlc_layer_ok s2"
    "rlc_addr s2 = (rlc_addr s)(?k \<mapsto> ?a)" "rlc_objs s2 = rlc_objs s1"
    using coll_insert_fresh [OF s1(1), of ?k ?a Rlc_none ops] h(1) s1(2,3) by auto
  obtain s3 where s3: "coll_insert ops True ?l ?a s2 = Some (HASH_TABLE_INSERT_OVERWRITTEN_DATA, s3)"
    "rlc_addr s3 = (rlc_addr s2)(?l \<mapsto> ?a)" "rlc_objs s3 = (rlc_objs s2)(b \<mapsto> union_cleanup ops v)"
    using coll_insert_used [OF s2(2), of ?l b v ?a Rlc_none ops True] h s2(3,4) s1(3) kl ab by auto
  let ?s = "s3\<lparr>rlc_objs := (rlc_objs s3)(?a := None)\<rparr>"
  have new: "rlc_add_new ops add_env_ok ?k ?l mode s = Some (None, ?s)"
    using s2(1) s3(1) by (simp add: rlc_add_new_def add_env_ok_def s1_def Let_def)
  then have add: "rrc_rlc_add_rlc ops add_env_ok ctxt srb False rb lc mode 0 0 s = Some (None, ?s)"
    using layer_get [OF ok, of ?k] h(1) c by (simp add: rrc_rlc_add_rlc_def Let_def)
  have ad: "rlc_addr ?s = rlc_addr s3" by (simp add: rlc_addr_def fun_eq_iff)
  then have k: "rlc_addr ?s ?k = Some ?a" "rlc_addr ?s ?l = Some ?a" using s3(2) s2(3) by auto
  then have "\<not> rlc_layer_ok ?s" using addr_obj [of ?s ?k ?a] by auto
  then show ?thesis using add k s3(3) ab by (intro exI [of _ ?s]) auto
qed

definition chan_busy_layer :: "unit rlc_layer" where
  "chan_busy_layer = snd (the (rrc_rlc_add_rlc no_am add_env_ok \<lparr>module_id = 0, enb_flag = True, rnti = 7, frame = 0, subframe = 0\<rparr>
      False False 1 3 RLC_MODE_UM 0 0 (empty_layer 208)))"

lemma chan_busy_layer:
  "rlc_layer_ok chan_busy_layer"
  "rlc_addr chan_busy_layer = [rb_key \<lparr>module_id = 0, enb_flag = True, rnti = 7, frame = 0, subframe = 0\<rparr> 1 False \<mapsto> 0,
     lc_key \<lparr>module_id = 0, enb_flag = True, rnti = 7, frame = 0, subframe = 0\<rparr> 3 False \<mapsto> 0]"
  "rlc_objs chan_busy_layer 0 = Some (Rlc_um rlc_um_zero)"
proof -
  let ?c = "\<lparr>module_id = 0, enb_flag = True, rnti = 7, frame = 0, subframe = 0\<rparr>"
  have e: "rlc_layer_ok (empty_layer 208 :: unit rlc_layer)" by (rule empty_layer_ok) simp
  obtain s' where s': "rrc_rlc_add_rlc no_am add_env_ok ?c False False 1 3 RLC_MODE_UM 0 0 (empty_layer 208) = Some (Some 0, s')" "rlc_layer_ok s'"
    "rlc_addr s' = (rlc_addr (empty_layer 208 :: unit rlc_layer))(rb_key ?c 1 False \<mapsto> 0, lc_key ?c 3 False \<mapsto> 0)"
    "rlc_objs s' = (rlc_objs (empty_layer 208))(0 \<mapsto> mode_zero no_am RLC_MODE_UM)"
    using add_rlc_new [OF e, of ?c 3 1 False no_am RLC_MODE_UM] by (auto simp: empty_layer_ok)
  then show "rlc_layer_ok chan_busy_layer"
    "rlc_addr chan_busy_layer = [rb_key ?c 1 False \<mapsto> 0, lc_key ?c 3 False \<mapsto> 0]"
    "rlc_objs chan_busy_layer 0 = Some (Rlc_um rlc_um_zero)"
    by (auto simp: chan_busy_layer_def empty_layer_ok fun_eq_iff)
qed

theorem rrc_rlc_add_rlc_channel_in_use_witness:
  "\<exists>s'. rrc_rlc_add_rlc no_am add_env_ok \<lparr>module_id = 0, enb_flag = True, rnti = 7, frame = 0, subframe = 0\<rparr> False False 2 3 RLC_MODE_UM 0 0 chan_busy_layer
      = Some (None, s') \<and> \<not> rlc_layer_ok s'"
proof -
  let ?c = "\<lparr>module_id = 0, enb_flag = True, rnti = 7, frame = 0, subframe = 0\<rparr>"
  have "rb_key ?c 2 False \<noteq> lc_key ?c 3 False" by (rule rb_key_not_lc_key) simp_all
  moreover have "rb_key ?c 2 False \<noteq> rb_key ?c 1 False" using rb_key_inj [of ?c ?c 2 1 False False] by auto
  ultimately show ?thesis
    using rrc_rlc_add_rlc_channel_in_use [OF chan_busy_layer(1), of ?c 3 2 False 0 "Rlc_um rlc_um_zero" no_am RLC_MODE_UM] chan_busy_layer(2,3)
    by auto
qed

lemma remove_bearer:
  assumes ok: "rlc_layer_ok s" and c: "small_ctxt ctxt" "unat rb < 14"
    and a: "rlc_addr s (rb_key ctxt rb srb) = Some a" "rlc_objs s a = Some u"
    and l: "l = lc_key ctxt (union_lcid ops 0 u) srb" "unat (union_lcid ops 0 u) < 256" "rlc_addr s l = Some a"
  shows "\<exists>s'. rrc_rlc_remove_rlc ops ctxt srb False rb s = Some (RLC_OP_STATUS_OK, s') \<and> rlc_layer_ok s'
    \<and> rlc_addr s' = (rlc_addr s)(l := None, rb_key ctxt rb srb := None)
    \<and> rlc_objs s' = (rlc_objs s)(a \<mapsto> union_cleanup ops (union_cleanup ops u))"
proof -
  let ?k = "rb_key ctxt rb srb"
  have kl: "?k \<noteq> l" unfolding l(1) using rb_key_not_lc_key [OF c(1,1) _ l(2)] c(2) by simp
  obtain s1 where s1: "coll_remove ops l s = Some (HASH_TABLE_OK, s1)" "rlc_layer_ok s1" "rlc_addr s1 = (rlc_addr s)(l := None)"
    "rlc_objs s1 = (rlc_objs s)(a \<mapsto> union_cleanup ops u)" using coll_remove_key [OF ok l(3) a(2), of ops] by blast
  obtain s2 where s2: "coll_remove ops ?k s1 = Some (HASH_TABLE_OK, s2)" "rlc_layer_ok s2" "rlc_addr s2 = (rlc_addr s1)(?k := None)"
    "rlc_objs s2 = (rlc_objs s1)(a \<mapsto> union_cleanup ops (union_cleanup ops u))"
    using coll_remove_key [OF s1(2), of ?k a "union_cleanup ops u" ops] s1(3,4) a(1) kl by auto
  have "rrc_rlc_remove_rlc ops ctxt srb False rb s = Some (RLC_OP_STATUS_OK, s2)"
    using s1(1) s2(1) c(2) layer_get [OF ok] layer_deref [OF a(2)] a(1) l(1,3)
    by (simp add: rrc_rlc_remove_rlc_def remove_key_def Let_def)
  then show ?thesis using s2 s1 by auto
qed

text \<open>Every bearer of a UE is registered under its channel too, and no two bearers share an entity.\<close>

definition ue_paired :: "('am, 'ai, 'aa) am_ops \<Rightarrow> protocol_ctxt \<Rightarrow> 'am rlc_layer \<Rightarrow> bool" where
  "ue_paired ops ctxt s \<longleftrightarrow> (\<forall>rb srb a u. unat rb < 14 \<longrightarrow> rlc_addr s (rb_key ctxt rb srb) = Some a \<longrightarrow> rlc_objs s a = Some u \<longrightarrow>
     unat (union_lcid ops 0 u) < 256 \<and> rlc_addr s (lc_key ctxt (union_lcid ops 0 u) srb) = Some a
     \<and> (\<forall>rb' srb'. unat rb' < 14 \<longrightarrow> rlc_addr s (rb_key ctxt rb' srb') = Some a \<longrightarrow> rb' = rb \<and> srb' = srb))"

text \<open>
  The keys of a bearer: its own, and the key of the channel its entity names. \<open>ue_removed\<close> says that exactly the keys of
  the bearers \<open>B\<close> have left the collection and that exactly their entities have been cleaned up.
\<close>

definition bearer_keys :: "('am, 'ai, 'aa) am_ops \<Rightarrow> protocol_ctxt \<Rightarrow> 'am rlc_layer \<Rightarrow> bool \<times> 16 word \<Rightarrow> 64 word set" where
  "bearer_keys ops ctxt s b = insert (rb_key ctxt (snd b) (fst b))
     {lc_key ctxt (union_lcid ops 0 u) (fst b) | a u. rlc_addr s (rb_key ctxt (snd b) (fst b)) = Some a \<and> rlc_objs s a = Some u}"

definition ue_removed ::
  "('am, 'ai, 'aa) am_ops \<Rightarrow> protocol_ctxt \<Rightarrow> (bool \<times> 16 word) set \<Rightarrow> 'am rlc_layer \<Rightarrow> 'am rlc_layer \<Rightarrow> bool" where
  "ue_removed ops ctxt B s s' \<longleftrightarrow>
     (\<forall>k. rlc_addr s' k = (if k \<in> (\<Union>b\<in>B. bearer_keys ops ctxt s b) then None else rlc_addr s k))
     \<and> (\<forall>a. rlc_objs s' a = (if \<exists>b\<in>B. rlc_addr s (rb_key ctxt (snd b) (fst b)) = Some a
                          then map_option (union_cleanup ops \<circ> union_cleanup ops) (rlc_objs s a) else rlc_objs s a))"

lemma removed_bearer_addr:
  assumes r: "ue_removed ops ctxt B s t" and c: "small_ctxt ctxt" and p: "ue_paired ops ctxt s"
    and B: "\<forall>b\<in>B. unat (snd b) < 14" "unat (snd b) < 14"
  shows "rlc_addr t (rb_key ctxt (snd b) (fst b)) = (if b \<in> B then None else rlc_addr s (rb_key ctxt (snd b) (fst b)))"
proof -
  have "rb_key ctxt (snd b) (fst b) \<in> (\<Union>b\<in>B. bearer_keys ops ctxt s b) \<longleftrightarrow> b \<in> B"
  proof
    assume "rb_key ctxt (snd b) (fst b) \<in> (\<Union>b\<in>B. bearer_keys ops ctxt s b)"
    then obtain b' where b': "b' \<in> B" "rb_key ctxt (snd b) (fst b) \<in> bearer_keys ops ctxt s b'" by blast
    have "rb_key ctxt (snd b) (fst b) \<noteq> lc_key ctxt (union_lcid ops 0 u) (fst b')"
      if "rlc_addr s (rb_key ctxt (snd b') (fst b')) = Some a" "rlc_objs s a = Some u" for a u
    proof -
      have "unat (snd b') < 14" using B(1) b'(1) by blast
      then have "unat (union_lcid ops 0 u) < 256" using p that unfolding ue_paired_def by blast
      then show ?thesis by (intro rb_key_not_lc_key [OF c c]) (use B(2) in simp_all)
    qed
    then have "rb_key ctxt (snd b) (fst b) = rb_key ctxt (snd b') (fst b')" using b'(2) by (auto simp: bearer_keys_def)
    moreover have "unat (snd b') < 14" using B(1) b'(1) by blast
    ultimately have "snd b = snd b' \<and> fst b = fst b'" using rb_key_inj [OF c c, of "snd b" "snd b'" "fst b" "fst b'"] B(2) by simp
    then have "b = b'" by (simp only: prod_eq_iff)
    then show "b \<in> B" using b'(1) by simp
  qed (auto simp: bearer_keys_def)
  then show ?thesis using r by (simp add: ue_removed_def)
qed

lemma ue_removed_trans:
  assumes r: "ue_removed ops ctxt B s t" "ue_removed ops ctxt C t u" and ok: "rlc_layer_ok s" and c: "small_ctxt ctxt" and p: "ue_paired ops ctxt s"
    and B: "\<forall>b\<in>B \<union> C. unat (snd b) < 14"
  shows "ue_removed ops ctxt (B \<union> C) s u"
proof -
  have B1: "\<forall>b\<in>B. unat (snd b) < 14" using B by simp
  note ad = removed_bearer_addr [OF r(1) c p B1]
  have ob: "rlc_objs t a = rlc_objs s a" if "b \<in> C" "b \<notin> B" "rlc_addr s (rb_key ctxt (snd b) (fst b)) = Some a" for a b
  proof -
    have "rlc_addr s (rb_key ctxt (snd b') (fst b')) \<noteq> Some a" if "b' \<in> B" for b'
    proof
      assume a: "rlc_addr s (rb_key ctxt (snd b') (fst b')) = Some a"
      obtain u' where "rlc_objs s a = Some u'" using addr_obj [OF ok a] by blast
      then have "snd b = snd b' \<and> fst b = fst b'"
        using p a B \<open>b \<in> C\<close> \<open>b' \<in> B\<close> \<open>rlc_addr s (rb_key ctxt (snd b) (fst b)) = Some a\<close> unfolding ue_paired_def by blast
      then have "b = b'" by (simp only: prod_eq_iff)
      then show False using \<open>b \<notin> B\<close> \<open>b' \<in> B\<close> by simp
    qed
    then show ?thesis using r(1) unfolding ue_removed_def by (metis (no_types, lifting))
  qed
  have bk: "bearer_keys ops ctxt t b = (if b \<in> B then {rb_key ctxt (snd b) (fst b)} else bearer_keys ops ctxt s b)" if "b \<in> C" for b
    using ad [of b] B that ob [OF that] by (cases "b \<in> B"; cases "rlc_addr s (rb_key ctxt (snd b) (fst b))") (simp_all add: bearer_keys_def)
  have keys: "(\<Union>b\<in>B. bearer_keys ops ctxt s b) \<union> (\<Union>b\<in>C. bearer_keys ops ctxt t b) = (\<Union>b\<in>B \<union> C. bearer_keys ops ctxt s b)"
    using bk by (auto simp: bearer_keys_def split: if_splits)
  show ?thesis unfolding ue_removed_def
  proof (intro conjI allI)
    show "rlc_addr u k = (if k \<in> (\<Union>b\<in>B \<union> C. bearer_keys ops ctxt s b) then None else rlc_addr s k)" for k
      using r unfolding ue_removed_def keys [symmetric] by simp
    fix a
    show "rlc_objs u a = (if \<exists>b\<in>B \<union> C. rlc_addr s (rb_key ctxt (snd b) (fst b)) = Some a
                          then map_option (union_cleanup ops \<circ> union_cleanup ops) (rlc_objs s a) else rlc_objs s a)"
    proof (cases "\<exists>b\<in>C. rlc_addr t (rb_key ctxt (snd b) (fst b)) = Some a")
      case True
      then obtain b where b: "b \<in> C" "rlc_addr t (rb_key ctxt (snd b) (fst b)) = Some a" by blast
      then have bs: "b \<notin> B" "rlc_addr s (rb_key ctxt (snd b) (fst b)) = Some a" using ad [of b] B by (auto split: if_splits)
      then have "rlc_objs t a = rlc_objs s a" using ob b(1) by blast
      moreover have "rlc_objs u a = map_option (union_cleanup ops \<circ> union_cleanup ops) (rlc_objs t a)"
        using r(2) True unfolding ue_removed_def by (metis (no_types, lifting))
      ultimately show ?thesis using b(1) bs(2) by auto
    next
      case False
      then have "rlc_objs u a = rlc_objs t a" using r(2) unfolding ue_removed_def by (metis (no_types, lifting))
      moreover have "(\<exists>b\<in>B \<union> C. rlc_addr s (rb_key ctxt (snd b) (fst b)) = Some a) \<longleftrightarrow> (\<exists>b\<in>B. rlc_addr s (rb_key ctxt (snd b) (fst b)) = Some a)"
        using False ad B by (metis Un_iff)
      ultimately show ?thesis using r(1) unfolding ue_removed_def by simp
    qed
  qed
qed

lemma ue_removed_none: "ue_removed ops ctxt {} s s"
  by (simp add: ue_removed_def)

lemma remove_rb_step:
  assumes ok: "rlc_layer_ok s" and c: "small_ctxt ctxt" and p: "ue_paired ops ctxt s" and w: "unat (of_nat rb :: 16 word) < 14"
  shows "\<exists>s'. remove_rb ops ctxt srb rb s = Some s' \<and> rlc_layer_ok s' \<and> ue_paired ops ctxt s' \<and> ue_removed ops ctxt {(srb, of_nat rb)} s s'"
proof -
  define w where "w = (of_nat rb :: 16 word)"
  have w14: "unat w < 14" using w by (simp add: w_def)
  show ?thesis
  proof (cases "rlc_addr s (rb_key ctxt w srb)")
    case None
    then have "remove_rb ops ctxt srb rb s = Some s"
      using layer_get [OF ok] w14 by (auto simp: remove_rb_def rrc_rlc_remove_rlc_def remove_key_def w_def [symmetric])
    moreover have "ue_removed ops ctxt {(srb, w)} s s" using None by (simp add: ue_removed_def bearer_keys_def)
    ultimately show ?thesis using ok p by (auto simp: w_def)
  next
    case (Some a)
    obtain u where u: "rlc_objs s a = Some u" using addr_obj [OF ok Some] by blast
    let ?l = "lc_key ctxt (union_lcid ops 0 u) srb" and ?k = "rb_key ctxt w srb"
    have l: "unat (union_lcid ops 0 u) < 256" "rlc_addr s ?l = Some a"
      and own: "\<And>rb' srb'. unat rb' < 14 \<Longrightarrow> rlc_addr s (rb_key ctxt rb' srb') = Some a \<Longrightarrow> rb' = w \<and> srb' = srb"
      using p Some u w14 unfolding ue_paired_def by blast+
    obtain s' where s': "rrc_rlc_remove_rlc ops ctxt srb False w s = Some (RLC_OP_STATUS_OK, s')" "rlc_layer_ok s'"
      "rlc_addr s' = (rlc_addr s)(?l := None, ?k := None)" "rlc_objs s' = (rlc_objs s)(a \<mapsto> union_cleanup ops (union_cleanup ops u))"
      using remove_bearer [OF ok c w14 Some u refl l] by blast
    have sub: "rlc_addr s' k = Some b \<Longrightarrow> rlc_addr s k = Some b" for k b using s'(3) by (auto split: if_splits)
    have "ue_paired ops ctxt s'" unfolding ue_paired_def
    proof (intro allI impI)
      fix rb' srb' a' u'
      assume r: "unat rb' < 14" "rlc_addr s' (rb_key ctxt rb' srb') = Some a'" "rlc_objs s' a' = Some u'"
      have old: "rlc_addr s (rb_key ctxt rb' srb') = Some a'" by (rule sub [OF r(2)])
      have "rb_key ctxt rb' srb' \<noteq> ?k" using r(2) s'(3) by auto
      then have "a' \<noteq> a" using own [OF r(1)] old by auto
      then have u': "rlc_objs s a' = Some u'" using r(3) s'(4) by simp
      have lc: "unat (union_lcid ops 0 u') < 256" "rlc_addr s (lc_key ctxt (union_lcid ops 0 u') srb') = Some a'"
        and own': "\<And>rb'' srb''. unat rb'' < 14 \<Longrightarrow> rlc_addr s (rb_key ctxt rb'' srb'') = Some a' \<Longrightarrow> rb'' = rb' \<and> srb'' = srb'"
        using p r(1) old u' unfolding ue_paired_def by blast+
      have "lc_key ctxt (union_lcid ops 0 u') srb' \<noteq> ?l" using lc(2) l(2) \<open>a' \<noteq> a\<close> by auto
      moreover have "lc_key ctxt (union_lcid ops 0 u') srb' \<noteq> ?k" using rb_key_not_lc_key [OF c c _ lc(1), of w srb srb'] w14 by auto
      ultimately have "rlc_addr s' (lc_key ctxt (union_lcid ops 0 u') srb') = Some a'" using lc(2) s'(3) by simp
      then show "unat (union_lcid ops 0 u') < 256 \<and> rlc_addr s' (lc_key ctxt (union_lcid ops 0 u') srb') = Some a'
         \<and> (\<forall>rb'' srb''. unat rb'' < 14 \<longrightarrow> rlc_addr s' (rb_key ctxt rb'' srb'') = Some a' \<longrightarrow> rb'' = rb' \<and> srb'' = srb')"
        using lc(1) own' sub by blast
    qed
    moreover have "ue_removed ops ctxt {(srb, w)} s s'" using s'(3,4) Some u by (auto simp: ue_removed_def bearer_keys_def)
    moreover have "remove_rb ops ctxt srb rb s = Some s'" using s'(1) by (simp add: remove_rb_def w_def)
    ultimately show ?thesis using s'(2) by (auto simp: w_def)
  qed
qed

lemma remove_rbs:
  assumes "rlc_layer_ok s" "small_ctxt ctxt" "ue_paired ops ctxt s" "\<forall>rb\<in>set rbs. unat (of_nat rb :: 16 word) < 14"
  shows "\<exists>s'. ofold (remove_rb ops ctxt srb) rbs s = Some s' \<and> rlc_layer_ok s' \<and> ue_paired ops ctxt s'
    \<and> ue_removed ops ctxt ({srb} \<times> of_nat ` set rbs) s s'"
  using assms(1,3,4)
proof (induction rbs arbitrary: s)
  case Nil
  then show ?case by (simp add: ue_removed_none)
next
  case (Cons rb rbs)
  obtain t where t: "remove_rb ops ctxt srb rb s = Some t" "rlc_layer_ok t" "ue_paired ops ctxt t" "ue_removed ops ctxt {(srb, of_nat rb)} s t"
    using remove_rb_step [OF Cons.prems(1) assms(2) Cons.prems(2), of rb srb] Cons.prems(3) by auto
  obtain s' where s': "ofold (remove_rb ops ctxt srb) rbs t = Some s'" "rlc_layer_ok s'" "ue_paired ops ctxt s'"
    "ue_removed ops ctxt ({srb} \<times> of_nat ` set rbs) t s'"
    using Cons.IH [OF t(2,3)] Cons.prems(3) by auto
  have "{srb} \<times> of_nat ` set (rb # rbs) = {(srb, of_nat rb)} \<union> {srb} \<times> (of_nat ` set rbs :: 16 word set)" by auto
  moreover have "ue_removed ops ctxt ({(srb, of_nat rb)} \<union> {srb} \<times> of_nat ` set rbs) s s'"
    by (rule ue_removed_trans [OF t(4) s'(4) Cons.prems(1) assms(2) Cons.prems(2)]) (use Cons.prems(3) in auto)
  ultimately show ?case using t(1) s'(1-3) by simp
qed

text \<open>The bearers \<open>rrc_rlc_remove_ue\<close> visits: signalling bearers 1 and 2, data bearers 1 to 11.\<close>

definition ue_bearers :: "(bool \<times> 16 word) set" where
  "ue_bearers = {True} \<times> of_nat ` {1..2} \<union> {False} \<times> of_nat ` {1..11}"


text \<open>A layer with one bearer whose entity knows its channel.\<close>

definition one_bearer_layer :: "protocol_ctxt \<Rightarrow> 16 word \<Rightarrow> 32 word \<Rightarrow> bool \<Rightarrow> rlc_um_entity \<Rightarrow> unit rlc_layer" where
  "one_bearer_layer c rb lc srb e = rlc_store 0 (Rlc_um e)
     (snd (the (rrc_rlc_add_rlc no_am add_env_ok c srb False rb lc RLC_MODE_UM 0 0 (empty_layer 208))))"

lemma one_bearer_layer:
  assumes "small_ctxt c" "unat rb < 14" "unat lc < 256"
  shows "rlc_layer_ok (one_bearer_layer c rb lc srb e)" "rlc_addr (one_bearer_layer c rb lc srb e) = [rb_key c rb srb \<mapsto> 0, lc_key c lc srb \<mapsto> 0]"
    "rlc_objs (one_bearer_layer c rb lc srb e) = [0 \<mapsto> Rlc_um e]"
proof -
  have o: "rlc_layer_ok (empty_layer 208 :: unit rlc_layer)" by (rule empty_layer_ok) simp
  obtain s' where s': "rrc_rlc_add_rlc no_am add_env_ok c srb False rb lc RLC_MODE_UM 0 0 (empty_layer 208) = Some (Some 0, s')" "rlc_layer_ok s'"
    "rlc_addr s' = (rlc_addr (empty_layer 208 :: unit rlc_layer))(rb_key c rb srb \<mapsto> 0, lc_key c lc srb \<mapsto> 0)"
    "rlc_objs s' = (rlc_objs (empty_layer 208))(0 \<mapsto> mode_zero no_am RLC_MODE_UM)"
    using add_rlc_new [OF o assms(1,3,2), of srb no_am RLC_MODE_UM] by (auto simp: empty_layer_ok)
  have e: "rlc_addr (empty_layer 208 :: unit rlc_layer) = Map.empty" using empty_layer_ok(2) [of 208] by (intro ext) simp
  have obj: "rlc_objs (empty_layer 208 :: unit rlc_layer) = Map.empty" by (simp add: empty_layer_def)
  show "rlc_layer_ok (one_bearer_layer c rb lc srb e)" using layer_ok_store [OF s'(2)] s'(1,4) by (simp add: one_bearer_layer_def)
  show "rlc_addr (one_bearer_layer c rb lc srb e) = [rb_key c rb srb \<mapsto> 0, lc_key c lc srb \<mapsto> 0]"
    "rlc_objs (one_bearer_layer c rb lc srb e) = [0 \<mapsto> Rlc_um e]"
    using s'(1,3,4) e obj by (simp_all add: one_bearer_layer_def)
qed


text \<open>
  \<open>rrc_rlc_config_req\<close> with the action ADD for a new bearer creates the entity, but reports an internal error and leaves
  the entity unconfigured: the test of the result of \<open>rrc_rlc_add_rlc\<close> is inverted.
\<close>

theorem rrc_rlc_config_req_add_inverted:
  assumes "rlc_layer_ok s" "small_ctxt ctxt" "unat rb < 14" "rlc_addr s (rb_key ctxt rb srb) = None"
    "rlc_addr s (lc_key ctxt (ucast rb) srb) = None"
  shows "\<exists>s'. rrc_rlc_config_req ops add_env_ok alloc ctxt srb mbms CONFIG_ACTION_ADD rb info s = Some (RLC_OP_STATUS_INTERNAL_ERROR, s')
    \<and> rlc_objs s' = (rlc_objs s)(rlc_brk s \<mapsto> mode_zero ops (info_mode info))"
proof -
  have "unat (ucast rb :: 32 word) = unat rb"
  proof -
    have "unat rb < 2 ^ LENGTH(16)" by (rule unsigned_less)
    then show ?thesis by (simp add: unsigned_ucast_eq take_bit_nat_eq_self)
  qed
  then have "unat (ucast rb :: 32 word) < 256" using assms(3) by simp
  from add_rlc_new [OF assms(1,2) this assms(3-5), of ops "info_mode info"] show ?thesis
    using assms(3) by (auto simp: rrc_rlc_config_req_def)
qed

theorem rrc_rlc_config_req_add_inverted_witness:
  "\<exists>s'. rrc_rlc_config_req no_am add_env_ok (\<lambda>_. None) \<lparr>module_id = 0, enb_flag = True, rnti = 7, frame = 0, subframe = 0\<rparr> False False CONFIG_ACTION_ADD 1 (Info_tm True)
      (empty_layer 208) = Some (RLC_OP_STATUS_INTERNAL_ERROR, s')"
proof -
  have e: "rlc_layer_ok (empty_layer 208 :: unit rlc_layer)" by (rule empty_layer_ok) simp
  show ?thesis
    using rrc_rlc_config_req_add_inverted [OF e, of "\<lparr>module_id = 0, enb_flag = True, rnti = 7, frame = 0, subframe = 0\<rparr>" 1 False no_am "\<lambda>_. None" False "Info_tm True"]
    by (auto simp: empty_layer_ok)
qed

end
