(* ===== verification/Rlc_Bearer.thy ===== *)
theory Rlc_Bearer
  imports Rlc_Layer_Correct
begin

text \<open>
  Composition of the RLC layer of a UE, the transport blocks of MAC and the RLC layer of the eNB: an unacknowledged bearer
  carries its SDUs in order and complete, whatever happens on the other bearers.
\<close>

section \<open>A bearer between two layers\<close>

text \<open>A transmission opportunity: the UE fills a transport block, the eNB passes what arrives to the layer.\<close>

definition rlc_uplink ::
  "('am, 'ai, 'aa) am_ops \<Rightarrow> ('bm, 'bi, 'ba) am_ops \<Rightarrow> (nat \<Rightarrow> allocator) \<Rightarrow> (nat \<Rightarrow> allocator) \<Rightarrow> allocator \<Rightarrow> bool \<Rightarrow> protocol_ctxt \<Rightarrow> protocol_ctxt \<Rightarrow> 32 word
   \<Rightarrow> int \<Rightarrow> mem \<Rightarrow> 'am rlc_layer \<times> 'bm rlc_layer \<Rightarrow> ('am rlc_layer \<times> 'bm rlc_layer) option" where
  "rlc_uplink opu opb alu alb tb_alloc lock cu cb lc nb buf p =
     (case mac_rlc_data_req opu alu cu False lc nb buf 0 0 (fst p) of
        None \<Rightarrow> None
      | Some ((n, buf'), su') \<Rightarrow>
          if n = 0 then Some (su', snd p)
          else map_option (Pair su') (mac_rlc_data_ind opb alb tb_alloc lock cb False lc buf' n 1 (snd p)))"

definition um_at :: "'am rlc_layer \<Rightarrow> 64 word \<Rightarrow> rlc_um_entity option" where
  "um_at s k = (case rlc_addr s k of None \<Rightarrow> None | Some a \<Rightarrow> (case rlc_objs s a of Some (Rlc_um e) \<Rightarrow> Some e | _ \<Rightarrow> None))"

definition um_bearer :: "'am rlc_layer \<Rightarrow> protocol_ctxt \<Rightarrow> 16 word \<Rightarrow> 32 word \<Rightarrow> bool \<Rightarrow> rlc_um_entity \<Rightarrow> bool" where
  "um_bearer s c rb lc srb e \<longleftrightarrow> rlc_layer_ok s \<and> (\<exists>a. rlc_addr s (rb_key c rb srb) = Some a \<and> rlc_addr s (lc_key c lc srb) = Some a
     \<and> rlc_objs s a = Some (Rlc_um e))"

lemma um_bearer_store:
  assumes "um_bearer s c rb lc srb e" "rlc_addr s (rb_key c rb srb) = Some a"
  shows "um_bearer (rlc_store a (Rlc_um e') s) c rb lc srb e'"
  using assms layer_ok_store by (auto simp: um_bearer_def)

lemma um_bearer_at: "um_bearer s c rb lc srb e \<Longrightarrow> um_at s (rb_key c rb srb) = Some e \<and> um_at s (lc_key c lc srb) = Some e"
  by (auto simp: um_bearer_def um_at_def)

text \<open>One PDU survives the copy into the transport block and out of it.\<close>

lemma one_block_octets:
  assumes "0 \<le> tb_req_size tb" "tb_alloc 0 = Some b"
  shows "\<exists>buf'. mac_rlc_serialize_tb buf 0 [tb] = Some (tb_req_size tb, buf')
    \<and> (\<exists>tbs. mac_rlc_deserialize_tb tb_alloc buf' (tb_req_size tb) 1 = Some (tbs, to_s32 (tb_req_size tb * 8)) \<and> list_all2 same_octets [tb] tbs)"
proof -
  let ?n = "nat (tb_req_size tb)" and ?buf = "mem_write buf 0 (mem_read (tb_req_data_ptr tb) 0 (nat (tb_req_size tb)))"
  let ?tb = "\<lparr>data_ptr = mem_write b 0 (mem_read ?buf 0 ?n), tb_size = int ?n\<rparr>"
  have "mem_read ?buf 0 ?n = mem_read (tb_req_data_ptr tb) 0 ?n"
    using mem_read_write_same [of buf 0 "mem_read (tb_req_data_ptr tb) 0 ?n"] by simp
  then have "mem_read (data_ptr ?tb) 0 ?n = mem_read (tb_req_data_ptr tb) 0 ?n"
    using mem_read_write_same [of b 0 "mem_read (tb_req_data_ptr tb) 0 ?n"] by simp
  then have "data_ptr ?tb i = tb_req_data_ptr tb i" if "i < ?n" for i using that by (metis nth_mem_read add_0)
  then have "same_octets tb ?tb" using assms(1) by (simp add: same_octets_def)
  then show ?thesis using assms by (simp add: mac_rlc_deserialize_tb_def)
qed

lemma uplink_link:
  assumes u: "um_bearer su cu rb lc srb r" and b: "um_bearer sb cb rb' lc srb x" and link: "um_link L (r, x)"
    and c: "\<not> enb_flag cu" "enb_flag cb" "unat lc < 14" "srb = channel_srb lc"
    and al: "\<And>a. alloc_total (alu a)" "\<And>a. alloc_total (alb a)" "alloc_total tb_alloc" and nb: "2 \<le> nb" "nb \<le> 32767"
  shows "\<exists>su' sb' r' x'. rlc_uplink opu opb alu alb tb_alloc lock cu cb lc nb buf (su, sb) = Some (su', sb')
    \<and> um_bearer su' cu rb lc srb r' \<and> um_bearer sb' cb rb' lc srb x' \<and> um_link L (r', x')"
proof -
  obtain a where a: "rlc_layer_ok su" "rlc_addr su (rb_key cu rb srb) = Some a" "rlc_addr su (lc_key cu lc srb) = Some a" "rlc_objs su a = Some (Rlc_um r)"
    using u by (auto simp: um_bearer_def)
  obtain d where d: "rlc_layer_ok sb" "rlc_addr sb (rb_key cb rb' srb) = Some d" "rlc_addr sb (lc_key cb lc srb) = Some d" "rlc_objs sb d = Some (Rlc_um x)"
    using b by (auto simp: um_bearer_def)
  obtain req r' where q: "rlc_um_mac_data_request (alu a) (rlc_um_set_nb_bytes_requested_by_mac r nb) False = (req, r')" "um_serves L (data_req_data req) r' x"
    using request_link [OF link al(1) nb, of a False] by blast
  let ?tbs = "data_req_data req" and ?su = "rlc_store a (Rlc_um r') su"
  have u': "um_bearer ?su cu rb lc srb r'" by (rule um_bearer_store [OF u a(2)])
  have rq: "mac_rlc_data_req opu alu cu False lc nb buf 0 0 su =
      (case mac_rlc_serialize_tb buf 0 ?tbs of None \<Rightarrow> None | Some out \<Rightarrow> Some (out, ?su))"
    using layer_get [OF a(1)] a(3) layer_deref [OF a(4)] c q(1)
    by (simp add: mac_rlc_data_req_def Let_def union_data_request_def split: option.split)
  have ind: "mac_rlc_data_ind opb alb tb_alloc lock cb False lc buf' n 1 sb = Some (rlc_store d (Rlc_um x') sb)"
    if "mac_rlc_deserialize_tb tb_alloc buf' n 1 = Some (tbs, bits)" "rlc_um_mac_data_indication (alb d) cb lock x tbs = Some x'" for buf' n tbs bits x'
    using layer_get [OF d(1)] d(3) layer_deref [OF d(4)] c that by (simp add: mac_rlc_data_ind_def Let_def union_data_ind_def)
  have sv: "length ?tbs \<le> 1" "\<forall>tb\<in>set ?tbs. 0 < tb_req_size tb"
    "\<And>tbs'. list_all2 same_octets ?tbs tbs' \<Longrightarrow> \<exists>x'. rlc_um_mac_data_indication (alb d) cb lock x tbs' = Some x' \<and> um_link L (r', x')"
    using q(2) al(2) unfolding um_serves_def by blast+
  show ?thesis
  proof (cases ?tbs)
    case Nil
    obtain x' where "rlc_um_mac_data_indication (alb d) cb lock x [] = Some x'" "um_link L (r', x')" using sv(3) [of "[]"] Nil by auto
    moreover have "rlc_um_mac_data_indication (alb d) cb lock x [] = Some x"
      using link by (simp add: um_link_def um_receiver_at_def rlc_um_mac_data_indication_def rlc_um_rx_def rlc_um_check_timer_dar_time_out_def)
    ultimately have "um_link L (r', x)" by simp
    moreover have "rlc_uplink opu opb alu alb tb_alloc lock cu cb lc nb buf (su, sb) = Some (?su, sb)" using rq Nil by (simp add: rlc_uplink_def)
    ultimately show ?thesis using u' b by blast
  next
    case (Cons tb tbs)
    then have one: "?tbs = [tb]" "0 < tb_req_size tb" using sv(1,2) by auto
    obtain blk where blk: "tb_alloc 0 = Some blk" using al(3) unfolding alloc_total_def by auto
    obtain buf' tbs' where t: "mac_rlc_serialize_tb buf 0 [tb] = Some (tb_req_size tb, buf')"
      "mac_rlc_deserialize_tb tb_alloc buf' (tb_req_size tb) 1 = Some (tbs', to_s32 (tb_req_size tb * 8))" "list_all2 same_octets [tb] tbs'"
      using one_block_octets [of tb tb_alloc blk buf] one(2) blk by auto
    obtain x' where x': "rlc_um_mac_data_indication (alb d) cb lock x tbs' = Some x'" "um_link L (r', x')" using sv(3) [of tbs'] t(3) one by auto
    have "rlc_uplink opu opb alu alb tb_alloc lock cu cb lc nb buf (su, sb) = Some (?su, rlc_store d (Rlc_um x') sb)"
      using rq one(1) t(1) ind [OF t(2) x'(1)] one(2) by (simp add: rlc_uplink_def)
    then show ?thesis using u' um_bearer_store [OF b d(2), of x'] x'(2) by blast
  qed
qed


lemma data_req_um:
  assumes "um_bearer s c rb lc srb e" "rlc_addr s (rb_key c rb srb) = Some a" "unat rb < 14" "0 < sz" "rlc_um_get_buffer_occupancy e \<le> 5000000"
  shows "rlc_data_req ops (Some blk) c srb False rb mui conf sz (Some sdu) s
    = Some (RLC_OP_STATUS_OK, rlc_store a (Rlc_um (rlc_um_data_req c e (mem_read sdu 0 (nat sz)))) s)"
  using assms layer_get [of s "rb_key c rb srb"] layer_deref [of s a "Rlc_um e"]
  by (auto simp: um_bearer_def rlc_data_req_def union_data_req_def Let_def)

text \<open>
  Runs of the two layers, seen from one bearer: SDUs submitted on it, transmission opportunities of its channel, and
  requests on any other bearer of the UE. The list collects the SDUs of the bearer.
\<close>

record ('am, 'ai, 'aa, 'bm, 'bi, 'ba) bearer_env =
  be_opu :: "('am, 'ai, 'aa) am_ops"
  be_opb :: "('bm, 'bi, 'ba) am_ops"
  be_alu :: "nat \<Rightarrow> allocator"
  be_alb :: "nat \<Rightarrow> allocator"
  be_tb :: allocator
  be_cu :: protocol_ctxt
  be_cb :: protocol_ctxt
  be_rb :: "16 word"
  be_lc :: "32 word"

definition bearer_env_ok :: "('am, 'ai, 'aa, 'bm, 'bi, 'ba) bearer_env \<Rightarrow> bool" where
  "bearer_env_ok v \<longleftrightarrow> (\<forall>a. alloc_total (be_alu v a)) \<and> (\<forall>a. alloc_total (be_alb v a)) \<and> alloc_total (be_tb v)
     \<and> \<not> enb_flag (be_cu v) \<and> enb_flag (be_cb v) \<and> unat (be_lc v) < 14"

abbreviation be_srb :: "('am, 'ai, 'aa, 'bm, 'bi, 'ba) bearer_env \<Rightarrow> bool" where
  "be_srb v \<equiv> channel_srb (be_lc v)"

abbreviation be_key :: "('am, 'ai, 'aa, 'bm, 'bi, 'ba) bearer_env \<Rightarrow> 64 word" where
  "be_key v \<equiv> rb_key (be_cu v) (be_rb v) (be_srb v)"

inductive bearer_run ::
  "('am, 'ai, 'aa, 'bm, 'bi, 'ba) bearer_env \<Rightarrow> 'am rlc_layer \<times> 'bm rlc_layer \<Rightarrow> byte list list \<Rightarrow> 'am rlc_layer \<times> 'bm rlc_layer \<Rightarrow> bool"
  for v p0 where
  start: "bearer_run v p0 [] p0"
| submit: "bearer_run v p0 L (su, sb)
     \<Longrightarrow> rlc_data_req (be_opu v) blk (be_cu v) (be_srb v) False (be_rb v) mui conf sz (Some sdu) su = Some (RLC_OP_STATUS_OK, su')
     \<Longrightarrow> sz < 2048 \<Longrightarrow> um_at su (be_key v) = Some r \<Longrightarrow> length (input_sdus r) < 128
     \<Longrightarrow> um_at sb (lc_key (be_cb v) (be_lc v) (be_srb v)) = Some x \<Longrightarrow> nat sz \<le> sdu_max x
     \<Longrightarrow> bearer_run v p0 (L @ [mem_read sdu 0 (nat sz)]) (su', sb)"
| uplink: "bearer_run v p0 L p \<Longrightarrow> 2 \<le> nb \<Longrightarrow> nb \<le> 32767
     \<Longrightarrow> rlc_uplink (be_opu v) (be_opb v) (be_alu v) (be_alb v) (be_tb v) lock (be_cu v) (be_cb v) (be_lc v) nb buf p = Some p'
     \<Longrightarrow> bearer_run v p0 L p'"
| other: "bearer_run v p0 L (su, sb)
     \<Longrightarrow> rlc_data_req (be_opu v) blk (be_cu v) srb False rb mui conf sz sdu su = Some (st, su')
     \<Longrightarrow> rlc_addr su (rb_key (be_cu v) rb srb) \<noteq> rlc_addr su (be_key v)
     \<Longrightarrow> bearer_run v p0 L (su', sb)"

definition bearer_link :: "('am, 'ai, 'aa, 'bm, 'bi, 'ba) bearer_env \<Rightarrow> byte list list \<Rightarrow> 'am rlc_layer \<times> 'bm rlc_layer \<Rightarrow> bool" where
  "bearer_link v L p \<longleftrightarrow> (\<exists>r x. um_bearer (fst p) (be_cu v) (be_rb v) (be_lc v) (be_srb v) r
     \<and> um_bearer (snd p) (be_cb v) (be_rb v) (be_lc v) (be_srb v) x \<and> um_link L (r, x))"

lemma um_bearer_other:
  assumes b: "um_bearer s c rb lc srb e" and r: "rlc_layer_ok s'" "rlc_addr s' = rlc_addr s"
    and o: "\<And>b. rlc_addr s k \<noteq> Some b \<Longrightarrow> rlc_objs s' b = rlc_objs s b" and k: "rlc_addr s k \<noteq> rlc_addr s (rb_key c rb srb)"
  shows "um_bearer s' c rb lc srb e"
proof -
  obtain a where a: "rlc_addr s (rb_key c rb srb) = Some a" "rlc_addr s (lc_key c lc srb) = Some a" "rlc_objs s a = Some (Rlc_um e)"
    using b by (auto simp: um_bearer_def)
  have "rlc_objs s' a = rlc_objs s a" using o [of a] k a(1) by simp
  then show ?thesis using a r by (auto simp: um_bearer_def)
qed

lemma bearer_run_link:
  assumes "bearer_run v p0 L p" "bearer_env_ok v" "bearer_link v [] p0"
  shows "bearer_link v L p"
  using assms
proof (induction rule: bearer_run.induct)
  case (submit L su sb blk mui conf sz sdu su' r x)
  obtain r' x' where l: "um_bearer su (be_cu v) (be_rb v) (be_lc v) (be_srb v) r'" "um_bearer sb (be_cb v) (be_rb v) (be_lc v) (be_srb v) x'" "um_link L (r', x')"
    using submit.IH [OF submit.prems] by (auto simp: bearer_link_def)
  have e: "r' = r" "x' = x" using um_bearer_at [OF l(1)] um_bearer_at [OF l(2)] submit.hyps(4,6) by auto
  obtain a where a: "rlc_layer_ok su" "rlc_addr su (be_key v) = Some a" "rlc_objs su a = Some (Rlc_um r)"
    using l(1) e by (auto simp: um_bearer_def)
  have "0 < sz \<and> su' = rlc_store a (Rlc_um (rlc_um_data_req (be_cu v) r (mem_read sdu 0 (nat sz)))) su"
    using submit.hyps(2) layer_get [OF a(1)] a(2) layer_deref [OF a(3)]
    by (auto simp: rlc_data_req_def union_data_req_def Let_def split: if_splits option.splits)
  then have "um_bearer su' (be_cu v) (be_rb v) (be_lc v) (be_srb v) (rlc_um_data_req (be_cu v) r (mem_read sdu 0 (nat sz)))" "0 < sz"
    using um_bearer_store [OF l(1) a(2)] by auto
  moreover have "um_link (L @ [mem_read sdu 0 (nat sz)]) (rlc_um_data_req (be_cu v) r (mem_read sdu 0 (nat sz)), x)"
    by (rule submit_step) (use l(3) e submit.hyps \<open>0 < sz\<close> in auto)
  ultimately show ?case using l(2) e by (auto simp: bearer_link_def)
next
  case (uplink L p nb lock buf p')
  obtain r x where l: "um_bearer (fst p) (be_cu v) (be_rb v) (be_lc v) (be_srb v) r" "um_bearer (snd p) (be_cb v) (be_rb v) (be_lc v) (be_srb v) x" "um_link L (r, x)"
    using uplink.IH [OF uplink.prems] by (auto simp: bearer_link_def)
  have "\<exists>su' sb' r' x'. rlc_uplink (be_opu v) (be_opb v) (be_alu v) (be_alb v) (be_tb v) lock (be_cu v) (be_cb v) (be_lc v) nb buf (fst p, snd p) = Some (su', sb')
    \<and> um_bearer su' (be_cu v) (be_rb v) (be_lc v) (be_srb v) r' \<and> um_bearer sb' (be_cb v) (be_rb v) (be_lc v) (be_srb v) x' \<and> um_link L (r', x')"
    by (rule uplink_link [OF l]) (use uplink.prems(1) uplink.hyps(2,3) in \<open>auto simp: bearer_env_ok_def\<close>)
  then show ?case using uplink.hyps(4) unfolding bearer_link_def by (metis fst_conv snd_conv prod.collapse option.inject)
next
  case (other L su sb blk srb rb mui conf sz sdu st su')
  obtain r x where l: "um_bearer su (be_cu v) (be_rb v) (be_lc v) (be_srb v) r" "um_bearer sb (be_cb v) (be_rb v) (be_lc v) (be_srb v) x" "um_link L (r, x)"
    using other.IH [OF other.prems] by (auto simp: bearer_link_def)
  have ok: "rlc_layer_ok su" using l(1) by (simp add: um_bearer_def)
  note d = data_req_frame [OF ok other.hyps(2)]
  have "um_bearer su' (be_cu v) (be_rb v) (be_lc v) (be_srb v) r"
    by (rule um_bearer_other [OF l(1) d(1,2)]) (use d(3) other.hyps(3) in auto)
  then show ?case using l(2,3) by (auto simp: bearer_link_def)
qed simp

text \<open>
  C2. Through the whole layer: \<open>rlc_data_req\<close> at the UE, \<open>mac_rlc_data_req\<close>, the transport block, \<open>mac_rlc_data_ind\<close> at the
  eNB. Whatever the interleaving of submissions on an unacknowledged bearer, of requests on the other bearers of the UE
  and of grants of whatever size, the SDUs that the entity of the eNB has handed to PDCP followed by those that wait at
  the UE are the SDUs submitted on the bearer, complete and in order; and every further grant succeeds.
\<close>

theorem rlc_layer_transfer_in_order:
  assumes "bearer_run v (su0, sb0) L (su, sb)" "bearer_env_ok v"
    "um_bearer su0 (be_cu v) (be_rb v) (be_lc v) (channel_srb (be_lc v)) (um_ready d)"
    "um_bearer sb0 (be_cb v) (be_rb v) (be_lc v) (channel_srb (be_lc v)) (um_ready d)" "2 \<le> nb" "nb \<le> 32767"
  shows "\<exists>r x. um_at su (rb_key (be_cu v) (be_rb v) (channel_srb (be_lc v))) = Some r \<and> um_at sb (lc_key (be_cb v) (be_lc v) (channel_srb (be_lc v))) = Some x
    \<and> map di_sdu (data_ind_log x) @ map first_byte (input_sdus r) = L
    \<and> rlc_uplink (be_opu v) (be_opb v) (be_alu v) (be_alb v) (be_tb v) lock (be_cu v) (be_cb v) (be_lc v) nb buf (su, sb) \<noteq> None"
proof -
  have "bearer_link v [] (su0, sb0)" using assms(3,4) um_ready_link by (auto simp: bearer_link_def)
  from bearer_run_link [OF assms(1,2) this] obtain r x where l: "um_bearer su (be_cu v) (be_rb v) (be_lc v) (be_srb v) r"
    "um_bearer sb (be_cb v) (be_rb v) (be_lc v) (be_srb v) x" "um_link L (r, x)" by (auto simp: bearer_link_def)
  have "\<exists>su' sb' r' x'. rlc_uplink (be_opu v) (be_opb v) (be_alu v) (be_alb v) (be_tb v) lock (be_cu v) (be_cb v) (be_lc v) nb buf (su, sb) = Some (su', sb')
    \<and> um_bearer su' (be_cu v) (be_rb v) (be_lc v) (be_srb v) r' \<and> um_bearer sb' (be_cb v) (be_rb v) (be_lc v) (be_srb v) x' \<and> um_link L (r', x')"
    by (rule uplink_link [OF l]) (use assms(2,5,6) in \<open>auto simp: bearer_env_ok_def\<close>)
  then show ?thesis using um_bearer_at [OF l(1)] um_bearer_at [OF l(2)] l(3) by (auto simp: um_link_def)
qed


theorem rlc_layer_transfer_in_order_witness:
  "let cu = \<lparr>module_id = 0, enb_flag = False, rnti = 7, frame = 0, subframe = 0\<rparr>; cb = cu\<lparr>enb_flag := True\<rparr>;
       su0 = one_bearer_layer cu 1 3 False (um_ready True); sb0 = one_bearer_layer cb 1 3 False (um_ready True) in
   \<exists>su r x. rlc_data_req no_am (Some (\<lambda>_. 0)) cu False False 1 0 0 2 (Some (\<lambda>i. of_nat i + 7)) su0 = Some (RLC_OP_STATUS_OK, su)
     \<and> um_at su (rb_key cu 1 False) = Some r \<and> um_at sb0 (lc_key cb 3 False) = Some x
     \<and> map di_sdu (data_ind_log x) @ map first_byte (input_sdus r) = [[7, 8]]"
proof -
  let ?cu = "\<lparr>module_id = 0, enb_flag = False, rnti = 7, frame = 0, subframe = 0\<rparr>"
  let ?cb = "\<lparr>module_id = 0, enb_flag = True, rnti = 7, frame = 0, subframe = 0\<rparr>"
  let ?su = "one_bearer_layer ?cu 1 3 False (um_ready True)" and ?sb = "one_bearer_layer ?cb 1 3 False (um_ready True)"
  let ?al = "\<lambda>_ :: nat. Some (\<lambda>_ :: nat. 0 :: byte)" and ?sdu = "\<lambda>i :: nat. of_nat i + 7 :: byte"
  define v where "v = \<lparr>be_opu = no_am, be_opb = no_am, be_alu = (\<lambda>_. ?al), be_alb = (\<lambda>_. ?al), be_tb = ?al, be_cu = ?cu, be_cb = ?cb, be_rb = 1, be_lc = 3\<rparr>"
  have u: "rlc_layer_ok ?su" "rlc_addr ?su = [rb_key ?cu 1 False \<mapsto> 0, lc_key ?cu 3 False \<mapsto> 0]" "rlc_objs ?su = [0 \<mapsto> Rlc_um (um_ready True)]"
    by (rule one_bearer_layer; simp)+
  have b: "rlc_layer_ok ?sb" "rlc_addr ?sb = [rb_key ?cb 1 False \<mapsto> 0, lc_key ?cb 3 False \<mapsto> 0]" "rlc_objs ?sb = [0 \<mapsto> Rlc_um (um_ready True)]"
    by (rule one_bearer_layer; simp)+
  have bu: "um_bearer ?su ?cu 1 3 False (um_ready True)" and bb: "um_bearer ?sb ?cb 1 3 False (um_ready True)"
    using u b by (auto simp: um_bearer_def)
  have srb: "channel_srb 3 = False" by (simp add: channel_srb_def)
  have q: "input_sdus (um_ready True) = []" "sdu_max (um_ready True) = 9000" "rlc_um_get_buffer_occupancy (um_ready True) \<le> 5000000"
    by (simp_all add: um_ready_def sdu_max_def rlc_um_configure_def rlc_um_zero_def rlc_um_reset_state_variables_def rlc_um_init_timer_reordering_def
        rlc_um_get_buffer_occupancy_def)
  have k: "rlc_addr ?su (rb_key ?cu 1 False) = Some 0" using u(2) by simp
  obtain su where d: "rlc_data_req no_am (Some (\<lambda>_. 0)) ?cu False False 1 0 0 2 (Some ?sdu) ?su = Some (RLC_OP_STATUS_OK, su)"
    using data_req_um [OF bu k _ _ q(3), of 2 no_am "\<lambda>_. 0" 0 0 ?sdu] by auto
  have bytes: "mem_read ?sdu 0 (nat 2) = [7, 8]" by (simp add: mem_read_def numeral_2_eq_2)
  have "bearer_run v (?su, ?sb) ([] @ [mem_read ?sdu 0 (nat 2)]) (su, ?sb)"
    by (rule bearer_run.submit [OF bearer_run.start, where r = "um_ready True" and x = "um_ready True"]) (use d srb um_bearer_at [OF bu] um_bearer_at [OF bb] q in \<open>simp_all add: v_def\<close>)
  then have run: "bearer_run v (?su, ?sb) [[7, 8]] (su, ?sb)" unfolding bytes by simp
  have ok: "bearer_env_ok v" by (simp add: bearer_env_ok_def v_def alloc_total_def)
  have h: "um_bearer ?su (be_cu v) (be_rb v) (be_lc v) (channel_srb (be_lc v)) (um_ready True)"
    "um_bearer ?sb (be_cb v) (be_rb v) (be_lc v) (channel_srb (be_lc v)) (um_ready True)" using bu bb srb by (simp_all add: v_def)
  obtain r x where "um_at su (rb_key ?cu 1 False) = Some r" "um_at ?sb (lc_key ?cb 3 False) = Some x"
    "map di_sdu (data_ind_log x) @ map first_byte (input_sdus r) = [[7, 8]]"
    using rlc_layer_transfer_in_order [OF run ok h, of 2 True "\<lambda>_. 0"] srb by (auto simp: v_def)
  then show ?thesis using d by (auto simp: Let_def)
qed

end
