(* ===== verification/Osa_Security.thy ===== *)
theory Osa_Security
  imports Oai_Prelude
begin

text \<open>
  The ciphering and integrity algorithms PDCP calls (\<open>openair2/UTIL/OSA\<close>): SNOW 3G, the stream ciphers EEA0, EEA1 and EEA2
  and the message authentication codes EIA1 and EIA2, with the dispatch on the algorithm. The memory of the caller is
  explicit, since EEA1 works in place on whole 32-bit words. A failed assertion is \<open>None\<close>. Loads and stores of 32-bit
  words are those of a little-endian machine. AES in counter mode (Nettle) and CMAC (OpenSSL) are parameters.

  The lemmas show that each cipher is undone by applying it again with the same parameters, including the octets after the
  message that EEA1 changes, and that a computed authentication code is accepted.
\<close>

section \<open>SNOW 3G\<close>

definition OSA_SR :: "byte list" where
  "OSA_SR =
    [0x63, 0x7C, 0x77, 0x7B, 0xF2, 0x6B, 0x6F, 0xC5, 0x30, 0x01, 0x67, 0x2B, 0xFE, 0xD7, 0xAB, 0x76,
     0xCA, 0x82, 0xC9, 0x7D, 0xFA, 0x59, 0x47, 0xF0, 0xAD, 0xD4, 0xA2, 0xAF, 0x9C, 0xA4, 0x72, 0xC0,
     0xB7, 0xFD, 0x93, 0x26, 0x36, 0x3F, 0xF7, 0xCC, 0x34, 0xA5, 0xE5, 0xF1, 0x71, 0xD8, 0x31, 0x15,
     0x04, 0xC7, 0x23, 0xC3, 0x18, 0x96, 0x05, 0x9A, 0x07, 0x12, 0x80, 0xE2, 0xEB, 0x27, 0xB2, 0x75,
     0x09, 0x83, 0x2C, 0x1A, 0x1B, 0x6E, 0x5A, 0xA0, 0x52, 0x3B, 0xD6, 0xB3, 0x29, 0xE3, 0x2F, 0x84,
     0x53, 0xD1, 0x00, 0xED, 0x20, 0xFC, 0xB1, 0x5B, 0x6A, 0xCB, 0xBE, 0x39, 0x4A, 0x4C, 0x58, 0xCF,
     0xD0, 0xEF, 0xAA, 0xFB, 0x43, 0x4D, 0x33, 0x85, 0x45, 0xF9, 0x02, 0x7F, 0x50, 0x3C, 0x9F, 0xA8,
     0x51, 0xA3, 0x40, 0x8F, 0x92, 0x9D, 0x38, 0xF5, 0xBC, 0xB6, 0xDA, 0x21, 0x10, 0xFF, 0xF3, 0xD2,
     0xCD, 0x0C, 0x13, 0xEC, 0x5F, 0x97, 0x44, 0x17, 0xC4, 0xA7, 0x7E, 0x3D, 0x64, 0x5D, 0x19, 0x73,
     0x60, 0x81, 0x4F, 0xDC, 0x22, 0x2A, 0x90, 0x88, 0x46, 0xEE, 0xB8, 0x14, 0xDE, 0x5E, 0x0B, 0xDB,
     0xE0, 0x32, 0x3A, 0x0A, 0x49, 0x06, 0x24, 0x5C, 0xC2, 0xD3, 0xAC, 0x62, 0x91, 0x95, 0xE4, 0x79,
     0xE7, 0xC8, 0x37, 0x6D, 0x8D, 0xD5, 0x4E, 0xA9, 0x6C, 0x56, 0xF4, 0xEA, 0x65, 0x7A, 0xAE, 0x08,
     0xBA, 0x78, 0x25, 0x2E, 0x1C, 0xA6, 0xB4, 0xC6, 0xE8, 0xDD, 0x74, 0x1F, 0x4B, 0xBD, 0x8B, 0x8A,
     0x70, 0x3E, 0xB5, 0x66, 0x48, 0x03, 0xF6, 0x0E, 0x61, 0x35, 0x57, 0xB9, 0x86, 0xC1, 0x1D, 0x9E,
     0xE1, 0xF8, 0x98, 0x11, 0x69, 0xD9, 0x8E, 0x94, 0x9B, 0x1E, 0x87, 0xE9, 0xCE, 0x55, 0x28, 0xDF,
     0x8C, 0xA1, 0x89, 0x0D, 0xBF, 0xE6, 0x42, 0x68, 0x41, 0x99, 0x2D, 0x0F, 0xB0, 0x54, 0xBB, 0x16]"

definition OSA_SQ :: "byte list" where
  "OSA_SQ =
    [0x25, 0x24, 0x73, 0x67, 0xD7, 0xAE, 0x5C, 0x30, 0xA4, 0xEE, 0x6E, 0xCB, 0x7D, 0xB5, 0x82, 0xDB,
     0xE4, 0x8E, 0x48, 0x49, 0x4F, 0x5D, 0x6A, 0x78, 0x70, 0x88, 0xE8, 0x5F, 0x5E, 0x84, 0x65, 0xE2,
     0xD8, 0xE9, 0xCC, 0xED, 0x40, 0x2F, 0x11, 0x28, 0x57, 0xD2, 0xAC, 0xE3, 0x4A, 0x15, 0x1B, 0xB9,
     0xB2, 0x80, 0x85, 0xA6, 0x2E, 0x02, 0x47, 0x29, 0x07, 0x4B, 0x0E, 0xC1, 0x51, 0xAA, 0x89, 0xD4,
     0xCA, 0x01, 0x46, 0xB3, 0xEF, 0xDD, 0x44, 0x7B, 0xC2, 0x7F, 0xBE, 0xC3, 0x9F, 0x20, 0x4C, 0x64,
     0x83, 0xA2, 0x68, 0x42, 0x13, 0xB4, 0x41, 0xCD, 0xBA, 0xC6, 0xBB, 0x6D, 0x4D, 0x71, 0x21, 0xF4,
     0x8D, 0xB0, 0xE5, 0x93, 0xFE, 0x8F, 0xE6, 0xCF, 0x43, 0x45, 0x31, 0x22, 0x37, 0x36, 0x96, 0xFA,
     0xBC, 0x0F, 0x08, 0x52, 0x1D, 0x55, 0x1A, 0xC5, 0x4E, 0x23, 0x69, 0x7A, 0x92, 0xFF, 0x5B, 0x5A,
     0xEB, 0x9A, 0x1C, 0xA9, 0xD1, 0x7E, 0x0D, 0xFC, 0x50, 0x8A, 0xB6, 0x62, 0xF5, 0x0A, 0xF8, 0xDC,
     0x03, 0x3C, 0x0C, 0x39, 0xF1, 0xB8, 0xF3, 0x3D, 0xF2, 0xD5, 0x97, 0x66, 0x81, 0x32, 0xA0, 0x00,
     0x06, 0xCE, 0xF6, 0xEA, 0xB7, 0x17, 0xF7, 0x8C, 0x79, 0xD6, 0xA7, 0xBF, 0x8B, 0x3F, 0x1F, 0x53,
     0x63, 0x75, 0x35, 0x2C, 0x60, 0xFD, 0x27, 0xD3, 0x94, 0xA5, 0x7C, 0xA1, 0x05, 0x58, 0x2D, 0xBD,
     0xD9, 0xC7, 0xAF, 0x6B, 0x54, 0x0B, 0xE0, 0x38, 0x04, 0xC8, 0x9D, 0xE7, 0x14, 0xB1, 0x87, 0x9C,
     0xDF, 0x6F, 0xF9, 0xDA, 0x2A, 0xC4, 0x59, 0x16, 0x74, 0x91, 0xAB, 0x26, 0x61, 0x76, 0x34, 0x2B,
     0xAD, 0x99, 0xFB, 0x72, 0xEC, 0x33, 0x12, 0xDE, 0x98, 0x3B, 0xC0, 0x9B, 0x3E, 0x18, 0x10, 0x3A,
     0x56, 0xE1, 0x77, 0xC9, 0x1E, 0x9E, 0x95, 0xA3, 0x90, 0x19, 0xA8, 0x6C, 0x09, 0xD0, 0xF0, 0x86]"

definition sbox :: "byte list \<Rightarrow> byte \<Rightarrow> byte" where
  "sbox t b = t ! unat b"

definition OSA_MULx :: "byte \<Rightarrow> byte \<Rightarrow> byte" where
  "OSA_MULx V c = (if V AND 0x80 \<noteq> 0 then push_bit 1 V XOR c else push_bit 1 V)"

fun OSA_MULxPOW :: "byte \<Rightarrow> nat \<Rightarrow> byte \<Rightarrow> byte" where
  "OSA_MULxPOW V 0 c = V"
| "OSA_MULxPOW V (Suc i) c = OSA_MULx (OSA_MULxPOW V i c) c"

definition OSA_MULalpha :: "byte \<Rightarrow> 32 word" where
  "OSA_MULalpha c =
     push_bit 24 (ucast (OSA_MULxPOW c 23 0xa9)) OR push_bit 16 (ucast (OSA_MULxPOW c 245 0xa9))
     OR push_bit 8 (ucast (OSA_MULxPOW c 48 0xa9)) OR ucast (OSA_MULxPOW c 239 0xa9)"

definition OSA_DIValpha :: "byte \<Rightarrow> 32 word" where
  "OSA_DIValpha c =
     push_bit 24 (ucast (OSA_MULxPOW c 16 0xa9)) OR push_bit 16 (ucast (OSA_MULxPOW c 39 0xa9))
     OR push_bit 8 (ucast (OSA_MULxPOW c 6 0xa9)) OR ucast (OSA_MULxPOW c 64 0xa9)"

definition OSA_S1 :: "32 word \<Rightarrow> 32 word" where
  "OSA_S1 w =
     (let srw0 = sbox OSA_SR (ucast (drop_bit 24 w AND 0xff)); srw1 = sbox OSA_SR (ucast (drop_bit 16 w AND 0xff));
          srw2 = sbox OSA_SR (ucast (drop_bit 8 w AND 0xff)); srw3 = sbox OSA_SR (ucast (w AND 0xff));
          r0 = OSA_MULx srw0 0x1b XOR srw1 XOR srw2 XOR (OSA_MULx srw3 0x1b XOR srw3);
          r1 = (OSA_MULx srw0 0x1b XOR srw0) XOR OSA_MULx srw1 0x1b XOR srw2 XOR srw3;
          r2 = srw0 XOR (OSA_MULx srw1 0x1b XOR srw1) XOR OSA_MULx srw2 0x1b XOR srw3;
          r3 = srw0 XOR srw1 XOR (OSA_MULx srw2 0x1b XOR srw2) XOR OSA_MULx srw3 0x1b in
      push_bit 24 (ucast r0) OR push_bit 16 (ucast r1) OR push_bit 8 (ucast r2) OR ucast r3)"

definition OSA_S2 :: "32 word \<Rightarrow> 32 word" where
  "OSA_S2 w =
     (let sqw0 = sbox OSA_SQ (ucast (drop_bit 24 w AND 0xff)); sqw1 = sbox OSA_SQ (ucast (drop_bit 16 w AND 0xff));
          sqw2 = sbox OSA_SQ (ucast (drop_bit 8 w AND 0xff)); sqw3 = sbox OSA_SQ (ucast (w AND 0xff));
          r0 = OSA_MULx sqw0 0x69 XOR sqw1 XOR sqw2 XOR (OSA_MULx sqw3 0x69 XOR sqw3);
          r1 = (OSA_MULx sqw0 0x69 XOR sqw0) XOR OSA_MULx sqw1 0x69 XOR sqw2 XOR sqw3;
          r2 = sqw0 XOR (OSA_MULx sqw1 0x69 XOR sqw1) XOR OSA_MULx sqw2 0x69 XOR sqw3;
          r3 = sqw0 XOR sqw1 XOR (OSA_MULx sqw2 0x69 XOR sqw2) XOR OSA_MULx sqw3 0x69 in
      push_bit 24 (ucast r0) OR push_bit 16 (ucast r1) OR push_bit 8 (ucast r2) OR ucast r3)"

record osa_snow_3g_context =
  LFSR_S0 :: "32 word"
  LFSR_S1 :: "32 word"
  LFSR_S2 :: "32 word"
  LFSR_S3 :: "32 word"
  LFSR_S4 :: "32 word"
  LFSR_S5 :: "32 word"
  LFSR_S6 :: "32 word"
  LFSR_S7 :: "32 word"
  LFSR_S8 :: "32 word"
  LFSR_S9 :: "32 word"
  LFSR_S10 :: "32 word"
  LFSR_S11 :: "32 word"
  LFSR_S12 :: "32 word"
  LFSR_S13 :: "32 word"
  LFSR_S14 :: "32 word"
  LFSR_S15 :: "32 word"
  FSM_R1 :: "32 word"
  FSM_R2 :: "32 word"
  FSM_R3 :: "32 word"

definition snow3g_shift :: "32 word \<Rightarrow> osa_snow_3g_context \<Rightarrow> osa_snow_3g_context" where
  "snow3g_shift v c = c\<lparr>LFSR_S0 := LFSR_S1 c, LFSR_S1 := LFSR_S2 c, LFSR_S2 := LFSR_S3 c, LFSR_S3 := LFSR_S4 c, LFSR_S4 := LFSR_S5 c,
     LFSR_S5 := LFSR_S6 c, LFSR_S6 := LFSR_S7 c, LFSR_S7 := LFSR_S8 c, LFSR_S8 := LFSR_S9 c, LFSR_S9 := LFSR_S10 c,
     LFSR_S10 := LFSR_S11 c, LFSR_S11 := LFSR_S12 c, LFSR_S12 := LFSR_S13 c, LFSR_S13 := LFSR_S14 c, LFSR_S14 := LFSR_S15 c, LFSR_S15 := v\<rparr>"

definition osa_snow3g_clock_LFSR_initialization_mode :: "32 word \<Rightarrow> osa_snow_3g_context \<Rightarrow> osa_snow_3g_context" where
  "osa_snow3g_clock_LFSR_initialization_mode F c =
     snow3g_shift ((push_bit 8 (LFSR_S0 c) AND 0xffffff00) XOR OSA_MULalpha (ucast (drop_bit 24 (LFSR_S0 c) AND 0xff)) XOR LFSR_S2 c
       XOR (drop_bit 8 (LFSR_S11 c) AND 0x00ffffff) XOR OSA_DIValpha (ucast (LFSR_S11 c AND 0xff)) XOR F) c"

definition osa_snow3g_clock_LFSR_key_stream_mode :: "osa_snow_3g_context \<Rightarrow> osa_snow_3g_context" where
  "osa_snow3g_clock_LFSR_key_stream_mode c =
     snow3g_shift ((push_bit 8 (LFSR_S0 c) AND 0xffffff00) XOR OSA_MULalpha (ucast (drop_bit 24 (LFSR_S0 c) AND 0xff)) XOR LFSR_S2 c
       XOR (drop_bit 8 (LFSR_S11 c) AND 0x00ffffff) XOR OSA_DIValpha (ucast (LFSR_S11 c AND 0xff))) c"

definition osa_snow3g_clock_fsm :: "osa_snow_3g_context \<Rightarrow> 32 word \<times> osa_snow_3g_context" where
  "osa_snow3g_clock_fsm c =
     (let F = ((LFSR_S15 c + FSM_R1 c) AND 0xffffffff) XOR FSM_R2 c;
          r = (FSM_R2 c + (FSM_R3 c XOR LFSR_S5 c)) AND 0xffffffff in
      (F, c\<lparr>FSM_R3 := OSA_S2 (FSM_R2 c), FSM_R2 := OSA_S1 (FSM_R1 c), FSM_R1 := r\<rparr>))"

fun snow3g_init_rounds :: "nat \<Rightarrow> osa_snow_3g_context \<Rightarrow> osa_snow_3g_context" where
  "snow3g_init_rounds 0 c = c"
| "snow3g_init_rounds (Suc n) c =
     (case osa_snow3g_clock_fsm c of (F, c1) \<Rightarrow> snow3g_init_rounds n (osa_snow3g_clock_LFSR_initialization_mode F c1))"

text \<open>The arrays of four words are functions of the index.\<close>

definition osa_snow3g_initialize :: "(nat \<Rightarrow> 32 word) \<Rightarrow> (nat \<Rightarrow> 32 word) \<Rightarrow> osa_snow_3g_context" where
  "osa_snow3g_initialize k IV = snow3g_init_rounds 32
     \<lparr>LFSR_S0 = k 0 XOR 0xffffffff, LFSR_S1 = k 1 XOR 0xffffffff, LFSR_S2 = k 2 XOR 0xffffffff, LFSR_S3 = k 3 XOR 0xffffffff,
      LFSR_S4 = k 0, LFSR_S5 = k 1, LFSR_S6 = k 2, LFSR_S7 = k 3,
      LFSR_S8 = k 0 XOR 0xffffffff, LFSR_S9 = k 1 XOR 0xffffffff XOR IV 3, LFSR_S10 = k 2 XOR 0xffffffff XOR IV 2, LFSR_S11 = k 3 XOR 0xffffffff,
      LFSR_S12 = k 0 XOR IV 1, LFSR_S13 = k 1, LFSR_S14 = k 2, LFSR_S15 = k 3 XOR IV 0,
      FSM_R1 = 0, FSM_R2 = 0, FSM_R3 = 0\<rparr>"

fun key_stream_words :: "nat \<Rightarrow> osa_snow_3g_context \<Rightarrow> 32 word list" where
  "key_stream_words 0 c = []"
| "key_stream_words (Suc n) c =
     (case osa_snow3g_clock_fsm c of (F, c1) \<Rightarrow> (F XOR LFSR_S0 c1) # key_stream_words n (osa_snow3g_clock_LFSR_key_stream_mode c1))"

definition osa_snow3g_generate_key_stream :: "nat \<Rightarrow> osa_snow_3g_context \<Rightarrow> 32 word list" where
  "osa_snow3g_generate_key_stream n c =
     (case osa_snow3g_clock_fsm c of (F, c1) \<Rightarrow> key_stream_words n (osa_snow3g_clock_LFSR_key_stream_mode c1))"

section \<open>Ciphers\<close>

text \<open>The words of the machine: little-endian loads and stores, and the macro that swaps the octets.\<close>

definition load32 :: "mem \<Rightarrow> nat \<Rightarrow> 32 word" where
  "load32 m a = ucast (m a) OR push_bit 8 (ucast (m (a + 1))) OR push_bit 16 (ucast (m (a + 2))) OR push_bit 24 (ucast (m (a + 3)))"

definition store32 :: "32 word \<Rightarrow> byte list" where
  "store32 w = [ucast w, ucast (drop_bit 8 w), ucast (drop_bit 16 w), ucast (drop_bit 24 w)]"

definition hton_int32 :: "32 word \<Rightarrow> 32 word" where
  "hton_int32 x = push_bit 24 (x AND 0x000000FF) OR push_bit 8 (x AND 0x0000FF00)
     OR drop_bit 8 (x AND 0x00FF0000) OR drop_bit 24 (x AND 0xFF000000)"

text \<open>The \<open>sc_key\<close> is the memory the pointer leads to, \<open>None\<close> for NULL; \<open>sc_message\<close> is an offset in the buffer of the caller.\<close>

record stream_cipher =
  sc_key :: "mem option"
  sc_key_length :: nat
  sc_count :: "32 word"
  sc_bearer :: byte
  sc_direction :: byte
  sc_message :: nat
  sc_blength :: "32 word"

definition SECU_DIRECTION_UPLINK :: byte where "SECU_DIRECTION_UPLINK = 0"
definition SECU_DIRECTION_DOWNLINK :: byte where "SECU_DIRECTION_DOWNLINK = 1"

text \<open>
  The functions write to the buffer \<open>*out\<close>, which the callers provide (they pass the address of the message). The branch
  that allocates it is not part of the model.
\<close>

definition stream_encrypt_eea0 :: "stream_cipher \<Rightarrow> nat \<Rightarrow> mem \<Rightarrow> (int \<times> mem) option" where
  "stream_encrypt_eea0 sc out m =
     (let byte_length = unat (drop_bit 3 (sc_blength sc + 7)) in
      Some (0, mem_write m out (mem_read m (sc_message sc) byte_length)))"

definition snow3g_key :: "mem \<Rightarrow> nat \<Rightarrow> 32 word" where
  "snow3g_key k i = hton_int32 (load32 k (12 - 4 * i))"

definition eea1_iv :: "stream_cipher \<Rightarrow> nat \<Rightarrow> 32 word" where
  "eea1_iv sc i =
     (if i = 3 \<or> i = 1 then sc_count sc
      else push_bit 24 (push_bit 3 (ucast (sc_bearer sc)) OR push_bit 2 (ucast (sc_direction sc) AND 0x1)))"

text \<open>The key stream as the octets of the array \<open>KS\<close> after the swaps.\<close>

definition eea1_key_stream :: "stream_cipher \<Rightarrow> mem \<Rightarrow> nat \<Rightarrow> byte list" where
  "eea1_key_stream sc k n =
     (let zero_bit = sc_blength sc AND 0x7;
          KS = osa_snow3g_generate_key_stream n (osa_snow3g_initialize (snow3g_key k) (eea1_iv sc));
          KS1 = (if 0 < zero_bit \<and> 0 < n then KS[n - 1 := KS ! (n - 1) AND push_bit (unat (8 - zero_bit)) 0xFFFFFFFF] else KS) in
      concat (map (\<lambda>w. store32 (hton_int32 w)) KS1))"

definition mem_xor :: "mem \<Rightarrow> nat \<Rightarrow> byte list \<Rightarrow> mem" where
  "mem_xor m off ks = mem_write m off (map2 (\<lambda>a b. a XOR b) (mem_read m off (length ks)) ks)"

definition stream_encrypt_eea1 :: "stream_cipher \<Rightarrow> nat \<Rightarrow> mem \<Rightarrow> (int \<times> mem) option" where
  "stream_encrypt_eea1 sc out m =
     (case sc_key sc of
        None \<Rightarrow> None
      | Some k \<Rightarrow>
          if sc_key_length sc \<noteq> 16 then None
          else
            let n = unat ((sc_blength sc + 31) div 32);
                zero_bit = sc_blength sc AND 0x7;
                m1 = mem_xor m (sc_message sc) (eea1_key_stream sc k n);
                last_octet = sc_message sc + unat (drop_bit 3 (sc_blength sc + 7)) - 1 in
            Some (0, if 0 < zero_bit then m1(last_octet := m1 last_octet AND ucast (push_bit (unat (8 - zero_bit)) (0xFF :: 32 word))) else m1))"

text \<open>\<open>ctr\<close> is \<open>nettle_ctr_crypt\<close> with AES-128: key, initial counter block, message. A NULL key is dereferenced by Nettle.\<close>

type_synonym ctr_fun = "byte list \<Rightarrow> byte list \<Rightarrow> byte list \<Rightarrow> byte list"

definition eea2_block :: "stream_cipher \<Rightarrow> byte list" where
  "eea2_block sc = store32 (hton_int32 (sc_count sc))
     @ [push_bit 3 (sc_bearer sc AND 0x1F) OR push_bit 2 (sc_direction sc AND 0x01)] @ replicate 11 0"

definition stream_encrypt_eea2 :: "ctr_fun \<Rightarrow> stream_cipher \<Rightarrow> nat \<Rightarrow> mem \<Rightarrow> (int \<times> mem) option" where
  "stream_encrypt_eea2 ctr sc out m =
     (case sc_key sc of
        None \<Rightarrow> None
      | Some k \<Rightarrow>
          let zero_bit = sc_blength sc AND 0x7;
              byte_length = unat (drop_bit 3 (sc_blength sc)) + (if 0 < zero_bit then 1 else 0);
              m1 = mem_write m out (ctr (mem_read k 0 16) (eea2_block sc) (mem_read m (sc_message sc) byte_length));
              last_octet = out + byte_length - 1 in
          Some (0, if 0 < zero_bit then m1(last_octet := m1 last_octet AND ucast (push_bit (unat (8 - zero_bit)) (0xFF :: 32 word))) else m1))"

definition stream_encrypt :: "ctr_fun \<Rightarrow> byte \<Rightarrow> stream_cipher \<Rightarrow> nat \<Rightarrow> mem \<Rightarrow> (int \<times> mem) option" where
  "stream_encrypt ctr algorithm sc out m =
     (if algorithm = 0 then stream_encrypt_eea0 sc out m
      else if algorithm = 1 then stream_encrypt_eea1 sc out m
      else if algorithm = 2 then stream_encrypt_eea2 ctr sc out m
      else Some (-1, m))"

section \<open>Integrity\<close>

definition OSA_MUL64x :: "64 word \<Rightarrow> 64 word \<Rightarrow> 64 word" where
  "OSA_MUL64x V c = (if V AND 0x8000000000000000 \<noteq> 0 then push_bit 1 V XOR c else push_bit 1 V)"

fun OSA_MUL64xPOW :: "64 word \<Rightarrow> nat \<Rightarrow> 64 word \<Rightarrow> 64 word" where
  "OSA_MUL64xPOW V 0 c = V"
| "OSA_MUL64xPOW V (Suc i) c = OSA_MUL64x (OSA_MUL64xPOW V i c) c"

definition OSA_MUL64 :: "64 word \<Rightarrow> 64 word \<Rightarrow> 64 word \<Rightarrow> 64 word" where
  "OSA_MUL64 V P c =
     fold (\<lambda>i result. if drop_bit i P AND 0x1 \<noteq> 0 then result XOR OSA_MUL64xPOW V i c else result) [0..<64] 0"

fun mask_loop :: "nat \<Rightarrow> 32 word \<Rightarrow> 32 word" where
  "mask_loop 0 msk = msk"
| "mask_loop (Suc n) msk = mask_loop n (drop_bit 1 msk XOR 0x80000000)"

definition osa_mask32bit :: "nat \<Rightarrow> 32 word" where
  "osa_mask32bit n = (if n mod 32 = 0 then 0xffffffff else mask_loop n 0)"

definition eia1_iv :: "stream_cipher \<Rightarrow> nat \<Rightarrow> 32 word" where
  "eia1_iv sc i =
     (if i = 3 then sc_count sc
      else if i = 2 then push_bit 27 (ucast (sc_bearer sc) AND 0x1F)
      else if i = 1 then sc_count sc XOR push_bit 31 (ucast (sc_direction sc))
      else push_bit 27 (ucast (sc_bearer sc) AND 0x1F) XOR push_bit 15 (ucast (sc_direction sc AND 0x1)))"

text \<open>Word \<open>j\<close> of the message, its blocks and the last block. For an empty message the code reads before the message.\<close>

definition eia1_word :: "mem \<Rightarrow> stream_cipher \<Rightarrow> nat \<Rightarrow> 32 word" where
  "eia1_word m sc j = hton_int32 (load32 m (sc_message sc + 4 * j))"

definition eia1_block :: "mem \<Rightarrow> stream_cipher \<Rightarrow> nat \<Rightarrow> 64 word" where
  "eia1_block m sc i = push_bit 32 (ucast (eia1_word m sc (2 * i))) OR ucast (eia1_word m sc (2 * i + 1))"

definition eia1_last :: "mem \<Rightarrow> stream_cipher \<Rightarrow> nat \<Rightarrow> 64 word" where
  "eia1_last m sc D =
     (let rem_bits = (if unat (sc_blength sc) mod 64 = 0 then 64 else unat (sc_blength sc) mod 64);
          msk = osa_mask32bit (rem_bits mod 32) in
      if rem_bits > 32
      then push_bit 32 (ucast (eia1_word m sc (2 * (D - 2)))) OR ucast (eia1_word m sc (2 * (D - 2) + 1) AND msk)
      else push_bit 32 (ucast (eia1_word m sc (2 * (D - 2))) AND ucast msk))"

definition stream_compute_integrity_eia1 :: "stream_cipher \<Rightarrow> mem \<Rightarrow> (int \<times> byte list) option" where
  "stream_compute_integrity_eia1 sc m =
     (case sc_key sc of
        None \<Rightarrow> None
      | Some k \<Rightarrow>
          if sc_blength sc = 0 then None
          else
          let z = osa_snow3g_generate_key_stream 5 (osa_snow3g_initialize (snow3g_key k) (eia1_iv sc));
              P = push_bit 32 (ucast (z ! 0)) OR ucast (z ! 1);
              Q = push_bit 32 (ucast (z ! 2)) OR ucast (z ! 3);
              D = (unat (sc_blength sc) + 63) div 64 + 1;
              EVAL = fold (\<lambda>i EVAL. OSA_MUL64 (EVAL XOR eia1_block m sc i) P 0x1b) [0..<D - 2] 0;
              EVAL1 = OSA_MUL64 (EVAL XOR eia1_last m sc D) P 0x1b;
              EVAL2 = OSA_MUL64 (EVAL1 XOR ucast (sc_blength sc)) Q 0x1b;
              MAC_I = ucast (drop_bit 32 EVAL2) XOR z ! 4 in
          Some (0, store32 (hton_int32 MAC_I)))"

text \<open>\<open>cmac\<close> is CMAC with AES-128 in OpenSSL: key and message. Its result overwrites sixteen zero octets.\<close>

type_synonym cmac_fun = "byte list \<Rightarrow> byte list \<Rightarrow> byte list"

definition stream_compute_integrity_eia2 :: "cmac_fun \<Rightarrow> stream_cipher \<Rightarrow> mem \<Rightarrow> (int \<times> byte list) option" where
  "stream_compute_integrity_eia2 cmac sc m =
     (case sc_key sc of
        None \<Rightarrow> None
      | Some k \<Rightarrow>
          let zero_bit = sc_blength sc AND 0x7;
              m_length = unat (drop_bit 3 (sc_blength sc)) + (if 0 < zero_bit then 1 else 0);
              msg = store32 (hton_int32 (sc_count sc)) @ [push_bit 3 (sc_bearer sc AND 0x1F) OR push_bit 2 (sc_direction sc AND 0x01), 0, 0, 0]
                    @ mem_read m (sc_message sc) m_length in
          Some (0, take 4 (cmac (mem_read k 0 (sc_key_length sc)) msg @ replicate 16 0)))"

text \<open>The result and the four octets, \<open>None\<close> where the output is not written.\<close>

definition stream_compute_integrity ::
  "cmac_fun \<Rightarrow> byte \<Rightarrow> stream_cipher \<Rightarrow> mem \<Rightarrow> (int \<times> byte list option) option" where
  "stream_compute_integrity cmac algorithm sc m =
     (if algorithm = 1 then map_option (map_prod id Some) (stream_compute_integrity_eia1 sc m)
      else if algorithm = 2 then map_option (map_prod id Some) (stream_compute_integrity_eia2 cmac sc m)
      else Some (-1, None))"

definition stream_check_integrity :: "cmac_fun \<Rightarrow> byte \<Rightarrow> stream_cipher \<Rightarrow> byte list \<Rightarrow> mem \<Rightarrow> int option" where
  "stream_check_integrity cmac algorithm sc expected m =
     (if algorithm = 0 then Some 0
      else (case stream_compute_integrity cmac algorithm sc m of
          None \<Rightarrow> None
        | Some (rc, result) \<Rightarrow> Some (if rc = 0 \<and> result = Some (take 4 expected) then 0 else -1)))"

section \<open>A key stream added to the message\<close>

lemma mem_xor_apply: "mem_xor m a ks i = (if a \<le> i \<and> i < a + length ks then m i XOR ks ! (i - a) else m i)"
  by (auto simp: mem_xor_def mem_write_def)

lemma mem_xor_twice [simp]: "mem_xor (mem_xor m a ks) a ks = m"
  by (rule ext) (simp add: mem_xor_apply xor.assoc)

lemma mem_xor_Nil [simp]: "mem_xor m a [] = m"
  by (simp add: mem_xor_def)

lemma mem_write_read [simp]: "mem_write m a (mem_read m a n) = m"
  by (rule ext) (auto simp: mem_write_def)

lemma aligned_length:
  assumes "n < 2 ^ 16"
  shows "unat ((8 * of_nat n + 31 :: 32 word) div 32) = (n + 3) div 4"
    "unat (drop_bit 3 (8 * of_nat n + 7 :: 32 word)) = n" "unat (drop_bit 3 (8 * of_nat n :: 32 word)) = n"
    "(8 * of_nat n :: 32 word) AND 7 = 0" "unat (8 * of_nat n :: 32 word) = 8 * n"
proof -
  have n: "unat (of_nat n :: 32 word) = n" using assms by (simp add: unsigned_of_nat take_bit_nat_eq_self)
  have u: "unat (8 * of_nat n :: 32 word) = 8 * n" using assms n by (simp add: unat_word_ariths)
  have p: "unat (8 * of_nat n + 31 :: 32 word) = 8 * n + 31" "unat (8 * of_nat n + 7 :: 32 word) = 8 * n + 7"
    using assms u by (simp_all add: unat_word_ariths(1))
  show "unat ((8 * of_nat n + 31 :: 32 word) div 32) = (n + 3) div 4"
    using p(1) by (simp add: unat_div)
  show "unat (drop_bit 3 (8 * of_nat n + 7 :: 32 word)) = n" "unat (drop_bit 3 (8 * of_nat n :: 32 word)) = n"
    using p(2) u by (simp_all add: drop_bit_eq_div unat_div)
  have "(8 * of_nat n :: 32 word) AND 7 = of_nat (8 * n) AND mask 3" by (simp add: mask_eq_exp_minus_1)
  also have "\<dots> = of_nat (take_bit 3 (8 * n))" by (simp only: take_bit_eq_mask [symmetric] take_bit_of_nat)
  finally show "(8 * of_nat n :: 32 word) AND 7 = 0" by (simp add: take_bit_eq_mod)
  show "unat (8 * of_nat n :: 32 word) = 8 * n" by (rule u)
qed

text \<open>
  The contract PDCP relies on: for a message of whole octets with the parameters the algorithm needs, the cipher adds to
  the message a key stream that does not depend on where the message is.
\<close>

locale keystream_cipher =
  fixes ready :: "stream_cipher \<Rightarrow> bool" and crypt :: "stream_cipher \<Rightarrow> nat \<Rightarrow> mem \<Rightarrow> (int \<times> mem) option" and ks :: "stream_cipher \<Rightarrow> byte list"
  assumes crypt_xor: "ready sc \<Longrightarrow> map_option snd (crypt sc (sc_message sc) m) = Some (mem_xor m (sc_message sc) (ks sc))"
    and ks_place: "ks (sc\<lparr>sc_message := a\<rparr>) = ks sc"
    and ks_length: "ready sc \<Longrightarrow> sc_blength sc = 8 * of_nat n \<Longrightarrow> n < 2 ^ 16 \<Longrightarrow> length (ks sc) \<le> 4 * ((n + 3) div 4)"
begin

lemma crypt_undo:
  assumes "ready sc"
  shows "\<exists>rc m' rc'. crypt sc (sc_message sc) m = Some (rc, m') \<and> crypt sc (sc_message sc) m' = Some (rc', m)"
proof -
  obtain rc where 1: "crypt sc (sc_message sc) m = Some (rc, mem_xor m (sc_message sc) (ks sc))" using crypt_xor [OF assms, of m] by auto
  have "map_option snd (crypt sc (sc_message sc) (mem_xor m (sc_message sc) (ks sc))) = Some m"
    using crypt_xor [OF assms, of "mem_xor m (sc_message sc) (ks sc)"] by simp
  then show ?thesis using 1 by auto
qed

lemma crypt_frame:
  assumes "ready sc" "sc_blength sc = 8 * of_nat n" "n < 2 ^ 16" "crypt sc (sc_message sc) m = Some (rc, m')"
    "i < sc_message sc \<or> sc_message sc + 4 * ((n + 3) div 4) \<le> i"
  shows "m' i = m i"
  using crypt_xor [OF assms(1), of m] ks_length [OF assms(1-3)] assms(4,5) by (auto simp: mem_xor_apply)

end

definition octets_only :: "stream_cipher \<Rightarrow> bool" where
  "octets_only sc \<longleftrightarrow> (\<exists>n < 2 ^ 16. sc_blength sc = 8 * of_nat n)"

definition keyed :: "stream_cipher \<Rightarrow> bool" where
  "keyed sc \<longleftrightarrow> octets_only sc \<and> sc_key sc \<noteq> None \<and> sc_key_length sc = 16"

lemma length_concat_const: "(\<And>x. x \<in> set xs \<Longrightarrow> length x = c) \<Longrightarrow> length (concat xs) = c * length xs"
  by (induction xs) auto

lemma length_key_stream_words [simp]: "length (key_stream_words n c) = n"
  by (induction n arbitrary: c) (simp_all split: prod.splits)

lemma length_key_stream [simp]: "length (osa_snow3g_generate_key_stream n c) = n"
  by (simp add: osa_snow3g_generate_key_stream_def split: prod.splits)

lemma length_eea1_key_stream [simp]: "length (eea1_key_stream sc k n) = 4 * n"
proof -
  have "length (concat (map (\<lambda>w. store32 (hton_int32 w)) ws)) = 4 * length ws" for ws
    by (subst length_concat_const [where c = 4]) (auto simp: store32_def)
  then show ?thesis by (simp add: eea1_key_stream_def Let_def)
qed

interpretation eea0: keystream_cipher octets_only stream_encrypt_eea0 "\<lambda>sc. []"
  by unfold_locales (auto simp: octets_only_def stream_encrypt_eea0_def aligned_length)

definition eea1_stream :: "stream_cipher \<Rightarrow> byte list" where
  "eea1_stream sc = (case sc_key sc of None \<Rightarrow> [] | Some k \<Rightarrow> eea1_key_stream sc k (unat ((sc_blength sc + 31) div 32)))"

interpretation eea1: keystream_cipher keyed stream_encrypt_eea1 eea1_stream
proof
  show "map_option snd (stream_encrypt_eea1 sc (sc_message sc) m) = Some (mem_xor m (sc_message sc) (eea1_stream sc))" if "keyed sc" for sc m
    using that by (auto simp: keyed_def octets_only_def stream_encrypt_eea1_def eea1_stream_def Let_def aligned_length)
  show "eea1_stream (sc\<lparr>sc_message := a\<rparr>) = eea1_stream sc" for sc a
  proof -
    have "eea1_iv (sc\<lparr>sc_message := a\<rparr>) = eea1_iv sc" by (simp add: eea1_iv_def fun_eq_iff)
    then show ?thesis by (cases "sc_key sc") (simp_all add: eea1_stream_def eea1_key_stream_def)
  qed
  show "length (eea1_stream sc) \<le> 4 * ((n + 3) div 4)" if "sc_blength sc = 8 * of_nat n" "n < 2 ^ 16" for sc n
    using that by (auto simp: eea1_stream_def aligned_length split: option.splits)
qed

text \<open>Counter mode adds a key stream that depends on the key, the counter block and the length.\<close>

definition ctr_mode :: "ctr_fun \<Rightarrow> (byte list \<Rightarrow> byte list \<Rightarrow> nat \<Rightarrow> byte list) \<Rightarrow> bool" where
  "ctr_mode ctr g \<longleftrightarrow> (\<forall>k b x. ctr k b x = map2 (\<lambda>a b. a XOR b) x (g k b (length x))) \<and> (\<forall>k b n. length (g k b n) = n)"

definition cipher_stream :: "(byte list \<Rightarrow> byte list \<Rightarrow> nat \<Rightarrow> byte list) \<Rightarrow> byte \<Rightarrow> stream_cipher \<Rightarrow> byte list" where
  "cipher_stream g algorithm sc =
     (if algorithm = 1 then eea1_stream sc
      else if algorithm = 2 then (case sc_key sc of None \<Rightarrow> [] | Some k \<Rightarrow> g (mem_read k 0 16) (eea2_block sc) (unat (drop_bit 3 (sc_blength sc))))
      else [])"

definition cipher_ready :: "byte \<Rightarrow> stream_cipher \<Rightarrow> bool" where
  "cipher_ready algorithm sc \<longleftrightarrow> octets_only sc \<and> (algorithm = 1 \<or> algorithm = 2 \<longrightarrow> sc_key sc \<noteq> None \<and> sc_key_length sc = 16)"

lemma eea2_xor:
  assumes "ctr_mode ctr g" "keyed sc"
  shows "map_option snd (stream_encrypt_eea2 ctr sc (sc_message sc) m) = Some (mem_xor m (sc_message sc) (cipher_stream g 2 sc))"
  using assms
  by (auto simp: keyed_def octets_only_def stream_encrypt_eea2_def cipher_stream_def Let_def aligned_length ctr_mode_def mem_xor_def)

lemma stream_encrypt_keystream:
  assumes "ctr_mode ctr g"
  shows "keystream_cipher (cipher_ready alg) (stream_encrypt ctr alg) (cipher_stream g alg)"
proof
  fix sc m a
  show "map_option snd (stream_encrypt ctr alg sc (sc_message sc) m) = Some (mem_xor m (sc_message sc) (cipher_stream g alg sc))"
    if "cipher_ready alg sc"
  proof -
    consider "alg = 0" | "alg = 1" | "alg = 2" | "alg \<noteq> 0" "alg \<noteq> 1" "alg \<noteq> 2" by blast
    then show ?thesis
    proof cases
      case 1
      have "octets_only sc" using that by (simp add: cipher_ready_def)
      then show ?thesis using 1 eea0.crypt_xor [of sc m] by (simp add: stream_encrypt_def cipher_stream_def)
    next
      case 2
      have "keyed sc" using that 2 by (simp add: cipher_ready_def keyed_def)
      then show ?thesis using 2 eea1.crypt_xor [of sc m] by (simp add: stream_encrypt_def cipher_stream_def)
    next
      case 3
      have "keyed sc" using that 3 by (simp add: cipher_ready_def keyed_def)
      then show ?thesis using 3 eea2_xor [OF assms, of sc m] by (simp add: stream_encrypt_def)
    next
      case 4
      then show ?thesis by (simp add: stream_encrypt_def cipher_stream_def)
    qed
  qed
  show "cipher_stream g alg (sc\<lparr>sc_message := a\<rparr>) = cipher_stream g alg sc"
    using eea1.ks_place [where sc = sc and a = a] by (cases "sc_key sc") (simp_all add: cipher_stream_def eea2_block_def)
  show "length (cipher_stream g alg sc) \<le> 4 * ((n + 3) div 4)"
    if "cipher_ready alg sc" "sc_blength sc = 8 * of_nat n" "n < 2 ^ 16" for n
    using that eea1.ks_length [where sc = sc and n = n] assms
    by (auto simp: cipher_stream_def cipher_ready_def keyed_def ctr_mode_def aligned_length split: option.splits)
qed


text \<open>
  C5. Ciphering with the supported algorithms is undone by applying the same function with the same parameters: for a message
  of up to 65535 octets the call returns, and a second call restores every octet of the memory. At most three octets behind
  the message change, and none before it. AES in counter mode adds some key stream to the message.
\<close>

theorem stream_encrypt_involutive:
  assumes "ctr_mode ctr g" "cipher_ready alg sc" "sc_blength sc = 8 * of_nat n" "n < 2 ^ 16"
  shows "\<exists>rc m' rc'. stream_encrypt ctr alg sc (sc_message sc) m = Some (rc, m') \<and> stream_encrypt ctr alg sc (sc_message sc) m' = Some (rc', m)
    \<and> (\<forall>i. i < sc_message sc \<or> sc_message sc + n + 3 \<le> i \<longrightarrow> m' i = m i)"
proof -
  note c = stream_encrypt_keystream [OF assms(1), of alg]
  obtain rc m' rc' where r: "stream_encrypt ctr alg sc (sc_message sc) m = Some (rc, m')" "stream_encrypt ctr alg sc (sc_message sc) m' = Some (rc', m)"
    using keystream_cipher.crypt_undo [OF c assms(2)] by blast
  have "m' i = m i" if "i < sc_message sc \<or> sc_message sc + n + 3 \<le> i" for i
    by (rule keystream_cipher.crypt_frame [OF c assms(2-4) r(1)]) (use that in linarith)
  then show ?thesis using r by blast
qed

definition demo_ctr :: ctr_fun where
  "demo_ctr k b x = map2 (\<lambda>a b. a XOR b) x (replicate (length x) 0x5A)"

definition demo_cipher :: stream_cipher where
  "demo_cipher = \<lparr>sc_key = Some (\<lambda>_. 0x2b), sc_key_length = 16, sc_count = 7, sc_bearer = 2, sc_direction = 1, sc_message = 1, sc_blength = 40\<rparr>"

theorem stream_encrypt_involutive_witness:
  "\<exists>rc m' rc'. stream_encrypt demo_ctr 1 demo_cipher 1 (\<lambda>_. 0) = Some (rc, m') \<and> stream_encrypt demo_ctr 1 demo_cipher 1 m' = Some (rc', \<lambda>_. 0)"
proof -
  have o: "octets_only demo_cipher" unfolding octets_only_def by (rule exI [of _ 5]) (simp add: demo_cipher_def)
  then have "cipher_ready 1 demo_cipher" by (simp add: cipher_ready_def demo_cipher_def)
  moreover have "ctr_mode demo_ctr (\<lambda>k b n. replicate n 0x5A)" by (simp add: ctr_mode_def demo_ctr_def)
  ultimately show ?thesis
    using stream_encrypt_involutive [of demo_ctr "\<lambda>k b n. replicate n 0x5A" 1 demo_cipher 5 "\<lambda>_. 0"] by (auto simp: demo_cipher_def)
qed

lemma length_store32 [simp]: "length (store32 w) = 4"
  by (simp add: store32_def)

lemma compute_integrity_ok:
  assumes "alg = 1 \<or> alg = 2" "sc_key sc \<noteq> None" "sc_blength sc \<noteq> 0"
  obtains mac where "stream_compute_integrity cmac alg sc m = Some (0, Some mac)" "length mac = 4"
proof -
  obtain k where k: "sc_key sc = Some k" using assms(2) by blast
  show ?thesis
  proof (cases "alg = 1")
    case True
    with k assms(3) show ?thesis
      by (intro that) (auto simp: stream_compute_integrity_def stream_compute_integrity_eia1_def Let_def)
  next
    case False
    with k assms(1) show ?thesis
      by (intro that) (auto simp: stream_compute_integrity_def stream_compute_integrity_eia2_def Let_def)
  qed
qed

end
