(* ===== verification/Pdcp_Layer.thy ===== *)
theory Pdcp_Layer
  imports Rlc_Layer Osa_Security
begin

text \<open>
  The PDCP layer (\<open>pdcp.c\<close>, \<open>pdcp_security.c\<close>): the collection of entities, their creation, configuration and release,
  the data request of the upper layers and the data indication of RLC, with ciphering and integrity, and the statistics.
  The collection maps a key to the address of an entity in \<open>pdcp_objs\<close>; the keys of the ciphers are blocks that RRC has
  allocated, \<open>pdcp_keys\<close>, which the entities share and release. The build is the default one: security enabled, data bearers of
  the eNB forwarded to GTP-U, one component carrier, packets of up to 10000 octets. An access out of the bounds of an
  array, through NULL or to released memory, a second release, and a failed assertion are \<open>None\<close>.
  Time measurements and logging are left out.
\<close>

section \<open>State\<close>

datatype pdcp_transmission_mode =
  PDCP_TRANSMISSION_MODE_UNKNOWN | PDCP_TRANSMISSION_MODE_CONTROL | PDCP_TRANSMISSION_MODE_DATA | PDCP_TRANSMISSION_MODE_TRANSPARENT

text \<open>The statistics of a bearer, one record for each direction, and the data handed to the upper layers.\<close>

record pdcp_counters =
  st_packets :: "32 word"
  st_packets_tmp_w :: "32 word"
  st_packets_w :: "32 word"
  st_bytes :: "32 word"
  st_bytes_tmp_w :: "32 word"
  st_bytes_w :: "32 word"
  st_throughput_w :: "32 word"
  st_sn :: "32 word"
  st_aiat :: "32 word"
  st_aiat_tmp_w :: "32 word"
  st_aiat_w :: "32 word"
  st_iat :: "32 word"

record pdcp_enb =
  enb_uid :: "nat \<Rightarrow> 16 word"
  enb_rnti :: "nat \<Rightarrow> 16 word"
  enb_num_ues :: "16 word"
  enb_sfn :: "64 word"

record pdcp_ind =
  ind_rb_id :: "16 word"
  ind_inst :: int
  ind_data :: "byte list"

record gtpu_req =
  gtpu_rnti :: "16 word"
  gtpu_rab_id :: "16 word"
  gtpu_data :: "byte list"

record pdcp_layer =
  pdcp_coll_p :: "nat hash_table option"
  pdcp_objs :: "nat \<Rightarrow> pdcp_t option"
  pdcp_brk :: nat
  pdcp_keys :: "nat \<Rightarrow> mem option"
  pdcp_enbs :: "nat \<Rightarrow> pdcp_enb"
  pdcp_UE_UE_module_id_to_rnti :: "nat \<Rightarrow> 16 word"
  pdcp_eNB_UE_instance_to_rnti :: "nat \<Rightarrow> 16 word"
  pdcp_eNB_UE_instance_to_rnti_index :: nat
  pdcp_mbms_array_ue :: "nat \<Rightarrow> nat \<Rightarrow> nat \<Rightarrow> bool \<times> 16 word"
  pdcp_mbms_array_eNB :: "nat \<Rightarrow> nat \<Rightarrow> nat \<Rightarrow> bool \<times> 16 word"
  Pdcp_stats_tx :: "nat \<Rightarrow> nat \<Rightarrow> nat \<Rightarrow> pdcp_counters"
  Pdcp_stats_rx :: "nat \<Rightarrow> nat \<Rightarrow> nat \<Rightarrow> pdcp_counters"
  Pdcp_stats_tx_window_ms :: "nat \<Rightarrow> nat \<Rightarrow> 32 word"
  Pdcp_stats_rx_window_ms :: "nat \<Rightarrow> nat \<Rightarrow> 32 word"
  pdcp_sdu_list :: "pdcp_ind list"
  rrc_ind_log :: "(16 word \<times> byte list) list"
  gtpu_log :: "gtpu_req list"

abbreviation (input) LTE_maxDRB :: nat where "LTE_maxDRB \<equiv> 11"
abbreviation (input) MAX_NUM_CCs :: nat where "MAX_NUM_CCs \<equiv> 1"
abbreviation (input) MAX_IP_PACKET_SIZE :: int where "MAX_IP_PACKET_SIZE \<equiv> 10000"
abbreviation (input) LTE_maxServiceCount :: nat where "LTE_maxServiceCount \<equiv> 16"
abbreviation (input) LTE_maxSessionPerPMCH :: nat where "LTE_maxSessionPerPMCH \<equiv> 29"

definition PDCP_COLL_KEY_VALUE :: "protocol_ctxt \<Rightarrow> 16 word \<Rightarrow> bool \<Rightarrow> 64 word" where
  "PDCP_COLL_KEY_VALUE ctxt rb srb =
     ucast (module_id ctxt) OR push_bit 8 (ucast (rnti ctxt)) OR push_bit 24 (of_bool (enb_flag ctxt))
     OR push_bit 25 (ucast rb) OR push_bit 33 (of_bool srb) OR push_bit 34 0x55"

definition PDCP_COLL_KEY_DEFAULT_DRB_VALUE :: "protocol_ctxt \<Rightarrow> 64 word" where
  "PDCP_COLL_KEY_DEFAULT_DRB_VALUE ctxt =
     ucast (module_id ctxt) OR push_bit 8 (ucast (rnti ctxt)) OR push_bit 24 (of_bool (enb_flag ctxt))
     OR push_bit 25 0xff OR push_bit 33 0x00 OR push_bit 34 0xaa"

definition pdcp_deref :: "pdcp_layer \<Rightarrow> nat option \<Rightarrow> (nat \<times> pdcp_t) option" where
  "pdcp_deref s d = (case d of None \<Rightarrow> None | Some a \<Rightarrow> (case pdcp_objs s a of None \<Rightarrow> None | Some e \<Rightarrow> Some (a, e)))"

definition pdcp_store :: "nat \<Rightarrow> pdcp_t \<Rightarrow> pdcp_layer \<Rightarrow> pdcp_layer" where
  "pdcp_store a e s = s\<lparr>pdcp_objs := (pdcp_objs s)(a \<mapsto> e)\<rparr>"

section \<open>Security\<close>

text \<open>The key an entity points to, from octet \<open>off\<close> on.\<close>

definition sec_key :: "pdcp_layer \<Rightarrow> nat option \<Rightarrow> nat \<Rightarrow> mem option" where
  "sec_key s p off = (case p of None \<Rightarrow> None | Some a \<Rightarrow> map_option (\<lambda>k. mem_at k off) (pdcp_keys s a))"

record sec_ops =
  ctr_crypt :: ctr_fun
  cmac_aes :: cmac_fun
  len7bits :: "8 word"
  len12bits :: "8 word"

definition tx_params :: "sec_ops \<Rightarrow> pdcp_t \<Rightarrow> bool \<Rightarrow> 16 word \<Rightarrow> 16 word \<Rightarrow> mem option \<Rightarrow> nat \<Rightarrow> nat \<Rightarrow> stream_cipher" where
  "tx_params ops e srb rb_idP current_sn k msg n =
     \<lparr>sc_key = k, sc_key_length = 16, sc_count = pdcp_get_next_count_tx (len7bits ops) e srb current_sn,
      sc_bearer = ucast (rb_idP - 1), sc_direction = (if is_ue e then SECU_DIRECTION_UPLINK else SECU_DIRECTION_DOWNLINK),
      sc_message = msg, sc_blength = push_bit 3 (of_nat n)\<rparr>"

definition pdcp_apply_security ::
  "sec_ops \<Rightarrow> pdcp_layer \<Rightarrow> pdcp_t \<Rightarrow> bool \<Rightarrow> 16 word \<Rightarrow> nat \<Rightarrow> 16 word \<Rightarrow> mem \<Rightarrow> nat \<Rightarrow> mem option" where
  "pdcp_apply_security ops s e srb rb_idP hlen current_sn m szP =
     (if NB_RB_MAX \<le> unat rb_idP then None
      else do {
        m1 \<leftarrow> (if srb
               then (case stream_compute_integrity (cmac_aes ops) (integrityProtAlgorithm e)
                            (tx_params ops e srb rb_idP current_sn (sec_key s (kRRCint e) 16) 0 (hlen + szP)) m of
                       None \<Rightarrow> None
                     | Some (_, None) \<Rightarrow> Some m
                     | Some (_, Some mac_i) \<Rightarrow> Some (mem_write m (hlen + szP) mac_i))
               else Some m);
        map_option snd (stream_encrypt (ctr_crypt ops) (cipheringAlgorithm e)
          (tx_params ops e srb rb_idP current_sn (sec_key s (if srb then kRRCenc e else kUPenc e) 0) hlen szP) hlen m1)
      })"

text \<open>The result of the check, the entity, whose HFN offset is reset, and the buffer.\<close>

definition pdcp_validate_security ::
  "sec_ops \<Rightarrow> pdcp_layer \<Rightarrow> pdcp_t \<Rightarrow> bool \<Rightarrow> 16 word \<Rightarrow> nat \<Rightarrow> 16 word \<Rightarrow> mem \<Rightarrow> nat \<Rightarrow> (int \<times> pdcp_t \<times> mem) option" where
  "pdcp_validate_security ops s e srb rb_idP hlen current_sn m szP =
     (if NB_RB_MAX \<le> unat rb_idP then None
      else case pdcp_get_next_count_rx (len7bits ops) e srb current_sn of (count, e1) \<Rightarrow>
        let sc = \<lparr>sc_key = sec_key s (if srb then kRRCenc e else kUPenc e) 0, sc_key_length = 16, sc_count = count,
                  sc_bearer = ucast (rb_idP - 1), sc_direction = (if is_ue e then SECU_DIRECTION_DOWNLINK else SECU_DIRECTION_UPLINK),
                  sc_message = hlen, sc_blength = push_bit 3 (of_nat (szP - hlen))\<rparr> in
        case stream_encrypt (ctr_crypt ops) (cipheringAlgorithm e) sc hlen m of
          None \<Rightarrow> None
        | Some (_, m1) \<Rightarrow>
            if \<not> srb then Some (0, e1, m1)
            else (case stream_check_integrity (cmac_aes ops) (integrityProtAlgorithm e)
                         (sc\<lparr>sc_key := sec_key s (kRRCint e) 16, sc_message := 0, sc_blength := push_bit 3 (of_nat szP)\<rparr>)
                         (mem_read m1 szP 4) m1 of
                None \<Rightarrow> None
              | Some rc \<Rightarrow> Some (if rc \<noteq> 0 then -1 else 0, e1, m1)))"

section \<open>Statistics\<close>

definition pdcp_uid :: "pdcp_layer \<Rightarrow> protocol_ctxt \<Rightarrow> nat" where
  "pdcp_uid s ctxt = length (takeWhile (\<lambda>i. enb_rnti (pdcp_enbs s (unat (module_id ctxt))) i \<noteq> rnti ctxt) [0..<MAX_MOBILES])"

definition stat_count :: "64 word \<Rightarrow> 32 word \<Rightarrow> 16 word \<Rightarrow> pdcp_counters \<Rightarrow> pdcp_counters" where
  "stat_count sfn n sn c =
     c\<lparr>st_packets := st_packets c + 1, st_packets_tmp_w := st_packets_tmp_w c + 1,
       st_bytes := st_bytes c + n, st_bytes_tmp_w := st_bytes_tmp_w c + n, st_sn := ucast sn,
       st_aiat := ucast (ucast (st_aiat c) + (sfn - ucast (st_iat c))),
       st_aiat_tmp_w := ucast (ucast (st_aiat_tmp_w c) + (sfn - ucast (st_iat c))), st_iat := ucast sfn\<rparr>"

definition upd3 :: "nat \<Rightarrow> nat \<Rightarrow> nat \<Rightarrow> ('a \<Rightarrow> 'a) \<Rightarrow> (nat \<Rightarrow> nat \<Rightarrow> nat \<Rightarrow> 'a) \<Rightarrow> nat \<Rightarrow> nat \<Rightarrow> nat \<Rightarrow> 'a" where
  "upd3 i j k f t = t(i := (t i)(j := (t i j)(k := f (t i j k))))"

text \<open>The index of the bearer in the tables: data bearers come after the two signalling bearers.\<close>

definition stat_rb :: "bool \<Rightarrow> 16 word \<Rightarrow> nat" where
  "stat_rb srb rb = unat rb + (if srb then 0 else 2)"

definition stat_in_range :: "pdcp_layer \<Rightarrow> protocol_ctxt \<Rightarrow> bool \<Rightarrow> 16 word \<Rightarrow> bool" where
  "stat_in_range s ctxt srb rb \<longleftrightarrow> unat (module_id ctxt) < MAX_NUM_CCs \<and> pdcp_uid s ctxt < MAX_MOBILES \<and> stat_rb srb rb < NB_RB_MAX"

definition count_tx :: "protocol_ctxt \<Rightarrow> bool \<Rightarrow> 16 word \<Rightarrow> 32 word \<Rightarrow> 16 word \<Rightarrow> pdcp_layer \<Rightarrow> pdcp_layer option" where
  "count_tx ctxt srb rb n sn s =
     (let m = unat (module_id ctxt) in
      if \<not> stat_in_range s ctxt srb rb then None
      else Some (s\<lparr>Pdcp_stats_tx := upd3 m (pdcp_uid s ctxt) (stat_rb srb rb) (stat_count (enb_sfn (pdcp_enbs s m)) n sn) (Pdcp_stats_tx s)\<rparr>))"

definition count_rx :: "protocol_ctxt \<Rightarrow> bool \<Rightarrow> 16 word \<Rightarrow> 32 word \<Rightarrow> 16 word \<Rightarrow> pdcp_layer \<Rightarrow> pdcp_layer option" where
  "count_rx ctxt srb rb n sn s =
     (let m = unat (module_id ctxt) in
      if \<not> stat_in_range s ctxt srb rb then None
      else Some (s\<lparr>Pdcp_stats_rx := upd3 m (pdcp_uid s ctxt) (stat_rb srb rb) (stat_count (enb_sfn (pdcp_enbs s m)) n sn) (Pdcp_stats_rx s)\<rparr>))"

section \<open>Data request\<close>

definition pdcp_header_len :: "bool \<Rightarrow> nat" where
  "pdcp_header_len srb = (if srb then 1 else 2)"

definition pdcp_tailer_len :: "bool \<Rightarrow> nat" where
  "pdcp_tailer_len srb = (if srb then 4 else 0)"

text \<open>The header of the PDU and the number it carries.\<close>

definition pdcp_put_header ::
  "bool \<Rightarrow> pdcp_transmission_mode \<Rightarrow> nat \<Rightarrow> pdcp_t \<Rightarrow> mem \<Rightarrow> (16 word \<times> pdcp_t \<times> mem) option" where
  "pdcp_put_header srb mode sz e blk =
     (case pdcp_get_next_tx_seq_number (Some e) of
        (sn, Some e1) \<Rightarrow>
          if srb then
            (case pdcp_serialize_control_plane_data_pdu_with_SRB_sn_buffer (Some (mem_write blk (sz + 1) (replicate 4 0)))
                    (Some \<lparr>cp_sn = ucast sn, cp_mac_i = replicate 4 0\<rparr>) of
               (_, Some m) \<Rightarrow> Some (ucast (ucast sn :: 8 word), e1, m) | _ \<Rightarrow> None)
          else
            (case pdcp_serialize_user_plane_data_pdu_with_long_sn_buffer (Some blk)
                    (Some \<lparr>up_dc = (if mode = PDCP_TRANSMISSION_MODE_DATA then 1 else 0), up_sn = sn\<rparr>) of
               (_, Some m) \<Rightarrow> Some (sn, e1, m) | _ \<Rightarrow> None)
      | _ \<Rightarrow> None)"

text \<open>The PDU in the block \<open>blk\<close>: the number, and the buffer unless the number exceeds the range.\<close>

definition pdcp_build_pdu ::
  "sec_ops \<Rightarrow> pdcp_layer \<Rightarrow> bool \<Rightarrow> pdcp_transmission_mode \<Rightarrow> 16 word \<Rightarrow> nat \<Rightarrow> mem \<Rightarrow> pdcp_t \<Rightarrow> mem
   \<Rightarrow> (16 word \<times> pdcp_t \<times> mem option) option" where
  "pdcp_build_pdu ops s srb mode rb sz sdu e blk = do {
     (current_sn, e1, m1) \<leftarrow> pdcp_put_header srb mode sz e blk;
     if pdcp_calculate_max_seq_num_for_given_size (seq_num_size e1) < current_sn then Some (current_sn, e1, None)
     else do {
       let hlen = pdcp_header_len srb;
       let m2 = mem_write m1 hlen (mem_read sdu 0 sz);
       let m3 = mem_write m2 (hlen + sz) (replicate (pdcp_tailer_len srb) 0);
       m4 \<leftarrow> (if security_activated e1 \<noteq> 0 \<and> (cipheringAlgorithm e1 \<noteq> 0 \<or> integrityProtAlgorithm e1 \<noteq> 0)
              then pdcp_apply_security ops s e1 srb (rb mod 11) hlen current_sn m3 sz else Some m3);
       Some (current_sn, e1, Some m4)
     }
   }"

definition rb_in_range :: "bool \<Rightarrow> pdcp_transmission_mode \<Rightarrow> 16 word \<Rightarrow> bool" where
  "rb_in_range srb mode rb \<longleftrightarrow>
     unat rb < (if mode = PDCP_TRANSMISSION_MODE_TRANSPARENT then NB_RB_MBMS_MAX else if srb then 3 else LTE_maxDRB)"

text \<open>
  The result, the value written to \<open>ctxt_pP->configured\<close> if any, and the states of PDCP and RLC. \<open>pdu_blk\<close> and \<open>rlc_blk\<close>
  are the blocks that PDCP and RLC get.
\<close>

type_synonym 'am l2_state = "pdcp_layer \<times> 'am rlc_layer"

definition pdcp_data_req ::
  "sec_ops \<Rightarrow> ('am, 'ai, 'aa) am_ops \<Rightarrow> mem option \<Rightarrow> mem option \<Rightarrow> protocol_ctxt \<Rightarrow> bool \<Rightarrow> 16 word \<Rightarrow> 32 word \<Rightarrow> 32 word \<Rightarrow> int
   \<Rightarrow> mem \<Rightarrow> pdcp_transmission_mode \<Rightarrow> 'am l2_state \<Rightarrow> ((bool \<times> bool option) \<times> 'am l2_state) option" where
  "pdcp_data_req sops ops pdu_blk rlc_blk ctxt srb rb mui confirm sz sdu mode st =
     (case st of (s, r) \<Rightarrow>
      if sz = 0 then Some ((False, None), st)
      else if MAX_IP_PACKET_SIZE < sz \<or> sz < 0 then None
      else if \<not> rb_in_range srb mode rb then Some ((False, None), st)
      else (case hashtable_get (pdcp_coll_p s) (PDCP_COLL_KEY_VALUE ctxt rb srb) of (h_rc, d) \<Rightarrow>
        let configured = (if h_rc = HASH_TABLE_OK then Some True else None) in
        if mode = PDCP_TRANSMISSION_MODE_TRANSPARENT then do {
          (status, r1) \<leftarrow> (case pdu_blk of
               None \<Rightarrow> Some (RLC_OP_STATUS_OUT_OF_RESSOURCES, r)
             | Some blk \<Rightarrow> rlc_data_req ops rlc_blk ctxt srb True rb mui confirm sz (Some (mem_write blk 0 (mem_read sdu 0 (nat sz)))) r);
          s1 \<leftarrow> count_tx ctxt srb rb (word_of_int sz) 0 s;
          Some ((status = RLC_OP_STATUS_OK, configured), s1, r1)
        }
        else if h_rc \<noteq> HASH_TABLE_OK then Some ((False, Some False), st)
        else do {
          (a, e) \<leftarrow> pdcp_deref s d;
          case pdu_blk of
            None \<Rightarrow> Some ((False, configured), st)
          | Some blk \<Rightarrow> do {
              (current_sn, e1, pdu) \<leftarrow> pdcp_build_pdu sops s srb mode rb (nat sz) sdu e blk;
              let s1 = pdcp_store a e1 s;
              case pdu of
                None \<Rightarrow> Some ((False, configured), s1, r)
              | Some m \<Rightarrow> do {
                  (status, r1) \<leftarrow> rlc_data_req ops rlc_blk ctxt srb False rb mui confirm
                                    (sz + int (pdcp_header_len srb + pdcp_tailer_len srb)) (Some m) r;
                  s2 \<leftarrow> count_tx ctxt srb rb (word_of_int sz) current_sn s1;
                  Some ((status = RLC_OP_STATUS_OK, configured), s2, r1)
                }
            }
        }))"

section \<open>Data indication\<close>

record ind_env =
  otg_enabled :: bool
  gtpu_malloc_ok :: bool
  ind_blk_ok :: bool
  nfapi_mode_3 :: bool

text \<open>The length of the header and the sequence number of a received PDU.\<close>

definition pdcp_parse_header :: "bool \<Rightarrow> pdcp_t \<Rightarrow> mem \<Rightarrow> nat \<times> 16 word" where
  "pdcp_parse_header srb e m =
     (if srb then (1, ucast (pdcp_get_sequence_number_of_pdu_with_SRB_sn (Some m)))
      else if seq_num_size e = 7 then (1, ucast (pdcp_get_sequence_number_of_pdu_with_short_sn (Some m)))
      else if seq_num_size e = 12 then (2, pdcp_get_sequence_number_of_pdu_with_long_sn (Some m))
      else (0, 0))"

text \<open>Delivery of the payload at \<open>off\<close>: to GTP-U at the eNB, to the list for the IP driver otherwise, with the statistics.\<close>

definition pdcp_deliver ::
  "ind_env \<Rightarrow> protocol_ctxt \<Rightarrow> bool \<Rightarrow> 16 word \<Rightarrow> 16 word \<Rightarrow> (nat \<times> pdcp_t) option \<Rightarrow> 16 word \<Rightarrow> nat \<Rightarrow> nat \<Rightarrow> mem \<Rightarrow> pdcp_layer
   \<Rightarrow> (bool \<times> pdcp_layer) option" where
  "pdcp_deliver env ctxt srb rbP rb ent sn off sz m s =
     (let payload = mem_read m off (sz - off) in
      if otg_enabled env then Some (True, s)
      else if enb_flag ctxt \<and> \<not> srb then
        if \<not> gtpu_malloc_ok env then None
        else Some (True, s\<lparr>gtpu_log := gtpu_log s @ [\<lparr>gtpu_rnti = rnti ctxt, gtpu_rab_id = rb + 4, gtpu_data = payload\<rparr>]\<rparr>)
      else do {
        let s1 = (if \<not> ind_blk_ok env then s
          else (case ent of
                 Some (a, e) \<Rightarrow> if pdcp_rlc_mode e = RLC_MODE_AM then pdcp_store a (e\<lparr>last_submitted_pdcp_rx_sn := sn\<rparr>) s else s
               | None \<Rightarrow> s)
            \<lparr>pdcp_sdu_list := pdcp_sdu_list s
               @ [\<lparr>ind_rb_id = (if enb_flag ctxt then rb + module_id ctxt * 11 else rb),
                   ind_inst = (if enb_flag ctxt \<or> nfapi_mode_3 env then uint (module_id ctxt) else 1), ind_data = payload\<rparr>]\<rparr>);
        s2 \<leftarrow> count_rx ctxt srb rbP (of_nat (sz - off)) sn s1;
        Some (True, s2)
      })"

text \<open>A PDU of a configured bearer, after the lookup; the result of the security check is not used.\<close>

definition pdcp_receive ::
  "sec_ops \<Rightarrow> ind_env \<Rightarrow> protocol_ctxt \<Rightarrow> bool \<Rightarrow> 16 word \<Rightarrow> 16 word \<Rightarrow> nat \<Rightarrow> mem \<Rightarrow> nat \<times> pdcp_t \<Rightarrow> pdcp_layer \<Rightarrow> (bool \<times> pdcp_layer) option" where
  "pdcp_receive ops env ctxt srb rbP rb sz m ent s =
     (case ent of (a, e) \<Rightarrow>
      case pdcp_parse_header srb e m of (hlen, sn) \<Rightarrow>
        let tlen = pdcp_tailer_len srb in
        if sz < hlen + tlen then Some (False, s)
        else case pdcp_is_rx_seq_number_valid sn (Some e) srb of
          (False, e1) \<Rightarrow> Some (False, pdcp_store a (case e1 of Some e' \<Rightarrow> e' | None \<Rightarrow> e) s)
        | (True, e1) \<Rightarrow> do {
            e1 \<leftarrow> e1;
            (e2, m2) \<leftarrow> (if security_activated e1 = 1
               then map_option snd (pdcp_validate_security ops s e1 srb rbP hlen sn m (sz - tlen)) else Some (e1, m));
            let s1 = pdcp_store a e2 s;
            if srb then Some (True, s1\<lparr>rrc_ind_log := rrc_ind_log s @ [(rb, mem_read m2 hlen (sz - hlen - tlen))]\<rparr>)
            else pdcp_deliver env ctxt srb rbP rb (Some (a, e2)) sn hlen sz m2 s1
          })"

definition pdcp_data_ind ::
  "sec_ops \<Rightarrow> ind_env \<Rightarrow> protocol_ctxt \<Rightarrow> bool \<Rightarrow> bool \<Rightarrow> 16 word \<Rightarrow> nat \<Rightarrow> mem \<Rightarrow> pdcp_layer \<Rightarrow> (bool \<times> pdcp_layer) option" where
  "pdcp_data_ind ops env ctxt srb MBMS_flagP rbP sz m s =
     (if MBMS_flagP then
        if NB_RB_MBMS_MAX \<le> unat rbP then Some (False, s)
        else if sz = 0 then Some (False, s)
        else pdcp_deliver env ctxt srb rbP rbP None 0 0 sz m s
      else
        let rb = rbP mod 11 in
        if rb = 0 then Some (False, s)
        else (case hashtable_get (pdcp_coll_p s) (PDCP_COLL_KEY_VALUE ctxt rb srb) of (h_rc, d) \<Rightarrow>
          if h_rc \<noteq> HASH_TABLE_OK then Some (False, s)
          else if sz = 0 then Some (False, s)
          else do { ent \<leftarrow> pdcp_deref s d; pdcp_receive ops env ctxt srb rbP rb sz m ent s }))"

text \<open>\<open>rlc_data_ind\<close> hands an SDU of RLC on.\<close>

definition rlc_data_ind ::
  "sec_ops \<Rightarrow> ind_env \<Rightarrow> protocol_ctxt \<Rightarrow> bool \<Rightarrow> bool \<Rightarrow> 16 word \<Rightarrow> nat \<Rightarrow> mem \<Rightarrow> pdcp_layer \<Rightarrow> pdcp_layer option" where
  "rlc_data_ind ops env ctxt srb MBMS_flagP rbP sz m s = map_option snd (pdcp_data_ind ops env ctxt srb MBMS_flagP rbP sz m s)"

section \<open>Periodic statistics\<close>

definition stat_window :: "64 word \<Rightarrow> 32 word \<Rightarrow> pdcp_counters \<Rightarrow> pdcp_counters" where
  "stat_window sfn window c =
     (if 0 < window \<and> sfn mod ucast window = 0 then
        c\<lparr>st_throughput_w := st_bytes_tmp_w c * 8, st_packets_w := st_packets_tmp_w c, st_bytes_w := st_bytes_tmp_w c,
          st_aiat_w := (if 0 < st_packets_tmp_w c then st_aiat_tmp_w c div st_packets_tmp_w c else 0),
          st_packets_tmp_w := 0, st_bytes_tmp_w := 0, st_aiat_tmp_w := 0\<rparr>
      else c)"

definition pdcp_update_stats :: "protocol_ctxt \<Rightarrow> pdcp_layer \<Rightarrow> pdcp_layer option" where
  "pdcp_update_stats ctxt s =
     (let m = unat (module_id ctxt); sfn = enb_sfn (pdcp_enbs s m) in
      if MAX_NUM_CCs \<le> m then None
      else Some (s\<lparr>
        Pdcp_stats_tx := (Pdcp_stats_tx s)(m := \<lambda>u rb. if u < MAX_MOBILES \<and> rb < NB_RB_MAX
          then stat_window sfn (Pdcp_stats_tx_window_ms s m u) (Pdcp_stats_tx s m u rb) else Pdcp_stats_tx s m u rb),
        Pdcp_stats_rx := (Pdcp_stats_rx s)(m := \<lambda>u rb. if u < MAX_MOBILES \<and> rb < NB_RB_MAX
          then stat_window sfn (Pdcp_stats_rx_window_ms s m u) (Pdcp_stats_rx s m u rb) else Pdcp_stats_rx s m u rb)\<rparr>))"

section \<open>UEs of an eNB\<close>

definition upd_enb :: "nat \<Rightarrow> (pdcp_enb \<Rightarrow> pdcp_enb) \<Rightarrow> pdcp_layer \<Rightarrow> pdcp_layer" where
  "upd_enb m f s = s\<lparr>pdcp_enbs := (pdcp_enbs s)(m := f (pdcp_enbs s m))\<rparr>"

definition first_free :: "(nat \<Rightarrow> 16 word) \<Rightarrow> nat" where
  "first_free t = length (takeWhile (\<lambda>i. t i \<noteq> 0) [0..<MAX_MOBILES])"

definition pdcp_add_UE :: "protocol_ctxt \<Rightarrow> pdcp_layer \<Rightarrow> pdcp_layer option" where
  "pdcp_add_UE ctxt s =
     (let m = unat (module_id ctxt); i = first_free (enb_rnti (pdcp_enbs s m)) in
      if MAX_NUM_CCs \<le> m then None
      else if pdcp_uid s ctxt < MAX_MOBILES \<or> MAX_MOBILES \<le> i then Some s
      else Some (upd_enb m (\<lambda>b. b\<lparr>enb_rnti := (enb_rnti b)(i := rnti ctxt), enb_uid := (enb_uid b)(i := of_nat i), enb_num_ues := enb_num_ues b + 1\<rparr>) s))"

section \<open>Release\<close>

definition free_key :: "nat option \<Rightarrow> pdcp_layer \<Rightarrow> pdcp_layer option" where
  "free_key p s = (case p of
     None \<Rightarrow> Some s
   | Some k \<Rightarrow> (case pdcp_keys s k of None \<Rightarrow> None | Some _ \<Rightarrow> Some (s\<lparr>pdcp_keys := (pdcp_keys s)(k := None)\<rparr>)))"

definition free_keys :: "pdcp_t \<Rightarrow> pdcp_layer \<Rightarrow> pdcp_layer option" where
  "free_keys e s = do { s1 \<leftarrow> free_key (kUPenc e) s; s2 \<leftarrow> free_key (kRRCint e) s1; free_key (kRRCenc e) s2 }"

definition pdcp_free :: "nat option \<Rightarrow> pdcp_layer \<Rightarrow> pdcp_layer option" where
  "pdcp_free p s = (case p of
     None \<Rightarrow> Some s
   | Some a \<Rightarrow> do { (a, e) \<leftarrow> pdcp_deref s (Some a); s1 \<leftarrow> free_keys e s; Some (s1\<lparr>pdcp_objs := (pdcp_objs s1)(a := None)\<rparr>) })"

definition pdcp_set_coll :: "nat hash_table option \<Rightarrow> pdcp_layer \<Rightarrow> pdcp_layer option" where
  "pdcp_set_coll tp s =
     ofold (\<lambda>a. pdcp_free (Some a)) (drop (length (ht_freed (pdcp_coll_p s))) (ht_freed tp)) (s\<lparr>pdcp_coll_p := tp\<rparr>)"

definition pdcp_coll_insert :: "bool \<Rightarrow> 64 word \<Rightarrow> nat \<Rightarrow> pdcp_layer \<Rightarrow> (hashtable_rc \<times> pdcp_layer) option" where
  "pdcp_coll_insert malloc_ok k a s =
     (case hashtable_insert malloc_ok (pdcp_coll_p s) k (Some a) of (rc, tp) \<Rightarrow> map_option (Pair rc) (pdcp_set_coll tp s))"

definition pdcp_coll_remove :: "64 word \<Rightarrow> pdcp_layer \<Rightarrow> pdcp_layer option" where
  "pdcp_coll_remove k s = (case hashtable_remove (pdcp_coll_p s) k of (rc, tp) \<Rightarrow> pdcp_set_coll tp s)"

definition forget_instance :: "protocol_ctxt \<Rightarrow> pdcp_layer \<Rightarrow> pdcp_layer" where
  "forget_instance ctxt s =
     (let i = length (takeWhile (\<lambda>i. pdcp_eNB_UE_instance_to_rnti s i \<noteq> rnti ctxt) [0..<MAX_MOBILES]) in
      if i < MAX_MOBILES then s\<lparr>pdcp_eNB_UE_instance_to_rnti := (pdcp_eNB_UE_instance_to_rnti s)(i := 0)\<rparr> else s)"

definition pdcp_remove_UE :: "protocol_ctxt \<Rightarrow> pdcp_layer \<Rightarrow> (bool \<times> pdcp_layer) option" where
  "pdcp_remove_UE ctxt s = do {
     s1 \<leftarrow> ofold (\<lambda>rb. pdcp_coll_remove (PDCP_COLL_KEY_VALUE ctxt (of_nat rb) True)) [1..<3] (forget_instance ctxt s);
     s2 \<leftarrow> ofold (\<lambda>rb. pdcp_coll_remove (PDCP_COLL_KEY_VALUE ctxt (of_nat rb) False)) [0..<LTE_maxDRB] s1;
     if MAX_NUM_CCs \<le> unat (module_id ctxt) then None
     else Some (True,
       if pdcp_uid s2 ctxt < MAX_MOBILES
       then upd_enb (unat (module_id ctxt)) (\<lambda>b. b\<lparr>enb_uid := (enb_uid b)(pdcp_uid s2 ctxt := 0), enb_rnti := (enb_rnti b)(pdcp_uid s2 ctxt := 0),
              enb_num_ues := enb_num_ues b - 1\<rparr>) s2
       else s2)
   }"

section \<open>Configuration of an entity\<close>

definition pdcp_zero :: pdcp_t where
  "pdcp_zero = \<lparr>header_compression_profile = 0, is_ue = False, is_srb = False, cipheringAlgorithm = 0, integrityProtAlgorithm = 0,
     kUPenc = None, kRRCint = None, kRRCenc = None, security_activated = 0, pdcp_rlc_mode = RLC_MODE_NONE, status_report = 0,
     seq_num_size = 0, pdcp_lcid = 0, pdcp_rb_id = 0, next_pdcp_tx_sn = 0, next_pdcp_rx_sn = 0, next_pdcp_rx_sn_before_integrity = 0,
     tx_hfn = 0, rx_hfn = 0, rx_hfn_offset = 0, last_submitted_pdcp_rx_sn = 0, missing_pdu_bitmap = replicate 512 0, first_missing_pdu = 0\<rparr>"

record sec_keys =
  k_mode :: "8 word"
  k_RRCenc :: "nat option"
  k_RRCint :: "nat option"
  k_UPenc :: "nat option"

definition pdcp_config_set_security :: "sec_keys \<Rightarrow> pdcp_t \<Rightarrow> pdcp_t" where
  "pdcp_config_set_security ks e =
     (if k_mode ks \<le> 0x77 then
        e\<lparr>cipheringAlgorithm := k_mode ks AND 0x0f, integrityProtAlgorithm := drop_bit 4 (k_mode ks) AND 0xf,
          kRRCenc := k_RRCenc ks, kRRCint := k_RRCint ks, kUPenc := k_UPenc ks, security_activated := 1\<rparr>
      else e)"

text \<open>The next free place of the table of instances, from the running index on; the place at the index when none is free.\<close>

definition instance_index :: "pdcp_layer \<Rightarrow> nat" where
  "instance_index s =
     (let i = pdcp_eNB_UE_instance_to_rnti_index s;
          n = length (takeWhile (\<lambda>j. pdcp_eNB_UE_instance_to_rnti s ((i + j) mod MAX_MOBILES) \<noteq> 0) [0..<MAX_MOBILES]) in
      (i + n) mod MAX_MOBILES)"

definition add_instance :: "protocol_ctxt \<Rightarrow> pdcp_layer \<Rightarrow> pdcp_layer" where
  "add_instance ctxt s =
     s\<lparr>pdcp_eNB_UE_instance_to_rnti := (pdcp_eNB_UE_instance_to_rnti s)(instance_index s := rnti ctxt),
       pdcp_eNB_UE_instance_to_rnti_index := (instance_index s + 1) mod MAX_MOBILES\<rparr>"

definition register_station :: "protocol_ctxt \<Rightarrow> bool \<Rightarrow> pdcp_layer \<Rightarrow> pdcp_layer option" where
  "register_station ctxt srb s =
     (if enb_flag ctxt then do { s1 \<leftarrow> pdcp_add_UE ctxt s; Some (if srb then s1 else add_instance ctxt s1) }
      else if MAX_MOBILES \<le> unat (module_id ctxt) then None
      else Some (s\<lparr>pdcp_UE_UE_module_id_to_rnti := (pdcp_UE_UE_module_id_to_rnti s)(unat (module_id ctxt) := rnti ctxt)\<rparr>))"

definition sn_size_of :: "sec_ops \<Rightarrow> 8 word \<Rightarrow> 8 word" where
  "sn_size_of ops rb_sn = (if rb_sn = len12bits ops then 12 else if rb_sn = len7bits ops then 7 else 5)"

record bearer_cfg =
  cfg_rlc_mode :: rlc_mode
  cfg_lc_id :: "16 word"
  cfg_mch_id :: "16 word"
  cfg_rb_id :: "16 word"
  cfg_rb_sn :: "8 word"
  cfg_rb_report :: "8 word"
  cfg_profile :: "16 word"

definition entity_added :: "sec_ops \<Rightarrow> protocol_ctxt \<Rightarrow> bool \<Rightarrow> bearer_cfg \<Rightarrow> sec_keys \<Rightarrow> pdcp_t \<Rightarrow> pdcp_t" where
  "entity_added ops ctxt srb c ks e =
     (let e1 = e\<lparr>is_ue := \<not> enb_flag ctxt, is_srb := srb, pdcp_lcid := ucast (cfg_lc_id c), pdcp_rb_id := cfg_rb_id c,
                 header_compression_profile := cfg_profile c, status_report := cfg_rb_report c,
                 seq_num_size := sn_size_of ops (cfg_rb_sn c), pdcp_rlc_mode := cfg_rlc_mode c,
                 next_pdcp_tx_sn := 0, next_pdcp_rx_sn := 0, next_pdcp_rx_sn_before_integrity := 0, tx_hfn := 0, rx_hfn := 0,
                 last_submitted_pdcp_rx_sn := 4095, first_missing_pdu := -1, rx_hfn_offset := 0\<rparr> in
      if k_mode ks \<noteq> 0xff then pdcp_config_set_security ks e1 else e1)"

definition entity_modified :: "sec_ops \<Rightarrow> bearer_cfg \<Rightarrow> sec_keys \<Rightarrow> pdcp_t \<Rightarrow> pdcp_t" where
  "entity_modified ops c ks e =
     (let e1 = e\<lparr>header_compression_profile := cfg_profile c, status_report := cfg_rb_report c, pdcp_rlc_mode := cfg_rlc_mode c\<rparr>;
          e2 = (if k_mode ks \<noteq> 0xff then pdcp_config_set_security ks e1 else e1) in
      e2\<lparr>seq_num_size := (if cfg_rb_sn c = len7bits ops then 7 else if cfg_rb_sn c = len12bits ops then 12 else 5)\<rparr>)"

definition mbms_in_range :: "nat \<Rightarrow> protocol_ctxt \<Rightarrow> nat \<Rightarrow> nat \<Rightarrow> bool" where
  "mbms_in_range nb_eNB_max ctxt mch lc \<longleftrightarrow>
     unat (module_id ctxt) < (if enb_flag ctxt then nb_eNB_max else MAX_MOBILES) \<and> mch < LTE_maxServiceCount \<and> lc < LTE_maxSessionPerPMCH"

definition mbms_config :: "nat \<Rightarrow> protocol_ctxt \<Rightarrow> bearer_cfg \<Rightarrow> pdcp_layer \<Rightarrow> pdcp_layer option" where
  "mbms_config nb_eNB_max ctxt c s =
     (let m = unat (module_id ctxt); mch = unat (cfg_mch_id c); lc = unat (cfg_lc_id c) in
      if \<not> mbms_in_range nb_eNB_max ctxt mch lc then None
      else if enb_flag ctxt
      then Some (s\<lparr>pdcp_mbms_array_eNB := upd3 m mch lc (\<lambda>_. (True, cfg_rb_id c)) (pdcp_mbms_array_eNB s)\<rparr>)
      else Some (s\<lparr>pdcp_mbms_array_ue := upd3 m mch lc (\<lambda>_. (True, cfg_rb_id c)) (pdcp_mbms_array_ue s)\<rparr>))"

definition pdcp_config_req_asn1 ::
  "sec_ops \<Rightarrow> nat \<Rightarrow> protocol_ctxt \<Rightarrow> nat option \<Rightarrow> bool \<Rightarrow> config_action \<Rightarrow> bearer_cfg \<Rightarrow> sec_keys \<Rightarrow> pdcp_layer \<Rightarrow> pdcp_layer option" where
  "pdcp_config_req_asn1 ops nb_eNB_max ctxt p srb act c ks s =
     (case act of
        CONFIG_ACTION_ADD \<Rightarrow> do {
          (a, e) \<leftarrow> pdcp_deref s p;
          s1 \<leftarrow> register_station ctxt srb s;
          Some (pdcp_store a (entity_added ops ctxt srb c ks e) s1)
        }
      | CONFIG_ACTION_MODIFY \<Rightarrow> do { (a, e) \<leftarrow> pdcp_deref s p; Some (pdcp_store a (entity_modified ops c ks e) s) }
      | CONFIG_ACTION_REMOVE \<Rightarrow> do { (a, e) \<leftarrow> pdcp_deref s p; s1 \<leftarrow> free_keys e s; Some (pdcp_store a pdcp_zero s1) }
      | CONFIG_ACTION_MBMS_ADD \<Rightarrow> mbms_config nb_eNB_max ctxt c s
      | CONFIG_ACTION_MBMS_MODIFY \<Rightarrow> mbms_config nb_eNB_max ctxt c s
      | CONFIG_ACTION_SET_SECURITY_MODE \<Rightarrow> do { (a, e) \<leftarrow> pdcp_deref s p; Some (pdcp_store a (pdcp_config_set_security ks e) s) }
      | CONFIG_ACTION_NULL \<Rightarrow> None)"

section \<open>Configuration from RRC messages\<close>

datatype header_compression = HC_notUsed | HC_rohc "16 word \<Rightarrow> bool" | HC_unknown

record pdcp_config =
  pc_rlc_AM :: "8 word option"
  pc_rlc_UM :: "8 word option"
  pc_headerCompression :: header_compression

record pdcp_drb_ToAddMod =
  pd_drb_Identity :: int
  pd_logicalChannelIdentity :: "int option"
  pd_pdcp_Config :: "pdcp_config option"

record cfg_env =
  cfg_calloc_ok :: "nat \<Rightarrow> bool"
  cfg_node_ok :: "nat \<Rightarrow> bool"
  cfg_default_ok :: "nat \<Rightarrow> bool"
  cfg_nb_eNB_max :: nat

text \<open>The local variables that keep their value from one bearer to the next.\<close>

record cfg_vars =
  v_pdcp_p :: "nat option"
  v_rlc_type :: rlc_mode
  v_drb_sn :: "8 word"
  v_drb_report :: "8 word"
  v_profile :: "16 word"

type_synonym cfg_state = "bool \<times> cfg_vars \<times> pdcp_layer"

definition new_entity :: "cfg_env \<Rightarrow> pdcp_layer \<Rightarrow> (nat \<times> pdcp_layer) option" where
  "new_entity env s =
     (let a = pdcp_brk s in
      if \<not> cfg_calloc_ok env a then None else Some (a, (pdcp_store a pdcp_zero s)\<lparr>pdcp_brk := Suc a\<rparr>))"

definition drop_entity :: "nat \<Rightarrow> pdcp_layer \<Rightarrow> pdcp_layer" where
  "drop_entity a s = s\<lparr>pdcp_objs := (pdcp_objs s)(a := None)\<rparr>"

definition pdcp_config_srb ::
  "sec_ops \<Rightarrow> cfg_env \<Rightarrow> protocol_ctxt \<Rightarrow> sec_keys \<Rightarrow> 'aa srb_ToAddMod \<Rightarrow> cfg_state \<Rightarrow> cfg_state option" where
  "pdcp_config_srb ops env ctxt ks x st =
     (case st of (returned, v, s) \<Rightarrow>
      if returned then Some st
      else
        let rb = word_of_int (srb_Identity x) :: 16 word; k = PDCP_COLL_KEY_VALUE ctxt rb True in do {
        (act, p, ins_ok, s1) \<leftarrow> (case hashtable_get (pdcp_coll_p s) k of (h_rc, d) \<Rightarrow>
            if h_rc = HASH_TABLE_OK then Some (CONFIG_ACTION_MODIFY, d, True, s)
            else do {
              (a, s1) \<leftarrow> new_entity env s;
              (rc, s2) \<leftarrow> pdcp_coll_insert (cfg_node_ok env a) k a s1;
              Some (CONFIG_ACTION_ADD, Some a, rc = HASH_TABLE_OK, if rc = HASH_TABLE_OK then s2 else drop_entity a s2)
            });
        let v1 = v\<lparr>v_pdcp_p := p, v_rlc_type := RLC_MODE_AM\<rparr>;
        if \<not> ins_ok then Some (True, v1, s1)
        else if srb_rlc_Config x = None \<or> srb_rlc_Config x = Some SRB_rlc_Config_NOTHING
             \<or> srb_rlc_Config x = Some (SRB_rlc_Config_explicitValue RLC_Config_NOTHING) then Some (False, v1, s1)
        else if srb_rlc_Config x = Some SRB_rlc_Config_unknown then None
        else do {
          s2 \<leftarrow> pdcp_config_req_asn1 ops (cfg_nb_eNB_max env) ctxt p True act
                  \<lparr>cfg_rlc_mode = RLC_MODE_AM, cfg_lc_id = rb, cfg_mch_id = 0, cfg_rb_id = rb, cfg_rb_sn = 5, cfg_rb_report = 0, cfg_profile = 0\<rparr> ks s1;
          Some (False, v1, s2)
        }
      })"

fun rohc_profile :: "header_compression \<Rightarrow> 16 word \<Rightarrow> 16 word" where
  "rohc_profile HC_notUsed old = 0"
| "rohc_profile HC_unknown old = old"
| "rohc_profile (HC_rohc on) old = (case filter on [1, 2, 3, 4, 6, 0x101, 0x102, 0x103, 0x104] of [] \<Rightarrow> 0 | p # _ \<Rightarrow> p)"

definition drb_vars :: "sec_ops \<Rightarrow> pdcp_config \<Rightarrow> cfg_vars \<Rightarrow> cfg_vars" where
  "drb_vars ops pc v =
     (let v1 = (case pc_rlc_AM pc of None \<Rightarrow> v | Some rep \<Rightarrow> v\<lparr>v_drb_report := rep, v_drb_sn := len12bits ops, v_rlc_type := RLC_MODE_AM\<rparr>);
          v2 = (case pc_rlc_UM pc of None \<Rightarrow> v1 | Some sn \<Rightarrow> v1\<lparr>v_drb_sn := sn, v_rlc_type := RLC_MODE_UM\<rparr>) in
      v2\<lparr>v_profile := rohc_profile (pc_headerCompression pc) (v_profile v2)\<rparr>)"

definition add_drb ::
  "cfg_env \<Rightarrow> protocol_ctxt \<Rightarrow> 16 word option \<Rightarrow> 16 word \<Rightarrow> pdcp_layer \<Rightarrow> ((nat \<times> bool) \<times> pdcp_layer) option" where
  "add_drb env ctxt defaultDRB rb s = do {
     (a, s1) \<leftarrow> new_entity env s;
     (rc, s2) \<leftarrow> pdcp_coll_insert (cfg_node_ok env a) (PDCP_COLL_KEY_VALUE ctxt rb False) a s1;
     (drc, s3) \<leftarrow> (if defaultDRB = Some rb then pdcp_coll_insert (cfg_default_ok env a) (PDCP_COLL_KEY_DEFAULT_DRB_VALUE ctxt) a s2
                   else Some (HASH_TABLE_OK, s2));
     if drc \<noteq> HASH_TABLE_OK \<or> rc \<noteq> HASH_TABLE_OK then Some ((a, False), drop_entity a s3) else Some ((a, True), s3)
   }"

definition pdcp_config_drb ::
  "sec_ops \<Rightarrow> cfg_env \<Rightarrow> protocol_ctxt \<Rightarrow> 16 word option \<Rightarrow> sec_keys \<Rightarrow> pdcp_drb_ToAddMod \<Rightarrow> cfg_state \<Rightarrow> cfg_state option" where
  "pdcp_config_drb ops env ctxt defaultDRB ks x st =
     (case st of (returned, v, s) \<Rightarrow>
      if returned then Some st
      else case pd_logicalChannelIdentity x of
        None \<Rightarrow> (case pdcp_deref s (v_pdcp_p v) of None \<Rightarrow> None | Some _ \<Rightarrow> Some st)
      | Some lc \<Rightarrow>
          if lc = 1 \<or> lc = 2 then Some st
          else if 11 \<le> pd_drb_Identity x then None
          else
            let rb = word_of_int (pd_drb_Identity x) :: 16 word in do {
            (act, p, ins_ok, s1) \<leftarrow> (case hashtable_get (pdcp_coll_p s) (PDCP_COLL_KEY_VALUE ctxt rb False) of (h_rc, d) \<Rightarrow>
                if h_rc = HASH_TABLE_OK then Some (CONFIG_ACTION_MODIFY, d, True, s)
                else map_option (\<lambda>((a, ok), s1). (CONFIG_ACTION_ADD, Some a, ok, s1)) (add_drb env ctxt defaultDRB rb s));
            let v1 = v\<lparr>v_pdcp_p := p\<rparr>;
            if \<not> ins_ok then Some (True, v1, s1)
            else case pd_pdcp_Config x of
              None \<Rightarrow> Some (False, v1, s1)
            | Some pc \<Rightarrow> do {
                let v2 = drb_vars ops pc v1;
                s2 \<leftarrow> pdcp_config_req_asn1 ops (cfg_nb_eNB_max env) ctxt p False act
                        \<lparr>cfg_rlc_mode = v_rlc_type v2, cfg_lc_id = word_of_int lc, cfg_mch_id = 0, cfg_rb_id = rb,
                         cfg_rb_sn = v_drb_sn v2, cfg_rb_report = v_drb_report v2, cfg_profile = v_profile v2\<rparr> ks s1;
                Some (False, v2, s2)
              }
          })"

definition pdcp_release_drb ::
  "sec_ops \<Rightarrow> cfg_env \<Rightarrow> protocol_ctxt \<Rightarrow> 16 word option \<Rightarrow> sec_keys \<Rightarrow> int \<Rightarrow> cfg_state \<Rightarrow> cfg_state option" where
  "pdcp_release_drb ops env ctxt defaultDRB ks drb st =
     (case st of (returned, v, s) \<Rightarrow>
      if returned then Some st
      else
        let rb = word_of_int drb :: 16 word; k = PDCP_COLL_KEY_VALUE ctxt rb False in
        case hashtable_get (pdcp_coll_p s) k of (h_rc, d) \<Rightarrow>
          if h_rc \<noteq> HASH_TABLE_OK then Some st
          else do {
            (a, e) \<leftarrow> pdcp_deref s d;
            s1 \<leftarrow> pdcp_config_req_asn1 ops (cfg_nb_eNB_max env) ctxt d False CONFIG_ACTION_REMOVE
                    \<lparr>cfg_rlc_mode = v_rlc_type v, cfg_lc_id = ucast (pdcp_lcid e), cfg_mch_id = 0, cfg_rb_id = rb, cfg_rb_sn = 0,
                     cfg_rb_report = 0, cfg_profile = 0\<rparr> ks s;
            s2 \<leftarrow> pdcp_coll_remove k s1;
            s3 \<leftarrow> (if defaultDRB = Some rb \<and> fst (hashtable_get (pdcp_coll_p s2) (PDCP_COLL_KEY_DEFAULT_DRB_VALUE ctxt)) = HASH_TABLE_OK
                   then pdcp_coll_remove (PDCP_COLL_KEY_DEFAULT_DRB_VALUE ctxt) s2 else Some s2);
            Some (False, v\<lparr>v_pdcp_p := d\<rparr>, s3)
          })"

definition pdcp_config_session ::
  "sec_ops \<Rightarrow> cfg_env \<Rightarrow> protocol_ctxt \<Rightarrow> mbms_session_info \<Rightarrow> pdcp_layer \<Rightarrow> pdcp_layer option" where
  "pdcp_config_session ops env ctxt x s =
     (let lc = (case sessionId_r9 x of Some b \<Rightarrow> uint b | None \<Rightarrow> logicalChannelIdentity_r9 x);
          mch = uint (serviceId_r9_2 x); drb = mch * 29 + lc; m = unat (module_id ctxt) in
      if lc < 0 \<or> \<not> mbms_in_range (cfg_nb_eNB_max env) ctxt (nat mch) (nat lc) then None
      else pdcp_config_req_asn1 ops (cfg_nb_eNB_max env) ctxt None False
             (if fst (if enb_flag ctxt then pdcp_mbms_array_eNB s m (nat mch) (nat lc) else pdcp_mbms_array_ue s m (nat mch) (nat lc))
              then CONFIG_ACTION_MBMS_MODIFY else CONFIG_ACTION_MBMS_ADD)
             \<lparr>cfg_rlc_mode = RLC_MODE_NONE, cfg_lc_id = word_of_int lc, cfg_mch_id = word_of_int mch, cfg_rb_id = word_of_int drb, cfg_rb_sn = 0,
              cfg_rb_report = 0, cfg_profile = 0\<rparr>
             \<lparr>k_mode = 0, k_RRCenc = None, k_RRCint = None, k_UPenc = None\<rparr> s)"

text \<open>The result is \<open>TRUE\<close> when an insertion failed.\<close>

definition rrc_pdcp_config_asn1_req ::
  "sec_ops \<Rightarrow> cfg_env \<Rightarrow> protocol_ctxt \<Rightarrow> 'aa srb_ToAddMod list \<Rightarrow> pdcp_drb_ToAddMod list \<Rightarrow> int list \<Rightarrow> sec_keys
   \<Rightarrow> mbms_session_info list list \<Rightarrow> 16 word option \<Rightarrow> pdcp_layer \<Rightarrow> (bool \<times> pdcp_layer) option" where
  "rrc_pdcp_config_asn1_req ops env ctxt srbs drbs rel ks pmch defaultDRB s = do {
     st1 \<leftarrow> ofold (pdcp_config_srb ops env ctxt ks) srbs
              (False, \<lparr>v_pdcp_p = None, v_rlc_type = RLC_MODE_NONE, v_drb_sn = 12, v_drb_report = 0, v_profile = 0\<rparr>, s);
     st2 \<leftarrow> ofold (pdcp_config_drb ops env ctxt defaultDRB ks) drbs st1;
     (returned, v, s3) \<leftarrow> ofold (pdcp_release_drb ops env ctxt defaultDRB ks) rel st2;
     if returned then Some (True, s3)
     else map_option (Pair False) (ofold (pdcp_config_session ops env ctxt) (concat pmch) s3)
   }"

section \<open>The older configuration request\<close>

definition entity_reset :: "protocol_ctxt \<Rightarrow> bool \<Rightarrow> 16 word \<Rightarrow> pdcp_t \<Rightarrow> pdcp_t" where
  "entity_reset ctxt srb rb e =
     e\<lparr>is_srb := srb, pdcp_rb_id := rb, is_ue := \<not> enb_flag ctxt, next_pdcp_tx_sn := 0, next_pdcp_rx_sn := 0, tx_hfn := 0, rx_hfn := 0,
       last_submitted_pdcp_rx_sn := 4095, seq_num_size := (if unat rb < 3 then 5 else 12), first_missing_pdu := -1\<rparr>"

definition set_module_rnti :: "protocol_ctxt \<Rightarrow> pdcp_layer \<Rightarrow> pdcp_layer option" where
  "set_module_rnti ctxt s =
     (if enb_flag ctxt then Some s
      else if MAX_MOBILES \<le> unat (module_id ctxt) then None
      else Some (s\<lparr>pdcp_UE_UE_module_id_to_rnti := (pdcp_UE_UE_module_id_to_rnti s)(unat (module_id ctxt) := rnti ctxt)\<rparr>))"

definition rrc_pdcp_config_req ::
  "cfg_env \<Rightarrow> protocol_ctxt \<Rightarrow> bool \<Rightarrow> config_action \<Rightarrow> 16 word \<Rightarrow> 8 word \<Rightarrow> pdcp_layer \<Rightarrow> pdcp_layer option" where
  "rrc_pdcp_config_req env ctxt srb act rb security_modeP s =
     (let k = PDCP_COLL_KEY_VALUE ctxt rb srb in
      case hashtable_get (pdcp_coll_p s) k of (h_rc, d) \<Rightarrow>
      if h_rc = HASH_TABLE_OK then
        (case act of
           CONFIG_ACTION_ADD \<Rightarrow> do { (a, e) \<leftarrow> pdcp_deref s d; s1 \<leftarrow> set_module_rnti ctxt s; Some (pdcp_store a (entity_reset ctxt srb rb e) s1) }
         | CONFIG_ACTION_MODIFY \<Rightarrow> Some s
         | CONFIG_ACTION_REMOVE \<Rightarrow> do {
             (a, e) \<leftarrow> pdcp_deref s d;
             pdcp_coll_remove k (pdcp_store a (e\<lparr>next_pdcp_tx_sn := 0, next_pdcp_rx_sn := 0, tx_hfn := 0, rx_hfn := 0, last_submitted_pdcp_rx_sn := 4095,
               seq_num_size := 0, first_missing_pdu := -1, security_activated := 0\<rparr>) s)
           }
         | CONFIG_ACTION_SET_SECURITY_MODE \<Rightarrow> do {
             (a, e) \<leftarrow> pdcp_deref s d;
             Some (if security_modeP \<le> 0x77
               then pdcp_store a (e\<lparr>cipheringAlgorithm := security_modeP AND 0x0f, integrityProtAlgorithm := drop_bit 4 security_modeP AND 0xf\<rparr>) s else s)
           }
         | _ \<Rightarrow> None)
      else if act = CONFIG_ACTION_ADD then do {
        (a, s1) \<leftarrow> new_entity env s;
        (rc, s2) \<leftarrow> pdcp_coll_insert (cfg_node_ok env a) k a s1;
        if rc \<noteq> HASH_TABLE_OK then Some (drop_entity a s2)
        else do { (a, e) \<leftarrow> pdcp_deref s2 (Some a); s3 \<leftarrow> set_module_rnti ctxt s2; Some (pdcp_store a (entity_reset ctxt srb rb e) s3) }
      }
      else Some s)"

section \<open>The layer\<close>

definition counters_zero :: pdcp_counters where
  "counters_zero = \<lparr>st_packets = 0, st_packets_tmp_w = 0, st_packets_w = 0, st_bytes = 0, st_bytes_tmp_w = 0, st_bytes_w = 0,
     st_throughput_w = 0, st_sn = 0, st_aiat = 0, st_aiat_tmp_w = 0, st_aiat_w = 0, st_iat = 0\<rparr>"

text \<open>
  The windowed times between arrivals are not among the counters \<open>pdcp_layer_init\<close> clears, and it clears one element of the
  array of eNBs, which has \<open>MAX_NUM_CCs\<close>.
\<close>

definition stat_init :: "pdcp_counters \<Rightarrow> pdcp_counters" where
  "stat_init c = counters_zero\<lparr>st_aiat_tmp_w := st_aiat_tmp_w c, st_aiat_w := st_aiat_w c\<rparr>"

definition pdcp_layer_init :: "bool \<Rightarrow> bool \<Rightarrow> 64 word \<Rightarrow> pdcp_layer \<Rightarrow> pdcp_layer option" where
  "pdcp_layer_init malloc_ok calloc_ok fresh s =
     (case hashtable_create ((11 + 2) * 16) None malloc_ok calloc_ok fresh of
        None \<Rightarrow> None
      | Some t \<Rightarrow> Some (s\<lparr>pdcp_sdu_list := [], pdcp_coll_p := Some t,
          pdcp_mbms_array_ue := (\<lambda>_ _ _. (False, 0)), pdcp_mbms_array_eNB := (\<lambda>_ _ _. (False, 0)),
          pdcp_eNB_UE_instance_to_rnti := (\<lambda>_. 0), pdcp_eNB_UE_instance_to_rnti_index := 0,
          pdcp_enbs := (pdcp_enbs s)(0 := \<lparr>enb_uid = (\<lambda>_. 0), enb_rnti = (\<lambda>_. 0), enb_num_ues = 0, enb_sfn = 0\<rparr>),
          Pdcp_stats_tx_window_ms := (\<lambda>_ _. 100), Pdcp_stats_rx_window_ms := (\<lambda>_ _. 100),
          Pdcp_stats_tx := (\<lambda>m u rb. stat_init (Pdcp_stats_tx s m u rb)), Pdcp_stats_rx := (\<lambda>m u rb. stat_init (Pdcp_stats_rx s m u rb))\<rparr>))"

definition pdcp_layer_cleanup :: "pdcp_layer \<Rightarrow> pdcp_layer option" where
  "pdcp_layer_cleanup s =
     (case hashtable_destroy (pdcp_coll_p s) of (rc, fs) \<Rightarrow>
        ofold (\<lambda>a. pdcp_free (Some a)) (drop (length (ht_freed (pdcp_coll_p s))) fs) (s\<lparr>pdcp_sdu_list := [], pdcp_coll_p := None\<rparr>))"

end
