(* ===== verification/Pdcp_Layer_Correct.thy ===== *)
theory Pdcp_Layer_Correct
  imports Pdcp_Layer Rlc_Bearer
begin

text \<open>
  The PDCP layer carries SDUs: what one entity builds, with its header, number, integrity code and cipher, its peer opens
  again, and the data request at one side and the data indication at the other move an SDU unchanged from upper layer to
  upper layer. Then the ways in which the layer loses or accepts data that it should not.
\<close>

section \<open>A PDU between two entities\<close>

text \<open>What the sequence manager leaves alone.\<close>

definition entity_cfg :: "pdcp_t \<Rightarrow> bool \<times> 8 word \<times> 8 word \<times> nat option \<times> nat option \<times> nat option \<times> 8 word \<times> rlc_mode \<times> 8 word" where
  "entity_cfg e = (is_ue e, cipheringAlgorithm e, integrityProtAlgorithm e, kUPenc e, kRRCint e, kRRCenc e, security_activated e, pdcp_rlc_mode e, seq_num_size e)"

lemma entity_cfg_eq:
  "entity_cfg e = entity_cfg e' \<longleftrightarrow> is_ue e = is_ue e' \<and> cipheringAlgorithm e = cipheringAlgorithm e' \<and> integrityProtAlgorithm e = integrityProtAlgorithm e'
     \<and> kUPenc e = kUPenc e' \<and> kRRCint e = kRRCint e' \<and> kRRCenc e = kRRCenc e' \<and> security_activated e = security_activated e'
     \<and> pdcp_rlc_mode e = pdcp_rlc_mode e' \<and> seq_num_size e = seq_num_size e'"
  by (simp add: entity_cfg_def)

lemma next_tx_cfg: "pdcp_get_next_tx_seq_number (Some e) = (sn, Some e') \<Longrightarrow> entity_cfg e' = entity_cfg e \<and> missing_pdu_bitmap e' = missing_pdu_bitmap e \<and> next_pdcp_rx_sn e' = next_pdcp_rx_sn e"
  by (auto simp: pdcp_get_next_tx_seq_number_def Let_def entity_cfg_def split: if_splits)

lemma window_next_cfg: "entity_cfg (pdcp_rx_window_next sn e) = entity_cfg e"
  by (auto simp: pdcp_rx_window_next_def pdcp_advance_rx_window_def entity_cfg_def)

lemma rx_valid_cfg: "pdcp_is_rx_seq_number_valid sn (Some e) srb = (ok, Some e') \<Longrightarrow> entity_cfg e' = entity_cfg e"
proof -
  have m: "entity_cfg (snd (pdcp_mark_current_pdu_as_received sn e)) = entity_cfg e" by (simp add: mark_received_eq entity_cfg_def)
  have s: "entity_cfg (snd (pdcp_rx_srb sn f)) = entity_cfg f" for f
    by (simp add: pdcp_rx_srb_def Let_def window_next_cfg) (simp add: entity_cfg_def)
  have u: "entity_cfg (snd (pdcp_rx_drb_um sn f)) = entity_cfg f" for f
    by (simp add: pdcp_rx_drb_um_def Let_def window_next_cfg) (simp add: entity_cfg_def)
  have a: "entity_cfg (snd (pdcp_rx_drb_am sn w f)) = entity_cfg f" for w f
    by (simp add: pdcp_rx_drb_am_def Let_def window_next_cfg) (simp add: entity_cfg_def)
  assume "pdcp_is_rx_seq_number_valid sn (Some e) srb = (ok, Some e')"
  then show ?thesis
    using m s [of "snd (pdcp_mark_current_pdu_as_received sn e)"] u [of "snd (pdcp_mark_current_pdu_as_received sn e)"]
      a [of 64 "snd (pdcp_mark_current_pdu_as_received sn e)"] a [of 2048 "snd (pdcp_mark_current_pdu_as_received sn e)"]
    by (auto simp: pdcp_is_rx_seq_number_valid_def Let_def map_prod_def split: if_splits rlc_mode.splits prod.splits)
qed

text \<open>
  Two entities of one bearer: the same configuration on opposite sides, the same keys, the sender less than one cycle of
  numbers ahead. The keys that the algorithms use are there.
\<close>

definition same_security :: "pdcp_layer \<Rightarrow> pdcp_layer \<Rightarrow> bool \<Rightarrow> pdcp_t \<Rightarrow> pdcp_t \<Rightarrow> bool" where
  "same_security s t srb e x \<longleftrightarrow> is_ue x = (\<not> is_ue e) \<and> cipheringAlgorithm x = cipheringAlgorithm e \<and> integrityProtAlgorithm x = integrityProtAlgorithm e
     \<and> security_activated x = security_activated e \<and> security_activated e \<in> {0, 1}
     \<and> sec_key t (if srb then kRRCenc x else kUPenc x) 0 = sec_key s (if srb then kRRCenc e else kUPenc e) 0
     \<and> sec_key t (kRRCint x) 16 = sec_key s (kRRCint e) 16
     \<and> (security_activated e = 1 \<longrightarrow> (cipheringAlgorithm e \<in> {1, 2} \<longrightarrow> sec_key s (if srb then kRRCenc e else kUPenc e) 0 \<noteq> None)
        \<and> (srb \<and> integrityProtAlgorithm e \<in> {1, 2} \<longrightarrow> sec_key s (kRRCint e) 16 \<noteq> None))"

definition pdcp_pair :: "pdcp_layer \<Rightarrow> pdcp_layer \<Rightarrow> bool \<Rightarrow> pdcp_t \<Rightarrow> pdcp_t \<Rightarrow> bool" where
  "pdcp_pair s t srb e x \<longleftrightarrow> pdcp_entity_ok e \<and> pdcp_entity_ok x \<and> seq_num_size e = (if srb then 5 else 12) \<and> seq_num_size x = seq_num_size e
     \<and> (srb \<or> pdcp_rlc_mode x = RLC_MODE_UM) \<and> rx_hfn_offset x = 0 \<and> (tx_count e - rx_count x) mod count_period e < 2 ^ sn_bits e
     \<and> same_security s t srb e x"

lemma put_header:
  assumes ok: "pdcp_entity_ok e" "seq_num_size e = (if srb then 5 else 12)" and n: "pdcp_get_next_tx_seq_number (Some e) = (sn, Some e1)"
  obtains m where "pdcp_put_header srb mode sz e blk = Some (sn, e1, m)"
    "\<And>x m'. seq_num_size x = seq_num_size e \<Longrightarrow> (\<And>i. i < pdcp_header_len srb \<Longrightarrow> m' i = m i) \<Longrightarrow> pdcp_parse_header srb x m' = (pdcp_header_len srb, sn)"
    "\<not> pdcp_calculate_max_seq_num_for_given_size (seq_num_size e1) < sn"
proof -
  have v: "pdcp_is_seq_num_size_valid (Some e)" "uint (next_pdcp_tx_sn e) < 2 ^ sn_bits e" using ok by (auto simp: pdcp_entity_ok_def)
  note st = next_tx_step [OF v n]
  have sn: "uint sn < 2 ^ sn_bits e" using st(1) v(2) by simp
  have mx: "\<not> pdcp_calculate_max_seq_num_for_given_size (seq_num_size e1) < sn"
    using seq_num_valid_iff [OF v(1), of sn] sn st(2) by (simp add: pdcp_is_seq_num_valid_def not_less)
  show ?thesis
  proof (cases srb)
    case True
    have b: "sn_bits e = 5" using ok(2) True by (simp add: sn_bits_def)
    have sn5: "uint sn < 32" using sn b by simp
    have u8: "ucast (ucast sn :: 8 word) = sn" using sn5 by (simp add: word_uint_eq_iff unsigned_ucast_eq unsigned_take_bit_eq take_bit_int_eq_self)
    have a8: "(ucast sn :: 8 word) AND 0x1F = ucast sn"
    proof -
      have "uint (ucast sn :: 8 word) < 2 ^ 5" using sn5 by (simp add: unsigned_ucast_eq take_bit_int_eq_self)
      then show ?thesis by (simp add: byte_masks take_bit_eq_mask [symmetric] word_uint_eq_iff unsigned_take_bit_eq take_bit_int_eq_self)
    qed
    show ?thesis
    proof (rule that [of "(mem_write blk (sz + 1) (replicate 4 0))(0 := ucast sn AND 0x1F)"])
      show "pdcp_put_header srb mode sz e blk = Some (sn, e1, (mem_write blk (sz + 1) (replicate 4 0))(0 := ucast sn AND 0x1F))"
        using True n u8 by (simp add: pdcp_put_header_def pdcp_serialize_control_plane_data_pdu_with_SRB_sn_buffer_def)
      show "pdcp_parse_header srb x m' = (pdcp_header_len srb, sn)"
        if "\<And>i. i < pdcp_header_len srb \<Longrightarrow> m' i = ((mem_write blk (sz + 1) (replicate 4 0))(0 := ucast sn AND 0x1F)) i" for x m'
        using that [of 0] True u8 a8
        by (simp add: pdcp_parse_header_def pdcp_header_len_def pdcp_get_sequence_number_of_pdu_with_SRB_sn_def)
    qed (rule mx)
  next
    case False
    have b: "sn_bits e = 12" using ok(2) False by (simp add: sn_bits_def)
    let ?h = "\<lparr>up_dc = (if mode = PDCP_TRANSMISSION_MODE_DATA then 1 else 0), up_sn = sn\<rparr>"
    obtain k m where m: "pdcp_serialize_user_plane_data_pdu_with_long_sn_buffer (Some blk) (Some ?h) = (k, Some m)"
      by (simp add: pdcp_serialize_user_plane_data_pdu_with_long_sn_buffer_def Let_def)
    have "sn AND 0x0FFF = sn" using sn b sn_and_mask [of sn 12] by (simp add: sn_masks)
    then have g: "pdcp_get_sequence_number_of_pdu_with_long_sn (Some m) = sn" using long_sn_header [OF m] by simp
    show ?thesis
    proof (rule that [of m])
      show "pdcp_put_header srb mode sz e blk = Some (sn, e1, m)" using False n m by (simp add: pdcp_put_header_def)
      show "pdcp_parse_header srb x m' = (pdcp_header_len srb, sn)"
        if "seq_num_size x = seq_num_size e" "\<And>i. i < pdcp_header_len srb \<Longrightarrow> m' i = m i" for x m'
        using that(2) [of 0] that(2) [of 1] that(1) False ok(2) g
        by (simp add: pdcp_parse_header_def pdcp_header_len_def pdcp_get_sequence_number_of_pdu_with_long_sn_def Let_def)
    qed (rule mx)
  qed
qed

definition rx_params :: "sec_ops \<Rightarrow> pdcp_layer \<Rightarrow> pdcp_t \<Rightarrow> bool \<Rightarrow> 16 word \<Rightarrow> nat \<Rightarrow> 16 word \<Rightarrow> nat \<Rightarrow> stream_cipher" where
  "rx_params ops t x srb rb hlen sn n =
     \<lparr>sc_key = sec_key t (if srb then kRRCenc x else kUPenc x) 0, sc_key_length = 16, sc_count = fst (pdcp_get_next_count_rx (len7bits ops) x srb sn),
      sc_bearer = ucast (rb - 1), sc_direction = (if is_ue x then SECU_DIRECTION_DOWNLINK else SECU_DIRECTION_UPLINK), sc_message = hlen,
      sc_blength = push_bit 3 (of_nat n)\<rparr>"

lemma push_bit_3: "push_bit 3 (of_nat n :: 32 word) = 8 * of_nat n"
  by (simp add: push_bit_eq_mult mult.commute)

lemma octets_onlyI: "sc_blength sc = push_bit 3 (of_nat n) \<Longrightarrow> n < 2 ^ 16 \<Longrightarrow> octets_only sc"
  by (auto simp: octets_only_def push_bit_3)

lemma nonempty_length: "0 < n \<Longrightarrow> n < 2 ^ 16 \<Longrightarrow> push_bit 3 (of_nat n :: 32 word) \<noteq> 0"
  using aligned_length(5) [of n] by (auto simp: push_bit_3)

lemma apply_security:
  assumes ctr: "ctr_mode (ctr_crypt ops) g" and rb: "unat rb < 14" and sz: "sz \<le> 10000" "0 < hlen" "hlen \<le> 2"
    and kc: "cipheringAlgorithm e \<in> {1, 2} \<Longrightarrow> sec_key s (if srb then kRRCenc e else kUPenc e) 0 \<noteq> None"
    and ki: "srb \<Longrightarrow> integrityProtAlgorithm e \<in> {1, 2} \<Longrightarrow> sec_key s (kRRCint e) 16 \<noteq> None"
  shows "\<exists>mac. pdcp_apply_security ops s e srb rb hlen sn m sz = Some (mem_xor (mem_write m (hlen + sz) mac) hlen
     (cipher_stream g (cipheringAlgorithm e) (tx_params ops e srb rb sn (sec_key s (if srb then kRRCenc e else kUPenc e) 0) hlen sz)))"
proof -
  let ?sc = "tx_params ops e srb rb sn (sec_key s (if srb then kRRCenc e else kUPenc e) 0) hlen sz"
  let ?si = "tx_params ops e srb rb sn (sec_key s (kRRCint e) 16) 0 (hlen + sz)"
  have "octets_only ?sc" by (rule octets_onlyI [where n = sz]) (use sz in \<open>simp_all add: tx_params_def\<close>)
  then have "cipher_ready (cipheringAlgorithm e) ?sc" using kc by (auto simp: cipher_ready_def tx_params_def)
  from keystream_cipher.crypt_xor [OF stream_encrypt_keystream [OF ctr] this]
  have enc: "map_option snd (stream_encrypt (ctr_crypt ops) (cipheringAlgorithm e) ?sc hlen m1)
      = Some (mem_xor m1 hlen (cipher_stream g (cipheringAlgorithm e) ?sc))" for m1
    by (simp add: tx_params_def)
  show ?thesis
  proof (cases "srb \<and> integrityProtAlgorithm e \<in> {1, 2}")
    case True
    have "sc_blength ?si \<noteq> 0" using nonempty_length [of "hlen + sz"] sz by (simp add: tx_params_def)
    moreover have "sc_key ?si \<noteq> None" using ki True by (simp add: tx_params_def)
    ultimately obtain mac where "stream_compute_integrity (cmac_aes ops) (integrityProtAlgorithm e) ?si m = Some (0, Some mac)"
      using compute_integrity_ok [of "integrityProtAlgorithm e" ?si "cmac_aes ops" m] True by auto
    then have "pdcp_apply_security ops s e srb rb hlen sn m sz = Some (mem_xor (mem_write m (hlen + sz) mac) hlen (cipher_stream g (cipheringAlgorithm e) ?sc))"
      using rb True enc by (simp add: pdcp_apply_security_def)
    then show ?thesis by blast
  next
    case False
    then have "pdcp_apply_security ops s e srb rb hlen sn m sz = Some (mem_xor (mem_write m (hlen + sz) []) hlen (cipher_stream g (cipheringAlgorithm e) ?sc))"
      using rb enc by (auto simp: pdcp_apply_security_def stream_compute_integrity_def)
    then show ?thesis by blast
  qed
qed

lemma validate_security:
  assumes ctr: "ctr_mode (ctr_crypt ops) g" and rb: "unat rb < 14" and sz: "sz \<le> 10000" "0 < hlen" "hlen \<le> 2"
    and kc: "cipheringAlgorithm x \<in> {1, 2} \<Longrightarrow> sec_key t (if srb then kRRCenc x else kUPenc x) 0 \<noteq> None"
    and ki: "srb \<Longrightarrow> integrityProtAlgorithm x \<in> {1, 2} \<Longrightarrow> sec_key t (kRRCint x) 16 \<noteq> None"
  shows "\<exists>rc. pdcp_validate_security ops t x srb rb hlen sn m (hlen + sz) = Some (rc, x\<lparr>rx_hfn_offset := 0\<rparr>,
     mem_xor m hlen (cipher_stream g (cipheringAlgorithm x) (rx_params ops t x srb rb hlen sn sz)))"
proof -
  let ?sc = "rx_params ops t x srb rb hlen sn sz"
  have "octets_only ?sc" by (rule octets_onlyI [where n = sz]) (use sz in \<open>simp_all add: rx_params_def\<close>)
  then have "cipher_ready (cipheringAlgorithm x) ?sc" using kc by (auto simp: cipher_ready_def rx_params_def)
  from keystream_cipher.crypt_xor [OF stream_encrypt_keystream [OF ctr] this, of m]
  obtain rc where enc: "stream_encrypt (ctr_crypt ops) (cipheringAlgorithm x) ?sc hlen m = Some (rc, mem_xor m hlen (cipher_stream g (cipheringAlgorithm x) ?sc))"
    by (auto simp: rx_params_def)
  let ?m1 = "mem_xor m hlen (cipher_stream g (cipheringAlgorithm x) ?sc)"
  let ?si = "?sc\<lparr>sc_key := sec_key t (kRRCint x) 16, sc_message := 0, sc_blength := push_bit 3 (of_nat (hlen + sz))\<rparr>"
  have chk: "stream_check_integrity (cmac_aes ops) (integrityProtAlgorithm x) ?si (mem_read ?m1 (hlen + sz) 4) ?m1 \<noteq> None" if srb
  proof (cases "integrityProtAlgorithm x \<in> {1, 2}")
    case True
    have "sc_blength ?si \<noteq> 0" using nonempty_length [of "hlen + sz"] sz by simp
    moreover have "sc_key ?si \<noteq> None" using ki that True by simp
    ultimately obtain mac where "stream_compute_integrity (cmac_aes ops) (integrityProtAlgorithm x) ?si ?m1 = Some (0, Some mac)"
      using compute_integrity_ok [of "integrityProtAlgorithm x" ?si "cmac_aes ops" ?m1] True by auto
    then show ?thesis by (simp add: stream_check_integrity_def)
  next
    case False
    then show ?thesis by (simp add: stream_check_integrity_def stream_compute_integrity_def)
  qed
  have cnt: "pdcp_get_next_count_rx (len7bits ops) x srb sn = (sc_count ?sc, x\<lparr>rx_hfn_offset := 0\<rparr>)"
    by (simp add: rx_params_def pdcp_get_next_count_rx_def Let_def)
  have sc: "\<lparr>sc_key = sec_key t (if srb then kRRCenc x else kUPenc x) 0, sc_key_length = 16, sc_count = sc_count ?sc, sc_bearer = ucast (rb - 1),
      sc_direction = if is_ue x then SECU_DIRECTION_DOWNLINK else SECU_DIRECTION_UPLINK, sc_message = hlen, sc_blength = push_bit 3 (of_nat (hlen + sz - hlen))\<rparr> = ?sc"
    by (simp add: rx_params_def)
  show ?thesis
    unfolding pdcp_validate_security_def cnt prod.case sc Let_def using rb enc chk by (auto split: option.splits)
qed

text \<open>The entity \<open>x\<close> accepts the PDU, reads the SDU from it and becomes \<open>x2\<close>.\<close>

definition opens :: "sec_ops \<Rightarrow> pdcp_layer \<Rightarrow> bool \<Rightarrow> 16 word \<Rightarrow> byte list \<Rightarrow> pdcp_t \<Rightarrow> pdcp_t \<Rightarrow> byte list \<Rightarrow> bool" where
  "opens ops t srb rb pdu x x2 sdu \<longleftrightarrow> length pdu = pdcp_header_len srb + length sdu + pdcp_tailer_len srb \<and>
     (\<forall>m. mem_read m 0 (length pdu) = pdu \<longrightarrow> (\<exists>sn x1 m2. pdcp_parse_header srb x m = (pdcp_header_len srb, sn)
        \<and> pdcp_is_rx_seq_number_valid sn (Some x) srb = (True, Some x1)
        \<and> (if security_activated x1 = 1 then map_option snd (pdcp_validate_security ops t x1 srb rb (pdcp_header_len srb) sn m (pdcp_header_len srb + length sdu))
           else Some (x1, m)) = Some (x2, m2)
        \<and> mem_read m2 (pdcp_header_len srb) (length sdu) = sdu))"

lemma mem_read_eqD: "mem_read m 0 n = mem_read m' 0 n \<Longrightarrow> i < n \<Longrightarrow> m i = m' i"
  by (metis nth_mem_read add_0)

lemma same_paramsI:
  assumes "same_security s t srb e x" "entity_cfg x1 = entity_cfg x" "entity_cfg e1 = entity_cfg e"
    "fst (pdcp_get_next_count_rx (len7bits ops) x1 srb sn) = pdcp_get_next_count_tx (len7bits ops) e1 srb sn"
  shows "rx_params ops t x1 srb rb hlen sn n = tx_params ops e1 srb rb sn (sec_key s (if srb then kRRCenc e1 else kUPenc e1) 0) hlen n"
  using assms by (auto simp: rx_params_def tx_params_def same_security_def entity_cfg_eq)

lemma pair_advances:
  assumes pair: "pdcp_pair s t srb e x" and n: "pdcp_get_next_tx_seq_number (Some e) = (sn, Some e1)"
  obtains x1 where "pdcp_is_rx_seq_number_valid sn (Some x) srb = (True, Some x1)" "entity_cfg x1 = entity_cfg x" "pdcp_pair s t srb e1 x1"
    "fst (pdcp_get_next_count_rx l7 x1 srb sn) = pdcp_get_next_count_tx l7 e1 srb sn"
proof -
  have p: "pdcp_entity_ok e" "pdcp_entity_ok x" "seq_num_size x = seq_num_size e" "srb \<or> pdcp_rlc_mode x = RLC_MODE_UM" "rx_hfn_offset x = 0"
    "(tx_count e - rx_count x) mod count_period e < 2 ^ sn_bits e" "same_security s t srb e x" "seq_num_size e = (if srb then 5 else 12)"
    using pair by (simp_all add: pdcp_pair_def)
  obtain x1 where x1: "pdcp_is_rx_seq_number_valid sn (Some x) srb = (True, Some x1)" "pdcp_entity_ok x1" "rx_count x1 = tx_count e1" "rx_hfn_offset x1 = 0"
    "fst (pdcp_get_next_count_rx l7 x1 srb sn) = pdcp_get_next_count_tx l7 e1 srb sn"
    using count_synchronised [OF p(1-6) n, of l7] by blast
  have ce: "entity_cfg e1 = entity_cfg e" "missing_pdu_bitmap e1 = missing_pdu_bitmap e" "next_pdcp_rx_sn e1 = next_pdcp_rx_sn e"
    using next_tx_cfg [OF n] by auto
  have cx: "entity_cfg x1 = entity_cfg x" by (rule rx_valid_cfg [OF x1(1)])
  have v: "pdcp_is_seq_num_size_valid (Some e)" "uint (next_pdcp_tx_sn e) < 2 ^ sn_bits e" using p(1) by (auto simp: pdcp_entity_ok_def)
  have "pdcp_entity_ok e1" using next_tx_step [OF v n] p(1) ce by (auto simp: pdcp_entity_ok_def pdcp_is_seq_num_size_valid_def sn_bits_def)
  moreover have "same_security s t srb e1 x1" using p(7) ce(1) cx by (auto simp: same_security_def entity_cfg_eq)
  ultimately have "pdcp_pair s t srb e1 x1" using x1 p ce(1) cx by (auto simp: pdcp_pair_def entity_cfg_eq)
  then show ?thesis using that x1 cx by blast
qed

lemma pair_step:
  assumes ctr: "ctr_mode (ctr_crypt ops) g" and pair: "pdcp_pair s t srb e x" and rb: "unat rb < 11" and sz: "sz \<le> 10000"
  shows "\<exists>sn e1 m x2. pdcp_build_pdu ops s srb mode rb sz sdu e blk = Some (sn, e1, Some m)
    \<and> opens ops t srb rb (mem_read m 0 (pdcp_header_len srb + sz + pdcp_tailer_len srb)) x x2 (mem_read sdu 0 sz)
    \<and> pdcp_pair s t srb e1 x2 \<and> entity_cfg e1 = entity_cfg e \<and> entity_cfg x2 = entity_cfg x"
proof -
  let ?h = "pdcp_header_len srb"
  have h: "0 < ?h" "?h \<le> 2" by (simp_all add: pdcp_header_len_def)
  have e: "pdcp_entity_ok e" "seq_num_size e = (if srb then 5 else 12)" "seq_num_size x = seq_num_size e" and sec: "same_security s t srb e x"
    using pair by (auto simp: pdcp_pair_def)
  obtain sn e1 where n: "pdcp_get_next_tx_seq_number (Some e) = (sn, Some e1)" using next_tx_Some e(1) by (metis pdcp_entity_ok_def)
  have ce: "entity_cfg e1 = entity_cfg e" using next_tx_cfg [OF n] by simp
  obtain m1 where m1: "pdcp_put_header srb mode sz e blk = Some (sn, e1, m1)"
    "\<And>x m'. seq_num_size x = seq_num_size e \<Longrightarrow> (\<And>i. i < ?h \<Longrightarrow> m' i = m1 i) \<Longrightarrow> pdcp_parse_header srb x m' = (?h, sn)"
    "\<not> pdcp_calculate_max_seq_num_for_given_size (seq_num_size e1) < sn"
    using put_header [OF e(1,2) n, of mode sz blk] by blast
  obtain x1 where x1: "pdcp_is_rx_seq_number_valid sn (Some x) srb = (True, Some x1)" "entity_cfg x1 = entity_cfg x" "pdcp_pair s t srb e1 x1"
    "fst (pdcp_get_next_count_rx (len7bits ops) x1 srb sn) = pdcp_get_next_count_tx (len7bits ops) e1 srb sn"
    using pair_advances [OF pair n] by blast
  have sec1: "same_security s t srb e1 x1" using x1(3) by (simp add: pdcp_pair_def)
  have off: "x1\<lparr>rx_hfn_offset := 0\<rparr> = x1" using x1(3) by (simp add: pdcp_pair_def)
  let ?m3 = "mem_write (mem_write m1 ?h (mem_read sdu 0 sz)) (?h + sz) (replicate (pdcp_tailer_len srb) 0)"
  have rbm: "rb mod 11 = rb" using rb by (simp add: word_unat_eq_iff unat_mod)
  have rb14: "unat rb < 14" using rb by simp
  define k where "k = (if security_activated e1 = 1 then cipher_stream g (cipheringAlgorithm e1) (tx_params ops e1 srb rb sn (sec_key s (if srb then kRRCenc e1 else kUPenc e1) 0) ?h sz) else [])"
  have keys: "cipheringAlgorithm e1 \<in> {1, 2} \<Longrightarrow> sec_key s (if srb then kRRCenc e1 else kUPenc e1) 0 \<noteq> None"
    "srb \<Longrightarrow> integrityProtAlgorithm e1 \<in> {1, 2} \<Longrightarrow> sec_key s (kRRCint e1) 16 \<noteq> None" if "security_activated e1 = 1"
    using sec1 that by (auto simp: same_security_def)
  have "\<exists>mac m4. (if security_activated e1 \<noteq> 0 \<and> (cipheringAlgorithm e1 \<noteq> 0 \<or> integrityProtAlgorithm e1 \<noteq> 0)
              then pdcp_apply_security ops s e1 srb (rb mod 11) ?h sn ?m3 sz else Some ?m3) = Some m4 \<and> m4 = mem_xor (mem_write ?m3 (?h + sz) mac) ?h k"
  proof (cases "security_activated e1 = 1 \<and> (cipheringAlgorithm e1 \<noteq> 0 \<or> integrityProtAlgorithm e1 \<noteq> 0)")
    case True
    then show ?thesis using apply_security [OF ctr rb14 sz h, of e1 s srb sn ?m3] keys rbm by (auto simp: k_def)
  next
    case False
    have "security_activated e1 \<in> {0, 1}" using sec1 by (simp add: same_security_def)
    then have "k = []" "\<not> (security_activated e1 \<noteq> 0 \<and> (cipheringAlgorithm e1 \<noteq> 0 \<or> integrityProtAlgorithm e1 \<noteq> 0))"
      using False by (auto simp: k_def cipher_stream_def)
    then show ?thesis by (intro exI [of _ "[]"]) auto
  qed
  then obtain mac m4 where m4: "m4 = mem_xor (mem_write ?m3 (?h + sz) mac) ?h k"
    and b: "pdcp_build_pdu ops s srb mode rb sz sdu e blk = Some (sn, e1, Some m4)"
    using m1(1,3) by (auto simp: pdcp_build_pdu_def Let_def)
  have head: "m4 i = m1 i" if "i < ?h" for i using that by (simp add: m4 mem_xor_apply mem_write_def)
  have body: "mem_xor m' ?h k i = sdu (i - ?h)" if "m' i = m4 i" "?h \<le> i" "i < ?h + sz" for m' i
  proof -
    have "mem_xor m' ?h k i = mem_xor m4 ?h k i" using that(1) by (simp add: mem_xor_apply)
    also have "\<dots> = ?m3 i" using that by (simp add: m4 mem_write_def)
    finally show ?thesis using that by (simp add: mem_write_def)
  qed
  have "opens ops t srb rb (mem_read m4 0 (?h + sz + pdcp_tailer_len srb)) x x1 (mem_read sdu 0 sz)"
    unfolding opens_def
  proof (intro conjI allI impI)
    fix m'
    assume a: "mem_read m' 0 (length (mem_read m4 0 (?h + sz + pdcp_tailer_len srb))) = mem_read m4 0 (?h + sz + pdcp_tailer_len srb)"
    then have eq: "m' i = m4 i" if "i < ?h + sz" for i using that mem_read_eqD [of m' "?h + sz + pdcp_tailer_len srb" m4 i] by simp
    have parse: "pdcp_parse_header srb x m' = (?h, sn)" by (rule m1(2)) (use e(3) head eq in auto)
    have sx: "security_activated x1 = security_activated e1" using sec1 by (simp add: same_security_def)
    have "(if security_activated x1 = 1 then map_option snd (pdcp_validate_security ops t x1 srb rb ?h sn m' (?h + sz)) else Some (x1, m'))
        = Some (x1, mem_xor m' ?h k)"
    proof (cases "security_activated e1 = 1")
      case True
      have kx: "cipheringAlgorithm x1 \<in> {1, 2} \<Longrightarrow> sec_key t (if srb then kRRCenc x1 else kUPenc x1) 0 \<noteq> None"
        "srb \<Longrightarrow> integrityProtAlgorithm x1 \<in> {1, 2} \<Longrightarrow> sec_key t (kRRCint x1) 16 \<noteq> None"
        using sec1 True by (auto simp: same_security_def)
      have "rx_params ops t x1 srb rb ?h sn sz = tx_params ops e1 srb rb sn (sec_key s (if srb then kRRCenc e1 else kUPenc e1) 0) ?h sz"
        by (rule same_paramsI [OF sec1]) (use x1(4) in simp_all)
      moreover have "cipheringAlgorithm x1 = cipheringAlgorithm e1" using sec1 by (simp add: same_security_def)
      ultimately show ?thesis
        using validate_security [OF ctr rb14 sz h, of x1 t srb sn m'] kx off sx True by (auto simp: k_def)
    next
      case False
      then show ?thesis using sx by (simp add: k_def)
    qed
    moreover have "mem_read (mem_xor m' ?h k) ?h sz = mem_read sdu 0 sz"
      by (rule nth_equalityI) (use body eq in simp_all)
    ultimately show "\<exists>sn x1' m2. pdcp_parse_header srb x m' = (?h, sn) \<and> pdcp_is_rx_seq_number_valid sn (Some x) srb = (True, Some x1')
        \<and> (if security_activated x1' = 1 then map_option snd (pdcp_validate_security ops t x1' srb rb ?h sn m' (?h + length (mem_read sdu 0 sz)))
           else Some (x1', m')) = Some (x1, m2) \<and> mem_read m2 ?h (length (mem_read sdu 0 sz)) = mem_read sdu 0 sz"
      using parse x1(1) by auto
  qed simp
  then show ?thesis using b x1(2,3) ce by blast
qed

section \<open>An SDU between two layers\<close>

lemma sec_key_frame: "pdcp_keys s' = pdcp_keys s \<Longrightarrow> sec_key s' = sec_key s"
  by (intro ext) (simp add: sec_key_def split: option.split)

lemma same_security_frame: "pdcp_keys s' = pdcp_keys s \<Longrightarrow> pdcp_keys t' = pdcp_keys t \<Longrightarrow> same_security s' t' = same_security s t"
  by (intro ext) (simp only: same_security_def sec_key_frame [of s' s] sec_key_frame [of t' t])

lemma pdcp_pair_frame: "pdcp_keys s' = pdcp_keys s \<Longrightarrow> pdcp_keys t' = pdcp_keys t \<Longrightarrow> pdcp_pair s' t' = pdcp_pair s t"
  by (intro ext) (simp add: pdcp_pair_def same_security_frame [of s' s t' t])

text \<open>The entity of a bearer, and what the upper layer of the receiver gets.\<close>

definition bearer_entity :: "pdcp_layer \<Rightarrow> protocol_ctxt \<Rightarrow> bool \<Rightarrow> 16 word \<Rightarrow> nat \<Rightarrow> pdcp_t \<Rightarrow> bool" where
  "bearer_entity s c srb rb a e \<longleftrightarrow> hashtable_get (pdcp_coll_p s) (PDCP_COLL_KEY_VALUE c rb srb) = (HASH_TABLE_OK, Some a) \<and> pdcp_objs s a = Some e"

definition delivered :: "ind_env \<Rightarrow> protocol_ctxt \<Rightarrow> bool \<Rightarrow> 16 word \<Rightarrow> byte list \<Rightarrow> pdcp_layer \<Rightarrow> pdcp_layer \<Rightarrow> bool" where
  "delivered env c srb rb sdu t t' \<longleftrightarrow>
     rrc_ind_log t' = rrc_ind_log t @ (if srb then [(rb, sdu)] else [])
   \<and> gtpu_log t' = gtpu_log t @ (if \<not> srb \<and> enb_flag c then [\<lparr>gtpu_rnti = rnti c, gtpu_rab_id = rb + 4, gtpu_data = sdu\<rparr>] else [])
   \<and> pdcp_sdu_list t' = pdcp_sdu_list t @ (if \<not> srb \<and> \<not> enb_flag c
       then [\<lparr>ind_rb_id = rb, ind_inst = (if nfapi_mode_3 env then uint (module_id c) else 1), ind_data = sdu\<rparr>] else [])"

definition rx_ready :: "ind_env \<Rightarrow> protocol_ctxt \<Rightarrow> bool \<Rightarrow> 16 word \<Rightarrow> pdcp_layer \<Rightarrow> bool" where
  "rx_ready env c srb rb t \<longleftrightarrow> \<not> otg_enabled env \<and> gtpu_malloc_ok env \<and> ind_blk_ok env \<and> (srb \<or> enb_flag c \<or> stat_in_range t c srb rb)"

lemma stat_in_range_frame: "pdcp_enbs s' = pdcp_enbs s \<Longrightarrow> stat_in_range s' = stat_in_range s"
  by (intro ext) (simp add: stat_in_range_def pdcp_uid_def)

lemma data_ind_opens:
  assumes o: "opens ops t srb rb pdu x x2 sdu" and b: "bearer_entity t c srb rb b x" and rb: "0 < rb" "unat rb < 11" and sdu: "sdu \<noteq> []"
    and rdy: "rx_ready env c srb rb t" and um: "srb \<or> pdcp_rlc_mode x2 = RLC_MODE_UM" and m: "mem_read m 0 (length pdu) = pdu"
  obtains t' where "pdcp_data_ind ops env c srb False rb (length pdu) m t = Some (True, t')" "delivered env c srb rb sdu t t'"
    "bearer_entity t' c srb rb b x2" "pdcp_keys t' = pdcp_keys t" "pdcp_enbs t' = pdcp_enbs t"
proof -
  let ?h = "pdcp_header_len srb" and ?n = "length sdu" and ?tl = "pdcp_tailer_len srb"
  obtain sn x1 m2 where p: "pdcp_parse_header srb x m = (?h, sn)" "pdcp_is_rx_seq_number_valid sn (Some x) srb = (True, Some x1)"
    "(if security_activated x1 = 1 then map_option snd (pdcp_validate_security ops t x1 srb rb ?h sn m (?h + ?n)) else Some (x1, m)) = Some (x2, m2)"
    "mem_read m2 ?h ?n = sdu" and len: "length pdu = ?h + ?n + ?tl"
    using o m unfolding opens_def by blast
  have rbm: "rb mod 11 = rb" using rb by (simp add: word_unat_eq_iff unat_mod)
  have rb0: "rb \<noteq> 0" using rb(1) by auto
  have g: "hashtable_get (pdcp_coll_p t) (PDCP_COLL_KEY_VALUE c rb srb) = (HASH_TABLE_OK, Some b)" "pdcp_objs t b = Some x"
    using b by (auto simp: bearer_entity_def)
  have d: "pdcp_deref t (Some b) = Some (b, x)" by (simp add: pdcp_deref_def g)
  have l: "length pdu - ?tl = ?h + ?n" "length pdu - ?h - ?tl = ?n" "\<not> length pdu < ?h + ?tl" "length pdu \<noteq> 0" using len sdu by auto
  let ?t1 = "pdcp_store b x2 t"
  have ind: "pdcp_data_ind ops env c srb False rb (length pdu) m t =
      (if srb then Some (True, ?t1\<lparr>rrc_ind_log := rrc_ind_log t @ [(rb, sdu)]\<rparr>)
       else pdcp_deliver env c srb rb rb (Some (b, x2)) sn ?h (length pdu) m2 ?t1)"
  proof -
    have "pdcp_data_ind ops env c srb False rb (length pdu) m t = pdcp_receive ops env c srb rb rb (length pdu) m (b, x) t"
      using rbm rb0 g d l(4) by (simp add: pdcp_data_ind_def Let_def)
    also have "\<dots> = (if srb then Some (True, ?t1\<lparr>rrc_ind_log := rrc_ind_log t @ [(rb, mem_read m2 ?h (length pdu - ?h - ?tl))]\<rparr>)
       else pdcp_deliver env c srb rb rb (Some (b, x2)) sn ?h (length pdu) m2 ?t1)"
      unfolding pdcp_receive_def prod.case p(1) Let_def 
      by (simp only: p(2) l(1,3) p(3) prod.case bool.case if_False Option.bind.simps)
    finally show ?thesis unfolding l(2) p(4) .
  qed
  have fr: "bearer_entity ?t1 c srb rb b x2" "pdcp_keys ?t1 = pdcp_keys t" "pdcp_enbs ?t1 = pdcp_enbs t"
    "rrc_ind_log ?t1 = rrc_ind_log t" "gtpu_log ?t1 = gtpu_log t" "pdcp_sdu_list ?t1 = pdcp_sdu_list t"
    using g by (simp_all add: bearer_entity_def pdcp_store_def)
  show ?thesis
  proof (cases srb)
    case True
    show ?thesis
      by (rule that [of "?t1\<lparr>rrc_ind_log := rrc_ind_log t @ [(rb, sdu)]\<rparr>"])
        (use ind True fr in \<open>simp_all add: delivered_def bearer_entity_def\<close>)
  next
    case False
    have tl0: "length pdu - ?h = ?n" using len False by (simp add: pdcp_tailer_len_def)
    have um': "pdcp_rlc_mode x2 \<noteq> RLC_MODE_AM" using um False by simp
    show ?thesis
    proof (cases "enb_flag c")
      case True
      have "pdcp_data_ind ops env c srb False rb (length pdu) m t =
          Some (True, ?t1\<lparr>gtpu_log := gtpu_log ?t1 @ [\<lparr>gtpu_rnti = rnti c, gtpu_rab_id = rb + 4, gtpu_data = sdu\<rparr>]\<rparr>)"
        using ind rdy True False tl0 p(4) by (simp add: pdcp_deliver_def rx_ready_def)
      then show ?thesis by (rule that) (use True False fr in \<open>simp_all add: delivered_def bearer_entity_def\<close>)
    next
      case ue: False
      have st: "stat_in_range (?t1\<lparr>pdcp_sdu_list := z\<rparr>) c srb rb" for z
        using rdy ue False stat_in_range_frame [of "?t1\<lparr>pdcp_sdu_list := z\<rparr>" t] fr by (simp add: rx_ready_def)
      let ?t2 = "?t1\<lparr>pdcp_sdu_list := pdcp_sdu_list ?t1
        @ [\<lparr>ind_rb_id = rb, ind_inst = (if nfapi_mode_3 env then uint (module_id c) else 1), ind_data = sdu\<rparr>]\<rparr>"
      obtain t' where t': "count_rx c srb rb (of_nat (length pdu - ?h)) sn ?t2 = Some t'"
        "pdcp_coll_p t' = pdcp_coll_p ?t2" "pdcp_objs t' = pdcp_objs ?t2" "pdcp_keys t' = pdcp_keys ?t2" "pdcp_enbs t' = pdcp_enbs ?t2"
        "rrc_ind_log t' = rrc_ind_log ?t2" "gtpu_log t' = gtpu_log ?t2" "pdcp_sdu_list t' = pdcp_sdu_list ?t2"
        using st by (simp add: count_rx_def Let_def)
      have "pdcp_data_ind ops env c srb False rb (length pdu) m t = Some (True, t')"
        using ind rdy ue False tl0 p(4) um' t'(1) by (simp add: pdcp_deliver_def rx_ready_def)
      then show ?thesis by (rule that) (use ue False fr t' in \<open>simp_all add: delivered_def bearer_entity_def\<close>)
    qed
  qed
qed

lemma bind_Some_pair: "x \<bind> (\<lambda>(u, v). Some (f u v)) = map_option (\<lambda>(u, v). f u v) x"
  by (cases x) auto

lemma data_req_builds:
  assumes b: "bearer_entity s c srb rb a e" and rb: "unat rb < (if srb then 3 else 11)" and sz: "0 < sz" "sz \<le> 10000"
    and mode: "mode \<noteq> PDCP_TRANSMISSION_MODE_TRANSPARENT" and st: "stat_in_range s c srb rb"
    and pdu: "pdcp_build_pdu sops s srb mode rb sz sdu e blk = Some (sn, e1, Some m)"
  obtains s' where "pdcp_data_req sops ops (Some blk) rlc_blk c srb rb mui conf (int sz) sdu mode (s, r) =
      map_option (\<lambda>(status, r'). ((status = RLC_OP_STATUS_OK, Some True), s', r'))
        (rlc_data_req ops rlc_blk c srb False rb mui conf (int (pdcp_header_len srb + sz + pdcp_tailer_len srb)) (Some m) r)"
    "bearer_entity s' c srb rb a e1" "pdcp_keys s' = pdcp_keys s" "pdcp_enbs s' = pdcp_enbs s"
proof -
  have g: "hashtable_get (pdcp_coll_p s) (PDCP_COLL_KEY_VALUE c rb srb) = (HASH_TABLE_OK, Some a)" "pdcp_objs s a = Some e"
    using b by (auto simp: bearer_entity_def)
  have d: "pdcp_deref s (Some a) = Some (a, e)" by (simp add: pdcp_deref_def g)
  have rr: "rb_in_range srb mode rb" using rb mode by (simp add: rb_in_range_def)
  let ?s1 = "pdcp_store a e1 s"
  have "stat_in_range ?s1 c srb rb" using st stat_in_range_frame [of ?s1 s] by (simp add: pdcp_store_def)
  then obtain s' where s': "count_tx c srb rb (word_of_int (int sz)) sn ?s1 = Some s'"
    "pdcp_coll_p s' = pdcp_coll_p s" "pdcp_objs s' a = Some e1" "pdcp_keys s' = pdcp_keys s" "pdcp_enbs s' = pdcp_enbs s"
    by (simp add: count_tx_def Let_def pdcp_store_def)
  have len: "int sz + int (pdcp_header_len srb + pdcp_tailer_len srb) = int (pdcp_header_len srb + sz + pdcp_tailer_len srb)" by simp
  show ?thesis
  proof (rule that [of s'])
    show "pdcp_data_req sops ops (Some blk) rlc_blk c srb rb mui conf (int sz) sdu mode (s, r) =
      map_option (\<lambda>(status, r'). ((status = RLC_OP_STATUS_OK, Some True), s', r'))
        (rlc_data_req ops rlc_blk c srb False rb mui conf (int (pdcp_header_len srb + sz + pdcp_tailer_len srb)) (Some m) r)"
      using sz rr g d mode pdu s'(1) unfolding len [symmetric]
      by (simp add: pdcp_data_req_def Let_def bind_Some_pair)
  qed (use s' g in \<open>simp_all add: bearer_entity_def\<close>)
qed

text \<open>
  C3. An SDU of up to 10000 octets crosses two PDCP layers: \<open>pdcp_data_req\<close> at one side hands one PDU to RLC and returns its
  status, and \<open>pdcp_data_ind\<close> at the other side, given those octets in whatever buffer, delivers exactly the SDU to the
  upper layer of the bearer: RRC for a signalling bearer, GTP-U at the eNB and the IP driver at the UE for an
  unacknowledged data bearer. It holds for every supported ciphering and integrity algorithm and without security; the two
  entities stay a pair, so that it holds for the next SDU again, over the wraps of the sequence numbers.
\<close>

theorem pdcp_transfer:
  assumes "ctr_mode (ctr_crypt sops) g" "bearer_entity s c srb rb a e" "bearer_entity t d srb rb b x" "pdcp_pair s t srb e x"
    "0 < rb" "unat rb < (if srb then 3 else 11)" "0 < sz" "sz \<le> 10000" "mode \<noteq> PDCP_TRANSMISSION_MODE_TRANSPARENT"
    "stat_in_range s c srb rb" "rx_ready env d srb rb t"
    and n: "n = pdcp_header_len srb + sz + pdcp_tailer_len srb"
  shows "\<exists>m s' e'. pdcp_data_req sops ops (Some blk) rlc_blk c srb rb mui conf (int sz) sdu mode (s, r) =
      map_option (\<lambda>(status, r'). ((status = RLC_OP_STATUS_OK, Some True), s', r')) (rlc_data_req ops rlc_blk c srb False rb mui conf (int n) (Some m) r)
    \<and> bearer_entity s' c srb rb a e'
    \<and> (\<forall>m'. mem_read m' 0 n = mem_read m 0 n \<longrightarrow> (\<exists>t' x'. pdcp_data_ind sops env d srb False rb n m' t = Some (True, t')
         \<and> delivered env d srb rb (mem_read sdu 0 sz) t t' \<and> bearer_entity t' d srb rb b x' \<and> pdcp_pair s' t' srb e' x'))"
proof -
  have rb: "unat rb < 11" using assms(6) by (auto split: if_splits)
  obtain sn e1 m x2 where p: "pdcp_build_pdu sops s srb mode rb sz sdu e blk = Some (sn, e1, Some m)"
    "opens sops t srb rb (mem_read m 0 n) x x2 (mem_read sdu 0 sz)" "pdcp_pair s t srb e1 x2"
    using pair_step [OF assms(1,4) rb assms(8), of mode sdu blk] n by blast
  obtain s' where s': "pdcp_data_req sops ops (Some blk) rlc_blk c srb rb mui conf (int sz) sdu mode (s, r) =
      map_option (\<lambda>(status, r'). ((status = RLC_OP_STATUS_OK, Some True), s', r')) (rlc_data_req ops rlc_blk c srb False rb mui conf (int n) (Some m) r)"
    "bearer_entity s' c srb rb a e1" "pdcp_keys s' = pdcp_keys s"
    using data_req_builds [OF assms(2,6,7,8,9,10) p(1)] n by metis
  have "\<exists>t' x'. pdcp_data_ind sops env d srb False rb n m' t = Some (True, t') \<and> delivered env d srb rb (mem_read sdu 0 sz) t t'
      \<and> bearer_entity t' d srb rb b x' \<and> pdcp_pair s' t' srb e1 x'" if "mem_read m' 0 n = mem_read m 0 n" for m'
  proof -
    have um: "srb \<or> pdcp_rlc_mode x2 = RLC_MODE_UM" using p(3) by (simp add: pdcp_pair_def)
    have ne: "mem_read sdu 0 sz \<noteq> []" using assms(7) by (metis length_mem_read less_numeral_extra(3) list.size(3))
    have mm: "mem_read m' 0 (length (mem_read m 0 n)) = mem_read m 0 n" using that by simp
    obtain t' where t': "pdcp_data_ind sops env d srb False rb (length (mem_read m 0 n)) m' t = Some (True, t')" "delivered env d srb rb (mem_read sdu 0 sz) t t'"
      "bearer_entity t' d srb rb b x2" "pdcp_keys t' = pdcp_keys t"
      by (rule data_ind_opens [OF p(2) assms(3,5) rb ne assms(11) um mm])
    show ?thesis using t' p(3) pdcp_pair_frame [OF s'(3) t'(4)] by auto
  qed
  then show ?thesis using s' by blast
qed

section \<open>Setting up a bearer\<close>

definition coll_ok :: "pdcp_layer \<Rightarrow> bool" where
  "coll_ok s \<longleftrightarrow> (case pdcp_coll_p s of None \<Rightarrow> False | Some tb \<Rightarrow> ht_ok tb)"

definition coll_map :: "pdcp_layer \<Rightarrow> 64 word \<Rightarrow> nat option option" where
  "coll_map s k = (case pdcp_coll_p s of None \<Rightarrow> None | Some tb \<Rightarrow> ht_map tb k)"

lemma coll_get: "hashtable_get (pdcp_coll_p s) k = (case coll_map s k of None \<Rightarrow> (fst (hashtable_get (pdcp_coll_p s) k), None) | Some d \<Rightarrow> (HASH_TABLE_OK, d))"
  by (auto simp: coll_map_def hashtable_get_def ht_map_def split: option.split)

lemma coll_get_none: "coll_ok s \<Longrightarrow> coll_map s k = None \<Longrightarrow> hashtable_get (pdcp_coll_p s) k = (HASH_TABLE_KEY_NOT_EXISTS, None)"
  by (auto simp: coll_ok_def coll_map_def hashtable_get_def ht_map_def split: option.splits)

lemma pdcp_coll_insert_new:
  assumes ok: "coll_ok s" and none: "coll_map s k = None"
  obtains s' where "pdcp_coll_insert True k a s = Some (HASH_TABLE_OK, s')" "coll_ok s'" "coll_map s' = (coll_map s)(k \<mapsto> Some a)"
    "pdcp_objs s' = pdcp_objs s" "pdcp_keys s' = pdcp_keys s"
proof -
  obtain tb where t: "pdcp_coll_p s = Some tb" "ht_ok tb" using ok by (auto simp: coll_ok_def split: option.splits)
  have n: "ht_map tb k = None" using none t(1) by (simp add: coll_map_def)
  have fr: "freed (ht_put k (Some a) tb) = freed tb"
    using n by (auto simp: ht_put_def hashtable_insert_def ht_map_def Let_def)
  note i = hashtable_insert_eq [OF t(2), of k "Some a"]
  show ?thesis
  proof (rule that [of "s\<lparr>pdcp_coll_p := Some (ht_put k (Some a) tb)\<rparr>"])
    show "pdcp_coll_insert True k a s = Some (HASH_TABLE_OK, s\<lparr>pdcp_coll_p := Some (ht_put k (Some a) tb)\<rparr>)"
      using i(1) n fr t(1) by (simp add: pdcp_coll_insert_def pdcp_set_coll_def ht_freed_def)
  qed (use i t in \<open>auto simp: coll_ok_def coll_map_def\<close>)
qed

text \<open>A request to add the data bearer \<open>rb\<close>, unacknowledged, with the long numbers.\<close>

definition um_drb_request :: "sec_ops \<Rightarrow> 16 word \<Rightarrow> int \<Rightarrow> header_compression \<Rightarrow> pdcp_drb_ToAddMod" where
  "um_drb_request ops rb lc hc = \<lparr>pd_drb_Identity = uint rb, pd_logicalChannelIdentity = Some lc,
     pd_pdcp_Config = Some \<lparr>pc_rlc_AM = None, pc_rlc_UM = Some (len12bits ops), pc_headerCompression = hc\<rparr>\<rparr>"

definition station_ok :: "protocol_ctxt \<Rightarrow> bool" where
  "station_ok c \<longleftrightarrow> unat (module_id c) < (if enb_flag c then MAX_NUM_CCs else MAX_MOBILES)"

definition cfg_ok :: "cfg_env \<Rightarrow> bool" where
  "cfg_ok env \<longleftrightarrow> (\<forall>a. cfg_calloc_ok env a \<and> cfg_node_ok env a \<and> cfg_default_ok env a)"

lemma register_station_ok:
  assumes "station_ok c"
  obtains s' where "register_station c srb s = Some s'" "pdcp_coll_p s' = pdcp_coll_p s" "pdcp_objs s' = pdcp_objs s" "pdcp_keys s' = pdcp_keys s"
proof (cases "enb_flag c")
  case True
  then have m: "unat (module_id c) < 1" using assms by (simp add: station_ok_def)
  obtain s1 where "pdcp_add_UE c s = Some s1" "pdcp_coll_p s1 = pdcp_coll_p s" "pdcp_objs s1 = pdcp_objs s" "pdcp_keys s1 = pdcp_keys s"
  proof -
    have "\<exists>s1. pdcp_add_UE c s = Some s1 \<and> pdcp_coll_p s1 = pdcp_coll_p s \<and> pdcp_objs s1 = pdcp_objs s \<and> pdcp_keys s1 = pdcp_keys s"
      using m by (simp add: pdcp_add_UE_def Let_def upd_enb_def)
    then show thesis using that by blast
  qed
  then show ?thesis using that [of "if srb then s1 else add_instance c s1"] True by (simp add: register_station_def add_instance_def)
next
  case False
  then show ?thesis using that assms by (simp add: register_station_def station_ok_def)
qed

lemma um_drb_added:
  assumes ok: "coll_ok s" "coll_map s (PDCP_COLL_KEY_VALUE c rb False) = None" and c: "station_ok c" "cfg_ok env"
    and rb: "unat rb < 11" and lc: "lc \<noteq> 1" "lc \<noteq> 2"
  obtains s' cfg where "rrc_pdcp_config_asn1_req ops env c [] [um_drb_request ops rb lc hc] [] ks [] None s = Some (False, s')"
    "bearer_entity s' c False rb (pdcp_brk s) (entity_added ops c False cfg ks pdcp_zero)" "pdcp_keys s' = pdcp_keys s"
    "cfg_rlc_mode cfg = RLC_MODE_UM" "cfg_rb_sn cfg = len12bits ops"
proof -
  let ?k = "PDCP_COLL_KEY_VALUE c rb False" and ?a = "pdcp_brk s"
  let ?s1 = "(pdcp_store ?a pdcp_zero s)\<lparr>pdcp_brk := Suc ?a\<rparr>"
  have o1: "coll_ok ?s1" "coll_map ?s1 = coll_map s" using ok(1) by (simp_all add: coll_ok_def coll_map_def pdcp_store_def fun_eq_iff)
  obtain s2 where s2: "pdcp_coll_insert True ?k ?a ?s1 = Some (HASH_TABLE_OK, s2)" "coll_map s2 = (coll_map s)(?k \<mapsto> Some ?a)"
    "pdcp_objs s2 = pdcp_objs ?s1" "pdcp_keys s2 = pdcp_keys ?s1"
    by (rule pdcp_coll_insert_new [OF o1(1), of ?k ?a]) (use o1(2) ok(2) in simp_all)
  have f2: "pdcp_objs s2 ?a = Some pdcp_zero" "pdcp_keys s2 = pdcp_keys s" using s2(3,4) by (simp_all add: pdcp_store_def)
  have "uint rb = int (unat rb)" by simp
  then have w: "word_of_int (uint rb) = rb" "uint rb < 11" using rb by (simp, linarith)
  have add: "add_drb env c None rb s = Some ((?a, True), s2)" using c(2) s2(1) by (simp add: add_drb_def new_entity_def cfg_ok_def Let_def)
  obtain s3 where s3: "register_station c False s2 = Some s3" "pdcp_coll_p s3 = pdcp_coll_p s2" "pdcp_objs s3 = pdcp_objs s2" "pdcp_keys s3 = pdcp_keys s2"
    using register_station_ok [OF c(1)] by blast
  let ?v = "drb_vars ops \<lparr>pc_rlc_AM = None, pc_rlc_UM = Some (len12bits ops), pc_headerCompression = hc\<rparr>
     \<lparr>v_pdcp_p = Some ?a, v_rlc_type = RLC_MODE_NONE, v_drb_sn = 12, v_drb_report = 0, v_profile = 0\<rparr>"
  let ?cfg = "\<lparr>cfg_rlc_mode = v_rlc_type ?v, cfg_lc_id = word_of_int lc, cfg_mch_id = 0, cfg_rb_id = rb,
                         cfg_rb_sn = v_drb_sn ?v, cfg_rb_report = v_drb_report ?v, cfg_profile = v_profile ?v\<rparr>"
  let ?s4 = "pdcp_store ?a (entity_added ops c False ?cfg ks pdcp_zero) s3"
  have "pdcp_config_req_asn1 ops n c (Some ?a) False CONFIG_ACTION_ADD ?cfg ks s2 = Some ?s4" for n
    using f2(1) s3(1) by (simp add: pdcp_config_req_asn1_def pdcp_deref_def)
  then have "pdcp_config_drb ops env c None ks (um_drb_request ops rb lc hc)
      (False, \<lparr>v_pdcp_p = None, v_rlc_type = RLC_MODE_NONE, v_drb_sn = 12, v_drb_report = 0, v_profile = 0\<rparr>, s) = Some (False, ?v, ?s4)"
    using add w lc coll_get_none [OF ok] by (simp add: pdcp_config_drb_def um_drb_request_def Let_def)
  then have "rrc_pdcp_config_asn1_req ops env c [] [um_drb_request ops rb lc hc] [] ks [] None s = Some (False, ?s4)"
    by (simp add: rrc_pdcp_config_asn1_req_def)
  moreover have "bearer_entity ?s4 c False rb ?a (entity_added ops c False ?cfg ks pdcp_zero)"
  proof -
    have "coll_map ?s4 = coll_map s2" using s3(2) by (intro ext) (simp add: coll_map_def pdcp_store_def)
    then have "coll_map ?s4 ?k = Some (Some ?a)" using s2(2) by simp
    then show ?thesis using coll_get [of ?s4 ?k] by (simp add: bearer_entity_def pdcp_store_def)
  qed
  moreover have "pdcp_keys ?s4 = pdcp_keys s" using s3(4) f2(2) by (simp add: pdcp_store_def)
  ultimately show ?thesis using that [of ?s4 ?cfg] by (simp add: drb_vars_def Let_def)
qed

text \<open>The keys both sides have derived.\<close>

definition keys_agree :: "pdcp_layer \<Rightarrow> sec_keys \<Rightarrow> pdcp_layer \<Rightarrow> sec_keys \<Rightarrow> bool" where
  "keys_agree s ks t kt \<longleftrightarrow> k_mode kt = k_mode ks \<and> sec_key s (k_UPenc ks) 0 \<noteq> None \<and> sec_key t (k_UPenc kt) 0 = sec_key s (k_UPenc ks) 0
     \<and> sec_key t (k_RRCint kt) 16 = sec_key s (k_RRCint ks) 16"

lemma added_pair:
  assumes k: "keys_agree s ks t kt" and f: "enb_flag d = (\<not> enb_flag c)"
    and cf: "cfg_rlc_mode cfg = RLC_MODE_UM" "cfg_rb_sn cfg = len12bits ops" "cfg_rlc_mode cfg' = RLC_MODE_UM" "cfg_rb_sn cfg' = len12bits ops"
  shows "pdcp_pair s t False (entity_added ops c False cfg ks pdcp_zero) (entity_added ops d False cfg' kt pdcp_zero)"
proof -
  let ?e = "entity_added ops c False cfg ks pdcp_zero" and ?x = "entity_added ops d False cfg' kt pdcp_zero"
  have e: "pdcp_entity_ok ?e" "seq_num_size ?e = 12" "tx_count ?e = 0" "sn_bits ?e = 12" "rx_count ?e = 0"
    using cf by (simp_all add: entity_added_def pdcp_config_set_security_def Let_def pdcp_zero_def sn_size_of_def pdcp_entity_ok_def pdcp_is_seq_num_size_valid_def
      sn_bits_def tx_count_def rx_count_def)
  have x: "pdcp_entity_ok ?x" "seq_num_size ?x = 12" "rx_count ?x = 0" "pdcp_rlc_mode ?x = RLC_MODE_UM" "rx_hfn_offset ?x = 0"
    using cf by (simp_all add: entity_added_def pdcp_config_set_security_def Let_def pdcp_zero_def sn_size_of_def pdcp_entity_ok_def pdcp_is_seq_num_size_valid_def
      sn_bits_def tx_count_def rx_count_def)
  have "same_security s t False ?e ?x"
    using k f by (auto simp: same_security_def keys_agree_def entity_added_def pdcp_config_set_security_def Let_def pdcp_zero_def sec_key_def)
  then show ?thesis using e x by (simp add: pdcp_pair_def)
qed

text \<open>
  C4. RRC requests at the two sides that add an unacknowledged data bearer with the long numbers and the same keys succeed on
  layers that do not have the bearer yet; the entities they create are found under the bearer and form a pair in both
  directions, whatever the security mode.
\<close>

theorem pdcp_bearer_setup:
  assumes "coll_ok s" "coll_map s (PDCP_COLL_KEY_VALUE c rb False) = None" "station_ok c" "cfg_ok env"
    "coll_ok t" "coll_map t (PDCP_COLL_KEY_VALUE d rb False) = None" "station_ok d" "cfg_ok env'"
    "enb_flag d = (\<not> enb_flag c)" "unat rb < 11" "lc \<noteq> 1" "lc \<noteq> 2" "keys_agree s ks t kt"
  shows "\<exists>s' e t' x. rrc_pdcp_config_asn1_req ops env c ([] :: 'aa srb_ToAddMod list) [um_drb_request ops rb lc hc] [] ks [] None s = Some (False, s')
    \<and> rrc_pdcp_config_asn1_req ops env' d ([] :: 'aa srb_ToAddMod list) [um_drb_request ops rb lc hc] [] kt [] None t = Some (False, t')
    \<and> bearer_entity s' c False rb (pdcp_brk s) e \<and> bearer_entity t' d False rb (pdcp_brk t) x \<and> pdcp_pair s' t' False e x \<and> pdcp_pair t' s' False x e"
proof -
  obtain s' cfg where s': "rrc_pdcp_config_asn1_req ops env c ([] :: 'aa srb_ToAddMod list) [um_drb_request ops rb lc hc] [] ks [] None s = Some (False, s')"
    "bearer_entity s' c False rb (pdcp_brk s) (entity_added ops c False cfg ks pdcp_zero)" "pdcp_keys s' = pdcp_keys s"
    "cfg_rlc_mode cfg = RLC_MODE_UM" "cfg_rb_sn cfg = len12bits ops"
    by (rule um_drb_added [OF assms(1-4,10-12)])
  obtain t' cfg' where t': "rrc_pdcp_config_asn1_req ops env' d ([] :: 'aa srb_ToAddMod list) [um_drb_request ops rb lc hc] [] kt [] None t = Some (False, t')"
    "bearer_entity t' d False rb (pdcp_brk t) (entity_added ops d False cfg' kt pdcp_zero)" "pdcp_keys t' = pdcp_keys t"
    "cfg_rlc_mode cfg' = RLC_MODE_UM" "cfg_rb_sn cfg' = len12bits ops"
    by (rule um_drb_added [OF assms(5-8,10-12)])
  have k: "keys_agree s' ks t' kt" "keys_agree t' kt s' ks"
    using assms(13) sec_key_frame [OF s'(3)] sec_key_frame [OF t'(3)] by (auto simp: keys_agree_def)
  have f: "enb_flag c = (\<not> enb_flag d)" using assms(9) by simp
  show ?thesis using s'(1,2) t'(1,2) added_pair [OF k(1) assms(9) s'(4,5) t'(4,5)] added_pair [OF k(2) f t'(4,5) s'(4,5)] by blast
qed

text \<open>A layer after \<open>pdcp_layer_init\<close>, with a key at address 0.\<close>

definition idle_layer :: pdcp_layer where
  "idle_layer = \<lparr>pdcp_coll_p = Some \<lparr>ht_size = 208, num_elements = 0, nodes = replicate 208 [], hashfunc = def_hashfunc, freed = []\<rparr>,
     pdcp_objs = Map.empty, pdcp_brk = 0, pdcp_keys = [0 \<mapsto> (\<lambda>i. of_nat i)],
     pdcp_enbs = (\<lambda>_. \<lparr>enb_uid = (\<lambda>_. 0), enb_rnti = (\<lambda>_. 0), enb_num_ues = 0, enb_sfn = 0\<rparr>),
     pdcp_UE_UE_module_id_to_rnti = (\<lambda>_. 0), pdcp_eNB_UE_instance_to_rnti = (\<lambda>_. 0), pdcp_eNB_UE_instance_to_rnti_index = 0,
     pdcp_mbms_array_ue = (\<lambda>_ _ _. (False, 0)), pdcp_mbms_array_eNB = (\<lambda>_ _ _. (False, 0)),
     Pdcp_stats_tx = (\<lambda>_ _ _. counters_zero), Pdcp_stats_rx = (\<lambda>_ _ _. counters_zero),
     Pdcp_stats_tx_window_ms = (\<lambda>_ _. 100), Pdcp_stats_rx_window_ms = (\<lambda>_ _. 100),
     pdcp_sdu_list = [], rrc_ind_log = [], gtpu_log = []\<rparr>"

lemma idle_layer: "coll_ok idle_layer" "coll_map idle_layer k = None" "pdcp_keys idle_layer = [0 \<mapsto> (\<lambda>i. of_nat i)]" "pdcp_brk idle_layer = 0"
proof -
  let ?t = "\<lparr>ht_size = 208, num_elements = 0, nodes = replicate 208 [], hashfunc = def_hashfunc, freed = []\<rparr> :: nat hash_table"
  have ok: "ht_ok ?t" by (simp add: ht_ok_def)
  then show "coll_ok idle_layer" by (simp add: coll_ok_def idle_layer_def)
  have "slot ?t k < 208" using slot_less(1) [OF ok, of k] by simp
  then show "coll_map idle_layer k = None" by (simp add: coll_map_def idle_layer_def ht_map_def)
qed (simp_all add: idle_layer_def)

definition demo_ops :: sec_ops where
  "demo_ops = \<lparr>ctr_crypt = demo_ctr, cmac_aes = (\<lambda>k m. replicate 16 0), len7bits = 0, len12bits = 1\<rparr>"

definition demo_keys :: sec_keys where
  "demo_keys = \<lparr>k_mode = 2, k_RRCenc = None, k_RRCint = None, k_UPenc = Some 0\<rparr>"

definition demo_ctxt :: "bool \<Rightarrow> protocol_ctxt" where
  "demo_ctxt eNB = \<lparr>module_id = 0, enb_flag = eNB, rnti = 7, frame = 0, subframe = 0\<rparr>"

definition demo_cfg_env :: cfg_env where
  "demo_cfg_env = \<lparr>cfg_calloc_ok = (\<lambda>_. True), cfg_node_ok = (\<lambda>_. True), cfg_default_ok = (\<lambda>_. True), cfg_nb_eNB_max = 1\<rparr>"

text \<open>A bearer in place, for the UE 7.\<close>

definition bearer_layer :: "protocol_ctxt \<Rightarrow> bool \<Rightarrow> 16 word \<Rightarrow> pdcp_t \<Rightarrow> pdcp_layer" where
  "bearer_layer c srb rb e = idle_layer\<lparr>pdcp_coll_p := Some (ht_put (PDCP_COLL_KEY_VALUE c rb srb) (Some 0) (the (pdcp_coll_p idle_layer))),
     pdcp_objs := [0 \<mapsto> e], pdcp_brk := 1, pdcp_enbs := (\<lambda>_. \<lparr>enb_uid = (\<lambda>_. 0), enb_rnti = (\<lambda>_. 7), enb_num_ues = 1, enb_sfn = 0\<rparr>)\<rparr>"

lemma bearer_layer: "bearer_entity (bearer_layer c srb rb e) c srb rb 0 e"
proof -
  obtain tb where tb: "pdcp_coll_p idle_layer = Some tb" "ht_ok tb" using idle_layer(1) by (auto simp: coll_ok_def split: option.splits)
  have "coll_map (bearer_layer c srb rb e) (PDCP_COLL_KEY_VALUE c rb srb) = Some (Some 0)"
    using tb(1) hashtable_insert_eq(3) [OF tb(2)] by (simp add: coll_map_def bearer_layer_def)
  then show ?thesis
    using coll_get [of "bearer_layer c srb rb e" "PDCP_COLL_KEY_VALUE c rb srb"] by (simp add: bearer_entity_def) (simp add: bearer_layer_def)
qed

definition drb_layer :: "bool \<Rightarrow> pdcp_layer" where
  "drb_layer eNB = bearer_layer (demo_ctxt eNB) False 1 (entity_added demo_ops (demo_ctxt eNB) False
     \<lparr>cfg_rlc_mode = RLC_MODE_UM, cfg_lc_id = 3, cfg_mch_id = 0, cfg_rb_id = 1, cfg_rb_sn = 1, cfg_rb_report = 0, cfg_profile = 0\<rparr> demo_keys pdcp_zero)"

lemma demo_keys_agree: "keys_agree idle_layer demo_keys idle_layer demo_keys"
  by (simp add: keys_agree_def demo_keys_def sec_key_def idle_layer)

lemma drb_layer:
  obtains e x where "bearer_entity (drb_layer True) (demo_ctxt True) False 1 0 e" "bearer_entity (drb_layer False) (demo_ctxt False) False 1 0 x"
    "pdcp_pair (drb_layer True) (drb_layer False) False e x"
proof -
  let ?c = "\<lparr>cfg_rlc_mode = RLC_MODE_UM, cfg_lc_id = 3, cfg_mch_id = 0, cfg_rb_id = 1, cfg_rb_sn = 1, cfg_rb_report = 0, cfg_profile = 0\<rparr>"
  let ?e = "\<lambda>b. entity_added demo_ops (demo_ctxt b) False ?c demo_keys pdcp_zero"
  have b: "bearer_entity (drb_layer b) (demo_ctxt b) False 1 0 (?e b)" for b by (simp add: drb_layer_def bearer_layer)
  have k: "pdcp_keys (drb_layer b) = pdcp_keys idle_layer" for b by (simp add: drb_layer_def bearer_layer_def)
  have "keys_agree (drb_layer True) demo_keys (drb_layer False) demo_keys"
    using demo_keys_agree sec_key_frame [OF k] by (simp add: keys_agree_def)
  then have "pdcp_pair (drb_layer True) (drb_layer False) False (?e True) (?e False)"
    by (rule added_pair) (simp_all add: demo_ctxt_def demo_ops_def)
  then show ?thesis using that b by blast
qed

theorem pdcp_transfer_witness:
  "let sdu = (\<lambda>i. of_nat i + 65) :: mem; env = \<lparr>otg_enabled = False, gtpu_malloc_ok = True, ind_blk_ok = True, nfapi_mode_3 = False\<rparr> in
   \<exists>m s' t'. pdcp_data_req demo_ops no_am (Some (\<lambda>_. 0)) (Some (\<lambda>_. 0)) (demo_ctxt True) False 1 0 0 3 sdu PDCP_TRANSMISSION_MODE_DATA (drb_layer True, empty_layer 208) =
       map_option (\<lambda>(status, r'). ((status = RLC_OP_STATUS_OK, Some True), s', r'))
         (rlc_data_req no_am (Some (\<lambda>_. 0)) (demo_ctxt True) False False 1 0 0 5 (Some m) (empty_layer 208))
     \<and> pdcp_data_ind demo_ops env (demo_ctxt False) False False 1 5 m (drb_layer False) = Some (True, t') \<and> map ind_data (pdcp_sdu_list t') = [[65, 66, 67]]"
proof -
  let ?env = "\<lparr>otg_enabled = False, gtpu_malloc_ok = True, ind_blk_ok = True, nfapi_mode_3 = False\<rparr>" and ?sdu = "(\<lambda>i. of_nat i + 65) :: mem"
  obtain e x where b: "bearer_entity (drb_layer True) (demo_ctxt True) False 1 0 e" "bearer_entity (drb_layer False) (demo_ctxt False) False 1 0 x"
    "pdcp_pair (drb_layer True) (drb_layer False) False e x" by (rule drb_layer)
  have c: "ctr_mode (ctr_crypt demo_ops) (\<lambda>k b n. replicate n 0x5A)" by (simp add: ctr_mode_def demo_ctr_def demo_ops_def)
  have st: "stat_in_range (drb_layer b) (demo_ctxt b') False 1" for b b'
    by (simp add: stat_in_range_def pdcp_uid_def drb_layer_def bearer_layer_def demo_ctxt_def stat_rb_def upt_rec)
  have rdy: "rx_ready ?env (demo_ctxt False) False 1 (drb_layer False)" using st by (simp add: rx_ready_def)
  have n: "5 = pdcp_header_len False + 3 + pdcp_tailer_len False" by (simp add: pdcp_header_len_def pdcp_tailer_len_def)
  have r: "mem_read ?sdu 0 3 = [65, 66, 67]" by (simp add: mem_read_def numeral_3_eq_3)
  obtain m s' where m: "pdcp_data_req demo_ops no_am (Some (\<lambda>_. 0)) (Some (\<lambda>_. 0)) (demo_ctxt True) False 1 0 0 (int 3) ?sdu PDCP_TRANSMISSION_MODE_DATA (drb_layer True, empty_layer 208) =
       map_option (\<lambda>(status, r'). ((status = RLC_OP_STATUS_OK, Some True), s', r'))
         (rlc_data_req no_am (Some (\<lambda>_. 0)) (demo_ctxt True) False False 1 0 0 (int 5) (Some m) (empty_layer 208))"
    "\<exists>e'. \<forall>m'. mem_read m' 0 5 = mem_read m 0 5 \<longrightarrow> (\<exists>t' x'. pdcp_data_ind demo_ops ?env (demo_ctxt False) False False 1 5 m' (drb_layer False) = Some (True, t')
         \<and> delivered ?env (demo_ctxt False) False 1 (mem_read ?sdu 0 3) (drb_layer False) t' \<and> bearer_entity t' (demo_ctxt False) False 1 0 x' \<and> pdcp_pair s' t' False e' x')"
    using pdcp_transfer [OF c b _ _ _ _ _ st rdy n, of PDCP_TRANSMISSION_MODE_DATA no_am "\<lambda>_. 0" "Some (\<lambda>_. 0)" 0 0 ?sdu "empty_layer 208"] by auto
  then obtain t' where t': "pdcp_data_ind demo_ops ?env (demo_ctxt False) False False 1 5 m (drb_layer False) = Some (True, t')"
    "delivered ?env (demo_ctxt False) False 1 (mem_read ?sdu 0 3) (drb_layer False) t'" by blast
  have "map ind_data (pdcp_sdu_list t') = [[65, 66, 67]]"
    using t'(2) r by (simp add: delivered_def demo_ctxt_def drb_layer_def bearer_layer_def idle_layer_def)
  then show ?thesis using m(1) t'(1) by (auto simp: Let_def)
qed

theorem pdcp_bearer_setup_witness:
  "\<exists>s' e t' x. rrc_pdcp_config_asn1_req demo_ops demo_cfg_env (demo_ctxt True) ([] :: unit srb_ToAddMod list) [um_drb_request demo_ops 1 3 HC_notUsed] [] demo_keys [] None idle_layer = Some (False, s')
    \<and> rrc_pdcp_config_asn1_req demo_ops demo_cfg_env (demo_ctxt False) ([] :: unit srb_ToAddMod list) [um_drb_request demo_ops 1 3 HC_notUsed] [] demo_keys [] None idle_layer = Some (False, t')
    \<and> pdcp_pair s' t' False e x"
proof -
  note demo_keys_agree
  moreover have "station_ok (demo_ctxt b)" for b by (simp add: station_ok_def demo_ctxt_def)
  moreover have "cfg_ok demo_cfg_env" by (simp add: cfg_ok_def demo_cfg_env_def)
  moreover have "enb_flag (demo_ctxt False) = (\<not> enb_flag (demo_ctxt True))" by (simp add: demo_ctxt_def)
  ultimately show ?thesis
    using pdcp_bearer_setup [where 'aa = unit, of idle_layer "demo_ctxt True" 1 demo_cfg_env idle_layer "demo_ctxt False" demo_cfg_env 3 demo_keys demo_keys demo_ops HC_notUsed] idle_layer
    by auto
qed

section \<open>What the layer does not protect\<close>

lemma data_ind_receive:
  assumes "bearer_entity t d srb rb b x" "0 < rb" "unat rb < 11" "0 < n"
  shows "pdcp_data_ind ops env d srb False rb n m t = pdcp_receive ops env d srb rb rb n m (b, x) t"
proof -
  have rb: "rb mod 11 = rb" using assms(3) by (simp add: word_unat_eq_iff unat_mod)
  have rb0: "rb \<noteq> 0" using assms(2) by auto
  have g: "hashtable_get (pdcp_coll_p t) (PDCP_COLL_KEY_VALUE d rb srb) = (HASH_TABLE_OK, Some b)" "pdcp_objs t b = Some x"
    using assms(1) by (auto simp: bearer_entity_def)
  then have "pdcp_deref t (Some b) = Some (b, x)" by (simp add: pdcp_deref_def)
  then show ?thesis using rb rb0 g assms(4) by (simp add: pdcp_data_ind_def Let_def)
qed

lemma srb_received:
  assumes ctr: "ctr_mode (ctr_crypt ops) g" and rb: "unat rb < 11" and n: "n \<le> 10000"
    and ok: "pdcp_entity_ok x" "seq_num_size x = 5" and sec: "security_activated x = 1"
    and kc: "cipheringAlgorithm x \<in> {1, 2} \<Longrightarrow> sec_key t (kRRCenc x) 0 \<noteq> None"
    and ki: "integrityProtAlgorithm x \<in> {1, 2} \<Longrightarrow> sec_key t (kRRCint x) 16 \<noteq> None"
    and eq: "\<And>i. i < n + 1 \<Longrightarrow> m' i = m i"
  shows "\<exists>x1 t'. pdcp_is_rx_seq_number_valid (ucast (m 0 AND 0x1F)) (Some x) True = (True, Some x1)
    \<and> pdcp_receive ops env d True rb rb (n + 5) m (b, x) t = Some (True, t') \<and> pdcp_receive ops env d True rb rb (n + 5) m' (b, x) t = Some (True, t')
    \<and> t' = (pdcp_store b (x1\<lparr>rx_hfn_offset := 0\<rparr>) t)\<lparr>rrc_ind_log := rrc_ind_log t @ [(rb, mem_read (mem_xor m 1
          (cipher_stream g (cipheringAlgorithm x1) (rx_params ops t x1 True rb 1 (ucast (m 0 AND 0x1F)) n))) 1 n)]\<rparr>"
proof -
  define sn :: "16 word" where "sn = ucast (m 0 AND 0x1F)"
  have p: "pdcp_parse_header True x m = (1, sn)" "pdcp_parse_header True x m' = (1, sn)"
    using eq [of 0] by (simp_all add: pdcp_parse_header_def sn_def pdcp_get_sequence_number_of_pdu_with_SRB_sn_def)
  have "uint (m 0 AND 0x1F) < 2 ^ 5"
    using take_bit_int_less_exp [of 5 "uint (m 0)"] by (simp add: byte_masks take_bit_eq_mask [symmetric] unsigned_take_bit_eq)
  then have s5: "uint sn < 2 ^ 5" by (simp add: sn_def unsigned_ucast_eq take_bit_int_eq_self)
  have v: "pdcp_is_seq_num_size_valid (Some x)" using ok(1) by (simp add: pdcp_entity_ok_def)
  have "pdcp_is_seq_num_valid sn (seq_num_size x)" using seq_num_valid_iff [OF v, of sn] s5 ok(2) by (simp add: sn_bits_def)
  then obtain x1 where x1: "pdcp_is_rx_seq_number_valid sn (Some x) True = (True, Some x1)"
    using v by (auto simp: pdcp_is_rx_seq_number_valid_def Let_def map_prod_def pdcp_rx_srb_def)
  have cx: "entity_cfg x1 = entity_cfg x" by (rule rx_valid_cfg [OF x1])
  let ?k = "cipher_stream g (cipheringAlgorithm x1) (rx_params ops t x1 True rb 1 sn n)"
  have vs: "\<exists>rc. pdcp_validate_security ops t x1 True rb 1 sn mm (1 + n) = Some (rc, x1\<lparr>rx_hfn_offset := 0\<rparr>, mem_xor mm 1 ?k)" for mm
    using validate_security [OF ctr, of rb n 1 x1 t True sn mm] rb n kc ki cx by (simp add: entity_cfg_eq)
  have sx: "security_activated x1 = 1" using cx sec by (simp add: entity_cfg_eq)
  have rcv: "pdcp_receive ops env d True rb rb (n + 5) mm (b, x) t =
      Some (True, (pdcp_store b (x1\<lparr>rx_hfn_offset := 0\<rparr>) t)\<lparr>rrc_ind_log := rrc_ind_log t @ [(rb, mem_read (mem_xor mm 1 ?k) 1 n)]\<rparr>)"
    if "pdcp_parse_header True x mm = (1, sn)" for mm
    using that vs [of mm] x1 sx by (auto simp: pdcp_receive_def Let_def pdcp_tailer_len_def)
  have "mem_read (mem_xor m' 1 ?k) 1 n = mem_read (mem_xor m 1 ?k) 1 n"
    by (rule nth_equalityI) (use eq in \<open>simp_all add: mem_xor_apply\<close>)
  then show ?thesis using rcv [OF p(1)] rcv [OF p(2)] x1 unfolding sn_def by (intro exI [of _ x1]) simp
qed

text \<open>
  C6. The integrity code of a signalling message has no effect: two PDUs of a secured signalling bearer that agree in header
  and message, whatever their MAC-I, are both accepted and leave the same state, in which RRC has been handed the deciphered
  message (the received octets after the header exclusive-or the key stream of the COUNT of the received number) and the
  entity is the one the sequence number check leaves. \<open>pdcp_data_ind\<close> does not look at the result of
  \<open>pdcp_validate_security\<close>.
\<close>

theorem pdcp_srb_mac_ignored:
  assumes "ctr_mode (ctr_crypt ops) g" "bearer_entity t d True rb b x" "0 < rb" "unat rb < 11" "n \<le> 10000"
    "pdcp_entity_ok x" "seq_num_size x = 5" "security_activated x = 1"
    "cipheringAlgorithm x \<in> {1, 2} \<Longrightarrow> sec_key t (kRRCenc x) 0 \<noteq> None" "integrityProtAlgorithm x \<in> {1, 2} \<Longrightarrow> sec_key t (kRRCint x) 16 \<noteq> None"
    "mem_read m' 0 (n + 1) = mem_read m 0 (n + 1)"
  shows "\<exists>x1 t'. pdcp_data_ind ops env d True False rb (n + 5) m t = Some (True, t') \<and> pdcp_data_ind ops env d True False rb (n + 5) m' t = Some (True, t')
    \<and> rrc_ind_log t' = rrc_ind_log t @ [(rb, mem_read (mem_xor m 1
          (cipher_stream g (cipheringAlgorithm x1) (rx_params ops t x1 True rb 1 (ucast (m 0 AND 0x1F)) n))) 1 n)]
    \<and> pdcp_is_rx_seq_number_valid (ucast (m 0 AND 0x1F)) (Some x) True = (True, Some x1) \<and> bearer_entity t' d True rb b (x1\<lparr>rx_hfn_offset := 0\<rparr>)"
proof -
  have "m' i = m i" if "i < n + 1" for i using that mem_read_eqD [OF assms(11)] by simp
  then obtain x1 t' where *: "pdcp_is_rx_seq_number_valid (ucast (m 0 AND 0x1F)) (Some x) True = (True, Some x1)"
    "pdcp_receive ops env d True rb rb (n + 5) m (b, x) t = Some (True, t')" "pdcp_receive ops env d True rb rb (n + 5) m' (b, x) t = Some (True, t')"
    "t' = (pdcp_store b (x1\<lparr>rx_hfn_offset := 0\<rparr>) t)\<lparr>rrc_ind_log := rrc_ind_log t @ [(rb, mem_read (mem_xor m 1
          (cipher_stream g (cipheringAlgorithm x1) (rx_params ops t x1 True rb 1 (ucast (m 0 AND 0x1F)) n))) 1 n)]\<rparr>"
    using srb_received [OF assms(1,4-10), of m' m env d b] by blast
  have "bearer_entity t' d True rb b (x1\<lparr>rx_hfn_offset := 0\<rparr>)" using assms(2) *(4) by (simp add: bearer_entity_def pdcp_store_def)
  moreover have "rrc_ind_log t' = rrc_ind_log t @ [(rb, mem_read (mem_xor m 1
          (cipher_stream g (cipheringAlgorithm x1) (rx_params ops t x1 True rb 1 (ucast (m 0 AND 0x1F)) n))) 1 n)]"
    using *(4) by simp
  ultimately show ?thesis using *(1-3) data_ind_receive [OF assms(2-4)] by auto
qed

text \<open>An acknowledged data bearer of the eNB: the last submitted number keeps its initial value.\<close>

definition am_drb :: "pdcp_layer \<Rightarrow> protocol_ctxt \<Rightarrow> 16 word \<Rightarrow> nat \<Rightarrow> bool" where
  "am_drb t d rb b \<longleftrightarrow> (\<exists>x. bearer_entity t d False rb b x \<and> pdcp_rlc_mode x = RLC_MODE_AM \<and> seq_num_size x = 12
     \<and> last_submitted_pdcp_rx_sn x = 4095)"

lemma rx_valid_last: "pdcp_is_rx_seq_number_valid sn (Some x) False = (ok, Some x') \<Longrightarrow> last_submitted_pdcp_rx_sn x' = last_submitted_pdcp_rx_sn x"
  by (auto simp: pdcp_is_rx_seq_number_valid_def Let_def map_prod_def pdcp_rx_drb_am_def pdcp_rx_drb_um_def mark_received_eq pdcp_rx_window_next_def
      pdcp_advance_rx_window_def split: if_splits rlc_mode.splits prod.splits)

lemma validate_entity: "pdcp_validate_security ops t x srb rb h sn m n = Some (rc, x', m') \<Longrightarrow> x' = x\<lparr>rx_hfn_offset := 0\<rparr>"
  by (auto simp: pdcp_validate_security_def pdcp_get_next_count_rx_def Let_def split: if_splits option.splits prod.splits)

lemma am_drb_store:
  assumes "bearer_entity t d False rb b x" "pdcp_rlc_mode x' = RLC_MODE_AM" "seq_num_size x' = 12" "last_submitted_pdcp_rx_sn x' = 4095"
  shows "am_drb (pdcp_store b x' t) d rb b"
  using assms by (auto simp: am_drb_def bearer_entity_def pdcp_store_def)

lemma am_drb_ind:
  assumes am: "am_drb t d rb b" and eNB: "enb_flag d" and rb: "0 < rb" "unat rb < 11" and i: "pdcp_data_ind ops env d False False rb n m t = Some (ok, t')"
  shows "am_drb t' d rb b"
proof (cases "n = 0")
  case True
  then show ?thesis using am i by (auto simp: pdcp_data_ind_def Let_def split: if_splits prod.splits option.splits)
next
  case False
  obtain x where x: "bearer_entity t d False rb b x" "pdcp_rlc_mode x = RLC_MODE_AM" "seq_num_size x = 12" "last_submitted_pdcp_rx_sn x = 4095"
    using am by (auto simp: am_drb_def)
  have r: "pdcp_receive ops env d False rb rb n m (b, x) t = Some (ok, t')" using i data_ind_receive [OF x(1) rb] False by simp
  obtain h sn where p: "pdcp_parse_header False x m = (h, sn)" by fastforce
  obtain v x1 where v: "pdcp_is_rx_seq_number_valid sn (Some x) False = (v, Some x1)"
    by (cases "pdcp_is_rx_seq_number_valid sn (Some x) False") (auto simp: pdcp_is_rx_seq_number_valid_def Let_def map_prod_def split: if_splits rlc_mode.splits prod.splits)
  have x1: "pdcp_rlc_mode x1 = RLC_MODE_AM" "seq_num_size x1 = 12" "last_submitted_pdcp_rx_sn x1 = 4095"
    using rx_valid_cfg [OF v] rx_valid_last [OF v] x by (auto simp: entity_cfg_eq)
  consider "t' = t" | "t' = pdcp_store b x1 t"
    | x2 m2 where "(if security_activated x1 = 1 then map_option snd (pdcp_validate_security ops t x1 False rb h sn m n) else Some (x1, m)) = Some (x2, m2)"
        "pdcp_deliver env d False rb rb (Some (b, x2)) sn h n m2 (pdcp_store b x2 t) = Some (ok, t')"
    using r p v by (cases v) (auto simp: pdcp_receive_def Let_def pdcp_tailer_len_def split: if_splits option.splits Option.bind_splits prod.splits)
  then show ?thesis
  proof cases
    case 1 then show ?thesis using am by simp
  next
    case 2 then show ?thesis using am_drb_store [OF x(1) x1] by simp
  next
    case (3 x2 m2)
    have "x2 = x1 \<or> x2 = x1\<lparr>rx_hfn_offset := 0\<rparr>" using 3(1) validate_entity [of ops t x1 False rb h sn m n] by (auto split: if_splits)
    then have "am_drb (pdcp_store b x2 t) d rb b" by (intro am_drb_store [OF x(1)]) (use x1 in auto)
    moreover have "pdcp_coll_p t' = pdcp_coll_p (pdcp_store b x2 t) \<and> pdcp_objs t' = pdcp_objs (pdcp_store b x2 t)"
      using 3(2) eNB by (simp add: pdcp_deliver_def Let_def split: if_splits) auto
    ultimately show ?thesis by (simp add: am_drb_def bearer_entity_def)
  qed
qed

text \<open>
  C7. On an acknowledged data bearer of the eNB every PDU with a number of 2048 or more is discarded, whatever was received
  before: the last submitted number, which the window test uses, is not set where packets are forwarded to GTP-U and
  stays 4095.
\<close>

theorem pdcp_enb_am_discards_upper_half:
  assumes "am_drb t0 d rb b" "enb_flag d" "0 < rb" "unat rb < 11"
    "ofold (\<lambda>(n, m). rlc_data_ind ops env d False False rb n m) pdus t0 = Some t"
    "2 \<le> n" "2048 \<le> pdcp_get_sequence_number_of_pdu_with_long_sn (Some m)"
  shows "\<exists>t'. pdcp_data_ind ops env d False False rb n m t = Some (False, t') \<and> gtpu_log t' = gtpu_log t \<and> pdcp_sdu_list t' = pdcp_sdu_list t"
proof -
  have "am_drb t d rb b"
    by (rule ofold_inv [OF assms(5), of "\<lambda>t. am_drb t d rb b"]) (use assms(1-4) am_drb_ind in \<open>auto simp: rlc_data_ind_def\<close>)
  then obtain x where x: "bearer_entity t d False rb b x" "pdcp_rlc_mode x = RLC_MODE_AM" "seq_num_size x = 12" "last_submitted_pdcp_rx_sn x = 4095"
    by (auto simp: am_drb_def)
  define sn where "sn = pdcp_get_sequence_number_of_pdu_with_long_sn (Some m)"
  have p: "pdcp_parse_header False x m = (2, sn)" using x(3) by (simp add: pdcp_parse_header_def sn_def)
  have sn: "2048 \<le> uint sn" using assms(7) by (simp add: sn_def word_le_def)
  obtain x1 where v: "pdcp_is_rx_seq_number_valid sn (Some x) False = (False, Some x1)"
  proof (cases "pdcp_is_seq_num_valid sn 12")
    case True
    then have "uint sn < 4096" using seq_num_valid_iff [of x sn] x(3) by (simp add: sn_bits_def pdcp_is_seq_num_size_valid_def)
    then have "fst (pdcp_rx_drb_am sn 2048 (snd (pdcp_mark_current_pdu_as_received sn x))) = False"
      using sn x(4) by (simp add: pdcp_rx_drb_am_def Let_def mark_received_eq)
    moreover have "pdcp_is_rx_seq_number_valid sn (Some x) False = map_prod id Some (pdcp_rx_drb_am sn 2048 (snd (pdcp_mark_current_pdu_as_received sn x)))"
      using True x(2,3) by (simp add: pdcp_is_rx_seq_number_valid_def Let_def mark_received_eq pdcp_is_seq_num_size_valid_def)
    ultimately show ?thesis using that by (cases "pdcp_rx_drb_am sn 2048 (snd (pdcp_mark_current_pdu_as_received sn x))") auto
  next
    case False
    then show ?thesis using that x(3) by (simp add: pdcp_is_rx_seq_number_valid_def)
  qed
  have "pdcp_data_ind ops env d False False rb n m t = Some (False, pdcp_store b x1 t)"
    using data_ind_receive [OF x(1) assms(3,4), of n ops env m] assms(6) p v by (simp add: pdcp_receive_def pdcp_tailer_len_def)
  then show ?thesis by (simp add: pdcp_store_def)
qed

theorem pdcp_enb_am_discards_upper_half_witness:
  "let e = entity_added demo_ops (demo_ctxt True) False
         \<lparr>cfg_rlc_mode = RLC_MODE_AM, cfg_lc_id = 3, cfg_mch_id = 0, cfg_rb_id = 1, cfg_rb_sn = 1, cfg_rb_report = 0, cfg_profile = 0\<rparr> demo_keys pdcp_zero;
       env = \<lparr>otg_enabled = False, gtpu_malloc_ok = True, ind_blk_ok = True, nfapi_mode_3 = False\<rparr> in
   \<exists>t'. pdcp_data_ind demo_ops env (demo_ctxt True) False False 1 7 ((\<lambda>_. 0)(0 := 0x88)) (bearer_layer (demo_ctxt True) False 1 e) = Some (False, t') \<and> gtpu_log t' = []"
proof -
  let ?e = "entity_added demo_ops (demo_ctxt True) False
         \<lparr>cfg_rlc_mode = RLC_MODE_AM, cfg_lc_id = 3, cfg_mch_id = 0, cfg_rb_id = 1, cfg_rb_sn = 1, cfg_rb_report = 0, cfg_profile = 0\<rparr> demo_keys pdcp_zero"
  let ?t = "bearer_layer (demo_ctxt True) False 1 ?e" and ?m = "(\<lambda>_. 0)(0 := 0x88) :: mem"
  have am: "am_drb ?t (demo_ctxt True) 1 0" unfolding am_drb_def
    by (rule exI [of _ ?e])
      (simp add: bearer_layer entity_added_def pdcp_config_set_security_def demo_keys_def Let_def sn_size_of_def demo_ops_def)
  have sn: "2048 \<le> pdcp_get_sequence_number_of_pdu_with_long_sn (Some ?m)"
    by (simp add: pdcp_get_sequence_number_of_pdu_with_long_sn_def Let_def)
  have "gtpu_log ?t = []" by (simp add: bearer_layer_def idle_layer_def)
  then show ?thesis
    using pdcp_enb_am_discards_upper_half [OF am _ _ _ _ _ sn, of demo_ops
      "\<lparr>otg_enabled = False, gtpu_malloc_ok = True, ind_blk_ok = True, nfapi_mode_3 = False\<rparr>" "[]" ?t 7] by (auto simp: demo_ctxt_def Let_def)
qed

theorem pdcp_srb_mac_ignored_witness:
  "let e = entity_added demo_ops (demo_ctxt True) True
         \<lparr>cfg_rlc_mode = RLC_MODE_AM, cfg_lc_id = 1, cfg_mch_id = 0, cfg_rb_id = 1, cfg_rb_sn = 5, cfg_rb_report = 0, cfg_profile = 0\<rparr>
         \<lparr>k_mode = 0x22, k_RRCenc = Some 0, k_RRCint = Some 0, k_UPenc = Some 0\<rparr> pdcp_zero;
       env = \<lparr>otg_enabled = False, gtpu_malloc_ok = True, ind_blk_ok = True, nfapi_mode_3 = False\<rparr> in
   \<exists>t'. pdcp_data_ind demo_ops env (demo_ctxt True) True False 1 7 (\<lambda>_. 0) (bearer_layer (demo_ctxt True) True 1 e) = Some (True, t')
      \<and> pdcp_data_ind demo_ops env (demo_ctxt True) True False 1 7 ((\<lambda>_. 0)(3 := 0xAA)) (bearer_layer (demo_ctxt True) True 1 e) = Some (True, t')
      \<and> map fst (rrc_ind_log t') = [1] \<and> map (length \<circ> snd) (rrc_ind_log t') = [2]"
proof -
  let ?e = "entity_added demo_ops (demo_ctxt True) True
         \<lparr>cfg_rlc_mode = RLC_MODE_AM, cfg_lc_id = 1, cfg_mch_id = 0, cfg_rb_id = 1, cfg_rb_sn = 5, cfg_rb_report = 0, cfg_profile = 0\<rparr>
         \<lparr>k_mode = 0x22, k_RRCenc = Some 0, k_RRCint = Some 0, k_UPenc = Some 0\<rparr> pdcp_zero"
  let ?t = "bearer_layer (demo_ctxt True) True 1 ?e"
  have c: "ctr_mode (ctr_crypt demo_ops) (\<lambda>k b n. replicate n 0x5A)" by (simp add: ctr_mode_def demo_ctr_def demo_ops_def)
  have e: "seq_num_size ?e = 5" "security_activated ?e = 1" "pdcp_entity_ok ?e"
    by (simp_all add: entity_added_def pdcp_config_set_security_def Let_def sn_size_of_def demo_ops_def pdcp_entity_ok_def pdcp_is_seq_num_size_valid_def sn_bits_def pdcp_zero_def)
  have k: "sec_key ?t (kRRCenc ?e) 0 \<noteq> None" "sec_key ?t (kRRCint ?e) 16 \<noteq> None"
    by (simp_all add: entity_added_def pdcp_config_set_security_def Let_def sec_key_def bearer_layer_def idle_layer_def)
  have l: "rrc_ind_log ?t = []" by (simp add: bearer_layer_def idle_layer_def)
  obtain x1 t' where "pdcp_data_ind demo_ops \<lparr>otg_enabled = False, gtpu_malloc_ok = True, ind_blk_ok = True, nfapi_mode_3 = False\<rparr> (demo_ctxt True) True False 1 7 (\<lambda>_. 0) ?t = Some (True, t')"
    "pdcp_data_ind demo_ops \<lparr>otg_enabled = False, gtpu_malloc_ok = True, ind_blk_ok = True, nfapi_mode_3 = False\<rparr> (demo_ctxt True) True False 1 7 ((\<lambda>_. 0)(3 := 0xAA)) ?t = Some (True, t')"
    "\<exists>mm. rrc_ind_log t' = [(1, mem_read mm 1 2)]"
    using l pdcp_srb_mac_ignored [OF c bearer_layer _ _ _ e(3,1,2) k, where n = 2 and m = "\<lambda>_. 0" and m' = "(\<lambda>_. 0)(3 := 0xAA)"
      and env = "\<lparr>otg_enabled = False, gtpu_malloc_ok = True, ind_blk_ok = True, nfapi_mode_3 = False\<rparr>"] by (auto simp: mem_read_def)
  then show ?thesis by (auto simp: Let_def mem_read_def)
qed

end
