(* ===== verification/Mac_Prb.thy ===== *)
theory Mac_Prb
  imports Oai_Prelude
begin

text \<open>
  Bandwidth tables and resource block allocation of the MAC scheduler (\<open>eNB_scheduler_primitives.c\<close>).
  An \<open>AssertFatal\<close> that fails ends the process: the result is \<open>None\<close>. Bit masks are machine words.

  The lemmas show that the resource indication value determines the allocated blocks, and which
  resource block groups an allocation takes.
\<close>

section \<open>Bandwidth tables\<close>

definition assert_index :: "int \<Rightarrow> int list \<Rightarrow> int option" where
  "assert_index i xs = (if 0 \<le> i \<and> i < int (length xs) then Some (xs ! nat i) else None)"

definition to_prb :: "int \<Rightarrow> int option" where
  "to_prb dl_Bandwidth = assert_index dl_Bandwidth [6, 15, 25, 50, 75, 100]"

definition to_rbg :: "int \<Rightarrow> int option" where
  "to_rbg dl_Bandwidth = assert_index dl_Bandwidth [6, 8, 13, 17, 19, 25]"

definition get_subbandsize :: "int \<Rightarrow> int option" where
  "get_subbandsize dl_Bandwidth = assert_index dl_Bandwidth [6, 4, 4, 6, 8, 8]"

definition get_bw_index :: "int \<Rightarrow> int" where
  "get_bw_index N_RB_DL =
     (if N_RB_DL = 6 then 0 else if N_RB_DL = 25 then 1 else if N_RB_DL = 50 then 2 else if N_RB_DL = 100 then 3 else 1)"

definition get_min_rb_unit :: "int \<Rightarrow> int" where
  "get_min_rb_unit N_RB_DL =
     (if N_RB_DL = 6 then 1 else if N_RB_DL = 25 then 2 else if N_RB_DL = 50 then 3 else if N_RB_DL = 100 then 4 else 2)"

text \<open>The case of 15 resource blocks has no \<open>break\<close> and falls into the case of 25.\<close>

definition get_nb_subband :: "int \<Rightarrow> int" where
  "get_nb_subband N_RB_DL =
     (if N_RB_DL = 6 then 0 else if N_RB_DL = 15 then 7 else if N_RB_DL = 25 then 7 else if N_RB_DL = 50 then 9
      else if N_RB_DL = 75 then 10 else if N_RB_DL = 100 then 13 else 0)"

section \<open>Binomial coefficients\<close>

definition choose_loop :: "int list \<Rightarrow> int" where
  "choose_loop is = fold (\<lambda>i res. to_s32 (res * i)) is 1"

definition mac_choose :: "int \<Rightarrow> int \<Rightarrow> int" where
  "mac_choose n k =
     (if k > n then 0 else if n = k then 1
      else cdiv (choose_loop (rev [k + 1..n])) (choose_loop [2..n - k]))"

section \<open>Resource indication values\<close>

definition mac_computeRIV :: "int \<Rightarrow> int \<Rightarrow> int \<Rightarrow> int" where
  "mac_computeRIV N_RB_DL RBstart Lcrbs =
     to_u16 (if Lcrbs \<le> 1 + N_RB_DL div 2 then N_RB_DL * (Lcrbs - 1) + RBstart
             else N_RB_DL * (N_RB_DL + 1 - Lcrbs) + (N_RB_DL - 1 - RBstart))"

definition getRIV :: "int \<Rightarrow> int \<Rightarrow> int \<Rightarrow> int" where
  "getRIV N_RB_DL RBstart Lcrbs =
     to_u16 (if Lcrbs \<le> 1 + N_RB_DL div 2 then N_RB_DL * (Lcrbs - 1) + RBstart
             else N_RB_DL * (N_RB_DL + 1 - Lcrbs) + (N_RB_DL - 1 - RBstart))"

section \<open>Allocation of resource blocks\<close>

text \<open>
  \<open>allocate_prbs\<close> hands out pairs of blocks of the mask \<open>rballoc\<close>; the remaining pairs are walked by the
  index \<open>i\<close>. A shift of a negative or too large amount is undefined in C and \<open>None\<close> here.
\<close>

definition shl32 :: "32 word \<Rightarrow> int \<Rightarrow> 32 word option" where
  "shl32 w n = (if 0 \<le> n \<and> n < 32 then Some (push_bit (nat n) w) else None)"

definition shr32 :: "32 word \<Rightarrow> int \<Rightarrow> 32 word option" where
  "shr32 w n = (if 0 \<le> n \<and> n < 32 then Some (drop_bit (nat n) w) else None)"

function allocate_prbs_loop ::
  "int \<Rightarrow> int \<Rightarrow> int \<Rightarrow> int \<Rightarrow> 32 word \<Rightarrow> 32 word \<Rightarrow> (bool \<times> 32 word \<times> 32 word) option" where
  "allocate_prbs_loop N_RB_DL nb_rb i nb_rb_alloc rballoc rballoc_dci =
     (if i < N_RB_DL - 2 then
        (case (shr32 rballoc i, shl32 3 i, shl32 1 ((12 - i) div 2)) of
           (Some cur, Some three, dci_bit) \<Rightarrow>
             if cur AND 3 = 0 then
               (case dci_bit of
                  None \<Rightarrow> None
                | Some b \<Rightarrow>
                    if to_u8 (nb_rb_alloc + 2) = nb_rb then Some (True, rballoc OR three, rballoc_dci OR b)
                    else allocate_prbs_loop N_RB_DL nb_rb (i + 2) (to_u8 (nb_rb_alloc + 2)) (rballoc OR three) (rballoc_dci OR b))
             else if nb_rb_alloc = nb_rb then Some (True, rballoc, rballoc_dci)
             else allocate_prbs_loop N_RB_DL nb_rb (i + 2) nb_rb_alloc rballoc rballoc_dci
         | _ \<Rightarrow> None)
      else Some (False, rballoc, rballoc_dci))"
  by pat_completeness auto

termination
  by (relation "measure (\<lambda>(n, _, i, _). nat (n - i))") auto

declare allocate_prbs_loop.simps [simp del]

definition allocate_prbs :: "int \<Rightarrow> int \<Rightarrow> 32 word \<Rightarrow> (32 word \<times> 32 word) option" where
  "allocate_prbs nb_rb N_RB_DL rballoc =
     (case allocate_prbs_loop N_RB_DL nb_rb 0 0 rballoc 0 of
        None \<Rightarrow> None
      | Some (True, rballoc1, dci) \<Rightarrow> Some (dci, rballoc1)
      | Some (False, rballoc1, dci) \<Rightarrow>
          if odd N_RB_DL then
            (case (shr32 rballoc1 (N_RB_DL - 1), shl32 1 (N_RB_DL - 1)) of
               (Some cur, Some one) \<Rightarrow> if cur AND 1 = 0 then Some (dci OR 1, rballoc1 OR one) else Some (dci, rballoc1)
             | _ \<Rightarrow> None)
          else Some (dci, rballoc1))"

definition rbg_blocks :: "int \<Rightarrow> nat \<Rightarrow> nat \<Rightarrow> int" where
  "rbg_blocks N_RB_DL N_RBG check =
     (if N_RB_DL = 6 then 1
      else if N_RB_DL = 25 then (if check = N_RBG - 1 then 1 else 2)
      else if N_RB_DL = 50 then (if check = N_RBG - 1 then 2 else 3)
      else if N_RB_DL = 100 then 4
      else 0)"

function allocate_prbs_sub_loop :: "int \<Rightarrow> nat \<Rightarrow> (nat \<Rightarrow> int) \<Rightarrow> int \<Rightarrow> nat \<Rightarrow> 32 word \<Rightarrow> 32 word" where
  "allocate_prbs_sub_loop N_RB_DL N_RBG rballoc nb_rb check rballoc_dci =
     (if nb_rb > 0 \<and> check < N_RBG then
        if rballoc check = 1
        then allocate_prbs_sub_loop N_RB_DL N_RBG rballoc (nb_rb - rbg_blocks N_RB_DL N_RBG check) (check + 1)
               (rballoc_dci OR push_bit ((N_RBG - 1) - check) 1)
        else allocate_prbs_sub_loop N_RB_DL N_RBG rballoc nb_rb (check + 1) rballoc_dci
      else rballoc_dci)"
  by pat_completeness auto

termination
  by (relation "measure (\<lambda>(_, n, _, _, c, _). n - c)") auto

declare allocate_prbs_sub_loop.simps [simp del]

definition allocate_prbs_sub :: "int \<Rightarrow> int \<Rightarrow> nat \<Rightarrow> (nat \<Rightarrow> int) \<Rightarrow> 32 word" where
  "allocate_prbs_sub nb_rb N_RB_DL N_RBG rballoc = allocate_prbs_sub_loop N_RB_DL N_RBG rballoc nb_rb 0 0"

section \<open>Resource indication values are unambiguous\<close>

definition riv_decode :: "int \<Rightarrow> int \<Rightarrow> int \<times> int" where
  "riv_decode N v = (if v div N + v mod N < N then (v mod N, v div N + 1) else (N - 1 - v mod N, N + 1 - v div N))"

lemma div_mod_unique:
  assumes "0 \<le> r" "r < (N :: int)"
  shows "(N * q + r) div N = q" "(N * q + r) mod N = r"
  using assms by (simp_all add: div_pos_pos_trivial)

lemma riv_range:
  assumes "0 < N" "N \<le> 110" "0 \<le> S" "1 \<le> L" "S + L \<le> N"
  defines "v \<equiv> if L \<le> 1 + N div 2 then N * (L - 1) + S else N * (N + 1 - L) + (N - 1 - S)"
  shows "0 \<le> v" "2 * v < N * (N + 1)" "mac_computeRIV N S L = v" "riv_decode N v = (S, L)"
proof -
  have nonneg: "0 \<le> N * (L - 1)" "0 \<le> N * (N + 1 - L)" using assms(1,3-5) by (auto intro: mult_nonneg_nonneg)
  show lo: "0 \<le> v" using nonneg assms by (simp add: v_def)
  show hi: "2 * v < N * (N + 1)"
  proof (cases "L \<le> 1 + N div 2")
    case True
    then have "2 * L \<le> N + 2" by linarith
    then have "(N - 1) * (2 * L) \<le> (N - 1) * (N + 2)" using assms(1) by (intro mult_left_mono) auto
    moreover have "2 * (N * (L - 1) + S) \<le> (N - 1) * (2 * L)" using assms(5) by (simp add: algebra_simps)
    ultimately show ?thesis using True by (simp add: v_def algebra_simps)
  next
    case False
    then have "N + 3 \<le> 2 * L" by linarith
    then have "N * (2 * (N + 1 - L)) \<le> N * (N - 1)" using assms(1) by (intro mult_left_mono) auto
    then show ?thesis using False assms(3) by (simp add: v_def algebra_simps)
  qed
  have "N * (N + 1) \<le> 110 * 111" using assms(1,2) by (intro mult_mono) auto
  then have "to_u16 v = v" using lo hi by (intro to_u16_id) auto
  then show "mac_computeRIV N S L = v" by (simp add: mac_computeRIV_def v_def)
  show "riv_decode N v = (S, L)"
  proof (cases "L \<le> 1 + N div 2")
    case True
    have "v div N = L - 1" "v mod N = S" using True div_mod_unique [of S N "L - 1"] assms(3-5) by (simp_all add: v_def)
    then show ?thesis using assms(4,5) by (simp add: riv_decode_def)
  next
    case False
    have "v div N = N + 1 - L" "v mod N = N - 1 - S" using False div_mod_unique [of "N - 1 - S" N "N + 1 - L"] assms(3-5) by (simp_all add: v_def)
    then show ?thesis using assms(4,5) by (simp add: riv_decode_def)
  qed
qed

section \<open>The groups an allocation takes\<close>

definition avail_blocks :: "int \<Rightarrow> nat \<Rightarrow> (nat \<Rightarrow> int) \<Rightarrow> nat \<Rightarrow> int" where
  "avail_blocks N_RB_DL N_RBG rballoc c = (\<Sum>g<c. if rballoc g = 1 then rbg_blocks N_RB_DL N_RBG g else 0)"

lemma avail_blocks_mono: "c \<le> d \<Longrightarrow> avail_blocks N n rb c \<le> avail_blocks N n rb d"
  unfolding avail_blocks_def by (rule sum_mono2) (auto simp: rbg_blocks_def)

lemma prbs_sub_loop_bits:
  assumes "N_RBG \<le> 32" "nb_rb = want - avail_blocks N N_RBG rb c"
  shows "bit (allocate_prbs_sub_loop N N_RBG rb nb_rb c dci) j \<longleftrightarrow>
    bit dci j \<or> (\<exists>g. c \<le> g \<and> g < N_RBG \<and> j = N_RBG - 1 - g \<and> rb g = 1 \<and> avail_blocks N N_RBG rb g < want)"
  using assms
proof (induction N N_RBG rb nb_rb c dci rule: allocate_prbs_sub_loop.induct)
  case (1 N N_RBG rb nb_rb c dci)
  have next_sum: "avail_blocks N N_RBG rb (Suc c) = avail_blocks N N_RBG rb c + (if rb c = 1 then rbg_blocks N N_RBG c else 0)"
    by (simp add: avail_blocks_def)
  show ?case
  proof (cases "nb_rb > 0 \<and> c < N_RBG")
    case False
    have "\<not> (c \<le> g \<and> g < N_RBG \<and> avail_blocks N N_RBG rb g < want)" for g
      using False "1.prems"(2) avail_blocks_mono [of c g N N_RBG rb] by auto
    then show ?thesis unfolding allocate_prbs_sub_loop.simps [of N N_RBG rb nb_rb c dci] using False by auto
  next
    case True
    have le: "c \<le> g \<longleftrightarrow> g = c \<or> Suc c \<le> g" for g by auto
    show ?thesis
    proof (cases "rb c = 1")
      case taken: True
      have step: "allocate_prbs_sub_loop N N_RBG rb nb_rb c dci =
          allocate_prbs_sub_loop N N_RBG rb (nb_rb - rbg_blocks N N_RBG c) (c + 1) (dci OR push_bit ((N_RBG - 1) - c) 1)"
        using True taken by (subst allocate_prbs_sub_loop.simps) simp
      have "bit (push_bit ((N_RBG - 1) - c) 1 :: 32 word) j \<longleftrightarrow> j = N_RBG - 1 - c"
        using True "1.prems"(1) by (auto simp: bit_simps)
      then show ?thesis unfolding step
        using "1.IH"(1) [OF True taken "1.prems"(1)] "1.prems"(2) True taken next_sum
        by (auto simp: bit_or_iff le)
    next
      case skipped: False
      have step: "allocate_prbs_sub_loop N N_RBG rb nb_rb c dci = allocate_prbs_sub_loop N N_RBG rb nb_rb (c + 1) dci"
        using True skipped by (subst allocate_prbs_sub_loop.simps) simp
      show ?thesis unfolding step using "1.IH"(2) [OF True skipped "1.prems"(1)] "1.prems"(2) skipped next_sum by (auto simp: le)
    qed
  qed
qed

section \<open>Properties\<close>

text \<open>
  The resource indication value of a contiguous allocation identifies it: two allocations inside a
  carrier of at most 110 blocks with the same value are the same; the value lies below half of
  \<open>N (N + 1)\<close>, the size of the field in the DCI; and the two routines that compute it agree.
\<close>
theorem riv_unambiguous:
  assumes "0 < N" "N \<le> 110" "0 \<le> S" "1 \<le> L" "S + L \<le> N" "0 \<le> S'" "1 \<le> L'" "S' + L' \<le> N"
  shows "(mac_computeRIV N S L = mac_computeRIV N S' L' \<longleftrightarrow> S = S' \<and> L = L')
    \<and> 0 \<le> mac_computeRIV N S L \<and> 2 * mac_computeRIV N S L < N * (N + 1) \<and> getRIV N S L = mac_computeRIV N S L"
proof -
  have "riv_decode N (mac_computeRIV N S L) = (S, L)" unfolding riv_range(3) [OF assms(1-5)] by (rule riv_range(4) [OF assms(1-5)])
  moreover have "riv_decode N (mac_computeRIV N S' L') = (S', L')"
    unfolding riv_range(3) [OF assms(1,2,6-8)] by (rule riv_range(4) [OF assms(1,2,6-8)])
  ultimately have "mac_computeRIV N S L = mac_computeRIV N S' L' \<Longrightarrow> S = S' \<and> L = L'" by (metis prod.inject)
  moreover have "0 \<le> mac_computeRIV N S L" "2 * mac_computeRIV N S L < N * (N + 1)"
    unfolding riv_range(3) [OF assms(1-5)] by (rule riv_range(1,2) [OF assms(1-5)])+
  moreover have "getRIV N S L = mac_computeRIV N S L" by (simp add: getRIV_def mac_computeRIV_def)
  ultimately show ?thesis by blast
qed

theorem riv_unambiguous_witness: "mac_computeRIV 25 3 20 \<noteq> mac_computeRIV 25 3 4"
  using riv_unambiguous [of 25 3 20 3 4] by simp

text \<open>
  The bit map of an allocation marks exactly the available groups, from the first one on, whose
  predecessors do not already hold the requested number of blocks; group \<open>g\<close> is bit \<open>N_RBG - 1 - g\<close>.
\<close>
theorem allocate_prbs_sub_takes_first_available:
  assumes "N_RBG \<le> 32"
  shows "bit (allocate_prbs_sub nb_rb N_RB_DL N_RBG rballoc) j \<longleftrightarrow>
    (\<exists>g<N_RBG. j = N_RBG - 1 - g \<and> rballoc g = 1 \<and> avail_blocks N_RB_DL N_RBG rballoc g < nb_rb)"
  using prbs_sub_loop_bits [OF assms, of nb_rb nb_rb N_RB_DL rballoc 0 0 j] by (auto simp: allocate_prbs_sub_def avail_blocks_def)

theorem allocate_prbs_sub_takes_first_available_witness:
  "bit (allocate_prbs_sub 4 25 13 (\<lambda>g. if g = 1 then 0 else 1)) 12 \<and> \<not> bit (allocate_prbs_sub 4 25 13 (\<lambda>g. if g = 1 then 0 else 1)) 11"
proof
  let ?rb = "\<lambda>g :: nat. if g = 1 then 0 else 1 :: int"
  have "avail_blocks 25 13 ?rb 0 < 4" by (simp add: avail_blocks_def)
  then have "\<exists>g<13. 12 = 13 - 1 - g \<and> ?rb g = 1 \<and> avail_blocks 25 13 ?rb g < 4" by (intro exI [of _ 0]) simp
  then show "bit (allocate_prbs_sub 4 25 13 ?rb) 12" by (subst allocate_prbs_sub_takes_first_available) simp_all
  have "g = 1" if "11 = 13 - 1 - g" for g :: nat using that by arith
  then have "\<not> (\<exists>g<13. 11 = 13 - 1 - g \<and> ?rb g = 1 \<and> avail_blocks 25 13 ?rb g < 4)" by force
  then show "\<not> bit (allocate_prbs_sub 4 25 13 ?rb) 11" by (subst allocate_prbs_sub_takes_first_available) simp_all
qed

text \<open>
  The pairwise allocation shifts the DCI bit by \<open>(12 - i) >> 1\<close>, which is negative from the eighth pair
  on: on a carrier of 25 blocks it cannot hand out more than 14 blocks.
\<close>

lemma allocate_prbs_negative_shift: "allocate_prbs 16 25 0 = None"
  by (simp add: allocate_prbs_def allocate_prbs_loop.simps shr32_def shl32_def to_u8_def)

lemma get_nb_subband_15: "get_nb_subband 15 = get_nb_subband 25"
  by (simp add: get_nb_subband_def)

end
