(* ===== verification/Mac_Cce.thy ===== *)
theory Mac_Cce
  imports Mac_Prb
begin

text \<open>
  Allocation of control channel elements to the DCIs of a subframe (\<open>eNB_scheduler_primitives.c\<close>): the
  number of elements for a number of PDCCH symbols, the search of a free candidate in the common and
  in the UE-specific search space, and \<open>allocate_CCEs\<close>, which places all DCIs and tries again with one
  more symbol when they do not fit.

  The requests are the lists of their PDUs (\<open>number_pdu\<close> is the length); of a PDU only the fields these
  functions use are kept. The uplink request the HARQ feedback goes to is the one the caller selects.
  A failed assertion or a division by zero is \<open>None\<close>, or the status \<open>Cce_crash\<close>.

  The lemmas show that a candidate returned was free and is marked, that the DCIs placed do not overlap
  and lie within the elements of the control region, and that the search ends without a crash.
\<close>

section \<open>Size of the control region\<close>

record common_channels =
  dl_Bandwidth :: int
  phich_Resource :: int
  Ncp :: int
  subframeAssignment :: "int option"
  n1PUCCH_AN :: int

definition get_phich_resource_times6 :: "common_channels \<Rightarrow> int option" where
  "get_phich_resource_times6 cc = assert_index (phich_Resource cc) [1, 3, 6, 12]"

definition phich_groups :: "int \<Rightarrow> int \<Rightarrow> int \<Rightarrow> int \<Rightarrow> int" where
  "phich_groups phich_resource N_RB_DL ncp mi =
     (let g = to_u8 (cdiv (phich_resource * N_RB_DL) 48);
          g = (if crem (phich_resource * N_RB_DL) 48 > 0 then to_u8 (g + 1) else g);
          g = (if ncp = 1 then to_u8 (g * 2) else g) in
      to_u8 (g * mi))"

definition getnquad :: "common_channels \<Rightarrow> int \<Rightarrow> int \<Rightarrow> int option" where
  "getnquad cc num_pdcch_symbols mi =
     (case (to_prb (dl_Bandwidth cc), get_phich_resource_times6 cc) of
        (Some N_RB_DL, Some phich_resource) \<Rightarrow>
          let n = num_pdcch_symbols;
              g = phich_groups phich_resource N_RB_DL (Ncp cc) mi;
              quads = (\<lambda>Nreg. to_u16 (to_u16 Nreg - 4 - 3 * g)) in
          if n > 0 \<and> n < 4 then
            (if N_RB_DL = 6 then Some (quads (12 + (n - 1) * 18))
             else if N_RB_DL = 25 then Some (quads (50 + (n - 1) * 75))
             else if N_RB_DL = 50 then Some (quads (100 + (n - 1) * 150))
             else if N_RB_DL = 100 then Some (quads (200 + (n - 1) * 300))
             else Some 0)
          else Some (quads 0)
      | _ \<Rightarrow> None)"

definition getnCCE :: "common_channels \<Rightarrow> int \<Rightarrow> int \<Rightarrow> int option" where
  "getnCCE cc num_pdcch_symbols mi = map_option (\<lambda>q. q div 9) (getnquad cc num_pdcch_symbols mi)"

definition getmi :: "common_channels \<Rightarrow> int \<Rightarrow> int" where
  "getmi cc subframe =
     (case subframeAssignment cc of
        None \<Rightarrow> 1
      | Some a \<Rightarrow>
          if a = 0 then (if subframe = 0 \<or> subframe = 5 then 2 else 1)
          else if a = 1 then (if subframe = 0 \<or> subframe = 5 then 0 else 1)
          else if a = 2 then (if subframe = 3 \<or> subframe = 8 then 1 else 0)
          else if a = 3 then (if subframe = 0 \<or> subframe = 8 \<or> subframe = 9 then 1 else 0)
          else if a = 4 then (if subframe = 8 \<or> subframe = 9 then 1 else 0)
          else if a = 5 then (if subframe = 8 then 1 else 0)
          else if a = 6 then 1
          else 0)"

definition get_nCCE_max :: "common_channels \<Rightarrow> int \<Rightarrow> int \<Rightarrow> int option" where
  "get_nCCE_max cc num_pdcch_symbols subframe = getnCCE cc (to_u8 num_pdcch_symbols) (getmi cc subframe)"

definition is_S_sf :: "common_channels \<Rightarrow> int \<Rightarrow> int" where
  "is_S_sf cc subframeP =
     (case subframeAssignment cc of
        None \<Rightarrow> 0
      | Some a \<Rightarrow>
          if subframeP = 1 then 1
          else if subframeP = 6 \<and> (a = 0 \<or> a = 1 \<or> a = 2 \<or> a = 6) then 1
          else 0)"

definition getNp :: "int \<Rightarrow> int \<Rightarrow> nat \<Rightarrow> int option" where
  "getNp dl_BandwidthP nCCE plus1 =
     (let table = [[0, 1, 3, 5], [0, 3, 8, 13], [0, 5, 13, 22], [0, 11, 27, 44], [0, 16, 41, 66], [0, 22, 55, 88]] in
      if 0 \<le> dl_BandwidthP \<and> dl_BandwidthP < 6 then
        let row = table ! nat dl_BandwidthP in
        Some (if nCCE \<ge> row ! 2 then row ! (2 + plus1) else if nCCE \<ge> row ! 1 then row ! (1 + plus1) else row ! (0 + plus1))
      else None)"

section \<open>Candidates\<close>

type_synonym cce_table = "int list"

definition init_CCE_table :: cce_table where
  "init_CCE_table = replicate 800 0"

fun cce_Yk :: "nat \<Rightarrow> int \<Rightarrow> int" where
  "cce_Yk 0 Yk = Yk"
| "cce_Yk (Suc n) Yk = cce_Yk n (to_u32 (Yk * 39827) mod 65537)"

definition cce_free :: "cce_table \<Rightarrow> int \<Rightarrow> int \<Rightarrow> bool" where
  "cce_free tab base L \<longleftrightarrow> list_all (\<lambda>l. tab ! nat (base + l) \<noteq> 1) [0..L - 1]"

definition cce_free_below :: "cce_table \<Rightarrow> int \<Rightarrow> int \<Rightarrow> int \<Rightarrow> bool" where
  "cce_free_below tab nCCE base L \<longleftrightarrow> list_all (\<lambda>l. \<not> (base + l \<ge> nCCE \<or> tab ! nat (base + l) = 1)) [0..L - 1]"

definition cce_mark :: "cce_table \<Rightarrow> int \<Rightarrow> int \<Rightarrow> cce_table" where
  "cce_mark tab base L = fold (\<lambda>l t. t[nat (base + l) := 1]) [0..L - 1] tab"

fun cce_first :: "(int \<Rightarrow> bool) \<Rightarrow> int list \<Rightarrow> int" where
  "cce_first free [] = -1"
| "cce_first free (b # bs) = (if free b then b else cce_first free bs)"

definition cce_common_candidates :: "int \<Rightarrow> int \<Rightarrow> int list" where
  "cce_common_candidates L nCCE =
     (let nb_candidates = min (if L = 4 then 4 else 2) (nCCE div L) in map (\<lambda>m. m * L) (rev [0..nb_candidates - 1]))"

definition cce_ue_candidates :: "int \<Rightarrow> int \<Rightarrow> int \<Rightarrow> int \<Rightarrow> int list" where
  "cce_ue_candidates L nCCE rnti subframe =
     (let Yk = cce_Yk (nat (subframe + 1)) rnti mod (nCCE div L);
          nb_candidates = (if L = 1 \<or> L = 2 then 6 else 2) in
      map (\<lambda>m. ((Yk + m) mod (nCCE div L)) * L) [0..nb_candidates - 1])"

definition get_nCCE_offset :: "cce_table \<Rightarrow> int \<Rightarrow> int \<Rightarrow> bool \<Rightarrow> int \<Rightarrow> int \<Rightarrow> (int \<times> cce_table) option" where
  "get_nCCE_offset tab L nCCE common_dci rnti subframe =
     (if L = 0 then None
      else if common_dci then
        let off = cce_first (\<lambda>b. cce_free tab b L) (cce_common_candidates L nCCE) in
        Some (if off = -1 then (-1, tab) else (off, cce_mark tab off L))
      else if nCCE div L = 0 then None
      else if L = 1 \<or> L = 2 \<or> L = 4 \<or> L = 8 then
        let off = cce_first (\<lambda>b. cce_free_below tab nCCE b L) (cce_ue_candidates L nCCE rnti subframe) in
        Some (if off = -1 then (-1, tab) else (off, cce_mark tab off L))
      else None)"

section \<open>Placing all DCIs\<close>

record dl_config_pdu =
  dl_pdu_type :: int
  dl_rnti_type :: int
  dl_rnti :: int
  dl_aggregation_level :: int
  cce_idx :: int

record hi_dci0_pdu =
  hi_pdu_type :: int
  hi_rnti :: int
  hi_aggregation_level :: int
  cce_index :: int

record ul_config_pdu =
  ul_pdu_type :: int
  uci_rnti :: int
  n_pucch_1_0_fdd :: int
  n_pucch_1_0_tdd :: int

datatype cce_status = Cce_ok | Cce_full | Cce_crash

record cce_state =
  CCE_table :: cce_table
  nCCE_used :: int
  number_pdcch_ofdm_symbols :: int
  dl_pdus :: "dl_config_pdu list"
  hi_pdus :: "hi_dci0_pdu list"
  ul_pdus :: "ul_config_pdu list"

definition cce_place :: "int \<Rightarrow> int \<Rightarrow> int \<Rightarrow> bool \<Rightarrow> int \<Rightarrow> cce_state \<Rightarrow> cce_status \<times> int \<times> cce_state" where
  "cce_place nCCE_max subframeP L common_dci rnti st =
     (if nCCE_used st + L > nCCE_max then (Cce_full, -1, st)
      else case get_nCCE_offset (CCE_table st) L nCCE_max common_dci rnti subframeP of
          None \<Rightarrow> (Cce_crash, -1, st)
        | Some (fCCE, tab) \<Rightarrow>
            if fCCE = -1 then (Cce_full, -1, st\<lparr>CCE_table := tab\<rparr>)
            else (Cce_ok, fCCE, st\<lparr>CCE_table := tab, nCCE_used := nCCE_used st + L\<rparr>))"

definition cce_write_dl :: "int \<Rightarrow> nat \<Rightarrow> int \<Rightarrow> cce_state \<Rightarrow> cce_state" where
  "cce_write_dl test_onlyP i fCCE st =
     (if test_onlyP mod 2 = 0 then st\<lparr>dl_pdus := (dl_pdus st)[i := (dl_pdus st ! i)\<lparr>cce_idx := to_u8 fCCE\<rparr>]\<rparr> else st)"

definition cce_dl_common :: "int \<Rightarrow> int \<Rightarrow> int \<Rightarrow> nat \<Rightarrow> cce_state \<Rightarrow> cce_status \<times> cce_state" where
  "cce_dl_common nCCE_max subframeP test_onlyP i st =
     (let p = dl_pdus st ! i in
      if dl_pdu_type p = 0 \<and> dl_rnti_type p = 2 then
        (case cce_place nCCE_max subframeP (dl_aggregation_level p) True (dl_rnti p) st of
           (Cce_ok, fCCE, st1) \<Rightarrow> (Cce_ok, cce_write_dl test_onlyP i fCCE st1)
         | (s, _, st1) \<Rightarrow> (s, st1))
      else (Cce_ok, st))"

definition cce_ul :: "int \<Rightarrow> int \<Rightarrow> int \<Rightarrow> nat \<Rightarrow> cce_state \<Rightarrow> cce_status \<times> cce_state" where
  "cce_ul nCCE_max subframeP test_onlyP i st =
     (let p = hi_pdus st ! i in
      if hi_pdu_type p = 1 then
        (case cce_place nCCE_max subframeP (hi_aggregation_level p) False (hi_rnti p) st of
           (Cce_ok, fCCE, st1) \<Rightarrow>
             (Cce_ok, if test_onlyP mod 2 = 0 then st1\<lparr>hi_pdus := (hi_pdus st1)[i := p\<lparr>cce_index := to_u8 fCCE\<rparr>]\<rparr> else st1)
         | (s, _, st1) \<Rightarrow> (s, st1))
      else (Cce_ok, st))"

definition cce_harq_pucch :: "common_channels \<Rightarrow> int \<Rightarrow> int \<Rightarrow> ul_config_pdu \<Rightarrow> ul_config_pdu option" where
  "cce_harq_pucch cc rnti fCCE u =
     (if (ul_pdu_type u = 6 \<or> ul_pdu_type u = 7) \<and> uci_rnti u = rnti then
        (case subframeAssignment cc of
           None \<Rightarrow> Some (u\<lparr>n_pucch_1_0_fdd := to_u16 (n1PUCCH_AN cc + fCCE)\<rparr>)
         | Some _ \<Rightarrow>
             (case getNp (dl_Bandwidth cc) (to_u8 fCCE) 0 of
                None \<Rightarrow> None
              | Some np \<Rightarrow> Some (u\<lparr>n_pucch_1_0_tdd := to_u16 (n1PUCCH_AN cc + fCCE + np)\<rparr>)))
      else Some u)"

definition cce_dl_ue :: "common_channels \<Rightarrow> int \<Rightarrow> int \<Rightarrow> int \<Rightarrow> nat \<Rightarrow> cce_state \<Rightarrow> cce_status \<times> cce_state" where
  "cce_dl_ue cc nCCE_max subframeP test_onlyP i st =
     (let p = dl_pdus st ! i in
      if dl_pdu_type p = 0 \<and> dl_rnti_type p = 1 then
        (case cce_place nCCE_max subframeP (dl_aggregation_level p) False (dl_rnti p) st of
           (Cce_ok, fCCE, st1) \<Rightarrow>
             let st2 = cce_write_dl test_onlyP i fCCE st1 in
             if test_onlyP div 2 = 1 then
               (case those (map (cce_harq_pucch cc (dl_rnti p) fCCE) (ul_pdus st2)) of
                  None \<Rightarrow> (Cce_crash, st2)
                | Some us \<Rightarrow> (Cce_ok, st2\<lparr>ul_pdus := us\<rparr>))
             else (Cce_ok, st2)
         | (s, _, st1) \<Rightarrow> (s, st1))
      else (Cce_ok, st))"

fun cce_loop :: "(nat \<Rightarrow> cce_state \<Rightarrow> cce_status \<times> cce_state) \<Rightarrow> nat list \<Rightarrow> cce_state \<Rightarrow> cce_status \<times> cce_state" where
  "cce_loop body [] st = (Cce_ok, st)"
| "cce_loop body (i # is) st =
     (case body i st of
        (Cce_ok, st1) \<Rightarrow> cce_loop body is st1
      | r \<Rightarrow> r)"

definition cce_pass :: "common_channels \<Rightarrow> int \<Rightarrow> int \<Rightarrow> int \<Rightarrow> cce_state \<Rightarrow> cce_status \<times> cce_state" where
  "cce_pass cc nCCE_max subframeP test_onlyP st =
     (let st0 = st\<lparr>CCE_table := init_CCE_table, nCCE_used := 0\<rparr> in
      case cce_loop (cce_dl_common nCCE_max subframeP test_onlyP) [0..<length (dl_pdus st0)] st0 of
        (Cce_ok, st1) \<Rightarrow>
          (case cce_loop (cce_ul nCCE_max subframeP test_onlyP) [0..<length (hi_pdus st1)] st1 of
             (Cce_ok, st2) \<Rightarrow> cce_loop (cce_dl_ue cc nCCE_max subframeP test_onlyP) [0..<length (dl_pdus st2)] st2
           | r \<Rightarrow> r)
      | r \<Rightarrow> r)"

function cce_try :: "common_channels \<Rightarrow> int \<Rightarrow> int \<Rightarrow> int \<Rightarrow> int \<Rightarrow> cce_state \<Rightarrow> cce_status \<times> cce_state" where
  "cce_try cc subframeP test_onlyP max_symbol n st =
     (case get_nCCE_max cc n subframeP of
        None \<Rightarrow> (Cce_crash, st)
      | Some nCCE_max \<Rightarrow>
          (case cce_pass cc nCCE_max subframeP test_onlyP (st\<lparr>number_pdcch_ofdm_symbols := n\<rparr>) of
             (Cce_full, st1) \<Rightarrow> if n \<ge> max_symbol then (Cce_full, st1) else cce_try cc subframeP test_onlyP max_symbol (n + 1) st1
           | r \<Rightarrow> r))"
  by pat_completeness auto

termination
  by (relation "measure (\<lambda>(_, _, _, m, n, _). nat (m - n))") auto

declare cce_try.simps [simp del]

text \<open>The result is the return value, 0 or -1, or \<open>None\<close> after a crash.\<close>

definition allocate_CCEs :: "common_channels \<Rightarrow> int \<Rightarrow> int \<Rightarrow> cce_state \<Rightarrow> int option \<times> cce_state" where
  "allocate_CCEs cc subframeP test_onlyP st =
     (let max_symbol = (if subframeAssignment cc \<noteq> None \<and> is_S_sf cc subframeP > 0 then 2 else 3) in
      case cce_try cc subframeP test_onlyP max_symbol 1 st of
        (Cce_ok, st1) \<Rightarrow> (Some 0, st1)
      | (Cce_full, st1) \<Rightarrow> (Some (-1), st1)
      | (Cce_crash, st1) \<Rightarrow> (None, st1))"

text \<open>
  The feasibility test adds a PDU behind the others, allocates and removes it again. \<open>format_flag\<close> is 0
  for a common DCI, 1 for a UE-specific one and 2 for an uplink DCI.
\<close>

definition CCE_allocation_infeasible ::
  "common_channels \<Rightarrow> int \<Rightarrow> int \<Rightarrow> int \<Rightarrow> int \<Rightarrow> cce_state \<Rightarrow> bool option \<times> cce_state" where
  "CCE_allocation_infeasible cc format_flag subframe aggregation rnti st =
     (if format_flag \<noteq> 2 then
        if length (dl_pdus st) = 100 then (Some False, st)
        else
          let p = \<lparr>dl_pdu_type = 0, dl_rnti_type = (if format_flag = 0 then 2 else 1), dl_rnti = to_u16 rnti,
                   dl_aggregation_level = to_u8 aggregation, cce_idx = 0\<rparr>;
              (ret, st1) = allocate_CCEs cc subframe 0 (st\<lparr>dl_pdus := dl_pdus st @ [p]\<rparr>) in
          (map_option (\<lambda>r. r = -1) ret, st1\<lparr>dl_pdus := butlast (dl_pdus st1)\<rparr>)
      else
        if length (hi_pdus st) = 100 then (Some False, st)
        else
          let p = \<lparr>hi_pdu_type = 1, hi_rnti = to_u16 rnti, hi_aggregation_level = to_u8 aggregation, cce_index = 0\<rparr>;
              (ret, st1) = allocate_CCEs cc subframe 0 (st\<lparr>hi_pdus := hi_pdus st @ [p]\<rparr>) in
          (map_option (\<lambda>r. r = -1) ret, st1\<lparr>hi_pdus := butlast (hi_pdus st1)\<rparr>))"

section \<open>A candidate is free and gets marked\<close>

lemma cce_first_cases:
  "cce_first free bs = -1 \<and> (\<forall>b\<in>set bs. 0 \<le> b \<longrightarrow> \<not> free b) \<or> cce_first free bs \<in> set bs \<and> free (cce_first free bs)"
  by (induction bs) auto

lemma length_cce_mark [simp]: "length (cce_mark tab base L) = length tab"
proof -
  have "length (fold (\<lambda>l t. t[nat (base + l) := 1]) ls t) = length t" for ls and t :: "int list"
    by (induction ls arbitrary: t) auto
  then show ?thesis by (simp add: cce_mark_def)
qed

lemma nth_fold_mark:
  assumes "c < length t"
  shows "fold (\<lambda>l t. t[nat (base + l) := 1]) ls t ! c = (if \<exists>l\<in>set ls. nat (base + l) = c then 1 else t ! c)"
  using assms by (induction ls arbitrary: t) (auto simp: nth_list_update)

lemma nth_cce_mark:
  assumes "c < length tab" "0 \<le> base"
  shows "cce_mark tab base L ! c = (if base \<le> int c \<and> int c < base + L then 1 else tab ! c)"
proof -
  have "(\<exists>l\<in>set [0..L - 1]. nat (base + l) = c) \<longleftrightarrow> base \<le> int c \<and> int c < base + L"
  proof
    assume "base \<le> int c \<and> int c < base + L"
    then show "\<exists>l\<in>set [0..L - 1]. nat (base + l) = c" by (intro bexI [of _ "int c - base"]) auto
  qed (use assms(2) in auto)
  then show ?thesis using nth_fold_mark [OF assms(1), of base "[0..L - 1]"] by (simp add: cce_mark_def)
qed

lemma cce_free_iff: "0 \<le> base \<Longrightarrow> cce_free tab base L \<longleftrightarrow> (\<forall>c. base \<le> int c \<and> int c < base + L \<longrightarrow> tab ! c \<noteq> 1)"
proof -
  assume b: "0 \<le> base"
  show ?thesis
  proof
    assume f: "cce_free tab base L"
    show "\<forall>c. base \<le> int c \<and> int c < base + L \<longrightarrow> tab ! c \<noteq> 1"
    proof (intro allI impI)
      fix c assume c: "base \<le> int c \<and> int c < base + L"
      then have "int c - base \<in> set [0..L - 1]" by auto
      then have "tab ! nat (base + (int c - base)) \<noteq> 1" using f unfolding cce_free_def list_all_iff by blast
      then show "tab ! c \<noteq> 1" by simp
    qed
  qed (use b in \<open>auto simp: cce_free_def list_all_iff\<close>)
qed

lemma cce_free_below_iff:
  "0 \<le> base \<Longrightarrow> 0 < L \<Longrightarrow> cce_free_below tab nCCE base L \<longleftrightarrow> base + L \<le> nCCE \<and> cce_free tab base L"
proof -
  assume "0 \<le> base" "0 < L"
  have "list_all (\<lambda>l. \<not> base + l \<ge> nCCE) [0..L - 1] \<longleftrightarrow> base + L \<le> nCCE"
    using \<open>0 < L\<close> by (auto simp: list_all_iff dest: bspec [of _ _ "L - 1"])
  then show ?thesis by (auto simp: cce_free_below_def cce_free_def list_all_iff)
qed

lemma common_candidates_bounds:
  assumes "0 < L" "b \<in> set (cce_common_candidates L nCCE)"
  shows "0 \<le> b" "b + L \<le> nCCE" "L dvd b"
proof -
  from assms(2) obtain m where m: "m \<in> set [0..min (if L = 4 then 4 else 2) (nCCE div L) - 1]" "b = m * L"
    unfolding cce_common_candidates_def Let_def by auto
  then have m: "b = m * L" "0 \<le> m" "m < nCCE div L" by auto
  then have "(m + 1) * L \<le> nCCE div L * L" using assms(1) by (intro mult_right_mono) auto
  also have "\<dots> \<le> nCCE" using assms(1) by (simp add: div_mult_mod_eq [symmetric] minus_mod_eq_mult_div [symmetric] mult.commute)
  finally show "b + L \<le> nCCE" using m by (simp add: algebra_simps)
  show "0 \<le> b" "L dvd b" using m assms(1) by simp_all
qed

lemma ue_candidates_bounds:
  assumes "0 < L" "0 < nCCE div L" "b \<in> set (cce_ue_candidates L nCCE rnti subframe)"
  shows "0 \<le> b" "b + L \<le> nCCE" "L dvd b"
proof -
  obtain m where m: "b = m mod (nCCE div L) * L" using assms(3) by (auto simp: cce_ue_candidates_def Let_def)
  have r: "0 \<le> m mod (nCCE div L)" "m mod (nCCE div L) < nCCE div L" using assms(2) by simp_all
  then have "(m mod (nCCE div L) + 1) * L \<le> nCCE div L * L" using assms(1) by (intro mult_right_mono) auto
  also have "\<dots> \<le> nCCE" using assms(1) by (simp add: minus_mod_eq_mult_div [symmetric] mult.commute)
  finally show "b + L \<le> nCCE" using m by (simp add: algebra_simps)
  show "0 \<le> b" "L dvd b" using m r assms(1) by simp_all
qed

definition cce_candidates :: "int \<Rightarrow> int \<Rightarrow> bool \<Rightarrow> int \<Rightarrow> int \<Rightarrow> int list" where
  "cce_candidates L nCCE common_dci rnti subframe =
     (if common_dci then cce_common_candidates L nCCE else cce_ue_candidates L nCCE rnti subframe)"

lemma candidates_bounds:
  assumes "0 < L" "L \<le> nCCE" "b \<in> set (cce_candidates L nCCE common_dci rnti subframe)"
  shows "0 \<le> b" "b + L \<le> nCCE" "L dvd b"
proof -
  have "0 < nCCE div L" using assms(1,2) by (simp add: pos_imp_zdiv_pos_iff)
  then show "0 \<le> b" "b + L \<le> nCCE" "L dvd b"
    using assms common_candidates_bounds [OF assms(1)] ue_candidates_bounds [OF assms(1)]
    by (auto simp: cce_candidates_def split: if_splits)
qed

lemma get_nCCE_offset_ok:
  assumes L: "0 < L" "L \<le> nCCE" "common_dci \<or> L \<in> {1, 2, 4, 8}"
  shows "(\<exists>off. get_nCCE_offset tab L nCCE common_dci rnti subframe = Some (off, cce_mark tab off L)
            \<and> off \<in> set (cce_candidates L nCCE common_dci rnti subframe) \<and> 0 \<le> off \<and> off + L \<le> nCCE \<and> cce_free tab off L)
       \<or> get_nCCE_offset tab L nCCE common_dci rnti subframe = Some (-1, tab)
            \<and> (\<forall>b\<in>set (cce_candidates L nCCE common_dci rnti subframe). \<not> cce_free tab b L)"
proof -
  let ?bs = "cce_candidates L nCCE common_dci rnti subframe"
  have bnd: "0 \<le> b" "b + L \<le> nCCE" if "b \<in> set ?bs" for b using candidates_bounds [OF L(1,2) that] by simp_all
  define free where "free = (\<lambda>b. if common_dci then cce_free tab b L else cce_free_below tab nCCE b L)"
  have fr: "free b \<longleftrightarrow> cce_free tab b L" if "b \<in> set ?bs" for b
    using bnd [OF that] L(1) by (simp add: free_def cce_free_below_iff)
  have div: "nCCE div L \<noteq> 0" using L(1,2) by (simp add: pos_imp_zdiv_pos_iff less_imp_neq [symmetric])
  have eq: "get_nCCE_offset tab L nCCE common_dci rnti subframe =
      Some (if cce_first free ?bs = -1 then (-1, tab) else (cce_first free ?bs, cce_mark tab (cce_first free ?bs) L))"
    using L div by (auto simp: get_nCCE_offset_def Let_def free_def cce_candidates_def)
  from cce_first_cases [of free ?bs] show ?thesis
  proof
    assume a: "cce_first free ?bs = -1 \<and> (\<forall>b\<in>set ?bs. 0 \<le> b \<longrightarrow> \<not> free b)"
    then have "\<forall>b\<in>set ?bs. \<not> cce_free tab b L" using bnd fr by blast
    then show ?thesis using a eq by simp
  next
    assume a: "cce_first free ?bs \<in> set ?bs \<and> free (cce_first free ?bs)"
    then have "0 \<le> cce_first free ?bs" "cce_first free ?bs + L \<le> nCCE" "cce_free tab (cce_first free ?bs) L" using bnd fr by blast+
    then show ?thesis using a eq by auto
  qed
qed

section \<open>The DCIs placed do not overlap\<close>

datatype dci_slot = Dl_slot nat | Hi_slot nat

fun slot_base :: "cce_state \<Rightarrow> dci_slot \<Rightarrow> int" where
  "slot_base st (Dl_slot i) = cce_idx (dl_pdus st ! i)"
| "slot_base st (Hi_slot i) = cce_index (hi_pdus st ! i)"

fun slot_level :: "cce_state \<Rightarrow> dci_slot \<Rightarrow> int" where
  "slot_level st (Dl_slot i) = dl_aggregation_level (dl_pdus st ! i)"
| "slot_level st (Hi_slot i) = hi_aggregation_level (hi_pdus st ! i)"

definition slot_cces :: "cce_state \<Rightarrow> dci_slot \<Rightarrow> nat set" where
  "slot_cces st s = {c. slot_base st s \<le> int c \<and> int c < slot_base st s + slot_level st s}"

definition cce_inv :: "int \<Rightarrow> cce_state \<Rightarrow> dci_slot set \<Rightarrow> bool" where
  "cce_inv n st A \<longleftrightarrow> length (CCE_table st) = 800
     \<and> (\<forall>c<800. CCE_table st ! c = 1 \<longleftrightarrow> (\<exists>s\<in>A. c \<in> slot_cces st s))
     \<and> (\<forall>s\<in>A. 0 \<le> slot_base st s \<and> slot_base st s + slot_level st s \<le> n)
     \<and> (\<forall>s\<in>A. \<forall>s'\<in>A. s \<noteq> s' \<longrightarrow> slot_cces st s \<inter> slot_cces st s' = {})"

lemma cce_inv_init: "cce_inv n (st\<lparr>CCE_table := init_CCE_table, nCCE_used := 0\<rparr>) {}"
  by (simp add: cce_inv_def init_CCE_table_def)

lemma cce_inv_insert:
  assumes inv: "cce_inv n st A" and n: "n \<le> 255"
    and f: "0 \<le> f" "f + L \<le> n" "cce_free (CCE_table st) f L"
    and tab: "CCE_table st' = cce_mark (CCE_table st) f L" and s: "slot_base st' s = f" "slot_level st' s = L"
    and old: "\<And>s'. s' \<in> A \<Longrightarrow> slot_base st' s' = slot_base st s' \<and> slot_level st' s' = slot_level st s'"
  shows "cce_inv n st' (insert s A)"
proof -
  have new: "slot_cces st' s = {c. f \<le> int c \<and> int c < f + L}" using s by (simp add: slot_cces_def)
  have same: "slot_cces st' s' = slot_cces st s'" if "s' \<in> A" for s' using old [OF that] by (simp add: slot_cces_def)
  have free: "c \<notin> slot_cces st s'" if "s' \<in> A" "f \<le> int c" "int c < f + L" for c s'
  proof
    assume "c \<in> slot_cces st s'"
    moreover have "c < 800" using that(3) f(2) n by simp
    ultimately have "CCE_table st ! c = 1" using inv that(1) by (auto simp: cce_inv_def)
    then show False using f(1,3) that(2,3) by (auto simp: cce_free_iff)
  qed
  have marks: "CCE_table st' ! c = 1 \<longleftrightarrow> (\<exists>s'\<in>insert s A. c \<in> slot_cces st' s')" if "c < 800" for c
    using inv that f(1) new same by (auto simp: tab nth_cce_mark cce_inv_def)
  have disj: "slot_cces st' a \<inter> slot_cces st' b = {}" if "a \<in> insert s A" "b \<in> insert s A" "a \<noteq> b" for a b
    using that free same new inv unfolding cce_inv_def by blast
  show ?thesis unfolding cce_inv_def
    using inv marks disj old s f(1,2) by (auto simp: cce_inv_def tab)
qed

lemma cce_place_ok:
  assumes "cce_place n sf L common_dci rnti st = (Cce_ok, f, st1)" "0 < L" "0 \<le> nCCE_used st" "common_dci \<or> L \<in> {1, 2, 4, 8}"
  shows "0 \<le> f" "f + L \<le> n" "cce_free (CCE_table st) f L"
    "st1 = st\<lparr>CCE_table := cce_mark (CCE_table st) f L, nCCE_used := nCCE_used st + L\<rparr>"
proof -
  have le: "L \<le> n" using assms(1,3) by (auto simp: cce_place_def split: if_splits)
  have "0 \<le> f \<and> f + L \<le> n \<and> cce_free (CCE_table st) f L
      \<and> st1 = st\<lparr>CCE_table := cce_mark (CCE_table st) f L, nCCE_used := nCCE_used st + L\<rparr>"
    using get_nCCE_offset_ok [OF assms(2) le assms(4), of "CCE_table st" rnti sf] assms(1)
    by (auto simp: cce_place_def split: if_splits)
  then show "0 \<le> f" "f + L \<le> n" "cce_free (CCE_table st) f L"
    "st1 = st\<lparr>CCE_table := cce_mark (CCE_table st) f L, nCCE_used := nCCE_used st + L\<rparr>" by simp_all
qed

lemma cce_place_not_ok:
  assumes "0 < L" "0 \<le> nCCE_used st" "common_dci \<or> L \<in> {1, 2, 4, 8}"
    and "cce_place n sf L common_dci rnti st = (s, f, st1)" "s \<noteq> Cce_ok"
  shows "s = Cce_full" "dl_pdus st1 = dl_pdus st" "hi_pdus st1 = hi_pdus st" "number_pdcch_ofdm_symbols st1 = number_pdcch_ofdm_symbols st"
proof -
  have "s = Cce_full \<and> dl_pdus st1 = dl_pdus st \<and> hi_pdus st1 = hi_pdus st \<and> number_pdcch_ofdm_symbols st1 = number_pdcch_ofdm_symbols st"
  proof (cases "nCCE_used st + L > n")
    case True
    then show ?thesis using assms(4,5) by (auto simp: cce_place_def)
  next
    case False
    then have "L \<le> n" using assms(2) by simp
    then show ?thesis using get_nCCE_offset_ok [OF assms(1) _ assms(3), of n "CCE_table st" rnti sf] assms(4,5) False
      by (auto simp: cce_place_def split: if_splits)
  qed
  then show "s = Cce_full" "dl_pdus st1 = dl_pdus st" "hi_pdus st1 = hi_pdus st" "number_pdcch_ofdm_symbols st1 = number_pdcch_ofdm_symbols st"
    by simp_all
qed

text \<open>What the allocation never changes: the requests without the positions it assigns.\<close>

definition requests :: "cce_state \<Rightarrow> dl_config_pdu list \<times> hi_dci0_pdu list \<times> int" where
  "requests st = (map (\<lambda>p. p\<lparr>cce_idx := 0\<rparr>) (dl_pdus st), map (\<lambda>p. p\<lparr>cce_index := 0\<rparr>) (hi_pdus st), number_pdcch_ofdm_symbols st)"

definition levels_ok :: "cce_state \<Rightarrow> bool" where
  "levels_ok st \<longleftrightarrow> (\<forall>p\<in>set (dl_pdus st). dl_pdu_type p = 0 \<longrightarrow> dl_aggregation_level p \<in> {1, 2, 4, 8})
     \<and> (\<forall>p\<in>set (hi_pdus st). hi_pdu_type p = 1 \<longrightarrow> hi_aggregation_level p \<in> {1, 2, 4, 8})"

definition dl_slots :: "int \<Rightarrow> cce_state \<Rightarrow> nat \<Rightarrow> dci_slot set" where
  "dl_slots t st i = (if dl_pdu_type (dl_pdus st ! i) = 0 \<and> dl_rnti_type (dl_pdus st ! i) = t then {Dl_slot i} else {})"

definition hi_slots :: "cce_state \<Rightarrow> nat \<Rightarrow> dci_slot set" where
  "hi_slots st i = (if hi_pdu_type (hi_pdus st ! i) = 1 then {Hi_slot i} else {})"

lemma requests_length: "requests st' = requests st \<Longrightarrow> length (dl_pdus st') = length (dl_pdus st) \<and> length (hi_pdus st') = length (hi_pdus st)"
  by (auto simp: requests_def dest: map_eq_imp_length_eq)

lemma requests_nth:
  assumes "requests st' = requests st"
  shows "i < length (dl_pdus st) \<Longrightarrow> (dl_pdus st' ! i)\<lparr>cce_idx := 0\<rparr> = (dl_pdus st ! i)\<lparr>cce_idx := 0\<rparr>"
    "i < length (hi_pdus st) \<Longrightarrow> (hi_pdus st' ! i)\<lparr>cce_index := 0\<rparr> = (hi_pdus st ! i)\<lparr>cce_index := 0\<rparr>"
proof -
  note len = requests_length [OF assms]
  have d: "map (\<lambda>p. p\<lparr>cce_idx := 0\<rparr>) (dl_pdus st') ! i = map (\<lambda>p. p\<lparr>cce_idx := 0\<rparr>) (dl_pdus st) ! i"
    and h: "map (\<lambda>p. p\<lparr>cce_index := 0\<rparr>) (hi_pdus st') ! i = map (\<lambda>p. p\<lparr>cce_index := 0\<rparr>) (hi_pdus st) ! i"
    using assms by (simp_all add: requests_def)
  show "i < length (dl_pdus st) \<Longrightarrow> (dl_pdus st' ! i)\<lparr>cce_idx := 0\<rparr> = (dl_pdus st ! i)\<lparr>cce_idx := 0\<rparr>" using d len by simp
  show "i < length (hi_pdus st) \<Longrightarrow> (hi_pdus st' ! i)\<lparr>cce_index := 0\<rparr> = (hi_pdus st ! i)\<lparr>cce_index := 0\<rparr>" using h len by simp
qed

lemma dl_fields:
  assumes "requests st' = requests st" "i < length (dl_pdus st)"
  shows "dl_pdu_type (dl_pdus st' ! i) = dl_pdu_type (dl_pdus st ! i)" "dl_rnti_type (dl_pdus st' ! i) = dl_rnti_type (dl_pdus st ! i)"
    "dl_aggregation_level (dl_pdus st' ! i) = dl_aggregation_level (dl_pdus st ! i)"
  using arg_cong [OF requests_nth(1) [OF assms], of dl_pdu_type] arg_cong [OF requests_nth(1) [OF assms], of dl_rnti_type]
    arg_cong [OF requests_nth(1) [OF assms], of dl_aggregation_level] by simp_all

lemma hi_fields:
  assumes "requests st' = requests st" "i < length (hi_pdus st)"
  shows "hi_pdu_type (hi_pdus st' ! i) = hi_pdu_type (hi_pdus st ! i)" "hi_aggregation_level (hi_pdus st' ! i) = hi_aggregation_level (hi_pdus st ! i)"
  using arg_cong [OF requests_nth(2) [OF assms], of hi_pdu_type] arg_cong [OF requests_nth(2) [OF assms], of hi_aggregation_level] by simp_all

lemma map_upd_same: "f y = f (xs ! i) \<Longrightarrow> map f (xs[i := y]) = map f xs"
  by (cases "i < length xs") (simp_all add: map_update list_update_same_conv list_update_beyond)

lemma requests_write_dl: "requests (cce_write_dl t i f st) = requests st"
  by (simp add: requests_def cce_write_dl_def map_upd_same)

text \<open>
  The contract of the three loop bodies: from a state whose marked elements are those of the slots \<open>A\<close>,
  body \<open>i\<close> adds the slots \<open>S i\<close>, or finds the control region full; it never crashes and keeps the requests.
\<close>

definition body_ok :: "int \<Rightarrow> (nat \<Rightarrow> cce_state \<Rightarrow> cce_status \<times> cce_state) \<Rightarrow> (nat \<Rightarrow> dci_slot set) \<Rightarrow> cce_state \<Rightarrow> nat \<Rightarrow> bool" where
  "body_ok n body S st0 i \<longleftrightarrow> (\<forall>st A s st'. requests st = requests st0 \<and> 0 \<le> nCCE_used st \<and> cce_inv n st A \<and> S i \<inter> A = {}
     \<and> body i st = (s, st') \<longrightarrow> s \<noteq> Cce_crash \<and> requests st' = requests st0 \<and> (s = Cce_ok \<longrightarrow> 0 \<le> nCCE_used st' \<and> cce_inv n st' (A \<union> S i)))"

lemma body_okD:
  assumes "body_ok n body S st0 i" "requests st = requests st0" "0 \<le> nCCE_used st" "cce_inv n st A" "S i \<inter> A = {}" "body i st = (s, st')"
  shows "s \<noteq> Cce_crash \<and> requests st' = requests st0 \<and> (s = Cce_ok \<longrightarrow> 0 \<le> nCCE_used st' \<and> cce_inv n st' (A \<union> S i))"
  using assms(1) [unfolded body_ok_def, rule_format, of st A s st'] assms(2-) by blast

lemma cce_loop_ok:
  assumes "\<forall>i\<in>set is. body_ok n body S st0 i" "distinct is" "\<forall>i\<in>set is. S i \<inter> A = {}" "\<forall>i j. i \<noteq> j \<longrightarrow> S i \<inter> S j = {}"
    and "requests st = requests st0" "0 \<le> nCCE_used st" "cce_inv n st A" "cce_loop body is st = (s, st')"
  shows "s \<noteq> Cce_crash \<and> requests st' = requests st0 \<and> (s = Cce_ok \<longrightarrow> 0 \<le> nCCE_used st' \<and> cce_inv n st' (A \<union> \<Union> (S ` set is)))"
  using assms
proof (induction "is" arbitrary: st A)
  case Nil
  then show ?case by simp
next
  case (Cons i js)
  obtain s1 st1 where b: "body i st = (s1, st1)" by fastforce
  have step: "s1 \<noteq> Cce_crash" "requests st1 = requests st0" "s1 = Cce_ok \<Longrightarrow> 0 \<le> nCCE_used st1 \<and> cce_inv n st1 (A \<union> S i)"
    using body_okD [where body = body and S = S and i = i, OF _ Cons.prems(5-7) _ b] Cons.prems(1,3) by simp_all
  show ?case
  proof (cases s1)
    case Cce_ok
    have "\<forall>j\<in>set js. S j \<inter> (A \<union> S i) = {}"
    proof
      fix j assume j: "j \<in> set js"
      then have "j \<noteq> i" using Cons.prems(2) by auto
      then have "S j \<inter> S i = {}" using Cons.prems(4) by blast
      moreover have "S j \<inter> A = {}" using Cons.prems(3) j by simp
      ultimately show "S j \<inter> (A \<union> S i) = {}" by blast
    qed
    moreover have "cce_loop body js st1 = (s, st')" using Cons.prems(8) b Cce_ok by simp
    moreover have "\<forall>j\<in>set js. body_ok n body S st0 j" "distinct js" using Cons.prems(1,2) by simp_all
    moreover have "A \<union> \<Union> (S ` set (i # js)) = (A \<union> S i) \<union> \<Union> (S ` set js)" by auto
    ultimately show ?thesis using Cons.IH [of "A \<union> S i" st1] Cons.prems(4) step(2) step(3) [OF Cce_ok] by (metis (no_types))
  next
    case Cce_full
    then show ?thesis using Cons.prems(8) step b by auto
  qed (use step in simp)
qed

lemma write_dl_base: "slot_base (cce_write_dl t i f st) s = (if s = Dl_slot i \<and> i < length (dl_pdus st) \<and> t mod 2 = 0 then to_u8 f else slot_base st s)"
  by (cases s; cases "i < length (dl_pdus st)") (auto simp: cce_write_dl_def nth_list_update list_update_beyond)

lemma write_dl_level: "slot_level (cce_write_dl t i f st) s = slot_level st s"
  by (cases s; cases "i < length (dl_pdus st)") (auto simp: cce_write_dl_def nth_list_update list_update_beyond)

lemma write_dl_rest [simp]:
  "CCE_table (cce_write_dl t i f st) = CCE_table st" "nCCE_used (cce_write_dl t i f st) = nCCE_used st"
  "ul_pdus (cce_write_dl t i f st) = ul_pdus st" "hi_pdus (cce_write_dl t i f st) = hi_pdus st"
  by (simp_all add: cce_write_dl_def)

text \<open>One downlink DCI that was placed and written.\<close>

lemma dl_placed:
  assumes inv: "cce_inv n st A" "n \<le> 255" "Dl_slot i \<notin> A" and i: "i < length (dl_pdus st)" "t mod 2 = 0"
    and pl: "cce_place n sf (dl_aggregation_level (dl_pdus st ! i)) c rnti st = (Cce_ok, f, st1)"
    and L: "dl_aggregation_level (dl_pdus st ! i) \<in> {1, 2, 4, 8}" "0 \<le> nCCE_used st"
  shows "cce_inv n (cce_write_dl t i f st1) (insert (Dl_slot i) A)" "0 \<le> nCCE_used (cce_write_dl t i f st1)"
    "requests (cce_write_dl t i f st1) = requests st"
proof -
  let ?L = "dl_aggregation_level (dl_pdus st ! i)"
  have pos: "0 < ?L" using L(1) by auto
  note p = cce_place_ok [OF pl pos L(2) disjI2 [OF L(1)]]
  have f: "to_u8 f = f" using p(1,2) pos inv(2) by (intro to_u8_id) auto
  have base: "slot_base st1 s = slot_base st s" "slot_level st1 s = slot_level st s" for s by (cases s; simp add: p(4))+
  show "cce_inv n (cce_write_dl t i f st1) (insert (Dl_slot i) A)"
  proof (rule cce_inv_insert [OF inv(1,2) p(1-3)])
    show "CCE_table (cce_write_dl t i f st1) = cce_mark (CCE_table st) f ?L" by (simp add: p(4))
    show "slot_base (cce_write_dl t i f st1) (Dl_slot i) = f" 
      using i f p(4) by (simp add: write_dl_base del: slot_base.simps)
    show "slot_level (cce_write_dl t i f st1) (Dl_slot i) = ?L" by (simp add: write_dl_level base(2) del: slot_level.simps) simp
    fix s' assume "s' \<in> A"
    then have "s' \<noteq> Dl_slot i" using inv(3) by blast
    then show "slot_base (cce_write_dl t i f st1) s' = slot_base st s' \<and> slot_level (cce_write_dl t i f st1) s' = slot_level st s'"
      by (simp add: write_dl_base write_dl_level base)
  qed
  show "0 \<le> nCCE_used (cce_write_dl t i f st1)" using L(2) pos by (simp add: p(4))
  show "requests (cce_write_dl t i f st1) = requests st" unfolding requests_write_dl by (simp add: requests_def p(4))
qed


lemma level_dl: "levels_ok st0 \<Longrightarrow> requests st = requests st0 \<Longrightarrow> i < length (dl_pdus st0) \<Longrightarrow> dl_pdu_type (dl_pdus st ! i) = 0
  \<Longrightarrow> dl_aggregation_level (dl_pdus st ! i) \<in> {1, 2, 4, 8}"
  using dl_fields [of st st0 i] by (simp add: levels_ok_def)

lemma level_hi: "levels_ok st0 \<Longrightarrow> requests st = requests st0 \<Longrightarrow> i < length (hi_pdus st0) \<Longrightarrow> hi_pdu_type (hi_pdus st ! i) = 1
  \<Longrightarrow> hi_aggregation_level (hi_pdus st ! i) \<in> {1, 2, 4, 8}"
  using hi_fields [of st st0 i] by (simp add: levels_ok_def)

lemma cce_dl_common_ok:
  assumes n: "n \<le> 255" and t: "t mod 2 = 0" and lev: "levels_ok st0" and i: "i < length (dl_pdus st0)"
  shows "body_ok n (cce_dl_common n sf t) (dl_slots 2 st0) st0 i"
  unfolding body_ok_def
proof (intro allI impI, elim conjE)
  fix st A s st'
  assume a: "requests st = requests st0" "0 \<le> nCCE_used st" "cce_inv n st A" "dl_slots 2 st0 i \<inter> A = {}" "cce_dl_common n sf t i st = (s, st')"
  note fld = dl_fields [OF a(1) i]
  show "s \<noteq> Cce_crash \<and> requests st' = requests st0 \<and> (s = Cce_ok \<longrightarrow> 0 \<le> nCCE_used st' \<and> cce_inv n st' (A \<union> dl_slots 2 st0 i))"
  proof (cases "dl_pdu_type (dl_pdus st ! i) = 0 \<and> dl_rnti_type (dl_pdus st ! i) = 2")
    case False
    then show ?thesis using a fld by (auto simp: cce_dl_common_def dl_slots_def Let_def)
  next
    case True
    obtain s1 f st1 where pl: "cce_place n sf (dl_aggregation_level (dl_pdus st ! i)) True (dl_rnti (dl_pdus st ! i)) st = (s1, f, st1)"
      by (metis prod_cases3)
    have L: "dl_aggregation_level (dl_pdus st ! i) \<in> {1, 2, 4, 8}" using level_dl [OF lev a(1) i] True by simp
    have S: "dl_slots 2 st0 i = {Dl_slot i}" using True fld by (simp add: dl_slots_def)
    have len: "i < length (dl_pdus st)" using requests_length [OF a(1)] i by simp
    show ?thesis
    proof (cases "s1 = Cce_ok")
      case ok: True
      then have "s = Cce_ok" "st' = cce_write_dl t i f st1" using a(5) True pl by (simp_all add: cce_dl_common_def Let_def)
      moreover have "Dl_slot i \<notin> A" using S a(4) by simp
      ultimately show ?thesis using dl_placed [OF a(3) n _ len t pl [unfolded ok] L a(2)] a(1) S by simp
    next
      case False
      then have "s = s1" "st' = st1" using a(5) True pl by (cases s1; simp add: cce_dl_common_def Let_def)+
      moreover have "0 < dl_aggregation_level (dl_pdus st ! i)" using L by auto
      ultimately show ?thesis using cce_place_not_ok [OF _ a(2) disjI2 [OF L] pl False] a(1) False by (simp add: requests_def)
    qed
  qed
qed

lemma cce_ul_ok:
  assumes n: "n \<le> 255" and t: "t mod 2 = 0" and lev: "levels_ok st0" and i: "i < length (hi_pdus st0)"
  shows "body_ok n (cce_ul n sf t) (hi_slots st0) st0 i"
  unfolding body_ok_def
proof (intro allI impI, elim conjE)
  fix st A s st'
  assume a: "requests st = requests st0" "0 \<le> nCCE_used st" "cce_inv n st A" "hi_slots st0 i \<inter> A = {}" "cce_ul n sf t i st = (s, st')"
  note fld = hi_fields [OF a(1) i]
  let ?p = "hi_pdus st ! i"
  show "s \<noteq> Cce_crash \<and> requests st' = requests st0 \<and> (s = Cce_ok \<longrightarrow> 0 \<le> nCCE_used st' \<and> cce_inv n st' (A \<union> hi_slots st0 i))"
  proof (cases "hi_pdu_type ?p = 1")
    case False
    then show ?thesis using a fld by (auto simp: cce_ul_def hi_slots_def Let_def)
  next
    case True
    obtain s1 f st1 where pl: "cce_place n sf (hi_aggregation_level ?p) False (hi_rnti ?p) st = (s1, f, st1)" by (metis prod_cases3)
    have L: "hi_aggregation_level ?p \<in> {1, 2, 4, 8}" using level_hi [OF lev a(1) i] True by simp
    then have pos: "0 < hi_aggregation_level ?p" by auto
    have S: "hi_slots st0 i = {Hi_slot i}" using True fld by (simp add: hi_slots_def)
    have len: "i < length (hi_pdus st)" using requests_length [OF a(1)] i by simp
    show ?thesis
    proof (cases "s1 = Cce_ok")
      case ok: True
      note p = cce_place_ok [OF pl [unfolded ok] pos a(2) disjI2 [OF L]]
      have st': "s = Cce_ok" "st' = st1\<lparr>hi_pdus := (hi_pdus st1)[i := ?p\<lparr>cce_index := to_u8 f\<rparr>]\<rparr>"
        using a(5) True pl ok t by (simp_all add: cce_ul_def Let_def)
      have f: "to_u8 f = f" using p(1,2) pos n by (intro to_u8_id) auto
      have "cce_inv n st' (insert (Hi_slot i) A)"
      proof (rule cce_inv_insert [OF a(3) n p(1-3)])
        show "CCE_table st' = cce_mark (CCE_table st) f (hi_aggregation_level ?p)" by (simp add: st'(2) p(4))
        show "slot_base st' (Hi_slot i) = f" "slot_level st' (Hi_slot i) = hi_aggregation_level ?p" using len f by (simp_all add: st'(2) p(4))
        fix s' assume "s' \<in> A"
        then have "s' \<noteq> Hi_slot i" using a(4) S by auto
        then show "slot_base st' s' = slot_base st s' \<and> slot_level st' s' = slot_level st s'" by (cases s') (auto simp: st'(2) p(4))
      qed
      moreover have "requests st' = requests st" using len by (simp add: requests_def st'(2) p(4) map_upd_same)
      ultimately show ?thesis using a(1,2) S st' p(4) pos by simp
    next
      case False
      then have "s = s1" "st' = st1" using a(5) True pl by (cases s1; simp add: cce_ul_def Let_def)+
      then show ?thesis using cce_place_not_ok [OF pos a(2) disjI2 [OF L] pl False] a(1) False by (simp add: requests_def)
    qed
  qed
qed

lemma harq_pucch_total: "0 \<le> dl_Bandwidth cc \<Longrightarrow> dl_Bandwidth cc < 6 \<Longrightarrow> those (map (cce_harq_pucch cc rnti f) us) \<noteq> None"
proof (induction us)
  case (Cons u us)
  then have "cce_harq_pucch cc rnti f u \<noteq> None" by (auto simp: cce_harq_pucch_def getNp_def Let_def split: option.split)
  then show ?case using Cons by auto
qed simp

lemma cce_dl_ue_ok:
  assumes n: "n \<le> 255" and t: "t mod 2 = 0" and lev: "levels_ok st0" and i: "i < length (dl_pdus st0)"
    and bw: "0 \<le> dl_Bandwidth cc" "dl_Bandwidth cc < 6"
  shows "body_ok n (cce_dl_ue cc n sf t) (dl_slots 1 st0) st0 i"
  unfolding body_ok_def
proof (intro allI impI, elim conjE)
  fix st A s st'
  assume a: "requests st = requests st0" "0 \<le> nCCE_used st" "cce_inv n st A" "dl_slots 1 st0 i \<inter> A = {}" "cce_dl_ue cc n sf t i st = (s, st')"
  note fld = dl_fields [OF a(1) i]
  show "s \<noteq> Cce_crash \<and> requests st' = requests st0 \<and> (s = Cce_ok \<longrightarrow> 0 \<le> nCCE_used st' \<and> cce_inv n st' (A \<union> dl_slots 1 st0 i))"
  proof (cases "dl_pdu_type (dl_pdus st ! i) = 0 \<and> dl_rnti_type (dl_pdus st ! i) = 1")
    case False
    then show ?thesis using a fld by (auto simp: cce_dl_ue_def dl_slots_def Let_def)
  next
    case True
    obtain s1 f st1 where pl: "cce_place n sf (dl_aggregation_level (dl_pdus st ! i)) False (dl_rnti (dl_pdus st ! i)) st = (s1, f, st1)"
      by (metis prod_cases3)
    have L: "dl_aggregation_level (dl_pdus st ! i) \<in> {1, 2, 4, 8}" using level_dl [OF lev a(1) i] True by simp
    have S: "dl_slots 1 st0 i = {Dl_slot i}" using True fld by (simp add: dl_slots_def)
    have len: "i < length (dl_pdus st)" using requests_length [OF a(1)] i by simp
    show ?thesis
    proof (cases "s1 = Cce_ok")
      case ok: True
      let ?w = "cce_write_dl t i f st1"
      have "\<exists>us. s = Cce_ok \<and> st' = ?w\<lparr>ul_pdus := us\<rparr>"
        using a(5) True pl ok harq_pucch_total [OF bw, of "dl_rnti (dl_pdus st ! i)" f "ul_pdus ?w"]
        by (auto simp: cce_dl_ue_def Let_def split: option.splits if_splits intro: exI [of _ "ul_pdus ?w"])
      then obtain us where u: "s = Cce_ok" "st' = ?w\<lparr>ul_pdus := us\<rparr>" by blast
      have "Dl_slot i \<notin> A" using S a(4) by simp
      note d = dl_placed [OF a(3) n this len t pl [unfolded ok] L a(2)]
      have "cce_inv n st' B = cce_inv n ?w B" for B
      proof -
        have "slot_base st' x = slot_base ?w x" "slot_level st' x = slot_level ?w x" for x by (cases x; simp add: u(2))+
        then show ?thesis by (simp add: cce_inv_def slot_cces_def u(2))
      qed
      then show ?thesis using d a(1) S u by (simp add: requests_def)
    next
      case False
      then have "s = s1" "st' = st1" using a(5) True pl by (cases s1; simp add: cce_dl_ue_def Let_def)+
      moreover have "0 < dl_aggregation_level (dl_pdus st ! i)" using L by auto
      ultimately show ?thesis using cce_place_not_ok [OF _ a(2) disjI2 [OF L] pl False] a(1) False by (simp add: requests_def)
    qed
  qed
qed

section \<open>A whole allocation\<close>

definition all_slots :: "cce_state \<Rightarrow> dci_slot set" where
  "all_slots st = \<Union> (dl_slots 2 st ` {..<length (dl_pdus st)}) \<union> \<Union> (hi_slots st ` {..<length (hi_pdus st)})
     \<union> \<Union> (dl_slots 1 st ` {..<length (dl_pdus st)})"

definition request_pdus :: "cce_state \<Rightarrow> dl_config_pdu list \<times> hi_dci0_pdu list" where
  "request_pdus st = (map (\<lambda>p. p\<lparr>cce_idx := 0\<rparr>) (dl_pdus st), map (\<lambda>p. p\<lparr>cce_index := 0\<rparr>) (hi_pdus st))"

lemma requests_pdus: "requests st' = requests st \<longleftrightarrow> request_pdus st' = request_pdus st \<and> number_pdcch_ofdm_symbols st' = number_pdcch_ofdm_symbols st"
  by (auto simp: requests_def request_pdus_def)

lemma slots_disjoint:
  "i \<noteq> j \<Longrightarrow> dl_slots t st i \<inter> dl_slots t st j = {}" "i \<noteq> j \<Longrightarrow> hi_slots st i \<inter> hi_slots st j = {}"
  "dl_slots t st i \<inter> hi_slots st j = {}" "dl_slots 1 st i \<inter> dl_slots 2 st j = {}"
  by (auto simp: dl_slots_def hi_slots_def)

lemma cce_pass_ok:
  assumes n: "n \<le> 255" and t: "t mod 2 = 0" and lev: "levels_ok st" and bw: "0 \<le> dl_Bandwidth cc" "dl_Bandwidth cc < 6"
    and run: "cce_pass cc n sf t st = (s, st')"
  shows "s \<noteq> Cce_crash \<and> requests st' = requests st \<and> (s = Cce_ok \<longrightarrow> cce_inv n st' (all_slots st))"
proof -
  let ?st0 = "st\<lparr>CCE_table := init_CCE_table, nCCE_used := 0\<rparr>"
  let ?D = "[0..<length (dl_pdus st)]" and ?H = "[0..<length (hi_pdus st)]"
  let ?A1 = "\<Union> (dl_slots 2 st ` set ?D)" and ?A2 = "\<Union> (hi_slots st ` set ?H)"
  have r0: "requests ?st0 = requests st" by (simp add: requests_def)
  obtain s1 st1 where l1: "cce_loop (cce_dl_common n sf t) ?D ?st0 = (s1, st1)" by fastforce
  have p1: "s1 \<noteq> Cce_crash \<and> requests st1 = requests st \<and> (s1 = Cce_ok \<longrightarrow> 0 \<le> nCCE_used st1 \<and> cce_inv n st1 ({} \<union> ?A1))"
    by (rule cce_loop_ok [OF _ _ _ _ r0 _ cce_inv_init l1]) (use cce_dl_common_ok [OF n t lev] slots_disjoint(1) in auto)
  show ?thesis
  proof (cases "s1 = Cce_ok")
    case False
    then show ?thesis using run l1 p1 by (cases s1) (auto simp: cce_pass_def Let_def)
  next
    case ok1: True
    have len1: "length (hi_pdus st1) = length (hi_pdus st)" using requests_length p1 by blast
    obtain s2 st2 where l2: "cce_loop (cce_ul n sf t) ?H st1 = (s2, st2)" by fastforce
    have p2: "s2 \<noteq> Cce_crash \<and> requests st2 = requests st \<and> (s2 = Cce_ok \<longrightarrow> 0 \<le> nCCE_used st2 \<and> cce_inv n st2 (({} \<union> ?A1) \<union> ?A2))"
      by (rule cce_loop_ok [OF _ _ _ _ _ _ _ l2])
        (use cce_ul_ok [OF n t lev] slots_disjoint(2,3) p1 ok1 in \<open>auto simp: disjoint_iff dl_slots_def hi_slots_def\<close>)
    show ?thesis
    proof (cases "s2 = Cce_ok")
      case False
      then show ?thesis using run l1 l2 ok1 p2 len1 by (cases s2) (auto simp: cce_pass_def Let_def)
    next
      case ok2: True
      have "length (dl_pdus st2) = length (dl_pdus st)" using requests_length p2 by blast
      then have l3: "cce_loop (cce_dl_ue cc n sf t) ?D st2 = (s, st')" using run l1 l2 ok1 ok2 len1 by (simp add: cce_pass_def Let_def)
      have "s \<noteq> Cce_crash \<and> requests st' = requests st
          \<and> (s = Cce_ok \<longrightarrow> 0 \<le> nCCE_used st' \<and> cce_inv n st' ((({} \<union> ?A1) \<union> ?A2) \<union> \<Union> (dl_slots 1 st ` set ?D)))"
        by (rule cce_loop_ok [OF _ _ _ _ _ _ _ l3])
          (use cce_dl_ue_ok [OF n t lev _ bw] slots_disjoint(1) p2 ok2 in \<open>auto simp: disjoint_iff dl_slots_def hi_slots_def split: if_splits\<close>)
      moreover have "(({} \<union> ?A1) \<union> ?A2) \<union> \<Union> (dl_slots 1 st ` set ?D) = all_slots st" by (simp add: all_slots_def atLeast0LessThan)
      ultimately show ?thesis by simp
    qed
  qed
qed

definition region_ok :: "common_channels \<Rightarrow> int \<Rightarrow> bool" where
  "region_ok cc sf \<longleftrightarrow> (\<forall>m\<in>{1, 2, 3}. case get_nCCE_max cc m sf of None \<Rightarrow> False | Some v \<Rightarrow> v \<le> 255)"

lemma region_bandwidth: "get_nCCE_max cc m sf = Some v \<Longrightarrow> 0 \<le> dl_Bandwidth cc \<and> dl_Bandwidth cc < 6"
  by (auto simp: get_nCCE_max_def getnCCE_def getnquad_def to_prb_def assert_index_def split: option.splits if_splits)

lemma all_slots_cong: "request_pdus st' = request_pdus st \<Longrightarrow> all_slots st' = all_slots st"
proof -
  assume r: "request_pdus st' = request_pdus st"
  let ?st = "st'\<lparr>number_pdcch_ofdm_symbols := number_pdcch_ofdm_symbols st\<rparr>"
  have q: "requests ?st = requests st" using r by (simp add: requests_pdus request_pdus_def)
  have "dl_slots t ?st i = dl_slots t st i" if "i < length (dl_pdus st)" for t i using dl_fields [OF q that] by (simp add: dl_slots_def)
  moreover have "hi_slots ?st i = hi_slots st i" if "i < length (hi_pdus st)" for i using hi_fields [OF q that] by (simp add: hi_slots_def)
  ultimately have "all_slots ?st = all_slots st" using requests_length [OF q] by (simp add: all_slots_def)
  then show ?thesis by (simp add: all_slots_def dl_slots_def hi_slots_def)
qed

lemma levels_ok_cong: "request_pdus st' = request_pdus st \<Longrightarrow> levels_ok st' = levels_ok st"
proof -
  assume r: "request_pdus st' = request_pdus st"
  have "levels_ok st \<longleftrightarrow> (\<forall>p\<in>set (fst (request_pdus st)). dl_pdu_type p = 0 \<longrightarrow> dl_aggregation_level p \<in> {1, 2, 4, 8})
     \<and> (\<forall>p\<in>set (snd (request_pdus st)). hi_pdu_type p = 1 \<longrightarrow> hi_aggregation_level p \<in> {1, 2, 4, 8})" for st
    by (auto simp: levels_ok_def request_pdus_def)
  then show ?thesis using r by presburger
qed

lemma cce_try_step:
  assumes "t mod 2 = 0" "levels_ok st" "region_ok cc sf" "1 \<le> n" "n \<le> mx" "mx \<le> 3"
  shows "\<exists>v s st1. get_nCCE_max cc n sf = Some v \<and> s \<noteq> Cce_crash \<and> request_pdus st1 = request_pdus st \<and> number_pdcch_ofdm_symbols st1 = n
    \<and> (s = Cce_ok \<longrightarrow> cce_inv v st1 (all_slots st))
    \<and> cce_try cc sf t mx n st = (if s = Cce_full \<and> n < mx then cce_try cc sf t mx (n + 1) st1 else (s, st1))"
proof -
  let ?st = "st\<lparr>number_pdcch_ofdm_symbols := n\<rparr>"
  have "n \<in> {1, 2, 3}" using assms(4-6) by auto
  then obtain v where v: "get_nCCE_max cc n sf = Some v" "v \<le> 255" using assms(3) unfolding region_ok_def by (fastforce split: option.splits)
  obtain s st1 where p: "cce_pass cc v sf t ?st = (s, st1)" by fastforce
  have pd: "request_pdus ?st = request_pdus st" by (simp add: request_pdus_def)
  have "levels_ok ?st" using levels_ok_cong [OF pd] assms(2) by simp
  then have "s \<noteq> Cce_crash \<and> requests st1 = requests ?st \<and> (s = Cce_ok \<longrightarrow> cce_inv v st1 (all_slots ?st))"
    using cce_pass_ok [OF v(2) assms(1) _ _ _ p] region_bandwidth [OF v(1)] by blast
  then have q: "s \<noteq> Cce_crash" "request_pdus st1 = request_pdus st" "number_pdcch_ofdm_symbols st1 = n" "s = Cce_ok \<longrightarrow> cce_inv v st1 (all_slots st)"
    using all_slots_cong [OF pd] pd by (simp_all add: requests_pdus)
  moreover have "cce_try cc sf t mx n st = (if s = Cce_full \<and> n < mx then cce_try cc sf t mx (n + 1) st1 else (s, st1))"
    using v(1) p q(1) assms(5) by (cases s) (simp_all add: cce_try.simps [of cc sf t mx n st])
  ultimately show ?thesis using v(1) by blast
qed

lemma cce_try_ok:
  assumes "t mod 2 = 0" "levels_ok st" "region_ok cc sf" "1 \<le> n" "n \<le> mx" "mx \<le> 3" "cce_try cc sf t mx n st = (s, st')"
  shows "s \<noteq> Cce_crash \<and> request_pdus st' = request_pdus st \<and> (s = Cce_ok \<longrightarrow>
    (\<exists>v. 1 \<le> number_pdcch_ofdm_symbols st' \<and> number_pdcch_ofdm_symbols st' \<le> mx
       \<and> get_nCCE_max cc (number_pdcch_ofdm_symbols st') sf = Some v \<and> cce_inv v st' (all_slots st)))"
  using assms
proof (induction "nat (mx - n)" arbitrary: n st)
  case 0
  obtain v s1 st1 where q: "get_nCCE_max cc n sf = Some v" "s1 \<noteq> Cce_crash" "request_pdus st1 = request_pdus st"
      "number_pdcch_ofdm_symbols st1 = n" "s1 = Cce_ok \<longrightarrow> cce_inv v st1 (all_slots st)"
      "cce_try cc sf t mx n st = (if s1 = Cce_full \<and> n < mx then cce_try cc sf t mx (n + 1) st1 else (s1, st1))"
    using cce_try_step [OF 0(2-7)] by blast
  moreover have "\<not> n < mx" using 0(1) by simp
  ultimately show ?case using 0(5,6,8) by auto
next
  case (Suc k)
  obtain v s1 st1 where q: "get_nCCE_max cc n sf = Some v" "s1 \<noteq> Cce_crash" "request_pdus st1 = request_pdus st"
      "number_pdcch_ofdm_symbols st1 = n" "s1 = Cce_ok \<longrightarrow> cce_inv v st1 (all_slots st)"
      "cce_try cc sf t mx n st = (if s1 = Cce_full \<and> n < mx then cce_try cc sf t mx (n + 1) st1 else (s1, st1))"
    using cce_try_step [OF Suc(3-8)] by blast
  have lt: "n < mx" "k = nat (mx - (n + 1))" using Suc(2) by auto
  show ?case
  proof (cases "s1 = Cce_full")
    case True
    then have run: "cce_try cc sf t mx (n + 1) st1 = (s, st')" using q(6) lt(1) Suc(9) by simp
    have lev: "levels_ok st1" using levels_ok_cong [OF q(3)] Suc(4) by simp
    have "n + 1 \<le> mx" "1 \<le> n + 1" using lt(1) Suc(6) by auto
    from Suc(1) [OF lt(2) Suc(3) lev Suc(5) this(2,1) Suc(8) run] show ?thesis using q(3) all_slots_cong [OF q(3)] by simp
  next
    case False
    then show ?thesis using q Suc(6,7,9) by auto
  qed
qed

lemma allocate_CCEs_cases:
  assumes "test_onlyP mod 2 = 0" "levels_ok st" "region_ok cc subframeP"
  obtains (ok) st' v where "allocate_CCEs cc subframeP test_onlyP st = (Some 0, st')" "request_pdus st' = request_pdus st"
      "1 \<le> number_pdcch_ofdm_symbols st'" "number_pdcch_ofdm_symbols st' \<le> 3"
      "get_nCCE_max cc (number_pdcch_ofdm_symbols st') subframeP = Some v" "cce_inv v st' (all_slots st)"
    | (full) st' where "allocate_CCEs cc subframeP test_onlyP st = (Some (-1), st')" "request_pdus st' = request_pdus st"
proof -
  define mx where "mx = (if subframeAssignment cc \<noteq> None \<and> is_S_sf cc subframeP > 0 then 2 else 3 :: int)"
  obtain s st' where run: "cce_try cc subframeP test_onlyP mx 1 st = (s, st')" by fastforce
  have mx: "1 \<le> mx" "mx \<le> 3" by (simp_all add: mx_def)
  have eq: "allocate_CCEs cc subframeP test_onlyP st = (case s of Cce_ok \<Rightarrow> (Some 0, st') | Cce_full \<Rightarrow> (Some (-1), st') | Cce_crash \<Rightarrow> (None, st'))"
    using run by (cases s) (simp_all add: allocate_CCEs_def Let_def mx_def)
  have q: "s \<noteq> Cce_crash \<and> request_pdus st' = request_pdus st \<and> (s = Cce_ok \<longrightarrow>
      (\<exists>v. 1 \<le> number_pdcch_ofdm_symbols st' \<and> number_pdcch_ofdm_symbols st' \<le> mx
       \<and> get_nCCE_max cc (number_pdcch_ofdm_symbols st') subframeP = Some v \<and> cce_inv v st' (all_slots st)))"
    using cce_try_ok [OF assms _ mx run] by simp
  show ?thesis
  proof (cases s)
    case Cce_ok
    then show ?thesis using q eq mx ok [of st'] by auto
  next
    case Cce_full
    then show ?thesis using q eq full [of st'] by auto
  qed (use q in simp)
qed

section \<open>Properties\<close>


definition fdd_cc :: common_channels where
  "fdd_cc = \<lparr>dl_Bandwidth = 2, phich_Resource = 2, Ncp = 0, subframeAssignment = None, n1PUCCH_AN = 32\<rparr>"

definition two_dcis :: cce_state where
  "two_dcis = \<lparr>CCE_table = [], nCCE_used = 0, number_pdcch_ofdm_symbols = 0,
     dl_pdus = [\<lparr>dl_pdu_type = 0, dl_rnti_type = 2, dl_rnti = 65535, dl_aggregation_level = 4, cce_idx = 0\<rparr>,
                \<lparr>dl_pdu_type = 0, dl_rnti_type = 1, dl_rnti = 4660, dl_aggregation_level = 2, cce_idx = 0\<rparr>],
     hi_pdus = [\<lparr>hi_pdu_type = 1, hi_rnti = 4660, hi_aggregation_level = 2, cce_index = 0\<rparr>], ul_pdus = []\<rparr>"

lemma fdd_cc_region: "region_ok fdd_cc sf"
  by (simp add: region_ok_def fdd_cc_def get_nCCE_max_def getnCCE_def getnquad_def getmi_def to_prb_def assert_index_def
      get_phich_resource_times6_def phich_groups_def Let_def to_u8_def to_u16_def)





lemma times6_values: "0 \<le> phich_Resource cc \<Longrightarrow> phich_Resource cc < 4 \<Longrightarrow> \<exists>r\<in>{1, 3, 6, 12}. get_phich_resource_times6 cc = Some r"
  proof -
  assume "0 \<le> phich_Resource cc" "phich_Resource cc < 4"
  then have "phich_Resource cc = 0 \<or> phich_Resource cc = 1 \<or> phich_Resource cc = 2 \<or> phich_Resource cc = 3" by arith
  then show ?thesis by (elim disjE) (simp_all add: get_phich_resource_times6_def assert_index_def)
qed

lemma prb_values: "0 \<le> b \<Longrightarrow> b < 6 \<Longrightarrow> \<exists>N\<in>{6, 15, 25, 50, 75, 100}. to_prb b = Some N"
  proof -
  assume "0 \<le> b" "b < 6"
  then have "b = 0 \<or> b = 1 \<or> b = 2 \<or> b = 3 \<or> b = 4 \<or> b = 5" by arith
  then show ?thesis by (elim disjE) (simp_all add: to_prb_def assert_index_def)
qed

lemma phich_groups_bound:
  assumes "r \<in> {1, 3, 6, 12}" "N \<in> {6, 15, 25, 50, 75, 100}" "ncp \<noteq> 1" "mi \<in> {0, 1}"
  shows "0 \<le> phich_groups r N ncp mi \<and> 3 * phich_groups r N ncp mi \<le> N"
  using assms(1,2,4) unfolding insert_iff empty_iff
  by (elim disjE) (simp_all add: phich_groups_def Let_def to_u8_def assms(3))

text \<open>
  With the normal cyclic prefix and a PHICH factor of at most one, that is in FDD and in every TDD
  subframe except 0 and 5 of configuration 0, the control region of one to three symbols has at most
  88 elements for every bandwidth and PHICH resource, within the table of 800.
\<close>
theorem get_nCCE_max_bounds:
  assumes "Ncp cc \<noteq> 1" "getmi cc subframe \<le> 1" "0 \<le> dl_Bandwidth cc" "dl_Bandwidth cc < 6" "0 \<le> phich_Resource cc" "phich_Resource cc < 4"
    and "n \<in> {1, 2, 3}"
  shows "\<exists>v. get_nCCE_max cc n subframe = Some v \<and> 0 \<le> v \<and> v \<le> 88"
proof -
  have mi: "getmi cc subframe \<in> {0, 1}" using assms(2) by (auto simp: getmi_def split: option.splits if_splits)
  obtain r where r: "get_phich_resource_times6 cc = Some r" "r \<in> {1, 3, 6, 12}" using times6_values [OF assms(5,6)] by blast
  obtain N where N: "to_prb (dl_Bandwidth cc) = Some N" "N \<in> {6, 15, 25, 50, 75, 100}" using prb_values [OF assms(3,4)] by blast
  have g: "0 \<le> phich_groups r N (Ncp cc) (getmi cc subframe)" "3 * phich_groups r N (Ncp cc) (getmi cc subframe) \<le> N"
    using phich_groups_bound [OF r(2) N(2) assms(1) mi] by simp_all
  have n: "to_u8 n = n" "0 < n" "n < 4" using assms(7) by (auto simp: to_u8_def)
  define v where "v = (if N = 15 \<or> N = 75 then 0 else ((if N = 6 then 18 * n - 6 else 3 * N * n - N) - 4 - 3 * phich_groups r N (Ncp cc) (getmi cc subframe)) div 9)"
  have "get_nCCE_max cc n subframe = Some v"
    using N(2) n g unfolding insert_iff empty_iff
    by (elim disjE) (simp_all add: get_nCCE_max_def getnCCE_def getnquad_def N(1) r(1) Let_def v_def to_u16_def algebra_simps)
  moreover have "0 \<le> v" "v \<le> 88" using N(2) n g by (auto simp: v_def)
  ultimately show ?thesis by blast
qed

theorem get_nCCE_max_bounds_witness: "\<exists>v. get_nCCE_max fdd_cc 3 7 = Some v \<and> 0 \<le> v \<and> v \<le> 88"
  using get_nCCE_max_bounds [of fdd_cc 7 3] by (simp add: fdd_cc_def getmi_def)

text \<open>
  In subframe 0 of TDD configuration 0 at 1.4 MHz with PHICH resource two, the number of
  resource element quadruplets wraps below zero and the control region seems to have 7281 elements.
\<close>

lemma get_nCCE_max_wraps:
  "get_nCCE_max \<lparr>dl_Bandwidth = 0, phich_Resource = 3, Ncp = 0, subframeAssignment = Some 0, n1PUCCH_AN = 0\<rparr> 1 0 = Some 7281"
  by code_simp

text \<open>
  The feasibility test leaves the requests as they were; unless the request is already full it
  answers exactly whether the allocation fails once the additional DCI is put behind the others.
\<close>
theorem CCE_allocation_infeasible_correct:
  assumes "levels_ok st" "region_ok cc subframe" "aggregation \<in> {1, 2, 4, 8}" "length (dl_pdus st) \<noteq> 100" "length (hi_pdus st) \<noteq> 100"
  shows "\<exists>b st'. CCE_allocation_infeasible cc format_flag subframe aggregation rnti st = (Some b, st') \<and> request_pdus st' = request_pdus st
    \<and> (b \<longleftrightarrow> fst (allocate_CCEs cc subframe 0
          (if format_flag \<noteq> 2
           then st\<lparr>dl_pdus := dl_pdus st @ [\<lparr>dl_pdu_type = 0, dl_rnti_type = (if format_flag = 0 then 2 else 1), dl_rnti = to_u16 rnti,
                                             dl_aggregation_level = aggregation, cce_idx = 0\<rparr>]\<rparr>
           else st\<lparr>hi_pdus := hi_pdus st @ [\<lparr>hi_pdu_type = 1, hi_rnti = to_u16 rnti, hi_aggregation_level = aggregation, cce_index = 0\<rparr>]\<rparr>))
        = Some (-1))"
proof -
  define p where "p = \<lparr>dl_pdu_type = 0, dl_rnti_type = (if format_flag = 0 then 2 else 1), dl_rnti = to_u16 rnti,
     dl_aggregation_level = aggregation, cce_idx = 0\<rparr>"
  define q where "q = \<lparr>hi_pdu_type = 1, hi_rnti = to_u16 rnti, hi_aggregation_level = aggregation, cce_index = 0\<rparr>"
  have lv: "to_u8 aggregation = aggregation" using assms(3) by (auto simp: to_u8_def)
  then have lev: "dl_aggregation_level p = aggregation" "hi_aggregation_level q = aggregation" by (simp_all add: p_def q_def)
  have ext: "levels_ok (st\<lparr>dl_pdus := dl_pdus st @ [p]\<rparr>)" "levels_ok (st\<lparr>hi_pdus := hi_pdus st @ [q]\<rparr>)"
    using assms(1,3) lev by (simp_all add: levels_ok_def)
  have mod: "(0 :: int) mod 2 = 0" by simp
  have res: "\<exists>r st1. allocate_CCEs cc subframe 0 x = (Some r, st1) \<and> request_pdus st1 = request_pdus x" if "levels_ok x" for x
    using mod that assms(2) by (cases rule: allocate_CCEs_cases) auto
  show ?thesis
  proof (cases "format_flag = 2")
    case False
    obtain r st1 where a: "allocate_CCEs cc subframe 0 (st\<lparr>dl_pdus := dl_pdus st @ [p]\<rparr>) = (Some r, st1)"
        "request_pdus st1 = request_pdus (st\<lparr>dl_pdus := dl_pdus st @ [p]\<rparr>)" using res [OF ext(1)] by blast
    have "CCE_allocation_infeasible cc format_flag subframe aggregation rnti st = (Some (r = -1), st1\<lparr>dl_pdus := butlast (dl_pdus st1)\<rparr>)"
      using a(1) False assms(4) by (simp add: CCE_allocation_infeasible_def Let_def p_def lv)
    moreover have "request_pdus (st1\<lparr>dl_pdus := butlast (dl_pdus st1)\<rparr>) = request_pdus st"
      using a(2) by (auto simp: request_pdus_def map_butlast)
    ultimately show ?thesis using a(1) False by (simp add: p_def)
  next
    case True
    obtain r st1 where a: "allocate_CCEs cc subframe 0 (st\<lparr>hi_pdus := hi_pdus st @ [q]\<rparr>) = (Some r, st1)"
        "request_pdus st1 = request_pdus (st\<lparr>hi_pdus := hi_pdus st @ [q]\<rparr>)" using res [OF ext(2)] by blast
    have "CCE_allocation_infeasible cc format_flag subframe aggregation rnti st = (Some (r = -1), st1\<lparr>hi_pdus := butlast (hi_pdus st1)\<rparr>)"
      using a(1) True assms(5) by (simp add: CCE_allocation_infeasible_def Let_def q_def lv)
    moreover have "request_pdus (st1\<lparr>hi_pdus := butlast (hi_pdus st1)\<rparr>) = request_pdus st"
      using a(2) by (auto simp: request_pdus_def map_butlast)
    ultimately show ?thesis using a(1) True by (simp add: q_def)
  qed
qed

theorem CCE_allocation_infeasible_correct_witness:
  "\<exists>b st'. CCE_allocation_infeasible fdd_cc 1 3 8 4661 two_dcis = (Some b, st') \<and> request_pdus st' = request_pdus two_dcis"
proof -
  have "levels_ok two_dcis" "length (dl_pdus two_dcis) = 2" "length (hi_pdus two_dcis) = 1" by (simp_all add: levels_ok_def two_dcis_def)
  then show ?thesis using CCE_allocation_infeasible_correct [of two_dcis fdd_cc 3 8 1 4661] fdd_cc_region by auto
qed

text \<open>When the request is full the test answers that the DCI fits.\<close>

lemma infeasible_full_request: "length (dl_pdus st) = 100 \<Longrightarrow> CCE_allocation_infeasible cc 1 sf L rnti st = (Some False, st)"
  by (simp add: CCE_allocation_infeasible_def)

end
