(* ===== verification/Mac_Ue_List.thy ===== *)
theory Mac_Ue_List
  imports Mac_Cce
begin

text \<open>
  The table of UEs of the MAC of an eNB (\<open>UE_list_t\<close> in \<open>mac.h\<close>) and the functions that add, find,
  remove and reorder its entries (\<open>eNB_scheduler_primitives.c\<close>, \<open>main.c\<close>). Downlink and uplink order are
  two singly linked lists over the entries, \<open>head\<close>/\<open>next\<close> and \<open>head_ul\<close>/\<open>next_ul\<close>, ended by -1.

  An array is a function of its indices. Of the C structures the fields these functions and the
  pre-processors use are kept; the table has the 16 entries of the default build. An access outside an
  array, and a loop that does not end, is \<open>None\<close>. C's \<open>next\<close> and \<open>round\<close> are \<open>next_dl\<close> and
  \<open>harq_round\<close> here.

  The lemmas show that a well-formed table stays well formed, what looking up a UE gives after one is
  added or removed, that swapping exchanges two entries of a list, and when removal goes wrong.
\<close>

section \<open>Data\<close>

definition MAX_MOBILES_PER_ENB :: int where
  "MAX_MOBILES_PER_ENB = 16"

abbreviation (input) NOT_A_RNTI :: int where
  "NOT_A_RNTI \<equiv> 0"

record ue_template =
  rnti :: int
  configured :: bool
  oldNDI :: "int \<Rightarrow> int"
  oldNDI_UL :: "int \<Rightarrow> int"
  nb_rb :: "int \<Rightarrow> int"
  nb_rb_ul :: "int \<Rightarrow> int"
  pre_allocated_nb_rb_ul :: "int \<Rightarrow> int"
  pre_allocated_rb_table_index_ul :: int
  pre_assigned_mcs_ul :: int
  ul_SR :: int
  lcgidpriority :: "int \<Rightarrow> int"
  phr_info :: int
  dl_buffer_info :: "int \<Rightarrow> int"
  dl_buffer_total :: int
  dl_pdus_total :: int
  dl_pdus_in_buffer :: "int \<Rightarrow> int"
  dl_buffer_head_sdu_creation_time :: "int \<Rightarrow> int"
  dl_buffer_head_sdu_creation_time_max :: int
  dl_buffer_head_sdu_is_segmented :: "int \<Rightarrow> int"
  dl_buffer_head_sdu_remaining_size_to_send :: "int \<Rightarrow> int"
  ul_buffer_info :: "int \<Rightarrow> int"
  scheduled_ul_bytes :: int
  estimated_ul_buffer :: int
  rach_resource_type :: int

record ue_sched_ctrl =
  max_rbs_allowed_slice :: "int \<Rightarrow> int \<Rightarrow> int"
  max_rbs_allowed_slice_uplink :: "int \<Rightarrow> int \<Rightarrow> int"
  harq_round :: "int \<Rightarrow> int \<Rightarrow> int"
  round_UL :: "int \<Rightarrow> int \<Rightarrow> int"
  dl_pow_off :: "int \<Rightarrow> int"
  pre_nb_available_rbs :: "int \<Rightarrow> int"
  rballoc_sub_UE :: "int \<Rightarrow> int \<Rightarrow> int"
  ta_timer :: int
  ta_update :: int
  ul_inactivity_timer :: int
  ul_failure_timer :: int
  ue_reestablishment_reject_timer :: int
  ul_scheduled :: int
  ul_out_of_sync :: int
  phr_received :: int
  dl_cqi :: "int \<Rightarrow> int"

record enb_ue_stats =
  dlsch_mcs1 :: int
  total_rbs_used :: int
  total_rbs_used_retx :: int
  num_pdu_tx :: "int \<Rightarrow> int"
  num_bytes_tx :: "int \<Rightarrow> int"
  num_retransmission :: int
  total_sdu_bytes :: int
  total_pdu_bytes :: int
  total_num_pdus :: int
  total_rbs_used_rx :: int
  num_pdu_rx :: "int \<Rightarrow> int"
  num_bytes_rx :: "int \<Rightarrow> int"
  num_errors_rx :: int
  total_pdu_bytes_rx :: int
  total_num_pdus_rx :: int
  total_num_errors_rx :: int

record ue_list =
  UE_template :: "int \<Rightarrow> int \<Rightarrow> ue_template"
  pCC_id :: "int \<Rightarrow> int"
  ordered_CCids :: "int \<Rightarrow> int \<Rightarrow> int"
  numactiveCCs :: "int \<Rightarrow> int"
  ordered_ULCCids :: "int \<Rightarrow> int \<Rightarrow> int"
  numactiveULCCs :: "int \<Rightarrow> int"
  eNB_UE_stats :: "int \<Rightarrow> int \<Rightarrow> enb_ue_stats"
  UE_sched_ctrl :: "int \<Rightarrow> ue_sched_ctrl"
  next_dl :: "int \<Rightarrow> int"
  head_dl :: int
  next_ul :: "int \<Rightarrow> int"
  head_ul :: int
  avail :: int
  num_UEs :: int
  active :: "int \<Rightarrow> bool"
  sorting_criteria :: "int \<Rightarrow> int \<Rightarrow> int"
  first_rb_offset :: "int \<Rightarrow> int \<Rightarrow> int"
  assoc_dl_slice_idx :: "int \<Rightarrow> int"
  assoc_ul_slice_idx :: "int \<Rightarrow> int"

datatype ra_state = IDLE | MSG2 | WAITMSG3 | MSG4 | WAITMSG4ACK | MSGCRNTI | MSGCRNTI_ACK

record ra_t =
  ra_state :: ra_state
  ra_rnti :: int
  timing_offset :: int
  RRC_timer :: int
  msg3_round :: int

datatype sch_status = S_NONE | S_WAITING | S_SCHEDULED | S_BUFFERED

record sch_info =
  sch_rnti :: int
  serving_num :: int
  sch_status :: sch_status

record rrc_release_ctrl =
  rel_flag :: int
  rel_rnti :: int

record mac_inst =
  UE_list :: ue_list
  ra :: "int \<Rightarrow> ra_t list"
  ulsch_info :: "int \<Rightarrow> int \<Rightarrow> sch_info"
  dlsch_info :: "int \<Rightarrow> int \<Rightarrow> sch_info"
  release_num_UEs :: int
  RRC_release_ctrl :: "rrc_release_ctrl list"

definition upd2 :: "('a \<Rightarrow> 'b \<Rightarrow> 'c) \<Rightarrow> 'a \<Rightarrow> 'b \<Rightarrow> 'c \<Rightarrow> 'a \<Rightarrow> 'b \<Rightarrow> 'c" where
  "upd2 f i j v = (\<lambda>x y. if x = i \<and> y = j then v else f x y)"

definition ue_template_0 :: ue_template where
  "ue_template_0 = \<lparr>rnti = 0, configured = False, oldNDI = (\<lambda>_. 0), oldNDI_UL = (\<lambda>_. 0), nb_rb = (\<lambda>_. 0), nb_rb_ul = (\<lambda>_. 0),
     pre_allocated_nb_rb_ul = (\<lambda>_. 0), pre_allocated_rb_table_index_ul = 0, pre_assigned_mcs_ul = 0, ul_SR = 0,
     lcgidpriority = (\<lambda>_. 0), phr_info = 0, dl_buffer_info = (\<lambda>_. 0), dl_buffer_total = 0, dl_pdus_total = 0,
     dl_pdus_in_buffer = (\<lambda>_. 0), dl_buffer_head_sdu_creation_time = (\<lambda>_. 0), dl_buffer_head_sdu_creation_time_max = 0,
     dl_buffer_head_sdu_is_segmented = (\<lambda>_. 0), dl_buffer_head_sdu_remaining_size_to_send = (\<lambda>_. 0),
     ul_buffer_info = (\<lambda>_. 0), scheduled_ul_bytes = 0, estimated_ul_buffer = 0, rach_resource_type = 0\<rparr>"

definition ue_sched_ctrl_0 :: ue_sched_ctrl where
  "ue_sched_ctrl_0 = \<lparr>max_rbs_allowed_slice = (\<lambda>_ _. 0), max_rbs_allowed_slice_uplink = (\<lambda>_ _. 0), harq_round = (\<lambda>_ _. 0),
     round_UL = (\<lambda>_ _. 0), dl_pow_off = (\<lambda>_. 0), pre_nb_available_rbs = (\<lambda>_. 0), rballoc_sub_UE = (\<lambda>_ _. 0), ta_timer = 0,
     ta_update = 0, ul_inactivity_timer = 0, ul_failure_timer = 0, ue_reestablishment_reject_timer = 0, ul_scheduled = 0,
     ul_out_of_sync = 0, phr_received = 0, dl_cqi = (\<lambda>_. 0)\<rparr>"

definition enb_ue_stats_0 :: enb_ue_stats where
  "enb_ue_stats_0 = \<lparr>dlsch_mcs1 = 0, total_rbs_used = 0, total_rbs_used_retx = 0, num_pdu_tx = (\<lambda>_. 0), num_bytes_tx = (\<lambda>_. 0),
     num_retransmission = 0, total_sdu_bytes = 0, total_pdu_bytes = 0, total_num_pdus = 0, total_rbs_used_rx = 0,
     num_pdu_rx = (\<lambda>_. 0), num_bytes_rx = (\<lambda>_. 0), num_errors_rx = 0, total_pdu_bytes_rx = 0, total_num_pdus_rx = 0,
     total_num_errors_rx = 0\<rparr>"

section \<open>Initialisation and lookup\<close>

definition init_UE_list :: "ue_list \<Rightarrow> ue_list" where
  "init_UE_list l =
     l\<lparr>num_UEs := 0, head_dl := -1, head_ul := -1, avail := 0,
       next_dl := (\<lambda>i. if i = MAX_MOBILES_PER_ENB - 1 then -1 else if 0 \<le> i \<and> i < MAX_MOBILES_PER_ENB - 1 then i + 1 else next_dl l i),
       next_ul := (\<lambda>i. if i = MAX_MOBILES_PER_ENB - 1 then -1 else if 0 \<le> i \<and> i < MAX_MOBILES_PER_ENB - 1 then i + 1 else next_ul l i),
       UE_template := (\<lambda>_ _. ue_template_0), eNB_UE_stats := (\<lambda>_ _. enb_ue_stats_0), UE_sched_ctrl := (\<lambda>_. ue_sched_ctrl_0),
       active := (\<lambda>_. False), assoc_dl_slice_idx := (\<lambda>_. 0), assoc_ul_slice_idx := (\<lambda>_. 0)\<rparr>"

definition first_id :: "(int \<Rightarrow> bool) \<Rightarrow> int" where
  "first_id P = (case find P [0..MAX_MOBILES_PER_ENB - 1] of None \<Rightarrow> -1 | Some i \<Rightarrow> i)"

definition UE_RNTI :: "ue_list \<Rightarrow> int \<Rightarrow> int" where
  "UE_RNTI l ue = (let r = rnti (UE_template l (pCC_id l ue) ue) in if r > 0 then r else NOT_A_RNTI)"

definition find_UE_id :: "ue_list \<Rightarrow> int \<Rightarrow> int" where
  "find_UE_id l rntiP = first_id (\<lambda>ue. active l ue \<and> rnti (UE_template l (pCC_id l ue) ue) = rntiP)"

fun find_RA_from :: "ra_t list \<Rightarrow> int \<Rightarrow> int \<Rightarrow> int" where
  "find_RA_from [] i rntiP = -1"
| "find_RA_from (r # rs) i rntiP = (if ra_state r \<noteq> IDLE \<and> ra_rnti r = rntiP then i else find_RA_from rs (i + 1) rntiP)"

definition find_RA_id :: "ra_t list \<Rightarrow> int \<Rightarrow> int" where
  "find_RA_id ras rntiP = find_RA_from ras 0 rntiP"

definition cancel_ra_proc :: "int \<Rightarrow> ra_t list \<Rightarrow> ra_t list" where
  "cancel_ra_proc rntiP ras =
     map (\<lambda>r. if rntiP = ra_rnti r
              then r\<lparr>ra_state := IDLE, timing_offset := 0, RRC_timer := 20, ra_rnti := 0, msg3_round := 0\<rparr> else r) ras"

section \<open>Adding a UE\<close>

definition add_template :: "int \<Rightarrow> int \<Rightarrow> int \<Rightarrow> ue_template" where
  "add_template rntiP harq_pidP rach =
     ue_template_0\<lparr>rnti := rntiP, configured := False, pre_assigned_mcs_ul := 0, rach_resource_type := rach,
       oldNDI := (\<lambda>j. if 0 \<le> j \<and> j < 8 then (if j = 0 then 1 else 0) else 0),
       oldNDI_UL := (\<lambda>j. if 0 \<le> j \<and> j < 8 then (if j = harq_pidP then 0 else 1) else 0)\<rparr>"

definition add_sched_ctrl :: "int \<Rightarrow> ue_sched_ctrl" where
  "add_sched_ctrl cc =
     ue_sched_ctrl_0\<lparr>ue_reestablishment_reject_timer := 0, ta_update := 31,
       harq_round := (\<lambda>c j. if c = cc \<and> 0 \<le> j \<and> j < 8 then 8 else 0), round_UL := (\<lambda>_ _. 0)\<rparr>"

definition add_new_ue :: "int \<Rightarrow> int \<Rightarrow> int \<Rightarrow> int \<Rightarrow> mac_inst \<Rightarrow> int \<times> mac_inst" where
  "add_new_ue cc_idP rntiP harq_pidP rach m =
     (let l = UE_list m; ue = first_id (\<lambda>i. \<not> active l i) in
      if ue = -1 then (-1, m)
      else
        let l' = l\<lparr>UE_template := upd2 (UE_template l) cc_idP ue (add_template rntiP harq_pidP rach),
                   numactiveCCs := (numactiveCCs l)(ue := 1), numactiveULCCs := (numactiveULCCs l)(ue := 1),
                   pCC_id := (pCC_id l)(ue := cc_idP),
                   ordered_CCids := upd2 (ordered_CCids l) 0 ue cc_idP, ordered_ULCCids := upd2 (ordered_ULCCids l) 0 ue cc_idP,
                   num_UEs := num_UEs l + 1, active := (active l)(ue := True),
                   UE_sched_ctrl := (UE_sched_ctrl l)(ue := add_sched_ctrl cc_idP),
                   eNB_UE_stats := upd2 (eNB_UE_stats l) cc_idP ue enb_ue_stats_0,
                   assoc_dl_slice_idx := (assoc_dl_slice_idx l)(ue := 0), assoc_ul_slice_idx := (assoc_ul_slice_idx l)(ue := 0)\<rparr> in
        (ue, m\<lparr>UE_list := l',
               ulsch_info := upd2 (ulsch_info m) cc_idP ue ((ulsch_info m cc_idP ue)\<lparr>sch_status := S_WAITING\<rparr>),
               dlsch_info := upd2 (dlsch_info m) cc_idP ue ((dlsch_info m cc_idP ue)\<lparr>sch_status := S_WAITING\<rparr>)\<rparr>))"

section \<open>The linked lists\<close>

partial_function (option) prev_loop :: "(int \<Rightarrow> int) \<Rightarrow> int \<Rightarrow> int \<Rightarrow> int option" where
  "prev_loop nxt nodeP j = (if j < 0 then Some (-1) else if nxt j = nodeP then Some j else prev_loop nxt nodeP (nxt j))"

declare prev_loop.simps [code]

definition prev_node :: "int \<Rightarrow> (int \<Rightarrow> int) \<Rightarrow> int \<Rightarrow> int option" where
  "prev_node front nxt nodeP = (if nodeP = front then Some nodeP else prev_loop nxt nodeP front)"

definition prev :: "ue_list \<Rightarrow> int \<Rightarrow> int \<Rightarrow> int option" where
  "prev l nodeP ul_flag = (if ul_flag = 0 then prev_node (head_dl l) (next_dl l) nodeP else prev_node (head_ul l) (next_ul l) nodeP)"

definition swap_nodes :: "int \<Rightarrow> (int \<Rightarrow> int) \<Rightarrow> int \<Rightarrow> int \<Rightarrow> int \<Rightarrow> int \<Rightarrow> int \<times> (int \<Rightarrow> int)" where
  "swap_nodes front nxt prev_i prev_j i j =
     (let next_i = nxt i; next_j = nxt j in
      if next_i = j then
        let nxt = nxt(i := next_j, j := i) in
        if i = front then (j, nxt) else (front, nxt(prev_i := j))
      else if next_j = i then
        let nxt = nxt(j := next_i, i := j) in
        if j = front then (i, nxt) else (front, nxt(prev_j := i))
      else
        let nxt = nxt(j := next_i, i := next_j) in
        if i = front then (j, nxt(prev_j := i))
        else if j = front then (i, nxt(prev_i := j))
        else (front, nxt(prev_i := j, prev_j := i)))"

definition swap_UEs :: "ue_list \<Rightarrow> int \<Rightarrow> int \<Rightarrow> int \<Rightarrow> ue_list option" where
  "swap_UEs l nodeiP nodejP ul_flag =
     (case (prev l nodeiP ul_flag, prev l nodejP ul_flag) of
        (Some prev_i, Some prev_j) \<Rightarrow>
          if prev_i \<ge> 0 \<and> prev_j \<ge> 0 then
            Some (if ul_flag = 0
                  then let (h, n) = swap_nodes (head_dl l) (next_dl l) prev_i prev_j nodeiP nodejP in l\<lparr>head_dl := h, next_dl := n\<rparr>
                  else let (h, n) = swap_nodes (head_ul l) (next_ul l) prev_i prev_j nodeiP nodejP in l\<lparr>head_ul := h, next_ul := n\<rparr>)
          else None
      | _ \<Rightarrow> None)"

section \<open>Removing a UE\<close>

definition clear_stats :: "enb_ue_stats \<Rightarrow> enb_ue_stats" where
  "clear_stats s = s\<lparr>total_rbs_used := 0, total_rbs_used_retx := 0, num_pdu_tx := (\<lambda>_. 0), num_bytes_tx := (\<lambda>_. 0),
     num_retransmission := 0, total_sdu_bytes := 0, total_pdu_bytes := 0, total_num_pdus := 0, total_rbs_used_rx := 0,
     num_pdu_rx := (\<lambda>_. 0), num_bytes_rx := (\<lambda>_. 0), num_errors_rx := 0, total_pdu_bytes_rx := 0, total_num_pdus_rx := 0,
     total_num_errors_rx := 0\<rparr>"

text \<open>Unlinking writes the entry before the UE; the first argument is what \<open>prev\<close> gives for it.\<close>

definition unlink :: "int option \<Rightarrow> int \<Rightarrow> (int \<Rightarrow> int) \<Rightarrow> int \<Rightarrow> (int \<times> (int \<Rightarrow> int)) option" where
  "unlink before front nxt ue =
     (if front = ue then Some (nxt ue, nxt)
      else case before of
          None \<Rightarrow> None
        | Some p \<Rightarrow> if p < 0 then None else Some (front, nxt(p := nxt ue)))"

definition unlink_dl :: "ue_list \<Rightarrow> int \<Rightarrow> ue_list option" where
  "unlink_dl l ue = map_option (\<lambda>(h, n). l\<lparr>head_dl := h, next_dl := n\<rparr>) (unlink (prev l ue 0) (head_dl l) (next_dl l) ue)"

definition unlink_ul :: "ue_list \<Rightarrow> int \<Rightarrow> ue_list option" where
  "unlink_ul l ue = map_option (\<lambda>(h, n). l\<lparr>head_ul := h, next_ul := n\<rparr>) (unlink (prev l ue 0) (head_ul l) (next_ul l) ue)"

fun release_loop :: "int \<Rightarrow> int \<Rightarrow> int \<Rightarrow> rrc_release_ctrl list \<Rightarrow> int \<times> rrc_release_ctrl list" where
  "release_loop rntiP release_total n [] = (n, [])"
| "release_loop rntiP release_total n (c # cs) =
     (if rel_flag c > 0 then
        let release_total = to_u16 (release_total + 1);
            (c, n, release_total) = (if rel_rnti c = rntiP then (c\<lparr>rel_flag := 0\<rparr>, to_u16 (n - 1), to_u16 (release_total - 1)) else (c, n, release_total)) in
        if release_total \<ge> n then (n, c # cs)
        else let (n', cs') = release_loop rntiP release_total n cs in (n', c # cs')
      else let (n', cs') = release_loop rntiP release_total n cs in (n', c # cs'))"

definition rrc_mac_remove_ue :: "int \<Rightarrow> mac_inst \<Rightarrow> mac_inst option" where
  "rrc_mac_remove_ue rntiP m =
     (let l = UE_list m; ue = find_UE_id l rntiP in
      if ue = -1 then Some m
      else
        let cc = pCC_id l ue;
            l1 = l\<lparr>active := (active l)(ue := False), num_UEs := num_UEs l - 1\<rparr> in
        case unlink_dl l1 ue of
          None \<Rightarrow> None
        | Some l2 \<Rightarrow>
            (case unlink_ul l2 ue of
               None \<Rightarrow> None
             | Some l3 \<Rightarrow>
                 let l4 = l3\<lparr>UE_template := upd2 (UE_template l3) cc ue ue_template_0,
                             eNB_UE_stats := upd2 (eNB_UE_stats l3) cc ue (clear_stats (eNB_UE_stats l3 cc ue))\<rparr>;
                     (n, cs) = (if release_num_UEs m > 0 then release_loop rntiP 0 (release_num_UEs m) (RRC_release_ctrl m)
                                else (release_num_UEs m, RRC_release_ctrl m)) in
                 Some (m\<lparr>UE_list := l4,
                   ulsch_info := upd2 (ulsch_info m) cc ue ((ulsch_info m cc ue)\<lparr>sch_rnti := NOT_A_RNTI, sch_status := S_NONE, serving_num := 0\<rparr>),
                   dlsch_info := upd2 (dlsch_info m) cc ue ((dlsch_info m cc ue)\<lparr>sch_rnti := NOT_A_RNTI, sch_status := S_NONE, serving_num := 0\<rparr>),
                   ra := (if find_RA_id (ra m cc) rntiP \<noteq> -1 then (ra m)(cc := cancel_ra_proc rntiP (ra m cc)) else ra m),
                   release_num_UEs := n, RRC_release_ctrl := cs\<rparr>)))"

section \<open>Chains of entries\<close>

fun chain :: "(int \<Rightarrow> int) \<Rightarrow> int \<Rightarrow> int list \<Rightarrow> int \<Rightarrow> bool" where
  "chain nxt h [] t \<longleftrightarrow> h = t"
| "chain nxt h (x # xs) t \<longleftrightarrow> h = x \<and> 0 \<le> x \<and> chain nxt (nxt x) xs t"

text \<open>\<open>chain nxt h xs t\<close>: the entries from \<open>h\<close> to the one before \<open>t\<close> are \<open>xs\<close>; a whole list ends below zero.\<close>

definition linked :: "(int \<Rightarrow> int) \<Rightarrow> int \<Rightarrow> int list \<Rightarrow> bool" where
  "linked nxt h xs \<longleftrightarrow> distinct xs \<and> (\<exists>t<0. chain nxt h xs t)"

lemma chain_append: "chain nxt h (xs @ ys) t \<longleftrightarrow> (\<exists>m. chain nxt h xs m \<and> chain nxt m ys t)"
  by (induction xs arbitrary: h) auto

lemma chain_cong: "(\<And>x. x \<in> set xs \<Longrightarrow> n x = n' x) \<Longrightarrow> chain n h xs t = chain n' h xs t"
  by (induction xs arbitrary: h) auto

lemma chain_upd [simp]: "x \<notin> set xs \<Longrightarrow> chain (n(x := y)) h xs t = chain n h xs t"
  by (rule chain_cong) auto

lemma chain_nonneg: "chain n h xs t \<Longrightarrow> x \<in> set xs \<Longrightarrow> 0 \<le> x"
  by (induction xs arbitrary: h) auto

lemma chain_snoc_upd: "x \<notin> set xs \<Longrightarrow> chain (n(x := y)) h (xs @ [x]) t \<longleftrightarrow> chain n h xs x \<and> 0 \<le> x \<and> y = t"
  by (auto simp: chain_append)

lemma prev_loop_found:
  assumes "chain n h (xs @ [p]) ue" "ue \<notin> set (xs @ [p])" "h \<noteq> ue"
  shows "prev_loop n ue h = Some p"
  using assms
proof (induction xs arbitrary: h)
  case Nil
  then show ?case by (subst prev_loop.simps) simp
next
  case (Cons x xs)
  have "n x \<noteq> ue"
    using Cons.prems by (cases xs) auto
  then show ?case using Cons by (simp add: prev_loop.simps [of n ue x])
qed

lemma prev_loop_absent: "chain n h xs t \<Longrightarrow> t < 0 \<Longrightarrow> ue \<notin> set xs \<Longrightarrow> 0 \<le> ue \<Longrightarrow> prev_loop n ue h = Some (-1)"
proof (induction xs arbitrary: h)
  case Nil
  then show ?case by (subst prev_loop.simps) simp
next
  case (Cons x xs)
  have "n x \<noteq> ue" using Cons.prems by (cases xs) auto
  then show ?case using Cons by (simp add: prev_loop.simps [of n ue x])
qed

text \<open>The link before an entry: the front pointer, or the \<open>next\<close> of the entry before.\<close>

definition set_before :: "int list \<Rightarrow> int \<Rightarrow> int \<times> (int \<Rightarrow> int) \<Rightarrow> int \<times> (int \<Rightarrow> int)" where
  "set_before A y hn = (if A = [] then (y, snd hn) else (fst hn, (snd hn)(last A := y)))"

lemma set_before_chain:
  assumes "chain n h A x" "last A \<notin> set (butlast A) \<or> A = []"
  shows "chain (snd (set_before A y (h, n))) (fst (set_before A y (h, n))) A y"
proof (cases A rule: rev_cases)
  case (snoc B p)
  then show ?thesis using assms by (auto simp: set_before_def chain_append)
qed (simp add: set_before_def)

lemma prev_node_split:
  assumes "linked n h (A @ ue # B)"
  shows "prev_node h n ue = Some (if A = [] then ue else last A)" "h = ue \<longleftrightarrow> A = []"
proof -
  obtain t where c: "chain n h A ue" "distinct (A @ ue # B)" using assms by (auto simp: linked_def chain_append)
  show f: "h = ue \<longleftrightarrow> A = []" using c by (cases A) auto
  show "prev_node h n ue = Some (if A = [] then ue else last A)"
  proof (cases A rule: rev_cases)
    case (snoc C p)
    then show ?thesis using prev_loop_found [of n h C p ue] c f by (auto simp: prev_node_def)
  qed (use f in \<open>simp add: prev_node_def\<close>)
qed

lemma linked_unlink:
  assumes "linked n h (A @ ue # B)" "unlink (prev_node h n ue) h n ue = Some (h', n')"
  shows "linked n' h' (A @ B)"
proof -
  obtain t where c: "chain n h A ue" "chain n (n ue) B t" "t < 0" and d: "distinct (A @ ue # B)"
    using assms(1) by (auto simp: linked_def chain_append)
  have "(h', n') = set_before A (n ue) (h, n)"
    using assms(2) prev_node_split [OF assms(1)] by (auto simp: unlink_def set_before_def split: if_splits)
  then have n': "n' = snd (set_before A (n ue) (h, n))" and h': "h' = fst (set_before A (n ue) (h, n))" by (metis fst_conv snd_conv)+
  have "last A \<notin> set (butlast A) \<or> A = []" using d by (cases A rule: rev_cases) auto
  then have "chain n' h' A (n ue)" using set_before_chain [OF c(1)] n' h' by simp
  moreover have "chain n' (n ue) B t"
    using c(2) d by (cases A rule: rev_cases) (auto simp: n' set_before_def)
  ultimately show ?thesis using c(3) d by (auto simp: linked_def chain_append)
qed

definition exchange :: "int \<Rightarrow> int \<Rightarrow> int list \<Rightarrow> int list" where
  "exchange i j = map (\<lambda>x. if x = i then j else if x = j then i else x)"

lemma exchange_sym: "exchange i j = exchange j i"
  by (auto simp: exchange_def fun_eq_iff)

lemma exchange_other: "i \<notin> set xs \<Longrightarrow> j \<notin> set xs \<Longrightarrow> exchange i j xs = xs"
  unfolding exchange_def by (rule map_idI) auto

lemma exchange_split: "distinct (A @ i # B @ j # C) \<Longrightarrow> exchange i j (A @ i # B @ j # C) = A @ j # B @ i # C"
  using exchange_other [of i A j] exchange_other [of i B j] exchange_other [of i C j] by (auto simp: exchange_def)

lemma swap_nodes_sym:
  assumes "i \<noteq> j" "\<not> (n i = j \<and> n j = i)" "n i = j \<or> pi \<noteq> pj"
  shows "swap_nodes h n pi pj i j = swap_nodes h n pj pi j i"
  using assms by (auto simp: swap_nodes_def Let_def fun_upd_twist)

lemma last_not_butlast: "distinct A \<Longrightarrow> last A \<notin> set (butlast A) \<or> A = []"
  by (cases A rule: rev_cases) auto

lemma swap_adjacent:
  assumes "linked n h (A @ i # j # C)"
  shows "linked (snd (swap_nodes h n (if A = [] then i else last A) pj i j)) (fst (swap_nodes h n (if A = [] then i else last A) pj i j)) (A @ j # i # C)"
proof -
  obtain t where c: "chain n h A i" "n i = j" "chain n (n j) C t" "t < 0" "0 \<le> i" "0 \<le> j" and d: "distinct (A @ i # j # C)"
    using assms by (auto simp: linked_def chain_append)
  let ?n = "n(i := n j, j := i)"
  have hi: "h = i \<longleftrightarrow> A = []" using prev_node_split(2) [OF assms] .
  have eq: "swap_nodes h n (if A = [] then i else last A) pj i j = set_before A j (h, ?n)"
    using c(2) hi by (cases "A = []") (auto simp: swap_nodes_def Let_def set_before_def)
  have cA: "chain ?n h A i" using c(1) d by simp
  have dA: "last A \<notin> set (butlast A) \<or> A = []" using d by (intro last_not_butlast) simp
  from set_before_chain [OF cA dA, of j] have 1: "chain (snd (set_before A j (h, ?n))) (fst (set_before A j (h, ?n))) A j" .
  have 2: "chain (snd (set_before A j (h, ?n))) j (j # i # C) t"
    using c d by (cases A rule: rev_cases) (auto simp: set_before_def)
  show ?thesis unfolding eq using 1 2 c(4) d by (auto simp: linked_def chain_append)
qed

lemma swap_apart:
  assumes "linked n h (A @ i # B @ j # C)" "B \<noteq> []"
  shows "linked (snd (swap_nodes h n (if A = [] then i else last A) (last B) i j)) (fst (swap_nodes h n (if A = [] then i else last A) (last B) i j))
     (A @ j # B @ i # C)"
proof -
  obtain t where c: "chain n h A i" "chain n (n i) B j" "chain n (n j) C t" "t < 0" "0 \<le> i" "0 \<le> j" and d: "distinct (A @ i # B @ j # C)"
    using assms by (auto simp: linked_def chain_append)
  obtain B' b where B: "B = B' @ [b]" using assms(2) by (cases B rule: rev_cases) auto
  let ?m = "n(j := n i, i := n j)" and ?n = "n(j := n i, i := n j, b := i)"
  have nb: "n b = j" "0 \<le> b" using c(2) B by (auto simp: chain_append)
  have ij: "n i \<noteq> j" "n j \<noteq> i"
  proof -
    show "n i \<noteq> j" using c(2) d assms(2) by (cases B) auto
    show "n j \<noteq> i" using c(3,4,5) d by (cases C) auto
  qed
  have hi: "h = i \<longleftrightarrow> A = []" using prev_node_split(2) [OF assms(1)] .
  have hj: "h \<noteq> j" using c(1) d by (cases A) auto
  have eq: "swap_nodes h n (if A = [] then i else last A) (last B) i j = set_before A j (h, ?n)"
    using ij hi hj d B by (cases A rule: rev_cases) (auto simp: swap_nodes_def Let_def set_before_def fun_upd_twist)
  have cA: "chain ?n h A i" using c(1) d B by simp
  have dA: "last A \<notin> set (butlast A) \<or> A = []" using d by (intro last_not_butlast) simp
  from set_before_chain [OF cA dA, of j] have 1: "chain (snd (set_before A j (h, ?n))) (fst (set_before A j (h, ?n))) A j" .
  have "chain (snd (set_before A j (h, ?n))) (n i) B i"
    using c(2) nb d B by (cases A rule: rev_cases) (auto simp: set_before_def chain_append)
  moreover have "chain (snd (set_before A j (h, ?n))) (n j) C t"
    using c(3) d B by (cases A rule: rev_cases) (auto simp: set_before_def)
  moreover have "snd (set_before A j (h, ?n)) j = n i" "snd (set_before A j (h, ?n)) i = n j"
    using d B by (cases A rule: rev_cases; auto simp: set_before_def)+
  ultimately have 2: "chain (snd (set_before A j (h, ?n))) j (j # B @ i # C) t" using c(5,6) by (auto simp: chain_append)
  show ?thesis unfolding eq using 1 2 c(4) d by (auto simp: linked_def chain_append)
qed

lemma swap_in_order:
  assumes l: "linked n h (A @ i # B @ j # C)"
  obtains pi pj where "prev_node h n i = Some pi" "prev_node h n j = Some pj" "0 \<le> pi" "0 \<le> pj" "n i = j \<or> pi \<noteq> pj" "n j \<noteq> i"
    "linked (snd (swap_nodes h n pi pj i j)) (fst (swap_nodes h n pi pj i j)) (exchange i j (A @ i # B @ j # C))"
proof
  have l': "linked n h ((A @ i # B) @ j # C)" using l by simp
  obtain t where c: "chain n h (A @ i # B @ j # C) t" "t < 0" and d: "distinct (A @ i # B @ j # C)" using l by (auto simp: linked_def)
  let ?pi = "if A = [] then i else last A" and ?pj = "if B = [] then i else last B"
  show "prev_node h n i = Some ?pi" using prev_node_split(1) [OF l] by simp
  show "prev_node h n j = Some ?pj" using prev_node_split(1) [OF l'] by simp
  have nn: "0 \<le> x" if "x \<in> set (A @ i # B)" for x using chain_nonneg [OF c(1)] that by auto
  show "0 \<le> ?pi" "0 \<le> ?pj" by (simp_all add: nn)
  have "last A \<in> set A \<or> A = []" "last B \<in> set B \<or> B = []" by auto
  then have "last A \<noteq> last B \<or> A = [] \<or> B = []" "last B \<noteq> i \<or> B = []" using d by auto
  then show "n i = j \<or> ?pi \<noteq> ?pj" using c(1) by (cases "B = []") (auto simp: chain_append)
  show "n j \<noteq> i" using c d by (cases C) (auto simp: chain_append)
  show "linked (snd (swap_nodes h n ?pi ?pj i j)) (fst (swap_nodes h n ?pi ?pj i j)) (exchange i j (A @ i # B @ j # C))"
    unfolding exchange_split [OF d] using swap_adjacent [of n h A i j C i] swap_apart [OF l] l by (cases "B = []") simp_all
qed

lemma swap_linked:
  assumes l: "linked n h xs" "i \<in> set xs" "j \<in> set xs" "i \<noteq> j"
  obtains pi pj where "prev_node h n i = Some pi" "prev_node h n j = Some pj" "0 \<le> pi" "0 \<le> pj"
    "linked (snd (swap_nodes h n pi pj i j)) (fst (swap_nodes h n pi pj i j)) (exchange i j xs)"
proof -
  obtain A X where x: "xs = A @ i # X" using split_list [OF l(2)] by blast
  then consider (after) "j \<in> set X" | (before) "j \<in> set A" using l(3,4) by auto
  then show thesis
  proof cases
    case after
    then obtain B C where "xs = A @ i # B @ j # C" using x split_list by metis
    then show thesis using swap_in_order [of n h A i B j C] l(1) that by metis
  next
    case before
    then obtain D B where xs: "xs = D @ j # B @ i # X" using x split_list by fastforce
    with l(1) obtain pj pi where q: "prev_node h n j = Some pj" "prev_node h n i = Some pi" "0 \<le> pj" "0 \<le> pi" "n j = i \<or> pj \<noteq> pi" "n i \<noteq> j"
        "linked (snd (swap_nodes h n pj pi j i)) (fst (swap_nodes h n pj pi j i)) (exchange j i xs)"
      using swap_in_order [of n h D j B i X] by metis
    have "swap_nodes h n pj pi j i = swap_nodes h n pi pj i j" using swap_nodes_sym [of j i n pj pi h] l(4) q(5,6) by blast
    then show thesis using that [OF q(2,1,4,3)] q(7) by (simp add: exchange_sym)
  qed
qed

lemma linked_cong: "linked n h xs \<Longrightarrow> (\<And>x. x \<in> set xs \<Longrightarrow> n' x = n x) \<Longrightarrow> linked n' h xs"
  unfolding linked_def using chain_cong [of xs n' n h] by blast

section \<open>The order in which a list is visited\<close>

partial_function (option) ue_walk :: "(int \<Rightarrow> int) \<Rightarrow> int \<Rightarrow> int list option" where
  "ue_walk nxt j = (if j < 0 then Some [] else Option.bind (ue_walk nxt (nxt j)) (\<lambda>xs. Some (j # xs)))"

declare ue_walk.simps [code]

lemma chain_walk: "chain n h xs t \<Longrightarrow> t < 0 \<Longrightarrow> ue_walk n h = Some xs"
proof (induction xs arbitrary: h)
  case Nil
  then show ?case by (subst ue_walk.simps) simp
next
  case (Cons x xs)
  then show ?case by (subst ue_walk.simps) simp
qed

lemma walk_chain: "ue_walk n h = Some xs \<Longrightarrow> \<exists>t<0. chain n h xs t"
proof (induction xs arbitrary: h)
  case Nil
  then show ?case by (subst (asm) ue_walk.simps) (auto split: if_splits Option.bind_splits)
next
  case (Cons x xs)
  from Cons.prems have "h = x \<and> 0 \<le> x \<and> ue_walk n (n x) = Some xs"
    by (subst (asm) ue_walk.simps) (auto split: if_splits Option.bind_splits)
  then show ?case using Cons.IH by auto
qed

lemma walk_linked: "ue_walk n h = Some xs \<longleftrightarrow> linked n h xs"
proof
  assume w: "ue_walk n h = Some xs"
  then obtain t where t: "t < 0" "chain n h xs t" using walk_chain by blast
  have "distinct xs"
  proof (rule ccontr)
    assume "\<not> distinct xs"
    then obtain A x B C where xs: "xs = A @ [x] @ B @ [x] @ C" using not_distinct_decomp by blast
    have "chain n x (x # B @ x # C) t" "chain n x (x # C) t" using t(2) xs by (auto simp: chain_append)
    then have "Some (x # B @ x # C) = Some (x # C)" using chain_walk [OF _ t(1)] by metis
    then show False by (simp add: append_eq_Cons_conv)
  qed
  then show "linked n h xs" using t by (auto simp: linked_def)
qed (auto simp: linked_def chain_walk)

fun relink :: "int list \<Rightarrow> (int \<Rightarrow> int) \<Rightarrow> int \<Rightarrow> int" where
  "relink [] n = n"
| "relink [x] n = n(x := -1)"
| "relink (x # y # ys) n = relink (y # ys) (n(x := y))"

definition list_front :: "int list \<Rightarrow> int" where
  "list_front xs = (case xs of [] \<Rightarrow> -1 | x # _ \<Rightarrow> x)"

lemma relink_other: "x \<notin> set xs \<Longrightarrow> relink xs n x = n x"
  by (induction xs n rule: relink.induct) auto

lemma relink_chain: "distinct xs \<Longrightarrow> \<forall>x\<in>set xs. 0 \<le> x \<Longrightarrow> chain (relink xs n) (list_front xs) xs (-1)"
proof (induction xs n rule: relink.induct)
  case (3 x y ys n)
  have "relink (y # ys) (n(x := y)) x = y" using relink_other [of x "y # ys" "n(x := y)"] 3(2) by simp
  moreover have "chain (relink (y # ys) (n(x := y))) (list_front (y # ys)) (y # ys) (-1)" by (rule 3(1)) (use 3(2,3) in simp_all)
  ultimately show ?case using 3(3) by (simp add: list_front_def)
qed (auto simp: list_front_def)

locale ue_order =
  fixes front :: "'s \<Rightarrow> int"
    and nxt :: "'s \<Rightarrow> int \<Rightarrow> int"
    and links :: "int \<Rightarrow> (int \<Rightarrow> int) \<Rightarrow> 's \<Rightarrow> 's"
  assumes front_links: "front (links h n s) = h"
    and nxt_links: "nxt (links h n s) = n"
begin

definition order :: "'s \<Rightarrow> int list option" where
  "order s = ue_walk (nxt s) (front s)"

lemma order_linked: "order s = Some xs \<longleftrightarrow> linked (nxt s) (front s) xs"
  by (simp add: order_def walk_linked)

lemma order_relink: "distinct xs \<Longrightarrow> \<forall>x\<in>set xs. 0 \<le> x \<Longrightarrow> order (links (list_front xs) (relink xs (nxt s)) s) = Some xs"
  by (simp add: order_def front_links nxt_links chain_walk [OF relink_chain])

lemma order_swap:
  assumes "order s = Some xs" "i \<in> set xs" "j \<in> set xs" "i \<noteq> j"
  obtains pi pj where "prev_node (front s) (nxt s) i = Some pi" "prev_node (front s) (nxt s) j = Some pj" "0 \<le> pi" "0 \<le> pj"
    "order (case swap_nodes (front s) (nxt s) pi pj i j of (h, n) \<Rightarrow> links h n s) = Some (exchange i j xs)"
proof -
  obtain pi pj where q: "prev_node (front s) (nxt s) i = Some pi" "prev_node (front s) (nxt s) j = Some pj" "0 \<le> pi" "0 \<le> pj"
      "linked (snd (swap_nodes (front s) (nxt s) pi pj i j)) (fst (swap_nodes (front s) (nxt s) pi pj i j)) (exchange i j xs)"
    using swap_linked [OF assms(1) [unfolded order_linked] assms(2-4)] by blast
  have "order (case swap_nodes (front s) (nxt s) pi pj i j of (h, n) \<Rightarrow> links h n s) = Some (exchange i j xs)"
    using q(5) by (cases "swap_nodes (front s) (nxt s) pi pj i j") (simp add: order_linked front_links nxt_links)
  then show thesis using that q(1-4) by blast
qed

lemma order_unlink:
  assumes "order s = Some xs" "ue \<in> set xs"
  obtains h n where "unlink (prev_node (front s) (nxt s) ue) (front s) (nxt s) ue = Some (h, n)"
    "order (links h n s) = Some (remove1 ue xs)"
proof -
  obtain A B where xs: "xs = A @ ue # B" using split_list [OF assms(2)] by blast
  have l: "linked (nxt s) (front s) (A @ ue # B)" using assms(1) xs by (simp add: order_linked)
  then have d: "distinct (A @ ue # B)" and nn: "x \<in> set (A @ ue # B) \<Longrightarrow> 0 \<le> x" for x by (auto simp: linked_def dest: chain_nonneg)
  have "prev_node (front s) (nxt s) ue = Some (if A = [] then ue else last A)" using prev_node_split(1) [OF l] .
  moreover have "0 \<le> (if A = [] then ue else last A)" using nn by simp
  ultimately have "unlink (prev_node (front s) (nxt s) ue) (front s) (nxt s) ue \<noteq> None" by (simp add: unlink_def)
  then obtain h n where u: "unlink (prev_node (front s) (nxt s) ue) (front s) (nxt s) ue = Some (h, n)" by auto
  have "remove1 ue xs = A @ B" using d by (simp add: xs remove1_append)
  then show thesis using that [OF u] linked_unlink [OF l u] by (simp add: order_linked front_links nxt_links)
qed

lemma order_prev_absent:
  assumes "order s = Some xs" "ue \<notin> set xs" "0 \<le> ue"
  shows "front s \<noteq> ue" "prev_node (front s) (nxt s) ue = Some (-1)"
proof -
  obtain t where t: "t < 0" "chain (nxt s) (front s) xs t" using assms(1) by (auto simp: order_linked linked_def)
  show "front s \<noteq> ue" using t assms(2,3) by (cases xs) auto
  then show "prev_node (front s) (nxt s) ue = Some (-1)" using prev_loop_absent [OF t(2,1) assms(2,3)] by (simp add: prev_node_def)
qed

end

interpretation dl: ue_order head_dl next_dl "\<lambda>h n l. l\<lparr>head_dl := h, next_dl := n\<rparr>"
  by unfold_locales simp_all

interpretation ul: ue_order head_ul next_ul "\<lambda>h n l. l\<lparr>head_ul := h, next_ul := n\<rparr>"
  by unfold_locales simp_all

definition visit_order :: "int \<Rightarrow> ue_list \<Rightarrow> int list option" where
  "visit_order ul_flag l = (if ul_flag = 0 then ue_walk (next_dl l) (head_dl l) else ue_walk (next_ul l) (head_ul l))"

lemma visit_order_cases: "visit_order 0 = dl.order" "ul_flag \<noteq> 0 \<Longrightarrow> visit_order ul_flag = ul.order"
  by (simp_all add: visit_order_def dl.order_def ul.order_def fun_eq_iff)

section \<open>The table as a map\<close>

definition ue_rnti :: "ue_list \<Rightarrow> int \<Rightarrow> int" where
  "ue_rnti l ue = rnti (UE_template l (pCC_id l ue) ue)"

definition active_ues :: "ue_list \<Rightarrow> int set" where
  "active_ues l = {ue \<in> {0..<MAX_MOBILES_PER_ENB}. active l ue}"

definition table_ok :: "ue_list \<Rightarrow> bool" where
  "table_ok l \<longleftrightarrow> num_UEs l = int (card (active_ues l)) \<and> inj_on (ue_rnti l) (active_ues l)"

definition ue_map :: "ue_list \<Rightarrow> int \<rightharpoonup> int" where
  "ue_map l r = (let ue = find_UE_id l r in if ue = -1 then None else Some ue)"

lemma first_id_cases:
  "(first_id P = -1 \<and> (\<forall>i\<in>{0..<MAX_MOBILES_PER_ENB}. \<not> P i)) \<or> (0 \<le> first_id P \<and> first_id P < MAX_MOBILES_PER_ENB \<and> P (first_id P))"
proof (cases "find P [0..MAX_MOBILES_PER_ENB - 1]")
  case None
  then have "first_id P = -1" by (simp add: first_id_def)
  then show ?thesis using None by (simp add: find_None_iff)
next
  case (Some i)
  then have "P i \<and> i \<in> set [0..MAX_MOBILES_PER_ENB - 1]" by (auto simp: find_Some_iff in_set_conv_nth)
  then show ?thesis using Some by (auto simp: first_id_def)
qed

lemma find_UE_id_bounds: "find_UE_id l r \<noteq> -1 \<Longrightarrow> find_UE_id l r \<in> active_ues l \<and> ue_rnti l (find_UE_id l r) = r"
  using first_id_cases [of "\<lambda>ue. active l ue \<and> rnti (UE_template l (pCC_id l ue) ue) = r"]
  by (auto simp: find_UE_id_def active_ues_def ue_rnti_def)

lemma ue_map_None: "ue_map l r = None \<longleftrightarrow> (\<forall>ue\<in>active_ues l. ue_rnti l ue \<noteq> r)"
  using first_id_cases [of "\<lambda>ue. active l ue \<and> rnti (UE_template l (pCC_id l ue) ue) = r"]
  by (auto simp: ue_map_def Let_def find_UE_id_def active_ues_def ue_rnti_def split: if_splits)

lemma ue_map_Some:
  assumes "table_ok l"
  shows "ue_map l r = Some ue \<longleftrightarrow> ue \<in> active_ues l \<and> ue_rnti l ue = r"
proof
  assume "ue_map l r = Some ue"
  then show "ue \<in> active_ues l \<and> ue_rnti l ue = r" using find_UE_id_bounds [of l r] by (auto simp: ue_map_def Let_def split: if_splits)
next
  assume u: "ue \<in> active_ues l \<and> ue_rnti l ue = r"
  then obtain v where v: "ue_map l r = Some v" using ue_map_None [of l r] by blast
  then have "v \<in> active_ues l \<and> ue_rnti l v = r" using find_UE_id_bounds [of l r] by (auto simp: ue_map_def Let_def split: if_splits)
  then show "ue_map l r = Some ue" using u v assms by (auto simp: table_ok_def dest: inj_onD)
qed

lemma finite_active [simp]: "finite (active_ues l)"
  by (rule finite_subset [of _ "{0..<MAX_MOBILES_PER_ENB}"]) (auto simp: active_ues_def)

lemma map_eqI: "(\<And>k v. m k = Some v \<longleftrightarrow> m' k = Some v) \<Longrightarrow> m = m'"
  by (rule ext) (metis not_None_eq)

lemma table_insert:
  assumes ok: "table_ok l" and u: "ue \<notin> active_ues l" "0 \<le> ue" "ue < MAX_MOBILES_PER_ENB" and fresh: "ue_map l r = None"
    and l': "active_ues l' = insert ue (active_ues l)" "num_UEs l' = num_UEs l + 1" "ue_rnti l' ue = r"
      "\<And>v. v \<in> active_ues l \<Longrightarrow> ue_rnti l' v = ue_rnti l v"
  shows "table_ok l'" "ue_map l' = (ue_map l)(r \<mapsto> ue)"
proof -
  have "inj_on (ue_rnti l') (active_ues l)" using ok l'(4) by (simp add: table_ok_def inj_on_def)
  moreover have "r \<notin> ue_rnti l' ` active_ues l" using fresh l'(4) by (auto simp: ue_map_None)
  ultimately show ok': "table_ok l'" using ok u(1) l'(1-3) by (simp add: table_ok_def)
  show "ue_map l' = (ue_map l)(r \<mapsto> ue)"
  proof (rule map_eqI)
    fix k v
    show "ue_map l' k = Some v \<longleftrightarrow> ((ue_map l)(r \<mapsto> ue)) k = Some v"
      unfolding fun_upd_apply ue_map_Some [OF ok'] using ue_map_Some [OF ok] fresh u(1) l' by (auto simp: ue_map_None)
  qed
qed

lemma table_delete:
  assumes ok: "table_ok l" and u: "ue \<in> active_ues l" "ue_rnti l ue = r"
    and l': "active_ues l' = active_ues l - {ue}" "num_UEs l' = num_UEs l - 1"
      "\<And>v. v \<in> active_ues l \<Longrightarrow> v \<noteq> ue \<Longrightarrow> ue_rnti l' v = ue_rnti l v"
  shows "table_ok l'" "ue_map l' = (ue_map l)(r := None)"
proof -
  have "inj_on (ue_rnti l') (active_ues l')" using ok l' by (auto simp: table_ok_def inj_on_def)
  moreover have "0 < card (active_ues l)" using u(1) by (auto simp: card_gt_0_iff)
  ultimately show ok': "table_ok l'" using ok u(1) l'(1,2) by (auto simp: table_ok_def)
  show "ue_map l' = (ue_map l)(r := None)"
  proof (rule map_eqI)
    fix k v
    show "ue_map l' k = Some v \<longleftrightarrow> ((ue_map l)(r := None)) k = Some v"
      unfolding fun_upd_apply ue_map_Some [OF ok'] using ue_map_Some [OF ok] u l' ok by (auto simp: table_ok_def dest: inj_onD)
  qed
qed

lemma add_new_ue_full: "add_new_ue cc r h rach m = (-1, m')  \<Longrightarrow> m' = m \<and> active_ues (UE_list m) = {0..<MAX_MOBILES_PER_ENB}"
  using first_id_cases [of "\<lambda>i. \<not> active (UE_list m) i"]
  by (auto simp: add_new_ue_def Let_def active_ues_def split: if_splits)

lemma add_new_ue_ok:
  assumes "table_ok (UE_list m)" "ue_map (UE_list m) r = None" "add_new_ue cc r h rach m = (ue, m')" "ue \<noteq> -1"
  shows "ue \<notin> active_ues (UE_list m)" "table_ok (UE_list m')" "ue_map (UE_list m') = (ue_map (UE_list m))(r \<mapsto> ue)"
    "next_dl (UE_list m') = next_dl (UE_list m)" "head_dl (UE_list m') = head_dl (UE_list m)"
proof -
  let ?l = "UE_list m" and ?l' = "UE_list m'"
  have f: "first_id (\<lambda>i. \<not> active ?l i) = ue" using assms(3) by (auto simp: add_new_ue_def Let_def split: if_splits)
  then have u: "0 \<le> ue" "ue < MAX_MOBILES_PER_ENB" "\<not> active ?l ue" using first_id_cases [of "\<lambda>i. \<not> active ?l i"] assms(4) by auto
  then show nu: "ue \<notin> active_ues ?l" by (simp add: active_ues_def)
  have m': "m' = snd (add_new_ue cc r h rach m)" using assms(3) by simp
  have sel: "active ?l' = (active ?l)(ue := True)" "num_UEs ?l' = num_UEs ?l + 1" "pCC_id ?l' = (pCC_id ?l)(ue := cc)"
      "UE_template ?l' = upd2 (UE_template ?l) cc ue (add_template r h rach)" "next_dl ?l' = next_dl ?l" "head_dl ?l' = head_dl ?l"
    using f assms(4) unfolding m' add_new_ue_def Let_def by simp_all
  show "next_dl ?l' = next_dl ?l" "head_dl ?l' = head_dl ?l" by (fact sel)+
  have act: "active_ues ?l' = insert ue (active_ues ?l)" using u by (auto simp: active_ues_def sel)
  have new: "ue_rnti ?l' ue = r" by (simp add: ue_rnti_def sel upd2_def add_template_def)
  have old: "ue_rnti ?l' v = ue_rnti ?l v" if "v \<in> active_ues ?l" for v using that nu by (auto simp: ue_rnti_def sel upd2_def)
  show "table_ok ?l'" "ue_map ?l' = (ue_map ?l)(r \<mapsto> ue)"
    using table_insert [OF assms(1) nu u(1,2) assms(2) act sel(2) new old] by simp_all
qed

lemma unlink_dl_static:
  "unlink_dl l ue = Some l' \<Longrightarrow> \<exists>h n. l' = l\<lparr>head_dl := h, next_dl := n\<rparr>"
  "unlink_ul l ue = Some l' \<Longrightarrow> \<exists>h n. l' = l\<lparr>head_ul := h, next_ul := n\<rparr>"
  by (auto simp: unlink_dl_def unlink_ul_def)

lemma remove_steps:
  assumes "rrc_mac_remove_ue r m = Some m'" "find_UE_id (UE_list m) r = ue" "ue \<noteq> -1"
  obtains l2 l3 where "unlink_dl (UE_list m\<lparr>active := (active (UE_list m))(ue := False), num_UEs := num_UEs (UE_list m) - 1\<rparr>) ue = Some l2"
    "unlink_ul l2 ue = Some l3"
    "UE_list m' = l3\<lparr>UE_template := upd2 (UE_template l3) (pCC_id (UE_list m) ue) ue ue_template_0,
       eNB_UE_stats := upd2 (eNB_UE_stats l3) (pCC_id (UE_list m) ue) ue (clear_stats (eNB_UE_stats l3 (pCC_id (UE_list m) ue) ue))\<rparr>"
  using assms by (auto simp: rrc_mac_remove_ue_def Let_def split: option.splits prod.splits)

lemma rrc_mac_remove_ue_ok:
  assumes "table_ok (UE_list m)" "rrc_mac_remove_ue r m = Some m'"
  shows "table_ok (UE_list m') \<and> ue_map (UE_list m') = (ue_map (UE_list m))(r := None)"
proof (cases "find_UE_id (UE_list m) r = -1")
  case True
  then have "m' = m" "ue_map (UE_list m) r = None" using assms(2) by (simp_all add: rrc_mac_remove_ue_def ue_map_def)
  then show ?thesis using assms(1) by (simp add: fun_upd_idem)
next
  case False
  let ?l = "UE_list m" and ?ue = "find_UE_id (UE_list m) r"
  have u: "?ue \<in> active_ues ?l" "ue_rnti ?l ?ue = r" using find_UE_id_bounds [OF False] by simp_all
  obtain l2 l3 where s: "unlink_dl (?l\<lparr>active := (active ?l)(?ue := False), num_UEs := num_UEs ?l - 1\<rparr>) ?ue = Some l2"
      "unlink_ul l2 ?ue = Some l3"
      "UE_list m' = l3\<lparr>UE_template := upd2 (UE_template l3) (pCC_id ?l ?ue) ?ue ue_template_0,
         eNB_UE_stats := upd2 (eNB_UE_stats l3) (pCC_id ?l ?ue) ?ue (clear_stats (eNB_UE_stats l3 (pCC_id ?l ?ue) ?ue))\<rparr>"
    using remove_steps [OF assms(2) refl False] by blast
  have sel: "active (UE_list m') = (active ?l)(?ue := False)" "num_UEs (UE_list m') = num_UEs ?l - 1" "pCC_id (UE_list m') = pCC_id ?l"
      "UE_template (UE_list m') = upd2 (UE_template ?l) (pCC_id ?l ?ue) ?ue ue_template_0"
    using unlink_dl_static(1) [OF s(1)] unlink_dl_static(2) [OF s(2)] s(3) by auto
  have act: "active_ues (UE_list m') = active_ues ?l - {?ue}" by (auto simp: active_ues_def sel)
  have old: "ue_rnti (UE_list m') v = ue_rnti ?l v" if "v \<noteq> ?ue" for v using that by (simp add: ue_rnti_def sel upd2_def)
  show ?thesis using table_delete [OF assms(1) u act sel(2)] old by blast
qed

inductive mac_reach :: "mac_inst \<Rightarrow> bool" where
  init: "mac_reach (m\<lparr>UE_list := init_UE_list (UE_list m)\<rparr>)"
| add: "mac_reach m \<Longrightarrow> ue_map (UE_list m) r = None \<Longrightarrow> add_new_ue cc r harq_pid rach m = (ue, m') \<Longrightarrow> mac_reach m'"
| remove: "mac_reach m \<Longrightarrow> rrc_mac_remove_ue r m = Some m' \<Longrightarrow> mac_reach m'"

lemma init_table_ok: "table_ok (init_UE_list l)"
  by (simp add: table_ok_def active_ues_def init_UE_list_def)

lemma mac_reach_ok: "mac_reach m \<Longrightarrow> table_ok (UE_list m)"
proof (induction rule: mac_reach.induct)
  case (add m r cc harq_pid rach ue m')
  then show ?case using add_new_ue_ok(2) [of m r cc harq_pid rach ue m'] add_new_ue_full [of cc r harq_pid rach m m']
    by (cases "ue = -1") auto
qed (use init_table_ok rrc_mac_remove_ue_ok in auto)

section \<open>Properties\<close>


definition mac_blank :: mac_inst where
  "mac_blank = \<lparr>UE_list = \<lparr>UE_template = (\<lambda>_ _. ue_template_0), pCC_id = (\<lambda>_. 0), ordered_CCids = (\<lambda>_ _. 0), numactiveCCs = (\<lambda>_. 0),
       ordered_ULCCids = (\<lambda>_ _. 0), numactiveULCCs = (\<lambda>_. 0), eNB_UE_stats = (\<lambda>_ _. enb_ue_stats_0), UE_sched_ctrl = (\<lambda>_. ue_sched_ctrl_0),
       next_dl = (\<lambda>_. 0), head_dl = 0, next_ul = (\<lambda>_. 0), head_ul = 0, avail = 0, num_UEs = 0, active = (\<lambda>_. False),
       sorting_criteria = (\<lambda>_ _. 0), first_rb_offset = (\<lambda>_ _. 0), assoc_dl_slice_idx = (\<lambda>_. 0), assoc_ul_slice_idx = (\<lambda>_. 0)\<rparr>,
     ra = (\<lambda>_. []), ulsch_info = (\<lambda>_ _. \<lparr>sch_rnti = 0, serving_num = 0, sch_status = S_NONE\<rparr>),
     dlsch_info = (\<lambda>_ _. \<lparr>sch_rnti = 0, serving_num = 0, sch_status = S_NONE\<rparr>), release_num_UEs = 0, RRC_release_ctrl = []\<rparr>"

definition mac_0 :: mac_inst where
  "mac_0 = mac_blank\<lparr>UE_list := init_UE_list (UE_list mac_blank)\<rparr>"

lemma mac_0_reach: "mac_reach mac_0"
  unfolding mac_0_def by (rule mac_reach.init)


text \<open>
  C34. Swapping two UEs of the downlink or the uplink list exchanges exactly their two places in the order
  in which the scheduler visits the list; the other list and all other data stay as they are.
\<close>
theorem swap_UEs_exchanges:
  assumes "visit_order ul_flag l = Some xs" "i \<in> set xs" "j \<in> set xs" "i \<noteq> j"
  shows "\<exists>l' h n. swap_UEs l i j ul_flag = Some l' \<and> visit_order ul_flag l' = Some (exchange i j xs)
    \<and> l' = (if ul_flag = 0 then l\<lparr>head_dl := h, next_dl := n\<rparr> else l\<lparr>head_ul := h, next_ul := n\<rparr>)"
proof (cases "ul_flag = 0")
  case True
  obtain pi pj where "prev_node (head_dl l) (next_dl l) i = Some pi" "prev_node (head_dl l) (next_dl l) j = Some pj" "0 \<le> pi" "0 \<le> pj"
      "dl.order (case swap_nodes (head_dl l) (next_dl l) pi pj i j of (h, n) \<Rightarrow> l\<lparr>head_dl := h, next_dl := n\<rparr>) = Some (exchange i j xs)"
    using dl.order_swap [of l xs i j] assms True by (auto simp: visit_order_cases)
  then show ?thesis using True by (auto simp: swap_UEs_def prev_def visit_order_cases split: prod.splits)
next
  case False
  obtain pi pj where "prev_node (head_ul l) (next_ul l) i = Some pi" "prev_node (head_ul l) (next_ul l) j = Some pj" "0 \<le> pi" "0 \<le> pj"
      "ul.order (case swap_nodes (head_ul l) (next_ul l) pi pj i j of (h, n) \<Rightarrow> l\<lparr>head_ul := h, next_ul := n\<rparr>) = Some (exchange i j xs)"
    using ul.order_swap [of l xs i j] assms False by (auto simp: visit_order_cases)
  then show ?thesis using False by (auto simp: swap_UEs_def prev_def visit_order_cases split: prod.splits)
qed

definition three_ues :: ue_list where
  "three_ues = (UE_list mac_0)\<lparr>head_dl := 2, next_dl := (\<lambda>i. if i = 2 then 0 else if i = 0 then 5 else -1), head_ul := 0, next_ul := (\<lambda>_. -1)\<rparr>"

lemma three_ues_order: "ue_walk (next_dl three_ues) (head_dl three_ues) = Some [2, 0, 5]"
  by (rule chain_walk [where t = "-1"]) (simp_all add: three_ues_def)

theorem swap_UEs_exchanges_witness:
  "\<exists>l'. swap_UEs three_ues 2 5 0 = Some l' \<and> visit_order 0 l' = Some [5, 0, 2]"
  using swap_UEs_exchanges [of 0 three_ues "[2, 0, 5]" 2 5] three_ues_order by (auto simp: visit_order_def exchange_def)

text \<open>
  C35. Removal of a UE unlinks it from the uplink list with the predecessor it has in the downlink list,
  from which it has just been removed: unless the UE is the first of the uplink list, removal writes
  before the start of an array, whatever the lists hold. The first UE of the uplink list is removed from
  both lists.
\<close>
theorem rrc_mac_remove_ue_unlinks:
  assumes "visit_order 0 (UE_list m) = Some xs" "find_UE_id (UE_list m) r = ue" "ue \<noteq> -1"
  shows "case rrc_mac_remove_ue r m of
      None \<Rightarrow> head_ul (UE_list m) \<noteq> ue \<or> ue \<notin> set xs
    | Some m' \<Rightarrow> head_ul (UE_list m) = ue \<and> ue \<in> set xs \<and> visit_order 0 (UE_list m') = Some (remove1 ue xs)
        \<and> head_ul (UE_list m') = next_ul (UE_list m) ue \<and> next_ul (UE_list m') = next_ul (UE_list m)"
proof -
  let ?l = "(UE_list m)\<lparr>active := (active (UE_list m))(ue := False), num_UEs := num_UEs (UE_list m) - 1\<rparr>"
  have ue: "0 \<le> ue" using find_UE_id_bounds [of "UE_list m" r] assms(2,3) by (auto simp: active_ues_def)
  have o: "dl.order ?l = Some xs" using assms(1) by (simp add: visit_order_cases dl.order_def)
  show ?thesis
  proof (cases "ue \<in> set xs")
    case False
    then have "unlink_dl ?l ue = None" using dl.order_prev_absent [OF o False ue] by (simp add: unlink_dl_def unlink_def prev_def)
    then show ?thesis using assms(2,3) False by (simp add: rrc_mac_remove_ue_def Let_def)
  next
    case True
    obtain h n where u: "unlink (prev_node (head_dl ?l) (next_dl ?l) ue) (head_dl ?l) (next_dl ?l) ue = Some (h, n)"
        and o2: "dl.order (?l\<lparr>head_dl := h, next_dl := n\<rparr>) = Some (remove1 ue xs)"
      using dl.order_unlink [OF o True] by blast
    let ?l2 = "?l\<lparr>head_dl := h, next_dl := n\<rparr>"
    have u2: "unlink_dl ?l ue = Some ?l2" using u by (simp add: unlink_dl_def prev_def)
    have "ue \<notin> set (remove1 ue xs)" using o by (auto simp: dl.order_linked linked_def)
    then have p: "prev ?l2 ue 0 = Some (-1)" using dl.order_prev_absent [OF o2 _ ue] by (simp add: prev_def)
    show ?thesis
    proof (cases "head_ul (UE_list m) = ue")
      case False
      then have "unlink_ul ?l2 ue = None" using p by (simp add: unlink_ul_def unlink_def)
      then show ?thesis using u2 assms(2,3) False by (simp add: rrc_mac_remove_ue_def Let_def)
    next
      case h: True
      then have "unlink_ul ?l2 ue = Some (?l2\<lparr>head_ul := next_ul (UE_list m) ue, next_ul := next_ul (UE_list m)\<rparr>)"
        by (simp add: unlink_ul_def unlink_def)
      then show ?thesis using u2 assms(2,3) h True o2
        by (simp add: rrc_mac_remove_ue_def Let_def visit_order_cases dl.order_def split: prod.splits)
    qed
  qed
qed

definition mac_two :: mac_inst where
  "mac_two = mac_0\<lparr>UE_list := (UE_list mac_0)\<lparr>active := (\<lambda>i. i = 0 \<or> i = 1), num_UEs := 2, head_dl := 0, next_dl := (\<lambda>i. if i = 0 then 1 else -1),
     head_ul := 0, next_ul := (\<lambda>i. if i = 0 then 1 else -1),
     UE_template := (\<lambda>c i. ue_template_0\<lparr>rnti := 100 + i\<rparr>)\<rparr>\<rparr>"

theorem rrc_mac_remove_ue_unlinks_witness:
  "rrc_mac_remove_ue 101 mac_two = None
   \<and> (\<exists>m'. rrc_mac_remove_ue 100 mac_two = Some m' \<and> visit_order 0 (UE_list m') = Some [1])"
proof -
  have w: "visit_order 0 (UE_list mac_two) = Some [0, 1]"
    unfolding visit_order_def using chain_walk [of "next_dl (UE_list mac_two)" "head_dl (UE_list mac_two)" "[0, 1]" "-1"] by (simp add: mac_two_def)
  have f: "find_UE_id (UE_list mac_two) 101 = 1" "find_UE_id (UE_list mac_two) 100 = 0" by code_simp+
  have h: "head_ul (UE_list mac_two) = 0" by (simp add: mac_two_def)
  show ?thesis
    using rrc_mac_remove_ue_unlinks [OF w f(1)] rrc_mac_remove_ue_unlinks [OF w f(2)] h by (auto split: option.splits)
qed

text \<open>Swapping the first UE of a list with itself makes the list endless.\<close>

lemma swap_UEs_self_loop: "0 \<le> i \<Longrightarrow> head_dl l = i \<Longrightarrow> next_dl l i \<noteq> i \<Longrightarrow> \<exists>l'. swap_UEs l i i 0 = Some l' \<and> next_dl l' i = i"
  by (simp add: swap_UEs_def prev_def prev_node_def swap_nodes_def Let_def)

end
