(* ===== verification/Mac_Pre_Dl.thy ===== *)
theory Mac_Pre_Dl
  imports Mac_Ue_List "HOL-Library.Monad_Syntax" "HOL-Library.Log_Nat" "HOL-Library.Multiset"
begin

text \<open>
  The downlink pre-processor of the default scheduler (\<open>pre_processor.c\<close>): for a slice it reads the RLC
  buffers of the UEs, computes the resource blocks each needs, sorts the UEs, decides how many blocks each
  gets and assigns resource block groups.

  \<open>pp_env\<close> holds what the functions only read, among it the interfaces to other parts of the program as
  functions: transport block sizes (\<open>TBS\<close>, the table behind \<open>get_TBS_DL\<close>), the status the RLC reports for an
  RNTI and logical channel, the RRC status of an RNTI and the transmission mode of a UE. \<open>pp_state\<close> holds what
  they change. The loops over the UE list and the carriers of a UE do not change either, so they run over the
  list of pairs of UE and carrier. The share of a slice is a float, mantissa and negated exponent. A failed
  assertion, an index outside an array or an endless loop is \<open>None\<close>.
  The \<open>TM5\<close> code, which no build enables, is left out.
\<close>

section \<open>Data\<close>

record mac_cell = common_channels +
  vrb_map :: "int \<Rightarrow> int"

record slice_dl =
  pct :: "int \<times> nat"
  pos_low :: int
  pos_high :: int
  maxmcs :: int
  sorting :: int
  accounting :: int

record rlc_status_resp =
  bytes_in_buffer :: int
  pdus_in_buffer :: int
  head_sdu_creation_time :: int
  head_sdu_remaining_size_to_send :: int
  head_sdu_is_segmented :: int

record pp_env =
  nb_mac_CC :: int
  cell :: "int \<Rightarrow> mac_cell"
  n_dl :: int
  intraslice_share_active :: bool
  mbsfn_flag :: "int \<Rightarrow> int"
  frameP :: int
  subframeP :: int
  frame_cnt :: int
  TBS :: "int \<Rightarrow> int \<Rightarrow> int"
  rlc_status :: "int \<Rightarrow> int \<Rightarrow> rlc_status_resp"
  rrc_status :: "int \<Rightarrow> int"
  tmode :: "int \<Rightarrow> int \<Rightarrow> int"

record pp_state =
  pp_list :: ue_list
  slices :: "int \<Rightarrow> slice_dl"
  rballoc_sub :: "int \<Rightarrow> int \<Rightarrow> int"
  nb_rbs_required :: "int \<Rightarrow> int \<Rightarrow> int"
  nb_rbs_accounted :: "int \<Rightarrow> int \<Rightarrow> int"
  nb_rbs_remaining :: "int \<Rightarrow> int \<Rightarrow> int"
  slice_allocation_mask :: "int \<Rightarrow> int"
  MIMO_mode_indicator :: "int \<Rightarrow> int \<Rightarrow> int"
  pp_mcs :: "int \<Rightarrow> int \<Rightarrow> int"

section \<open>Helpers of the scheduler\<close>

definition flt_round :: "int \<Rightarrow> int" where
  "flt_round p =
     (let k = nat (bitlen p - 24); q = p div 2 ^ k; r = p mod 2 ^ k in
      if k = 0 then p else (if 2 * r > 2 ^ k \<or> (2 * r = 2 ^ k \<and> odd q) then q + 1 else q) * 2 ^ k)"

definition nb_rbs_allowed_slice :: "int \<times> nat \<Rightarrow> int \<Rightarrow> int" where
  "nb_rbs_allowed_slice rb_percentage total_rbs =
     (case rb_percentage of (m, e) \<Rightarrow> to_u16 (flt_round (m * total_rbs) div 2 ^ e))"

definition ue_dl_slice_membership :: "pp_env \<Rightarrow> ue_list \<Rightarrow> int \<Rightarrow> int \<Rightarrow> bool" where
  "ue_dl_slice_membership env l ue slice_idx \<longleftrightarrow>
     0 \<le> slice_idx \<and> slice_idx < n_dl env \<and> active l ue \<and> assoc_dl_slice_idx l ue = slice_idx"

definition get_dl_subframe_count :: "int \<Rightarrow> int \<Rightarrow> int" where
  "get_dl_subframe_count tdd_config_sfa subframe =
     (if tdd_config_sfa = 1 then to_u8 ([1, -1, -1, -1, 2, 3, -1, -1, -1, 4] ! nat subframe) else to_u8 (-1))"

definition frame_subframe2_dl_harq_pid :: "int option \<Rightarrow> int \<Rightarrow> int \<Rightarrow> int \<Rightarrow> int" where
  "frame_subframe2_dl_harq_pid tdd_Config fcnt abs_frameP subframe =
     (case tdd_Config of
        None \<Rightarrow> (abs_frameP * 10 + subframe) mod 8
      | Some a \<Rightarrow>
          if a = 1 then
            let pid = crem ((fcnt * 1024 + abs_frameP) * 4 - 1 + get_dl_subframe_count a subframe) 7 in
            to_u8 (if pid < 0 then pid + 7 else pid)
          else to_u8 (-1))"

definition cc_harq_pid :: "pp_env \<Rightarrow> int \<Rightarrow> int" where
  "cc_harq_pid env cc = frame_subframe2_dl_harq_pid (subframeAssignment (cell env cc)) (frame_cnt env) (frameP env) (subframeP env)"

definition cc_prb :: "pp_env \<Rightarrow> int \<Rightarrow> int option" where
  "cc_prb env cc = (if 0 \<le> cc \<and> cc < nb_mac_CC env then to_prb (dl_Bandwidth (cell env cc)) else None)"

definition cc_rbg :: "pp_env \<Rightarrow> int \<Rightarrow> int option" where
  "cc_rbg env cc = (if 0 \<le> cc \<and> cc < nb_mac_CC env then to_rbg (dl_Bandwidth (cell env cc)) else None)"

definition cc_unit :: "pp_env \<Rightarrow> int \<Rightarrow> int option" where
  "cc_unit env cc = map_option get_min_rb_unit (cc_prb env cc)"

definition ue_ccs :: "ue_list \<Rightarrow> int \<Rightarrow> int list" where
  "ue_ccs l ue = map (\<lambda>i. ordered_CCids l i ue) [0..numactiveCCs l ue - 1]"

definition dl_schedulable :: "pp_env \<Rightarrow> int \<Rightarrow> ue_list \<Rightarrow> int \<Rightarrow> bool" where
  "dl_schedulable env slice_idx l ue \<longleftrightarrow>
     UE_RNTI l ue \<noteq> NOT_A_RNTI \<and> ul_out_of_sync (UE_sched_ctrl l ue) \<noteq> 1 \<and> ue_dl_slice_membership env l ue slice_idx"

definition ue_cc_pairs :: "pp_env \<Rightarrow> int \<Rightarrow> ue_list \<Rightarrow> (int \<times> int) list option" where
  "ue_cc_pairs env slice_idx l =
     map_option (\<lambda>us. concat (map (\<lambda>u. map (Pair u) (ue_ccs l u)) (filter (dl_schedulable env slice_idx l) us))) (ue_walk (next_dl l) (head_dl l))"

definition upd_ctrl :: "int \<Rightarrow> (ue_sched_ctrl \<Rightarrow> ue_sched_ctrl) \<Rightarrow> ue_list \<Rightarrow> ue_list" where
  "upd_ctrl ue f l = l\<lparr>UE_sched_ctrl := (UE_sched_ctrl l)(ue := f (UE_sched_ctrl l ue))\<rparr>"

definition set_template :: "int \<Rightarrow> int \<Rightarrow> ue_template \<Rightarrow> ue_list \<Rightarrow> ue_list" where
  "set_template cc ue t l = l\<lparr>UE_template := upd2 (UE_template l) cc ue t\<rparr>"

section \<open>Buffer status\<close>

definition store_lcid :: "(int \<Rightarrow> rlc_status_resp) \<Rightarrow> int \<Rightarrow> ue_template \<Rightarrow> ue_template" where
  "store_lcid status lcid t =
     (let s = status lcid in
      t\<lparr>dl_buffer_info := (dl_buffer_info t)(lcid := to_u32 (bytes_in_buffer s)),
        dl_pdus_in_buffer := (dl_pdus_in_buffer t)(lcid := to_u32 (pdus_in_buffer s)),
        dl_buffer_head_sdu_creation_time := (dl_buffer_head_sdu_creation_time t)(lcid := to_u32 (head_sdu_creation_time s)),
        dl_buffer_head_sdu_creation_time_max := max (dl_buffer_head_sdu_creation_time_max t) (to_u32 (head_sdu_creation_time s)),
        dl_buffer_head_sdu_remaining_size_to_send := (dl_buffer_head_sdu_remaining_size_to_send t)(lcid := to_u32 (head_sdu_remaining_size_to_send s)),
        dl_buffer_head_sdu_is_segmented := (dl_buffer_head_sdu_is_segmented t)(lcid := to_u8 (head_sdu_is_segmented s)),
        dl_buffer_total := to_u32 (dl_buffer_total t + to_u32 (bytes_in_buffer s)),
        dl_pdus_total := to_u32 (dl_pdus_total t + to_u32 (pdus_in_buffer s))\<rparr>)"

definition clear_buffers :: "ue_template \<Rightarrow> ue_template" where
  "clear_buffers t =
     (let z = (\<lambda>f lcid. if 0 \<le> lcid \<and> lcid < 11 then 0 else f lcid :: int) in
      t\<lparr>dl_buffer_total := 0, dl_pdus_total := 0, dl_buffer_info := z (dl_buffer_info t), dl_pdus_in_buffer := z (dl_pdus_in_buffer t),
        dl_buffer_head_sdu_creation_time := z (dl_buffer_head_sdu_creation_time t),
        dl_buffer_head_sdu_remaining_size_to_send := z (dl_buffer_head_sdu_remaining_size_to_send t)\<rparr>)"

definition store_ue :: "pp_env \<Rightarrow> int \<Rightarrow> int \<Rightarrow> ue_list \<Rightarrow> ue_list" where
  "store_ue env slice_idx ue l =
     (if active l ue \<and> ue_dl_slice_membership env l ue slice_idx
      then set_template (pCC_id l ue) ue
        (fold (store_lcid (rlc_status env (UE_RNTI l ue))) [0..10] (clear_buffers (UE_template l (pCC_id l ue) ue))) l
      else l)"

definition store_dlsch_buffer :: "pp_env \<Rightarrow> int \<Rightarrow> ue_list \<Rightarrow> ue_list" where
  "store_dlsch_buffer env slice_idx l = fold (store_ue env slice_idx) [0..MAX_MOBILES_PER_ENB - 1] l"

section \<open>Resource blocks required\<close>

definition cqi2mcs :: "int \<Rightarrow> int option" where
  "cqi2mcs cqi = assert_index cqi [0, 0, 1, 2, 4, 6, 8, 11, 13, 16, 18, 20, 23, 25, 27, 28]"

text \<open>The inner loop keeps comparing with the carrier that was at place \<open>i\<close> when it started.\<close>

definition swap_ccs :: "int \<Rightarrow> int \<Rightarrow> int \<Rightarrow> int \<Rightarrow> ue_list \<Rightarrow> ue_list" where
  "swap_ccs ue mcs_i i j l =
     (if dlsch_mcs1 (eNB_UE_stats l (ordered_CCids l j ue) ue) > mcs_i
      then l\<lparr>ordered_CCids := upd2 (upd2 (ordered_CCids l) i ue (ordered_CCids l j ue)) j ue (ordered_CCids l i ue)\<rparr>
      else l)"

definition sort_ccs_from :: "int \<Rightarrow> int \<Rightarrow> ue_list \<Rightarrow> ue_list" where
  "sort_ccs_from ue i l =
     fold (swap_ccs ue (dlsch_mcs1 (eNB_UE_stats l (ordered_CCids l i ue) ue)) i) [i + 1..numactiveCCs l ue - 1] l"

definition sort_ccs :: "int \<Rightarrow> ue_list \<Rightarrow> ue_list" where
  "sort_ccs ue l = fold (sort_ccs_from ue) [0..numactiveCCs l ue - 1] l"

partial_function (option) required_loop :: "(int \<Rightarrow> int) \<Rightarrow> int \<Rightarrow> int \<Rightarrow> int \<Rightarrow> int \<Rightarrow> int \<Rightarrow> int option" where
  "required_loop tbs_of unit max_rbs buffer tbs required =
     (if tbs < buffer then
        let required = to_u16 (required + unit) in
        if required > max_rbs then Some max_rbs
        else required_loop tbs_of unit max_rbs buffer (to_u16 (tbs_of required)) required
      else Some required)"

declare required_loop.simps [code]

definition required_cc :: "pp_env \<Rightarrow> int \<Rightarrow> int \<Rightarrow> int \<Rightarrow> pp_state \<Rightarrow> pp_state option" where
  "required_cc env slice_idx ue cc st = do {
     unit \<leftarrow> cc_unit env cc;
     N_RB_DL \<leftarrow> cc_prb env cc;
     let l = pp_list st;
     let mcs = dlsch_mcs1 (eNB_UE_stats l cc ue);
     let max_rbs = nb_rbs_allowed_slice (pct (slices st slice_idx)) N_RB_DL;
     let start = (if mcs = 0 then 4 else to_u16 unit);
     required \<leftarrow> required_loop (TBS env mcs) unit max_rbs (dl_buffer_total (UE_template l (pCC_id l ue) ue)) (to_u16 (TBS env mcs start)) start;
     Some (st\<lparr>nb_rbs_required := upd2 (nb_rbs_required st) cc ue required, pp_mcs := upd2 (pp_mcs st) cc ue (to_u8 mcs),
              pp_list := upd_ctrl ue (\<lambda>c. c\<lparr>max_rbs_allowed_slice := upd2 (max_rbs_allowed_slice c) cc slice_idx max_rbs\<rparr>) l\<rparr>)
   }"

definition update_mcs :: "int \<Rightarrow> int \<Rightarrow> int \<Rightarrow> ue_list \<Rightarrow> ue_list option" where
  "update_mcs max_mcs ue cc l = do {
     mcs \<leftarrow> cqi2mcs (dl_cqi (UE_sched_ctrl l ue) cc);
     Some (l\<lparr>eNB_UE_stats := upd2 (eNB_UE_stats l) cc ue ((eNB_UE_stats l cc ue)\<lparr>dlsch_mcs1 := to_u8 (min mcs max_mcs)\<rparr>)\<rparr>)
   }"

definition assign_ue :: "pp_env \<Rightarrow> int \<Rightarrow> int \<Rightarrow> pp_state \<Rightarrow> pp_state option" where
  "assign_ue env slice_idx ue st =
     (if active (pp_list st) ue \<and> ue_dl_slice_membership env (pp_list st) ue slice_idx then
        if numactiveCCs (pp_list st) ue > 4 then None else do {
        l \<leftarrow> ofold (update_mcs (maxmcs (slices st slice_idx)) ue) (ue_ccs (pp_list st) ue) (pp_list st);
        let l = sort_ccs ue l;
        if dl_buffer_total (UE_template l (pCC_id l ue) ue) > 0
        then ofold (required_cc env slice_idx ue) (ue_ccs l ue) (st\<lparr>pp_list := l\<rparr>)
        else Some (st\<lparr>pp_list := l\<rparr>)
      } else Some st)"

definition assign_rbs_required :: "pp_env \<Rightarrow> int \<Rightarrow> pp_state \<Rightarrow> pp_state option" where
  "assign_rbs_required env slice_idx st = ofold (assign_ue env slice_idx) [0..MAX_MOBILES_PER_ENB - 1] st"

section \<open>Sorting the UEs\<close>

definition maxround :: "pp_env \<Rightarrow> ue_list \<Rightarrow> int \<Rightarrow> int" where
  "maxround env l rntiP =
     fold (\<lambda>cc m. max m (harq_round (UE_sched_ctrl l (to_u8 (find_UE_id l rntiP))) cc (cc_harq_pid env cc))) [0..nb_mac_CC env - 1] 0"

definition maxcqi :: "ue_list \<Rightarrow> int \<Rightarrow> int" where
  "maxcqi l ue = fold (\<lambda>cc m. max m (dl_cqi (UE_sched_ctrl l ue) cc)) (ue_ccs l ue) 0"

definition min_lcgidpriority :: "ue_list \<Rightarrow> int \<Rightarrow> int" where
  "min_lcgidpriority l ue =
     (let p = lcgidpriority (UE_template l (pCC_id l ue) ue) in fold (\<lambda>i m. if p i < m then p i else m) [1..10] (p 0))"

definition larger_first :: "int \<Rightarrow> int \<Rightarrow> int" where
  "larger_first a b = (if a > b then -1 else if a < b then 1 else 0)"

definition crit_key :: "pp_env \<Rightarrow> ue_list \<Rightarrow> int \<Rightarrow> int \<Rightarrow> int" where
  "crit_key env l c ue =
     (let t = UE_template l (pCC_id l ue) ue in
      if c = 0 then maxround env l (UE_RNTI l ue)
      else if c = 1 then to_u32 (dl_buffer_info t 1 + dl_buffer_info t 2)
      else if c = 2 then dl_buffer_head_sdu_creation_time_max t
      else if c = 3 then dl_buffer_total t
      else if c = 4 then maxcqi l ue
      else if c = 5 then - min_lcgidpriority l ue
      else 0)"

fun first_nonzero :: "int list \<Rightarrow> int" where
  "first_nonzero [] = 0"
| "first_nonzero (x # xs) = (if x \<noteq> 0 then x else first_nonzero xs)"

definition ue_dl_compare :: "pp_env \<Rightarrow> ue_list \<Rightarrow> int \<Rightarrow> int \<Rightarrow> int \<Rightarrow> int" where
  "ue_dl_compare env l slice_idx ue1 ue2 =
     first_nonzero (map (\<lambda>i. let c = sorting_criteria l slice_idx i in larger_first (crit_key env l c ue1) (crit_key env l c ue2)) [0..5])"

fun decode_criteria :: "int \<Rightarrow> int list \<Rightarrow> (int \<Rightarrow> int) \<Rightarrow> bool \<times> (int \<Rightarrow> int)" where
  "decode_criteria policy [] crit = (True, crit)"
| "decode_criteria policy (i # is) crit =
     (let c = (policy div 2 ^ nat (4 * (5 - i))) mod 16 in
      if c \<ge> 6 then (False, crit) else decode_criteria policy is (crit(i := c)))"

definition decode_sorting_policy :: "int \<Rightarrow> pp_state \<Rightarrow> pp_state" where
  "decode_sorting_policy slice_idx st =
     (let (valid, crit) = decode_criteria (sorting (slices st slice_idx)) [0..5] (sorting_criteria (pp_list st) slice_idx) in
      st\<lparr>pp_list := (pp_list st)\<lparr>sorting_criteria := (sorting_criteria (pp_list st))(slice_idx := crit)\<rparr>,
         slices := (if valid then slices st else (slices st)(slice_idx := (slices st slice_idx)\<lparr>sorting := 0x12345\<rparr>))\<rparr>)"

fun insert_by :: "('a \<Rightarrow> 'a \<Rightarrow> int) \<Rightarrow> 'a \<Rightarrow> 'a list \<Rightarrow> 'a list" where
  "insert_by cmp x [] = [x]"
| "insert_by cmp x (y # ys) = (if cmp x y \<le> 0 then x # y # ys else y # insert_by cmp x ys)"

text \<open>\<open>qsort_r\<close> of the C library is a stable merge sort; here as an insertion sort with the same result.\<close>

definition qsort_r :: "('a \<Rightarrow> 'a \<Rightarrow> int) \<Rightarrow> 'a list \<Rightarrow> 'a list" where
  "qsort_r cmp xs = foldr (insert_by cmp) xs []"

definition dl_candidates :: "pp_env \<Rightarrow> int \<Rightarrow> ue_list \<Rightarrow> int list" where
  "dl_candidates env slice_idx l = filter (\<lambda>ue. active l ue \<and> dl_schedulable env slice_idx l ue) [0..MAX_MOBILES_PER_ENB - 1]"

definition harq_ok :: "pp_env \<Rightarrow> bool" where
  "harq_ok env \<longleftrightarrow> list_all (\<lambda>cc. cc_harq_pid env cc < 8) [0..nb_mac_CC env - 1]"

definition sort_UEs :: "pp_env \<Rightarrow> int \<Rightarrow> pp_state \<Rightarrow> pp_state option" where
  "sort_UEs env slice_idx st =
     (let list = dl_candidates env slice_idx (pp_list st);
          st = decode_sorting_policy slice_idx st; l = pp_list st in
      if length list > 1 \<and> \<not> harq_ok env then None
      else
        let list = qsort_r (ue_dl_compare env l slice_idx) list in
        Some (st\<lparr>pp_list := l\<lparr>head_dl := list_front list, next_dl := relink list (next_dl l)\<rparr>\<rparr>))"

section \<open>Accounting\<close>

definition partition_pair :: "pp_env \<Rightarrow> int \<Rightarrow> (int \<Rightarrow> int) \<Rightarrow> int \<times> int \<Rightarrow> pp_state \<Rightarrow> pp_state option" where
  "partition_pair env slice_idx rbs_retx p st = (case p of (ue, cc) \<Rightarrow> do {
     N_RB_DL \<leftarrow> cc_prb env cc;
     let available_rbs = nb_rbs_allowed_slice (pct (slices st slice_idx)) N_RB_DL;
     let v = (if rbs_retx cc < available_rbs then available_rbs - rbs_retx cc else 0);
     Some (st\<lparr>pp_list := upd_ctrl ue (\<lambda>c. c\<lparr>max_rbs_allowed_slice := upd2 (max_rbs_allowed_slice c) cc slice_idx v\<rparr>) (pp_list st)\<rparr>)
   })"

definition dlsch_scheduler_pre_processor_partitioning :: "pp_env \<Rightarrow> int \<Rightarrow> (int \<Rightarrow> int) \<Rightarrow> pp_state \<Rightarrow> pp_state option" where
  "dlsch_scheduler_pre_processor_partitioning env slice_idx rbs_retx st = do {
     ps \<leftarrow> ue_cc_pairs env slice_idx (pp_list st);
     ofold (partition_pair env slice_idx rbs_retx) ps st
   }"

record retx_count =
  rbs_retx :: "int \<Rightarrow> int"
  ue_count_newtx :: "int \<Rightarrow> int"

definition is_retx :: "pp_env \<Rightarrow> ue_list \<Rightarrow> int \<times> int \<Rightarrow> bool" where
  "is_retx env l p = (case p of (ue, cc) \<Rightarrow> harq_round (UE_sched_ctrl l ue) cc (cc_harq_pid env cc) \<noteq> 8)"

definition count_pair :: "pp_env \<Rightarrow> int \<times> int \<Rightarrow> retx_count \<times> pp_state \<Rightarrow> retx_count \<times> pp_state" where
  "count_pair env p cs = (case (p, cs) of ((ue, cc), (k, st)) \<Rightarrow>
     if is_retx env (pp_list st) p then
       let r = nb_rb (UE_template (pp_list st) cc ue) (cc_harq_pid env cc) in
       (k\<lparr>rbs_retx := (rbs_retx k)(cc := to_u8 (rbs_retx k cc + r))\<rparr>, st\<lparr>nb_rbs_required := upd2 (nb_rbs_required st) cc ue r\<rparr>)
     else (k\<lparr>ue_count_newtx := (ue_count_newtx k)(cc := ue_count_newtx k cc + 1)\<rparr>, st))"

definition greedy_pair :: "int \<times> int \<Rightarrow> (int \<Rightarrow> int) \<times> pp_state \<Rightarrow> (int \<Rightarrow> int) \<times> pp_state" where
  "greedy_pair p as = (case (p, as) of ((ue, cc), (avl, st)) \<Rightarrow>
     if avl cc = 0 then (avl, st)
     else let a = min (nb_rbs_required st cc ue) (avl cc) in
       (avl(cc := avl cc - a), st\<lparr>nb_rbs_accounted := upd2 (nb_rbs_accounted st) cc ue a\<rparr>))"

definition average_pair :: "pp_env \<Rightarrow> int \<Rightarrow> (int \<Rightarrow> int) \<Rightarrow> ue_list \<Rightarrow> int \<times> int \<Rightarrow> (int \<Rightarrow> int) \<Rightarrow> (int \<Rightarrow> int) option" where
  "average_pair env slice_idx newtx l p average = (case p of (ue, cc) \<Rightarrow> do {
     unit \<leftarrow> cc_unit env cc;
     let available = max_rbs_allowed_slice (UE_sched_ctrl l ue) cc slice_idx;
     Some (average(cc := if newtx cc = 0 then 0 else if unit * newtx cc \<le> available then to_u16 (cdiv available (newtx cc)) else to_u16 unit))
   })"

definition fair_pair :: "(int \<Rightarrow> int) \<Rightarrow> int \<times> int \<Rightarrow> pp_state \<Rightarrow> pp_state" where
  "fair_pair average p st = (case p of (ue, cc) \<Rightarrow>
     st\<lparr>nb_rbs_accounted := upd2 (nb_rbs_accounted st) cc ue (min (average cc) (nb_rbs_required st cc ue))\<rparr>)"

definition retx_pair :: "pp_env \<Rightarrow> int \<times> int \<Rightarrow> pp_state \<Rightarrow> pp_state" where
  "retx_pair env p st = (case p of (ue, cc) \<Rightarrow>
     if rrc_status env (UE_RNTI (pp_list st) ue) < 4 \<or> is_retx env (pp_list st) p
     then st\<lparr>nb_rbs_accounted := upd2 (nb_rbs_accounted st) cc ue (nb_rbs_required st cc ue)\<rparr> else st)"

definition dlsch_scheduler_pre_processor_accounting :: "pp_env \<Rightarrow> int \<Rightarrow> pp_state \<Rightarrow> pp_state option" where
  "dlsch_scheduler_pre_processor_accounting env slice_idx st = do {
     ps \<leftarrow> ue_cc_pairs env slice_idx (pp_list st);
     if ps \<noteq> [] \<and> \<not> harq_ok env then None else do {
       let (k, st) = fold (count_pair env) ps (\<lparr>rbs_retx = (\<lambda>_. 0), ue_count_newtx = (\<lambda>_. 0)\<rparr>, st);
       st \<leftarrow> dlsch_scheduler_pre_processor_partitioning env slice_idx (rbs_retx k) st;
       let h = head_dl (pp_list st);
       let avl = (\<lambda>cc. if h < 0 then 0 else max_rbs_allowed_slice (UE_sched_ctrl (pp_list st) h) cc slice_idx);
       st \<leftarrow> (if accounting (slices st slice_idx) = 1 then Some (snd (fold greedy_pair ps (avl, st)))
             else do {
               average \<leftarrow> ofold (average_pair env slice_idx (ue_count_newtx k) (pp_list st)) ps (\<lambda>_. 0);
               Some (fold (fair_pair average) ps st)
             });
       Some (fold (retx_pair env) ps st)
     }
   }"

section \<open>Positioning\<close>

text \<open>
  The mask has a row of 25 entries for each of 4 carriers, one after the other. With \<open>pos_high\<close> 25, its
  value in the default configuration, the loop runs one entry into the next row.
\<close>

definition decode_slice_positioning :: "pp_env \<Rightarrow> slice_dl \<Rightarrow> (int \<Rightarrow> int) option" where
  "decode_slice_positioning env sl =
     (if nb_mac_CC env \<ge> 1 \<and> pos_low sl \<le> pos_high sl \<and> ((nb_mac_CC env - 1) * 25 + pos_high sl \<ge> 100 \<or> pos_low sl < 0) then None
      else Some (fold (\<lambda>cc m. fold (\<lambda>rbg m. m(cc * 25 + rbg := 1)) [pos_low sl..pos_high sl] m) [0..nb_mac_CC env - 1] (\<lambda>_. 0)))"

definition rbg_size :: "int \<Rightarrow> int \<Rightarrow> int \<Rightarrow> int \<Rightarrow> int" where
  "rbg_size N_RBG N_RB_DL min_rb_unit i =
     (if i = N_RBG - 1 \<and> (N_RB_DL = 25 \<or> N_RB_DL = 50) then min_rb_unit - 1 else min_rb_unit)"

definition allocate_rbg :: "pp_env \<Rightarrow> (int \<Rightarrow> int) \<Rightarrow> int \<Rightarrow> int \<Rightarrow> int \<Rightarrow> int \<Rightarrow> int \<Rightarrow> int \<Rightarrow> pp_state \<Rightarrow> pp_state" where
  "allocate_rbg env amask ue cc N_RBG N_RB_DL min_rb_unit i st =
     (let c = UE_sched_ctrl (pp_list st) ue; sz = rbg_size N_RBG N_RB_DL min_rb_unit i in
      if rballoc_sub st cc i \<noteq> 0 then st
      else if rballoc_sub_UE c cc i \<noteq> 0 then st
      else if nb_rbs_remaining st cc ue \<le> 0 then st
      else if pre_nb_available_rbs c cc \<ge> nb_rbs_required st cc ue then st
      else if dl_pow_off c cc = 0 then st
      else if amask (cc * 25 + i) = 0 then st
      else if nb_rbs_remaining st cc ue \<ge> sz then
        st\<lparr>rballoc_sub := upd2 (rballoc_sub st) cc i 1, MIMO_mode_indicator := upd2 (MIMO_mode_indicator st) cc i 1,
           nb_rbs_remaining := upd2 (nb_rbs_remaining st) cc ue (to_u16 (nb_rbs_remaining st cc ue - sz)),
           pp_list := upd_ctrl ue (\<lambda>c. c\<lparr>rballoc_sub_UE := upd2 (rballoc_sub_UE c) cc i 1,
             dl_pow_off := (if tmode env cc ue = 5 then (dl_pow_off c)(cc := 1) else dl_pow_off c),
             pre_nb_available_rbs := (pre_nb_available_rbs c)(cc := to_u16 (pre_nb_available_rbs c cc + sz))\<rparr>) (pp_list st)\<rparr>
      else st)"

definition dlsch_scheduler_pre_processor_allocate :: "pp_env \<Rightarrow> (int \<Rightarrow> int) \<Rightarrow> int \<Rightarrow> int \<Rightarrow> pp_state \<Rightarrow> pp_state option" where
  "dlsch_scheduler_pre_processor_allocate env amask ue cc st = do {
     N_RBG \<leftarrow> cc_rbg env cc;
     N_RB_DL \<leftarrow> cc_prb env cc;
     Some (fold (allocate_rbg env amask ue cc N_RBG N_RB_DL (get_min_rb_unit N_RB_DL)) [0..N_RBG - 1] st)
   }"

definition position_pair :: "pp_env \<Rightarrow> (int \<Rightarrow> int) \<Rightarrow> int \<times> int \<Rightarrow> pp_state \<Rightarrow> pp_state option" where
  "position_pair env amask p st = (case p of (ue, cc) \<Rightarrow>
     dlsch_scheduler_pre_processor_allocate env amask ue cc
       (st\<lparr>nb_rbs_remaining := upd2 (nb_rbs_remaining st) cc ue (nb_rbs_accounted st cc ue)\<rparr>))"

definition dlsch_scheduler_pre_processor_positioning :: "pp_env \<Rightarrow> int \<Rightarrow> pp_state \<Rightarrow> pp_state option" where
  "dlsch_scheduler_pre_processor_positioning env slice_idx st = do {
     amask \<leftarrow> decode_slice_positioning env (slices st slice_idx);
     ps \<leftarrow> ue_cc_pairs env slice_idx (pp_list st);
     ofold (position_pair env amask) ps st
   }"

definition share_pair :: "pp_env \<Rightarrow> (int \<Rightarrow> int) \<Rightarrow> int \<times> int \<Rightarrow> pp_state \<Rightarrow> pp_state option" where
  "share_pair env amask p st = (case p of (ue, cc) \<Rightarrow>
     dlsch_scheduler_pre_processor_allocate env amask ue cc
       (st\<lparr>nb_rbs_remaining := upd2 (nb_rbs_remaining st) cc ue
             (to_u16 (nb_rbs_required st cc ue - nb_rbs_accounted st cc ue + nb_rbs_remaining st cc ue))\<rparr>))"

definition dlsch_scheduler_pre_processor_intraslice_sharing :: "pp_env \<Rightarrow> int \<Rightarrow> pp_state \<Rightarrow> pp_state option" where
  "dlsch_scheduler_pre_processor_intraslice_sharing env slice_idx st = do {
     amask \<leftarrow> decode_slice_positioning env (slices st slice_idx);
     ps \<leftarrow> ue_cc_pairs env slice_idx (pp_list st);
     ofold (share_pair env amask) ps (st\<lparr>slice_allocation_mask := amask\<rparr>)
   }"

section \<open>Reset and the whole pre-processor\<close>

definition reset_ue :: "pp_env \<Rightarrow> int \<Rightarrow> int \<Rightarrow> int \<Rightarrow> int \<Rightarrow> pp_state \<Rightarrow> pp_state" where
  "reset_ue env slice_idx cc N_RBG ue st =
     (let l = pp_list st in
      if UE_RNTI l ue \<noteq> NOT_A_RNTI \<and> active l ue \<and> ue_dl_slice_membership env l ue slice_idx then
        st\<lparr>nb_rbs_required := upd2 (nb_rbs_required st) cc ue 0,
           pp_list := upd_ctrl ue (\<lambda>c. c\<lparr>ta_timer := (if ta_timer c \<noteq> 0 then ta_timer c - 1 else 0),
             pre_nb_available_rbs := (pre_nb_available_rbs c)(cc := 0), dl_pow_off := (dl_pow_off c)(cc := 2),
             rballoc_sub_UE := (rballoc_sub_UE c)(cc := (\<lambda>i. if 0 \<le> i \<and> i < N_RBG then 0 else rballoc_sub_UE c cc i))\<rparr>) l\<rparr>
      else st)"

definition sf0_range :: "int \<Rightarrow> (int \<times> int) option" where
  "sf0_range N_RBG =
     (if N_RBG = 6 then Some (0, 5) else if N_RBG = 8 then Some (2, 5) else if N_RBG = 13 then Some (4, 7)
      else if N_RBG = 17 then Some (7, 9) else if N_RBG = 25 then Some (11, 13) else None)"

definition rbg_sizes :: "int \<Rightarrow> (int \<times> int) option" where
  "rbg_sizes N_RB_DL =
     (if N_RB_DL = 6 then Some (1, 1) else if N_RB_DL = 15 then Some (2, 1) else if N_RB_DL = 25 then Some (2, 1)
      else if N_RB_DL = 50 then Some (3, 2) else if N_RB_DL = 75 then Some (4, 3) else if N_RB_DL = 100 then Some (4, 4) else None)"

definition rbg_blocked :: "pp_env \<Rightarrow> int \<Rightarrow> int \<Rightarrow> int \<times> int \<Rightarrow> int \<times> int \<Rightarrow> int \<Rightarrow> bool" where
  "rbg_blocked env cc N_RBG sf0 sizes i \<longleftrightarrow>
     subframeP env = 0 \<and> fst sf0 \<le> i \<and> i \<le> snd sf0
     \<or> list_ex (\<lambda>j. vrb_map (cell env cc) (j + i * fst sizes) \<noteq> 0) [0..(if i = N_RBG - 1 then snd sizes else fst sizes) - 1]"

definition mark_rbg :: "int \<Rightarrow> (int \<Rightarrow> bool) \<Rightarrow> int \<Rightarrow> pp_state \<Rightarrow> pp_state" where
  "mark_rbg cc blocked i st = st\<lparr>rballoc_sub := (if blocked i then upd2 (rballoc_sub st) cc i 1 else rballoc_sub st),
     MIMO_mode_indicator := upd2 (MIMO_mode_indicator st) cc i 2\<rparr>"

definition reset_cc :: "pp_env \<Rightarrow> int \<Rightarrow> int \<Rightarrow> pp_state \<Rightarrow> pp_state option" where
  "reset_cc env slice_idx cc st = do {
     N_RBG \<leftarrow> cc_rbg env cc;
     N_RB_DL \<leftarrow> cc_prb env cc;
     if mbsfn_flag env cc > 0 then Some st else do {
       let st = fold (reset_ue env slice_idx cc N_RBG) [0..MAX_MOBILES_PER_ENB - 1] st;
       sf0 \<leftarrow> sf0_range N_RBG;
       sizes \<leftarrow> rbg_sizes N_RB_DL;
       Some (fold (mark_rbg cc (rbg_blocked env cc N_RBG sf0 sizes)) [0..N_RBG - 1] st)
     }
   }"

definition dlsch_scheduler_pre_processor_reset :: "pp_env \<Rightarrow> int \<Rightarrow> pp_state \<Rightarrow> pp_state option" where
  "dlsch_scheduler_pre_processor_reset env slice_idx st = ofold (reset_cc env slice_idx) [0..nb_mac_CC env - 1] st"

definition dlsch_scheduler_pre_processor :: "pp_env \<Rightarrow> int \<Rightarrow> pp_state \<Rightarrow> pp_state option" where
  "dlsch_scheduler_pre_processor env slice_idx st = do {
     st \<leftarrow> dlsch_scheduler_pre_processor_reset env slice_idx
       (st\<lparr>nb_rbs_required := (\<lambda>_ _. 0), nb_rbs_accounted := (\<lambda>_ _. 0), nb_rbs_remaining := (\<lambda>_ _. 0),
           slice_allocation_mask := (\<lambda>_. 0), MIMO_mode_indicator := (\<lambda>_ _. 0), pp_mcs := (\<lambda>_ _. 0)\<rparr>);
     let st = st\<lparr>pp_list := store_dlsch_buffer env slice_idx (pp_list st)\<rparr>;
     st \<leftarrow> assign_rbs_required env slice_idx st;
     st \<leftarrow> sort_UEs env slice_idx st;
     st \<leftarrow> dlsch_scheduler_pre_processor_accounting env slice_idx st;
     st \<leftarrow> dlsch_scheduler_pre_processor_positioning env slice_idx st;
     if intraslice_share_active env then dlsch_scheduler_pre_processor_intraslice_sharing env slice_idx st else Some st
   }"

end
