(* ===== verification/Mac_Pre_Dl_Correct.thy ===== *)
theory Mac_Pre_Dl_Correct
  imports Mac_Pre_Dl
begin

text \<open>
  Correctness of the downlink pre-processor. The comparison of UEs is a total preorder, so sorting gives
  the order of the criteria (\<open>cmp_order\<close>); resource block groups only go to one UE (\<open>grown\<close> relates the states
  between which groups are added); the stages leave each other's data alone (\<open>alloc_view\<close>, \<open>frame_view\<close>), with
  which the whole pre-processor returns.
\<close>

section \<open>Sorting with a comparison function\<close>

locale cmp_order =
  fixes cmp :: "'a \<Rightarrow> 'a \<Rightarrow> int"
  assumes cmp_total: "cmp a b \<le> 0 \<or> cmp b a \<le> 0"
    and cmp_trans: "cmp a b \<le> 0 \<Longrightarrow> cmp b c \<le> 0 \<Longrightarrow> cmp a c \<le> 0"
begin

lemma mset_insert_by: "mset (insert_by cmp x xs) = add_mset x (mset xs)"
  by (induction xs) auto

lemma sorted_insert_by: "sorted_wrt (\<lambda>a b. cmp a b \<le> 0) xs \<Longrightarrow> sorted_wrt (\<lambda>a b. cmp a b \<le> 0) (insert_by cmp x xs)"
proof (induction xs)
  case (Cons y ys)
  have "set (insert_by cmp x ys) = insert x (set ys)" by (metis mset_insert_by set_mset_add_mset_insert set_mset_mset)
  then show ?case using Cons cmp_trans [of x y] cmp_total [of x y] by auto
qed simp

lemma qsort_mset: "mset (qsort_r cmp xs) = mset xs"
  by (induction xs) (simp_all add: qsort_r_def mset_insert_by)

lemma qsort_sorted: "sorted_wrt (\<lambda>a b. cmp a b \<le> 0) (qsort_r cmp xs)"
  by (induction xs) (simp_all add: qsort_r_def sorted_insert_by)

lemma qsort_distinct: "distinct (qsort_r cmp xs) = distinct xs"
  using qsort_mset by (metis mset_eq_imp_distinct_iff)

end

definition lex_compare :: "('k \<Rightarrow> int) \<Rightarrow> ('k \<Rightarrow> int) \<Rightarrow> 'k list \<Rightarrow> int" where
  "lex_compare f g ks = first_nonzero (map (\<lambda>k. larger_first (f k) (g k)) ks)"

lemma lex_compare_simps [simp]:
  "lex_compare f g [] = 0"
  "lex_compare f g (k # ks) = (if f k = g k then lex_compare f g ks else larger_first (f k) (g k))"
  by (simp_all add: lex_compare_def larger_first_def)

lemma lex_compare_total: "lex_compare f g ks \<le> 0 \<or> lex_compare g f ks \<le> 0"
  by (induction ks) (auto simp: larger_first_def)

lemma lex_compare_trans: "lex_compare f g ks \<le> 0 \<Longrightarrow> lex_compare g h ks \<le> 0 \<Longrightarrow> lex_compare f h ks \<le> 0"
  by (induction ks) (auto simp: larger_first_def split: if_splits)

lemma ue_dl_compare_lex:
  "ue_dl_compare env l sl a b = lex_compare (\<lambda>i. crit_key env l (sorting_criteria l sl i) a) (\<lambda>i. crit_key env l (sorting_criteria l sl i) b) [0..5]"
  by (simp add: ue_dl_compare_def lex_compare_def Let_def)

interpretation dl_cmp: cmp_order "ue_dl_compare env l sl" for env l sl
  by unfold_locales (use lex_compare_total lex_compare_trans in \<open>simp_all only: ue_dl_compare_lex, blast\<close>)

lemma key_links:
  "UE_RNTI (l\<lparr>head_dl := h, next_dl := n\<rparr>) = UE_RNTI l"
  "maxround env (l\<lparr>head_dl := h, next_dl := n\<rparr>) = maxround env l"
  "maxcqi (l\<lparr>head_dl := h, next_dl := n\<rparr>) = maxcqi l"
  "min_lcgidpriority (l\<lparr>head_dl := h, next_dl := n\<rparr>) = min_lcgidpriority l"
  by (simp_all add: fun_eq_iff maxround_def find_UE_id_def UE_RNTI_def maxcqi_def ue_ccs_def min_lcgidpriority_def Let_def)

lemma crit_key_links: "crit_key env (l\<lparr>head_dl := h, next_dl := n\<rparr>) = crit_key env l"
  unfolding fun_eq_iff crit_key_def Let_def key_links by simp

lemma compare_links: "ue_dl_compare env (l\<lparr>head_dl := h, next_dl := n\<rparr>) sl = ue_dl_compare env l sl"
  unfolding fun_eq_iff ue_dl_compare_def crit_key_links by simp

lemma dl_candidates_range: "ue \<in> set (dl_candidates env sl l) \<Longrightarrow> 0 \<le> ue"
  by (simp add: dl_candidates_def)

lemma sort_UEs_order:
  assumes "sort_UEs env sl st = Some st'"
  obtains xs where "visit_order 0 (pp_list st') = Some xs" "mset xs = mset (dl_candidates env sl (pp_list st))" "distinct xs"
    "sorted_wrt (\<lambda>a b. ue_dl_compare env (pp_list st') sl a b \<le> 0) xs"
proof -
  let ?l = "pp_list (decode_sorting_policy sl st)"
  let ?xs = "qsort_r (ue_dl_compare env ?l sl) (dl_candidates env sl (pp_list st))"
  have l': "pp_list st' = ?l\<lparr>head_dl := list_front ?xs, next_dl := relink ?xs (next_dl ?l)\<rparr>"
    using assms by (auto simp: sort_UEs_def Let_def split: if_splits)
  have d: "distinct ?xs" by (simp add: dl_cmp.qsort_distinct dl_candidates_def)
  have m: "mset ?xs = mset (dl_candidates env sl (pp_list st))" by (rule dl_cmp.qsort_mset)
  have "\<forall>x\<in>set ?xs. 0 \<le> x" using dl_candidates_range mset_eq_setD [OF m] by blast
  then have "visit_order 0 (pp_list st') = Some ?xs" using dl.order_relink [OF d, of ?l] by (simp add: visit_order_cases l')
  then show thesis using that [OF _ m d] dl_cmp.qsort_sorted by (simp add: l' compare_links)
qed

lemma sort_UEs_total: "harq_ok env \<Longrightarrow> \<exists>st'. sort_UEs env sl st = Some st'"
  by (simp add: sort_UEs_def Let_def)

lemma eligible_found:
  assumes "active l ue" "0 \<le> ue" "ue < MAX_MOBILES_PER_ENB" "UE_RNTI l ue \<noteq> 0"
  shows "find_UE_id l (UE_RNTI l ue) \<noteq> -1"
proof -
  have "ue_rnti l ue = UE_RNTI l ue" using assms(4) by (auto simp: UE_RNTI_def ue_rnti_def Let_def split: if_splits)
  then have "ue_map l (UE_RNTI l ue) \<noteq> None" using assms(1-3) by (auto simp: ue_map_None active_ues_def)
  then show ?thesis by (auto simp: ue_map_def)
qed

lemma default_policy: "decode_criteria 0x012345 [0..5] crit = (True, crit(0 := 0, 1 := 1, 2 := 2, 3 := 3, 4 := 4, 5 := 5))"
proof -
  have r: "[0..5] = [0, 1, 2, 3, 4, 5 :: int]" by code_simp
  show ?thesis by (simp add: r Let_def)
qed

section \<open>What the stages leave alone\<close>

lemma fold_rel:
  assumes "\<And>x s. x \<in> set xs \<Longrightarrow> R s (f x s)" "\<And>s. R s s" "\<And>a b c. R a b \<Longrightarrow> R b c \<Longrightarrow> R a c"
  shows "R s (fold f xs s)"
  using assms(1)
proof (induction xs arbitrary: s)
  case (Cons x xs)
  have "R s (f x s)" "R (f x s) (fold f xs (f x s))" using Cons by auto
  then show ?case using assms(3) by simp
qed (simp add: assms(2))

lemma fold_same: "(\<And>x s. x \<in> set xs \<Longrightarrow> v (f x s) = v s) \<Longrightarrow> v (fold f xs s) = v s"
  by (rule fold_rel [where R = "\<lambda>s s'. v s' = v s" and xs = xs and f = f]) auto

text \<open>The resource block groups, as the table of the carrier and the control record of each UE have them.\<close>

definition alloc_view :: "pp_state \<Rightarrow> (int \<Rightarrow> int \<Rightarrow> int) \<times> (int \<Rightarrow> (int \<Rightarrow> int \<Rightarrow> int) \<times> (int \<Rightarrow> int)) \<times> (int \<Rightarrow> int \<times> int)" where
  "alloc_view st = (rballoc_sub st, (\<lambda>u. (rballoc_sub_UE (UE_sched_ctrl (pp_list st) u), pre_nb_available_rbs (UE_sched_ctrl (pp_list st) u))),
     (\<lambda>s. (pos_low (slices st s), pos_high (slices st s))))"

lemma store_ctrl: "UE_sched_ctrl (store_dlsch_buffer env sl l) = UE_sched_ctrl l"
  unfolding store_dlsch_buffer_def by (rule fold_same) (simp add: store_ue_def set_template_def)

lemma sort_ccs_ctrl: "UE_sched_ctrl (sort_ccs ue l) = UE_sched_ctrl l"
  unfolding sort_ccs_def sort_ccs_from_def by (rule fold_same, rule fold_same) (simp add: swap_ccs_def)

lemma update_mcs_ctrl: "ofold (update_mcs m ue) ccs l = Some l' \<Longrightarrow> UE_sched_ctrl l' = UE_sched_ctrl l"
  by (erule ofold_same [rotated]) (auto simp: update_mcs_def split: Option.bind_splits)

lemma view_ctrl: "alloc_view (st\<lparr>pp_list := l\<rparr>) = alloc_view st" if "UE_sched_ctrl l = UE_sched_ctrl (pp_list st)"
  using that by (simp add: alloc_view_def)

lemma view_assign: "assign_rbs_required env sl st = Some st' \<Longrightarrow> alloc_view st' = alloc_view st"
proof -
  have cc: "alloc_view s' = alloc_view s" if "required_cc env sl ue c s = Some s'" for ue c s s'
    using that by (auto simp: required_cc_def alloc_view_def upd_ctrl_def Let_def fun_eq_iff split: Option.bind_splits)
  have "alloc_view s' = alloc_view s" if a: "assign_ue env sl ue s = Some s'" for ue s s'
  proof -
    have "\<exists>l. UE_sched_ctrl l = UE_sched_ctrl (pp_list s) \<and> (s' = s\<lparr>pp_list := l\<rparr> \<or> ofold (required_cc env sl ue) (ue_ccs l ue) (s\<lparr>pp_list := l\<rparr>) = Some s')"
      using a unfolding assign_ue_def Let_def
      by (auto split: if_splits Option.bind_splits simp: sort_ccs_ctrl dest!: update_mcs_ctrl intro: exI [of _ "pp_list s"])
        (metis sort_ccs_ctrl)+
    then obtain l where l: "UE_sched_ctrl l = UE_sched_ctrl (pp_list s)"
        "s' = s\<lparr>pp_list := l\<rparr> \<or> ofold (required_cc env sl ue) (ue_ccs l ue) (s\<lparr>pp_list := l\<rparr>) = Some s'" by blast
    then have "alloc_view s' = alloc_view (s\<lparr>pp_list := l\<rparr>)" using ofold_same [where v = alloc_view and f = "required_cc env sl ue", OF cc] by auto
    then show ?thesis using view_ctrl [OF l(1)] by simp
  qed
  then show "assign_rbs_required env sl st = Some st' \<Longrightarrow> alloc_view st' = alloc_view st"
    unfolding assign_rbs_required_def using ofold_same [where v = alloc_view and f = "assign_ue env sl"] by blast
qed

lemma view_sort: "sort_UEs env sl st = Some st' \<Longrightarrow> alloc_view st' = alloc_view st"
  by (auto simp: sort_UEs_def decode_sorting_policy_def alloc_view_def Let_def fun_eq_iff split: prod.splits if_splits)

lemma view_partitioning:
  assumes "dlsch_scheduler_pre_processor_partitioning env sl rx st = Some st'"
  shows "alloc_view st' = alloc_view st"
proof -
  obtain ps where o: "ofold (partition_pair env sl rx) ps st = Some st'"
    using assms by (auto simp: dlsch_scheduler_pre_processor_partitioning_def split: Option.bind_splits)
  have "alloc_view s' = alloc_view s" if "partition_pair env sl rx p s = Some s'" for p s s'
    using that by (auto simp: partition_pair_def alloc_view_def upd_ctrl_def Let_def fun_eq_iff split: prod.splits Option.bind_splits)
  then show ?thesis by (rule ofold_same [OF _ o])
qed

lemma view_pairs:
  "alloc_view (snd (count_pair env p cs)) = alloc_view (snd cs)" "alloc_view (snd (greedy_pair p as)) = alloc_view (snd as)"
  "alloc_view (fair_pair av p st) = alloc_view st" "alloc_view (retx_pair env p st) = alloc_view st"
  by (simp_all add: count_pair_def greedy_pair_def fair_pair_def retx_pair_def alloc_view_def Let_def split: prod.splits)

lemma view_folds:
  "alloc_view (snd (fold (count_pair env) ps cs)) = alloc_view (snd cs)" "alloc_view (snd (fold greedy_pair ps as)) = alloc_view (snd as)"
  "alloc_view (fold (fair_pair av) ps st) = alloc_view st" "alloc_view (fold (retx_pair env) ps st) = alloc_view st"
  by (rule fold_same [where v = "\<lambda>s. alloc_view (snd s)"], rule view_pairs)
     (rule fold_same [where v = "\<lambda>s. alloc_view (snd s)"], rule view_pairs, (rule fold_same, rule view_pairs)+)

lemma accounting_steps:
  assumes "dlsch_scheduler_pre_processor_accounting env sl st = Some st'"
  obtains ps k st1 st2 st3 where "ue_cc_pairs env sl (pp_list st) = Some ps"
    "fold (count_pair env) ps (\<lparr>rbs_retx = (\<lambda>_. 0), ue_count_newtx = (\<lambda>_. 0)\<rparr>, st) = (k, st1)"
    "dlsch_scheduler_pre_processor_partitioning env sl (rbs_retx k) st1 = Some st2"
    "(\<exists>avl. st3 = snd (fold greedy_pair ps (avl, st2))
        \<and> avl = (\<lambda>cc. if head_dl (pp_list st2) < 0 then 0 else max_rbs_allowed_slice (UE_sched_ctrl (pp_list st2) (head_dl (pp_list st2))) cc sl))
     \<or> (\<exists>average. ofold (average_pair env sl (ue_count_newtx k) (pp_list st2)) ps (\<lambda>_. 0) = Some average \<and> st3 = fold (fair_pair average) ps st2)"
    "st' = fold (retx_pair env) ps st3"
proof -
  obtain ps where ps: "ue_cc_pairs env sl (pp_list st) = Some ps"
    using assms unfolding dlsch_scheduler_pre_processor_accounting_def by (cases "ue_cc_pairs env sl (pp_list st)") simp_all
  obtain k st1 where k: "fold (count_pair env) ps (\<lparr>rbs_retx = (\<lambda>_. 0), ue_count_newtx = (\<lambda>_. 0)\<rparr>, st) = (k, st1)" by fastforce
  have "\<not> (ps \<noteq> [] \<and> \<not> harq_ok env)" using assms ps unfolding dlsch_scheduler_pre_processor_accounting_def by (auto split: if_splits)
  note run = assms [unfolded dlsch_scheduler_pre_processor_accounting_def Let_def ps option.sel Option.bind.bind_lunit if_not_P [OF this] k prod.case]
  obtain st2 where st2: "dlsch_scheduler_pre_processor_partitioning env sl (rbs_retx k) st1 = Some st2"
    using run by (cases "dlsch_scheduler_pre_processor_partitioning env sl (rbs_retx k) st1") simp_all
  note run2 = run [unfolded st2 Option.bind.bind_lunit]
  show thesis
  proof (cases "accounting (slices st2 sl) = 1")
    case True
    then show thesis using run2 by (intro that [OF ps k st2, OF disjI1]) auto
  next
    case False
    then obtain average where "ofold (average_pair env sl (ue_count_newtx k) (pp_list st2)) ps (\<lambda>_. 0) = Some average"
      using run2 by (cases "ofold (average_pair env sl (ue_count_newtx k) (pp_list st2)) ps (\<lambda>_. 0)") simp_all
    then show thesis using run2 False by (intro that [OF ps k st2, OF disjI2]) auto
  qed
qed

lemma view_accounting:
  assumes "dlsch_scheduler_pre_processor_accounting env sl st = Some st'"
  shows "alloc_view st' = alloc_view st"
  using assms
proof (rule accounting_steps)
  fix ps k st1 st2 st3
  assume k: "fold (count_pair env) ps (\<lparr>rbs_retx = (\<lambda>_. 0), ue_count_newtx = (\<lambda>_. 0)\<rparr>, st) = (k, st1)"
    and p: "dlsch_scheduler_pre_processor_partitioning env sl (rbs_retx k) st1 = Some st2"
    and m: "(\<exists>avl. st3 = snd (fold greedy_pair ps (avl, st2))
        \<and> avl = (\<lambda>cc. if head_dl (pp_list st2) < 0 then 0 else max_rbs_allowed_slice (UE_sched_ctrl (pp_list st2) (head_dl (pp_list st2))) cc sl))
     \<or> (\<exists>average. ofold (average_pair env sl (ue_count_newtx k) (pp_list st2)) ps (\<lambda>_. 0) = Some average \<and> st3 = fold (fair_pair average) ps st2)"
    and r: "st' = fold (retx_pair env) ps st3"
  have "alloc_view st1 = alloc_view st" using view_folds(1) [of env ps "(\<lparr>rbs_retx = (\<lambda>_. 0), ue_count_newtx = (\<lambda>_. 0)\<rparr>, st)"] k by simp
  moreover have "alloc_view st3 = alloc_view st2" using m view_folds(2) [of ps] view_folds(3) [of _ ps st2] by auto
  ultimately show ?thesis using view_partitioning [OF p] view_folds(4) [of env ps st3] r by simp
qed

section \<open>Assigning resource block groups\<close>

definition holds :: "pp_state \<Rightarrow> int \<Rightarrow> int \<Rightarrow> int \<Rightarrow> bool" where
  "holds st ue cc i \<longleftrightarrow> rballoc_sub_UE (UE_sched_ctrl (pp_list st) ue) cc i \<noteq> 0"

definition gains :: "pp_state \<Rightarrow> pp_state \<Rightarrow> int \<Rightarrow> int \<Rightarrow> int \<Rightarrow> bool" where
  "gains st st' ue cc i \<longleftrightarrow> \<not> holds st ue cc i \<and> holds st' ue cc i"

text \<open>
  Between two states groups are only added; a UE gains a group only if it was free and in the mask, the
  group is then marked as taken, and no two UEs gain the same group.
\<close>

definition grown :: "(int \<Rightarrow> int) \<Rightarrow> pp_state \<Rightarrow> pp_state \<Rightarrow> bool" where
  "grown amask st st' \<longleftrightarrow> slices st' = slices st
     \<and> (\<forall>cc i. rballoc_sub st cc i \<noteq> 0 \<longrightarrow> rballoc_sub st' cc i \<noteq> 0)
     \<and> (\<forall>ue cc i. holds st ue cc i \<longrightarrow> holds st' ue cc i)
     \<and> (\<forall>ue cc i. gains st st' ue cc i \<longrightarrow> rballoc_sub st cc i = 0 \<and> rballoc_sub st' cc i \<noteq> 0 \<and> amask (cc * 25 + i) \<noteq> 0)
     \<and> (\<forall>u v cc i. gains st st' u cc i \<longrightarrow> gains st st' v cc i \<longrightarrow> u = v)"

lemma grown_refl: "grown m st st"
  by (simp add: grown_def gains_def)

lemma grown_trans:
  assumes a: "grown m s t" and b: "grown m t r"
  shows "grown m s r"
proof -
  have cases: "gains s t u c i \<or> gains t r u c i" if "gains s r u c i" for u c i using that by (auto simp: gains_def)
  have one: "rballoc_sub s c i = 0 \<and> rballoc_sub r c i \<noteq> 0 \<and> m (c * 25 + i) \<noteq> 0" if "gains s r u c i" for u c i
    using cases [OF that] a b unfolding grown_def by metis
  have two: "u = v" if u: "gains s r u c i" and v: "gains s r v c i" for u v c i
    using cases [OF u] cases [OF v] a b unfolding grown_def by metis
  have "slices r = slices s" "\<forall>c i. rballoc_sub s c i \<noteq> 0 \<longrightarrow> rballoc_sub r c i \<noteq> 0" "\<forall>u c i. holds s u c i \<longrightarrow> holds r u c i"
    using a b unfolding grown_def by auto
  then show ?thesis unfolding grown_def using one two by blast
qed

lemma ctrl_upd_ctrl: "UE_sched_ctrl (upd_ctrl ue f l) u = (if u = ue then f (UE_sched_ctrl l ue) else UE_sched_ctrl l u)"
  by (simp add: upd_ctrl_def)

lemma upd2_apply: "upd2 f a b v x y = (if x = a \<and> y = b then v else f x y)"
  by (simp add: upd2_def)

definition take_rbg :: "pp_env \<Rightarrow> int \<Rightarrow> int \<Rightarrow> int \<Rightarrow> int \<Rightarrow> pp_state \<Rightarrow> pp_state" where
  "take_rbg env ue cc i sz st =
     st\<lparr>rballoc_sub := upd2 (rballoc_sub st) cc i 1, MIMO_mode_indicator := upd2 (MIMO_mode_indicator st) cc i 1,
        nb_rbs_remaining := upd2 (nb_rbs_remaining st) cc ue (to_u16 (nb_rbs_remaining st cc ue - sz)),
        pp_list := upd_ctrl ue (\<lambda>c. c\<lparr>rballoc_sub_UE := upd2 (rballoc_sub_UE c) cc i 1,
          dl_pow_off := (if tmode env cc ue = 5 then (dl_pow_off c)(cc := 1) else dl_pow_off c),
          pre_nb_available_rbs := (pre_nb_available_rbs c)(cc := to_u16 (pre_nb_available_rbs c cc + sz))\<rparr>) (pp_list st)\<rparr>"

lemma allocate_rbg_cases:
  obtains (skip) "allocate_rbg env amask ue cc nrbg nrb unit i st = st"
    | (taken) "rballoc_sub st cc i = 0" "\<not> holds st ue cc i" "amask (cc * 25 + i) \<noteq> 0"
        "rbg_size nrbg nrb unit i \<le> nb_rbs_remaining st cc ue"
        "allocate_rbg env amask ue cc nrbg nrb unit i st = take_rbg env ue cc i (rbg_size nrbg nrb unit i) st"
proof (cases "allocate_rbg env amask ue cc nrbg nrb unit i st = st")
  case False
  then have "rballoc_sub st cc i = 0 \<and> \<not> holds st ue cc i \<and> amask (cc * 25 + i) \<noteq> 0 \<and> rbg_size nrbg nrb unit i \<le> nb_rbs_remaining st cc ue
      \<and> allocate_rbg env amask ue cc nrbg nrb unit i st = take_rbg env ue cc i (rbg_size nrbg nrb unit i) st"
    unfolding allocate_rbg_def take_rbg_def Let_def holds_def by (simp split: if_splits)
  then show thesis using taken by blast
qed (rule skip)

lemma grown_rbg: "grown amask st (allocate_rbg env amask ue cc nrbg nrb unit i st)"
proof -
  let ?st = "allocate_rbg env amask ue cc nrbg nrb unit i st"
  show ?thesis
  using allocate_rbg_cases [of env amask ue cc nrbg nrb unit i st]
  proof cases
    case skip
    then show ?thesis by (simp add: grown_refl)
  next
    case taken
    have h: "holds ?st u c j \<longleftrightarrow> holds st u c j \<or> (u = ue \<and> c = cc \<and> j = i)" for u c j
      by (auto simp: holds_def taken(5) take_rbg_def ctrl_upd_ctrl upd2_apply)
    have s: "slices ?st = slices st" "rballoc_sub ?st = upd2 (rballoc_sub st) cc i 1" by (simp_all add: taken(5) take_rbg_def)
    show ?thesis unfolding grown_def gains_def h s using taken(1-3) by (auto simp: upd2_apply)
  qed
qed

lemma grown_frame:
  assumes "grown amask t st'" "slices t = slices st" "rballoc_sub t = rballoc_sub st" "pp_list t = pp_list st"
  shows "grown amask st st'"
  using assms(1) unfolding grown_def gains_def holds_def assms(2-4) .

lemma grown_allocate:
  assumes "dlsch_scheduler_pre_processor_allocate env amask ue cc st = Some st'"
  shows "grown amask st st'"
proof -
  obtain nrbg nrb where "st' = fold (allocate_rbg env amask ue cc nrbg nrb (get_min_rb_unit nrb)) [0..nrbg - 1] st"
    using assms unfolding dlsch_scheduler_pre_processor_allocate_def by (auto split: Option.bind_splits)
  moreover have "grown amask st (fold (allocate_rbg env amask ue cc nrbg nrb (get_min_rb_unit nrb)) [0..nrbg - 1] st)"
    by (rule fold_rel [where R = "grown amask"]) (rule grown_rbg, rule grown_refl, rule grown_trans)
  ultimately show ?thesis by simp
qed

lemma grown_pairs:
  "position_pair env amask p st = Some st' \<Longrightarrow> grown amask st st'" "share_pair env amask p st = Some st' \<Longrightarrow> grown amask st st'"
proof -
  obtain ue cc where p: "p = (ue, cc)" by (cases p)
  show "position_pair env amask p st = Some st' \<Longrightarrow> grown amask st st'"
    unfolding position_pair_def p prod.case by (drule grown_allocate, erule grown_frame) simp_all
  show "share_pair env amask p st = Some st' \<Longrightarrow> grown amask st st'"
    unfolding share_pair_def p prod.case by (drule grown_allocate, erule grown_frame) simp_all
qed

lemma grown_ofold:
  assumes "\<And>p s s'. f p s = Some s' \<Longrightarrow> grown amask s s'" "ofold f ps st = Some st'"
  shows "grown amask st st'"
  using ofold_rel [where R = "grown amask" and f = f, OF _ _ _ assms(2)] assms(1) grown_refl grown_trans by blast

lemma grown_positioning:
  assumes "dlsch_scheduler_pre_processor_positioning env sl st = Some st'"
  shows "\<exists>amask. decode_slice_positioning env (slices st sl) = Some amask \<and> grown amask st st'"
  using assms grown_ofold [where f = "position_pair env _", OF grown_pairs(1)]
  by (auto simp: dlsch_scheduler_pre_processor_positioning_def split: Option.bind_splits)

lemma grown_sharing:
  assumes "dlsch_scheduler_pre_processor_intraslice_sharing env sl st = Some st'"
  shows "\<exists>amask. decode_slice_positioning env (slices st sl) = Some amask \<and> grown amask st st'"
proof -
  obtain amask ps where a: "decode_slice_positioning env (slices st sl) = Some amask"
      "ofold (share_pair env amask) ps (st\<lparr>slice_allocation_mask := amask\<rparr>) = Some st'"
    using assms by (auto simp: dlsch_scheduler_pre_processor_intraslice_sharing_def split: Option.bind_splits)
  have "grown amask (st\<lparr>slice_allocation_mask := amask\<rparr>) st'" using grown_ofold [OF grown_pairs(2) a(2)] .
  then have "grown amask st st'" by (rule grown_frame) simp_all
  with a(1) show ?thesis by blast
qed

section \<open>Reset\<close>

definition slice_member :: "pp_env \<Rightarrow> int \<Rightarrow> ue_list \<Rightarrow> int \<Rightarrow> bool" where
  "slice_member env sl l ue \<longleftrightarrow> 0 \<le> ue \<and> ue < MAX_MOBILES_PER_ENB \<and> UE_RNTI l ue \<noteq> NOT_A_RNTI \<and> active l ue \<and> ue_dl_slice_membership env l ue sl"

definition rbg_reserved :: "pp_env \<Rightarrow> int \<Rightarrow> int \<Rightarrow> bool" where
  "rbg_reserved env cc i =
     (case (cc_rbg env cc, cc_prb env cc) of
        (Some N_RBG, Some N_RB_DL) \<Rightarrow>
          (case (sf0_range N_RBG, rbg_sizes N_RB_DL) of (Some a, Some b) \<Rightarrow> rbg_blocked env cc N_RBG a b i | _ \<Rightarrow> False)
      | _ \<Rightarrow> False)"

definition cleared :: "pp_state \<Rightarrow> int \<Rightarrow> int \<Rightarrow> int \<Rightarrow> bool" where
  "cleared st ue cc n \<longleftrightarrow> pre_nb_available_rbs (UE_sched_ctrl (pp_list st) ue) cc = 0 \<and> (\<forall>i. 0 \<le> i \<and> i < n \<longrightarrow> \<not> holds st ue cc i)"

lemma fold_all:
  assumes "\<And>x s. Q x (f x s)" "\<And>x y s. Q y s \<Longrightarrow> Q y (f x s)" "\<forall>y\<in>Y. Q y s"
  shows "\<forall>x\<in>set xs \<union> Y. Q x (fold f xs s)"
  using assms(3)
proof (induction xs arbitrary: s Y)
  case (Cons x xs)
  have "\<forall>y\<in>insert x Y. Q y (f x s)" using assms(1,2) Cons.prems by blast
  from Cons.IH [OF this] show ?case by simp
qed simp

lemma member_upd_ctrl [simp]: "slice_member env sl (upd_ctrl ue f l) u = slice_member env sl l u"
  by (simp add: slice_member_def UE_RNTI_def upd_ctrl_def ue_dl_slice_membership_def)

lemma reset_ue_frame:
  "slices (reset_ue env sl cc n ue st) = slices st" "rballoc_sub (reset_ue env sl cc n ue st) = rballoc_sub st"
  "slice_member env sl (pp_list (reset_ue env sl cc n ue st)) u = slice_member env sl (pp_list st) u"
  by (simp_all add: reset_ue_def Let_def)

lemma reset_ue_keeps: "cleared st u c m \<Longrightarrow> cleared (reset_ue env sl cc n ue st) u c m"
  by (auto simp: reset_ue_def Let_def cleared_def holds_def ctrl_upd_ctrl)

lemma reset_ue_clears: "slice_member env sl (pp_list st) ue \<Longrightarrow> cleared (reset_ue env sl cc n ue st) ue cc n"
  by (auto simp: reset_ue_def Let_def cleared_def holds_def ctrl_upd_ctrl slice_member_def)

lemma fold_reset_ue:
  assumes "slice_member env sl (pp_list st) ue" "ue \<in> set us"
  shows "cleared (fold (reset_ue env sl cc n) us st) ue cc n"
  using assms
proof (induction us arbitrary: st)
  case (Cons u us)
  show ?case
  proof (cases "u = ue")
    case True
    have "cleared (reset_ue env sl cc n ue st) ue cc n" using reset_ue_clears Cons.prems(1) .
    then have "cleared (fold (reset_ue env sl cc n) us (reset_ue env sl cc n ue st)) ue cc n"
      by (rule fold_rel [where R = "\<lambda>s s'. cleared s ue cc n \<longrightarrow> cleared s' ue cc n", THEN mp, rotated -1]) (auto intro: reset_ue_keeps)
    then show ?thesis using True by simp
  next
    case False
    then show ?thesis using Cons reset_ue_frame(3) by simp
  qed
qed simp

lemma fold_reset_frame:
  "slices (fold (reset_ue env sl cc n) us st) = slices st" "rballoc_sub (fold (reset_ue env sl cc n) us st) = rballoc_sub st"
  "slice_member env sl (pp_list (fold (reset_ue env sl cc n) us st)) = slice_member env sl (pp_list st)"
  "cleared st u c m \<Longrightarrow> cleared (fold (reset_ue env sl cc n) us st) u c m"
proof -
  show "slices (fold (reset_ue env sl cc n) us st) = slices st" by (rule fold_same) (rule reset_ue_frame)
  show "rballoc_sub (fold (reset_ue env sl cc n) us st) = rballoc_sub st" by (rule fold_same) (rule reset_ue_frame)
  show "slice_member env sl (pp_list (fold (reset_ue env sl cc n) us st)) = slice_member env sl (pp_list st)"
    by (rule fold_same [where v = "\<lambda>s. slice_member env sl (pp_list s)"]) (rule ext, rule reset_ue_frame)
  have "cleared st u c m \<longrightarrow> cleared (fold (reset_ue env sl cc n) us st) u c m"
    by (rule fold_rel [where R = "\<lambda>s s'. cleared s u c m \<longrightarrow> cleared s' u c m"]) (auto intro: reset_ue_keeps)
  then show "cleared st u c m \<Longrightarrow> cleared (fold (reset_ue env sl cc n) us st) u c m" by blast
qed

lemma mark_frame: "slices (fold (mark_rbg cc b) is st) = slices st" "pp_list (fold (mark_rbg cc b) is st) = pp_list st"
  by (rule fold_same, simp add: mark_rbg_def)+

lemma mark_marks:
  "i \<in> set is \<Longrightarrow> b i \<Longrightarrow> rballoc_sub (fold (mark_rbg cc b) is st) cc i \<noteq> 0"
  "rballoc_sub st c j \<noteq> 0 \<Longrightarrow> rballoc_sub (fold (mark_rbg cc b) is st) c j \<noteq> 0"
proof -
  show "i \<in> set is \<Longrightarrow> b i \<Longrightarrow> rballoc_sub (fold (mark_rbg cc b) is st) cc i \<noteq> 0"
    using fold_all [where Q = "\<lambda>i s. b i \<longrightarrow> rballoc_sub s cc i \<noteq> 0" and f = "mark_rbg cc b" and xs = "is" and Y = "{}" and s = st]
    by (auto simp: mark_rbg_def upd2_apply)
  have "rballoc_sub st c j \<noteq> 0 \<longrightarrow> rballoc_sub (fold (mark_rbg cc b) is st) c j \<noteq> 0"
    by (rule fold_rel [where R = "\<lambda>s s'. rballoc_sub s c j \<noteq> 0 \<longrightarrow> rballoc_sub s' c j \<noteq> 0"]) (auto simp: mark_rbg_def upd2_apply)
  then show "rballoc_sub st c j \<noteq> 0 \<Longrightarrow> rballoc_sub (fold (mark_rbg cc b) is st) c j \<noteq> 0" by blast
qed

lemma reset_cc_cases:
  assumes "reset_cc env sl cc st = Some st'"
  obtains n where "cc_rbg env cc = Some n" "mbsfn_flag env cc > 0" "st' = st"
    | n b where "cc_rbg env cc = Some n" "\<And>i. b i = rbg_reserved env cc i"
        "st' = fold (mark_rbg cc b) [0..n - 1] (fold (reset_ue env sl cc n) [0..MAX_MOBILES_PER_ENB - 1] st)"
proof -
  obtain n r where n: "cc_rbg env cc = Some n" "cc_prb env cc = Some r"
    using assms unfolding reset_cc_def by (auto split: Option.bind_splits)
  show thesis
  proof (cases "mbsfn_flag env cc > 0")
    case True
    then show thesis using that(1) [OF n(1)] assms n by (simp add: reset_cc_def)
  next
    case False
    obtain a b where ab: "sf0_range n = Some a" "rbg_sizes r = Some b"
      using assms n False unfolding reset_cc_def Let_def by (auto split: Option.bind_splits)
    have "st' = fold (mark_rbg cc (rbg_blocked env cc n a b)) [0..n - 1] (fold (reset_ue env sl cc n) [0..MAX_MOBILES_PER_ENB - 1] st)"
      using assms n False ab unfolding reset_cc_def Let_def by simp
    then show thesis using that(2) [OF n(1)] n ab by (simp add: rbg_reserved_def)
  qed
qed

definition reset_done :: "pp_env \<Rightarrow> (int \<Rightarrow> bool) \<Rightarrow> int \<Rightarrow> pp_state \<Rightarrow> bool" where
  "reset_done env mem cc st \<longleftrightarrow> (mbsfn_flag env cc \<le> 0 \<longrightarrow>
     (\<forall>n. cc_rbg env cc = Some n \<longrightarrow> (\<forall>u. mem u \<longrightarrow> cleared st u cc n) \<and> (\<forall>i. 0 \<le> i \<and> i < n \<and> rbg_reserved env cc i \<longrightarrow> rballoc_sub st cc i \<noteq> 0)))"

lemma cleared_cong: "pp_list s = pp_list t \<Longrightarrow> cleared s = cleared t"
  by (simp add: cleared_def holds_def fun_eq_iff)

lemma reset_cc_step:
  assumes "reset_cc env sl cc st = Some st'" "slice_member env sl (pp_list st) = mem"
  shows "slice_member env sl (pp_list st') = mem" "slices st' = slices st" "reset_done env mem cc st'"
    "reset_done env mem c st \<Longrightarrow> reset_done env mem c st'" "rballoc_sub st c j \<noteq> 0 \<Longrightarrow> rballoc_sub st' c j \<noteq> 0"
proof -
  have "slice_member env sl (pp_list st') = mem \<and> slices st' = slices st \<and> reset_done env mem cc st' \<and> (reset_done env mem c st \<longrightarrow> reset_done env mem c st')
    \<and> (rballoc_sub st c j \<noteq> 0 \<longrightarrow> rballoc_sub st' c j \<noteq> 0)"
    using assms(1)
  proof (cases rule: reset_cc_cases)
    case (1 n)
    then show ?thesis using assms(2) by (simp add: reset_done_def)
  next
    case (2 n b)
    let ?s = "fold (reset_ue env sl cc n) [0..MAX_MOBILES_PER_ENB - 1] st"
    have l: "pp_list st' = pp_list ?s" and s: "slices st' = slices st" using 2(3) by (simp_all add: mark_frame fold_reset_frame)
    have m: "slice_member env sl (pp_list st') = mem" using assms(2) by (simp add: l fold_reset_frame)
    have keep: "rballoc_sub st' c j \<noteq> 0" if "rballoc_sub st c j \<noteq> 0" for c j
      using that mark_marks(2) [of ?s c j cc b "[0..n - 1]"] by (simp add: 2(3) fold_reset_frame)
    have clr: "cleared st' u c k" if "cleared st u c k" for u c k
      using fold_reset_frame(4) [OF that, of env sl cc n "[0..MAX_MOBILES_PER_ENB - 1]"] cleared_cong [OF l] by simp
    have own: "cleared st' u cc n" if "mem u" for u
      using fold_reset_ue [of env sl st u "[0..MAX_MOBILES_PER_ENB - 1]" cc n] that assms(2) cleared_cong [OF l] by (auto simp: slice_member_def)
    have res: "rballoc_sub st' cc i \<noteq> 0" if "0 \<le> i" "i < n" "rbg_reserved env cc i" for i
      using mark_marks(1) [of i "[0..n - 1]" b] that 2(2,3) by simp
    have "reset_done env mem cc st'" using own res 2(1) by (simp add: reset_done_def)
    moreover have "reset_done env mem c st \<longrightarrow> reset_done env mem c st'" unfolding reset_done_def using clr keep by blast
    ultimately show ?thesis using m s keep by blast
  qed
  then show "slice_member env sl (pp_list st') = mem" "slices st' = slices st" "reset_done env mem cc st'"
    "reset_done env mem c st \<Longrightarrow> reset_done env mem c st'" "rballoc_sub st c j \<noteq> 0 \<Longrightarrow> rballoc_sub st' c j \<noteq> 0" by blast+
qed

lemma reset_spec:
  assumes "dlsch_scheduler_pre_processor_reset env sl st = Some st'" "0 \<le> cc" "cc < nb_mac_CC env"
  shows "slices st' = slices st" "reset_done env (slice_member env sl (pp_list st)) cc st'" "rballoc_sub st cc i \<noteq> 0 \<Longrightarrow> rballoc_sub st' cc i \<noteq> 0"
proof -
  let ?m = "slice_member env sl (pp_list st)"
  let ?I = "\<lambda>s. slice_member env sl (pp_list s) = ?m \<and> slices s = slices st \<and> (rballoc_sub st cc i \<noteq> 0 \<longrightarrow> rballoc_sub s cc i \<noteq> 0)"
  have o: "ofold (reset_cc env sl) [0..nb_mac_CC env - 1] st = Some st'" using assms(1) by (simp add: dlsch_scheduler_pre_processor_reset_def)
  have a: "?I s' \<and> reset_done env ?m x s'" if "reset_cc env sl x s = Some s'" "?I s" for x s s'
    using reset_cc_step [OF that(1), of ?m] that(2) by (metis (no_types))
  have b: "reset_done env ?m y s'" if "reset_cc env sl x s = Some s'" "?I s" "reset_done env ?m y s" for x y s s'
    using reset_cc_step(4) [OF that(1) _ that(3)] that(2) by blast
  have "?I st' \<and> (\<forall>x\<in>set [0..nb_mac_CC env - 1] \<union> {}. reset_done env ?m x st')"
    by (rule ofold_all [where I = ?I and Q = "reset_done env ?m", OF a b o]) simp_all
  then show "slices st' = slices st" "reset_done env ?m cc st'" "rballoc_sub st cc i \<noteq> 0 \<Longrightarrow> rballoc_sub st' cc i \<noteq> 0"
    using assms(2,3) by auto
qed

section \<open>The whole pre-processor\<close>

lemma fold_set_entries: "fold (\<lambda>rbg m. m(k + rbg := 1)) rs m0 x \<noteq> (0 :: int) \<Longrightarrow> m0 x \<noteq> 0 \<or> (\<exists>r\<in>set rs. x = k + (r :: int))"
proof (induction rs arbitrary: m0)
  case (Cons r rs)
  then have "fold (\<lambda>rbg m. m(k + rbg := 1)) rs (m0(k + r := 1)) x \<noteq> 0" by (simp only: fold_simps not_False_eq_True)
  from Cons.IH [OF this] show ?case by (auto split: if_splits)
qed simp

lemma fold_set_rows:
  "fold (\<lambda>cc m. fold (\<lambda>rbg m. m(cc * 25 + rbg := 1)) rs m) cs m0 x \<noteq> (0 :: int) \<Longrightarrow> m0 x \<noteq> 0 \<or> (\<exists>c\<in>set cs. \<exists>r\<in>set rs. x = c * 25 + (r :: int))"
proof (induction cs arbitrary: m0)
  case (Cons c cs)
  then have "fold (\<lambda>cc m. fold (\<lambda>rbg m. m(cc * 25 + rbg := 1)) rs m) cs (fold (\<lambda>rbg m. m(c * 25 + rbg := 1)) rs m0) x \<noteq> 0" by (simp only: fold_simps not_False_eq_True)
  from Cons.IH [OF this] show ?case using fold_set_entries [of "c * 25" rs m0 x] by auto
qed simp

lemma mask_range:
  assumes "decode_slice_positioning env s = Some m" "m (cc * 25 + i) \<noteq> 0" "0 \<le> i" "i < 25" "pos_high s < 25 \<or> pos_low s = 0"
  shows "pos_low s \<le> i" "i \<le> pos_high s"
proof -
  have m: "m = fold (\<lambda>cc m. fold (\<lambda>rbg m. m(cc * 25 + rbg := 1)) [pos_low s..pos_high s] m) [0..nb_mac_CC env - 1] (\<lambda>_. 0)"
    using assms(1) by (simp add: decode_slice_positioning_def split: if_splits)
  obtain c r where cr: "c \<in> set [0..nb_mac_CC env - 1]" "r \<in> set [pos_low s..pos_high s]" "cc * 25 + i = c * 25 + r"
    using fold_set_rows [of "[pos_low s..pos_high s]" "[0..nb_mac_CC env - 1]" "\<lambda>_. 0" "cc * 25 + i"] assms(2) unfolding m by blast
  then have "0 \<le> pos_low s" using assms(1) by (auto simp: decode_slice_positioning_def split: if_splits)
  moreover have "i = r" if "pos_high s < 25"
  proof -
    have "0 \<le> r" "r < 25" using that cr(2) calculation by auto
    moreover have "25 * (cc - c) = r - i" using cr(3) by (simp add: algebra_simps)
    ultimately show "i = r" using assms(3,4) by presburger
  qed
  ultimately have "pos_low s \<le> i \<and> i \<le> pos_high s" using cr assms(3-5) by (cases "pos_high s < 25") auto
  then show "pos_low s \<le> i" "i \<le> pos_high s" by simp_all
qed

lemma pre_processor_steps:
  assumes "dlsch_scheduler_pre_processor env sl st = Some st'"
  obtains st1 st2 st3 st4 st5 where
    "dlsch_scheduler_pre_processor_reset env sl (st\<lparr>nb_rbs_required := (\<lambda>_ _. 0), nb_rbs_accounted := (\<lambda>_ _. 0), nb_rbs_remaining := (\<lambda>_ _. 0),
       slice_allocation_mask := (\<lambda>_. 0), MIMO_mode_indicator := (\<lambda>_ _. 0), pp_mcs := (\<lambda>_ _. 0)\<rparr>) = Some st1"
    "assign_rbs_required env sl (st1\<lparr>pp_list := store_dlsch_buffer env sl (pp_list st1)\<rparr>) = Some st2"
    "sort_UEs env sl st2 = Some st3" "dlsch_scheduler_pre_processor_accounting env sl st3 = Some st4"
    "dlsch_scheduler_pre_processor_positioning env sl st4 = Some st5"
    "if intraslice_share_active env then dlsch_scheduler_pre_processor_intraslice_sharing env sl st5 = Some st' else st' = st5"
  using assms unfolding dlsch_scheduler_pre_processor_def Let_def
  by (auto split: Option.bind_splits if_splits)

lemma view_holds: "alloc_view s = alloc_view t \<Longrightarrow> holds s = holds t \<and> rballoc_sub s = rballoc_sub t
    \<and> pos_low (slices s x) = pos_low (slices t x) \<and> pos_high (slices s x) = pos_high (slices t x)"
  by (simp add: alloc_view_def holds_def fun_eq_iff)

lemma cc_rbg_bound: "cc_rbg env cc = Some n \<Longrightarrow> 0 \<le> cc \<and> cc < nb_mac_CC env \<and> n \<le> 25"
proof -
  assume c: "cc_rbg env cc = Some n"
  then have "0 \<le> cc \<and> cc < nb_mac_CC env" "n \<in> set [6, 8, 13, 17, 19, 25]"
    by (auto simp: cc_rbg_def to_rbg_def assert_index_def simp del: set_simps split: if_splits)
  then show ?thesis by auto
qed

lemma grown_slices: "grown m s t \<Longrightarrow> slices t = slices s"
  unfolding grown_def by (elim conjE)

lemma pre_processor_grown:
  assumes "dlsch_scheduler_pre_processor env sl st = Some st'" "0 \<le> cc" "cc < nb_mac_CC env"
  shows "\<exists>st1 amask st4. reset_done env (slice_member env sl (pp_list st)) cc st1
    \<and> (\<forall>i. rballoc_sub st cc i \<noteq> 0 \<longrightarrow> rballoc_sub st1 cc i \<noteq> 0)
    \<and> decode_slice_positioning env (slices st' sl) = Some amask \<and> pos_low (slices st' sl) = pos_low (slices st sl)
    \<and> pos_high (slices st' sl) = pos_high (slices st sl) \<and> alloc_view st4 = alloc_view st1 \<and> grown amask st4 st'"
  using assms(1)
proof (rule pre_processor_steps)
  fix st1 st2 st3 st4 st5
  let ?st = "st\<lparr>nb_rbs_required := (\<lambda>_ _. 0), nb_rbs_accounted := (\<lambda>_ _. 0), nb_rbs_remaining := (\<lambda>_ _. 0),
       slice_allocation_mask := (\<lambda>_. 0), MIMO_mode_indicator := (\<lambda>_ _. 0), pp_mcs := (\<lambda>_ _. 0)\<rparr>"
  assume s: "dlsch_scheduler_pre_processor_reset env sl ?st = Some st1"
    "assign_rbs_required env sl (st1\<lparr>pp_list := store_dlsch_buffer env sl (pp_list st1)\<rparr>) = Some st2"
    "sort_UEs env sl st2 = Some st3" "dlsch_scheduler_pre_processor_accounting env sl st3 = Some st4"
    "dlsch_scheduler_pre_processor_positioning env sl st4 = Some st5"
    "if intraslice_share_active env then dlsch_scheduler_pre_processor_intraslice_sharing env sl st5 = Some st' else st' = st5"
  have v: "alloc_view st4 = alloc_view st1"
    using view_accounting [OF s(4)] view_sort [OF s(3)] view_assign [OF s(2)] view_ctrl [OF store_ctrl [of env sl "pp_list st1"]] by simp
  obtain amask where m: "decode_slice_positioning env (slices st4 sl) = Some amask" "grown amask st4 st5" using grown_positioning [OF s(5)] by blast
  have sl5: "slices st5 = slices st4" using grown_slices [OF m(2)] .
  have g: "grown amask st4 st' \<and> slices st' = slices st4"
  proof (cases "intraslice_share_active env")
    case True
    then obtain am where "decode_slice_positioning env (slices st5 sl) = Some am" "grown am st5 st'" using grown_sharing [of env sl st5 st'] s(6) by auto
    then have "grown amask st5 st'" using m(1) sl5 by simp
    then show ?thesis using grown_trans [OF m(2)] grown_slices sl5 by metis
  next
    case False
    then show ?thesis using m(2) s(6) sl5 by simp
  qed
  note r = reset_spec [OF s(1) assms(2,3)]
  have p: "pos_low (slices st' sl) = pos_low (slices st sl)" "pos_high (slices st' sl) = pos_high (slices st sl)"
    using view_holds [OF v, of sl] r(1) g by simp_all
  have d: "decode_slice_positioning env (slices st' sl) = Some amask" using m(1) g by simp
  have rd: "reset_done env (slice_member env sl (pp_list st)) cc st1" using r(2) by simp
  have rb: "rballoc_sub st1 cc i \<noteq> 0" if "rballoc_sub st cc i \<noteq> 0" for i using r(3) [of i] that by simp
  show ?thesis by (rule exI [of _ st1], rule exI [of _ amask], rule exI [of _ st4]) (use rd rb d p v g in blast)
qed

lemma exclusive_group:
  assumes "dlsch_scheduler_pre_processor env sl st = Some st'" "mbsfn_flag env cc \<le> 0" "cc_rbg env cc = Some n" "0 \<le> i" "i < n"
    and "pos_high (slices st sl) < 25 \<or> pos_low (slices st sl) = 0"
    and "slice_member env sl (pp_list st) u" "holds st' u cc i"
  shows "rballoc_sub st cc i = 0 \<and> \<not> rbg_reserved env cc i \<and> pos_low (slices st sl) \<le> i \<and> i \<le> pos_high (slices st sl)
    \<and> rballoc_sub st' cc i \<noteq> 0 \<and> (\<forall>v. slice_member env sl (pp_list st) v \<and> holds st' v cc i \<longrightarrow> v = u)"
proof -
  have cc: "0 \<le> cc" "cc < nb_mac_CC env" "n \<le> 25" using cc_rbg_bound [OF assms(3)] by simp_all
  obtain st1 amask st4 where r: "reset_done env (slice_member env sl (pp_list st)) cc st1"
      "\<forall>i. rballoc_sub st cc i \<noteq> 0 \<longrightarrow> rballoc_sub st1 cc i \<noteq> 0"
      and m: "decode_slice_positioning env (slices st' sl) = Some amask" "pos_low (slices st' sl) = pos_low (slices st sl)"
        "pos_high (slices st' sl) = pos_high (slices st sl)"
      and v: "alloc_view st4 = alloc_view st1" and g: "grown amask st4 st'"
    using pre_processor_grown [OF assms(1) cc(1,2)] by (elim exE conjE) (rule that)
  have free: "\<not> holds st4 w cc i" if "slice_member env sl (pp_list st) w" for w
    using r(1) assms(2-5) that view_holds [OF v] by (auto simp: reset_done_def cleared_def)
  have gain: "gains st4 st' w cc i" if "slice_member env sl (pp_list st) w" "holds st' w cc i" for w
    using that free by (simp add: gains_def)
  have u: "rballoc_sub st4 cc i = 0" "rballoc_sub st' cc i \<noteq> 0" "amask (cc * 25 + i) \<noteq> 0"
    using gain [OF assms(7,8)] g unfolding grown_def by blast+
  have "\<forall>v. slice_member env sl (pp_list st) v \<and> holds st' v cc i \<longrightarrow> v = u"
    using gain gain [OF assms(7,8)] g unfolding grown_def by blast
  moreover have "rballoc_sub st1 cc i = 0" using u(1) view_holds [OF v] by simp
  moreover have "\<not> rbg_reserved env cc i" using r(1) assms(2-5) calculation(2) by (auto simp: reset_done_def)
  moreover have "pos_low (slices st sl) \<le> i" "i \<le> pos_high (slices st sl)"
    using mask_range [OF m(1) u(3) assms(4)] m(2,3) assms(5,6) cc(3) by simp_all
  ultimately show ?thesis using r(2) u(2) by blast
qed

section \<open>The pre-processor returns\<close>

definition static :: "ue_list \<Rightarrow> (int \<Rightarrow> bool) \<times> (int \<Rightarrow> int) \<times> (int \<Rightarrow> int multiset) \<times> (int \<Rightarrow> int \<Rightarrow> int)" where
  "static l = (active l, numactiveCCs l, (\<lambda>u. mset (ue_ccs l u)), (\<lambda>u. dl_cqi (UE_sched_ctrl l u)))"

definition list_ok :: "pp_env \<Rightarrow> ue_list \<Rightarrow> bool" where
  "list_ok env l \<longleftrightarrow> (\<forall>u\<in>{0..<MAX_MOBILES_PER_ENB}. active l u \<longrightarrow> numactiveCCs l u \<le> 4 \<and> distinct (ue_ccs l u)
     \<and> (\<forall>c\<in>set (ue_ccs l u). 0 \<le> c \<and> c < nb_mac_CC env \<and> 0 \<le> dl_cqi (UE_sched_ctrl l u) c \<and> dl_cqi (UE_sched_ctrl l u) c \<le> 15))"

lemma list_ok_static: "static l' = static l \<Longrightarrow> list_ok env l' = list_ok env l"
proof -
  assume s: "static l' = static l"
  then have "active l' = active l" "numactiveCCs l' = numactiveCCs l" "mset (ue_ccs l' u) = mset (ue_ccs l u)"
      "dl_cqi (UE_sched_ctrl l' u) = dl_cqi (UE_sched_ctrl l u)" for u by (simp_all add: static_def fun_eq_iff)
  moreover then have "set (ue_ccs l' u) = set (ue_ccs l u)" "distinct (ue_ccs l' u) = distinct (ue_ccs l u)" for u
    by (metis mset_eq_setD, metis mset_eq_imp_distinct_iff)
  ultimately show ?thesis by (simp add: list_ok_def)
qed

definition pp_static ::
  "pp_state \<Rightarrow> ((int \<Rightarrow> bool) \<times> (int \<Rightarrow> int) \<times> (int \<Rightarrow> int multiset) \<times> (int \<Rightarrow> int \<Rightarrow> int)) \<times> (int \<Rightarrow> (int \<times> nat) \<times> int \<times> int)" where
  "pp_static st = (static (pp_list st), (\<lambda>s. (pct (slices st s), pos_low (slices st s), pos_high (slices st s))))"

definition cells_ok :: "pp_env \<Rightarrow> bool" where
  "cells_ok env \<longleftrightarrow> list_all (\<lambda>cc. dl_Bandwidth (cell env cc) \<in> {0, 1, 2, 3, 5}) [0..nb_mac_CC env - 1]"

definition slice_ok :: "pp_env \<Rightarrow> slice_dl \<Rightarrow> bool" where
  "slice_ok env s \<longleftrightarrow> decode_slice_positioning env s \<noteq> None
     \<and> list_all (\<lambda>cc. case cc_prb env cc of None \<Rightarrow> False | Some r \<Rightarrow> nb_rbs_allowed_slice (pct s) r \<le> 60000) [0..nb_mac_CC env - 1]"

definition pp_ok :: "pp_env \<Rightarrow> int \<Rightarrow> pp_state \<Rightarrow> bool" where
  "pp_ok env sl st \<longleftrightarrow> cells_ok env \<and> list_ok env (pp_list st) \<and> slice_ok env (slices st sl)"

lemma pp_ok_static: "pp_static st' = pp_static st \<Longrightarrow> pp_ok env sl st' = pp_ok env sl st"
proof -
  assume s: "pp_static st' = pp_static st"
  have p: "pct (slices st' sl) = pct (slices st sl)" "pos_low (slices st' sl) = pos_low (slices st sl)" "pos_high (slices st' sl) = pos_high (slices st sl)"
    using fun_cong [OF arg_cong [OF s, of snd], of sl] by (simp_all add: pp_static_def)
  have d: "decode_slice_positioning env (slices st' sl) = decode_slice_positioning env (slices st sl)" by (simp only: decode_slice_positioning_def p)
  have "static (pp_list st') = static (pp_list st)" using arg_cong [OF s, of fst] by (simp add: pp_static_def)
  then have "list_ok env (pp_list st') = list_ok env (pp_list st)" by (rule list_ok_static)
  then show ?thesis by (simp only: pp_ok_def slice_ok_def p d)
qed

lemma cells_cases:
  assumes "cells_ok env" "0 \<le> cc" "cc < nb_mac_CC env"
  obtains n r where "cc_rbg env cc = Some n" "cc_prb env cc = Some r" "n \<in> {6, 8, 13, 17, 25}" "r \<in> {6, 15, 25, 50, 100}"
proof -
  have "dl_Bandwidth (cell env cc) \<in> {0, 1, 2, 3, 5}" using assms by (auto simp: cells_ok_def list_all_iff)
  then consider "dl_Bandwidth (cell env cc) = 0" | "dl_Bandwidth (cell env cc) = 1" | "dl_Bandwidth (cell env cc) = 2"
    | "dl_Bandwidth (cell env cc) = 3" | "dl_Bandwidth (cell env cc) = 5" by auto
  then have "\<exists>n r. cc_rbg env cc = Some n \<and> cc_prb env cc = Some r \<and> n \<in> {6, 8, 13, 17, 25} \<and> r \<in> {6, 15, 25, 50, 100}"
    by cases (simp_all add: cc_rbg_def cc_prb_def to_rbg_def to_prb_def assert_index_def assms)
  then show thesis using that by blast
qed

lemma static_ctrl:
  assumes "active l' = active l" "numactiveCCs l' = numactiveCCs l" "ordered_CCids l' = ordered_CCids l"
    "\<And>u. dl_cqi (UE_sched_ctrl l' u) = dl_cqi (UE_sched_ctrl l u)"
  shows "static l' = static l"
  using assms by (simp add: static_def ue_ccs_def)

lemma reset_total:
  assumes "cells_ok env"
  shows "\<exists>st'. dlsch_scheduler_pre_processor_reset env sl st = Some st' \<and> pp_static st' = pp_static st"
  unfolding dlsch_scheduler_pre_processor_reset_def
proof (rule ofold_total [where I = "\<lambda>s. pp_static s = pp_static st"])
  fix cc s
  assume "cc \<in> set [0..nb_mac_CC env - 1]" and s: "pp_static s = pp_static st"
  then have "0 \<le> cc" "cc < nb_mac_CC env" by auto
  with assms obtain n r where n: "cc_rbg env cc = Some n" "cc_prb env cc = Some r" "n \<in> {6, 8, 13, 17, 25}" "r \<in> {6, 15, 25, 50, 100}" by (rule cells_cases)
  then obtain a b where ab: "sf0_range n = Some a" "rbg_sizes r = Some b" by (auto simp: sf0_range_def rbg_sizes_def)
  have 1: "pp_static (reset_ue env sl cc n u x) = pp_static x" for u x
    by (auto simp: reset_ue_def Let_def pp_static_def upd_ctrl_def intro!: static_ctrl)
  have 2: "pp_static (mark_rbg cc bl i x) = pp_static x" for bl i x by (simp add: mark_rbg_def pp_static_def)
  have "pp_static (fold (mark_rbg cc bl) is (fold (reset_ue env sl cc n) us s)) = pp_static s" for bl "is" us
    using fold_same [where v = pp_static and f = "mark_rbg cc bl" and xs = "is", OF 2] fold_same [where v = pp_static and f = "reset_ue env sl cc n" and xs = us, OF 1] by simp
  then show "\<exists>s'. reset_cc env sl cc s = Some s' \<and> pp_static s' = pp_static st" using n(1,2) ab s by (simp add: reset_cc_def Let_def)
qed simp

lemma store_static: "static (store_dlsch_buffer env sl l) = static l"
  unfolding store_dlsch_buffer_def by (rule fold_same) (auto simp: store_ue_def set_template_def intro!: static_ctrl)

lemma mset_map_bij: "distinct xs \<Longrightarrow> inj_on t (set xs) \<Longrightarrow> t ` set xs = set xs \<Longrightarrow> mset (map t xs) = mset xs"
  by (metis distinct_map mset_set_set set_map)

lemma swap_ccs_mset:
  assumes "0 \<le> i" "i < j" "j < numactiveCCs l ue"
  shows "mset (ue_ccs (swap_ccs ue m i j l) u) = mset (ue_ccs l u)"
proof (cases "u = ue \<and> swap_ccs ue m i j l \<noteq> l")
  case True
  let ?xs = "[0..numactiveCCs l ue - 1]" and ?t = "\<lambda>k. if k = i then j else if k = j then i else k"
  have l': "swap_ccs ue m i j l = l\<lparr>ordered_CCids := upd2 (upd2 (ordered_CCids l) i ue (ordered_CCids l j ue)) j ue (ordered_CCids l i ue)\<rparr>"
    using True by (auto simp: swap_ccs_def split: if_splits)
  have "ue_ccs (swap_ccs ue m i j l) ue = map (\<lambda>k. ordered_CCids l k ue) (map ?t ?xs)"
    using assms by (auto simp: l' ue_ccs_def upd2_def)
  moreover have "mset (map ?t ?xs) = mset ?xs"
  proof (rule mset_map_bij)
    show "inj_on ?t (set ?xs)" by (auto simp: inj_on_def split: if_splits)
    show "?t ` set ?xs = set ?xs" using assms by (auto simp: image_iff split: if_splits)
  qed simp
  ultimately show ?thesis using True by (simp add: ue_ccs_def flip: image_mset.compositionality)
next
  case False
  then consider "swap_ccs ue m i j l = l" | "u \<noteq> ue" by blast
  then show ?thesis
  proof cases
    case 1
    then show ?thesis by simp
  qed (simp add: swap_ccs_def ue_ccs_def upd2_def)
qed

lemma swap_ccs_static:
  assumes "0 \<le> i" "i < j" "j < numactiveCCs l ue"
  shows "static (swap_ccs ue m i j l) = static l" "numactiveCCs (swap_ccs ue m i j l) = numactiveCCs l"
proof -
  have "active (swap_ccs ue m i j l) = active l \<and> numactiveCCs (swap_ccs ue m i j l) = numactiveCCs l \<and> UE_sched_ctrl (swap_ccs ue m i j l) = UE_sched_ctrl l"
    by (simp add: swap_ccs_def)
  then show "static (swap_ccs ue m i j l) = static l" "numactiveCCs (swap_ccs ue m i j l) = numactiveCCs l"
    using swap_ccs_mset [OF assms] by (simp_all add: static_def)
qed

lemma sort_ccs_static: "static (sort_ccs ue l) = static l"
proof -
  let ?R = "\<lambda>s s'. numactiveCCs s = numactiveCCs l \<longrightarrow> static s' = static s \<and> numactiveCCs s' = numactiveCCs l"
  have inner: "?R s (fold (swap_ccs ue m i) [i + 1..numactiveCCs l ue - 1] s)" if "0 \<le> i" for m i s
    by (rule fold_rel [where R = ?R]) (use that swap_ccs_static in auto)
  have "?R s (sort_ccs_from ue i s)" if "0 \<le> i" for i s using inner [OF that] by (simp add: sort_ccs_from_def)
  then have "?R l (sort_ccs ue l)" unfolding sort_ccs_def by (intro fold_rel [where R = ?R]) auto
  then show ?thesis by simp
qed

lemma required_loop_total:
  assumes "0 < unit" "unit \<le> 4" "0 \<le> max_rbs" "max_rbs \<le> 60000" "0 \<le> required" "required \<le> 60000"
  shows "\<exists>r. required_loop tbs_of unit max_rbs buffer tbs required = Some r \<and> 0 \<le> r \<and> r \<le> 60000"
  using assms(5,6)
proof (induction "nat (60004 - required)" arbitrary: required tbs rule: less_induct)
  case less
  have w: "to_u16 (required + unit) = required + unit" using assms(1,2) less.prems by (simp add: to_u16_def)
  show ?case
  proof (cases "tbs < buffer \<and> required + unit \<le> max_rbs")
    case True
    have "\<exists>r. required_loop tbs_of unit max_rbs buffer (to_u16 (tbs_of (required + unit))) (required + unit) = Some r \<and> 0 \<le> r \<and> r \<le> 60000"
      by (rule less.hyps) (use assms(1,4) True less.prems in auto)
    then show ?thesis using True w by (subst required_loop.simps) (simp add: Let_def)
  next
    case False
    then show ?thesis using assms(3,4) less.prems w by (subst required_loop.simps) (auto simp: Let_def)
  qed
qed

lemma unit_bounds: "r \<in> {6, 15, 25, 50, 100} \<Longrightarrow> 0 < get_min_rb_unit r \<and> get_min_rb_unit r \<le> 4"
  by (auto simp: get_min_rb_unit_def)

lemma required_cc_total:
  assumes "pp_ok env sl st" "0 \<le> cc" "cc < nb_mac_CC env"
  shows "\<exists>st'. required_cc env sl ue cc st = Some st' \<and> pp_static st' = pp_static st"
proof -
  obtain n r where r: "cc_rbg env cc = Some n" "cc_prb env cc = Some r" "r \<in> {6, 15, 25, 50, 100}"
    using cells_cases [OF _ assms(2,3)] assms(1) unfolding pp_ok_def by metis
  let ?u = "get_min_rb_unit r" and ?m = "nb_rbs_allowed_slice (pct (slices st sl)) r"
  have u: "0 < ?u" "?u \<le> 4" using unit_bounds [OF r(3)] by simp_all
  have "cc \<in> set [0..nb_mac_CC env - 1]" using assms(2,3) by simp
  then have m: "0 \<le> ?m" "?m \<le> 60000"
    using assms(1) r(2) by (auto simp: pp_ok_def slice_ok_def list_all_iff nb_rbs_allowed_slice_def split: prod.splits dest!: bspec [of _ _ cc])
  have s: "0 \<le> (if b then 4 else to_u16 ?u)" "(if b then 4 else to_u16 ?u) \<le> 60000" for b using u by (auto simp: to_u16_def)
  let ?l = "pp_list st" and ?mcs = "dlsch_mcs1 (eNB_UE_stats (pp_list st) cc ue)"
  obtain q where q: "required_loop (TBS env ?mcs) ?u ?m (dl_buffer_total (UE_template ?l (pCC_id ?l ue) ue)) (to_u16 (TBS env ?mcs (if ?mcs = 0 then 4 else to_u16 ?u)))
      (if ?mcs = 0 then 4 else to_u16 ?u) = Some q" using required_loop_total [OF u m s] by blast
  have st: "static (upd_ctrl ue (\<lambda>c. c\<lparr>max_rbs_allowed_slice := upd2 (max_rbs_allowed_slice c) cc sl ?m\<rparr>) ?l) = static ?l"
    by (rule static_ctrl) (simp_all add: upd_ctrl_def)
  show ?thesis using q r(2) by (simp add: required_cc_def cc_unit_def Let_def pp_static_def st)
qed

lemma update_mcs_total:
  assumes "\<forall>c\<in>set ccs. 0 \<le> dl_cqi (UE_sched_ctrl l ue) c \<and> dl_cqi (UE_sched_ctrl l ue) c \<le> 15"
  shows "\<exists>l'. ofold (update_mcs m ue) ccs l = Some l' \<and> (static l' = static l \<and> UE_sched_ctrl l' = UE_sched_ctrl l)"
proof (rule ofold_total [where I = "\<lambda>s. static s = static l \<and> UE_sched_ctrl s = UE_sched_ctrl l"])
  fix c s
  assume c: "c \<in> set ccs" and s: "static s = static l \<and> UE_sched_ctrl s = UE_sched_ctrl l"
  have "\<exists>k. cqi2mcs (dl_cqi (UE_sched_ctrl s ue) c) = Some k" using assms c s by (auto simp: cqi2mcs_def assert_index_def)
  then obtain k where k: "cqi2mcs (dl_cqi (UE_sched_ctrl s ue) c) = Some k" by blast
  have "static (s\<lparr>eNB_UE_stats := x\<rparr>) = static s" for x by (rule static_ctrl) simp_all
  then show "\<exists>s'. update_mcs m ue c s = Some s' \<and> (static s' = static l \<and> UE_sched_ctrl s' = UE_sched_ctrl l)" using k s by (simp add: update_mcs_def)
qed simp

lemma assign_total:
  assumes "pp_ok env sl st"
  shows "\<exists>st'. assign_rbs_required env sl st = Some st' \<and> pp_static st' = pp_static st"
  unfolding assign_rbs_required_def
proof (rule ofold_total [where I = "\<lambda>s. pp_static s = pp_static st"])
  fix ue s
  assume u: "ue \<in> set [0..MAX_MOBILES_PER_ENB - 1]" and s: "pp_static s = pp_static st"
  have ok: "pp_ok env sl s" using pp_ok_static [OF s] assms by simp
  show "\<exists>s'. assign_ue env sl ue s = Some s' \<and> pp_static s' = pp_static st"
  proof (cases "active (pp_list s) ue \<and> ue_dl_slice_membership env (pp_list s) ue sl")
    case True
    have l: "numactiveCCs (pp_list s) ue \<le> 4" "\<forall>c\<in>set (ue_ccs (pp_list s) ue). 0 \<le> c \<and> c < nb_mac_CC env"
        "\<forall>c\<in>set (ue_ccs (pp_list s) ue). 0 \<le> dl_cqi (UE_sched_ctrl (pp_list s) ue) c \<and> dl_cqi (UE_sched_ctrl (pp_list s) ue) c \<le> 15"
      using ok True u by (auto simp: pp_ok_def list_ok_def)
    obtain l1 where l1: "ofold (update_mcs (maxmcs (slices s sl)) ue) (ue_ccs (pp_list s) ue) (pp_list s) = Some l1" "static l1 = static (pp_list s)"
      using update_mcs_total [OF l(3)] by blast
    let ?l = "sort_ccs ue l1"
    have sl: "static ?l = static (pp_list s)" using l1(2) by (simp add: sort_ccs_static)
    then have st: "pp_static (s\<lparr>pp_list := ?l\<rparr>) = pp_static st" using s by (simp add: pp_static_def)
    have "mset (ue_ccs ?l ue) = mset (ue_ccs (pp_list s) ue)" using sl by (simp add: static_def fun_eq_iff)
    then have cs: "set (ue_ccs ?l ue) = set (ue_ccs (pp_list s) ue)" by (rule mset_eq_setD)
    have "\<exists>s'. ofold (required_cc env sl ue) (ue_ccs ?l ue) (s\<lparr>pp_list := ?l\<rparr>) = Some s' \<and> pp_static s' = pp_static st"
    proof (rule ofold_total [where I = "\<lambda>x. pp_static x = pp_static st"])
      fix c x
      assume "c \<in> set (ue_ccs ?l ue)" and x: "pp_static x = pp_static st"
      then show "\<exists>s'. required_cc env sl ue c x = Some s' \<and> pp_static s' = pp_static st"
        using required_cc_total [of env sl x c ue] pp_ok_static [OF x] assms l(2) cs by auto
    qed (rule st)
    then show ?thesis using True l(1) l1(1) st by (simp add: assign_ue_def Let_def)
  next
    case False
    then show ?thesis using s by (auto simp: assign_ue_def)
  qed
qed simp

definition frame_view where
  "frame_view st = (pp_static st, next_dl (pp_list st), head_dl (pp_list st))"

lemma frame_list: "slices st' = slices st \<Longrightarrow> pp_list st' = pp_list st \<Longrightarrow> frame_view st' = frame_view st"
  by (simp add: frame_view_def pp_static_def)

lemma frame_ctrl:
  assumes "\<And>c. dl_cqi (f c) = dl_cqi c"
  shows "frame_view (st\<lparr>pp_list := upd_ctrl ue f (pp_list st)\<rparr>) = frame_view st"
proof -
  have "static (upd_ctrl ue f (pp_list st)) = static (pp_list st)" by (rule static_ctrl) (simp_all add: upd_ctrl_def assms)
  then show ?thesis by (simp add: frame_view_def pp_static_def upd_ctrl_def)
qed

lemma frame_static: "frame_view st' = frame_view st \<Longrightarrow> pp_static st' = pp_static st"
  by (simp add: frame_view_def)

lemma sort_frame: "sort_UEs env sl st = Some st' \<Longrightarrow> pp_static st' = pp_static st"
  by (auto simp: sort_UEs_def decode_sorting_policy_def pp_static_def Let_def fun_eq_iff static_def ue_ccs_def split: prod.splits if_splits)

lemma pair_frames:
  "slices (snd (count_pair env p cs)) = slices (snd cs)" "pp_list (snd (count_pair env p cs)) = pp_list (snd cs)"
  "slices (snd (greedy_pair p as)) = slices (snd as)" "pp_list (snd (greedy_pair p as)) = pp_list (snd as)"
  "slices (fair_pair av p st) = slices st" "pp_list (fair_pair av p st) = pp_list st"
  "slices (retx_pair env p st) = slices st" "pp_list (retx_pair env p st) = pp_list st"
  by (simp_all add: count_pair_def greedy_pair_def fair_pair_def retx_pair_def Let_def split: prod.splits)

lemma fold_frames:
  "frame_view (snd (fold (count_pair env) ps cs)) = frame_view (snd cs)" "frame_view (snd (fold greedy_pair ps as)) = frame_view (snd as)"
  "frame_view (fold (fair_pair av) ps st) = frame_view st" "frame_view (fold (retx_pair env) ps st) = frame_view st"
  by (rule fold_same [where v = "\<lambda>s. frame_view (snd s)"], rule frame_list, rule pair_frames, rule pair_frames)
     (rule fold_same [where v = "\<lambda>s. frame_view (snd s)"], rule frame_list, rule pair_frames, rule pair_frames,
      (rule fold_same, rule frame_list, rule pair_frames, rule pair_frames)+)

definition listed :: "pp_env \<Rightarrow> int \<Rightarrow> pp_state \<Rightarrow> bool" where
  "listed env sl st \<longleftrightarrow> pp_ok env sl st \<and> (\<exists>xs. ue_walk (next_dl (pp_list st)) (head_dl (pp_list st)) = Some xs \<and> set xs \<subseteq> {0..<MAX_MOBILES_PER_ENB})"

lemma listed_frame: "frame_view st' = frame_view st \<Longrightarrow> listed env sl st' = listed env sl st"
proof -
  assume f: "frame_view st' = frame_view st"
  then have "next_dl (pp_list st') = next_dl (pp_list st)" "head_dl (pp_list st') = head_dl (pp_list st)" by (simp_all add: frame_view_def)
  then show ?thesis unfolding listed_def pp_ok_static [OF frame_static [OF f]] by (simp only:)
qed

lemma listed_pairs:
  assumes "listed env sl st"
  obtains ps where "ue_cc_pairs env sl (pp_list st) = Some ps" "\<And>u c. (u, c) \<in> set ps \<Longrightarrow> 0 \<le> c \<and> c < nb_mac_CC env"
proof -
  obtain xs where xs: "ue_walk (next_dl (pp_list st)) (head_dl (pp_list st)) = Some xs" "set xs \<subseteq> {0..<MAX_MOBILES_PER_ENB}"
    and ok: "list_ok env (pp_list st)" using assms by (auto simp: listed_def pp_ok_def)
  let ?ps = "concat (map (\<lambda>u. map (Pair u) (ue_ccs (pp_list st) u)) (filter (dl_schedulable env sl (pp_list st)) xs))"
  have "0 \<le> c \<and> c < nb_mac_CC env" if "(u, c) \<in> set ?ps" for u c
  proof -
    have "u \<in> set xs" "c \<in> set (ue_ccs (pp_list st) u)" "active (pp_list st) u" using that by (auto simp: dl_schedulable_def ue_dl_slice_membership_def)
    then show ?thesis using ok xs(2) unfolding list_ok_def by blast
  qed
  moreover have "ue_cc_pairs env sl (pp_list st) = Some ?ps" by (simp add: ue_cc_pairs_def xs(1))
  ultimately show thesis using that by blast
qed

lemma listed_cells:
  assumes "listed env sl st" "0 \<le> c" "c < nb_mac_CC env"
  obtains n r where "cc_rbg env c = Some n" "cc_prb env c = Some r"
  using cells_cases [OF _ assms(2,3)] assms(1) unfolding listed_def pp_ok_def by metis

lemma partitioning_total:
  assumes "listed env sl st"
  shows "\<exists>st'. dlsch_scheduler_pre_processor_partitioning env sl rx st = Some st' \<and> frame_view st' = frame_view st"
proof -
  obtain ps where ps: "ue_cc_pairs env sl (pp_list st) = Some ps" "\<And>u c. (u, c) \<in> set ps \<Longrightarrow> 0 \<le> c \<and> c < nb_mac_CC env"
    using listed_pairs [OF assms] by blast
  have "\<exists>st'. ofold (partition_pair env sl rx) ps st = Some st' \<and> frame_view st' = frame_view st"
  proof (rule ofold_total [where I = "\<lambda>s. frame_view s = frame_view st"])
    fix p s
    assume p: "p \<in> set ps" and s: "frame_view s = frame_view st"
    obtain u c where uc: "p = (u, c)" by (cases p)
    then obtain n r where "cc_prb env c = Some r" using listed_cells [OF assms] ps(2) p by metis
    then show "\<exists>s'. partition_pair env sl rx p s = Some s' \<and> frame_view s' = frame_view st"
      using s uc by (simp add: partition_pair_def Let_def frame_ctrl)
  qed simp
  then show ?thesis using ps(1) by (simp add: dlsch_scheduler_pre_processor_partitioning_def)
qed

lemma accounting_total:
  assumes "listed env sl st" "harq_ok env"
  shows "\<exists>st'. dlsch_scheduler_pre_processor_accounting env sl st = Some st' \<and> frame_view st' = frame_view st"
proof -
  obtain ps where ps: "ue_cc_pairs env sl (pp_list st) = Some ps" "\<And>u c. (u, c) \<in> set ps \<Longrightarrow> 0 \<le> c \<and> c < nb_mac_CC env"
    using listed_pairs [OF assms(1)] by blast
  obtain k st1 where k: "fold (count_pair env) ps (\<lparr>rbs_retx = (\<lambda>_. 0), ue_count_newtx = (\<lambda>_. 0)\<rparr>, st) = (k, st1)" by fastforce
  have f1: "frame_view st1 = frame_view st" using fold_frames(1) [of env ps "(\<lparr>rbs_retx = (\<lambda>_. 0), ue_count_newtx = (\<lambda>_. 0)\<rparr>, st)"] k by simp
  obtain st2 where st2: "dlsch_scheduler_pre_processor_partitioning env sl (rbs_retx k) st1 = Some st2" "frame_view st2 = frame_view st1"
    using partitioning_total [of env sl st1] listed_frame [OF f1] assms(1) by blast
  have "\<exists>av. ofold (average_pair env sl (ue_count_newtx k) (pp_list st2)) ps (\<lambda>_. 0) = Some av \<and> True"
  proof (rule ofold_total [where I = "\<lambda>_. True"])
    fix p s
    assume p: "p \<in> set ps"
    obtain u c where uc: "p = (u, c)" by (cases p)
    then obtain n r where "cc_prb env c = Some r" using listed_cells [OF assms(1)] ps(2) p by metis
    then show "\<exists>s'. average_pair env sl (ue_count_newtx k) (pp_list st2) p s = Some s' \<and> True"
      using uc by (simp add: average_pair_def cc_unit_def Let_def)
  qed simp
  then obtain av where av: "ofold (average_pair env sl (ue_count_newtx k) (pp_list st2)) ps (\<lambda>_. 0) = Some av" by blast
  show ?thesis
    using ps(1) k st2 av f1 assms(2) by (simp add: dlsch_scheduler_pre_processor_accounting_def Let_def fold_frames)
qed

lemma allocate_total:
  assumes "listed env sl st" "0 \<le> c" "c < nb_mac_CC env"
  shows "\<exists>st'. dlsch_scheduler_pre_processor_allocate env amask u c s = Some st' \<and> frame_view st' = frame_view s"
proof -
  obtain n r where n: "cc_rbg env c = Some n" "cc_prb env c = Some r" using listed_cells [OF assms] by blast
  have t: "frame_view (take_rbg env u c i z x) = frame_view x" for i z x
  proof -
    have "frame_view (take_rbg env u c i z x) = frame_view (x\<lparr>pp_list := upd_ctrl u (\<lambda>k. k\<lparr>rballoc_sub_UE := upd2 (rballoc_sub_UE k) c i 1,
          dl_pow_off := (if tmode env c u = 5 then (dl_pow_off k)(c := 1) else dl_pow_off k),
          pre_nb_available_rbs := (pre_nb_available_rbs k)(c := to_u16 (pre_nb_available_rbs k c + z))\<rparr>) (pp_list x)\<rparr>)"
      by (rule frame_list) (simp_all add: take_rbg_def)
    also have "... = frame_view x" by (rule frame_ctrl) simp
    finally show ?thesis .
  qed
  have "frame_view (allocate_rbg env amask u c n r q i x) = frame_view x" for q i x
    using allocate_rbg_cases [of env amask u c n r q i x] t by metis
  then have "frame_view (fold (allocate_rbg env amask u c n r q) is s) = frame_view s" for q "is" by (rule fold_same)
  then show ?thesis using n by (simp add: dlsch_scheduler_pre_processor_allocate_def)
qed

lemma pairs_total:
  assumes "listed env sl st" "\<And>u c. (u, c) \<in> set ps \<Longrightarrow> 0 \<le> c \<and> c < nb_mac_CC env"
    and "f = position_pair env amask \<or> f = share_pair env amask" "frame_view s = frame_view st"
  shows "\<exists>st'. ofold f ps s = Some st' \<and> frame_view st' = frame_view st"
proof (rule ofold_total [where I = "\<lambda>s. frame_view s = frame_view st"])
  fix p x
  assume p: "p \<in> set ps" and x: "frame_view x = frame_view st"
  obtain u c where uc: "p = (u, c)" by (cases p)
  have c: "0 \<le> c" "c < nb_mac_CC env" using assms(2) p uc by auto
  have r: "frame_view (x\<lparr>nb_rbs_remaining := y\<rparr>) = frame_view st" for y using frame_list [of "x\<lparr>nb_rbs_remaining := y\<rparr>" x] x by simp
  have "\<exists>y. f p x = dlsch_scheduler_pre_processor_allocate env amask u c (x\<lparr>nb_rbs_remaining := y\<rparr>)"
    using assms(3) uc by (auto simp: position_pair_def share_pair_def)
  then show "\<exists>s'. f p x = Some s' \<and> frame_view s' = frame_view st" using allocate_total [OF assms(1) c, of amask u] r by metis
qed (rule assms(4))

lemma listed_mask: "listed env sl st \<Longrightarrow> \<exists>am. decode_slice_positioning env (slices st sl) = Some am"
  by (auto simp: listed_def pp_ok_def slice_ok_def)

lemma positioning_total:
  assumes "listed env sl st"
  shows "\<exists>st'. dlsch_scheduler_pre_processor_positioning env sl st = Some st' \<and> frame_view st' = frame_view st"
    "\<exists>st'. dlsch_scheduler_pre_processor_intraslice_sharing env sl st = Some st' \<and> frame_view st' = frame_view st"
proof -
  obtain ps where ps: "ue_cc_pairs env sl (pp_list st) = Some ps" "\<And>u c. (u, c) \<in> set ps \<Longrightarrow> 0 \<le> c \<and> c < nb_mac_CC env"
    using listed_pairs [OF assms] by blast
  obtain am where am: "decode_slice_positioning env (slices st sl) = Some am" using listed_mask [OF assms] by blast
  have m: "frame_view (st\<lparr>slice_allocation_mask := am\<rparr>) = frame_view st" by (rule frame_list) simp_all
  show "\<exists>st'. dlsch_scheduler_pre_processor_positioning env sl st = Some st' \<and> frame_view st' = frame_view st"
    using pairs_total [of env sl st ps "position_pair env am" am st, OF assms ps(2)] ps(1) am by (simp add: dlsch_scheduler_pre_processor_positioning_def)
  show "\<exists>st'. dlsch_scheduler_pre_processor_intraslice_sharing env sl st = Some st' \<and> frame_view st' = frame_view st"
    using pairs_total [of env sl st ps "share_pair env am" am, OF assms ps(2) _ m] ps(1) am by (simp add: dlsch_scheduler_pre_processor_intraslice_sharing_def)
qed

lemma lex_compare_nth:
  "lex_compare f g ks \<le> 0 \<Longrightarrow> i < length ks \<Longrightarrow> (\<And>j. j < i \<Longrightarrow> f (ks ! j) = g (ks ! j)) \<Longrightarrow> g (ks ! i) \<le> f (ks ! i)"
proof (induction ks arbitrary: i)
  case (Cons k ks)
  show ?case
  proof (cases i)
    case 0
    then show ?thesis using Cons.prems(1) by (auto simp: larger_first_def split: if_splits)
  next
    case (Suc m)
    then have e: "f k = g k" using Cons.prems(3) [of 0] by simp
    have "f (ks ! j) = g (ks ! j)" if "j < m" for j using Cons.prems(3) [of "Suc j"] that Suc by simp
    then show ?thesis using Cons.IH [of m] Cons.prems(1,2) Suc e by simp
  qed
qed simp

definition ranks_before :: "pp_env \<Rightarrow> ue_list \<Rightarrow> int \<Rightarrow> int \<Rightarrow> int \<Rightarrow> bool" where
  "ranks_before env l sl a b \<longleftrightarrow> (\<forall>i\<in>{0..5}.
     (\<forall>j\<in>{0..<i}. crit_key env l (sorting_criteria l sl j) a = crit_key env l (sorting_criteria l sl j) b) \<longrightarrow>
     crit_key env l (sorting_criteria l sl i) b \<le> crit_key env l (sorting_criteria l sl i) a)"

lemma compare_ranks: "ue_dl_compare env l sl a b \<le> 0 \<Longrightarrow> ranks_before env l sl a b"
  unfolding ranks_before_def
proof (intro ballI impI)
  fix i :: int
  let ?k = "\<lambda>u i. crit_key env l (sorting_criteria l sl i) u"
  assume c: "ue_dl_compare env l sl a b \<le> 0" and i: "i \<in> {0..5}" and eq: "\<forall>j\<in>{0..<i}. ?k a j = ?k b j"
  have n: "[0..5] ! j = int j" if "j < 6" for j using nth_upto [of 0 j 5] that by simp
  have "?k b ([0..5] ! nat i) \<le> ?k a ([0..5] ! nat i)"
  proof (rule lex_compare_nth [where f = "?k a" and g = "?k b" and ks = "[0..5]"])
    show "lex_compare (?k a) (?k b) [0..5] \<le> 0" using c by (simp only: ue_dl_compare_lex)
    show "nat i < length [0..5]" using i by (simp add: nat_less_iff)
    fix j assume "j < nat i"
    then show "?k a ([0..5] ! j) = ?k b ([0..5] ! j)" using eq i n [of j] by auto
  qed
  then show "?k b i \<le> ?k a i" using i n [of "nat i"] by simp
qed

lemma pp_listed_sorted:
  assumes "pp_ok env sl st" "sort_UEs env sl st = Some st'"
  shows "listed env sl st'"
proof -
  obtain xs where xs: "visit_order 0 (pp_list st') = Some xs" "mset xs = mset (dl_candidates env sl (pp_list st))"
    by (rule sort_UEs_order [OF assms(2)])
  have "set (dl_candidates env sl (pp_list st)) \<subseteq> {0..<MAX_MOBILES_PER_ENB}" by (auto simp: dl_candidates_def)
  then have "set xs \<subseteq> {0..<MAX_MOBILES_PER_ENB}" using mset_eq_setD [OF xs(2)] by simp
  moreover have "ue_walk (next_dl (pp_list st')) (head_dl (pp_list st')) = Some xs" using xs(1) by (simp add: visit_order_def)
  moreover have "pp_ok env sl st'" using pp_ok_static [OF sort_frame [OF assms(2)]] assms(1) by blast
  ultimately show ?thesis unfolding listed_def by blast
qed

lemma pre_processor_total:
  assumes "pp_ok env sl st" "harq_ok env"
  shows "\<exists>st'. dlsch_scheduler_pre_processor env sl st = Some st'"
proof -
  let ?st = "st\<lparr>nb_rbs_required := (\<lambda>_ _. 0), nb_rbs_accounted := (\<lambda>_ _. 0), nb_rbs_remaining := (\<lambda>_ _. 0),
       slice_allocation_mask := (\<lambda>_. 0), MIMO_mode_indicator := (\<lambda>_ _. 0), pp_mcs := (\<lambda>_ _. 0)\<rparr>"
  have ok0: "pp_ok env sl ?st" using assms(1) by (simp add: pp_ok_def)
  then obtain st1 where st1: "dlsch_scheduler_pre_processor_reset env sl ?st = Some st1" "pp_static st1 = pp_static ?st"
    using reset_total [of env sl ?st] by (auto simp: pp_ok_def)
  let ?st1 = "st1\<lparr>pp_list := store_dlsch_buffer env sl (pp_list st1)\<rparr>"
  have "pp_static ?st1 = pp_static ?st" using st1(2) by (simp add: pp_static_def store_static)
  from pp_ok_static [OF this] obtain st2 where st2: "assign_rbs_required env sl ?st1 = Some st2" "pp_static st2 = pp_static ?st1"
    using assign_total [of env sl ?st1] ok0 by blast
  have ok2: "pp_ok env sl st2" using pp_ok_static [OF st2(2)] pp_ok_static [OF \<open>pp_static ?st1 = pp_static ?st\<close>] ok0 by simp
  obtain st3 where st3: "sort_UEs env sl st2 = Some st3" using sort_UEs_total [OF assms(2)] by blast
  obtain st4 where st4: "dlsch_scheduler_pre_processor_accounting env sl st3 = Some st4" "frame_view st4 = frame_view st3"
    using accounting_total [OF pp_listed_sorted [OF ok2 st3] assms(2)] by blast
  have l4: "listed env sl st4" using listed_frame [OF st4(2)] pp_listed_sorted [OF ok2 st3] by simp
  obtain st5 where st5: "dlsch_scheduler_pre_processor_positioning env sl st4 = Some st5" "frame_view st5 = frame_view st4"
    using positioning_total(1) [OF l4] by blast
  have l5: "listed env sl st5" using listed_frame [OF st5(2)] l4 by simp
  obtain st6 where "dlsch_scheduler_pre_processor_intraslice_sharing env sl st5 = Some st6" using positioning_total(2) [OF l5] by blast
  then show ?thesis using st1(1) st2(1) st3 st4(1) st5(1) by (simp add: dlsch_scheduler_pre_processor_def Let_def)
qed

definition env_1 :: pp_env where
  "env_1 = \<lparr>nb_mac_CC = 1, cell = (\<lambda>_. \<lparr>dl_Bandwidth = 2, phich_Resource = 2, Ncp = 0, subframeAssignment = None, n1PUCCH_AN = 32, vrb_map = (\<lambda>_. 0)\<rparr>),
     n_dl = 1, intraslice_share_active = True, mbsfn_flag = (\<lambda>_. 0), frameP = 0, subframeP = 1, frame_cnt = 0,
     TBS = (\<lambda>mcs rb. 10 * rb),
     rlc_status = (\<lambda>r lcid. \<lparr>bytes_in_buffer = (if lcid = 3 then 25 else 0), pdus_in_buffer = 1, head_sdu_creation_time = 0,
       head_sdu_remaining_size_to_send = 0, head_sdu_is_segmented = 0\<rparr>),
     rrc_status = (\<lambda>_. 4), tmode = (\<lambda>_ _. 1)\<rparr>"

definition slice_1 :: slice_dl where
  "slice_1 = \<lparr>pct = (1, 0), pos_low = 0, pos_high = 25, maxmcs = 28, sorting = 0x012345, accounting = 0\<rparr>"

definition pp_1 :: pp_state where
  "pp_1 = \<lparr>pp_list = UE_list (snd (add_new_ue 0 200 0 0 (snd (add_new_ue 0 100 0 0 mac_0)))), slices = (\<lambda>_. slice_1), rballoc_sub = (\<lambda>_ _. 0),
     nb_rbs_required = (\<lambda>_ _. 0), nb_rbs_accounted = (\<lambda>_ _. 0), nb_rbs_remaining = (\<lambda>_ _. 0), slice_allocation_mask = (\<lambda>_. 0),
     MIMO_mode_indicator = (\<lambda>_ _. 0), pp_mcs = (\<lambda>_ _. 0)\<rparr>"

definition list_ok_exec :: "pp_env \<Rightarrow> ue_list \<Rightarrow> bool" where
  "list_ok_exec env l \<longleftrightarrow> list_all (\<lambda>u. active l u \<longrightarrow> numactiveCCs l u \<le> 4 \<and> distinct (ue_ccs l u)
     \<and> list_all (\<lambda>c. 0 \<le> c \<and> c < nb_mac_CC env \<and> 0 \<le> dl_cqi (UE_sched_ctrl l u) c \<and> dl_cqi (UE_sched_ctrl l u) c \<le> 15) (ue_ccs l u)) [0..MAX_MOBILES_PER_ENB - 1]"

lemma list_ok_code [code]: "list_ok env l = list_ok_exec env l"
  by (auto simp: list_ok_def list_ok_exec_def list_all_iff)

lemma pp_1_ok: "pp_ok env_1 0 pp_1" "harq_ok env_1"
  by code_simp+

section \<open>Properties\<close>

text \<open>
  C36. The downlink pre-processor gives every resource block group of a carrier to at most one UE: a
  group that a UE of the slice holds afterwards was free in the table of the carrier, so no UE of a slice
  handled before holds it, was not reserved for common channels or the synchronisation signals, lies in the
  frequency range of the slice, is marked as taken, and is held by no other UE of the slice.
\<close>
theorem dlsch_pre_processor_exclusive:
  assumes "dlsch_scheduler_pre_processor env sl st = Some st'" "mbsfn_flag env cc \<le> 0" "cc_rbg env cc = Some n"
    and "pos_high (slices st sl) < 25 \<or> pos_low (slices st sl) = 0"
  shows "\<forall>u i. slice_member env sl (pp_list st) u \<and> 0 \<le> i \<and> i < n \<and> holds st' u cc i \<longrightarrow>
    rballoc_sub st cc i = 0 \<and> \<not> rbg_reserved env cc i \<and> pos_low (slices st sl) \<le> i \<and> i \<le> pos_high (slices st sl)
    \<and> rballoc_sub st' cc i \<noteq> 0 \<and> (\<forall>v. slice_member env sl (pp_list st) v \<and> holds st' v cc i \<longrightarrow> v = u)"
  using exclusive_group [OF assms(1-3) _ _ assms(4)] by blast

theorem dlsch_pre_processor_exclusive_witness:
  "\<exists>st'. dlsch_scheduler_pre_processor env_1 0 pp_1 = Some st' \<and> slice_member env_1 0 (pp_list pp_1) 0 \<and> slice_member env_1 0 (pp_list pp_1) 1
     \<and> (\<forall>i\<in>{0..<13}. \<not> (holds st' 0 0 i \<and> holds st' 1 0 i))"
proof -
  obtain st' where run: "dlsch_scheduler_pre_processor env_1 0 pp_1 = Some st'" using pre_processor_total [OF pp_1_ok] by blast
  have c: "mbsfn_flag env_1 0 \<le> 0" "cc_rbg env_1 0 = Some 13" "pos_low (slices pp_1 0) = 0" by code_simp+
  have m: "slice_member env_1 0 (pp_list pp_1) 0" "slice_member env_1 0 (pp_list pp_1) 1" by code_simp+
  have "v = u" if "slice_member env_1 0 (pp_list pp_1) u" "slice_member env_1 0 (pp_list pp_1) v" "holds st' u 0 i" "holds st' v 0 i" "0 \<le> i" "i < 13" for u v i
    using dlsch_pre_processor_exclusive [OF run c(1,2) disjI2 [OF c(3)]] that by blast
  then have "\<forall>i\<in>{0..<13}. \<not> (holds st' 0 0 i \<and> holds st' 1 0 i)" using m by fastforce
  then show ?thesis using run m by blast
qed



text \<open>
  C40. Sorting puts exactly the UEs that can be scheduled, each once, into the downlink list, ordered by the
  criteria of the slice: of two UEs the one visited first is not worse in the first criterion in which they differ.
\<close>
theorem sort_UEs_correct:
  assumes "harq_ok env"
  shows "\<exists>st' xs. sort_UEs env sl st = Some st' \<and> visit_order 0 (pp_list st') = Some xs \<and> distinct xs
    \<and> set xs = {ue \<in> {0..<MAX_MOBILES_PER_ENB}. active (pp_list st) ue \<and> dl_schedulable env sl (pp_list st) ue}
    \<and> sorted_wrt (ranks_before env (pp_list st') sl) xs"
proof -
  obtain st' where s: "sort_UEs env sl st = Some st'" using sort_UEs_total [OF assms] by blast
  obtain xs where xs: "visit_order 0 (pp_list st') = Some xs" "mset xs = mset (dl_candidates env sl (pp_list st))" "distinct xs"
      "sorted_wrt (\<lambda>a b. ue_dl_compare env (pp_list st') sl a b \<le> 0) xs"
    by (rule sort_UEs_order [OF s])
  have "set xs = {ue \<in> {0..<MAX_MOBILES_PER_ENB}. active (pp_list st) ue \<and> dl_schedulable env sl (pp_list st) ue}"
    unfolding mset_eq_setD [OF xs(2)] by (auto simp: dl_candidates_def)
  moreover have "sorted_wrt (ranks_before env (pp_list st') sl) xs" using sorted_wrt_mono_rel [OF _ xs(4)] compare_ranks by blast
  ultimately show ?thesis using s xs(1,3) by blast
qed

theorem sort_UEs_correct_witness:
  "\<exists>st' xs. sort_UEs env_1 0 pp_1 = Some st' \<and> visit_order 0 (pp_list st') = Some xs \<and> distinct xs \<and> set xs = {0, 1}
     \<and> sorted_wrt (ranks_before env_1 (pp_list st') 0) xs"
proof -
  have "dl_candidates env_1 0 (pp_list pp_1) = [0, 1]" by code_simp
  then have "set (dl_candidates env_1 0 (pp_list pp_1)) = {0, 1}" by simp
  then have "{ue \<in> {0..<MAX_MOBILES_PER_ENB}. active (pp_list pp_1) ue \<and> dl_schedulable env_1 0 (pp_list pp_1) ue} = {0, 1}"
    by (auto simp: dl_candidates_def)
  then show ?thesis using sort_UEs_correct [OF pp_1_ok(2), of 0 pp_1] by metis
qed

end
