(* ===== verification/Mac_Pre_Dl_Bounds.thy ===== *)
theory Mac_Pre_Dl_Bounds
  imports Mac_Pre_Dl_Correct
begin

text \<open>
  The numbers of the downlink pre-processor: every stage keeps the 16-bit fields in range (\<open>pp_typed\<close>), and the
  blocks given to a UE are the blocks of the groups it holds and no more than it requires (\<open>balanced\<close>).
\<close>

section \<open>Ranges of the integers\<close>

abbreviation u16 :: "int \<Rightarrow> bool" where
  "u16 x \<equiv> 0 \<le> x \<and> x < 65536"

definition ctrl_typed :: "ue_list \<Rightarrow> bool" where
  "ctrl_typed l \<longleftrightarrow> (\<forall>u c. u16 (pre_nb_available_rbs (UE_sched_ctrl l u) c) \<and> (\<forall>s. u16 (max_rbs_allowed_slice (UE_sched_ctrl l u) c s)))
     \<and> (\<forall>c u p. u16 (nb_rb (UE_template l c u) p))"

definition pp_typed :: "pp_state \<Rightarrow> bool" where
  "pp_typed st \<longleftrightarrow> ctrl_typed (pp_list st)
     \<and> (\<forall>c u. u16 (nb_rbs_required st c u) \<and> u16 (nb_rbs_accounted st c u) \<and> u16 (nb_rbs_remaining st c u))"

lemma allowed_u16: "u16 (nb_rbs_allowed_slice p n)"
  by (simp add: nb_rbs_allowed_slice_def split: prod.splits)

lemma typed_cong:
  assumes "pp_typed st" "pp_list st' = pp_list st" "nb_rbs_required st' = nb_rbs_required st" "nb_rbs_accounted st' = nb_rbs_accounted st"
    "nb_rbs_remaining st' = nb_rbs_remaining st"
  shows "pp_typed st'"
  using assms(1) unfolding pp_typed_def assms(2-5) .

lemma ctrl_typed_cong:
  assumes "ctrl_typed l" "UE_sched_ctrl l' = UE_sched_ctrl l" "\<And>c u. nb_rb (UE_template l' c u) = nb_rb (UE_template l c u)"
  shows "ctrl_typed l'"
  using assms(1) unfolding ctrl_typed_def assms(2,3) .

lemma ctrl_typed_upd:
  assumes "ctrl_typed l" "\<And>c. u16 (pre_nb_available_rbs (f (UE_sched_ctrl l ue)) c)" "\<And>c s. u16 (max_rbs_allowed_slice (f (UE_sched_ctrl l ue)) c s)"
  shows "ctrl_typed (upd_ctrl ue f l)"
  using assms by (auto simp: ctrl_typed_def upd_ctrl_def)

lemma typed_upd2: "(\<forall>c u. u16 (f c u)) \<Longrightarrow> u16 v \<Longrightarrow> u16 (upd2 f i j v c u)"
  by (simp add: upd2_def)

lemma typed_reset:
  assumes "pp_typed st" "dlsch_scheduler_pre_processor_reset env sl st = Some st'"
  shows "pp_typed st'"
proof -
  have ue: "pp_typed (reset_ue env sl cc n u s)" if "pp_typed s" for cc n u s
    using that by (auto simp: reset_ue_def Let_def pp_typed_def upd2_apply intro!: ctrl_typed_upd) (auto simp: ctrl_typed_def)
  have mark: "pp_typed (mark_rbg cc b i s)" if "pp_typed s" for cc b i s by (rule typed_cong [OF that]) (simp_all add: mark_rbg_def)
  have cc: "pp_typed s'" if "reset_cc env sl cc s = Some s'" "pp_typed s" for cc s s'
    using that(1)
  proof (cases rule: reset_cc_cases)
    case (2 n b)
    have "pp_typed (fold (reset_ue env sl cc n) [0..MAX_MOBILES_PER_ENB - 1] s)" using that(2) by (rule fold_inv) (rule ue)
    then show ?thesis unfolding 2(3) by (rule fold_inv) (rule mark)
  qed (use that(2) in simp)
  show ?thesis using assms(2) [unfolded dlsch_scheduler_pre_processor_reset_def] assms(1) by (rule ofold_inv) (rule cc)
qed

lemma store_nb_rb: "nb_rb (UE_template (store_dlsch_buffer env sl l) c u) = nb_rb (UE_template l c u)"
proof -
  have lc: "nb_rb (fold (store_lcid f) ls t) = nb_rb t" for f ls t by (rule fold_same) (simp add: store_lcid_def Let_def)
  show ?thesis unfolding store_dlsch_buffer_def
    by (rule fold_same [where v = "\<lambda>l. nb_rb (UE_template l c u)"]) (simp add: store_ue_def set_template_def upd2_apply lc clear_buffers_def Let_def)
qed

lemma required_loop_u16:
  assumes "required_loop tbs_of unit max_rbs buffer tbs required = Some r" "u16 max_rbs" "u16 required"
  shows "u16 r"
proof -
  have "u16 max_rbs \<longrightarrow> u16 required \<longrightarrow> u16 r"
  proof (rule required_loop.raw_induct [where P = "\<lambda>_ _ max_rbs _ _ required r. u16 max_rbs \<longrightarrow> u16 required \<longrightarrow> u16 r", OF _ assms(1)], intro impI)
    fix rl :: "(int \<Rightarrow> int) \<Rightarrow> int \<Rightarrow> int \<Rightarrow> int \<Rightarrow> int \<Rightarrow> int \<Rightarrow> int option" and tbs_of unit max_rbs buffer tbs required r
    assume IH: "\<And>t u m b s q r. rl t u m b s q = Some r \<Longrightarrow> u16 m \<longrightarrow> u16 q \<longrightarrow> u16 r"
      and run: "(if tbs < buffer then let required = to_u16 (required + unit) in if max_rbs < required then Some max_rbs
          else rl tbs_of unit max_rbs buffer (to_u16 (tbs_of required)) required else Some required) = Some r"
      and b: "u16 max_rbs" "u16 required"
    show "u16 r"
    proof (cases "tbs < buffer \<and> \<not> max_rbs < to_u16 (required + unit)")
      case True
      then have "rl tbs_of unit max_rbs buffer (to_u16 (tbs_of (to_u16 (required + unit)))) (to_u16 (required + unit)) = Some r"
        using run unfolding Let_def by (simp only: if_True if_False simp_thms)
      from IH [OF this] b(1) show ?thesis by simp
    next
      case False
      then have "r = required \<or> r = max_rbs" using run by (cases "tbs < buffer") (simp_all add: Let_def)
      then show ?thesis using b by blast
    qed
  qed
  then show ?thesis using assms(2,3) by blast
qed

lemma typed_required_cc:
  assumes "required_cc env sl ue cc st = Some st'" "pp_typed st"
  shows "pp_typed st'"
proof -
  obtain unit n where un: "cc_unit env cc = Some unit" "cc_prb env cc = Some n" using assms(1) by (auto simp: required_cc_def split: Option.bind_splits)
  let ?l = "pp_list st" and ?m = "nb_rbs_allowed_slice (pct (slices st sl)) n"
  obtain b t s r mcs where r: "required_loop (TBS env mcs) unit ?m b t s = Some r" "u16 s"
    "st' = st\<lparr>nb_rbs_required := upd2 (nb_rbs_required st) cc ue r, pp_mcs := upd2 (pp_mcs st) cc ue (to_u8 mcs),
              pp_list := upd_ctrl ue (\<lambda>c. c\<lparr>max_rbs_allowed_slice := upd2 (max_rbs_allowed_slice c) cc sl ?m\<rparr>) ?l\<rparr>"
    using assms(1) un unfolding required_cc_def Let_def by (fastforce split: Option.bind_splits)
  have u: "u16 r" by (rule required_loop_u16 [OF r(1) allowed_u16 r(2)])
  have c: "ctrl_typed (upd_ctrl ue (\<lambda>c. c\<lparr>max_rbs_allowed_slice := upd2 (max_rbs_allowed_slice c) cc sl ?m\<rparr>) ?l)"
    by (rule ctrl_typed_upd) (use assms(2) allowed_u16 in \<open>auto simp: pp_typed_def ctrl_typed_def upd2_apply\<close>)
  show ?thesis unfolding pp_typed_def r(3) using c u assms(2) by (simp add: pp_typed_def upd2_apply)
qed

lemma typed_list:
  assumes "pp_typed st" "UE_sched_ctrl l = UE_sched_ctrl (pp_list st)" "\<And>c u. nb_rb (UE_template l c u) = nb_rb (UE_template (pp_list st) c u)"
  shows "pp_typed (st\<lparr>pp_list := l\<rparr>)"
  using assms(1) ctrl_typed_cong [OF _ assms(2,3)] by (simp add: pp_typed_def)

lemma sort_ccs_template: "UE_template (sort_ccs ue l) = UE_template l"
proof -
  have "UE_template (sort_ccs_from ue i l) = UE_template l" for i l
    unfolding sort_ccs_from_def by (rule fold_same) (simp add: swap_ccs_def)
  then show ?thesis unfolding sort_ccs_def by (intro fold_same [where v = UE_template])
qed

lemma typed_assign:
  assumes "assign_rbs_required env sl st = Some st'" "pp_typed st"
  shows "pp_typed st'"
  using assms unfolding assign_rbs_required_def
proof (rule ofold_inv)
  fix ue s s'
  assume run: "assign_ue env sl ue s = Some s'" and t: "pp_typed s"
  show "pp_typed s'"
  proof (cases "active (pp_list s) ue \<and> ue_dl_slice_membership env (pp_list s) ue sl \<and> \<not> numactiveCCs (pp_list s) ue > 4")
    case True
    then obtain l where l: "ofold (update_mcs (maxmcs (slices s sl)) ue) (ue_ccs (pp_list s) ue) (pp_list s) = Some l"
      using run unfolding assign_ue_def by (auto split: Option.bind_splits if_splits)
    have "UE_template l = UE_template (pp_list s)"
      by (rule ofold_same [OF _ l]) (auto simp: update_mcs_def split: Option.bind_splits)
    then have "pp_typed (s\<lparr>pp_list := sort_ccs ue l\<rparr>)"
      by (intro typed_list t) (simp_all add: sort_ccs_ctrl sort_ccs_template update_mcs_ctrl [OF l])
    moreover have "ofold (required_cc env sl ue) (ue_ccs (sort_ccs ue l) ue) (s\<lparr>pp_list := sort_ccs ue l\<rparr>) = Some s'
        \<or> s' = s\<lparr>pp_list := sort_ccs ue l\<rparr>"
      using run True l unfolding assign_ue_def Let_def by (auto split: if_splits)
    ultimately show ?thesis using ofold_inv [of "required_cc env sl ue" _ _ s' pp_typed] typed_required_cc by blast
  qed (use run t in \<open>auto simp: assign_ue_def split: if_splits\<close>)
qed

lemma typed_sort: "sort_UEs env sl st = Some st' \<Longrightarrow> pp_typed st \<Longrightarrow> pp_typed st'"
  by (auto simp: sort_UEs_def Let_def decode_sorting_policy_def pp_typed_def ctrl_typed_def split: if_splits prod.splits)

lemma typed_partitioning:
  assumes "dlsch_scheduler_pre_processor_partitioning env sl rx st = Some st'" "pp_typed st" "\<And>c. 0 \<le> rx c"
  shows "pp_typed st'"
proof -
  obtain ps where ps: "ofold (partition_pair env sl rx) ps st = Some st'"
    using assms(1) by (auto simp: dlsch_scheduler_pre_processor_partitioning_def split: Option.bind_splits)
  show ?thesis using ps assms(2)
  proof (rule ofold_inv)
    fix p s s'
    assume run: "partition_pair env sl rx p s = Some s'" and t: "pp_typed s"
    obtain u c where p: "p = (u, c)" by (cases p)
    obtain n where n: "cc_prb env c = Some n" using run p by (auto simp: partition_pair_def split: Option.bind_splits)
    let ?a = "nb_rbs_allowed_slice (pct (slices s sl)) n"
    let ?v = "if rx c < ?a then ?a - rx c else 0"
    have s': "s' = s\<lparr>pp_list := upd_ctrl u (\<lambda>k. k\<lparr>max_rbs_allowed_slice := upd2 (max_rbs_allowed_slice k) c sl ?v\<rparr>) (pp_list s)\<rparr>"
      using run p n by (simp add: partition_pair_def Let_def)
    have v: "u16 ?v" using allowed_u16 [of "pct (slices s sl)" n] assms(3) [of c] by auto
    have "ctrl_typed (upd_ctrl u (\<lambda>k. k\<lparr>max_rbs_allowed_slice := upd2 (max_rbs_allowed_slice k) c sl ?v\<rparr>) (pp_list s))"
      by (rule ctrl_typed_upd) (use t v in \<open>simp_all add: pp_typed_def ctrl_typed_def upd2_apply\<close>)
    then show "pp_typed s'" using t unfolding s' by (simp add: pp_typed_def)
  qed
qed

lemma typed_count:
  assumes "fold (count_pair env) ps (k, st) = (k', st')" "pp_typed st" "\<And>c. 0 \<le> rbs_retx k c"
  shows "pp_typed st' \<and> (\<forall>c. 0 \<le> rbs_retx k' c)"
proof -
  let ?P = "\<lambda>(k, st). pp_typed st \<and> (\<forall>c. 0 \<le> rbs_retx k c)"
  have "?P (fold (count_pair env) ps (k, st))"
  proof (rule fold_inv [where P = ?P])
    fix p :: "int \<times> int" and s :: "retx_count \<times> pp_state"
    assume s: "?P s"
    obtain u c q x where d: "p = (u, c)" "s = (q, x)" by (cases p, cases s)
    have "u16 (nb_rb (UE_template (pp_list x) c u) (cc_harq_pid env c))" using s d(2) by (simp add: pp_typed_def ctrl_typed_def)
    then show "?P (count_pair env p s)"
      using s unfolding d by (simp add: count_pair_def Let_def pp_typed_def upd2_apply to_u8_def)
  qed (use assms in simp)
  then show ?thesis using assms(1) by simp
qed

lemma typed_greedy:
  assumes "pp_typed st" "\<And>c. u16 (avl c)"
  shows "pp_typed (snd (fold greedy_pair ps (avl, st)))"
proof -
  let ?P = "\<lambda>(avl :: int \<Rightarrow> int, st). pp_typed st \<and> (\<forall>c. u16 (avl c))"
  have "?P (fold greedy_pair ps (avl, st))"
  proof (rule fold_inv [where P = ?P])
    fix p :: "int \<times> int" and s :: "(int \<Rightarrow> int) \<times> pp_state"
    assume s: "?P s"
    obtain u c a x where d: "p = (u, c)" "s = (a, x)" by (cases p, cases s)
    have "u16 (nb_rbs_required x c u)" "u16 (a c)" using s d by (simp_all add: pp_typed_def)
    then have "u16 (min (nb_rbs_required x c u) (a c))" "u16 (a c - min (nb_rbs_required x c u) (a c))" by linarith+
    then show "?P (greedy_pair p s)" using s unfolding d by (auto simp: greedy_pair_def Let_def pp_typed_def upd2_apply)
  qed (use assms in simp)
  then show ?thesis by (simp add: split_beta)
qed

lemma average_u16:
  assumes "ofold (average_pair env sl newtx l) ps a = Some a'" "\<And>c. u16 (a c)"
  shows "u16 (a' c)"
proof -
  have "\<forall>c. u16 (a' c)"
    using assms(1)
  proof (rule ofold_inv [where P = "\<lambda>a. \<forall>c. u16 (a c)"])
    fix p s s'
    assume "average_pair env sl newtx l p s = Some s'" "\<forall>c. u16 (s c)"
    then show "\<forall>c. u16 (s' c)" by (auto simp: average_pair_def Let_def split: prod.splits Option.bind_splits)
  qed (use assms(2) in simp)
  then show ?thesis ..
qed

lemma typed_fair:
  assumes "pp_typed st" "\<And>c :: int. u16 (a c)"
  shows "pp_typed (fold (fair_pair a) ps st)"
  using assms(1)
proof (rule fold_inv)
  fix p :: "int \<times> int" and s
  assume s: "pp_typed s"
  obtain u c where d: "p = (u, c)" by (cases p)
  have "u16 (nb_rbs_required s c u)" using s by (simp add: pp_typed_def)
  then show "pp_typed (fair_pair a p s)" using s assms(2) [of c] by (auto simp: d fair_pair_def pp_typed_def upd2_apply min_def)
qed

lemma typed_retx:
  assumes "pp_typed st"
  shows "pp_typed (fold (retx_pair env) ps st)"
  using assms
proof (rule fold_inv)
  fix p :: "int \<times> int" and s
  assume s: "pp_typed s"
  then show "pp_typed (retx_pair env p s)" by (auto simp: retx_pair_def pp_typed_def upd2_apply split: prod.splits)
qed

lemma typed_accounting:
  assumes "dlsch_scheduler_pre_processor_accounting env sl st = Some st'" "pp_typed st"
  shows "pp_typed st'"
  using assms(1)
proof (rule accounting_steps)
  fix ps k st1 and st2 :: pp_state and st3
  let ?avl = "\<lambda>cc. if head_dl (pp_list st2) < 0 then 0 else max_rbs_allowed_slice (UE_sched_ctrl (pp_list st2) (head_dl (pp_list st2))) cc sl"
  assume k: "fold (count_pair env) ps (\<lparr>rbs_retx = (\<lambda>_. 0), ue_count_newtx = (\<lambda>_. 0)\<rparr>, st) = (k, st1)"
    and p: "dlsch_scheduler_pre_processor_partitioning env sl (rbs_retx k) st1 = Some st2"
    and m: "(\<exists>avl. st3 = snd (fold greedy_pair ps (avl, st2)) \<and> avl = ?avl)
     \<or> (\<exists>average. ofold (average_pair env sl (ue_count_newtx k) (pp_list st2)) ps (\<lambda>_. 0) = Some average \<and> st3 = fold (fair_pair average) ps st2)"
    and r: "st' = fold (retx_pair env) ps st3"
  have "pp_typed st1 \<and> (\<forall>c. 0 \<le> rbs_retx k c)" by (rule typed_count [OF k assms(2)]) simp
  then have 2: "pp_typed st2" using typed_partitioning [OF p] by blast
  then have a: "u16 (?avl c)" for c by (simp add: pp_typed_def ctrl_typed_def)
  from m have "pp_typed st3"
  proof (elim disjE exE conjE)
    fix avl assume st3: "st3 = snd (fold greedy_pair ps (avl, st2))" and "avl = ?avl"
    then show ?thesis unfolding st3 using a by (intro typed_greedy [OF 2]) (simp only:)
  next
    fix average assume av: "ofold (average_pair env sl (ue_count_newtx k) (pp_list st2)) ps (\<lambda>_. 0) = Some average" and st3: "st3 = fold (fair_pair average) ps st2"
    show ?thesis unfolding st3 by (rule typed_fair [OF 2 average_u16 [OF av]]) simp
  qed
  then show ?thesis unfolding r by (rule typed_retx)
qed

lemma typed_allocate:
  assumes "dlsch_scheduler_pre_processor_allocate env amask ue cc st = Some st'" "pp_typed st"
  shows "pp_typed st'"
proof -
  obtain n r where st': "st' = fold (allocate_rbg env amask ue cc n r (get_min_rb_unit r)) [0..n - 1] st"
    using assms(1) by (auto simp: dlsch_scheduler_pre_processor_allocate_def split: Option.bind_splits)
  show ?thesis unfolding st' using assms(2)
  proof (rule fold_inv)
    fix i s
    assume s: "pp_typed s"
    let ?z = "rbg_size n r (get_min_rb_unit r) i"
    have t: "pp_typed (take_rbg env ue cc i ?z s)"
      using s unfolding take_rbg_def pp_typed_def by (auto simp: upd2_apply ctrl_typed_def ctrl_upd_ctrl) (simp_all add: upd_ctrl_def)
    show "pp_typed (allocate_rbg env amask ue cc n r (get_min_rb_unit r) i s)"
      using allocate_rbg_cases [of env amask ue cc n r "get_min_rb_unit r" i s] by cases (use s t in \<open>simp_all only:\<close>)
  qed
qed

lemma typed_pairs:
  assumes "ofold f ps st = Some st'" "pp_typed st" "f = position_pair env amask \<or> f = share_pair env amask"
  shows "pp_typed st'"
  using assms(1,2)
proof (rule ofold_inv)
  fix p s s'
  assume run: "f p s = Some s'" and s: "pp_typed s"
  obtain u c where p: "p = (u, c)" by (cases p)
  have u: "u16 (nb_rbs_accounted s c u)" using s by (simp add: pp_typed_def)
  have "\<exists>v. u16 v \<and> dlsch_scheduler_pre_processor_allocate env amask u c (s\<lparr>nb_rbs_remaining := upd2 (nb_rbs_remaining s) c u v\<rparr>) = Some s'"
    using assms(3)
  proof
    assume "f = position_pair env amask"
    then show ?thesis using run u by (intro exI [of _ "nb_rbs_accounted s c u"]) (simp add: p position_pair_def)
  next
    assume "f = share_pair env amask"
    then show ?thesis using run
      by (intro exI [of _ "to_u16 (nb_rbs_required s c u - nb_rbs_accounted s c u + nb_rbs_remaining s c u)"]) (simp add: p share_pair_def)
  qed
  then obtain v where v: "u16 v" "dlsch_scheduler_pre_processor_allocate env amask u c (s\<lparr>nb_rbs_remaining := upd2 (nb_rbs_remaining s) c u v\<rparr>) = Some s'"
    by blast
  show "pp_typed s'" by (rule typed_allocate [OF v(2)]) (use s v(1) in \<open>simp add: pp_typed_def upd2_apply\<close>)
qed

lemma pre_processor_typed:
  assumes "dlsch_scheduler_pre_processor env sl st = Some st'" "ctrl_typed (pp_list st)"
  shows "pp_typed st'"
  using assms(1)
proof (rule pre_processor_steps)
  fix st1 st2 st3 st4 st5
  let ?z = "st\<lparr>nb_rbs_required := (\<lambda>_ _. 0), nb_rbs_accounted := (\<lambda>_ _. 0), nb_rbs_remaining := (\<lambda>_ _. 0),
       slice_allocation_mask := (\<lambda>_. 0), MIMO_mode_indicator := (\<lambda>_ _. 0), pp_mcs := (\<lambda>_ _. 0)\<rparr>"
  assume r: "dlsch_scheduler_pre_processor_reset env sl ?z = Some st1"
    and a: "assign_rbs_required env sl (st1\<lparr>pp_list := store_dlsch_buffer env sl (pp_list st1)\<rparr>) = Some st2"
    and s: "sort_UEs env sl st2 = Some st3" and c: "dlsch_scheduler_pre_processor_accounting env sl st3 = Some st4"
    and p: "dlsch_scheduler_pre_processor_positioning env sl st4 = Some st5"
    and h: "if intraslice_share_active env then dlsch_scheduler_pre_processor_intraslice_sharing env sl st5 = Some st' else st' = st5"
  have "pp_typed ?z" using assms(2) by (simp add: pp_typed_def)
  then have "pp_typed st1" by (rule typed_reset [OF _ r])
  then have "pp_typed (st1\<lparr>pp_list := store_dlsch_buffer env sl (pp_list st1)\<rparr>)" by (rule typed_list) (simp_all add: store_ctrl store_nb_rb)
  then have "pp_typed st4" by (intro typed_accounting [OF c] typed_sort [OF s] typed_assign [OF a])
  moreover obtain am ps where "ofold (position_pair env am) ps st4 = Some st5"
    using p by (auto simp: dlsch_scheduler_pre_processor_positioning_def split: Option.bind_splits)
  ultimately have 5: "pp_typed st5" using typed_pairs by blast
  show ?thesis
  proof (cases "intraslice_share_active env")
    case True
    then obtain am ps where "ofold (share_pair env am) ps (st5\<lparr>slice_allocation_mask := am\<rparr>) = Some st'"
      using h by (auto simp: dlsch_scheduler_pre_processor_intraslice_sharing_def split: Option.bind_splits)
    moreover have "pp_typed (st5\<lparr>slice_allocation_mask := am\<rparr>)" using 5 by (simp add: pp_typed_def)
    ultimately show ?thesis using typed_pairs by blast
  qed (use h 5 in simp)
qed

section \<open>Blocks given and blocks required\<close>

definition rbs_held :: "pp_state \<Rightarrow> int \<Rightarrow> int \<Rightarrow> int \<Rightarrow> int \<Rightarrow> int" where
  "rbs_held st u c n r = (\<Sum>i\<in>{0..<n}. if holds st u c i then rbg_size n r (get_min_rb_unit r) i else 0)"

abbreviation given :: "pp_state \<Rightarrow> int \<Rightarrow> int \<Rightarrow> int" where
  "given st u c \<equiv> pre_nb_available_rbs (UE_sched_ctrl (pp_list st) u) c"

definition pair_view :: "int \<Rightarrow> int \<Rightarrow> pp_state \<Rightarrow> int \<times> (int \<Rightarrow> bool) \<times> int \<times> int \<times> int" where
  "pair_view u c st = (given st u c, holds st u c, nb_rbs_remaining st c u, nb_rbs_required st c u, nb_rbs_accounted st c u)"

lemma pair_viewD:
  assumes "pair_view u c s = pair_view u c t"
  shows "given s u c = given t u c" "rbs_held s u c = rbs_held t u c" "nb_rbs_remaining s c u = nb_rbs_remaining t c u"
    "nb_rbs_required s c u = nb_rbs_required t c u" "nb_rbs_accounted s c u = nb_rbs_accounted t c u"
  using assms by (simp_all add: pair_view_def rbs_held_def fun_eq_iff)

lemma take_other: "(u, c) \<noteq> (ue, cc) \<Longrightarrow> pair_view u c (take_rbg env ue cc i z st) = pair_view u c st"
  by (auto simp: pair_view_def take_rbg_def holds_def ctrl_upd_ctrl upd2_apply fun_eq_iff)

lemma allocate_fold:
  assumes "dlsch_scheduler_pre_processor_allocate env amask ue cc st = Some st'" "cc_rbg env cc = Some n" "cc_prb env cc = Some r"
  shows "st' = fold (allocate_rbg env amask ue cc n r (get_min_rb_unit r)) [0..n - 1] st"
  using assms by (simp add: dlsch_scheduler_pre_processor_allocate_def)

lemma allocate_other:
  assumes "dlsch_scheduler_pre_processor_allocate env amask ue cc st = Some st'" "(u, c) \<noteq> (ue, cc)"
  shows "pair_view u c st' = pair_view u c st"
proof -
  obtain n r where st': "st' = fold (allocate_rbg env amask ue cc n r (get_min_rb_unit r)) [0..n - 1] st"
    using assms(1) by (auto simp: dlsch_scheduler_pre_processor_allocate_def split: Option.bind_splits)
  have "pair_view u c (allocate_rbg env amask ue cc n r (get_min_rb_unit r) i s) = pair_view u c s" for i s
    using allocate_rbg_cases [of env amask ue cc n r "get_min_rb_unit r" i s] by cases (simp_all only: take_other [OF assms(2)])
  then show ?thesis unfolding st' by (rule fold_same)
qed

text \<open>The state of one UE on one carrier: the groups it holds make up the blocks given, and blocks given and remaining make up \<open>b\<close>.\<close>

definition balanced :: "pp_state \<Rightarrow> int \<Rightarrow> int \<Rightarrow> int \<Rightarrow> int \<Rightarrow> int \<Rightarrow> bool" where
  "balanced st u c n r b \<longleftrightarrow> given st u c = rbs_held st u c n r \<and> given st u c + nb_rbs_remaining st c u = b \<and> 0 \<le> nb_rbs_remaining st c u"

lemma rbs_held_nonneg: "0 < get_min_rb_unit r \<Longrightarrow> 0 \<le> rbs_held st u c n r"
  unfolding rbs_held_def by (rule sum_nonneg) (simp add: rbg_size_def)

lemma take_held:
  assumes "0 \<le> i" "i < n" "\<not> holds st u c i"
  shows "rbs_held (take_rbg env u c i z st) u c n r = rbs_held st u c n r + rbg_size n r (get_min_rb_unit r) i"
proof -
  let ?z = "\<lambda>j. rbg_size n r (get_min_rb_unit r) j"
  have h: "holds (take_rbg env u c i z st) u c j \<longleftrightarrow> j = i \<or> holds st u c j" for j
    by (auto simp: take_rbg_def holds_def ctrl_upd_ctrl upd2_apply)
  have i: "i \<in> {0..<n}" using assms by simp
  have "rbs_held (take_rbg env u c i z st) u c n r = ?z i + (\<Sum>j\<in>{0..<n} - {i}. if holds st u c j then ?z j else 0)"
    unfolding rbs_held_def h by (subst sum.remove [OF _ i]) (auto intro!: sum.cong)
  also have "(\<Sum>j\<in>{0..<n} - {i}. if holds st u c j then ?z j else 0) = rbs_held st u c n r"
    unfolding rbs_held_def using sum.remove [OF _ i, of "\<lambda>j. if holds st u c j then ?z j else 0"] assms(3) by simp
  finally show ?thesis by simp
qed

lemma allocate_balanced:
  assumes "dlsch_scheduler_pre_processor_allocate env amask u c st = Some st'" "cc_rbg env c = Some n" "cc_prb env c = Some r"
    and "0 < get_min_rb_unit r" "b < 65536" "balanced st u c n r b"
  shows "balanced st' u c n r b \<and> nb_rbs_required st' = nb_rbs_required st \<and> nb_rbs_accounted st' = nb_rbs_accounted st"
  unfolding allocate_fold [OF assms(1-3)]
proof (rule fold_inv)
  fix i s
  let ?u = "get_min_rb_unit r" and ?z = "rbg_size n r (get_min_rb_unit r) i"
  let ?s = "allocate_rbg env amask u c n r ?u i s"
  assume i: "i \<in> set [0..n - 1]"
    and s: "balanced s u c n r b \<and> nb_rbs_required s = nb_rbs_required st \<and> nb_rbs_accounted s = nb_rbs_accounted st"
  show "balanced ?s u c n r b \<and> nb_rbs_required ?s = nb_rbs_required st \<and> nb_rbs_accounted ?s = nb_rbs_accounted st"
    using allocate_rbg_cases [of env amask u c n r ?u i s]
  proof cases
    case skip
    then show ?thesis using s by (simp only:)
  next
    case taken
    have b: "given s u c = rbs_held s u c n r" "given s u c + nb_rbs_remaining s c u = b" using s by (simp_all add: balanced_def)
    have g: "0 \<le> given s u c" using rbs_held_nonneg [OF assms(4)] b(1) by simp
    have z: "0 \<le> ?z" using assms(4) by (simp add: rbg_size_def)
    have w: "to_u16 (given s u c + ?z) = given s u c + ?z" "to_u16 (nb_rbs_remaining s c u - ?z) = nb_rbs_remaining s c u - ?z"
      using g z b(2) taken(4) assms(5) by (simp_all add: to_u16_id)
    have "rbs_held ?s u c n r = rbs_held s u c n r + ?z" unfolding taken(5) by (rule take_held [OF _ _ taken(2)]) (use i in auto)
    moreover have "given ?s u c = given s u c + ?z" "nb_rbs_remaining ?s c u = nb_rbs_remaining s c u - ?z"
      unfolding taken(5) by (simp_all add: take_rbg_def ctrl_upd_ctrl upd2_apply w)
    moreover have "nb_rbs_required ?s = nb_rbs_required s" "nb_rbs_accounted ?s = nb_rbs_accounted s" unfolding taken(5) by (simp_all add: take_rbg_def)
    ultimately show ?thesis using s b taken(4) by (simp add: balanced_def)
  qed
qed (use assms(6) in simp)

lemma pair_other:
  assumes "q \<noteq> (u, c)" "f q s = Some s'" "f = position_pair env amask \<or> f = share_pair env amask"
  shows "pair_view u c s' = pair_view u c s"
proof -
  obtain ue cc where q: "q = (ue, cc)" by (cases q)
  have "\<exists>v. dlsch_scheduler_pre_processor_allocate env amask ue cc (s\<lparr>nb_rbs_remaining := upd2 (nb_rbs_remaining s) cc ue v\<rparr>) = Some s'"
    using assms(2,3) by (auto simp: q position_pair_def share_pair_def)
  then obtain v where v: "dlsch_scheduler_pre_processor_allocate env amask ue cc (s\<lparr>nb_rbs_remaining := upd2 (nb_rbs_remaining s) cc ue v\<rparr>) = Some s'" by blast
  have n: "(u, c) \<noteq> (ue, cc)" using assms(1) q by blast
  show ?thesis unfolding allocate_other [OF v n] using n by (auto simp: pair_view_def holds_def upd2_apply)
qed

lemma position_self:
  assumes "position_pair env amask (u, c) s = Some s'" "cc_rbg env c = Some n" "cc_prb env c = Some r" "0 < get_min_rb_unit r"
    and "given s u c = 0" "rbs_held s u c n r = 0" "u16 (nb_rbs_accounted s c u)"
  shows "balanced s' u c n r (nb_rbs_accounted s' c u) \<and> nb_rbs_accounted s' c u = nb_rbs_accounted s c u \<and> nb_rbs_required s' c u = nb_rbs_required s c u"
proof -
  let ?s = "s\<lparr>nb_rbs_remaining := upd2 (nb_rbs_remaining s) c u (nb_rbs_accounted s c u)\<rparr>"
  have run: "dlsch_scheduler_pre_processor_allocate env amask u c ?s = Some s'" using assms(1) by (simp add: position_pair_def)
  have "balanced ?s u c n r (nb_rbs_accounted s c u)"
    using assms(5-7) by (simp add: balanced_def rbs_held_def holds_def upd2_apply)
  then have "balanced s' u c n r (nb_rbs_accounted s c u) \<and> nb_rbs_required s' = nb_rbs_required ?s \<and> nb_rbs_accounted s' = nb_rbs_accounted ?s"
    using assms(7) by (intro allocate_balanced [OF run assms(2-4)]) simp_all
  then show ?thesis by simp
qed

lemma share_self:
  assumes "share_pair env amask (u, c) s = Some s'" "cc_rbg env c = Some n" "cc_prb env c = Some r" "0 < get_min_rb_unit r"
    and "balanced s u c n r (nb_rbs_accounted s c u)" "nb_rbs_accounted s c u \<le> nb_rbs_required s c u" "u16 (nb_rbs_required s c u)"
  shows "balanced s' u c n r (nb_rbs_required s' c u)"
proof -
  let ?v = "to_u16 (nb_rbs_required s c u - nb_rbs_accounted s c u + nb_rbs_remaining s c u)"
  let ?s = "s\<lparr>nb_rbs_remaining := upd2 (nb_rbs_remaining s) c u ?v\<rparr>"
  have run: "dlsch_scheduler_pre_processor_allocate env amask u c ?s = Some s'" using assms(1) by (simp add: share_pair_def)
  have b: "given s u c = rbs_held s u c n r" "given s u c + nb_rbs_remaining s c u = nb_rbs_accounted s c u" "0 \<le> nb_rbs_remaining s c u"
    using assms(5) by (simp_all add: balanced_def)
  have "0 \<le> given s u c" using rbs_held_nonneg [OF assms(4)] b(1) by simp
  then have v: "?v = nb_rbs_required s c u - given s u c" using b(2,3) assms(6,7) by (simp add: to_u16_id)
  have h: "rbs_held ?s u c n r = rbs_held s u c n r" by (simp add: rbs_held_def holds_def)
  have "balanced ?s u c n r (nb_rbs_required s c u)"
    unfolding balanced_def h using v b assms(6) by (simp add: upd2_apply)
  then have "balanced s' u c n r (nb_rbs_required s c u) \<and> nb_rbs_required s' = nb_rbs_required ?s \<and> nb_rbs_accounted s' = nb_rbs_accounted ?s"
    using assms(7) by (intro allocate_balanced [OF run assms(2-4)]) simp_all
  then show ?thesis by simp
qed

lemma balanced_view: "pair_view u c s = pair_view u c t \<Longrightarrow> balanced s u c n r b = balanced t u c n r b"
  using pair_viewD [of u c s t] by (simp add: balanced_def)

lemma position_all:
  assumes "ofold (position_pair env amask) ps s = Some s'" "distinct ps" "cc_rbg env c = Some n" "cc_prb env c = Some r" "0 < get_min_rb_unit r"
    and "given s u c = 0" "rbs_held s u c n r = 0" "u16 (nb_rbs_accounted s c u)"
  shows "(if (u, c) \<in> set ps then balanced s' u c n r (nb_rbs_accounted s' c u) else given s' u c = 0 \<and> rbs_held s' u c n r = 0)
    \<and> nb_rbs_accounted s' c u = nb_rbs_accounted s c u \<and> nb_rbs_required s' c u = nb_rbs_required s c u"
proof (cases "(u, c) \<in> set ps")
  case True
  obtain t t' where t: "pair_view u c t = pair_view u c s" "position_pair env amask (u, c) t = Some t'" "pair_view u c s' = pair_view u c t'"
    using ofold_once [OF assms(1,2) True, of "pair_view u c"] pair_other by blast
  have "balanced t' u c n r (nb_rbs_accounted t' c u) \<and> nb_rbs_accounted t' c u = nb_rbs_accounted t c u \<and> nb_rbs_required t' c u = nb_rbs_required t c u"
    by (rule position_self [OF t(2) assms(3-5)]) (use assms(6-8) pair_viewD [OF t(1)] in simp_all)
  then have "balanced t' u c n r (nb_rbs_accounted t' c u)" "nb_rbs_accounted t' c u = nb_rbs_accounted t c u"
    "nb_rbs_required t' c u = nb_rbs_required t c u" by blast+
  then show ?thesis using True balanced_view [OF t(3)] pair_viewD [OF t(1)] pair_viewD [OF t(3)] by simp
next
  case False
  have "pair_view u c s' = pair_view u c s" using ofold_none [OF assms(1) False, of "pair_view u c"] pair_other by blast
  then show ?thesis using False pair_viewD [of u c s' s] assms(6,7) by simp
qed

lemma share_all:
  assumes "ofold (share_pair env amask) ps s = Some s'" "distinct ps" "cc_rbg env c = Some n" "cc_prb env c = Some r" "0 < get_min_rb_unit r"
    and "if (u, c) \<in> set ps then balanced s u c n r (nb_rbs_accounted s c u) else given s u c = 0 \<and> rbs_held s u c n r = 0"
    and "nb_rbs_accounted s c u \<le> nb_rbs_required s c u" "u16 (nb_rbs_required s c u)"
  shows "given s' u c = rbs_held s' u c n r \<and> given s' u c \<le> nb_rbs_required s' c u"
proof (cases "(u, c) \<in> set ps")
  case True
  obtain t t' where t: "pair_view u c t = pair_view u c s" "share_pair env amask (u, c) t = Some t'" "pair_view u c s' = pair_view u c t'"
    using ofold_once [OF assms(1,2) True, of "pair_view u c"] pair_other by blast
  have "balanced t' u c n r (nb_rbs_required t' c u)"
    by (rule share_self [OF t(2) assms(3-5)]) (use assms(6-8) True balanced_view [OF t(1)] pair_viewD [OF t(1)] in simp_all)
  then show ?thesis using balanced_view [OF t(3)] pair_viewD [OF t(3)] by (simp add: balanced_def)
next
  case False
  have "pair_view u c s' = pair_view u c s" using ofold_none [OF assms(1) False, of "pair_view u c"] pair_other by blast
  then show ?thesis using False pair_viewD [of u c s' s] assms(6,8) by simp
qed

section \<open>Accounted blocks\<close>

lemma fold_le:
  assumes "\<forall>c u. nb_rbs_accounted st c u \<le> nb_rbs_required st c u"
  shows "\<forall>c u. nb_rbs_accounted (snd (fold greedy_pair ps (avl, st))) c u \<le> nb_rbs_required (snd (fold greedy_pair ps (avl, st))) c u"
    "\<forall>c u. nb_rbs_accounted (fold (fair_pair a) ps st) c u \<le> nb_rbs_required (fold (fair_pair a) ps st) c u"
    "\<forall>c u. nb_rbs_accounted (fold (retx_pair env) ps st) c u \<le> nb_rbs_required (fold (retx_pair env) ps st) c u"
proof -
  let ?P = "\<lambda>s. \<forall>c u. nb_rbs_accounted s c u \<le> nb_rbs_required s c u"
  have g: "?P (snd (greedy_pair p as))" if "?P (snd as)" for p as
    using that by (auto simp: greedy_pair_def Let_def upd2_apply split: prod.splits)
  show "?P (snd (fold greedy_pair ps (avl, st)))"
    by (rule fold_inv [where P = "\<lambda>as. ?P (snd as)"]) (simp add: assms, erule g)
  have f: "?P (fair_pair a p s)" if "?P s" for p s using that by (auto simp: fair_pair_def upd2_apply split: prod.splits)
  show "?P (fold (fair_pair a) ps st)" by (rule fold_inv [where P = ?P], rule assms, erule f)
  have r: "?P (retx_pair env p s)" if "?P s" for p s using that by (auto simp: retx_pair_def upd2_apply split: prod.splits)
  show "?P (fold (retx_pair env) ps st)" by (rule fold_inv [where P = ?P], rule assms, erule r)
qed

lemma partitioning_accounted:
  assumes "dlsch_scheduler_pre_processor_partitioning env sl rx st = Some st'"
  shows "nb_rbs_accounted st' = nb_rbs_accounted st" "nb_rbs_required st' = nb_rbs_required st"
proof -
  obtain ps where ps: "ofold (partition_pair env sl rx) ps st = Some st'"
    using assms by (auto simp: dlsch_scheduler_pre_processor_partitioning_def split: Option.bind_splits)
  show "nb_rbs_accounted st' = nb_rbs_accounted st" "nb_rbs_required st' = nb_rbs_required st"
    by (rule ofold_same [OF _ ps], auto simp: partition_pair_def Let_def split: prod.splits Option.bind_splits)+
qed

lemma accounting_le:
  assumes "dlsch_scheduler_pre_processor_accounting env sl st = Some st'" "pp_typed st" "nb_rbs_accounted st = (\<lambda>_ _. 0)"
  shows "nb_rbs_accounted st' c u \<le> nb_rbs_required st' c u"
  using assms(1)
proof (rule accounting_steps)
  fix ps k st1 and st2 :: pp_state and st3
  let ?avl = "\<lambda>cc. if head_dl (pp_list st2) < 0 then 0 else max_rbs_allowed_slice (UE_sched_ctrl (pp_list st2) (head_dl (pp_list st2))) cc sl"
  assume k: "fold (count_pair env) ps (\<lparr>rbs_retx = (\<lambda>_. 0), ue_count_newtx = (\<lambda>_. 0)\<rparr>, st) = (k, st1)"
    and p: "dlsch_scheduler_pre_processor_partitioning env sl (rbs_retx k) st1 = Some st2"
    and m: "(\<exists>avl. st3 = snd (fold greedy_pair ps (avl, st2)) \<and> avl = ?avl)
     \<or> (\<exists>average. ofold (average_pair env sl (ue_count_newtx k) (pp_list st2)) ps (\<lambda>_. 0) = Some average \<and> st3 = fold (fair_pair average) ps st2)"
    and r: "st' = fold (retx_pair env) ps st3"
  have t: "pp_typed st1" using typed_count [OF k assms(2)] by simp
  have "nb_rbs_accounted (snd (count_pair env q cs)) = nb_rbs_accounted (snd cs)" for q cs by (simp add: count_pair_def Let_def split: prod.splits)
  then have "nb_rbs_accounted (snd (fold (count_pair env) ps (\<lparr>rbs_retx = (\<lambda>_. 0), ue_count_newtx = (\<lambda>_. 0)\<rparr>, st))) = nb_rbs_accounted st"
    using fold_same [where v = "\<lambda>cs. nb_rbs_accounted (snd cs)" and f = "count_pair env"] by simp
  then have "nb_rbs_accounted st1 = (\<lambda>_ _. 0)" using k assms(3) by simp
  then have "\<forall>c u. nb_rbs_accounted st2 c u \<le> nb_rbs_required st2 c u"
    using t partitioning_accounted [OF p] by (simp add: pp_typed_def)
  then have "\<forall>c u. nb_rbs_accounted st3 c u \<le> nb_rbs_required st3 c u" using m fold_le(1,2) [of st2] by blast
  then show ?thesis unfolding r using fold_le(3) [of st3] by blast
qed

lemma pairs_distinct:
  assumes "listed env sl st" "ue_cc_pairs env sl (pp_list st) = Some ps"
  shows "distinct ps"
proof -
  obtain xs where xs: "ue_walk (next_dl (pp_list st)) (head_dl (pp_list st)) = Some xs" "set xs \<subseteq> {0..<MAX_MOBILES_PER_ENB}"
    and ok: "list_ok env (pp_list st)" using assms(1) by (auto simp: listed_def pp_ok_def)
  let ?ys = "filter (dl_schedulable env sl (pp_list st)) xs"
  have ps: "ps = concat (map (\<lambda>u. map (Pair u) (ue_ccs (pp_list st) u)) ?ys)" using assms(2) xs(1) by (simp add: ue_cc_pairs_def)
  have d: "distinct ?ys" using xs(1) by (simp add: walk_linked linked_def)
  have c: "distinct (ue_ccs (pp_list st) u)" if "u \<in> set ?ys" for u
    using that ok xs(2) by (auto simp: list_ok_def dl_schedulable_def ue_dl_slice_membership_def)
  have "distinct (concat (map (\<lambda>u. map (Pair u) (ue_ccs (pp_list st) u)) ys))"
    if "distinct ys" "\<forall>u\<in>set ys. distinct (ue_ccs (pp_list st) u)" for ys
    using that by (induction ys) (auto simp: distinct_map inj_on_def)
  then show ?thesis unfolding ps using d c by blast
qed

lemma pairs_upd_ctrl:
  assumes "\<And>k. ul_out_of_sync (f k) = ul_out_of_sync k"
  shows "ue_cc_pairs env sl (upd_ctrl ue f l) = ue_cc_pairs env sl l"
proof -
  have "dl_schedulable env sl (upd_ctrl ue f l) = dl_schedulable env sl l"
    using assms by (auto simp: dl_schedulable_def upd_ctrl_def UE_RNTI_def ue_dl_slice_membership_def fun_eq_iff)
  moreover have "ue_ccs (upd_ctrl ue f l) = ue_ccs l" by (simp add: ue_ccs_def upd_ctrl_def fun_eq_iff)
  ultimately show ?thesis by (simp add: ue_cc_pairs_def upd_ctrl_def)
qed

lemma position_pairs:
  assumes "ofold (position_pair env amask) qs st = Some st'"
  shows "ue_cc_pairs env sl (pp_list st') = ue_cc_pairs env sl (pp_list st)"
proof (rule ofold_same [OF _ assms])
  fix q s s'
  assume "position_pair env amask q s = Some s'"
  then obtain ue cc v n r where s': "s' = fold (allocate_rbg env amask ue cc n r (get_min_rb_unit r)) [0..n - 1] (s\<lparr>nb_rbs_remaining := v\<rparr>)"
    by (auto simp: position_pair_def dlsch_scheduler_pre_processor_allocate_def split: prod.splits Option.bind_splits)
  have t: "ue_cc_pairs env sl (pp_list (take_rbg env ue cc i z x)) = ue_cc_pairs env sl (pp_list x)" for i z x
    by (simp add: take_rbg_def pairs_upd_ctrl)
  have "ue_cc_pairs env sl (pp_list (allocate_rbg env amask ue cc n r (get_min_rb_unit r) i x)) = ue_cc_pairs env sl (pp_list x)" for i x
    using allocate_rbg_cases [of env amask ue cc n r "get_min_rb_unit r" i x]
    by cases (simp_all only: t)
  then have "ue_cc_pairs env sl (pp_list (fold (allocate_rbg env amask ue cc n r (get_min_rb_unit r)) is x)) = ue_cc_pairs env sl (pp_list x)" for "is" x
    by (rule fold_same)
  then show "ue_cc_pairs env sl (pp_list s') = ue_cc_pairs env sl (pp_list s)" unfolding s' by simp
qed

lemma accounted_before:
  "dlsch_scheduler_pre_processor_reset env sl st = Some st' \<Longrightarrow> nb_rbs_accounted st' = nb_rbs_accounted st"
  "assign_rbs_required env sl st = Some st' \<Longrightarrow> nb_rbs_accounted st' = nb_rbs_accounted st"
  "sort_UEs env sl st = Some st' \<Longrightarrow> nb_rbs_accounted st' = nb_rbs_accounted st"
proof -
  have cc: "nb_rbs_accounted s' = nb_rbs_accounted s" if "reset_cc env sl cc s = Some s'" for cc s s'
    using that
  proof (cases rule: reset_cc_cases)
    case (2 n b)
    have m: "nb_rbs_accounted (fold (mark_rbg cc b) is x) = nb_rbs_accounted x" for "is" x by (rule fold_same) (simp add: mark_rbg_def)
    have u: "nb_rbs_accounted (fold (reset_ue env sl cc n) is x) = nb_rbs_accounted x" for "is" x by (rule fold_same) (simp add: reset_ue_def Let_def)
    show ?thesis unfolding 2(3) m u ..
  qed simp
  show "dlsch_scheduler_pre_processor_reset env sl st = Some st' \<Longrightarrow> nb_rbs_accounted st' = nb_rbs_accounted st"
    unfolding dlsch_scheduler_pre_processor_reset_def using ofold_same [where f = "reset_cc env sl" and v = nb_rbs_accounted] cc by blast
  have rc: "nb_rbs_accounted s' = nb_rbs_accounted s" if "required_cc env sl ue c s = Some s'" for ue c s s'
    using that by (auto simp: required_cc_def Let_def split: Option.bind_splits)
  have ue: "nb_rbs_accounted s' = nb_rbs_accounted s" if a: "assign_ue env sl ue s = Some s'" for ue s s'
  proof -
    have "s' = s \<or> (\<exists>l ccs. s' = s\<lparr>pp_list := l\<rparr> \<or> ofold (required_cc env sl ue) ccs (s\<lparr>pp_list := l\<rparr>) = Some s')"
      using a unfolding assign_ue_def Let_def by (auto split: if_splits Option.bind_splits)
    then show ?thesis using ofold_same [where f = "required_cc env sl ue" and v = nb_rbs_accounted, OF rc] by auto
  qed
  show "assign_rbs_required env sl st = Some st' \<Longrightarrow> nb_rbs_accounted st' = nb_rbs_accounted st"
    unfolding assign_rbs_required_def using ofold_same [where f = "assign_ue env sl" and v = nb_rbs_accounted] ue by blast
  show "sort_UEs env sl st = Some st' \<Longrightarrow> nb_rbs_accounted st' = nb_rbs_accounted st"
    by (auto simp: sort_UEs_def decode_sorting_policy_def Let_def split: prod.splits if_splits)
qed

lemma view_cleared: "alloc_view s = alloc_view t \<Longrightarrow> cleared s = cleared t"
  by (simp add: alloc_view_def cleared_def holds_def fun_eq_iff)

lemma cleared_zero: "cleared st u c n \<Longrightarrow> given st u c = 0 \<and> rbs_held st u c n r = 0"
  by (simp add: cleared_def rbs_held_def)

lemma listed_after_sort:
  assumes "pp_ok env sl st" "dlsch_scheduler_pre_processor_reset env sl (st\<lparr>nb_rbs_required := (\<lambda>_ _. 0), nb_rbs_accounted := (\<lambda>_ _. 0),
       nb_rbs_remaining := (\<lambda>_ _. 0), slice_allocation_mask := (\<lambda>_. 0), MIMO_mode_indicator := (\<lambda>_ _. 0), pp_mcs := (\<lambda>_ _. 0)\<rparr>) = Some st1"
    "assign_rbs_required env sl (st1\<lparr>pp_list := store_dlsch_buffer env sl (pp_list st1)\<rparr>) = Some st2" "sort_UEs env sl st2 = Some st3"
  shows "listed env sl st3"
proof -
  let ?st = "st\<lparr>nb_rbs_required := (\<lambda>_ _. 0), nb_rbs_accounted := (\<lambda>_ _. 0), nb_rbs_remaining := (\<lambda>_ _. 0),
       slice_allocation_mask := (\<lambda>_. 0), MIMO_mode_indicator := (\<lambda>_ _. 0), pp_mcs := (\<lambda>_ _. 0)\<rparr>"
  let ?st1 = "st1\<lparr>pp_list := store_dlsch_buffer env sl (pp_list st1)\<rparr>"
  have ok0: "pp_ok env sl ?st" using assms(1) by (simp add: pp_ok_def)
  then have "pp_static st1 = pp_static ?st" using reset_total [of env sl ?st] assms(2) by (auto simp: pp_ok_def)
  then have "pp_static ?st1 = pp_static ?st" by (simp add: pp_static_def store_static)
  then have ok1: "pp_ok env sl ?st1" using pp_ok_static ok0 by blast
  then have "pp_static st2 = pp_static ?st1" using assign_total [of env sl ?st1] assms(3) by auto
  then have "pp_ok env sl st2" using pp_ok_static ok1 by blast
  then show ?thesis using pp_listed_sorted assms(4) by blast
qed

lemma pre_processor_bounded:
  assumes "dlsch_scheduler_pre_processor env sl st = Some st'" "pp_ok env sl st" "harq_ok env" "ctrl_typed (pp_list st)"
    and "mbsfn_flag env cc \<le> 0" "cc_rbg env cc = Some n" "cc_prb env cc = Some r" "slice_member env sl (pp_list st) u"
  shows "given st' u cc = rbs_held st' u cc n r \<and> given st' u cc \<le> nb_rbs_required st' cc u"
  using assms(1)
proof (rule pre_processor_steps)
  fix st1 st2 st3 st4 st5
  let ?z = "st\<lparr>nb_rbs_required := (\<lambda>_ _. 0), nb_rbs_accounted := (\<lambda>_ _. 0), nb_rbs_remaining := (\<lambda>_ _. 0),
       slice_allocation_mask := (\<lambda>_. 0), MIMO_mode_indicator := (\<lambda>_ _. 0), pp_mcs := (\<lambda>_ _. 0)\<rparr>"
  assume r: "dlsch_scheduler_pre_processor_reset env sl ?z = Some st1"
    and a: "assign_rbs_required env sl (st1\<lparr>pp_list := store_dlsch_buffer env sl (pp_list st1)\<rparr>) = Some st2"
    and s: "sort_UEs env sl st2 = Some st3" and c: "dlsch_scheduler_pre_processor_accounting env sl st3 = Some st4"
    and p: "dlsch_scheduler_pre_processor_positioning env sl st4 = Some st5"
    and h: "if intraslice_share_active env then dlsch_scheduler_pre_processor_intraslice_sharing env sl st5 = Some st' else st' = st5"
  have cc: "0 \<le> cc" "cc < nb_mac_CC env" using cc_rbg_bound [OF assms(6)] by simp_all
  have unit: "0 < get_min_rb_unit r"
    using cells_cases [OF _ cc] unit_bounds assms(2,7) unfolding pp_ok_def by (metis option.inject)
  have t3: "pp_typed st3"
  proof -
    have "pp_typed ?z" using assms(4) by (simp add: pp_typed_def)
    then have "pp_typed st1" by (rule typed_reset [OF _ r])
    then have "pp_typed (st1\<lparr>pp_list := store_dlsch_buffer env sl (pp_list st1)\<rparr>)" by (rule typed_list) (simp_all add: store_ctrl store_nb_rb)
    then show ?thesis by (intro typed_sort [OF s] typed_assign [OF a])
  qed
  then have t4: "pp_typed st4" by (rule typed_accounting [OF c])
  have "nb_rbs_accounted st3 = (\<lambda>_ _. 0)" using accounted_before(3) [OF s] accounted_before(2) [OF a] accounted_before(1) [OF r] by simp
  then have le: "nb_rbs_accounted st4 cc u \<le> nb_rbs_required st4 cc u" by (rule accounting_le [OF c t3])
  have l3: "listed env sl st3" by (rule listed_after_sort [OF assms(2) r a s])
  obtain x where "dlsch_scheduler_pre_processor_accounting env sl st3 = Some x" "frame_view x = frame_view st3"
    using accounting_total [OF l3 assms(3)] by blast
  then have "frame_view st4 = frame_view st3" using c by simp
  then have l4: "listed env sl st4" using l3 listed_frame by blast
  have "cleared st1 u cc n" using reset_spec(2) [OF r cc] assms(5,6,8) by (simp add: reset_done_def)
  moreover have "alloc_view st4 = alloc_view st1"
    using view_accounting [OF c] view_sort [OF s] view_assign [OF a] view_ctrl [OF store_ctrl [of env sl "pp_list st1"]] by simp
  ultimately have z4: "given st4 u cc = 0" "rbs_held st4 u cc n r = 0" using view_cleared cleared_zero by metis+
  obtain am ps where ps: "ue_cc_pairs env sl (pp_list st4) = Some ps" and run: "ofold (position_pair env am) ps st4 = Some st5"
    using p by (auto simp: dlsch_scheduler_pre_processor_positioning_def split: Option.bind_splits)
  have d: "distinct ps" by (rule pairs_distinct [OF l4 ps])
  have "u16 (nb_rbs_accounted st4 cc u)" "u16 (nb_rbs_required st4 cc u)" using t4 by (simp_all add: pp_typed_def)
  note p5 = conjunct1 [OF position_all [OF run d assms(6,7) unit z4 this(1)]] conjunct2 [OF position_all [OF run d assms(6,7) unit z4 this(1)]] this(2)
  show ?thesis
  proof (cases "intraslice_share_active env")
    case True
    obtain am' where run': "ofold (share_pair env am') ps (st5\<lparr>slice_allocation_mask := am'\<rparr>) = Some st'"
      using h True position_pairs [OF run, of sl] ps by (auto simp: dlsch_scheduler_pre_processor_intraslice_sharing_def split: Option.bind_splits)
    have v: "pair_view u cc (st5\<lparr>slice_allocation_mask := am'\<rparr>) = pair_view u cc st5" by (simp add: pair_view_def holds_def fun_eq_iff)
    show ?thesis by (rule share_all [OF run' d assms(6,7) unit]) (use p5 le balanced_view [OF v] pair_viewD [OF v] in \<open>simp_all split: if_splits\<close>)
  next
    case False
    then have "st' = st5" using h by simp
    then show ?thesis using p5 le rbs_held_nonneg [OF unit] by (auto simp: balanced_def split: if_splits)
  qed
qed

lemma typed_add_new_ue: "ctrl_typed (UE_list m) \<Longrightarrow> ctrl_typed (UE_list (snd (add_new_ue cc r pid rach m)))"
  by (auto simp: ctrl_typed_def add_new_ue_def Let_def upd2_apply add_template_def add_sched_ctrl_def ue_template_0_def ue_sched_ctrl_0_def)

lemma typed_init: "ctrl_typed (init_UE_list l)"
  by (simp add: ctrl_typed_def init_UE_list_def ue_template_0_def ue_sched_ctrl_0_def)

lemma pp_1_typed: "ctrl_typed (pp_list pp_1)"
proof -
  have "ctrl_typed (UE_list mac_0)" using typed_init by (simp add: mac_0_def)
  then show ?thesis unfolding pp_1_def by (simp add: typed_add_new_ue)
qed

section \<open>Properties\<close>



text \<open>
  C38. The downlink pre-processor never gives a UE more blocks than it requires, and the number it reports
  is right: for a UE of the slice it is the sum of the sizes of the resource block groups the UE holds, as the
  allocation counts them, and at most the number of blocks required, also after the blocks left over are shared in a second pass.
\<close>
theorem dlsch_pre_processor_bounded:
  assumes "dlsch_scheduler_pre_processor env sl st = Some st'" "pp_ok env sl st" "harq_ok env" "ctrl_typed (pp_list st)"
    and "mbsfn_flag env cc \<le> 0" "cc_rbg env cc = Some n" "cc_prb env cc = Some r" "slice_member env sl (pp_list st) u"
  shows "pre_nb_available_rbs (UE_sched_ctrl (pp_list st') u) cc
      = (\<Sum>i\<in>{0..<n}. if holds st' u cc i then rbg_size n r (get_min_rb_unit r) i else 0)
    \<and> pre_nb_available_rbs (UE_sched_ctrl (pp_list st') u) cc \<le> nb_rbs_required st' cc u"
  using pre_processor_bounded [OF assms] by (simp add: rbs_held_def)

theorem dlsch_pre_processor_bounded_witness:
  "\<exists>st'. dlsch_scheduler_pre_processor env_1 0 pp_1 = Some st' \<and> pre_nb_available_rbs (UE_sched_ctrl (pp_list st') 1) 0 \<le> nb_rbs_required st' 0 1"
proof -
  obtain st' where run: "dlsch_scheduler_pre_processor env_1 0 pp_1 = Some st'" using pre_processor_total [OF pp_1_ok] by blast
  have c: "mbsfn_flag env_1 0 \<le> 0" "cc_rbg env_1 0 = Some 13" "cc_prb env_1 0 = Some 25" "slice_member env_1 0 (pp_list pp_1) 1" by code_simp+
  show ?thesis using dlsch_pre_processor_bounded [OF run pp_1_ok pp_1_typed c] run by blast
qed

end
