(* ===== verification/Spec2Isabelle.thy ===== *)
theory Spec2Isabelle
  imports Mem_Pool Rlc_Bearer Pdcp_Layer_Correct Mac_Pre_Dl_Bounds
begin

text \<open>
  Layer 2 of the LTE base station of OpenAirInterface.

  \<^bold>\<open>The program.\<close> The repository holds a software eNB and UE: the physical layer (\<open>openair1\<close>), layer 2 and RRC
  (\<open>openair2\<close>), the core network interfaces and NAS (\<open>openair3\<close>), the interface between MAC and PHY (\<open>nfapi\<close>) and the
  programs that tie them together (\<open>targets\<close>). The development models layer 2 from the bottom of its data
  structures to the scheduler. PDCP numbers the packets of a radio bearer, protects and ciphers
  them and hands them to RLC; RLC finds the entity of the bearer, transparent or unacknowledged, queues
  them, cuts and joins them into PDUs of the sizes MAC grants, and on the other side reorders the PDUs and
  rebuilds the packets, which PDCP opens and delivers to RRC, GTP-U or the IP driver; MAC decides in every subframe which UE gets which resource blocks and where the
  control messages stand. All of it passes memory blocks in linked lists from a common pool and finds its
  entities in hash tables.

  \<^bold>\<open>Conventions.\<close> A C integer is an \<open>int\<close> with the conversion to the declared type written where the code
  assigns (\<open>to_u8\<close>, \<open>to_u16\<close>, \<open>to_u32\<close> of \<open>Oai_Prelude\<close>), or a machine word where the code works on bits. An array
  is a function of its index, or a list where its length matters; a struct is a record with the names of its
  fields; shared memory blocks are a heap of pointers. A failed assertion, an access outside an array and an
  endless loop are \<open>None\<close>. Loops are recursive functions; those the code bounds by nothing are
  \<open>partial_function (option)\<close> or carry fuel, and it is proved that they return. Code of other layers that a
  function calls (memory allocation, transport block sizes, RLC and RRC status seen from MAC) is a parameter.

  \<^bold>\<open>The theories.\<close>

  \<^item> \<open>Oai_Prelude\<close>: conversions, C division, byte memory, folds, lists.
  \<^item> \<open>Mem_List\<close> (\<open>UTIL/LISTS/list.c\<close>, \<open>list2.c\<close>): both list libraries over a heap. The locales \<open>mem_queue\<close> and
    \<open>mem_deque\<close> state the contract of a queue and a double-ended queue; the interpretations show that the lists
    meet it and that lists with disjoint blocks do not disturb each other.
  \<^item> \<open>Mem_Pool\<close> (\<open>UTIL/MEM/mem_block.c\<close>): initialisation, allocation and release. Every block is in exactly one
    free list or in use; allocation takes the best fit; releasing a list returns all its blocks.
  \<^item> \<open>Hash_Table\<close> (\<open>common/utils/hashtable\<close>): the table implements a finite map (locale \<open>key_table\<close>); the counter
    (\<open>counted_table\<close>), iteration and resizing with what it releases.
  \<^item> \<open>Pdcp_Seq\<close> (\<open>PDCP_v10.1.0\<close>): sequence numbers, hyper frame numbers and COUNT, the bitmap of received packets,
    the header codecs. COUNT values are not reused, transmitter and receiver stay synchronised, headers are
    read back as written.
  \<^item> \<open>Osa_Security\<close> (\<open>UTIL/OSA\<close>): SNOW 3G, the ciphers EEA0, EEA1, EEA2 and the integrity codes EIA1, EIA2, with AES
    counter mode and CMAC of Nettle and OpenSSL as parameters. The locale \<open>keystream_cipher\<close> is the contract of a
    cipher that adds a key stream; each algorithm meets it, so that ciphering twice restores the message.
  \<^item> \<open>Pdcp_Layer\<close>, \<open>Pdcp_Layer_Correct\<close> (\<open>pdcp.c\<close>, \<open>pdcp_security.c\<close>): the collection of entities, data request and
    indication, security, statistics, configuration from RRC messages, release. A bearer set up with the same keys on
    both sides is a pair of entities, and a pair carries SDUs unchanged. The layer accepts signalling
    messages with a wrong integrity code, and the eNB discards half of the numbers of an acknowledged data bearer.
  \<^item> \<open>Rlc_Um_Entity\<close>, \<open>Rlc_Um_Segment\<close>, \<open>Rlc_Um_Window\<close>, \<open>Rlc_Um_Reassembly\<close>, \<open>Rlc_Um_Dar\<close>, \<open>Rlc_Um\<close>
    (\<open>RLC/UM_v9.3.0\<close>): the entity and its state machine, segmentation and concatenation, the reordering window,
    reassembly, reordering with its timer, and the interface to PDCP and MAC. What is sent is what the receiver
    delivers, in order, completely and without duplicates; the receiver keeps its window invariant for every
    sequence of events.
  \<^item> \<open>Rlc_Tm\<close> (\<open>RLC/TM_v9.3.0\<close>): the transparent entity; what one entity sends, its peer delivers.
  \<^item> \<open>Rlc_Layer\<close>, \<open>Rlc_Layer_Correct\<close>, \<open>Rlc_Bearer\<close> (\<open>rlc.c\<close>, \<open>rlc_rrc.c\<close>, \<open>rlc_mac.c\<close>): the collection of entities
    under the keys of their bearer and of their channel, the dispatch of the requests of PDCP, MAC and RRC, creation and release. The
    acknowledged entity is a parameter (\<open>am_ops\<close>). Whatever happens on the other bearers, an unacknowledged bearer
    carries its SDUs through the dispatch of both sides, complete and in order.
  \<^item> \<open>Mac_Prb\<close>, \<open>Mac_Cce\<close> (\<open>MAC/eNB_scheduler_primitives.c\<close>): bandwidth tables, resource indication values and
    bitmaps; the size of the control region, search spaces and the allocation of control channel elements,
    which never overlap.
  \<^item> \<open>Mac_Ue_List\<close> (\<open>UE_list_t\<close>): the table of UEs implements a map from RNTI to entry; its two linked lists
    implement a visiting order (locale \<open>ue_order\<close>).
  \<^item> \<open>Mac_Pre_Dl\<close>, \<open>Mac_Pre_Dl_Correct\<close>, \<open>Mac_Pre_Dl_Bounds\<close> (\<open>MAC/pre_processor.c\<close>): the downlink
    pre-processor of a slice. The comparison of UEs is a total preorder (locale \<open>cmp_order\<close>). The pre-processor returns, sorts the UEs by the criteria of the slice, gives every resource
    block group to one UE at most and no UE more than it requires, and keeps its numbers in range.

  \<^bold>\<open>Fuel.\<close> The loops of the RLC UM receiver carry the number of sequence numbers as fuel: every round
  advances the sequence number by one, and the invariant of the window bounds the distance. The loops of the pre-processor and over the UE list need none: they are partial functions
  whose termination is a theorem.

  \<^bold>\<open>Not modelled.\<close> The physical layer, signal processing on sample arrays; RRC, S1AP, X2AP and NAS, which work on
  structures generated from ASN.1; the nFAPI codecs; AES itself, which the code takes from Nettle and OpenSSL;
  sockets, threads and timers of the operating system; logging, tracing and statistics output; the simulators. Of layer
  2: RLC AM, which is a parameter of the dispatch; the sockets and the task loop of PDCP; and of MAC the schedulers
  proper, random access and the uplink pre-processor. Code under \<open>TM5\<close>, which no build enables, is left out.
\<close>

end
